(* ===== verification/Prelude.thy ===== *)
theory Prelude imports Main "HOL-Library.Code_Target_Numeral" begin

text \<open>
  What every component of the development shares: bytes and ASCII predicates of Rust's
  \<open>u8\<close> and \<open>str\<close>, checked indexing and slicing, the two loop shapes the scanners use
  (skip while a predicate holds, first window equal to a pattern), and the collections of
  facts the component proofs draw on.  A Rust \<open>String\<close> is its UTF-8 bytes: a HOL
  \<open>string\<close> whose characters are the bytes, so \<open>length\<close> is \<open>str::len\<close>.
\<close>

named_theorems byte_defs "definitions of the ASCII predicates"

named_theorems bounds "positions a scanner returns stay inside its input"

section \<open>Bytes\<close>

definition byte :: "char \<Rightarrow> nat" where
  "byte c = of_char c"

definition is_ascii :: "char \<Rightarrow> bool" where
  [byte_defs]: "is_ascii c \<longleftrightarrow> byte c < 128"

text \<open>Rust's ASCII whitespace has no vertical tab.\<close>

definition is_ascii_whitespace :: "char \<Rightarrow> bool" where
  [byte_defs]: "is_ascii_whitespace c \<longleftrightarrow>
     byte c = 32 \<or> byte c = 9 \<or> byte c = 10 \<or> byte c = 12 \<or> byte c = 13"

definition is_ascii_digit :: "char \<Rightarrow> bool" where
  [byte_defs]: "is_ascii_digit c \<longleftrightarrow> 48 \<le> byte c \<and> byte c \<le> 57"

definition is_ascii_upper :: "char \<Rightarrow> bool" where
  [byte_defs]: "is_ascii_upper c \<longleftrightarrow> 65 \<le> byte c \<and> byte c \<le> 90"

definition is_ascii_lower :: "char \<Rightarrow> bool" where
  [byte_defs]: "is_ascii_lower c \<longleftrightarrow> 97 \<le> byte c \<and> byte c \<le> 122"

definition is_ascii_alphabetic :: "char \<Rightarrow> bool" where
  [byte_defs]: "is_ascii_alphabetic c \<longleftrightarrow> is_ascii_upper c \<or> is_ascii_lower c"

definition is_ascii_alphanumeric :: "char \<Rightarrow> bool" where
  [byte_defs]: "is_ascii_alphanumeric c \<longleftrightarrow> is_ascii_alphabetic c \<or> is_ascii_digit c"

definition to_ascii_lowercase :: "char \<Rightarrow> char" where
  "to_ascii_lowercase c = (if is_ascii_upper c then char_of (byte c + 32) else c)"

definition to_ascii_uppercase :: "char \<Rightarrow> char" where
  "to_ascii_uppercase c = (if is_ascii_lower c then char_of (byte c - 32) else c)"

definition eq_ignore_ascii_case :: "string \<Rightarrow> string \<Rightarrow> bool" where
  "eq_ignore_ascii_case a b \<longleftrightarrow> map to_ascii_lowercase a = map to_ascii_lowercase b"

abbreviation LF :: char where "LF \<equiv> CHR 0x0A"
abbreviation CR :: char where "CR \<equiv> CHR 0x0D"
abbreviation NUL :: char where "NUL \<equiv> CHR 0x00"
abbreviation SQUOTE :: char where "SQUOTE \<equiv> CHR 0x27"
abbreviation DQUOTE :: char where "DQUOTE \<equiv> CHR 0x22"
abbreviation BACKTICK :: char where "BACKTICK \<equiv> CHR 0x60"
abbreviation BACKSLASH :: char where "BACKSLASH \<equiv> CHR 0x5C"

lemma byte_inject [simp]: "byte a = byte b \<longleftrightarrow> a = b"
  by (simp add: byte_def)

lemma byte_less_256: "byte c < 256"
  by (simp add: byte_def)

lemma eq_ignore_ascii_case_refl [simp]: "eq_ignore_ascii_case a a"
  by (simp add: eq_ignore_ascii_case_def)

lemma eq_ignore_ascii_case_sym: "eq_ignore_ascii_case a b \<Longrightarrow> eq_ignore_ascii_case b a"
  by (simp add: eq_ignore_ascii_case_def)

lemma eq_ignore_ascii_case_trans:
  "eq_ignore_ascii_case a b \<Longrightarrow> eq_ignore_ascii_case b c \<Longrightarrow> eq_ignore_ascii_case a c"
  by (simp add: eq_ignore_ascii_case_def)

section \<open>Checked indexing and slices\<close>

text \<open>\<open>slice::get\<close>: no value out of range.\<close>

primrec get :: "'a list \<Rightarrow> nat \<Rightarrow> 'a option" where
  "get [] i = None"
| "get (x # xs) i = (case i of 0 \<Rightarrow> Some x | Suc j \<Rightarrow> get xs j)"

lemma get_conv_nth: "get xs i = (if i < length xs then Some (xs ! i) else None)"
  by (induction xs arbitrary: i) (auto split: nat.splits)

lemma get_Some_iff: "get xs i = Some x \<longleftrightarrow> i < length xs \<and> xs ! i = x"
  by (simp add: get_conv_nth)

lemma get_None_iff [simp]: "get xs i = None \<longleftrightarrow> length xs \<le> i"
  by (simp add: get_conv_nth)

lemma get_SomeD [dest, bounds]: "get xs i = Some x \<Longrightarrow> i < length xs"
  by (simp add: get_Some_iff)

lemma get_append_length [simp]: "get (pre @ x # xs) (length pre) = Some x"
  by (simp add: get_conv_nth)

lemma get_append_right: "get (pre @ xs) (length pre + i) = get xs i"
  by (simp add: get_conv_nth nth_append)

text \<open>\<open>&xs[a..b]\<close>; Rust panics unless \<open>a \<le> b \<le> len\<close>, which the clients establish.\<close>

definition slice :: "'a list \<Rightarrow> nat \<Rightarrow> nat \<Rightarrow> 'a list" where
  "slice xs a b = take (b - a) (drop a xs)"

lemma length_slice: "b \<le> length xs \<Longrightarrow> length (slice xs a b) = b - a"
  by (simp add: slice_def)

lemma slice_split:
  assumes "a \<le> b" "b \<le> c"
  shows "slice xs a b @ slice xs b c = slice xs a c"
proof -
  from assms have "c - a = (b - a) + (c - b)" and "b = (b - a) + a" by simp_all
  then show ?thesis
    unfolding slice_def by (metis drop_drop take_add)
qed

lemma slice_all [simp]: "slice xs 0 (length xs) = xs"
  by (simp add: slice_def)

lemma slice_append_right:
  "slice (pre @ xs) (length pre + a) (length pre + b) = slice xs a b"
  by (simp add: slice_def)

lemma nth_slice: "a + i < b \<Longrightarrow> b \<le> length xs \<Longrightarrow> slice xs a b ! i = xs ! (a + i)"
  by (simp add: slice_def)

section \<open>Loop shapes\<close>

text \<open>\<open>while i < xs.len() && p(xs[i]) { i += 1 }\<close>\<close>

function skip_while :: "('a \<Rightarrow> bool) \<Rightarrow> 'a list \<Rightarrow> nat \<Rightarrow> nat" where
  "skip_while p xs i =
     (case get xs i of Some x \<Rightarrow> if p x then skip_while p xs (Suc i) else i | None \<Rightarrow> i)"
  by pat_completeness auto
termination by (relation "measure (\<lambda>(p, xs, i). length xs - i)") auto

declare skip_while.simps [simp del]

lemma skip_while_ge [bounds]: "i \<le> skip_while p xs i"
  by (induction p xs i rule: skip_while.induct)
     (subst skip_while.simps, auto split: option.splits)

lemma skip_while_le [bounds]: "i \<le> length xs \<Longrightarrow> skip_while p xs i \<le> length xs"
  by (induction p xs i rule: skip_while.induct)
     (subst skip_while.simps, auto simp: Suc_le_eq split: option.splits)

lemma skip_while_append:
  "skip_while p (pre @ xs) (length pre) = length pre + length (takeWhile p xs)"
proof (induction xs arbitrary: pre)
  case Nil
  show ?case by (subst skip_while.simps) (simp add: get_conv_nth)
next
  case (Cons x xs)
  from Cons [of "pre @ [x]"] show ?case
    by (subst skip_while.simps) simp
qed

lemma skip_while_takeWhile:
  assumes "i \<le> length xs"
  shows "skip_while p xs i = i + length (takeWhile p (drop i xs))"
  using skip_while_append [of p "take i xs" "drop i xs"] assms by simp

lemma skip_while_cong:
  "(\<And>x. x \<in> set xs \<Longrightarrow> p x = q x) \<Longrightarrow> skip_while p xs i = skip_while q xs i"
proof (induction p xs i rule: skip_while.induct)
  case (1 p xs i)
  then show ?case
    by (subst (1 2) skip_while.simps) (auto simp: get_Some_iff split: option.splits)
qed

text \<open>
  \<open>xs[i..].windows(pat.len()).position(|w| w == pat).map(|o| i + o)\<close>: the first
  position from \<open>i\<close> on at which \<open>pat\<close> occurs.
\<close>

function find_window :: "'a list \<Rightarrow> 'a list \<Rightarrow> nat \<Rightarrow> nat option" where
  "find_window pat xs i =
     (if length xs < i + length pat then None
      else if slice xs i (i + length pat) = pat then Some i
      else if i < length xs then find_window pat xs (Suc i) else None)"
  by pat_completeness auto
termination by (relation "measure (\<lambda>(pat, xs, i). length xs - i)") auto

declare find_window.simps [simp del]

lemma find_window_SomeD:
  "find_window pat xs i = Some j \<Longrightarrow>
     i \<le> j \<and> j + length pat \<le> length xs \<and> slice xs j (j + length pat) = pat"
proof (induction pat xs i rule: find_window.induct)
  case (1 pat xs i)
  then show ?case
    by (subst (asm) (2) find_window.simps) (auto split: if_splits simp: Suc_leD)
qed

lemma find_window_bounds [bounds]:
  assumes "find_window pat xs i = Some j"
  shows "i \<le> j" "j + length pat \<le> length xs"
  using find_window_SomeD [OF assms] by auto

text \<open>The window found is the first one.\<close>

lemma find_window_first:
  "find_window pat xs i = Some j \<Longrightarrow> i \<le> k \<Longrightarrow> k < j \<Longrightarrow>
     slice xs k (k + length pat) \<noteq> pat"
proof (induction pat xs i rule: find_window.induct)
  case (1 pat xs i)
  then show ?case
    by (subst (asm) (2) find_window.simps)
       (cases "k = i", auto split: if_splits simp: Suc_le_eq le_neq_implies_less)
qed

text \<open>\<open>usize::MAX\<close> on the 64-bit targets the application is built for.\<close>

definition usize_max :: nat where
  "usize_max = 18446744073709551615"

text \<open>Character count of UTF-8 text: every byte but a continuation byte starts one.\<close>

definition is_utf8_continuation :: "char \<Rightarrow> bool" where
  "is_utf8_continuation c \<longleftrightarrow> 128 \<le> byte c \<and> byte c < 192"

definition chars_count :: "string \<Rightarrow> nat" where
  "chars_count s = length (filter (\<lambda>c. \<not> is_utf8_continuation c) s)"

lemma chars_count_append [simp]: "chars_count (a @ b) = chars_count a + chars_count b"
  by (simp add: chars_count_def)

lemma chars_count_Nil [simp]: "chars_count [] = 0"
  by (simp add: chars_count_def)

lemma chars_count_le: "chars_count s \<le> length s"
  by (simp add: chars_count_def)

lemma chars_count_ascii: "(\<forall>c\<in>set s. is_ascii c) \<Longrightarrow> chars_count s = length s"
  by (induction s) (auto simp: chars_count_def is_utf8_continuation_def is_ascii_def)

section \<open>Decimal numerals and 32-bit counters\<close>

text \<open>\<open>format!("{}", n)\<close> of an unsigned integer.\<close>

fun decimal :: "nat \<Rightarrow> string" where
  "decimal n =
     (if n < 10 then [char_of (48 + n)] else decimal (n div 10) @ [char_of (48 + n mod 10)])"

declare decimal.simps [simp del]

text \<open>\<open>join\<close> of a vector of strings.\<close>

fun join :: "string \<Rightarrow> string list \<Rightarrow> string" where
  "join sep [] = []"
| "join sep [x] = x"
| "join sep (x # y # ys) = x @ sep @ join sep (y # ys)"

lemma decimal_ascii: "\<forall>c\<in>set (decimal n). is_ascii c"
  by (induction n rule: decimal.induct)
    (subst decimal.simps, auto simp: is_ascii_def byte_def)

lemma decimal_not_Nil [simp]: "decimal n \<noteq> []"
  by (subst decimal.simps) simp

text \<open>A value stored in a \<open>u32\<close> by \<open>as u32\<close> or by wrapping addition.\<close>

definition u32 :: "nat \<Rightarrow> nat" where
  "u32 n = n mod 2 ^ 32"

lemma u32_small [simp]: "n < 2 ^ 32 \<Longrightarrow> u32 n = n"
  by (simp add: u32_def)

section \<open>The first element that satisfies a predicate\<close>

text \<open>\<open>iter_mut().find(..)\<close> with a change, and \<open>position(..)\<close> with \<open>remove\<close>.\<close>

fun update_first :: "('a \<Rightarrow> bool) \<Rightarrow> ('a \<Rightarrow> 'a) \<Rightarrow> 'a list \<Rightarrow> 'a list" where
  "update_first p f [] = []"
| "update_first p f (x # xs) = (if p x then f x # xs else x # update_first p f xs)"

fun remove_first :: "('a \<Rightarrow> bool) \<Rightarrow> 'a list \<Rightarrow> 'a list" where
  "remove_first p [] = []"
| "remove_first p (x # xs) = (if p x then xs else x # remove_first p xs)"

lemma length_remove_first:
  "\<exists>x\<in>set xs. p x \<Longrightarrow> Suc (length (remove_first p xs)) = length xs"
  by (induction xs) auto

lemma set_remove_first: "set (remove_first p xs) \<subseteq> set xs"
  by (induction xs) auto

lemma update_first_map:
  assumes unique: "distinct (map k xs)" and key: "\<And>x. p x \<Longrightarrow> k x = a"
  shows "update_first p f xs = map (\<lambda>x. if p x then f x else x) xs"
  using unique
proof (induction xs)
  case (Cons x xs)
  have "\<not> p y" if "p x" "y \<in> set xs" for y
    using Cons.prems key [OF that(1)] key [of y] that(2) by (auto simp: image_iff)
  with Cons show ?case by (auto intro: map_idI [symmetric])
qed simp

end
