(* ===== verification/SqlLex.thy ===== *)
theory SqlLex imports Prelude begin

text \<open>
  The SQL lexer of \<open>backend/src/postgres/sql_lex.rs\<close>, the one scan behind the statement
  classifier and the parameter scanner, together with the quoting helpers of
  \<open>backend/src/lib.rs\<close> whose output it reads back.  \<open>lex_step\<close> is the \<open>match\<close> on the
  current byte, \<open>lex_loop\<close> the \<open>while\<close> around it.  An inner \<open>Result<_, ()>\<close> is an option;
  the loop's \<open>SqlLexError\<close> is the left summand.
\<close>

section \<open>Tokens, errors, dialects\<close>

record sql_identifier =
  ident_value :: string
  ident_quoted :: bool

datatype sql_token = Identifier sql_identifier | Symbol char | Opaque

record spanned_token =
  sp_token :: sql_token
  sp_start :: nat
  sp_end :: nat

datatype sql_lex_error = InvalidSql | TooManyTokens

datatype sql_dialect = Postgres | MySql | Sqlite

section \<open>Scanners of one construct\<close>

definition is_identifier_start :: "char \<Rightarrow> bool" where
  [byte_defs]: "is_identifier_start b \<longleftrightarrow> is_ascii_alphabetic b \<or> b = CHR ''_''"

definition is_identifier_continue :: "char \<Rightarrow> bool" where
  [byte_defs]: "is_identifier_continue b \<longleftrightarrow>
     is_identifier_start b \<or> is_ascii_digit b \<or> b = CHR ''$''"

definition mysql_dash_comment_follows :: "char option \<Rightarrow> bool" where
  "mysql_dash_comment_follows nxt =
     (case nxt of None \<Rightarrow> True | Some b \<Rightarrow> byte b \<le> 32 \<or> byte b = 127)"

definition line_comment_end :: "string \<Rightarrow> nat \<Rightarrow> nat" where
  "line_comment_end bytes index = skip_while (\<lambda>b. b \<noteq> LF) bytes index"

definition flat_block_comment_end :: "string \<Rightarrow> nat \<Rightarrow> nat option" where
  "flat_block_comment_end bytes index =
     (if length bytes < index then None
      else map_option (\<lambda>k. k + 2) (find_window ''*/'' bytes index))"

definition starts_with_at :: "string \<Rightarrow> nat \<Rightarrow> string \<Rightarrow> bool" where
  "starts_with_at bytes index pat \<longleftrightarrow> slice bytes index (index + length pat) = pat"

definition executable_comment_body :: "string \<Rightarrow> nat \<Rightarrow> nat option" where
  "executable_comment_body bytes index =
     (if starts_with_at bytes index ''/*!'' then Some (skip_while is_ascii_digit bytes (index + 3))
      else if starts_with_at bytes index ''/*M!'' then
        Some (skip_while is_ascii_digit bytes (index + 4))
      else None)"

function block_comment_loop :: "string \<Rightarrow> nat \<Rightarrow> nat \<Rightarrow> nat option" where
  "block_comment_loop bytes index depth =
     (if index < length bytes then
        if starts_with_at bytes index ''/*'' then block_comment_loop bytes (index + 2) (depth + 1)
        else if starts_with_at bytes index ''*/'' then
          if depth - 1 = 0 then Some (index + 2) else block_comment_loop bytes (index + 2) (depth - 1)
        else block_comment_loop bytes (index + 1) depth
      else None)"
  by pat_completeness auto
termination by (relation "measure (\<lambda>(bytes, index, depth). length bytes - index)") auto

declare block_comment_loop.simps [simp del]

definition lex_block_comment :: "string \<Rightarrow> nat \<Rightarrow> nat option" where
  "lex_block_comment bytes index = block_comment_loop bytes index 1"

function scan_quoted :: "string \<Rightarrow> nat \<Rightarrow> char \<Rightarrow> bool \<Rightarrow> nat option" where
  "scan_quoted bytes index quote escapes =
     (case get bytes index of
        None \<Rightarrow> None
      | Some b \<Rightarrow>
          if b = quote \<and> get bytes (index + 1) = Some quote
          then scan_quoted bytes (index + 2) quote escapes
          else if b = quote then Some (index + 1)
          else if b = BACKSLASH \<and> escapes \<and> index + 1 < length bytes
          then scan_quoted bytes (index + 2) quote escapes
          else scan_quoted bytes (index + 1) quote escapes)"
  by pat_completeness auto
termination
  by (relation "measure (\<lambda>(bytes, index, quote, escapes). length bytes - index)") auto

declare scan_quoted.simps [simp del]

definition lex_ambiguous_quote :: "string \<Rightarrow> nat \<Rightarrow> char \<Rightarrow> nat option" where
  "lex_ambiguous_quote bytes index quote =
     (case scan_quoted bytes index quote False of
        None \<Rightarrow> None
      | Some literal_end \<Rightarrow>
          (case scan_quoted bytes index quote True of
             None \<Rightarrow> None
           | Some escaped_end \<Rightarrow>
               if literal_end = escaped_end then Some literal_end else None))"

definition lex_single_quote :: "string \<Rightarrow> nat \<Rightarrow> bool \<Rightarrow> nat option" where
  "lex_single_quote bytes index escapes =
     (if escapes then scan_quoted bytes index SQUOTE True
      else lex_ambiguous_quote bytes index SQUOTE)"

function quoted_identifier_loop ::
  "string \<Rightarrow> nat \<Rightarrow> char \<Rightarrow> string \<Rightarrow> nat \<Rightarrow> (string \<times> nat) option" where
  "quoted_identifier_loop sql index quote value segment =
     (case get sql index of
        None \<Rightarrow> None
      | Some b \<Rightarrow>
          if b \<noteq> quote then quoted_identifier_loop sql (index + 1) quote value segment
          else if get sql (index + 1) = Some quote
          then quoted_identifier_loop sql (index + 2) quote
                 (value @ slice sql segment index @ [quote]) (index + 2)
          else Some (value @ slice sql segment index, index + 1))"
  by pat_completeness auto
termination
  by (relation "measure (\<lambda>(sql, index, quote, value, segment). length sql - index)") auto

declare quoted_identifier_loop.simps [simp del]

definition lex_quoted_identifier :: "string \<Rightarrow> nat \<Rightarrow> char \<Rightarrow> (string \<times> nat) option" where
  "lex_quoted_identifier sql index quote = quoted_identifier_loop sql index quote [] index"

definition is_tag_continue :: "char \<Rightarrow> bool" where
  [byte_defs]: "is_tag_continue b \<longleftrightarrow> is_ascii_alphanumeric b \<or> b = CHR ''_''"

definition satisfies :: "('a \<Rightarrow> bool) \<Rightarrow> 'a option \<Rightarrow> bool" where
  "satisfies p x = (case x of None \<Rightarrow> False | Some a \<Rightarrow> p a)"

definition dollar_body :: "string \<Rightarrow> nat \<Rightarrow> nat \<Rightarrow> nat option" where
  "dollar_body bytes index tag_end =
     (if get bytes tag_end \<noteq> Some (CHR ''$'') then None
      else let delimiter = slice bytes index (tag_end + 1)
           in map_option (\<lambda>k. k + length delimiter) (find_window delimiter bytes (tag_end + 1)))"

definition lex_dollar :: "string \<Rightarrow> nat \<Rightarrow> nat option" where
  "lex_dollar bytes index =
     (if satisfies is_ascii_digit (get bytes (index + 1))
      then Some (skip_while is_ascii_digit bytes (index + 2))
      else if get bytes (index + 1) = Some (CHR ''$'') then dollar_body bytes index (index + 1)
      else if satisfies is_identifier_start (get bytes (index + 1))
      then dollar_body bytes index (skip_while is_tag_continue bytes (index + 2))
      else None)"

section \<open>The loop\<close>

text \<open>
  One iteration at a byte \<open>b\<close>: the token, if the construct is not whitespace or a comment,
  the next index, and whether the scan is inside a MySQL executable comment.
\<close>

type_synonym lex_result = "sql_lex_error + (sql_token option \<times> nat \<times> bool)"

definition skip_to :: "nat option \<Rightarrow> bool \<Rightarrow> lex_result" where
  "skip_to r exec = (case r of None \<Rightarrow> Inl InvalidSql | Some i \<Rightarrow> Inr (None, i, exec))"

definition opaque_to :: "nat option \<Rightarrow> bool \<Rightarrow> lex_result" where
  "opaque_to r exec = (case r of None \<Rightarrow> Inl InvalidSql | Some i \<Rightarrow> Inr (Some Opaque, i, exec))"

definition quoted_identifier_to :: "(string \<times> nat) option \<Rightarrow> bool \<Rightarrow> lex_result" where
  "quoted_identifier_to r exec =
     (case r of
        None \<Rightarrow> Inl InvalidSql
      | Some (v, i) \<Rightarrow>
          Inr (Some (Identifier \<lparr>ident_value = v, ident_quoted = True\<rparr>), i, exec))"

definition lex_comment_open :: "sql_dialect \<Rightarrow> string \<Rightarrow> bool \<Rightarrow> nat \<Rightarrow> lex_result" where
  "lex_comment_open dialect bytes exec index =
     (case dialect of
        Postgres \<Rightarrow> skip_to (lex_block_comment bytes (index + 2)) exec
      | Sqlite \<Rightarrow>
          Inr (None, (case flat_block_comment_end bytes (index + 2) of
                        Some e \<Rightarrow> e | None \<Rightarrow> length bytes), exec)
      | MySql \<Rightarrow>
          (case executable_comment_body bytes index of
             Some body \<Rightarrow> if exec then Inl InvalidSql else Inr (Some Opaque, body, True)
           | None \<Rightarrow> skip_to (flat_block_comment_end bytes (index + 2)) exec))"

definition lex_quote :: "sql_dialect \<Rightarrow> string \<Rightarrow> nat \<Rightarrow> nat option" where
  "lex_quote dialect bytes index =
     (case dialect of
        Postgres \<Rightarrow> lex_single_quote bytes (index + 1) False
      | MySql \<Rightarrow> lex_ambiguous_quote bytes (index + 1) SQUOTE
      | Sqlite \<Rightarrow> scan_quoted bytes (index + 1) SQUOTE False)"

definition lex_bracket :: "string \<Rightarrow> nat \<Rightarrow> (string \<times> nat) option" where
  "lex_bracket bytes index =
     (let close = skip_while (\<lambda>b. b \<noteq> CHR '']'') bytes (index + 1)
      in if close < length bytes then Some (slice bytes (index + 1) close, close + 1) else None)"

definition lex_word :: "sql_dialect \<Rightarrow> string \<Rightarrow> bool \<Rightarrow> nat \<Rightarrow> lex_result" where
  "lex_word dialect bytes exec index =
     (let i = skip_while is_identifier_continue bytes (index + 1);
          v = slice bytes index i
      in if dialect = Postgres \<and> eq_ignore_ascii_case v ''e'' \<and> get bytes i = Some SQUOTE
         then opaque_to (lex_single_quote bytes (i + 1) True) exec
         else Inr (Some (Identifier \<lparr>ident_value = v, ident_quoted = False\<rparr>), i, exec))"

definition is_symbol :: "char \<Rightarrow> bool" where
  "is_symbol b \<longleftrightarrow> b \<in> set ''()[],.;*''"

definition lex_step :: "sql_dialect \<Rightarrow> string \<Rightarrow> bool \<Rightarrow> nat \<Rightarrow> char \<Rightarrow> lex_result" where
  "lex_step dialect bytes exec index b =
     (let nxt = get bytes (index + 1) in
      if is_ascii_whitespace b then Inr (None, index + 1, exec)
      else if b = CHR ''-'' \<and> nxt = Some (CHR ''-'')
              \<and> (dialect \<noteq> MySql \<or> mysql_dash_comment_follows (get bytes (index + 2)))
      then Inr (None, line_comment_end bytes (index + 2), exec)
      else if b = CHR ''#'' \<and> dialect = MySql
      then Inr (None, line_comment_end bytes (index + 1), exec)
      else if b = CHR ''*'' \<and> exec \<and> nxt = Some (CHR ''/'') then Inr (None, index + 2, False)
      else if b = CHR ''/'' \<and> nxt = Some (CHR ''*'') then lex_comment_open dialect bytes exec index
      else if b = SQUOTE then opaque_to (lex_quote dialect bytes index) exec
      else if b = DQUOTE \<and> dialect = MySql
      then opaque_to (lex_ambiguous_quote bytes (index + 1) DQUOTE) exec
      else if b = DQUOTE
      then quoted_identifier_to (lex_quoted_identifier bytes (index + 1) DQUOTE) exec
      else if b = BACKTICK \<and> dialect \<noteq> Postgres
      then quoted_identifier_to (lex_quoted_identifier bytes (index + 1) BACKTICK) exec
      else if b = CHR ''['' \<and> dialect = Sqlite
      then quoted_identifier_to (lex_bracket bytes index) exec
      else if b = CHR ''$'' \<and> dialect = Postgres then opaque_to (lex_dollar bytes index) exec
      else if is_identifier_start b then lex_word dialect bytes exec index
      else if is_symbol b then Inr (Some (Symbol b), index + 1, exec)
      else if is_ascii b then Inr (Some Opaque, index + 1, exec)
      else Inl InvalidSql)"

section \<open>Every step makes progress and stays in range\<close>

lemma block_comment_loop_bounds [bounds]:
  "block_comment_loop bytes index depth = Some j \<Longrightarrow> index < j \<and> j \<le> length bytes"
proof (induction bytes index depth rule: block_comment_loop.induct)
  case (1 bytes index depth)
  have two: "starts_with_at bytes index [a, b] \<Longrightarrow> index + 2 \<le> length bytes" for a b
    unfolding starts_with_at_def slice_def
    by (drule arg_cong [where f = length]) simp
  from 1 show ?case
    by (subst (asm) (4) block_comment_loop.simps) (auto split: if_splits dest: two)
qed

lemma scan_quoted_bounds [bounds]:
  "scan_quoted bytes index quote escapes = Some j \<Longrightarrow> index < j \<and> j \<le> length bytes"
proof (induction bytes index quote escapes rule: scan_quoted.induct)
  case (1 bytes index quote escapes)
  then show ?case
    by (subst (asm) (4) scan_quoted.simps) (force split: option.splits if_splits)
qed

lemma lex_ambiguous_quote_SomeD:
  "lex_ambiguous_quote bytes index quote = Some j \<Longrightarrow>
     scan_quoted bytes index quote False = Some j \<and> scan_quoted bytes index quote True = Some j"
  by (auto simp: lex_ambiguous_quote_def split: option.splits if_splits)

lemma lex_ambiguous_quote_bounds [bounds]:
  "lex_ambiguous_quote bytes index quote = Some j \<Longrightarrow> index < j \<and> j \<le> length bytes"
  by (blast dest: lex_ambiguous_quote_SomeD scan_quoted_bounds)

lemma lex_single_quote_bounds [bounds]:
  "lex_single_quote bytes index escapes = Some j \<Longrightarrow> index < j \<and> j \<le> length bytes"
  by (auto simp: lex_single_quote_def split: if_splits
      dest: scan_quoted_bounds lex_ambiguous_quote_bounds)

lemma quoted_identifier_loop_bounds [bounds]:
  "quoted_identifier_loop sql index quote v segment = Some (w, j) \<Longrightarrow>
     index < j \<and> j \<le> length sql"
proof (induction sql index quote v segment rule: quoted_identifier_loop.induct)
  case (1 sql index quote v segment)
  then show ?case
    by (subst (asm) (3) quoted_identifier_loop.simps) (force split: option.splits if_splits)
qed

lemma lex_quoted_identifier_bounds [bounds]:
  "lex_quoted_identifier sql index quote = Some (w, j) \<Longrightarrow> index < j \<and> j \<le> length sql"
  unfolding lex_quoted_identifier_def by (rule quoted_identifier_loop_bounds)

lemma dollar_body_bounds [bounds]:
  "dollar_body bytes index tag_end = Some j \<Longrightarrow> tag_end < j \<and> j \<le> length bytes"
  by (auto simp: dollar_body_def Let_def split: if_splits dest!: find_window_SomeD)

lemma satisfies_Some [simp]: "satisfies p (Some a) = p a"
  and satisfies_None [simp]: "satisfies p None = False"
  by (simp_all add: satisfies_def)

lemma satisfies_iff: "satisfies p x \<longleftrightarrow> (\<exists>a. x = Some a \<and> p a)"
  by (cases x) simp_all

lemma lex_dollar_bounds [bounds]:
  assumes "lex_dollar bytes index = Some j"
  shows "index < j \<and> j \<le> length bytes"
proof -
  consider "satisfies is_ascii_digit (get bytes (index + 1))"
      "j = skip_while is_ascii_digit bytes (index + 2)"
    | "dollar_body bytes index (index + 1) = Some j"
    | "dollar_body bytes index (skip_while is_tag_continue bytes (index + 2)) = Some j"
    using assms by (auto simp: lex_dollar_def split: if_splits)
  then show ?thesis
  proof cases
    case 1
    then have "index + 2 \<le> length bytes" by (auto simp: satisfies_iff)
    with 1 show ?thesis
      using skip_while_ge [of "index + 2" is_ascii_digit bytes]
        skip_while_le [of "index + 2" bytes is_ascii_digit] by simp
  next
    case 2
    then show ?thesis by (auto dest: dollar_body_bounds)
  next
    case 3
    then show ?thesis
      using skip_while_ge [of "index + 2" is_tag_continue bytes]
      by (auto dest: dollar_body_bounds)
  qed
qed

lemma flat_block_comment_end_bounds [bounds]:
  "flat_block_comment_end bytes index = Some j \<Longrightarrow> index < j \<and> j \<le> length bytes"
  by (auto simp: flat_block_comment_end_def split: if_splits dest!: find_window_SomeD)

lemma starts_with_at_bound:
  "starts_with_at bytes index pat \<Longrightarrow> index \<le> length bytes \<Longrightarrow> index + length pat \<le> length bytes"
  unfolding starts_with_at_def slice_def by (drule arg_cong [where f = length]) simp

lemma executable_comment_body_bounds [bounds]:
  assumes "executable_comment_body bytes index = Some j" "index < length bytes"
  shows "index < j \<and> j \<le> length bytes"
  using assms starts_with_at_bound [of bytes index "''/*!''"]
    starts_with_at_bound [of bytes index "''/*M!''"]
    skip_while_ge [of "index + 3" is_ascii_digit bytes]
    skip_while_ge [of "index + 4" is_ascii_digit bytes]
    skip_while_le [of "index + 3" bytes is_ascii_digit]
    skip_while_le [of "index + 4" bytes is_ascii_digit]
  by (auto simp: executable_comment_body_def split: if_splits)

lemma lex_comment_open_bounds [bounds]:
  assumes "lex_comment_open dialect bytes exec index = Inr (t, j, exec')"
    and "index + 1 < length bytes"
  shows "index < j \<and> j \<le> length bytes"
  using assms
  by (auto simp: lex_comment_open_def skip_to_def lex_block_comment_def
      split: sql_dialect.splits option.splits if_splits
      dest!: block_comment_loop_bounds flat_block_comment_end_bounds
      dest: executable_comment_body_bounds)

lemma lex_bracket_bounds [bounds]:
  "lex_bracket bytes index = Some (v, j) \<Longrightarrow> index < j \<and> j \<le> length bytes"
  using skip_while_ge [of "index + 1" "\<lambda>b. b \<noteq> CHR '']''" bytes]
  by (auto simp: lex_bracket_def Let_def split: if_splits)

lemma lex_word_bounds [bounds]:
  assumes "lex_word dialect bytes exec index = Inr (t, j, exec')" "index < length bytes"
  shows "index < j \<and> j \<le> length bytes"
  using assms skip_while_ge [of "index + 1" is_identifier_continue bytes]
    skip_while_le [of "index + 1" bytes is_identifier_continue]
  by (auto simp: lex_word_def Let_def opaque_to_def split: if_splits option.splits
      dest!: lex_single_quote_bounds)

lemma lex_quote_bounds [bounds]:
  "lex_quote dialect bytes index = Some j \<Longrightarrow> index < j \<and> j \<le> length bytes"
  by (auto simp: lex_quote_def split: sql_dialect.splits
      dest!: lex_single_quote_bounds lex_ambiguous_quote_bounds scan_quoted_bounds)

lemma skip_to_InrD: "skip_to r exec = Inr (t, j, x) \<Longrightarrow> r = Some j \<and> t = None \<and> x = exec"
  by (auto simp: skip_to_def split: option.splits)

lemma opaque_to_InrD: "opaque_to r exec = Inr (t, j, x) \<Longrightarrow> r = Some j \<and> t = Some Opaque \<and> x = exec"
  by (auto simp: opaque_to_def split: option.splits)

lemma quoted_identifier_to_InrD:
  "quoted_identifier_to r exec = Inr (t, j, x) \<Longrightarrow>
     \<exists>v. r = Some (v, j) \<and> t = Some (Identifier \<lparr>ident_value = v, ident_quoted = True\<rparr>) \<and> x = exec"
  by (auto simp: quoted_identifier_to_def split: option.splits)

lemma lex_step_bounds [bounds]:
  assumes "lex_step dialect bytes exec index b = Inr (t, j, exec')" "get bytes index = Some b"
  shows "index < j \<and> j \<le> length bytes"
proof -
  have index: "index < length bytes" using assms(2) by blast
  have dash: "get bytes (index + 1) = Some c \<Longrightarrow> line_comment_end bytes (index + 2) \<le> length bytes"
    for c unfolding line_comment_end_def by (rule skip_while_le) auto
  have hash: "line_comment_end bytes (index + 1) \<le> length bytes"
    unfolding line_comment_end_def by (rule skip_while_le) (use index in simp)
  have ge: "index + 1 \<le> line_comment_end bytes (index + 1)"
    "index + 2 \<le> line_comment_end bytes (index + 2)"
    unfolding line_comment_end_def by (rule skip_while_ge)+
  show ?thesis
    using assms(1) index dash hash ge unfolding lex_step_def Let_def
    by (auto split: if_splits
        dest!: opaque_to_InrD quoted_identifier_to_InrD
        dest: lex_comment_open_bounds lex_quote_bounds lex_ambiguous_quote_bounds
          lex_quoted_identifier_bounds lex_bracket_bounds lex_dollar_bounds lex_word_bounds)
qed

function lex_loop ::
  "sql_dialect \<Rightarrow> nat \<Rightarrow> string \<Rightarrow> bool \<Rightarrow> nat \<Rightarrow> spanned_token list \<Rightarrow>
     sql_lex_error + spanned_token list" where
  "lex_loop dialect maximum_tokens bytes exec index tokens =
     (case get bytes index of
        None \<Rightarrow> if exec then Inl InvalidSql else Inr tokens
      | Some b \<Rightarrow>
          (case lex_step dialect bytes exec index b of
             Inl e \<Rightarrow> Inl e
           | Inr (None, j, exec') \<Rightarrow> lex_loop dialect maximum_tokens bytes exec' j tokens
           | Inr (Some t, j, exec') \<Rightarrow>
               if length tokens = maximum_tokens then Inl TooManyTokens
               else lex_loop dialect maximum_tokens bytes exec' j
                      (tokens @ [\<lparr>sp_token = t, sp_start = index, sp_end = j\<rparr>])))"
  by pat_completeness auto
termination
  by (relation "measure (\<lambda>(dialect, m, bytes, exec, index, tokens). length bytes - index)")
     (auto dest!: lex_step_bounds)

declare lex_loop.simps [simp del]

lemma lex_loop_stop:
  "length bytes \<le> index \<Longrightarrow>
     lex_loop dialect m bytes exec index tokens = (if exec then Inl InvalidSql else Inr tokens)"
  by (subst lex_loop.simps) (simp add: get_None_iff [THEN iffD2])

lemma lex_loop_error:
  "get bytes index = Some b \<Longrightarrow> lex_step dialect bytes exec index b = Inl e \<Longrightarrow>
     lex_loop dialect m bytes exec index tokens = Inl e"
  by (subst lex_loop.simps) simp

lemma lex_loop_skip:
  "get bytes index = Some b \<Longrightarrow> lex_step dialect bytes exec index b = Inr (None, j, x) \<Longrightarrow>
     lex_loop dialect m bytes exec index tokens = lex_loop dialect m bytes x j tokens"
  by (subst lex_loop.simps) simp

lemma lex_loop_token:
  "get bytes index = Some b \<Longrightarrow> lex_step dialect bytes exec index b = Inr (Some t, j, x) \<Longrightarrow>
     lex_loop dialect m bytes exec index tokens =
       (if length tokens = m then Inl TooManyTokens
        else lex_loop dialect m bytes x j
               (tokens @ [\<lparr>sp_token = t, sp_start = index, sp_end = j\<rparr>]))"
  by (subst lex_loop.simps) simp

lemmas lex_loop_eqs = lex_loop_stop lex_loop_error lex_loop_skip lex_loop_token

text \<open>The loop's own induction: what one iteration can do.\<close>

lemma lex_loop_cases_induct [case_names stop error skip token]:
  fixes P :: "bool \<Rightarrow> nat \<Rightarrow> spanned_token list \<Rightarrow> bool"
  assumes stop: "\<And>exec index tokens. length bytes \<le> index \<Longrightarrow> P exec index tokens"
    and error: "\<And>exec index tokens b e. get bytes index = Some b \<Longrightarrow>
      lex_step dialect bytes exec index b = Inl e \<Longrightarrow> P exec index tokens"
    and skip: "\<And>exec index tokens b j x. get bytes index = Some b \<Longrightarrow>
      lex_step dialect bytes exec index b = Inr (None, j, x) \<Longrightarrow> index < j \<Longrightarrow> j \<le> length bytes \<Longrightarrow>
      P x j tokens \<Longrightarrow> P exec index tokens"
    and token: "\<And>exec index tokens b t j x. get bytes index = Some b \<Longrightarrow>
      lex_step dialect bytes exec index b = Inr (Some t, j, x) \<Longrightarrow> index < j \<Longrightarrow> j \<le> length bytes \<Longrightarrow>
      P x j (tokens @ [\<lparr>sp_token = t, sp_start = index, sp_end = j\<rparr>]) \<Longrightarrow> P exec index tokens"
  shows "P exec index tokens"
proof (induction "length bytes - index" arbitrary: exec index tokens rule: less_induct)
  case less
  show ?case
  proof (cases "get bytes index")
    case None
    then show ?thesis by (simp add: stop)
  next
    case (Some b)
    show ?thesis
    proof (cases "lex_step dialect bytes exec index b")
      case (Inl e)
      with Some show ?thesis by (rule error)
    next
      case (Inr r)
      obtain t j x where r: "r = (t, j, x)" by (cases r)
      have j: "index < j" "j \<le> length bytes"
        using lex_step_bounds [OF Inr [unfolded r] Some] by auto
      then have IH: "P x j ts" for ts by (intro less) (use Some in auto)
      show ?thesis
        using skip [OF Some _ j IH] token [OF Some _ j IH] Inr r by (cases t) auto
    qed
  qed
qed

definition lex_dialect_bounded ::
  "string \<Rightarrow> nat \<Rightarrow> sql_dialect \<Rightarrow> sql_lex_error + spanned_token list" where
  "lex_dialect_bounded sql maximum_tokens dialect = lex_loop dialect maximum_tokens sql False 0 []"

definition lex_sql_spanned_bounded :: "string \<Rightarrow> nat \<Rightarrow> sql_lex_error + spanned_token list" where
  "lex_sql_spanned_bounded sql maximum_tokens = lex_dialect_bounded sql maximum_tokens Postgres"

definition ok :: "'e + 'a \<Rightarrow> 'a option" where
  "ok r = (case r of Inl _ \<Rightarrow> None | Inr a \<Rightarrow> Some a)"

definition lex_sql_spanned :: "string \<Rightarrow> spanned_token list option" where
  "lex_sql_spanned sql = ok (lex_sql_spanned_bounded sql usize_max)"

definition lex_sql :: "string \<Rightarrow> sql_token list option" where
  "lex_sql sql = map_option (map sp_token) (lex_sql_spanned sql)"

definition lex_sql_spanned_dialect :: "string \<Rightarrow> sql_dialect \<Rightarrow> spanned_token list option" where
  "lex_sql_spanned_dialect sql dialect = ok (lex_dialect_bounded sql usize_max dialect)"

definition is_executable_comment :: "string \<Rightarrow> spanned_token \<Rightarrow> bool" where
  "is_executable_comment sql sp \<longleftrightarrow>
     sp_token sp = Opaque \<and> starts_with_at sql (sp_start sp) ''/*''"

lemma ok_Some_iff [simp]: "ok r = Some a \<longleftrightarrow> r = Inr a"
  by (cases r) (simp_all add: ok_def)

lemma ok_None_iff: "ok r = None \<longleftrightarrow> (\<exists>e. r = Inl e)"
  by (cases r) (simp_all add: ok_def)

lemma lex_sql_spanned_Postgres: "lex_sql_spanned sql = lex_sql_spanned_dialect sql Postgres"
  by (simp add: lex_sql_spanned_def lex_sql_spanned_bounded_def lex_sql_spanned_dialect_def)

section \<open>Quoting helpers\<close>

definition replace_char :: "char \<Rightarrow> string \<Rightarrow> string \<Rightarrow> string" where
  "replace_char c by s = concat (map (\<lambda>x. if x = c then by else [x]) s)"

definition quote_double :: "string \<Rightarrow> string" where
  "quote_double identifier = [DQUOTE] @ replace_char DQUOTE [DQUOTE, DQUOTE] identifier @ [DQUOTE]"

definition quote_literal :: "string \<Rightarrow> string" where
  "quote_literal v =
     CHR ''E'' # SQUOTE #
       replace_char SQUOTE [SQUOTE, SQUOTE]
         (replace_char BACKSLASH [BACKSLASH, BACKSLASH] v) @ [SQUOTE]"

definition quote_backtick :: "string \<Rightarrow> string" where
  "quote_backtick identifier =
     [BACKTICK] @ replace_char BACKTICK [BACKTICK, BACKTICK] identifier @ [BACKTICK]"

datatype database_engine = PostgreSQL | MySQL | SQLite | ClickHouse | Redis

text \<open>\<open>None\<close> is the \<open>unreachable!\<close> panic on a Redis connection.\<close>

definition qualified_table_name :: "database_engine \<Rightarrow> string \<Rightarrow> string \<Rightarrow> string option" where
  "qualified_table_name engine schema table =
     (case engine of
        PostgreSQL \<Rightarrow>
          Some (if schema = [] then quote_double table
                else quote_double schema @ ''.'' @ quote_double table)
      | SQLite \<Rightarrow>
          Some (if schema = [] then quote_double table
                else quote_double schema @ ''.'' @ quote_double table)
      | MySQL \<Rightarrow>
          Some (if schema = [] then quote_backtick table
                else quote_backtick schema @ ''.'' @ quote_backtick table)
      | ClickHouse \<Rightarrow>
          Some (if schema = [] then quote_backtick table
                else quote_backtick schema @ ''.'' @ quote_backtick table)
      | Redis \<Rightarrow> None)"

end
