(* ===== verification/SqlClass.thy ===== *)
theory SqlClass imports SqlLex begin

text \<open>
  The statement classifier of \<open>backend/src/postgres/sql_class.rs\<close>: a script is split into
  statements at top-level semicolons and each statement is given the class the safety policy
  reads.  Token slices are lists; \<open>tokens[i..]\<close> is \<open>drop i\<close>; \<open>Result<_, ()>\<close> is an option.
\<close>

section \<open>Classes\<close>

datatype statement_class =
    Read
  | Dml (dml_unbounded: bool) (dml_destructive: bool)
  | Ddl (ddl_destructive: bool)
  | Transaction
  | Session
  | Unknown

datatype statement_class_kind = KRead | KDml | KDdl | KTransaction | KSession | KUnknown

record statement_class_summary =
  sum_index :: nat
  sum_class :: statement_class_kind
  sum_unbounded :: bool
  sum_destructive :: bool

fun summary :: "statement_class \<Rightarrow> nat \<Rightarrow> statement_class_summary" where
  "summary Read i =
     \<lparr>sum_index = i, sum_class = KRead, sum_unbounded = False, sum_destructive = False\<rparr>"
| "summary (Dml u d) i =
     \<lparr>sum_index = i, sum_class = KDml, sum_unbounded = u, sum_destructive = d\<rparr>"
| "summary (Ddl d) i =
     \<lparr>sum_index = i, sum_class = KDdl, sum_unbounded = False, sum_destructive = d\<rparr>"
| "summary Transaction i =
     \<lparr>sum_index = i, sum_class = KTransaction, sum_unbounded = False, sum_destructive = False\<rparr>"
| "summary Session i =
     \<lparr>sum_index = i, sum_class = KSession, sum_unbounded = False, sum_destructive = False\<rparr>"
| "summary Unknown i =
     \<lparr>sum_index = i, sum_class = KUnknown, sum_unbounded = False, sum_destructive = True\<rparr>"

fun label :: "statement_class \<Rightarrow> string" where
  "label Read = ''read''"
| "label (Dml u d) = ''dml''"
| "label (Ddl d) = ''ddl''"
| "label Transaction = ''transaction''"
| "label Session = ''session''"
| "label Unknown = ''unknown''"

section \<open>Token helpers\<close>

fun identifier_of :: "sql_token \<Rightarrow> sql_identifier option" where
  "identifier_of (Identifier i) = Some i"
| "identifier_of (Symbol c) = None"
| "identifier_of Opaque = None"

fun is_keyword :: "sql_token \<Rightarrow> string \<Rightarrow> bool" where
  "is_keyword (Identifier i) keyword \<longleftrightarrow>
     \<not> ident_quoted i \<and> eq_ignore_ascii_case (ident_value i) keyword"
| "is_keyword (Symbol c) keyword \<longleftrightarrow> False"
| "is_keyword Opaque keyword \<longleftrightarrow> False"

definition is_keyword_in :: "string list \<Rightarrow> sql_token \<Rightarrow> bool" where
  "is_keyword_in keywords t \<longleftrightarrow> (\<exists>k\<in>set keywords. is_keyword t k)"

abbreviation OPEN :: sql_token where "OPEN \<equiv> Symbol (CHR ''('')"
abbreviation CLOSE :: sql_token where "CLOSE \<equiv> Symbol (CHR '')'')"
abbreviation COMMA :: sql_token where "COMMA \<equiv> Symbol (CHR '','')"
abbreviation SEMICOLON :: sql_token where "SEMICOLON \<equiv> Symbol (CHR '';'')"

abbreviation keyword_at :: "sql_token list \<Rightarrow> nat \<Rightarrow> string \<Rightarrow> bool" where
  "keyword_at tokens i keyword \<equiv> satisfies (\<lambda>t. is_keyword t keyword) (get tokens i)"

fun token_depths_from :: "nat \<Rightarrow> sql_token list \<Rightarrow> nat list" where
  "token_depths_from depth [] = []"
| "token_depths_from depth (t # ts) =
     (let d = (if t = CLOSE then depth - 1 else depth)
      in d # token_depths_from (if t = OPEN then d + 1 else d) ts)"

definition token_depths :: "sql_token list \<Rightarrow> nat list" where
  "token_depths tokens = token_depths_from 0 tokens"

fun position :: "('a \<Rightarrow> bool) \<Rightarrow> 'a list \<Rightarrow> nat option" where
  "position p [] = None"
| "position p (x # xs) = (if p x then Some 0 else map_option Suc (position p xs))"

definition token_index_at_depth :: "sql_token list \<Rightarrow> nat list \<Rightarrow> string \<Rightarrow> nat \<Rightarrow> nat option" where
  "token_index_at_depth tokens depths keyword depth =
     position (\<lambda>(t, d). d = depth \<and> is_keyword t keyword) (zip tokens depths)"

fun matching_close_from :: "sql_token list \<Rightarrow> nat \<Rightarrow> nat \<Rightarrow> nat option" where
  "matching_close_from [] index depth = None"
| "matching_close_from (t # ts) index depth =
     (if t = OPEN then matching_close_from ts (index + 1) (depth + 1)
      else if t = CLOSE then
        if depth = 0 then None
        else if depth - 1 = 0 then Some index
        else matching_close_from ts (index + 1) (depth - 1)
      else matching_close_from ts (index + 1) depth)"

definition matching_close :: "sql_token list \<Rightarrow> nat \<Rightarrow> nat option" where
  "matching_close tokens open_index =
     matching_close_from (drop open_index tokens) open_index 0"

definition write_keywords :: "string list" where
  "write_keywords = [''insert'', ''update'', ''delete'', ''merge'']"

definition contains_write_keyword :: "sql_token list \<Rightarrow> bool" where
  "contains_write_keyword tokens \<longleftrightarrow> list_ex (is_keyword_in write_keywords) tokens"

fun select_into_loop :: "bool \<Rightarrow> (sql_token \<times> nat) list \<Rightarrow> bool" where
  "select_into_loop saw_select [] = False"
| "select_into_loop saw_select ((t, depth) # rest) =
     (if depth \<noteq> 0 then select_into_loop saw_select rest
      else if is_keyword t ''select'' then select_into_loop True rest
      else if saw_select \<and> is_keyword t ''into'' then True
      else select_into_loop saw_select rest)"

definition contains_top_level_select_into :: "sql_token list \<Rightarrow> bool" where
  "contains_top_level_select_into tokens =
     select_into_loop False (zip tokens (token_depths tokens))"

definition is_unbounded_at :: "sql_token list \<Rightarrow> nat \<Rightarrow> nat \<Rightarrow> bool" where
  "is_unbounded_at tokens head_index head_depth \<longleftrightarrow>
     \<not> list_ex (\<lambda>(t, d). d = head_depth \<and> is_keyword t ''where'')
        (takeWhile (\<lambda>(t, d). head_depth \<le> d \<and> \<not> (d = head_depth \<and> is_keyword_in write_keywords t))
          (drop (head_index + 1) (zip tokens (token_depths tokens))))"

definition contains_unbounded_update_delete :: "sql_token list \<Rightarrow> bool" where
  "contains_unbounded_update_delete tokens \<longleftrightarrow>
     list_ex (\<lambda>(i, t, d). (is_keyword t ''update'' \<or> is_keyword t ''delete'') \<and> is_unbounded_at tokens i d)
       (enumerate 0 (zip tokens (token_depths tokens)))"

section \<open>Reads and the functions that must not keep the read class\<close>

record read_escalation_entry =
  esc_identifier :: string
  esc_destructive :: bool

definition read_escalation_denylist :: "read_escalation_entry list" where
  "read_escalation_denylist =
     [\<lparr>esc_identifier = ''setval'', esc_destructive = False\<rparr>,
      \<lparr>esc_identifier = ''nextval'', esc_destructive = False\<rparr>,
      \<lparr>esc_identifier = ''set_config'', esc_destructive = False\<rparr>,
      \<lparr>esc_identifier = ''pg_cancel_backend'', esc_destructive = False\<rparr>,
      \<lparr>esc_identifier = ''lo_import'', esc_destructive = False\<rparr>,
      \<lparr>esc_identifier = ''lo_create'', esc_destructive = False\<rparr>,
      \<lparr>esc_identifier = ''dblink'', esc_destructive = False\<rparr>,
      \<lparr>esc_identifier = ''pg_reload_conf'', esc_destructive = False\<rparr>,
      \<lparr>esc_identifier = ''pg_rotate_logfile'', esc_destructive = False\<rparr>,
      \<lparr>esc_identifier = ''pg_terminate_backend'', esc_destructive = True\<rparr>,
      \<lparr>esc_identifier = ''lo_unlink'', esc_destructive = True\<rparr>,
      \<lparr>esc_identifier = ''dblink_exec'', esc_destructive = True\<rparr>]"

text \<open>The loop's state is the pair of \<open>matched\<close> and \<open>destructive\<close>.\<close>

definition escalate :: "string \<Rightarrow> bool \<times> bool \<Rightarrow> read_escalation_entry \<Rightarrow> bool \<times> bool" where
  "escalate v st e =
     (if eq_ignore_ascii_case v (esc_identifier e)
      then (True, snd st \<or> esc_destructive e) else st)"

fun escalate_token :: "bool \<times> bool \<Rightarrow> sql_token \<Rightarrow> bool \<times> bool" where
  "escalate_token st (Identifier i) =
     (if ident_quoted i then st
      else foldl (escalate (ident_value i)) st read_escalation_denylist)"
| "escalate_token st (Symbol c) = st"
| "escalate_token st Opaque = st"

definition read_escalation :: "sql_token list \<Rightarrow> bool option" where
  "read_escalation tokens =
     (let (matched, destructive) = foldl escalate_token (False, False) tokens
      in if matched then Some destructive else None)"

definition classified_read :: "sql_token list \<Rightarrow> sql_dialect \<Rightarrow> statement_class" where
  "classified_read tokens dialect =
     (let escalation = read_escalation tokens in
      if escalation = Some True then Dml False True
      else if dialect = MySql \<and> list_ex (is_keyword_in [''outfile'', ''dumpfile'']) tokens
      then Dml False True
      else if contains_top_level_select_into tokens then Ddl False
      else if escalation = Some False then Dml False False
      else Read)"

section \<open>SET, COPY, WITH and EXPLAIN\<close>

definition mysql_set_outlives_session :: "sql_token list \<Rightarrow> bool" where
  "mysql_set_outlives_session tokens \<longleftrightarrow>
     list_ex (is_keyword_in [''global'', ''persist'', ''persist_only'', ''password'']) tokens
     \<or> keyword_at tokens 1 ''resource''
     \<or> keyword_at tokens 1 ''default'' \<and> keyword_at tokens 2 ''role''"

definition copy_write_class :: "sql_token list \<Rightarrow> bool \<Rightarrow> statement_class" where
  "copy_write_class tokens destructive = Dml (contains_unbounded_update_delete tokens) destructive"

definition classify_copy :: "sql_token list \<Rightarrow> statement_class" where
  "classify_copy tokens =
     (let depths = token_depths tokens in
      case token_index_at_depth tokens depths ''from'' 0 of
        Some direction \<Rightarrow> copy_write_class tokens (keyword_at tokens (direction + 1) ''program'')
      | None \<Rightarrow>
          (case token_index_at_depth tokens depths ''to'' 0 of
             None \<Rightarrow> Unknown
           | Some direction \<Rightarrow>
               (case get tokens (direction + 1) of
                  None \<Rightarrow> Unknown
                | Some t \<Rightarrow>
                    if is_keyword t ''stdout'' then
                      if contains_write_keyword tokens then copy_write_class tokens False
                      else classified_read tokens Postgres
                    else if is_keyword t ''program'' then copy_write_class tokens True
                    else if t = Opaque then copy_write_class tokens True
                    else Unknown)))"

lemma matching_close_from_bounds:
  "matching_close_from ts index depth = Some j \<Longrightarrow> index \<le> j \<and> j < index + length ts"
  by (induction ts index depth rule: matching_close_from.induct) (auto split: if_splits)

lemma matching_close_bounds [bounds]:
  assumes "matching_close tokens index = Some j"
  shows "index \<le> j \<and> j < length tokens"
proof (cases "index \<le> length tokens")
  case True
  with assms show ?thesis
    unfolding matching_close_def by (auto dest!: matching_close_from_bounds)
next
  case False
  with assms show ?thesis by (simp add: matching_close_def)
qed

text \<open>
  One CTE of a \<open>WITH\<close> list, from its name to the token after its body.
\<close>

definition skip_keyword :: "sql_token list \<Rightarrow> string \<Rightarrow> nat \<Rightarrow> nat" where
  "skip_keyword tokens keyword index =
     (if keyword_at tokens index keyword then index + 1 else index)"

definition skip_cte :: "sql_token list \<Rightarrow> nat \<Rightarrow> nat option" where
  "skip_cte tokens index =
     (if \<not> satisfies (\<lambda>t. identifier_of t \<noteq> None) (get tokens index) then None
      else
        case (if get tokens (index + 1) = Some OPEN
              then map_option Suc (matching_close tokens (index + 1)) else Some (index + 1)) of
          None \<Rightarrow> None
        | Some i \<Rightarrow>
            if \<not> keyword_at tokens i ''as'' then None
            else
              let i' = skip_keyword tokens ''materialized'' (skip_keyword tokens ''not'' (i + 1))
              in if get tokens i' = Some OPEN then map_option Suc (matching_close tokens i')
                 else None)"

lemma skip_cte_bounds [bounds]:
  "skip_cte tokens index = Some j \<Longrightarrow> index < j \<and> j \<le> length tokens"
  by (auto simp: skip_cte_def skip_keyword_def Let_def split: if_splits option.splits
      dest!: matching_close_bounds)

function with_body_loop :: "sql_token list \<Rightarrow> nat \<Rightarrow> nat option" where
  "with_body_loop tokens index =
     (case skip_cte tokens index of
        None \<Rightarrow> None
      | Some j \<Rightarrow>
          if get tokens j = Some COMMA then with_body_loop tokens (j + 1)
          else if j < length tokens then Some j else None)"
  by pat_completeness auto
termination
  by (relation "measure (\<lambda>(tokens, index). length tokens - index)") (auto dest!: skip_cte_bounds)

declare with_body_loop.simps [simp del]

definition with_body_index :: "sql_token list \<Rightarrow> nat option" where
  "with_body_index tokens = with_body_loop tokens (skip_keyword tokens ''recursive'' 1)"

definition classify_with :: "sql_token list \<Rightarrow> sql_dialect \<Rightarrow> statement_class" where
  "classify_with tokens dialect =
     (let write = Dml (contains_unbounded_update_delete tokens) False in
      if dialect = Postgres then
        if contains_write_keyword tokens then write else classified_read tokens dialect
      else
        case with_body_index tokens of
          None \<Rightarrow> Unknown
        | Some body \<Rightarrow>
            let head = tokens ! body in
            if is_keyword_in [''select'', ''values'', ''table''] head then
              if contains_write_keyword tokens then write else classified_read tokens dialect
            else if is_keyword_in [''insert'', ''update'', ''delete'', ''replace''] head then write
            else Unknown)"

fun split_on :: "('a \<Rightarrow> bool) \<Rightarrow> 'a list \<Rightarrow> 'a list list" where
  "split_on p [] = [[]]"
| "split_on p (x # xs) =
     (if p x then [] # split_on p xs
      else case split_on p xs of [] \<Rightarrow> [[x]] | ys # yss \<Rightarrow> (x # ys) # yss)"

fun explain_option_value :: "sql_token list \<Rightarrow> bool option" where
  "explain_option_value [] = Some True"
| "explain_option_value [v] =
     (if is_keyword_in [''true'', ''on''] v then Some True
      else if is_keyword_in [''false'', ''off''] v then Some False
      else None)"
| "explain_option_value (v # w # rest) = None"

fun explain_options_loop :: "bool option \<Rightarrow> sql_token list list \<Rightarrow> bool option option" where
  "explain_options_loop analyze [] = Some analyze"
| "explain_options_loop analyze ([] # options) = None"
| "explain_options_loop analyze ((name # rest) # options) =
     (if \<not> is_keyword name ''analyze'' then
        if list_ex (\<lambda>t. is_keyword t ''analyze'') rest then None
        else explain_options_loop analyze options
      else if analyze \<noteq> None then None
      else case explain_option_value rest of
             None \<Rightarrow> None
           | Some v \<Rightarrow> explain_options_loop (Some v) options)"

definition explain_options_analyze :: "sql_token list \<Rightarrow> bool option" where
  "explain_options_analyze tokens =
     (if tokens = [] then None
      else map_option (\<lambda>analyze. case analyze of None \<Rightarrow> False | Some v \<Rightarrow> v)
             (explain_options_loop None (split_on (\<lambda>t. t = COMMA) tokens)))"

text \<open>
  Whether an \<open>EXPLAIN\<close> executes what it wraps, and where the wrapped statement starts;
  \<open>None\<close> where the classifier gives up.
\<close>

definition explain_target :: "sql_token list \<Rightarrow> (bool \<times> nat) option" where
  "explain_target tokens =
     (if get tokens 1 = Some OPEN then
        case matching_close tokens 1 of
          None \<Rightarrow> None
        | Some close \<Rightarrow>
            map_option (\<lambda>analyze. (analyze, close + 1))
              (explain_options_analyze (slice tokens 2 close))
      else
        let analyze = keyword_at tokens 1 ''analyze'';
            index = skip_keyword tokens ''verbose'' (skip_keyword tokens ''analyze'' 1)
        in Some (analyze, index))"

lemma explain_target_pos: "explain_target tokens = Some (a, i) \<Longrightarrow> 1 \<le> i"
  by (auto simp: explain_target_def skip_keyword_def Let_def split: if_splits option.splits)

section \<open>One statement\<close>

function classify_statement :: "sql_token list \<Rightarrow> sql_dialect \<Rightarrow> statement_class"
  and classify_explain :: "sql_token list \<Rightarrow> sql_dialect \<Rightarrow> statement_class" where
  "classify_statement tokens dialect =
     (case Option.bind (get tokens 0) identifier_of of
        None \<Rightarrow> Unknown
      | Some head \<Rightarrow>
          if ident_quoted head then Unknown
          else
            let keyword = map to_ascii_uppercase (ident_value head) in
            if keyword \<in> set [''SELECT'', ''VALUES'', ''TABLE'', ''SHOW'']
            then classified_read tokens dialect
            else if keyword = ''EXPLAIN'' then classify_explain tokens dialect
            else if keyword = ''COPY'' \<and> dialect = Postgres then classify_copy tokens
            else if keyword = ''WITH'' then classify_with tokens dialect
            else if keyword = ''SET'' \<and> dialect = MySql \<and> mysql_set_outlives_session tokens
            then Ddl True
            else if keyword = ''RESET'' \<and> dialect = MySql then Ddl True
            else if keyword \<in> set [''INSERT'', ''MERGE''] then Dml False False
            else if keyword \<in> set [''UPDATE'', ''DELETE'']
            then Dml (is_unbounded_at tokens 0 0) False
            else if keyword \<in> set [''CREATE'', ''ALTER'', ''COMMENT'', ''GRANT'', ''REVOKE'',
              ''REINDEX'', ''VACUUM'', ''ANALYZE'', ''CLUSTER'', ''REFRESH'', ''SECURITY'']
            then Ddl False
            else if keyword \<in> set [''DROP'', ''TRUNCATE''] then Ddl True
            else if keyword \<in> set [''BEGIN'', ''START'', ''COMMIT'', ''END'', ''ROLLBACK'',
              ''SAVEPOINT'', ''RELEASE'', ''LOCK'']
            then Transaction
            else if keyword \<in> set [''SET'', ''RESET'', ''DISCARD''] then Session
            else Unknown)"
| "classify_explain tokens dialect =
     (case explain_target tokens of
        None \<Rightarrow> Unknown
      | Some (analyze, index) \<Rightarrow>
          if length tokens \<le> index then Unknown
          else if analyze then classify_statement (drop index tokens) dialect
          else Read)"
  by pat_completeness auto
termination
  by (relation "measure (\<lambda>x. case x of Inl (tokens, d) \<Rightarrow> 2 * length tokens + 1
      | Inr (tokens, d) \<Rightarrow> 2 * length tokens)")
     (auto dest!: explain_target_pos)

declare classify_statement.simps [simp del] classify_explain.simps [simp del]

section \<open>The script\<close>

fun split_statements_loop ::
  "spanned_token list \<Rightarrow> spanned_token list list \<Rightarrow> spanned_token list \<Rightarrow> nat \<Rightarrow>
     spanned_token list list option" where
  "split_statements_loop [] statements statement depth =
     (if depth \<noteq> 0 then None
      else Some (if statement = [] then statements else statements @ [statement]))"
| "split_statements_loop (sp # rest) statements statement depth =
     (if sp_token sp = OPEN then
        split_statements_loop rest statements (statement @ [sp]) (depth + 1)
      else if sp_token sp = CLOSE then
        if depth = 0 then None
        else split_statements_loop rest statements (statement @ [sp]) (depth - 1)
      else if sp_token sp = SEMICOLON \<and> depth = 0 then
        split_statements_loop rest
          (if statement = [] then statements else statements @ [statement]) [] depth
      else split_statements_loop rest statements (statement @ [sp]) depth)"

definition split_statements :: "spanned_token list \<Rightarrow> spanned_token list list option" where
  "split_statements tokens = split_statements_loop tokens [] [] 0"

record statement_facts =
  sf_class :: statement_class
  sf_start :: nat
  sf_end :: nat
  sf_head :: "string option"
  sf_row_locking :: bool
  sf_native_placeholder :: bool

definition is_native_placeholder :: "string \<Rightarrow> spanned_token \<Rightarrow> bool" where
  "is_native_placeholder sql sp \<longleftrightarrow>
     (let text = slice sql (sp_start sp) (sp_end sp) in
      sp_token sp = Opaque \<and> get text 0 = Some (CHR ''$'') \<and> satisfies is_ascii_digit (get text 1))"

fun pairs_of :: "'a list \<Rightarrow> ('a \<times> 'a) list" where
  "pairs_of [] = []"
| "pairs_of [x] = []"
| "pairs_of (x # y # zs) = (x, y) # pairs_of (y # zs)"

definition describe_statement ::
  "string \<Rightarrow> sql_dialect \<Rightarrow> spanned_token list \<Rightarrow> statement_facts" where
  "describe_statement sql dialect statement =
     (let tokens = map sp_token statement in
      \<lparr>sf_class =
         (if list_ex (is_executable_comment sql) statement then Unknown
          else classify_statement tokens dialect),
       sf_start = (case statement of [] \<Rightarrow> 0 | sp # _ \<Rightarrow> sp_start sp),
       sf_end = (case rev statement of [] \<Rightarrow> 0 | sp # _ \<Rightarrow> sp_end sp),
       sf_head =
         (case Option.bind (get tokens 0) identifier_of of
            None \<Rightarrow> None
          | Some head \<Rightarrow>
              if ident_quoted head then None
              else Some (map to_ascii_uppercase (ident_value head))),
       sf_row_locking =
         list_ex (\<lambda>(a, b). is_keyword a ''for''
             \<and> is_keyword_in [''update'', ''no'', ''share'', ''key''] b) (pairs_of tokens),
       sf_native_placeholder = list_ex (is_native_placeholder sql) statement\<rparr>)"

definition describe_script_dialect :: "string \<Rightarrow> sql_dialect \<Rightarrow> statement_facts list option" where
  "describe_script_dialect sql dialect =
     (case lex_sql_spanned_dialect sql dialect of
        None \<Rightarrow> None
      | Some tokens \<Rightarrow>
          map_option (map (describe_statement sql dialect)) (split_statements tokens))"

definition describe_script :: "string \<Rightarrow> statement_facts list option" where
  "describe_script sql = describe_script_dialect sql Postgres"

definition classify_script_dialect :: "string \<Rightarrow> sql_dialect \<Rightarrow> statement_class list" where
  "classify_script_dialect sql dialect =
     (case describe_script_dialect sql dialect of
        Some statements \<Rightarrow> map sf_class statements
      | None \<Rightarrow> [Unknown])"

definition classify_script :: "string \<Rightarrow> statement_class list" where
  "classify_script sql = classify_script_dialect sql Postgres"

end
