(* ===== verification/SafetyPolicy.thy ===== *)
theory SafetyPolicy imports SqlClass begin

text \<open>
  The safety policy of \<open>backend/src/safety/policy.rs\<close> and its callers' gate
  (\<open>safety/gate.rs\<close>, \<open>assert_statement_policy\<close> of \<open>query_session/mod.rs\<close>), with the stored
  policy values of \<open>types.rs\<close>.  An intent is permitted, blocked (read-only connection) or
  needs the user's confirmation; a permitted intent says whether it must be audited.
\<close>

section \<open>Stored policy values\<close>

datatype environment = Development | Test | Staging | Production

datatype safe_mode = ModeInherit | ModeDisabled | ModeProtected | ModeStrict

fun environment_as_str :: "environment \<Rightarrow> string" where
  "environment_as_str Development = ''development''"
| "environment_as_str Test = ''test''"
| "environment_as_str Staging = ''staging''"
| "environment_as_str Production = ''production''"

definition environment_from_str :: "string \<Rightarrow> string + environment" where
  "environment_from_str v =
     (if v = ''development'' then Inr Development
      else if v = ''test'' then Inr Test
      else if v = ''staging'' then Inr Staging
      else if v = ''production'' then Inr Production
      else Inl (''Unsupported connection environment: '' @ v))"

fun safe_mode_as_str :: "safe_mode \<Rightarrow> string" where
  "safe_mode_as_str ModeInherit = ''inherit''"
| "safe_mode_as_str ModeDisabled = ''disabled''"
| "safe_mode_as_str ModeProtected = ''protected''"
| "safe_mode_as_str ModeStrict = ''strict''"

definition safe_mode_from_str :: "string \<Rightarrow> string + safe_mode" where
  "safe_mode_from_str v =
     (if v = ''inherit'' then Inr ModeInherit
      else if v = ''disabled'' then Inr ModeDisabled
      else if v = ''protected'' then Inr ModeProtected
      else if v = ''strict'' then Inr ModeStrict
      else Inl (''Unsupported connection Safe Mode: '' @ v))"

record connection_policy =
  cp_environment :: environment
  cp_safe_mode :: safe_mode
  cp_read_only :: bool

definition default_connection_policy :: connection_policy where
  "default_connection_policy =
     \<lparr>cp_environment = Development, cp_safe_mode = ModeInherit, cp_read_only = False\<rparr>"

section \<open>Resolved policy and intents\<close>

datatype safety_level = Disabled | Protected | Strict

record resolved_safety_policy =
  rp_environment :: environment
  rp_level :: safety_level
  rp_read_only :: bool

datatype write_intent =
    Statement "statement_class list"
  | RowMutation
  | DdlIntent
  | Import
  | Seed
  | CopyDestination
  | Maintenance
  | RefreshMatView
  | Restore
  | ApplyMutations "statement_class list"
  | TerminateBackend
  | CancelBackend

datatype safety_refusal =
    Blocked string "statement_class_summary list"
  | NeedsConfirmation "statement_class_summary list"

datatype audit_disposition = NotRequired | RequiredAfterSuccess

fun fold_refusal ::
  "(string \<Rightarrow> statement_class_summary list \<Rightarrow> 't) \<Rightarrow> (statement_class_summary list \<Rightarrow> 't) \<Rightarrow>
     safety_refusal \<Rightarrow> 't" where
  "fold_refusal blocked needs (Blocked reason statements) = blocked reason statements"
| "fold_refusal blocked needs (NeedsConfirmation statements) = needs statements"

definition resolve_level :: "safe_mode \<Rightarrow> environment \<Rightarrow> safety_level" where
  "resolve_level mode env =
     (case mode of
        ModeDisabled \<Rightarrow> Disabled
      | ModeProtected \<Rightarrow> Protected
      | ModeStrict \<Rightarrow> Strict
      | ModeInherit \<Rightarrow>
          (case env of
             Development \<Rightarrow> Disabled
           | Test \<Rightarrow> Disabled
           | Staging \<Rightarrow> Protected
           | Production \<Rightarrow> Strict))"

definition resolve_policy :: "connection_policy \<Rightarrow> resolved_safety_policy" where
  "resolve_policy p =
     \<lparr>rp_environment = cp_environment p,
      rp_level = resolve_level (cp_safe_mode p) (cp_environment p),
      rp_read_only = cp_read_only p\<rparr>"

fun read_only_permits :: "write_intent \<Rightarrow> bool" where
  "read_only_permits (Statement classes) \<longleftrightarrow>
     classes \<noteq> [] \<and> list_all (\<lambda>c. c = Read) classes"
| "read_only_permits CancelBackend \<longleftrightarrow> True"
| "read_only_permits _ \<longleftrightarrow> False"

fun statement_is_destructive :: "statement_class \<Rightarrow> bool" where
  "statement_is_destructive (Dml unbounded destructive) \<longleftrightarrow> unbounded \<or> destructive"
| "statement_is_destructive (Ddl destructive) \<longleftrightarrow> destructive"
| "statement_is_destructive Unknown \<longleftrightarrow> True"
| "statement_is_destructive Read \<longleftrightarrow> False"
| "statement_is_destructive Transaction \<longleftrightarrow> False"
| "statement_is_destructive Session \<longleftrightarrow> False"

fun statement_is_write :: "statement_class \<Rightarrow> bool" where
  "statement_is_write (Dml unbounded destructive) \<longleftrightarrow> True"
| "statement_is_write (Ddl destructive) \<longleftrightarrow> True"
| "statement_is_write Unknown \<longleftrightarrow> True"
| "statement_is_write Read \<longleftrightarrow> False"
| "statement_is_write Transaction \<longleftrightarrow> False"
| "statement_is_write Session \<longleftrightarrow> False"

fun protected_requires_confirmation :: "write_intent \<Rightarrow> bool" where
  "protected_requires_confirmation (Statement classes) \<longleftrightarrow>
     list_ex statement_is_destructive classes"
| "protected_requires_confirmation DdlIntent \<longleftrightarrow> True"
| "protected_requires_confirmation Restore \<longleftrightarrow> True"
| "protected_requires_confirmation TerminateBackend \<longleftrightarrow> True"
| "protected_requires_confirmation RowMutation \<longleftrightarrow> True"
| "protected_requires_confirmation (ApplyMutations classes) \<longleftrightarrow> True"
| "protected_requires_confirmation Import \<longleftrightarrow> False"
| "protected_requires_confirmation Seed \<longleftrightarrow> False"
| "protected_requires_confirmation CopyDestination \<longleftrightarrow> False"
| "protected_requires_confirmation Maintenance \<longleftrightarrow> False"
| "protected_requires_confirmation RefreshMatView \<longleftrightarrow> False"
| "protected_requires_confirmation CancelBackend \<longleftrightarrow> False"

fun strict_requires_confirmation :: "write_intent \<Rightarrow> bool" where
  "strict_requires_confirmation (Statement classes) \<longleftrightarrow> list_ex statement_is_write classes"
| "strict_requires_confirmation CancelBackend \<longleftrightarrow> False"
| "strict_requires_confirmation _ \<longleftrightarrow> True"

definition requires_confirmation :: "resolved_safety_policy \<Rightarrow> write_intent \<Rightarrow> bool" where
  "requires_confirmation policy intent =
     (if rp_read_only policy \<and> \<not> read_only_permits intent then False
      else case rp_level policy of
             Disabled \<Rightarrow> False
           | Protected \<Rightarrow> protected_requires_confirmation intent
           | Strict \<Rightarrow> strict_requires_confirmation intent)"

definition summaries :: "statement_class list \<Rightarrow> statement_class_summary list" where
  "summaries classes = map (\<lambda>(i, c). summary c i) (enumerate 0 classes)"

fun statement_summaries :: "write_intent \<Rightarrow> statement_class_summary list" where
  "statement_summaries (Statement classes) = summaries classes"
| "statement_summaries (ApplyMutations classes) = summaries classes"
| "statement_summaries _ = []"

definition assert_permitted ::
  "resolved_safety_policy \<Rightarrow> write_intent \<Rightarrow> bool \<Rightarrow> safety_refusal + audit_disposition" where
  "assert_permitted policy intent confirmed =
     (if rp_read_only policy \<and> \<not> read_only_permits intent
      then Inl (Blocked ''This connection is read-only'' (statement_summaries intent))
      else
        let confirmation_required = requires_confirmation policy intent in
        if confirmation_required \<and> \<not> confirmed
        then Inl (NeedsConfirmation (statement_summaries intent))
        else Inr (if confirmation_required then RequiredAfterSuccess else NotRequired))"

section \<open>The gates\<close>

definition READ_ONLY_TAG :: string where "READ_ONLY_TAG = ''[policy:read-only]''"
definition CONFIRM_TAG :: string where "CONFIRM_TAG = ''[policy:confirm]''"

text \<open>A stored connection enters the gate through its policy only.\<close>

definition assert_legacy_permitted ::
  "connection_policy \<Rightarrow> write_intent \<Rightarrow> bool \<Rightarrow> string + audit_disposition" where
  "assert_legacy_permitted connection intent confirmed =
     (case assert_permitted (resolve_policy connection) intent confirmed of
        Inr a \<Rightarrow> Inr a
      | Inl refusal \<Rightarrow>
          Inl (fold_refusal (\<lambda>reason _. READ_ONLY_TAG @ '' '' @ reason)
                 (\<lambda>_. CONFIRM_TAG @ '' This operation requires confirmation'') refusal))"

fun audit_class_labels :: "write_intent \<Rightarrow> string list" where
  "audit_class_labels (Statement classes) = map label classes"
| "audit_class_labels (ApplyMutations classes) = map label classes"
| "audit_class_labels RowMutation = [''dml'']"
| "audit_class_labels Import = [''dml'']"
| "audit_class_labels Seed = [''dml'']"
| "audit_class_labels CopyDestination = [''dml'']"
| "audit_class_labels DdlIntent = [''ddl'']"
| "audit_class_labels Maintenance = [''ddl'']"
| "audit_class_labels RefreshMatView = [''ddl'']"
| "audit_class_labels Restore = [''ddl'']"
| "audit_class_labels TerminateBackend = []"
| "audit_class_labels CancelBackend = []"

datatype query_session_policy_error =
    PolicyBlocked string
  | PolicyNeedsConfirmation "statement_class_summary list"

definition assert_statement_policy ::
  "string \<Rightarrow> resolved_safety_policy \<Rightarrow> bool \<Rightarrow>
     query_session_policy_error + (write_intent \<times> audit_disposition)" where
  "assert_statement_policy sql policy confirmed =
     (let intent = Statement (classify_script sql) in
      case assert_permitted policy intent confirmed of
        Inr authorization \<Rightarrow> Inr (intent, authorization)
      | Inl refusal \<Rightarrow>
          Inl (fold_refusal (\<lambda>reason _. PolicyBlocked reason) PolicyNeedsConfirmation refusal))"

section \<open>Levels are ordered\<close>

instantiation safety_level :: linorder
begin

fun less_eq_safety_level :: "safety_level \<Rightarrow> safety_level \<Rightarrow> bool" where
  "less_eq_safety_level Disabled _ = True"
| "less_eq_safety_level Protected l = (l \<noteq> Disabled)"
| "less_eq_safety_level Strict l = (l = Strict)"

definition less_safety_level :: "safety_level \<Rightarrow> safety_level \<Rightarrow> bool" where
  "less_safety_level a b \<longleftrightarrow> a \<le> b \<and> \<not> b \<le> a"

instance
proof
  fix x y z :: safety_level
  show "(x < y) = (x \<le> y \<and> \<not> y \<le> x)" by (simp add: less_safety_level_def)
  show "x \<le> x" by (cases x) simp_all
  show "x \<le> y \<Longrightarrow> y \<le> z \<Longrightarrow> x \<le> z" by (cases x; cases y; cases z) simp_all
  show "x \<le> y \<Longrightarrow> y \<le> x \<Longrightarrow> x = y" by (cases x; cases y) simp_all
  show "x \<le> y \<or> y \<le> x" by (cases x; cases y) simp_all
qed

end

lemma destructive_is_write: "statement_is_destructive c \<Longrightarrow> statement_is_write c"
  by (cases c) simp_all

lemma protected_le_strict:
  "protected_requires_confirmation intent \<Longrightarrow> strict_requires_confirmation intent"
  by (cases intent) (auto simp: list_ex_iff intro: destructive_is_write)

lemma requires_confirmation_mono:
  assumes "a \<le> b" "requires_confirmation (policy\<lparr>rp_level := a\<rparr>) intent"
  shows "requires_confirmation (policy\<lparr>rp_level := b\<rparr>) intent"
  using assms protected_le_strict
  by (cases a; cases b) (auto simp: requires_confirmation_def split: if_splits)

lemma assert_permitted_Inr_iff:
  "assert_permitted policy intent confirmed = Inr a \<longleftrightarrow>
     (rp_read_only policy \<longrightarrow> read_only_permits intent)
     \<and> (requires_confirmation policy intent \<longrightarrow> confirmed)
     \<and> a = (if requires_confirmation policy intent then RequiredAfterSuccess else NotRequired)"
  by (auto simp: assert_permitted_def Let_def)

lemma strict_classes:
  "strict_requires_confirmation (Statement classes) \<longleftrightarrow> (\<exists>c\<in>set classes. statement_is_write c)"
  by (simp add: list_ex_iff)

section \<open>Properties\<close>

lemma read_only_permits_iff:
  "read_only_permits intent \<longleftrightarrow>
     intent = CancelBackend \<or> (\<exists>classes. intent = Statement classes \<and> set classes = {Read})"
proof (cases intent)
  case (Statement classes)
  then show ?thesis by (cases classes) (auto simp: list_all_iff)
qed simp_all

text \<open>
  C16: on a read-only connection the only intents that pass are a statement list that is not
  empty and holds reads only, and cancelling a backend, and they need no audit; everything else
  is blocked, whatever the safety level and whether or not the user confirmed it.
\<close>

theorem read_only_connection_permits:
  assumes "rp_read_only policy"
  shows "assert_permitted policy intent confirmed =
    (if intent = CancelBackend \<or> (\<exists>classes. intent = Statement classes \<and> set classes = {Read})
     then Inr NotRequired
     else Inl (Blocked ''This connection is read-only'' (statement_summaries intent)))"
proof -
  have "\<not> requires_confirmation policy intent" if "read_only_permits intent"
    using that by (cases intent)
      (auto simp: requires_confirmation_def list_all_iff list_ex_iff split: safety_level.splits)
  then show ?thesis
    using assms read_only_permits_iff [of intent] by (auto simp: assert_permitted_def)
qed

lemma read_only_connection_permits_witness:
  "assert_permitted (resolve_policy (default_connection_policy\<lparr>cp_read_only := True\<rparr>))
      (Statement [Read, Ddl True]) True
    = Inl (Blocked ''This connection is read-only'' (summaries [Read, Ddl True]))"
  using read_only_connection_permits
    [of "resolve_policy (default_connection_policy\<lparr>cp_read_only := True\<rparr>)" "Statement [Read, Ddl True]"]
  by (simp add: resolve_policy_def default_connection_policy_def)

text \<open>
  a stricter safety level permits no more: whatever passes at level \<open>b\<close> with a given
  confirmation passes at every weaker level \<open>a\<close>.
\<close>

lemma stricter_level_permits_less:
  assumes "a \<le> b" "assert_permitted (policy\<lparr>rp_level := b\<rparr>) intent confirmed = Inr x"
  shows "\<exists>y. assert_permitted (policy\<lparr>rp_level := a\<rparr>) intent confirmed = Inr y"
  using assms requires_confirmation_mono [OF assms(1)]
  by (auto simp: assert_permitted_Inr_iff)

text \<open>
  A confirmed intent is refused only by the read-only block, and an operation is marked for
  audit exactly when it passed because the user confirmed it.
\<close>

theorem confirmation_and_audit:
  "case assert_permitted policy intent True of
     Inl refusal \<Rightarrow> rp_read_only policy
       \<and> refusal = Blocked ''This connection is read-only'' (statement_summaries intent)
       \<and> assert_permitted policy intent False = Inl refusal
   | Inr RequiredAfterSuccess \<Rightarrow>
       assert_permitted policy intent False = Inl (NeedsConfirmation (statement_summaries intent))
   | Inr NotRequired \<Rightarrow> assert_permitted policy intent False = Inr NotRequired"
  by (auto simp: assert_permitted_def Let_def)

text \<open>
  A production connection in inherited Safe Mode never runs a statement list that holds a
  DML, a DDL or an unclassified statement without the user's confirmation.
\<close>

theorem production_writes_need_confirmation:
  assumes "c \<in> set classes" "c \<notin> {Read, Transaction, Session}"
  shows "\<exists>refusal. assert_permitted
      (resolve_policy \<lparr>cp_environment = Production, cp_safe_mode = ModeInherit, cp_read_only = read_only\<rparr>)
      (Statement classes) False = Inl refusal"
proof -
  have "statement_is_write c" using assms(2) by (cases c) auto
  then have "strict_requires_confirmation (Statement classes)" using assms(1) strict_classes by blast
  then show ?thesis
    by (simp add: assert_permitted_def resolve_policy_def resolve_level_def requires_confirmation_def)
qed

text \<open>
  Stored environments and Safe Modes are read back as they were written, and every other
  text is refused.
\<close>

theorem policy_values_round_trip:
  "(environment_from_str v = Inr e \<longleftrightarrow> v = environment_as_str e)
    \<and> (safe_mode_from_str w = Inr m \<longleftrightarrow> w = safe_mode_as_str m)"
  by (cases e; cases m) (auto simp: environment_from_str_def safe_mode_from_str_def)

end
