(* ===== verification/SqlLexFacts.thy ===== *)
theory SqlLexFacts imports SqlLex begin

text \<open>
  What the lexer guarantees its callers: token spans in order and inside the text, the token cap
  as an exact refusal, agreement with a server whichever way the server reads a backslash, and
  quoting helpers whose output is always read back as one token.
\<close>

section \<open>Spans\<close>

definition spans_ordered :: "spanned_token list \<Rightarrow> bool" where
  "spans_ordered ts \<longleftrightarrow> sorted_wrt (\<lambda>a b. sp_end a \<le> sp_start b) ts"

definition spans_within :: "nat \<Rightarrow> spanned_token list \<Rightarrow> bool" where
  "spans_within n ts \<longleftrightarrow> spans_ordered ts \<and> (\<forall>t\<in>set ts. sp_start t < sp_end t \<and> sp_end t \<le> n)"

lemma spans_within_Nil [simp]: "spans_within n []"
  by (simp add: spans_within_def spans_ordered_def)

lemma spans_within_snoc:
  "spans_within i ts \<Longrightarrow> i \<le> a \<Longrightarrow> a < b \<Longrightarrow> b \<le> n \<Longrightarrow>
     spans_within n (ts @ [\<lparr>sp_token = t, sp_start = a, sp_end = b\<rparr>])"
  by (force simp: spans_within_def spans_ordered_def sorted_wrt_append)

lemma spans_within_mono: "spans_within m ts \<Longrightarrow> m \<le> n \<Longrightarrow> spans_within n ts"
  by (force simp: spans_within_def)

lemma lex_loop_spans:
  "lex_loop dialect m bytes exec index tokens = Inr ts \<Longrightarrow> index \<le> length bytes \<Longrightarrow>
     spans_within index tokens \<Longrightarrow> spans_within (length bytes) ts"
proof (induction exec index tokens rule: lex_loop_cases_induct [of bytes _ dialect])
  case (stop exec index tokens)
  then show ?case by (auto simp: lex_loop_stop split: if_splits)
next
  case (error exec index tokens b e)
  then show ?case by (simp add: lex_loop_error)
next
  case (skip exec index tokens b j x)
  then show ?case using spans_within_mono [of index tokens j] by (auto simp: lex_loop_skip)
next
  case (token exec index tokens b t j x)
  then show ?case by (auto simp: lex_loop_token split: if_splits intro!: spans_within_snoc)
qed

lemma lex_dialect_bounded_spans:
  "lex_dialect_bounded sql m dialect = Inr ts \<Longrightarrow> spans_within (length sql) ts"
  unfolding lex_dialect_bounded_def by (rule lex_loop_spans) auto

lemma lex_sql_spanned_dialect_spans:
  "lex_sql_spanned_dialect sql dialect = Some ts \<Longrightarrow> spans_within (length sql) ts"
  by (simp add: lex_sql_spanned_dialect_def lex_dialect_bounded_spans)

section \<open>The token cap\<close>

lemma lex_loop_extends:
  "lex_loop dialect m bytes exec index tokens = Inr ts \<Longrightarrow> \<exists>more. ts = tokens @ more"
  by (induction exec index tokens rule: lex_loop_cases_induct [of bytes _ dialect])
     (auto simp: lex_loop_eqs split: if_splits)

text \<open>A cap that admits the result changes nothing; a smaller one refuses.\<close>

lemma lex_loop_cap:
  "lex_loop dialect M bytes exec index tokens = Inr ts \<Longrightarrow> length tokens \<le> m \<Longrightarrow> m \<le> M \<Longrightarrow>
     lex_loop dialect m bytes exec index tokens
       = (if length ts \<le> m then Inr ts else Inl TooManyTokens)"
proof (induction exec index tokens rule: lex_loop_cases_induct [of bytes _ dialect])
  case (token exec index tokens b t j x)
  let ?more = "tokens @ [\<lparr>sp_token = t, sp_start = index, sp_end = j\<rparr>]"
  from token have rec: "lex_loop dialect M bytes x j ?more = Inr ts"
    by (auto simp: lex_loop_token split: if_splits)
  then have "length tokens < length ts" by (auto dest!: lex_loop_extends)
  with token rec show ?case by (cases "length tokens = m") (auto simp: lex_loop_token)
qed (auto simp: lex_loop_eqs split: if_splits)

text \<open>Lowering the cap never turns a refusal into tokens.\<close>

lemma lex_loop_cap_Inl:
  "lex_loop dialect M bytes exec index tokens = Inl e \<Longrightarrow> m \<le> M \<Longrightarrow> length tokens \<le> m \<Longrightarrow>
     \<exists>e'. lex_loop dialect m bytes exec index tokens = Inl e'"
proof (induction exec index tokens rule: lex_loop_cases_induct [of bytes _ dialect])
  case (token exec index tokens b t j x)
  then show ?case by (cases "length tokens = m") (auto simp: lex_loop_token split: if_splits)
qed (auto simp: lex_loop_eqs split: if_splits)

section \<open>Agreement with the server's reading\<close>

text \<open>
  What the server does with a plain quoted string depends on a setting the client cannot see
  (PostgreSQL \<open>standard_conforming_strings\<close>, MySQL \<open>NO_BACKSLASH_ESCAPES\<close>): a backslash
  escapes the next byte, or it does not.  \<open>server_step escapes\<close> scans such a string the
  server's way.  It also ends a line comment the server's way: PostgreSQL's scanner takes a
  carriage return for a newline, which \<open>line_comment_end\<close> does not.  Everything else it
  scans as the lexer does; \<open>server_lexes\<close> is the run of it.
\<close>

definition server_newline :: "sql_dialect \<Rightarrow> char \<Rightarrow> bool" where
  "server_newline dialect b \<longleftrightarrow> b = LF \<or> b = CR \<and> dialect = Postgres"

definition server_step ::
  "bool \<Rightarrow> sql_dialect \<Rightarrow> string \<Rightarrow> bool \<Rightarrow> nat \<Rightarrow> char \<Rightarrow> lex_result" where
  "server_step escapes dialect bytes exec index b =
     (if b = SQUOTE \<and> dialect \<noteq> Sqlite \<or> b = DQUOTE \<and> dialect = MySql
      then opaque_to (scan_quoted bytes (index + 1) b escapes) exec
      else if b = CHR ''-'' \<and> get bytes (index + 1) = Some (CHR ''-'') \<and> dialect = Postgres
      then Inr (None, skip_while (\<lambda>c. \<not> server_newline dialect c) bytes (index + 2), exec)
      else lex_step dialect bytes exec index b)"

inductive server_lexes ::
  "bool \<Rightarrow> sql_dialect \<Rightarrow> string \<Rightarrow> bool \<Rightarrow> nat \<Rightarrow> spanned_token list \<Rightarrow> bool"
  for escapes dialect bytes where
  finished: "length bytes \<le> index \<Longrightarrow> server_lexes escapes dialect bytes False index []"
| blank: "get bytes index = Some b \<Longrightarrow>
    server_step escapes dialect bytes exec index b = Inr (None, j, exec') \<Longrightarrow>
    server_lexes escapes dialect bytes exec' j ts \<Longrightarrow>
    server_lexes escapes dialect bytes exec index ts"
| token: "get bytes index = Some b \<Longrightarrow>
    server_step escapes dialect bytes exec index b = Inr (Some t, j, exec') \<Longrightarrow>
    server_lexes escapes dialect bytes exec' j ts \<Longrightarrow>
    server_lexes escapes dialect bytes exec index
      (\<lparr>sp_token = t, sp_start = index, sp_end = j\<rparr> # ts)"

inductive_cases server_lexesE: "server_lexes escapes dialect bytes exec index ts"

lemma server_lexes_deterministic:
  "server_lexes escapes dialect bytes exec index ts \<Longrightarrow>
     server_lexes escapes dialect bytes exec index ts' \<Longrightarrow> ts' = ts"
proof (induction arbitrary: ts' rule: server_lexes.induct)
  case (finished index)
  from finished.prems show ?case
    by (rule server_lexesE) (use finished.hyps in \<open>simp_all add: get_Some_iff\<close>)
next
  case (blank index b exec j exec' ts)
  from blank.prems show ?case
    by (rule server_lexesE) (use blank.hyps(1,2) blank.IH in \<open>simp_all add: get_Some_iff\<close>)
next
  case (token index b exec t j exec' ts)
  from token.prems show ?case
    by (rule server_lexesE) (use token.hyps(1,2) token.IH in \<open>simp_all add: get_Some_iff\<close>)
qed

text \<open>
  Where the lexer accepts a construct, both readings accept it with the same end, unless a carriage
  return could end a comment.
\<close>

lemma lex_step_server_step:
  assumes "lex_step dialect bytes exec index b = Inr r" "dialect = Postgres \<Longrightarrow> CR \<notin> set bytes"
  shows "server_step escapes dialect bytes exec index b = Inr r"
proof -
  obtain t j x where r: "r = (t, j, x)" by (cases r)
  have two: "lex_ambiguous_quote bytes i q = Some k \<Longrightarrow> scan_quoted bytes i q escapes = Some k"
    for i q k by (cases escapes) (auto dest: lex_ambiguous_quote_SomeD)
  consider (single) "b = SQUOTE" "dialect \<noteq> Sqlite" | (double) "b = DQUOTE" "dialect = MySql"
    | (dash) "b = CHR ''-''" "get bytes (index + 1) = Some (CHR ''-'')" "dialect = Postgres"
    | (other) "\<not> (b = SQUOTE \<and> dialect \<noteq> Sqlite \<or> b = DQUOTE \<and> dialect = MySql)"
        "\<not> (b = CHR ''-'' \<and> get bytes (index + 1) = Some (CHR ''-'') \<and> dialect = Postgres)"
    by blast
  then show ?thesis
  proof cases
    case single
    then have "opaque_to (lex_ambiguous_quote bytes (index + 1) SQUOTE) exec = Inr r"
      using assms by (cases dialect)
        (simp_all add: lex_step_def Let_def byte_defs byte_def lex_quote_def lex_single_quote_def)
    with single show ?thesis
      by (auto simp: server_step_def r opaque_to_def split: option.splits dest: two)
  next
    case double
    then have "opaque_to (lex_ambiguous_quote bytes (index + 1) DQUOTE) exec = Inr r"
      using assms by (simp add: lex_step_def Let_def byte_defs byte_def)
    with double show ?thesis
      by (auto simp: server_step_def r opaque_to_def split: option.splits dest: two)
  next
    case dash
    with assms(2) have "skip_while (\<lambda>c. \<not> server_newline dialect c) bytes (index + 2)
        = line_comment_end bytes (index + 2)"
      unfolding line_comment_end_def by (intro skip_while_cong) (auto simp: server_newline_def)
    moreover from dash assms(1) have "r = (None, line_comment_end bytes (index + 2), exec)"
      by (simp add: lex_step_def Let_def byte_defs byte_def)
    ultimately show ?thesis using dash by (simp add: server_step_def)
  next
    case other
    with assms(1) show ?thesis unfolding server_step_def by (simp only: if_False)
  qed
qed

lemma lex_loop_server_lexes:
  "lex_loop dialect m bytes exec index tokens = Inr ts \<Longrightarrow> (dialect = Postgres \<Longrightarrow> CR \<notin> set bytes) \<Longrightarrow>
     \<exists>more. ts = tokens @ more \<and> server_lexes escapes dialect bytes exec index more"
proof (induction exec index tokens rule: lex_loop_cases_induct [of bytes _ dialect])
  case (stop exec index tokens)
  then show ?case by (auto simp: lex_loop_stop split: if_splits intro: finished)
next
  case (error exec index tokens b e)
  then show ?case by (simp add: lex_loop_error)
next
  case (skip exec index tokens b j x)
  then show ?case
    by (auto simp: lex_loop_skip intro!: blank lex_step_server_step)
next
  case (token exec index tokens b t j x)
  then obtain more where "ts = (tokens @ [\<lparr>sp_token = t, sp_start = index, sp_end = j\<rparr>]) @ more"
    and "server_lexes escapes dialect bytes x j more"
    by (auto simp: lex_loop_token split: if_splits)
  with token.hyps token.prems(2) show ?case
    by (auto intro!: server_lexes.token lex_step_server_step)
qed

text \<open>The server's run, computed; each step of it uses one unit of fuel.\<close>

fun server_scan ::
  "nat \<Rightarrow> bool \<Rightarrow> sql_dialect \<Rightarrow> string \<Rightarrow> bool \<Rightarrow> nat \<Rightarrow> spanned_token list option" where
  "server_scan 0 escapes dialect bytes exec index = None"
| "server_scan (Suc fuel) escapes dialect bytes exec index =
     (case get bytes index of
        None \<Rightarrow> if exec then None else Some []
      | Some b \<Rightarrow>
          (case server_step escapes dialect bytes exec index b of
             Inl e \<Rightarrow> None
           | Inr (t, j, exec') \<Rightarrow>
               map_option (\<lambda>ts. case t of None \<Rightarrow> ts
                   | Some t \<Rightarrow> \<lparr>sp_token = t, sp_start = index, sp_end = j\<rparr> # ts)
                 (server_scan fuel escapes dialect bytes exec' j)))"

lemma server_scan_lexes:
  "server_scan fuel escapes dialect bytes exec index = Some ts \<Longrightarrow>
     server_lexes escapes dialect bytes exec index ts"
  by (induction fuel arbitrary: exec index ts)
     (auto split: option.splits sum.splits if_splits intro: server_lexes.finished,
      (meson server_lexes.blank server_lexes.token)+)

section \<open>Quoted text is read back as one token\<close>

lemma replace_char_Nil [simp]: "replace_char c by [] = []"
  and replace_char_Cons [simp]:
    "replace_char c by (x # xs) = (if x = c then by else [x]) @ replace_char c by xs"
  by (simp_all add: replace_char_def)

lemma get_append_Suc: "get (pre @ x # xs) (Suc (length pre)) = get xs 0"
  using get_append_right [of pre "x # xs" 1] by simp

lemma get_0: "get xs 0 = (case xs of [] \<Rightarrow> None | x # _ \<Rightarrow> Some x)"
  by (cases xs) simp_all

lemma slice_snoc:
  "a \<le> length pre \<Longrightarrow> slice (pre @ x # xs) a (Suc (length pre)) = slice (pre @ x # xs) a (length pre) @ [x]"
  by (simp add: slice_def Suc_diff_le take_Suc_conv_app_nth)

text \<open>The identifier scanner inverts doubling the quote.\<close>

lemma quoted_identifier_loop_doubled:
  "seg \<le> length pre \<Longrightarrow> get rest 0 \<noteq> Some q \<Longrightarrow>
     quoted_identifier_loop (pre @ replace_char q [q, q] s @ q # rest) (length pre) q v seg
       = Some (v @ slice pre seg (length pre) @ s,
               length pre + length (replace_char q [q, q] s) + 1)"
proof (induction s arbitrary: pre v seg)
  case Nil
  then show ?case
    by (subst quoted_identifier_loop.simps) (simp add: get_append_Suc slice_def)
next
  case (Cons c s)
  show ?case
  proof (cases "c = q")
    case True
    let ?pre = "pre @ [q, q]"
    have "quoted_identifier_loop (?pre @ replace_char q [q, q] s @ q # rest) (length ?pre) q
        (v @ slice pre seg (length pre) @ [q]) (length ?pre)
        = Some ((v @ slice pre seg (length pre) @ [q]) @ slice ?pre (length ?pre) (length ?pre) @ s,
            length ?pre + length (replace_char q [q, q] s) + 1)"
      by (rule Cons.IH) (use Cons.prems in auto)
    with True Cons.prems show ?thesis
      by (subst quoted_identifier_loop.simps) (simp add: get_append_Suc slice_def)
  next
    case False
    let ?pre = "pre @ [c]"
    have "quoted_identifier_loop (?pre @ replace_char q [q, q] s @ q # rest) (length ?pre) q v seg
        = Some (v @ slice ?pre seg (length ?pre) @ s,
            length ?pre + length (replace_char q [q, q] s) + 1)"
      by (rule Cons.IH) (use Cons.prems in auto)
    with False Cons.prems show ?thesis
      by (subst quoted_identifier_loop.simps) (simp add: slice_def Suc_diff_le)
  qed
qed

lemma lex_quoted_identifier_doubled:
  "get rest 0 \<noteq> Some q \<Longrightarrow>
     lex_quoted_identifier (pre @ replace_char q [q, q] s @ q # rest) (length pre) q
       = Some (s, length pre + length (replace_char q [q, q] s) + 1)"
  using quoted_identifier_loop_doubled [of "length pre" pre rest q s "[]"]
  by (simp add: lex_quoted_identifier_def slice_def)

lemma doubled_start: "get rest 0 \<noteq> Some q \<Longrightarrow> get (replace_char q [q, q] s @ q # rest) 0 \<noteq> None"
  by (cases s) auto

lemma lex_step_quote_double:
  assumes "get rest 0 \<noteq> Some DQUOTE" "dialect \<noteq> MySql"
  shows "lex_step dialect (pre @ quote_double s @ rest) exec (length pre) DQUOTE
    = Inr (Some (Identifier \<lparr>ident_value = s, ident_quoted = True\<rparr>),
           length pre + length (quote_double s), exec)"
  using lex_quoted_identifier_doubled [OF assms(1), of "pre @ [DQUOTE]" s] assms(2)
  by (simp add: lex_step_def Let_def quoted_identifier_to_def quote_double_def byte_defs byte_def)

lemma lex_step_quote_backtick:
  assumes "get rest 0 \<noteq> Some BACKTICK" "dialect \<noteq> Postgres"
  shows "lex_step dialect (pre @ quote_backtick s @ rest) exec (length pre) BACKTICK
    = Inr (Some (Identifier \<lparr>ident_value = s, ident_quoted = True\<rparr>),
           length pre + length (quote_backtick s), exec)"
  using lex_quoted_identifier_doubled [OF assms(1), of "pre @ [BACKTICK]" s] assms(2)
  by (simp add: lex_step_def Let_def quoted_identifier_to_def quote_backtick_def byte_defs byte_def)

lemma get_quote_double: "get (pre @ quote_double s @ rest) (length pre) = Some DQUOTE"
  by (simp add: quote_double_def)

lemma get_quote_backtick: "get (pre @ quote_backtick s @ rest) (length pre) = Some BACKTICK"
  by (simp add: quote_backtick_def)

lemma lex_step_dot:
  "lex_step dialect bytes exec index (CHR ''.'') = Inr (Some (Symbol (CHR ''.'')), index + 1, exec)"
  by (simp add: lex_step_def Let_def byte_defs byte_def is_symbol_def)

text \<open>
  The escape-string scanner reads back both doublings of \<open>quote_literal\<close>: \<open>escape_body\<close> is
  the text between the quotes, whatever follows them.
\<close>

abbreviation escape_body :: "string \<Rightarrow> string" where
  "escape_body v \<equiv>
     replace_char SQUOTE [SQUOTE, SQUOTE] (replace_char BACKSLASH [BACKSLASH, BACKSLASH] v)"

lemma scan_quoted_escape_body:
  "get rest 0 \<noteq> Some SQUOTE \<Longrightarrow>
     scan_quoted (pre @ escape_body v @ SQUOTE # rest) (length pre) SQUOTE True
       = Some (length pre + length (escape_body v) + 1)"
proof (induction v arbitrary: pre)
  case Nil
  then show ?case by (subst scan_quoted.simps) (simp add: get_append_Suc)
next
  case (Cons c v)
  show ?case
  proof (cases "c = SQUOTE \<or> c = BACKSLASH")
    case True
    with Cons.prems Cons.IH [of "pre @ [c, c]"] show ?thesis
      by (subst scan_quoted.simps) (auto simp: get_append_Suc)
  next
    case False
    with Cons.prems Cons.IH [of "pre @ [c]"] show ?thesis
      by (subst scan_quoted.simps) auto
  qed
qed

lemma lex_step_quote_literal:
  assumes "get rest 0 \<noteq> Some SQUOTE"
  shows "lex_step Postgres (pre @ quote_literal v @ rest) exec (length pre) (CHR ''E'')
    = Inr (Some Opaque, length pre + length (quote_literal v), exec)"
proof -
  let ?bytes = "pre @ quote_literal v @ rest"
  have bytes: "?bytes = (pre @ [CHR ''E'']) @ SQUOTE # escape_body v @ SQUOTE # rest"
    by (simp add: quote_literal_def)
  have stop: "skip_while is_identifier_continue ?bytes (length pre + 1) = length pre + 1"
    using skip_while_append [of is_identifier_continue "pre @ [CHR ''E'']"]
    by (simp add: quote_literal_def byte_defs byte_def)
  have word: "slice ?bytes (length pre) (length pre + 1) = ''E''"
    by (simp add: slice_def quote_literal_def)
  have e: "eq_ignore_ascii_case ''E'' ''e''"
    by code_simp
  have close: "scan_quoted ?bytes (length pre + 2) SQUOTE True
      = Some (length pre + length (quote_literal v))"
    using scan_quoted_escape_body [OF assms, of "pre @ [CHR ''E'', SQUOTE]" v]
    by (simp add: quote_literal_def)
  have quote: "get ?bytes (length pre + 1) = Some SQUOTE"
    by (simp add: get_append_Suc quote_literal_def)
  have "lex_word Postgres ?bytes exec (length pre) = Inr (Some Opaque, length pre + length (quote_literal v), exec)"
    using stop word e close quote
    by (simp add: lex_word_def Let_def opaque_to_def lex_single_quote_def)
  then show ?thesis
    by (simp add: lex_step_def Let_def byte_defs byte_def)
qed

lemma get_quote_literal: "get (pre @ quote_literal v @ rest) (length pre) = Some (CHR ''E'')"
  by (simp add: quote_literal_def)

text \<open>One quoted name, and a dotted pair, as the whole input.\<close>

lemma lex_loop_finish:
  "lex_loop dialect m bytes False (length bytes) tokens = Inr tokens"
  by (simp add: lex_loop_stop)

lemma lex_one_token:
  assumes "get bytes 0 = Some b"
    and "lex_step dialect bytes False 0 b = Inr (Some t, length bytes, False)"
  shows "lex_sql_spanned_dialect bytes dialect
    = Some [\<lparr>sp_token = t, sp_start = 0, sp_end = length bytes\<rparr>]"
  using lex_loop_token [OF assms, of usize_max "[]"]
  by (simp add: lex_sql_spanned_dialect_def lex_dialect_bounded_def lex_loop_finish usize_max_def)

lemma lex_dotted:
  assumes a: "get (a @ ''.'' @ b) 0 = Some x" "lex_step dialect (a @ ''.'' @ b) False 0 x
      = Inr (Some s, length a, False)"
    and b: "get (a @ ''.'' @ b) (length a + 1) = Some y"
      "lex_step dialect (a @ ''.'' @ b) False (length a + 1) y
      = Inr (Some t, length a + 1 + length b, False)"
  shows "map_option (map sp_token) (lex_sql_spanned_dialect (a @ ''.'' @ b) dialect)
    = Some [s, Symbol (CHR ''.''), t]"
proof -
  have dot: "get (a @ ''.'' @ b) (length a) = Some (CHR ''.'')"
    by (simp add: get_conv_nth nth_append)
  show ?thesis
    using lex_loop_token [OF a, of usize_max "[]"]
      lex_loop_token [OF dot lex_step_dot, of dialect usize_max False]
      lex_loop_token [OF b, of usize_max]
      lex_loop_stop [of "a @ ''.'' @ b" "length a + 1 + length b" dialect usize_max False]
    by (simp add: lex_sql_spanned_dialect_def lex_dialect_bounded_def usize_max_def)
qed

lemma lex_dialect_server:
  assumes "lex_sql_spanned_dialect sql d = Some ts" "d = Postgres \<Longrightarrow> CR \<notin> set sql"
  shows "server_lexes escapes d sql False 0 ts' \<longleftrightarrow> ts' = ts"
proof -
  have "lex_loop d usize_max sql False 0 [] = Inr ts"
    using assms(1) by (simp add: lex_sql_spanned_dialect_def lex_dialect_bounded_def)
  from lex_loop_server_lexes [OF this assms(2)] have "server_lexes escapes d sql False 0 ts" by auto
  then show ?thesis by (auto dest: server_lexes_deterministic)
qed

section \<open>Properties\<close>

text \<open>
  Every token the lexer returns, in any dialect, has a non-empty byte range inside the text,
  and the ranges are disjoint and in source order, so \<open>&sql[start..end]\<close> never panics.
\<close>

theorem lex_spans_in_range:
  assumes "lex_sql_spanned_dialect sql d = Some ts"
  shows "sorted_wrt (\<lambda>a b. sp_end a \<le> sp_start b) ts
    \<and> (\<forall>t\<in>set ts. sp_start t < sp_end t \<and> sp_end t \<le> length sql)"
  using lex_sql_spanned_dialect_spans [OF assms] by (simp add: spans_within_def spans_ordered_def)

text \<open>A sample text with a doubled quote, a literal and a comment.\<close>

definition sample_query :: string where
  "sample_query = ''SELECT '' @ quote_double [CHR ''a'', DQUOTE] @ '', 'it' FROM t -- x''"

definition sample_tokens :: "spanned_token list" where
  "sample_tokens = the (lex_sql_spanned_dialect sample_query Postgres)"

lemma sample_lexes: "lex_sql_spanned_dialect sample_query Postgres = Some sample_tokens"
  by code_simp

text \<open>
  the token cap of \<open>lex_sql_spanned_bounded\<close> changes nothing but the refusal: with a cap \<open>m\<close>
  the result is that of the uncapped lexer when it has at most \<open>m\<close> tokens, \<open>TooManyTokens\<close> when
  it has more, and an error whenever the uncapped lexer refuses the text.
\<close>

lemma lex_cap_exact:
  assumes "m \<le> usize_max"
  shows "case lex_sql_spanned sql of
      Some ts \<Rightarrow> lex_sql_spanned_bounded sql m = (if length ts \<le> m then Inr ts else Inl TooManyTokens)
    | None \<Rightarrow> \<exists>e. lex_sql_spanned_bounded sql m = Inl e"
proof (cases "lex_sql_spanned sql")
  case None
  then obtain e where "lex_loop Postgres usize_max sql False 0 [] = Inl e"
    by (auto simp: lex_sql_spanned_def ok_None_iff lex_sql_spanned_bounded_def lex_dialect_bounded_def)
  from lex_loop_cap_Inl [OF this assms] None show ?thesis
    by (simp add: lex_sql_spanned_bounded_def lex_dialect_bounded_def)
next
  case (Some ts)
  then have "lex_loop Postgres usize_max sql False 0 [] = Inr ts"
    by (simp add: lex_sql_spanned_def lex_sql_spanned_bounded_def lex_dialect_bounded_def)
  from lex_loop_cap [OF this _ assms] Some show ?thesis
    by (simp add: lex_sql_spanned_bounded_def lex_dialect_bounded_def)
qed


definition sample_injection :: string where
  "sample_injection = ''SELECT '' @ [SQUOTE, BACKSLASH, SQUOTE] @ '' OR 1 -- '' @ [SQUOTE]"


fun engine_dialect :: "database_engine \<Rightarrow> sql_dialect option" where
  "engine_dialect PostgreSQL = Some Postgres"
| "engine_dialect SQLite = Some Sqlite"
| "engine_dialect MySQL = Some MySql"
| "engine_dialect ClickHouse = None"
| "engine_dialect Redis = None"

abbreviation quoted_name :: "string \<Rightarrow> sql_token" where
  "quoted_name s \<equiv> Identifier \<lparr>ident_value = s, ident_quoted = True\<rparr>"

lemma lex_double_quoted:
  assumes "dialect \<noteq> MySql"
  shows "map_option (map sp_token) (lex_sql_spanned_dialect (quote_double t) dialect) = Some [quoted_name t]"
    and "map_option (map sp_token) (lex_sql_spanned_dialect (quote_double s @ ''.'' @ quote_double t) dialect)
      = Some [quoted_name s, Symbol (CHR ''.''), quoted_name t]"
proof -
  show "map_option (map sp_token) (lex_sql_spanned_dialect (quote_double t) dialect) = Some [quoted_name t]"
    using lex_one_token [of "quote_double t" DQUOTE dialect "quoted_name t"]
      lex_step_quote_double [of "[]" dialect "[]" t False] get_quote_double [of "[]" t "[]"] assms
    by simp
  show "map_option (map sp_token) (lex_sql_spanned_dialect (quote_double s @ ''.'' @ quote_double t) dialect)
      = Some [quoted_name s, Symbol (CHR ''.''), quoted_name t]"
    using assms get_quote_double [of "[]" s "''.'' @ quote_double t"]
      lex_step_quote_double [of "''.'' @ quote_double t" dialect "[]" s False]
      get_quote_double [of "quote_double s @ ''.''" t "[]"]
      lex_step_quote_double [of "[]" dialect "quote_double s @ ''.''" t False]
    by (intro lex_dotted) simp_all
qed

lemma lex_backtick_quoted:
  assumes "dialect \<noteq> Postgres"
  shows "map_option (map sp_token) (lex_sql_spanned_dialect (quote_backtick t) dialect) = Some [quoted_name t]"
    and "map_option (map sp_token) (lex_sql_spanned_dialect (quote_backtick s @ ''.'' @ quote_backtick t) dialect)
      = Some [quoted_name s, Symbol (CHR ''.''), quoted_name t]"
proof -
  show "map_option (map sp_token) (lex_sql_spanned_dialect (quote_backtick t) dialect) = Some [quoted_name t]"
    using lex_one_token [of "quote_backtick t" BACKTICK dialect "quoted_name t"]
      lex_step_quote_backtick [of "[]" dialect "[]" t False] get_quote_backtick [of "[]" t "[]"] assms
    by simp
  show "map_option (map sp_token) (lex_sql_spanned_dialect (quote_backtick s @ ''.'' @ quote_backtick t) dialect)
      = Some [quoted_name s, Symbol (CHR ''.''), quoted_name t]"
    using assms get_quote_backtick [of "[]" s "''.'' @ quote_backtick t"]
      lex_step_quote_backtick [of "''.'' @ quote_backtick t" dialect "[]" s False]
      get_quote_backtick [of "quote_backtick s @ ''.''" t "[]"]
      lex_step_quote_backtick [of "[]" dialect "quote_backtick s @ ''.''" t False]
    by (intro lex_dotted) simp_all
qed

text \<open>
  C30: a table name built by \<open>qualified_table_name\<close> is read back by the engine's own lexer as the
  quoted names it was built from and nothing else, whatever bytes they hold: a name cannot
  break out of its quotes.
\<close>

theorem quoted_names_lex_to_themselves:
  assumes "engine_dialect engine = Some d" "qualified_table_name engine schema table = Some sql"
  shows "map_option (map sp_token) (lex_sql_spanned_dialect sql d) =
    Some (if schema = [] then [quoted_name table]
          else [quoted_name schema, Symbol (CHR ''.''), quoted_name table])"
  using assms lex_double_quoted [of d] lex_backtick_quoted [of d]
  by (cases engine) (auto simp: qualified_table_name_def)

lemma quoted_names_lex_to_themselves_witness:
  "map_option (map sp_token)
     (lex_sql_spanned_dialect (the (qualified_table_name SQLite [DQUOTE] ''; DROP TABLE t'')) Sqlite)
   = Some [quoted_name [DQUOTE], Symbol (CHR ''.''), quoted_name ''; DROP TABLE t'']"
  by (subst quoted_names_lex_to_themselves [of SQLite Sqlite "[DQUOTE]" "''; DROP TABLE t''"])
    (simp_all add: qualified_table_name_def)

text \<open>
  The text \<open>quote_literal\<close> writes for a string is one opaque token for the PostgreSQL lexer,
  whatever bytes the string holds.
\<close>

theorem quote_literal_is_one_token:
  "lex_sql_spanned (quote_literal v)
    = Some [\<lparr>sp_token = Opaque, sp_start = 0, sp_end = length (quote_literal v)\<rparr>]"
  using lex_one_token [of "quote_literal v" "CHR ''E''" Postgres Opaque]
    lex_step_quote_literal [of "[]" "[]" v False] get_quote_literal [of "[]" v "[]"]
  by (simp add: lex_sql_spanned_Postgres)

end
