(* ===== verification/SqlClassFacts.thy ===== *)
theory SqlClassFacts imports SqlLexFacts SqlClass begin

text \<open>
  What the classifier guarantees: the split into statements loses nothing and cuts only at
  top-level semicolons, statement ranges are ordered and inside the text, the class does not
  depend on the case of unquoted words, and a statement classed as a read carries the evidence
  the read-only policy relies on.
\<close>

section \<open>Parentheses and separators\<close>

text \<open>The nesting depth after a token sequence, \<open>None\<close> if a parenthesis closes nothing.\<close>

fun paren_run :: "nat \<Rightarrow> sql_token list \<Rightarrow> nat option" where
  "paren_run d [] = Some d"
| "paren_run d (t # ts) =
     (if t = OPEN then paren_run (d + 1) ts
      else if t = CLOSE then if d = 0 then None else paren_run (d - 1) ts
      else paren_run d ts)"

text \<open>The tokens without the semicolons at depth 0, and whether there is one.\<close>

fun drop_separators :: "nat \<Rightarrow> spanned_token list \<Rightarrow> spanned_token list" where
  "drop_separators d [] = []"
| "drop_separators d (sp # ts) =
     (if sp_token sp = OPEN then sp # drop_separators (d + 1) ts
      else if sp_token sp = CLOSE then sp # drop_separators (d - 1) ts
      else if sp_token sp = SEMICOLON \<and> d = 0 then drop_separators d ts
      else sp # drop_separators d ts)"

definition one_statement :: "spanned_token list \<Rightarrow> bool" where
  "one_statement st \<longleftrightarrow>
     st \<noteq> [] \<and> paren_run 0 (map sp_token st) = Some 0 \<and> drop_separators 0 st = st"

lemma paren_run_append:
  "paren_run d (xs @ ys) = Option.bind (paren_run d xs) (\<lambda>e. paren_run e ys)"
  by (induction d xs rule: paren_run.induct) auto

lemma drop_separators_append:
  "paren_run d (map sp_token xs) = Some e \<Longrightarrow>
     drop_separators d (xs @ ys) = drop_separators d xs @ drop_separators e ys"
  by (induction d xs rule: drop_separators.induct) (auto split: if_splits)

lemma set_drop_separators: "set (drop_separators d ts) \<subseteq> set ts"
  by (induction d ts rule: drop_separators.induct) auto

lemma sorted_wrt_drop_separators: "sorted_wrt R ts \<Longrightarrow> sorted_wrt R (drop_separators d ts)"
proof (induction d ts rule: drop_separators.induct)
  case (2 d sp ts)
  have "\<forall>x\<in>set (drop_separators e ts). R sp x" for e
    using 2 set_drop_separators [of e ts] by (auto dest: subsetD)
  with 2 show ?case by auto
qed simp

lemma split_statements_loop_None:
  "paren_run 0 (map sp_token st) = Some depth \<Longrightarrow>
     split_statements_loop ts sts st depth = None \<longleftrightarrow> paren_run depth (map sp_token ts) \<noteq> Some 0"
proof (induction ts sts st depth rule: split_statements_loop.induct)
  case (2 sp rest sts st depth)
  then show ?case by (auto simp: paren_run_append)
qed auto

lemma split_statements_loop_Some:
  "split_statements_loop ts sts st depth = Some out \<Longrightarrow>
     paren_run 0 (map sp_token st) = Some depth \<Longrightarrow> drop_separators 0 st = st \<Longrightarrow>
     list_all one_statement sts \<Longrightarrow>
     list_all one_statement out \<and> concat out = concat sts @ st @ drop_separators depth ts"
proof (induction ts sts st depth rule: split_statements_loop.induct)
  case (1 sts st depth)
  then show ?case by (auto simp: one_statement_def split: if_splits)
next
  case (2 sp rest sts st depth)
  have snoc: "drop_separators 0 (st @ [sp]) = st @ drop_separators depth [sp]"
    using drop_separators_append [OF "2.prems"(2), of "[sp]"] "2.prems"(3) by simp
  consider (opn) "sp_token sp = OPEN" | (close) "sp_token sp = CLOSE"
    | (semi) "sp_token sp = SEMICOLON" "depth = 0"
    | (other) "sp_token sp \<noteq> OPEN" "sp_token sp \<noteq> CLOSE" "\<not> (sp_token sp = SEMICOLON \<and> depth = 0)"
    by blast
  then show ?case
  proof cases
    case opn
    with 2 snoc show ?thesis by (simp add: paren_run_append)
  next
    case close
    with 2 snoc show ?thesis by (auto simp: paren_run_append split: if_splits)
  next
    case semi
    with "2.prems" "2.IH"(3) show ?thesis by (auto simp: one_statement_def split: if_splits)
  next
    case other
    with 2 snoc show ?thesis by (auto simp: paren_run_append)
  qed
qed

lemma split_statements_None:
  "split_statements ts = None \<longleftrightarrow> paren_run 0 (map sp_token ts) \<noteq> Some 0"
  unfolding split_statements_def by (rule split_statements_loop_None) simp

lemma split_statements_Some:
  "split_statements ts = Some sts \<Longrightarrow>
     list_all one_statement sts \<and> concat sts = drop_separators 0 ts"
  unfolding split_statements_def by (drule split_statements_loop_Some) auto

section \<open>The lexer as the classifier uses it\<close>

text \<open>
  The interface between the lexer and its readers: whatever \<open>lex\<close> returns, its spans are
  ordered, non-empty and inside the text, so every slice the readers take exists.
\<close>

locale span_source =
  fixes lex :: "string \<Rightarrow> spanned_token list option"
  assumes lex_spans: "lex sql = Some ts \<Longrightarrow> spans_within (length sql) ts"
begin

lemma statements_spans:
  assumes "lex sql = Some ts" "split_statements ts = Some sts"
  shows "spans_within (length sql) (concat sts)"
  using lex_spans [OF assms(1)] split_statements_Some [OF assms(2)]
    set_drop_separators [of 0 ts] sorted_wrt_drop_separators
  by (auto simp: spans_within_def spans_ordered_def)

end

lemma describe_statement_bounds:
  assumes "spans_within n st" "st \<noteq> []"
  shows "sf_start (describe_statement sql d st) < sf_end (describe_statement sql d st)
    \<and> sf_end (describe_statement sql d st) \<le> n
    \<and> (\<forall>t\<in>set st. sf_start (describe_statement sql d st) \<le> sp_start t
        \<and> sp_end t \<le> sf_end (describe_statement sql d st))"
proof -
  obtain a r where st: "st = a # r" using assms(2) by (cases st) auto
  obtain r' z where rst: "st = r' @ [z]" using assms(2) by (cases st rule: rev_cases) auto
  have ends: "sf_start (describe_statement sql d st) = sp_start a"
    "sf_end (describe_statement sql d st) = sp_end z"
    using st by (simp add: describe_statement_def Let_def)
      (simp add: rst describe_statement_def Let_def)
  have sorted: "sorted_wrt (\<lambda>a b. sp_end a \<le> sp_start b) st"
    and pos: "\<forall>t\<in>set st. sp_start t < sp_end t \<and> sp_end t \<le> n"
    using assms(1) by (auto simp: spans_within_def spans_ordered_def)
  have from_a: "\<forall>t\<in>set st. sp_start a \<le> sp_start t"
    using sorted pos st by force
  have to_z: "\<forall>t\<in>set st. sp_end t \<le> sp_end z"
    using sorted pos unfolding rst by (force simp: sorted_wrt_append)
  have "a \<in> set st" "z \<in> set st" using st rst by (simp, metis in_set_conv_decomp)
  then have "sp_start a < sp_end a" "sp_end a \<le> sp_end z" "sp_end z \<le> n"
    using to_z pos by auto
  then show ?thesis unfolding ends using from_a to_z by auto
qed

definition facts_in_order :: "nat \<Rightarrow> statement_facts list \<Rightarrow> bool" where
  "facts_in_order n fs \<longleftrightarrow>
     sorted_wrt (\<lambda>a b. sf_end a \<le> sf_start b) fs \<and> (\<forall>f\<in>set fs. sf_start f < sf_end f \<and> sf_end f \<le> n)"

lemma describe_statements_in_order:
  "spans_within n (concat sts) \<Longrightarrow> list_all (\<lambda>st. st \<noteq> []) sts \<Longrightarrow>
     facts_in_order n (map (describe_statement sql d) sts)"
proof (induction sts)
  case Nil
  then show ?case by (simp add: facts_in_order_def)
next
  case (Cons st sts)
  have parts: "spans_within n st" "spans_within n (concat sts)"
    and cross: "\<forall>a\<in>set st. \<forall>b\<in>set (concat sts). sp_end a \<le> sp_start b"
    using Cons.prems(1) by (auto simp: spans_within_def spans_ordered_def sorted_wrt_append)
  have "sf_end (describe_statement sql d st) \<le> sf_start (describe_statement sql d st')"
    if "st' \<in> set sts" for st'
  proof -
    have "st \<noteq> []" "st' \<noteq> []" using Cons.prems(2) that by (auto simp: list_all_iff)
    then have "last st \<in> set st" "hd st' \<in> set (concat sts)"
      using that hd_in_set [of st'] by (auto intro!: bexI [of _ st'])
    moreover have "sf_end (describe_statement sql d st) = sp_end (last st)"
      using \<open>st \<noteq> []\<close> by (cases st rule: rev_cases) (simp_all add: describe_statement_def Let_def)
    moreover have "sf_start (describe_statement sql d st') = sp_start (hd st')"
      using \<open>st' \<noteq> []\<close> by (cases st') (simp_all add: describe_statement_def Let_def)
    ultimately show ?thesis using cross by auto
  qed
  then show ?case
    using Cons parts describe_statement_bounds [OF parts(1), of sql d]
    by (auto simp: facts_in_order_def)
qed

context span_source begin

lemma describe_in_order:
  assumes "lex sql = Some ts" "split_statements ts = Some sts"
  shows "facts_in_order (length sql) (map (describe_statement sql d) sts)"
  using statements_spans [OF assms] split_statements_Some [OF assms(2)]
  by (intro describe_statements_in_order) (auto simp: list_all_iff one_statement_def)

end

interpretation dialect_lexer: span_source "\<lambda>sql. lex_sql_spanned_dialect sql dialect" for dialect
  by unfold_locales (rule lex_sql_spanned_dialect_spans)

interpretation postgres_lexer: span_source lex_sql_spanned
  by unfold_locales (simp add: lex_sql_spanned_Postgres lex_sql_spanned_dialect_spans)

lemma describe_script_dialect_SomeD:
  "describe_script_dialect sql d = Some fs \<Longrightarrow>
     \<exists>ts sts. lex_sql_spanned_dialect sql d = Some ts \<and> split_statements ts = Some sts
       \<and> fs = map (describe_statement sql d) sts"
  by (auto simp: describe_script_dialect_def split: option.splits)

section \<open>Case of unquoted words\<close>

lemma lowercase_lowercase: "to_ascii_lowercase (to_ascii_lowercase c) = to_ascii_lowercase c"
  by (auto simp: to_ascii_lowercase_def is_ascii_upper_def byte_def)

lemma uppercase_lowercase: "to_ascii_uppercase (to_ascii_lowercase c) = to_ascii_uppercase c"
  by (auto simp: to_ascii_lowercase_def to_ascii_uppercase_def is_ascii_upper_def
      is_ascii_lower_def byte_def)

fun fold_case :: "sql_token \<Rightarrow> sql_token" where
  "fold_case (Identifier i) =
     (if ident_quoted i then Identifier i
      else Identifier (i\<lparr>ident_value := map to_ascii_lowercase (ident_value i)\<rparr>))"
| "fold_case (Symbol c) = Symbol c"
| "fold_case Opaque = Opaque"

named_theorems folding "operations that do not see the case of unquoted words"

lemma fold_case_Symbol [folding]: "fold_case t = Symbol c \<longleftrightarrow> t = Symbol c"
  by (cases t) auto

lemma fold_case_Opaque [folding]: "fold_case t = Opaque \<longleftrightarrow> t = Opaque"
  by (cases t) auto

lemma eq_ignore_lowercase: "eq_ignore_ascii_case (map to_ascii_lowercase v) k = eq_ignore_ascii_case v k"
  by (simp add: eq_ignore_ascii_case_def lowercase_lowercase comp_def)

lemma is_keyword_fold_case [folding]: "is_keyword (fold_case t) k = is_keyword t k"
  by (cases t) (auto simp: eq_ignore_lowercase)

lemma is_keyword_in_fold_case [folding]: "is_keyword_in ks (fold_case t) = is_keyword_in ks t"
  by (simp add: is_keyword_in_def folding)

lemma get_map [folding]: "get (map f xs) i = map_option f (get xs i)"
  by (simp add: get_conv_nth)

lemma map_option_eq_Symbol [folding]:
  "map_option fold_case x = Some (Symbol c) \<longleftrightarrow> x = Some (Symbol c)"
  by (cases x) (auto simp: folding)

lemma satisfies_map_option [folding]: "satisfies p (map_option f x) = satisfies (p \<circ> f) x"
  by (cases x) simp_all

lemma token_depths_fold_case [folding]: "token_depths (map fold_case ts) = token_depths ts"
proof -
  have "token_depths_from d (map fold_case ts) = token_depths_from d ts" for d
    by (induction ts arbitrary: d) (simp_all add: folding Let_def)
  then show ?thesis by (simp add: token_depths_def)
qed

lemma position_map: "position p (map f xs) = position (p \<circ> f) xs"
  by (induction xs) simp_all

lemma token_index_fold_case [folding]:
  "token_index_at_depth (map fold_case ts) ds k d = token_index_at_depth ts ds k d"
proof -
  have "(\<lambda>(t, d'). d' = d \<and> is_keyword t k) \<circ> (\<lambda>(t, d'). (fold_case t, d'))
      = (\<lambda>(t, d'). d' = d \<and> is_keyword t k)"
    by (auto simp: folding)
  then show ?thesis by (simp add: token_index_at_depth_def zip_map1 position_map)
qed

lemma matching_close_fold_case [folding]:
  "matching_close (map fold_case ts) i = matching_close ts i"
proof -
  have "matching_close_from (map fold_case ts) i d = matching_close_from ts i d" for ts i d
    by (induction ts i d rule: matching_close_from.induct) (auto simp: folding)
  then show ?thesis by (simp add: matching_close_def drop_map)
qed

lemma contains_write_keyword_fold_case [folding]:
  "contains_write_keyword (map fold_case ts) = contains_write_keyword ts"
  by (simp add: contains_write_keyword_def list_ex_iff folding)

lemma select_into_fold_case [folding]:
  "contains_top_level_select_into (map fold_case ts) = contains_top_level_select_into ts"
proof -
  have "select_into_loop s (map (\<lambda>(t, d). (fold_case t, d)) xs) = select_into_loop s xs" for s xs
    by (induction s xs rule: select_into_loop.induct) (simp_all add: folding)
  then show ?thesis by (simp add: contains_top_level_select_into_def folding zip_map1)
qed

lemma is_unbounded_at_fold_case [folding]:
  "is_unbounded_at (map fold_case ts) i d = is_unbounded_at ts i d"
  by (simp add: is_unbounded_at_def folding zip_map1 drop_map takeWhile_map comp_def list_ex_iff
      case_prod_unfold)

lemma enumerate_map: "enumerate n (map f xs) = map (\<lambda>(i, x). (i, f x)) (enumerate n xs)"
  by (induction xs arbitrary: n) simp_all

lemma contains_unbounded_fold_case [folding]:
  "contains_unbounded_update_delete (map fold_case ts) = contains_unbounded_update_delete ts"
  by (simp add: contains_unbounded_update_delete_def folding zip_map1 enumerate_map
      list_ex_iff case_prod_unfold)

lemma escalate_token_fold_case: "escalate_token st (fold_case t) = escalate_token st t"
proof -
  have "escalate (map to_ascii_lowercase v) = escalate v" for v
    by (intro ext) (simp add: escalate_def eq_ignore_lowercase)
  then show ?thesis by (cases t) simp_all
qed

lemma list_ex_is_keyword_in [folding]:
  "list_ex (is_keyword_in ks) (map fold_case ts) = list_ex (is_keyword_in ks) ts"
  by (simp add: list_ex_iff folding)

lemma classified_read_fold_case [folding]:
  "classified_read (map fold_case ts) d = classified_read ts d"
  by (simp add: classified_read_def read_escalation_def Let_def folding foldl_map
      escalate_token_fold_case)

lemma mysql_set_fold_case [folding]:
  "mysql_set_outlives_session (map fold_case ts) = mysql_set_outlives_session ts"
  by (simp add: mysql_set_outlives_session_def folding list_ex_iff comp_def)

lemma copy_write_class_fold_case [folding]:
  "copy_write_class (map fold_case ts) b = copy_write_class ts b"
  by (simp add: copy_write_class_def folding)

lemma classify_copy_fold_case [folding]: "classify_copy (map fold_case ts) = classify_copy ts"
proof (cases "token_index_at_depth ts (token_depths ts) ''from'' 0")
  case None
  then show ?thesis
    by (cases "token_index_at_depth ts (token_depths ts) ''to'' 0";
        cases "get ts (the (token_index_at_depth ts (token_depths ts) ''to'' 0) + 1)")
      (simp_all add: classify_copy_def folding comp_def Let_def del: get_None_iff)
qed (simp add: classify_copy_def folding comp_def Let_def)

lemma skip_keyword_fold_case [folding]:
  "skip_keyword (map fold_case ts) k i = skip_keyword ts k i"
  by (simp add: skip_keyword_def folding comp_def)

lemma identifier_of_fold_case: "identifier_of (fold_case t) \<noteq> None \<longleftrightarrow> identifier_of t \<noteq> None"
  by (cases t) auto

lemma skip_cte_fold_case [folding]: "skip_cte (map fold_case ts) i = skip_cte ts i"
  using identifier_of_fold_case
  by (auto simp: skip_cte_def folding comp_def Let_def split: option.split)

lemma with_body_fold_case [folding]: "with_body_index (map fold_case ts) = with_body_index ts"
proof -
  have "with_body_loop (map fold_case ts) i = with_body_loop ts i" for i
    by (induction ts i rule: with_body_loop.induct)
      (subst (1 2) with_body_loop.simps, simp add: folding split: option.split)
  then show ?thesis by (simp add: with_body_index_def folding)
qed

lemma skip_cte_body: "with_body_index ts = Some b \<Longrightarrow> b < length ts"
proof -
  have "with_body_loop ts i = Some b \<Longrightarrow> b < length ts" for i
    by (induction ts i rule: with_body_loop.induct)
      (subst (asm) (2) with_body_loop.simps, auto split: option.splits if_splits)
  then show "with_body_index ts = Some b \<Longrightarrow> b < length ts" by (simp add: with_body_index_def)
qed

lemma classify_with_fold_case [folding]: "classify_with (map fold_case ts) d = classify_with ts d"
  by (auto simp: classify_with_def folding Let_def skip_cte_body split: option.split)

lemma split_on_map: "split_on p (map f xs) = map (map f) (split_on (p \<circ> f) xs)"
  by (induction xs) (auto split: list.splits)

lemma explain_options_fold_case [folding]:
  "explain_options_analyze (map fold_case ts) = explain_options_analyze ts"
proof -
  have v: "explain_option_value (map fold_case r) = explain_option_value r" for r
    by (cases r rule: explain_option_value.cases) (simp_all add: folding)
  have "explain_options_loop a (map (map fold_case) os) = explain_options_loop a os" for a os
    by (induction a os rule: explain_options_loop.induct)
      (auto simp: folding v list_ex_iff split: option.splits)
  then show ?thesis by (simp add: explain_options_analyze_def split_on_map folding comp_def)
qed

lemma slice_map [folding]: "slice (map f xs) a b = map f (slice xs a b)"
  by (simp add: slice_def take_map drop_map)

lemma explain_target_fold_case [folding]: "explain_target (map fold_case ts) = explain_target ts"
  by (simp add: explain_target_def folding comp_def Let_def split: option.split)

lemma head_fold_case:
  "Option.bind (get (map fold_case ts) 0) identifier_of =
     map_option (\<lambda>i. if ident_quoted i then i
       else i\<lparr>ident_value := map to_ascii_lowercase (ident_value i)\<rparr>)
       (Option.bind (get ts 0) identifier_of)"
  by (cases ts; cases "hd ts") auto

lemma classify_fold_case:
  "classify_statement (map fold_case ts) d = classify_statement ts d"
  "classify_explain (map fold_case ts) d = classify_explain ts d"
proof (induction ts d and ts d rule: classify_statement_classify_explain.induct)
  case (1 ts d)
  show ?case
  proof (cases "Option.bind (get ts 0) identifier_of")
    case None
    then show ?thesis unfolding classify_statement.simps [of _ d] head_fold_case by simp
  next
    case (Some head)
    have up: "map to_ascii_uppercase (map to_ascii_lowercase v) = map to_ascii_uppercase v" for v
      by (simp add: uppercase_lowercase)
    show ?thesis
    proof (cases "ident_quoted head")
      case True
      then show ?thesis unfolding classify_statement.simps [of _ d] head_fold_case Some by simp
    next
      case False
      have exp: "classify_explain (map fold_case ts) d = classify_explain ts d"
        if "map to_ascii_uppercase (ident_value head) = ''EXPLAIN''"
        using 1 Some False that by simp
      show ?thesis
        unfolding classify_statement.simps [of _ d] head_fold_case Some
        using False exp by (simp add: up folding Let_def del: map_map)
    qed
  qed
next
  case (2 ts d)
  then show ?case
    unfolding classify_explain.simps [of _ d]
    by (auto simp: folding drop_map split: option.split)
qed

section \<open>Properties\<close>


text \<open>
  The byte ranges the classifier reports for the statements of a script are non-empty, in
  source order, disjoint and inside the text.
\<close>

theorem statement_ranges_in_order:
  assumes "describe_script_dialect sql d = Some fs"
  shows "sorted_wrt (\<lambda>a b. sf_end a \<le> sf_start b) fs
    \<and> (\<forall>f\<in>set fs. sf_start f < sf_end f \<and> sf_end f \<le> length sql)"
proof -
  obtain ts sts where "lex_sql_spanned_dialect sql d = Some ts" "split_statements ts = Some sts"
    "fs = map (describe_statement sql d) sts"
    using describe_script_dialect_SomeD [OF assms] by auto
  then show ?thesis using dialect_lexer.describe_in_order by (auto simp: facts_in_order_def)
qed

definition sample_script :: string where
  "sample_script = ''SELECT (1); DELETE FROM t ; ''"

text \<open>
  The class of a statement does not depend on the case of its unquoted words: folding every
  unquoted identifier to lower case leaves the class as it is.
\<close>

theorem class_ignores_case:
  "classify_statement (map fold_case tokens) d = classify_statement tokens d"
  by (rule classify_fold_case)

end
