(* ===== verification/SqlReads.thy ===== *)
theory SqlReads imports SqlClassFacts begin

text \<open>
  What the class \<open>Read\<close> of \<open>sql_class.rs\<close> means: the inductive predicate \<open>harmless\<close> lists, without
  the classifier's loops, the shapes a statement can have when it is classed as a read, and
  \<open>classify_Read_iff\<close> shows that the classifier returns \<open>Read\<close> on exactly those.
\<close>

section \<open>What a read is\<close>

text \<open>
  The evidence behind the class \<open>Read\<close>, stated without the loops: no unquoted word names a
  function that changes state, there is no top-level \<open>SELECT ... INTO\<close>, and no MySQL file
  output.
\<close>

definition denied_words :: "string list" where
  "denied_words = map esc_identifier read_escalation_denylist"

definition top_level :: "sql_token list \<Rightarrow> nat \<Rightarrow> string \<Rightarrow> bool" where
  "top_level ts i keyword \<longleftrightarrow>
     i < length ts \<and> token_depths ts ! i = 0 \<and> is_keyword (ts ! i) keyword"

definition plain_read :: "sql_dialect \<Rightarrow> sql_token list \<Rightarrow> bool" where
  "plain_read d ts \<longleftrightarrow>
     (\<forall>t\<in>set ts. \<not> is_keyword_in denied_words t)
     \<and> \<not> (\<exists>i j. i < j \<and> top_level ts i ''select'' \<and> top_level ts j ''into'')
     \<and> (d = MySql \<longrightarrow> (\<forall>t\<in>set ts. \<not> is_keyword_in [''outfile'', ''dumpfile''] t))"

definition head_word :: "sql_token list \<Rightarrow> string option" where
  "head_word ts =
     (case Option.bind (get ts 0) identifier_of of
        Some i \<Rightarrow> if ident_quoted i then None else Some (map to_ascii_uppercase (ident_value i))
      | None \<Rightarrow> None)"

inductive harmless :: "sql_dialect \<Rightarrow> sql_token list \<Rightarrow> bool" where
  query: "head_word ts = Some w \<Longrightarrow> w \<in> set [''SELECT'', ''VALUES'', ''TABLE'', ''SHOW''] \<Longrightarrow>
     plain_read d ts \<Longrightarrow> harmless d ts"
| with_query: "head_word ts = Some ''WITH'' \<Longrightarrow> \<not> contains_write_keyword ts \<Longrightarrow>
     d = Postgres \<or> (\<exists>b. with_body_index ts = Some b
        \<and> is_keyword_in [''select'', ''values'', ''table''] (ts ! b)) \<Longrightarrow>
     plain_read d ts \<Longrightarrow> harmless d ts"
| copy_out: "head_word ts = Some ''COPY'' \<Longrightarrow>
     (\<forall>i. \<not> top_level ts i ''from'') \<Longrightarrow>
     token_index_at_depth ts (token_depths ts) ''to'' 0 = Some i \<Longrightarrow>
     keyword_at ts (i + 1) ''stdout'' \<Longrightarrow> \<not> contains_write_keyword ts \<Longrightarrow>
     plain_read Postgres ts \<Longrightarrow> harmless Postgres ts"
| plan: "head_word ts = Some ''EXPLAIN'' \<Longrightarrow> explain_target ts = Some (False, i) \<Longrightarrow>
     i < length ts \<Longrightarrow> harmless d ts"
| executed_plan: "head_word ts = Some ''EXPLAIN'' \<Longrightarrow> explain_target ts = Some (True, i) \<Longrightarrow>
     harmless d (drop i ts) \<Longrightarrow> harmless d ts"

inductive_cases harmless_cases: "harmless d ts"

lemma length_token_depths [simp]: "length (token_depths ts) = length ts"
proof -
  have "length (token_depths_from d ts) = length ts" for d
    by (induction ts arbitrary: d) (simp_all add: Let_def)
  then show ?thesis by (simp add: token_depths_def)
qed

lemma position_None_iff: "position p xs = None \<longleftrightarrow> (\<forall>x\<in>set xs. \<not> p x)"
  by (induction xs) auto

lemma token_index_None_iff:
  "token_index_at_depth ts (token_depths ts) k 0 = None \<longleftrightarrow> (\<forall>i. \<not> top_level ts i k)"
  by (fastforce simp: token_index_at_depth_def position_None_iff top_level_def set_zip)

lemma foldl_escalate:
  "foldl (escalate v) st es =
     (fst st \<or> (\<exists>e\<in>set es. eq_ignore_ascii_case v (esc_identifier e)),
      snd st \<or> (\<exists>e\<in>set es. eq_ignore_ascii_case v (esc_identifier e) \<and> esc_destructive e))"
  by (induction es arbitrary: st) (auto simp: escalate_def)

lemma escalate_token_eq:
  "escalate_token st t =
     (fst st \<or> is_keyword_in denied_words t,
      snd st \<or> (\<exists>e\<in>set read_escalation_denylist. is_keyword t (esc_identifier e) \<and> esc_destructive e))"
  by (cases t; cases st)
    (auto simp: foldl_escalate is_keyword_in_def denied_words_def simp del: set_simps)

lemma foldl_escalate_token:
  "fst (foldl escalate_token st ts) \<longleftrightarrow> fst st \<or> (\<exists>t\<in>set ts. is_keyword_in denied_words t)"
  by (induction ts arbitrary: st) (auto simp: escalate_token_eq)

lemma read_escalation_None_iff:
  "read_escalation ts = None \<longleftrightarrow> (\<forall>t\<in>set ts. \<not> is_keyword_in denied_words t)"
  using foldl_escalate_token [of "(False, False)" ts]
  by (auto simp: read_escalation_def split: prod.splits)

lemma select_into_loop_iff:
  "select_into_loop s xs \<longleftrightarrow>
     (\<exists>j<length xs. snd (xs ! j) = 0 \<and> is_keyword (fst (xs ! j)) ''into''
        \<and> \<not> is_keyword (fst (xs ! j)) ''select''
        \<and> (s \<or> (\<exists>i<j. snd (xs ! i) = 0 \<and> is_keyword (fst (xs ! i)) ''select'')))"
proof (induction s xs rule: select_into_loop.induct)
  case (2 s t d rest)
  have shift: "(\<exists>j<length ((t, d) # rest). P j) \<longleftrightarrow> P 0 \<or> (\<exists>j<length rest. P (Suc j))" for P
    by (auto simp: less_Suc_eq_0_disj)
  have shift': "(\<exists>i<Suc j. P i) \<longleftrightarrow> P 0 \<or> (\<exists>i<j. P (Suc i))" for P j
    by (auto simp: less_Suc_eq_0_disj)
  show ?case
    unfolding shift using 2 by (auto simp: shift')
qed simp

lemma is_keyword_unique:
  "is_keyword t a \<Longrightarrow> is_keyword t b \<Longrightarrow> eq_ignore_ascii_case a b"
  by (cases t) (auto simp: eq_ignore_ascii_case_def)

lemma select_into_iff:
  "contains_top_level_select_into ts \<longleftrightarrow>
     (\<exists>i j. i < j \<and> top_level ts i ''select'' \<and> top_level ts j ''into'')"
proof -
  have "\<not> (is_keyword t ''into'' \<and> is_keyword t ''select'')" for t
    using is_keyword_unique [of t "''into''" "''select''"]
    by (auto simp: eq_ignore_ascii_case_def)
  then show ?thesis
    by (fastforce simp: contains_top_level_select_into_def select_into_loop_iff top_level_def
        cong: conj_cong)
qed

lemma classified_read_iff: "classified_read ts d = Read \<longleftrightarrow> plain_read d ts"
proof (cases "read_escalation ts")
  case None
  then show ?thesis
    using None [unfolded read_escalation_None_iff]
    by (auto simp: classified_read_def Let_def plain_read_def select_into_iff list_ex_iff)
next
  case (Some b)
  then have "\<not> (\<forall>t\<in>set ts. \<not> is_keyword_in denied_words t)"
    using read_escalation_None_iff [of ts] by simp
  with Some show ?thesis by (cases b) (auto simp: classified_read_def Let_def plain_read_def)
qed

lemma classify_with_Read_iff:
  "classify_with ts d = Read \<longleftrightarrow>
     \<not> contains_write_keyword ts \<and> plain_read d ts
     \<and> (d = Postgres \<or> (\<exists>b. with_body_index ts = Some b
          \<and> is_keyword_in [''select'', ''values'', ''table''] (ts ! b)))"
  by (auto simp: classify_with_def Let_def classified_read_iff split: option.split)

lemma classify_copy_Read_iff:
  "classify_copy ts = Read \<longleftrightarrow>
     (\<forall>i. \<not> top_level ts i ''from'') \<and> \<not> contains_write_keyword ts \<and> plain_read Postgres ts
     \<and> (\<exists>i. token_index_at_depth ts (token_depths ts) ''to'' 0 = Some i
          \<and> keyword_at ts (i + 1) ''stdout'')"
  unfolding token_index_None_iff [symmetric]
  by (auto simp: classify_copy_def copy_write_class_def Let_def classified_read_iff
      simp del: get_None_iff split: option.split)

lemma head_word_Some:
  "head_word ts = Some w \<longleftrightarrow>
     (\<exists>i. Option.bind (get ts 0) identifier_of = Some i \<and> \<not> ident_quoted i
        \<and> w = map to_ascii_uppercase (ident_value i))"
  by (auto simp: head_word_def split: option.split)

lemma classify_statement_head:
  "classify_statement ts d =
     (case head_word ts of
        None \<Rightarrow> Unknown
      | Some keyword \<Rightarrow>
            if keyword \<in> set [''SELECT'', ''VALUES'', ''TABLE'', ''SHOW'']
            then classified_read ts d
            else if keyword = ''EXPLAIN'' then classify_explain ts d
            else if keyword = ''COPY'' \<and> d = Postgres then classify_copy ts
            else if keyword = ''WITH'' then classify_with ts d
            else classify_statement ts d)"
  by (subst classify_statement.simps)
    (auto simp: head_word_def Let_def classify_statement.simps [of ts d] split: option.split)

lemma classify_statement_other:
  "head_word ts = Some w \<Longrightarrow>
     w \<notin> set [''SELECT'', ''VALUES'', ''TABLE'', ''SHOW'', ''EXPLAIN'', ''WITH''] \<Longrightarrow>
     \<not> (w = ''COPY'' \<and> d = Postgres) \<Longrightarrow> classify_statement ts d \<noteq> Read"
  by (subst classify_statement.simps)
    (auto simp: head_word_def Let_def split: option.splits if_splits)

lemma harmless_iff:
  "harmless d ts \<longleftrightarrow>
     (\<exists>w. head_word ts = Some w \<and>
        (w \<in> set [''SELECT'', ''VALUES'', ''TABLE'', ''SHOW''] \<and> plain_read d ts
         \<or> w = ''WITH'' \<and> classify_with ts d = Read
         \<or> w = ''COPY'' \<and> d = Postgres \<and> classify_copy ts = Read
         \<or> w = ''EXPLAIN'' \<and> (\<exists>a i. explain_target ts = Some (a, i) \<and> i < length ts
              \<and> (a \<longrightarrow> harmless d (drop i ts)))))"
proof -
  have "i < length ts" if "harmless d (drop i ts)" for i
  proof (rule ccontr)
    assume "\<not> i < length ts"
    then have "head_word (drop i ts) = None" by (simp add: head_word_def)
    with that show False by (auto elim: harmless_cases)
  qed
  note short = this
  show ?thesis (is "_ \<longleftrightarrow> ?R")
  proof
    show "harmless d ts \<Longrightarrow> ?R"
      by (erule harmless_cases) (auto simp: classify_with_Read_iff classify_copy_Read_iff short)
  next
    assume ?R
    then consider w where "head_word ts = Some w"
        "w \<in> set [''SELECT'', ''VALUES'', ''TABLE'', ''SHOW'']" "plain_read d ts"
      | "head_word ts = Some ''WITH''" "classify_with ts d = Read"
      | "head_word ts = Some ''COPY''" "d = Postgres" "classify_copy ts = Read"
      | a i where "head_word ts = Some ''EXPLAIN''" "explain_target ts = Some (a, i)"
          "i < length ts" "a \<longrightarrow> harmless d (drop i ts)"
      by blast
    then show "harmless d ts"
    proof cases
      case 4
      then show ?thesis by (cases a) (auto intro: plan executed_plan)
    qed (auto simp: classify_with_Read_iff classify_copy_Read_iff intro: query with_query copy_out)
  qed
qed

lemma classify_Read_iff:
  "classify_statement ts d = Read \<longleftrightarrow> harmless d ts"
  "classify_explain ts d = Read \<longleftrightarrow>
     (\<exists>a i. explain_target ts = Some (a, i) \<and> i < length ts \<and> (a \<longrightarrow> harmless d (drop i ts)))"
proof (induction ts d and ts d rule: classify_statement_classify_explain.induct)
  case (1 ts d)
  show ?case
  proof (cases "head_word ts")
    case None
    then show ?thesis by (subst classify_statement_head, subst harmless_iff) simp
  next
    case (Some w)
    then obtain i where i: "Option.bind (get ts 0) identifier_of = Some i" "\<not> ident_quoted i"
      "w = map to_ascii_uppercase (ident_value i)"
      by (auto simp: head_word_Some)
    have ex: "classify_explain ts d = Read \<longleftrightarrow>
      (\<exists>a i. explain_target ts = Some (a, i) \<and> i < length ts \<and> (a \<longrightarrow> harmless d (drop i ts)))"
      if "w = ''EXPLAIN''"
      using 1 [OF i(1,2) refl] i(3) that by simp
    show ?thesis
    proof (cases "w \<in> set [''SELECT'', ''VALUES'', ''TABLE'', ''SHOW'', ''EXPLAIN'', ''WITH'']
        \<or> w = ''COPY'' \<and> d = Postgres")
      case True
      then show ?thesis
        unfolding harmless_iff [of d ts] Some
        by (subst classify_statement_head) (auto simp: Some classified_read_iff ex)
    next
      case False
      then have "classify_statement ts d \<noteq> Read"
        using classify_statement_other [OF Some] by auto
      with False show ?thesis by (subst harmless_iff) (auto simp: Some)
    qed
  qed
next
  case (2 ts d)
  show ?case
  proof (cases "explain_target ts")
    case (Some p)
    then show ?thesis using 2 [of p "fst p" "snd p"]
      by (cases p) (auto simp: classify_explain.simps [of ts d])
  qed (simp add: classify_explain.simps [of ts d])
qed

section \<open>Bounded updates and deletes\<close>

lemma takeWhile_ex_iff:
  "(\<exists>x\<in>set (takeWhile p xs). q x) \<longleftrightarrow> (\<exists>j<length xs. q (xs ! j) \<and> (\<forall>i\<le>j. p (xs ! i)))"
proof (induction xs)
  case (Cons x xs)
  have "(\<exists>j<length (x # xs). q ((x # xs) ! j) \<and> (\<forall>i\<le>j. p ((x # xs) ! i))) \<longleftrightarrow>
     p x \<and> (q x \<or> (\<exists>j<length xs. q (xs ! j) \<and> (\<forall>i\<le>j. p (xs ! i))))"
    (is "?L \<longleftrightarrow> ?R")
  proof
    assume ?L
    then obtain j where j: "j < Suc (length xs)" "q ((x # xs) ! j)" "\<forall>i\<le>j. p ((x # xs) ! i)" by auto
    have "p x" using j(3) by force
    moreover have "\<forall>i\<le>k. p (xs ! i)" if "j = Suc k" for k
      using j(3) that by (metis Suc_le_mono nth_Cons_Suc)
    ultimately show ?R using j by (cases j) auto
  next
    assume R: ?R
    then show ?L
    proof (cases "q x")
      case False
      with R obtain j where "j < length xs" "q (xs ! j)" "\<forall>i\<le>j. p (xs ! i)" by auto
      then show ?thesis using R by (intro exI [of _ "Suc j"]) (auto simp: nth_Cons split: nat.split)
    qed (auto intro!: exI [of _ 0])
  qed
  with Cons show ?case by auto
qed simp

lemma unbounded_at_head_iff:
  "is_unbounded_at ts 0 0 \<longleftrightarrow>
     \<not> (\<exists>j>0. top_level ts j ''where''
          \<and> (\<forall>i. 0 < i \<and> i < j \<longrightarrow> \<not> (\<exists>k\<in>set write_keywords. top_level ts i k)))"
proof -
  define zs where "zs = zip ts (token_depths ts)"
  define wk where "wk i \<longleftrightarrow> (\<exists>k\<in>set write_keywords. top_level ts i k)" for i
  have len: "length zs = length ts" by (simp add: zs_def)
  have wk: "i < length ts \<Longrightarrow> snd (zs ! i) = 0 \<and> is_keyword_in write_keywords (fst (zs ! i)) \<longleftrightarrow> wk i"
    and wh: "i < length ts \<Longrightarrow> snd (zs ! i) = 0 \<and> is_keyword (fst (zs ! i)) ''where'' \<longleftrightarrow> top_level ts i ''where''"
    for i by (auto simp: wk_def zs_def top_level_def is_keyword_in_def)
  have "list_all (\<lambda>k. \<not> eq_ignore_ascii_case ''where'' k) write_keywords" by code_simp
  then have where_not_write: "\<not> wk i" if "top_level ts i ''where''" for i
    using that is_keyword_unique [of "ts ! i" "''where''"]
    by (auto simp: wk_def top_level_def list_all_iff)
  have "\<not> is_unbounded_at ts 0 0 \<longleftrightarrow>
     (\<exists>x\<in>set (takeWhile (\<lambda>x. \<not> (snd x = 0 \<and> is_keyword_in write_keywords (fst x))) (drop 1 zs)).
        snd x = 0 \<and> is_keyword (fst x) ''where'')"
    by (simp add: is_unbounded_at_def list_ex_iff zs_def case_prod_unfold)
  also have "\<dots> \<longleftrightarrow> (\<exists>j<length ts - 1. top_level ts (Suc j) ''where'' \<and> (\<forall>i\<le>j. \<not> wk (Suc i)))"
    unfolding takeWhile_ex_iff
  proof (intro ex_cong1 conj_cong)
    show "(j < length (drop 1 zs)) = (j < length ts - 1)" for j by (simp add: len)
    fix j assume j: "j < length ts - 1"
    then have el: "i \<le> j \<Longrightarrow> drop 1 zs ! i = zs ! Suc i" for i by (simp add: len)
    show "(snd (drop 1 zs ! j) = 0 \<and> is_keyword (fst (drop 1 zs ! j)) ''where'') = top_level ts (Suc j) ''where''"
      using wh [of "Suc j"] j el by simp
    show "(\<forall>i\<le>j. \<not> (snd (drop 1 zs ! i) = 0 \<and> is_keyword_in write_keywords (fst (drop 1 zs ! i))))
        = (\<forall>i\<le>j. \<not> wk (Suc i))"
      using wk j el by (intro all_cong) (simp del: de_Morgan_conj)
  qed
  also have "\<dots> \<longleftrightarrow> (\<exists>j>0. top_level ts j ''where'' \<and> (\<forall>i. 0 < i \<and> i < j \<longrightarrow> \<not> wk i))"
  proof
    assume "\<exists>j<length ts - 1. top_level ts (Suc j) ''where'' \<and> (\<forall>i\<le>j. \<not> wk (Suc i))"
    then obtain j where "top_level ts (Suc j) ''where''" "\<forall>i\<le>j. \<not> wk (Suc i)" by auto
    then show "\<exists>j>0. top_level ts j ''where'' \<and> (\<forall>i. 0 < i \<and> i < j \<longrightarrow> \<not> wk i)"
      by (intro exI [of _ "Suc j"]) (auto simp: gr0_conv_Suc)
  next
    assume "\<exists>j>0. top_level ts j ''where'' \<and> (\<forall>i. 0 < i \<and> i < j \<longrightarrow> \<not> wk i)"
    then obtain j where "top_level ts (Suc j) ''where''" "\<forall>i. 0 < i \<and> i < Suc j \<longrightarrow> \<not> wk i"
      by (auto simp: gr0_conv_Suc)
    moreover from this have "\<forall>i\<le>j. \<not> wk (Suc i)"
      using where_not_write by (metis Suc_less_eq le_neq_implies_less zero_less_Suc)
    ultimately show "\<exists>j<length ts - 1. top_level ts (Suc j) ''where'' \<and> (\<forall>i\<le>j. \<not> wk (Suc i))"
      by (intro exI [of _ j]) (auto simp: top_level_def)
  qed
  finally show ?thesis unfolding wk_def by blast
qed

section \<open>Properties\<close>


text \<open>
  an \<open>UPDATE\<close> or \<open>DELETE\<close> statement is never destructive DML and is flagged unbounded exactly
  when no top-level \<open>WHERE\<close> comes before the next top-level write keyword.
\<close>

lemma update_delete_bounded_iff:
  assumes "head_word tokens = Some w" "w = ''UPDATE'' \<or> w = ''DELETE''"
  shows "\<exists>unbounded. classify_statement tokens d = Dml unbounded False
    \<and> (unbounded \<longleftrightarrow> \<not> (\<exists>j>0. top_level tokens j ''where''
         \<and> (\<forall>i. 0 < i \<and> i < j \<longrightarrow> \<not> (\<exists>k\<in>set write_keywords. top_level tokens i k))))"
proof -
  have "classify_statement tokens d = Dml (is_unbounded_at tokens 0 0) False"
    using assms by (subst classify_statement.simps) (auto simp: head_word_def Let_def split: option.splits if_splits)
  then show ?thesis using unbounded_at_head_iff [of tokens] by simp
qed

definition sample_delete :: "sql_token list" where
  "sample_delete = the (lex_sql ''delete from t where (select 1) > 0'')"

text \<open>
  the classifier looks at unquoted words only.  A quoted option name is the same option to
  PostgreSQL and a quoted function name calls the same function, yet both texts below are classed
  as reads: an \<open>EXPLAIN\<close> that executes its \<open>DELETE\<close>, and a call that terminates a backend.
\<close>

lemma quoted_words_escape_the_classifier:
  "classify_script (''EXPLAIN ('' @ quote_double ''analyze'' @ '') DELETE FROM t'') = [Read]
   \<and> classify_script (''SELECT '' @ quote_double ''pg_terminate_backend'' @ ''(1)'') = [Read]"
proof
  show "classify_script (''EXPLAIN ('' @ quote_double ''analyze'' @ '') DELETE FROM t'') = [Read]"
    by code_simp
  show "classify_script (''SELECT '' @ quote_double ''pg_terminate_backend'' @ ''(1)'') = [Read]"
    by code_simp
qed

end
