(* ===== verification/SqlParams.thy ===== *)
theory SqlParams imports SqlReads begin

text \<open>
  Named parameters and execution shapes: \<open>backend/src/postgres/sql_params.rs\<close>.  The scan for
  \<open>:name\<close>, the rewrite to \<open>$k\<close> with its position map, the binding limits and the planner that
  picks an execution shape.  \<open>Result<_, ()>\<close> is an option; the two hash maps are association
  lists whose keys are distinct; \<open>u32\<close> character counters wrap through \<open>u32\<close>.
\<close>

section \<open>Values, scans and refusals\<close>

definition MAX_NAME_BYTES :: nat where "MAX_NAME_BYTES = 63"
definition MAX_PARAMETERS :: nat where "MAX_PARAMETERS = 256"
definition MAX_VALUE_BYTES :: nat where "MAX_VALUE_BYTES = 1024 * 1024"
definition MAX_TOTAL_VALUE_BYTES :: nat where "MAX_TOTAL_VALUE_BYTES = 4 * 1024 * 1024"
definition MAX_ROW_LIMIT :: int where "MAX_ROW_LIMIT = 10000"

record parameter_value =
  pv_name :: string
  pv_value :: "string option"

type_synonym bound_values = "string option list"

datatype parameter_rejection_reason =
    Unlexable | MultipleStatements | PositionalPlaceholder | MissingValue | DuplicateName
  | NameTooLong | TooManyParameters | ValueTooLarge

record parameter_rejection =
  pr_reason :: parameter_rejection_reason
  pr_names :: "string list"

definition reject :: "parameter_rejection_reason \<Rightarrow> string list \<Rightarrow> parameter_rejection" where
  "reject reason names = \<lparr>pr_reason = reason, pr_names = names\<rparr>"

record occurrence =
  oc_start :: nat
  oc_end :: nat
  oc_index :: nat

record parameter_scan =
  ps_names :: "string list"
  ps_occurrences :: "occurrence list"
  ps_positional :: bool

datatype enclosure = Paren | Constructor | Subscript

section \<open>The scan\<close>

definition glues_to_colon :: "string \<Rightarrow> spanned_token \<Rightarrow> nat \<Rightarrow> bool" where
  "glues_to_colon sql previous colon \<longleftrightarrow>
     sp_end previous = colon
     \<and> (case rev (take colon sql) of
          [] \<Rightarrow> False
        | b # _ \<Rightarrow> is_ascii_alphanumeric b
            \<or> b \<in> set [CHR ''_'', CHR ''$'', SQUOTE, DQUOTE, CHR '')'', CHR '']'', CHR '':''])"

fun parameter_name :: "spanned_token \<Rightarrow> nat \<Rightarrow> string option" where
  "parameter_name next colon_end =
     (case sp_token next of
        Identifier i \<Rightarrow>
          if \<not> ident_quoted i \<and> sp_start next = colon_end \<and> CHR ''$'' \<notin> set (ident_value i)
          then Some (ident_value i) else None
      | Symbol c \<Rightarrow> None
      | Opaque \<Rightarrow> None)"

text \<open>The loop's locals: the scan under construction, the name index and the open brackets,
  innermost first.\<close>

record scan_state =
  st_scan :: parameter_scan
  st_indexes :: "(string \<times> nat) list"
  st_enclosures :: "enclosure list"

definition scan_bracket :: "spanned_token option \<Rightarrow> enclosure list \<Rightarrow> enclosure" where
  "scan_bracket previous enclosures =
     (let after_array = satisfies (\<lambda>t. is_keyword (sp_token t) ''array'') previous;
          nested_row = get enclosures 0 = Some Constructor
            \<and> satisfies (\<lambda>t. sp_token t = Symbol (CHR ''['') \<or> sp_token t = COMMA) previous
      in if after_array \<or> nested_row then Constructor else Subscript)"

definition add_occurrence :: "spanned_token \<Rightarrow> string \<Rightarrow> scan_state \<Rightarrow> scan_state" where
  "add_occurrence colon name st =
     (let next_index = length (st_indexes st);
          scan = st_scan st;
          (index, indexes, names) =
            (case map_of (st_indexes st) name of
               Some i \<Rightarrow> (i, st_indexes st, ps_names scan)
             | None \<Rightarrow> (next_index, (name, next_index) # st_indexes st, ps_names scan @ [name]))
      in st\<lparr>st_indexes := indexes,
            st_scan := scan\<lparr>ps_names := names,
              ps_occurrences := ps_occurrences scan @
                [\<lparr>oc_start = sp_start colon, oc_end = sp_end colon + length name,
                  oc_index = index\<rparr>]\<rparr>\<rparr>)"

definition scan_opaque ::
  "string \<Rightarrow> spanned_token option \<Rightarrow> spanned_token \<Rightarrow> spanned_token option \<Rightarrow> scan_state \<Rightarrow>
     scan_state" where
  "scan_opaque sql previous sp next_token st =
     (let text = slice sql (sp_start sp) (sp_end sp);
          st = (if get text 0 = Some (CHR ''$'') \<and> satisfies is_ascii_digit (get text 1)
                then st\<lparr>st_scan := (st_scan st)\<lparr>ps_positional := True\<rparr>\<rparr> else st)
      in if text \<noteq> '':'' \<or> get (st_enclosures st) 0 = Some Subscript then st
         else if satisfies (\<lambda>t. glues_to_colon sql t (sp_start sp)) previous then st
         else case Option.bind next_token (\<lambda>t. parameter_name t (sp_end sp)) of
                None \<Rightarrow> st
              | Some name \<Rightarrow> add_occurrence sp name st)"

fun scan_loop ::
  "string \<Rightarrow> spanned_token option \<Rightarrow> spanned_token list \<Rightarrow> scan_state \<Rightarrow> scan_state option" where
  "scan_loop sql previous [] st = Some st"
| "scan_loop sql previous (sp # rest) st =
     (if sp_token sp = OPEN then
        scan_loop sql (Some sp) rest (st\<lparr>st_enclosures := Paren # st_enclosures st\<rparr>)
      else if sp_token sp = Symbol (CHR ''['') then
        scan_loop sql (Some sp) rest
          (st\<lparr>st_enclosures := scan_bracket previous (st_enclosures st) # st_enclosures st\<rparr>)
      else if sp_token sp = CLOSE then
        if get (st_enclosures st) 0 \<noteq> Some Paren then None
        else scan_loop sql (Some sp) rest (st\<lparr>st_enclosures := tl (st_enclosures st)\<rparr>)
      else if sp_token sp = Symbol (CHR '']'') then
        if get (st_enclosures st) 0 \<notin> {Some Constructor, Some Subscript} then None
        else scan_loop sql (Some sp) rest (st\<lparr>st_enclosures := tl (st_enclosures st)\<rparr>)
      else if sp_token sp = Opaque then
        scan_loop sql (Some sp) rest (scan_opaque sql previous sp (get rest 0) st)
      else scan_loop sql (Some sp) rest st)"

definition empty_scan :: parameter_scan where
  "empty_scan = \<lparr>ps_names = [], ps_occurrences = [], ps_positional = False\<rparr>"

definition scan_parameters :: "string \<Rightarrow> parameter_scan option" where
  "scan_parameters sql =
     (case lex_sql_spanned sql of
        None \<Rightarrow> None
      | Some tokens \<Rightarrow>
          (case scan_loop sql None tokens
                  \<lparr>st_scan = empty_scan, st_indexes = [], st_enclosures = []\<rparr> of
             None \<Rightarrow> None
           | Some st \<Rightarrow> if st_enclosures st \<noteq> [] then None else Some (st_scan st)))"

section \<open>The rewrite and its position map\<close>

record segment =
  sg_original :: nat
  sg_original_len :: nat
  sg_rewritten :: nat
  sg_rewritten_len :: nat

definition char_count :: "string \<Rightarrow> nat" where
  "char_count text = u32 (chars_count text)"

text \<open>The loop of \<open>to_original\<close>: \<open>shift\<close> is an \<open>i64\<close>, here an \<open>int\<close>; a failed \<open>u32::try_from\<close> gives 0.\<close>

fun to_original_loop :: "segment list \<Rightarrow> nat \<Rightarrow> int \<Rightarrow> nat" where
  "to_original_loop [] target shift =
     (let moved = int target + shift
      in u32 ((if 0 \<le> moved \<and> moved < 2 ^ 32 then nat moved else 0) + 1))"
| "to_original_loop (sg # segments) target shift =
     (if target < sg_rewritten sg then to_original_loop [] target shift
      else if target < u32 (sg_rewritten sg + sg_rewritten_len sg) then u32 (sg_original sg + 1)
      else to_original_loop segments target
             (int (u32 (sg_original sg + sg_original_len sg))
              - int (u32 (sg_rewritten sg + sg_rewritten_len sg))))"

definition to_original :: "segment list \<Rightarrow> nat \<Rightarrow> nat" where
  "to_original segments at = to_original_loop segments (at - 1) 0"

definition placeholder :: "occurrence \<Rightarrow> string" where
  "placeholder oc = CHR ''$'' # decimal (oc_index oc + 1)"

record rewrite_state =
  rw_text :: string
  rw_segments :: "segment list"
  rw_cursor :: nat
  rw_original_chars :: nat
  rw_rewritten_chars :: nat

definition rewrite_step :: "string \<Rightarrow> rewrite_state \<Rightarrow> occurrence \<Rightarrow> rewrite_state" where
  "rewrite_step sql st oc =
     (let before = slice sql (rw_cursor st) (oc_start oc);
          before_chars = char_count before;
          original_chars = u32 (rw_original_chars st + before_chars);
          rewritten_chars = u32 (rw_rewritten_chars st + before_chars);
          original_len = u32 (oc_end oc - oc_start oc);
          rewritten_len = u32 (length (placeholder oc))
      in \<lparr>rw_text = rw_text st @ before @ placeholder oc,
          rw_segments = rw_segments st @
            [\<lparr>sg_original = original_chars, sg_original_len = original_len,
              sg_rewritten = rewritten_chars, sg_rewritten_len = rewritten_len\<rparr>],
          rw_cursor = oc_end oc,
          rw_original_chars = u32 (original_chars + original_len),
          rw_rewritten_chars = u32 (rewritten_chars + rewritten_len)\<rparr>)"

definition rewrite :: "parameter_scan \<Rightarrow> string \<Rightarrow> string \<times> segment list" where
  "rewrite scan sql =
     (let st = foldl (rewrite_step sql)
            \<lparr>rw_text = [], rw_segments = [], rw_cursor = 0, rw_original_chars = 0,
             rw_rewritten_chars = 0\<rparr> (ps_occurrences scan)
      in (rw_text st @ drop (rw_cursor st) sql, rw_segments st))"

section \<open>Binding\<close>

definition found_step ::
  "(string \<times> nat \<times> string option) list \<Rightarrow> parameter_value \<Rightarrow> (string \<times> nat \<times> string option) list" where
  "found_step found parameter =
     (case map_of found (pv_name parameter) of
        Some (count, v) \<Rightarrow> (pv_name parameter, count + 1, v) # found
      | None \<Rightarrow> (pv_name parameter, 1, pv_value parameter) # found)"

definition found_values :: "parameter_value list \<Rightarrow> (string \<times> nat \<times> string option) list" where
  "found_values supplied = foldl found_step [] supplied"

definition found_count :: "(string \<times> nat \<times> string option) list \<Rightarrow> string \<Rightarrow> nat" where
  "found_count found name = (case map_of found name of None \<Rightarrow> 0 | Some (count, v) \<Rightarrow> count)"

definition used :: "parameter_scan \<Rightarrow> (string \<times> nat \<times> string option) list \<Rightarrow> (nat \<Rightarrow> bool) \<Rightarrow> string list" where
  "used scan found wanted = filter (\<lambda>name. wanted (found_count found name)) (ps_names scan)"

definition value_bytes :: "string option \<Rightarrow> nat" where
  "value_bytes v = (case v of None \<Rightarrow> 0 | Some s \<Rightarrow> length s)"

text \<open>\<open>found[name]\<close> panics on a missing key, which the \<open>missing\<close> check has excluded.\<close>

definition bind_values ::
  "parameter_scan \<Rightarrow> parameter_value list \<Rightarrow> parameter_rejection + bound_values" where
  "bind_values scan supplied =
     (let too_long = filter (\<lambda>name. MAX_NAME_BYTES < length name) (ps_names scan) in
      if too_long \<noteq> [] then Inl (reject NameTooLong too_long)
      else if MAX_PARAMETERS < length (ps_names scan) then Inl (reject TooManyParameters [])
      else
        let found = found_values supplied;
            duplicated = used scan found (\<lambda>count. 1 < count) in
        if duplicated \<noteq> [] then Inl (reject DuplicateName duplicated)
        else
          let missing = used scan found (\<lambda>count. count = 0) in
          if missing \<noteq> [] then Inl (reject MissingValue missing)
          else
            let values = map (\<lambda>name. snd (the (map_of found name))) (ps_names scan);
                too_large = map fst
                  (filter (\<lambda>(name, v). MAX_VALUE_BYTES < value_bytes v) (zip (ps_names scan) values)) in
            if too_large \<noteq> [] then Inl (reject ValueTooLarge too_large)
            else if MAX_TOTAL_VALUE_BYTES < sum_list (map value_bytes values)
            then Inl (reject ValueTooLarge [])
            else Inr values)"

section \<open>The planner\<close>

datatype execution_shape =
    Script string "nat option"
  | CursorRead string bound_values "nat option"
  | BoundCommand string bound_values

record execution_plan =
  ep_shape :: execution_shape
  ep_policy_text :: "string option"
  ep_positions :: "segment list"
  ep_statement_offset :: nat

datatype plan_refusal = Parameters parameter_rejection | InvalidRowLimit

definition policy_sql :: "execution_plan \<Rightarrow> string" where
  "policy_sql plan =
     (case ep_policy_text plan of
        Some text \<Rightarrow> text
      | None \<Rightarrow>
          (case ep_shape plan of
             Script sql row_limit \<Rightarrow> sql
           | CursorRead statement values row_limit \<Rightarrow> statement
           | BoundCommand statement values \<Rightarrow> statement))"

definition original_position :: "execution_plan \<Rightarrow> nat \<Rightarrow> nat \<Rightarrow> nat option" where
  "original_position plan at prefix_chars =
     (if prefix_chars < at
      then Some (to_original (ep_positions plan)
             (u32 (at - prefix_chars + ep_statement_offset plan)))
      else None)"

definition cursor_eligible :: "statement_facts \<Rightarrow> bool" where
  "cursor_eligible statement \<longleftrightarrow>
     sf_class statement = Read
     \<and> (case sf_head statement of
          None \<Rightarrow> False
        | Some head \<Rightarrow> head \<in> set [''SELECT'', ''VALUES'', ''TABLE'', ''WITH''])
     \<and> \<not> sf_row_locking statement"

definition plan_row_limit :: "int option \<Rightarrow> plan_refusal + nat option" where
  "plan_row_limit row_limit =
     (case row_limit of
        None \<Rightarrow> Inr None
      | Some limit \<Rightarrow> if 1 \<le> limit \<and> limit \<le> MAX_ROW_LIMIT then Inr (Some (nat limit))
          else Inl InvalidRowLimit)"

text \<open>The parameter branch, for a scan that found names.\<close>

definition plan_parameters ::
  "string \<Rightarrow> parameter_scan \<Rightarrow> parameter_value list \<Rightarrow> nat option \<Rightarrow>
     plan_refusal + execution_plan" where
  "plan_parameters sql scan supplied row_limit =
     (if ps_positional scan then Inl (Parameters (reject PositionalPlaceholder []))
      else
        let (rewritten, positions) = rewrite scan sql in
        case describe_script rewritten of
          None \<Rightarrow> Inl (Parameters (reject Unlexable []))
        | Some [statement] \<Rightarrow>
            (case bind_values scan supplied of
               Inl rejection \<Rightarrow> Inl (Parameters rejection)
             | Inr values \<Rightarrow>
                 let text = slice rewritten (sf_start statement) (sf_end statement) in
                 Inr \<lparr>ep_shape =
                        (if cursor_eligible statement then CursorRead text values row_limit
                         else BoundCommand text values),
                      ep_policy_text = Some rewritten,
                      ep_positions = positions,
                      ep_statement_offset = char_count (take (sf_start statement) rewritten)\<rparr>)
        | Some _ \<Rightarrow> Inl (Parameters (reject MultipleStatements [])))"

text \<open>The plain branch: no parameter mode, or a text without names.\<close>

definition plan_plain :: "string \<Rightarrow> nat option \<Rightarrow> execution_plan" where
  "plan_plain sql row_limit =
     (let cursor =
        (if row_limit = None then None
         else case describe_script sql of
                Some [statement] \<Rightarrow>
                  if cursor_eligible statement \<and> \<not> sf_native_placeholder statement
                  then Some (sf_start statement, sf_end statement) else None
              | _ \<Rightarrow> None)
      in case cursor of
           Some (from, to) \<Rightarrow>
             \<lparr>ep_shape = CursorRead (slice sql from to) [] row_limit,
              ep_policy_text = Some sql, ep_positions = [],
              ep_statement_offset = char_count (take from sql)\<rparr>
         | None \<Rightarrow>
             \<lparr>ep_shape = Script sql row_limit, ep_policy_text = None, ep_positions = [],
              ep_statement_offset = 0\<rparr>)"

definition plan_execution ::
  "string \<Rightarrow> parameter_value list option \<Rightarrow> int option \<Rightarrow> plan_refusal + execution_plan" where
  "plan_execution sql parameters row_limit =
     (case plan_row_limit row_limit of
        Inl e \<Rightarrow> Inl e
      | Inr limit \<Rightarrow>
          (case parameters of
             None \<Rightarrow> Inr (plan_plain sql limit)
           | Some supplied \<Rightarrow>
               (case scan_parameters sql of
                  None \<Rightarrow> Inl (Parameters (reject Unlexable []))
                | Some scan \<Rightarrow>
                    if ps_names scan \<noteq> [] then plan_parameters sql scan supplied limit
                    else Inr (plan_plain sql limit))))"

end
