(* ===== verification/SqlParamsFacts.thy ===== *)
theory SqlParamsFacts imports SqlParams begin

text \<open>
  Correctness of \<open>sql_params.rs\<close>: where the scan finds parameters, what \<open>bind\<close> accepts and in
  which order, that the position map inverts the rewrite, and that every plan executes only
  text the policy has classified.
\<close>

section \<open>Unquoted words\<close>

definition word_ok :: "string \<Rightarrow> spanned_token \<Rightarrow> bool" where
  "word_ok sql sp \<longleftrightarrow>
     (case sp_token sp of
        Identifier i \<Rightarrow> \<not> ident_quoted i \<longrightarrow>
          ident_value i = slice sql (sp_start sp) (sp_end sp)
          \<and> (\<forall>c\<in>set (ident_value i). is_identifier_continue c)
      | _ \<Rightarrow> True)"

lemma lex_step_word:
  assumes "lex_step dialect bytes exec index b = Inr (Some t, j, x)" "get bytes index = Some b"
  shows "word_ok bytes \<lparr>sp_token = t, sp_start = index, sp_end = j\<rparr>"
proof -
  have word: "word_ok bytes \<lparr>sp_token = t, sp_start = index, sp_end = j\<rparr>"
    if w: "lex_word dialect bytes exec index = Inr (Some t, j, x)" "is_identifier_start b"
  proof -
    define k where "k = skip_while is_identifier_continue bytes (index + 1)"
    have i: "index < length bytes" "bytes ! index = b" using assms(2) by (auto simp: get_Some_iff)
    have ge: "index + 1 \<le> k" by (simp add: k_def skip_while_ge)
    have run: "slice bytes (index + 1) k = takeWhile is_identifier_continue (drop (index + 1) bytes)"
      using i skip_while_takeWhile [of "index + 1" bytes is_identifier_continue]
      by (simp add: k_def slice_def takeWhile_eq_take [symmetric])
    have "slice bytes index k = b # slice bytes (index + 1) k"
      using slice_split [of index "index + 1" k bytes] ge i
      by (simp add: slice_def [of bytes index "Suc index"] take_Suc hd_drop_conv_nth)
    then have "\<forall>c\<in>set (slice bytes index k). is_identifier_continue c"
      unfolding run using w(2) by (auto simp: is_identifier_continue_def dest: set_takeWhileD)
    then show ?thesis
      using w(1) by (auto simp: lex_word_def k_def word_ok_def Let_def split: if_splits dest!: opaque_to_InrD)
  qed
  have opaque: "lex_comment_open dialect bytes exec index = Inr (Some t, j, x) \<Longrightarrow> t = Opaque"
    by (auto simp: lex_comment_open_def split: if_splits sql_dialect.splits option.splits dest: skip_to_InrD)
  have "is_identifier_start b \<and> lex_word dialect bytes exec index = Inr (Some t, j, x)
    \<or> t = Opaque \<or> (\<exists>c. t = Symbol c) \<or> (\<exists>v. t = quoted_name v)"
    using assms(1) opaque unfolding lex_step_def Let_def
    by (simp split: if_split_asm) (auto dest!: opaque_to_InrD quoted_identifier_to_InrD)
  then show ?thesis using word by (auto simp: word_ok_def)
qed

lemma lex_sql_spanned_words:
  assumes "lex_sql_spanned sql = Some ts"
  shows "\<forall>t\<in>set ts. word_ok sql t"
proof -
  have "lex_loop d m sql exec index tokens = Inr ts \<Longrightarrow> \<forall>t\<in>set tokens. word_ok sql t \<Longrightarrow>
     \<forall>t\<in>set ts. word_ok sql t" for d m exec index tokens
  proof (induction exec index tokens rule: lex_loop_cases_induct [of sql _ d])
    case (token exec index tokens b t j x)
    then show ?case using lex_step_word by (auto simp: lex_loop_token split: if_splits)
  qed (auto simp: lex_loop_eqs split: if_splits)
  then show ?thesis
    using assms by (simp add: lex_sql_spanned_def lex_sql_spanned_bounded_def lex_dialect_bounded_def)
qed

section \<open>Binding\<close>

lemma map_of_found:
  "map_of (found_values supplied) n =
     (case filter (\<lambda>p. pv_name p = n) supplied of
        [] \<Rightarrow> None | p # ps \<Rightarrow> Some (1 + length ps, pv_value p))"
proof (induction supplied rule: rev_induct)
  case Nil
  then show ?case by (simp add: found_values_def)
next
  case (snoc p supplied)
  have step: "found_values (supplied @ [p]) = found_step (found_values supplied) p"
    by (simp add: found_values_def)
  show ?case unfolding step using snoc
    by (auto simp: found_step_def split: list.splits option.splits)
qed

definition supplies :: "parameter_value list \<Rightarrow> string \<Rightarrow> string option \<Rightarrow> bool" where
  "supplies supplied name v \<longleftrightarrow>
     filter (\<lambda>p. pv_name p = name) supplied = [\<lparr>pv_name = name, pv_value = v\<rparr>]"

lemma found_count_eq: "found_count (found_values supplied) n = length (filter (\<lambda>p. pv_name p = n) supplied)"
  by (auto simp: found_count_def map_of_found split: list.splits)

lemma supplies_iff:
  "supplies supplied n v \<longleftrightarrow> found_count (found_values supplied) n = 1
     \<and> v = snd (the (map_of (found_values supplied) n))"
proof (cases "filter (\<lambda>p. pv_name p = n) supplied")
  case (Cons p ps)
  then have "pv_name p = n" by (auto dest: filter_eq_ConsD)
  with Cons show ?thesis
    by (cases p) (auto simp: supplies_def found_count_eq map_of_found)
qed (simp add: supplies_def found_count_eq)

lemma bind_values_spec:
  "bind_values scan supplied = Inr vals \<longleftrightarrow>
     (\<forall>n\<in>set (ps_names scan). length n \<le> MAX_NAME_BYTES)
     \<and> length (ps_names scan) \<le> MAX_PARAMETERS
     \<and> list_all2 (supplies supplied) (ps_names scan) vals
     \<and> (\<forall>v\<in>set vals. value_bytes v \<le> MAX_VALUE_BYTES)
     \<and> sum_list (map value_bytes vals) \<le> MAX_TOTAL_VALUE_BYTES"
proof -
  define found where "found = found_values supplied"
  define vs where "vs = map (\<lambda>name. snd (the (map_of found name))) (ps_names scan)"
  have once: "used scan found (\<lambda>count. 1 < count) = [] \<and> used scan found (\<lambda>count. count = 0) = []
    \<longleftrightarrow> (\<forall>n\<in>set (ps_names scan). found_count found n = 1)"
    by (force simp: used_def filter_empty_conv not_less_eq)
  have "list_all2 (supplies supplied) (ps_names scan) vals \<longleftrightarrow>
      (\<forall>n\<in>set (ps_names scan). found_count found n = 1) \<and> vals = vs"
    unfolding vs_def list_all2_conv_all_nth supplies_iff found_def [symmetric]
    by (auto simp: all_set_conv_all_nth intro: nth_equalityI)
  moreover have "map fst (filter (\<lambda>(name, v). MAX_VALUE_BYTES < value_bytes v) (zip (ps_names scan) vs)) = []
    \<longleftrightarrow> (\<forall>v\<in>set vs. value_bytes v \<le> MAX_VALUE_BYTES)"
    by (auto simp: filter_empty_conv vs_def zip_map2 zip_same_conv_map not_less)
  moreover have "filter (\<lambda>name. MAX_NAME_BYTES < length name) (ps_names scan) = []
    \<longleftrightarrow> (\<forall>n\<in>set (ps_names scan). length n \<le> MAX_NAME_BYTES)"
    by (auto simp: filter_empty_conv not_less)
  ultimately show ?thesis
    unfolding bind_values_def Let_def found_def [symmetric] vs_def [symmetric]
    using once by (auto simp: not_less)
qed

section \<open>The scan\<close>

definition occurrence_ok :: "string \<Rightarrow> string list \<Rightarrow> occurrence \<Rightarrow> bool" where
  "occurrence_ok sql names oc \<longleftrightarrow>
     oc_start oc < oc_end oc \<and> oc_end oc \<le> length sql \<and> oc_index oc < length names
     \<and> slice sql (oc_start oc) (oc_end oc) = CHR '':'' # names ! oc_index oc"

definition name_char :: "char \<Rightarrow> bool" where
  "name_char c \<longleftrightarrow> is_ascii_alphanumeric c \<or> c = CHR ''_''"

definition scan_sound :: "string \<Rightarrow> parameter_scan \<Rightarrow> bool" where
  "scan_sound sql scan \<longleftrightarrow>
     distinct (ps_names scan)
     \<and> (\<forall>n\<in>set (ps_names scan). \<forall>c\<in>set n. name_char c)
     \<and> sorted_wrt (\<lambda>a b. oc_end a \<le> oc_start b) (ps_occurrences scan)
     \<and> (\<forall>oc\<in>set (ps_occurrences scan). occurrence_ok sql (ps_names scan) oc)
     \<and> (\<forall>i<length (ps_names scan). \<exists>oc\<in>set (ps_occurrences scan). oc_index oc = i)"

definition scan_ok :: "string \<Rightarrow> spanned_token list \<Rightarrow> scan_state \<Rightarrow> bool" where
  "scan_ok sql rest st \<longleftrightarrow>
     scan_sound sql (st_scan st)
     \<and> rev (st_indexes st) = zip (ps_names (st_scan st)) [0..<length (ps_names (st_scan st))]
     \<and> (\<forall>oc\<in>set (ps_occurrences (st_scan st)). \<forall>t\<in>set rest.
          sp_token t = Opaque \<longrightarrow> oc_end oc \<le> sp_start t)"

lemma scan_ok_tl: "scan_ok sql (sp # rest) st \<Longrightarrow> scan_ok sql rest st"
  by (auto simp: scan_ok_def)

lemma scan_ok_enclosures [simp]:
  "scan_ok sql rest (st\<lparr>st_enclosures := es\<rparr>) = scan_ok sql rest st"
  by (simp add: scan_ok_def)

lemma scan_ok_positional [simp]:
  "scan_ok sql rest (st\<lparr>st_scan := (st_scan st)\<lparr>ps_positional := b\<rparr>\<rparr>) = scan_ok sql rest st"
  by (simp add: scan_ok_def scan_sound_def)

lemma parameter_name_Some:
  assumes "parameter_name t e = Some name" "word_ok sql t"
  shows "sp_token t \<noteq> Opaque" "sp_start t = e" "name = slice sql (sp_start t) (sp_end t)"
    "\<forall>c\<in>set name. name_char c"
  using assms
  by (auto simp: word_ok_def name_char_def is_identifier_continue_def is_identifier_start_def
      is_ascii_alphanumeric_def split: sql_token.splits if_splits)

lemma map_of_rev_zip:
  assumes "rev xs = zip names [0..<length names]" "distinct names"
  shows "map_of xs n = Some i \<longleftrightarrow> i < length names \<and> names ! i = n"
    and "map_of xs n = None \<longleftrightarrow> n \<notin> set names"
    and "length xs = length names"
proof -
  have xs: "set xs = set (zip names [0..<length names])" using assms(1) by (metis set_rev)
  have "map fst xs = rev names" using assms(1)
    by (metis length_upt map_fst_zip minus_nat.diff_0 rev_map rev_swap)
  then have d: "distinct (map fst xs)" using assms(2) by simp
  show "map_of xs n = Some i \<longleftrightarrow> i < length names \<and> names ! i = n"
    using d xs by (auto simp: in_set_zip)
  show "map_of xs n = None \<longleftrightarrow> n \<notin> set names"
    using \<open>map fst xs = rev names\<close> by (metis map_of_eq_None_iff set_map set_rev)
  show "length xs = length names" using assms(1) by (metis length_rev length_zip length_upt minus_nat.diff_0 min.idem)
qed

lemma scan_ok_add_occurrence:
  assumes ok: "scan_ok sql (sp # nx # rest) st"
    and spans: "spans_within (length sql) (sp # nx # rest)" and words: "word_ok sql nx"
    and colon: "sp_token sp = Opaque" "slice sql (sp_start sp) (sp_end sp) = '':''"
    and name: "parameter_name nx (sp_end sp) = Some name"
  shows "scan_ok sql (nx # rest) (add_occurrence sp name st)"
proof -
  note nx = parameter_name_Some [OF name words]
  have bounds: "sp_start sp < sp_end sp" "sp_end sp \<le> length sql" "sp_start nx < sp_end nx"
    "sp_end nx \<le> length sql" "\<forall>t\<in>set rest. sp_end nx \<le> sp_start t"
    using spans by (auto simp: spans_within_def spans_ordered_def)
  have len: "length name = sp_end nx - sp_end sp" using nx bounds by (simp add: length_slice)
  then have end_eq: "sp_end sp + length name = sp_end nx" using nx bounds by simp
  have body: "slice sql (sp_start sp) (sp_end nx) = CHR '':'' # name"
    using slice_split [of "sp_start sp" "sp_end sp" "sp_end nx" sql] colon(2) nx bounds by simp
  let ?names = "ps_names (st_scan st)"
  have sound: "distinct ?names" "\<forall>n\<in>set ?names. \<forall>c\<in>set n. name_char c"
    and idx: "rev (st_indexes st) = zip ?names [0..<length ?names]"
    and ends: "\<forall>oc\<in>set (ps_occurrences (st_scan st)). oc_end oc \<le> sp_start sp"
    using ok colon(1) by (auto simp: scan_ok_def scan_sound_def)
  note indexes = map_of_rev_zip [OF idx sound(1)]
  show ?thesis
  proof (cases "map_of (st_indexes st) name")
    case (Some i)
    then show ?thesis
      using ok bounds ends end_eq body nx(1) indexes(1) [of name i]
      by (auto simp: add_occurrence_def Let_def scan_ok_def scan_sound_def sorted_wrt_append occurrence_ok_def)
  next
    case None
    then have "name \<notin> set ?names" by (simp add: indexes(2))
    then show ?thesis
      using None ok bounds ends end_eq body nx(1,4) indexes(3)
      by (auto simp: add_occurrence_def Let_def scan_ok_def scan_sound_def sorted_wrt_append
          occurrence_ok_def nth_append less_Suc_eq)
  qed
qed

lemma scan_ok_opaque:
  assumes "scan_ok sql (sp # rest) st" "spans_within (length sql) (sp # rest)"
    "\<forall>t\<in>set rest. word_ok sql t" "sp_token sp = Opaque"
  shows "scan_ok sql rest (scan_opaque sql previous sp (get rest 0) st)"
proof -
  define st1 where "st1 = (if get (slice sql (sp_start sp) (sp_end sp)) 0 = Some (CHR ''$'')
      \<and> satisfies is_ascii_digit (get (slice sql (sp_start sp) (sp_end sp)) 1)
    then st\<lparr>st_scan := (st_scan st)\<lparr>ps_positional := True\<rparr>\<rparr> else st)"
  have ok: "scan_ok sql (sp # rest) st1" using assms(1) by (simp add: st1_def)
  show ?thesis
  proof (cases "scan_opaque sql previous sp (get rest 0) st = st1")
    case True
    then show ?thesis using scan_ok_tl [OF ok] by simp
  next
    case False
    then obtain name where "Option.bind (get rest 0) (\<lambda>t. parameter_name t (sp_end sp)) = Some name"
      "slice sql (sp_start sp) (sp_end sp) = '':''"
      "scan_opaque sql previous sp (get rest 0) st = add_occurrence sp name st1"
      unfolding scan_opaque_def Let_def st1_def [symmetric]
      by (auto simp del: parameter_name.simps split: if_splits option.splits)
    then show ?thesis
      using scan_ok_add_occurrence assms ok by (cases rest) (auto simp del: parameter_name.simps)
  qed
qed

lemma scan_loop_sound:
  "scan_loop sql previous rest st = Some st' \<Longrightarrow> scan_ok sql rest st \<Longrightarrow>
     spans_within (length sql) rest \<Longrightarrow> \<forall>t\<in>set rest. word_ok sql t \<Longrightarrow> scan_sound sql (st_scan st')"
proof (induction sql previous rest st rule: scan_loop.induct)
  case (1 sql previous st)
  then show ?case by (simp add: scan_ok_def)
next
  case (2 sql previous sp rest st)
  have tl: "scan_ok sql rest st" using "2.prems"(2) by (rule scan_ok_tl)
  have rest: "spans_within (length sql) rest" "\<forall>t\<in>set rest. word_ok sql t"
    using "2.prems"(3,4) by (auto simp: spans_within_def spans_ordered_def)
  have opq: "sp_token sp = Opaque \<Longrightarrow> scan_ok sql rest (scan_opaque sql previous sp (get rest 0) st)"
    using scan_ok_opaque "2.prems" by auto
  show ?case
    using 2 tl rest opq by (simp split: if_split_asm)
qed

lemma scan_parameters_scan_sound:
  assumes "scan_parameters sql = Some scan"
  shows "scan_sound sql scan"
proof -
  obtain ts st where ts: "lex_sql_spanned sql = Some ts"
    "scan_loop sql None ts \<lparr>st_scan = empty_scan, st_indexes = [], st_enclosures = []\<rparr> = Some st"
    "scan = st_scan st"
    using assms by (auto simp: scan_parameters_def split: option.splits if_splits)
  show ?thesis
    using scan_loop_sound [OF ts(2)] ts postgres_lexer.lex_spans [OF ts(1)] lex_sql_spanned_words [OF ts(1)]
    by (simp add: scan_ok_def scan_sound_def empty_scan_def)
qed

section \<open>The position map\<close>

text \<open>
  The rewrite as a recursion over the occurrences, and where a byte of the rewritten text comes
  from: a copied byte from its own place, a byte of \<open>$k\<close> from the colon of the name it replaced.
\<close>

fun rewritten :: "string \<Rightarrow> occurrence list \<Rightarrow> nat \<Rightarrow> string" where
  "rewritten sql [] cursor = drop cursor sql"
| "rewritten sql (oc # occs) cursor =
     slice sql cursor (oc_start oc) @ placeholder oc @ rewritten sql occs (oc_end oc)"

fun segments_from :: "string \<Rightarrow> occurrence list \<Rightarrow> nat \<Rightarrow> nat \<Rightarrow> nat \<Rightarrow> segment list" where
  "segments_from sql [] cursor original rw = []"
| "segments_from sql (oc # occs) cursor original rw =
     (let n = chars_count (slice sql cursor (oc_start oc)) in
      \<lparr>sg_original = original + n, sg_original_len = oc_end oc - oc_start oc,
       sg_rewritten = rw + n, sg_rewritten_len = length (placeholder oc)\<rparr>
      # segments_from sql occs (oc_end oc) (original + n + (oc_end oc - oc_start oc))
          (rw + n + length (placeholder oc)))"

fun origin :: "occurrence list \<Rightarrow> nat \<Rightarrow> nat \<Rightarrow> nat" where
  "origin [] cursor j = cursor + j"
| "origin (oc # occs) cursor j =
     (let b = oc_start oc - cursor; r = length (placeholder oc) in
      if j < b then cursor + j
      else if j < b + r then oc_start oc
      else origin occs (oc_end oc) (j - (b + r)))"

fun occurrences_from :: "string \<Rightarrow> nat \<Rightarrow> occurrence list \<Rightarrow> bool" where
  "occurrences_from sql cursor [] \<longleftrightarrow> cursor \<le> length sql"
| "occurrences_from sql cursor (oc # occs) \<longleftrightarrow>
     cursor \<le> oc_start oc \<and> oc_start oc < oc_end oc \<and> oc_end oc \<le> length sql
     \<and> (\<forall>c\<in>set (slice sql (oc_start oc) (oc_end oc)). is_ascii c)
     \<and> occurrences_from sql (oc_end oc) occs"

lemma occurrences_from_le: "occurrences_from sql cursor occs \<Longrightarrow> cursor \<le> length sql"
  by (cases occs) auto

lemma placeholder_chars [simp]: "chars_count (placeholder oc) = length (placeholder oc)"
  using decimal_ascii [of "oc_index oc + 1"]
  by (intro chars_count_ascii) (auto simp: placeholder_def is_ascii_def byte_def)

lemma occurrence_chars:
  assumes "occurrences_from sql cursor (oc # occs)"
  shows "chars_count (slice sql (oc_start oc) (oc_end oc)) = oc_end oc - oc_start oc"
  using assms chars_count_ascii [of "slice sql (oc_start oc) (oc_end oc)"]
  by (auto simp: length_slice)

lemma drop_slice: "a \<le> b \<Longrightarrow> drop a xs = slice xs a b @ drop b xs"
  by (simp add: slice_def) (metis append_take_drop_id drop_drop le_add_diff_inverse2)

lemma drop_chars:
  assumes "occurrences_from sql cursor (oc # occs)"
  shows "chars_count (drop cursor sql) = chars_count (slice sql cursor (oc_start oc))
    + (oc_end oc - oc_start oc) + chars_count (drop (oc_end oc) sql)"
proof -
  have "drop cursor sql = slice sql cursor (oc_start oc) @ slice sql (oc_start oc) (oc_end oc)
      @ drop (oc_end oc) sql"
    using assms drop_slice [of cursor "oc_start oc" sql] drop_slice [of "oc_start oc" "oc_end oc" sql]
    by simp
  then show ?thesis using occurrence_chars [OF assms] by simp
qed

lemma rewrite_fold:
  "occurrences_from sql (rw_cursor st) occs \<Longrightarrow>
   rw_original_chars st + chars_count (drop (rw_cursor st) sql) < 2 ^ 32 \<Longrightarrow>
   rw_rewritten_chars st + chars_count (rewritten sql occs (rw_cursor st)) < 2 ^ 32 \<Longrightarrow>
   (let st' = foldl (rewrite_step sql) st occs in
      rw_text st' @ drop (rw_cursor st') sql = rw_text st @ rewritten sql occs (rw_cursor st)
      \<and> rw_segments st' = rw_segments st
          @ segments_from sql occs (rw_cursor st) (rw_original_chars st) (rw_rewritten_chars st))"
proof (induction occs arbitrary: st)
  case Nil
  then show ?case by simp
next
  case (Cons oc occs)
  note chars = drop_chars [OF Cons.prems(1)]
  let ?n = "chars_count (slice sql (rw_cursor st) (oc_start oc))"
  obtain w where w: "oc_end oc - oc_start oc = w" by simp
  have small: "?n < 2 ^ 32" "rw_original_chars st + ?n < 2 ^ 32" "w < 2 ^ 32"
    "rw_original_chars st + ?n + w < 2 ^ 32"
    "rw_rewritten_chars st + ?n < 2 ^ 32" "length (placeholder oc) < 2 ^ 32"
    "rw_rewritten_chars st + ?n + length (placeholder oc) < 2 ^ 32"
    using Cons.prems(2,3) chars unfolding w by simp_all
  define st1 where "st1 = rewrite_step sql st oc"
  have step: "st1 =
      \<lparr>rw_text = rw_text st @ slice sql (rw_cursor st) (oc_start oc) @ placeholder oc,
       rw_segments = rw_segments st @
         [\<lparr>sg_original = rw_original_chars st + ?n, sg_original_len = w,
           sg_rewritten = rw_rewritten_chars st + ?n, sg_rewritten_len = length (placeholder oc)\<rparr>],
       rw_cursor = oc_end oc,
       rw_original_chars = rw_original_chars st + ?n + w,
       rw_rewritten_chars = rw_rewritten_chars st + ?n + length (placeholder oc)\<rparr>"
    unfolding st1_def rewrite_step_def Let_def char_count_def w using small by simp
  have "occurrences_from sql (rw_cursor st1) occs"
    "rw_original_chars st1 + chars_count (drop (rw_cursor st1) sql) < 2 ^ 32"
    "rw_rewritten_chars st1 + chars_count (rewritten sql occs (rw_cursor st1)) < 2 ^ 32"
    using Cons.prems chars unfolding w step by simp_all
  from Cons.IH [OF this]
  have "rw_text (foldl (rewrite_step sql) st1 occs)
      @ drop (rw_cursor (foldl (rewrite_step sql) st1 occs)) sql
      = rw_text st1 @ rewritten sql occs (rw_cursor st1)"
    "rw_segments (foldl (rewrite_step sql) st1 occs) = rw_segments st1
      @ segments_from sql occs (rw_cursor st1) (rw_original_chars st1) (rw_rewritten_chars st1)"
    by (simp_all add: Let_def)
  then show ?case
    unfolding foldl_Cons st1_def [symmetric] Let_def
    by (simp add: step w Let_def del: foldl_Cons)
qed

lemma rewrite_eq:
  assumes "occurrences_from sql 0 (ps_occurrences scan)" "chars_count sql < 2 ^ 32"
    "chars_count (rewritten sql (ps_occurrences scan) 0) < 2 ^ 32"
  shows "rewrite scan sql = (rewritten sql (ps_occurrences scan) 0,
    segments_from sql (ps_occurrences scan) 0 0 0)"
  using rewrite_fold [of sql "\<lparr>rw_text = [], rw_segments = [], rw_cursor = 0, rw_original_chars = 0,
      rw_rewritten_chars = 0\<rparr>" "ps_occurrences scan"] assms
  by (simp add: rewrite_def Let_def)

lemma origin_bounds:
  "occurrences_from sql cursor occs \<Longrightarrow> j \<le> length (rewritten sql occs cursor) \<Longrightarrow>
     cursor \<le> origin occs cursor j \<and> origin occs cursor j \<le> length sql"
proof (induction occs cursor j rule: origin.induct)
  case (2 oc occs cursor j)
  have len: "length (slice sql cursor (oc_start oc)) = oc_start oc - cursor"
    using 2 by (auto simp: length_slice)
  with 2 show ?case by (fastforce simp: Let_def)
qed auto

lemma origin_copies:
  "occurrences_from sql cursor occs \<Longrightarrow> j < length (rewritten sql occs cursor) \<Longrightarrow>
     origin occs cursor j < length sql
     \<and> (rewritten sql occs cursor ! j = sql ! origin occs cursor j
        \<or> origin occs cursor j \<in> oc_start ` set occs)"
proof (induction occs cursor j rule: origin.induct)
  case (2 oc occs cursor j)
  have len: "length (slice sql cursor (oc_start oc)) = oc_start oc - cursor"
    using 2 by (auto simp: length_slice)
  define b where "b = oc_start oc - cursor"
  define r where "r = length (placeholder oc)"
  have j: "j < b + r + length (rewritten sql occs (oc_end oc))"
    using "2.prems"(2) len by (simp add: b_def r_def)
  show ?case
  proof (cases "j < b + r")
    case True
    then show ?thesis
      using "2.prems"(1) len
      by (auto simp: Let_def nth_append nth_slice b_def r_def)
  next
    case False
    then have "\<not> j - b < r" "\<not> j < b" by linarith+
    then have "origin (oc # occs) cursor j = origin occs (oc_end oc) (j - (b + r))"
      "rewritten sql (oc # occs) cursor ! j = rewritten sql occs (oc_end oc) ! (j - (b + r))"
      using len False by (simp_all add: Let_def b_def r_def nth_append)
    moreover have "j - (b + r) < length (rewritten sql occs (oc_end oc))" using j False by simp
    ultimately show ?thesis using "2.IH" [OF b_def r_def] "2.prems"(1) False by auto
  qed
qed auto

lemma chars_count_take_le: "chars_count (take j s) \<le> chars_count s"
  by (metis append_take_drop_id chars_count_append le_add1)

lemma to_original_loop_segments:
  "occurrences_from sql cursor occs \<Longrightarrow> j \<le> length (rewritten sql occs cursor) \<Longrightarrow>
   original + chars_count (drop cursor sql) + 1 < 2 ^ 32 \<Longrightarrow>
   rw + chars_count (rewritten sql occs cursor) < 2 ^ 32 \<Longrightarrow>
   to_original_loop (segments_from sql occs cursor original rw)
       (rw + chars_count (take j (rewritten sql occs cursor))) (int original - int rw)
     = original + chars_count (slice sql cursor (origin occs cursor j)) + 1"
proof (induction occs cursor j arbitrary: original rw rule: origin.induct)
  case (1 cursor j)
  have "chars_count (take j (drop cursor sql)) \<le> chars_count (drop cursor sql)"
    by (rule chars_count_take_le)
  with 1 show ?case by (simp add: slice_def nat_add_distrib)
next
  case (2 oc occs cursor j)
  note chars = drop_chars [OF "2.prems"(1)]
  define part where "part = slice sql cursor (oc_start oc)"
  define ph where "ph = placeholder oc"
  define rest where "rest = rewritten sql occs (oc_end oc)"
  obtain w where w: "oc_end oc - oc_start oc = w" by simp
  have len: "length part = oc_start oc - cursor"
    using 2 by (auto simp: part_def length_slice)
  have pos: "0 < length ph" by (simp add: ph_def placeholder_def)
  have cph: "chars_count (take k ph) = min k (length ph)" for k
    using decimal_ascii [of "oc_index oc + 1"]
    by (subst chars_count_ascii) (auto simp: ph_def placeholder_def is_ascii_def byte_def dest!: in_set_takeD)
  note le = chars_count_take_le [of _ part]
  have bound: "original + chars_count part + w + chars_count (drop (oc_end oc) sql) + 1 < 2 ^ 32"
    "rw + chars_count part + length ph + chars_count rest < 2 ^ 32"
    using "2.prems"(3,4) chars by (simp_all add: part_def ph_def rest_def w)
  define n where "n = chars_count part"
  have segs: "segments_from sql (oc # occs) cursor original rw =
    \<lparr>sg_original = original + n, sg_original_len = w, sg_rewritten = rw + n, sg_rewritten_len = length ph\<rparr>
      # segments_from sql occs (oc_end oc) (original + n + w) (rw + n + length ph)"
    by (simp add: Let_def part_def n_def ph_def w)
  have whole: "rewritten sql (oc # occs) cursor = part @ ph @ rest"
    by (simp add: part_def ph_def rest_def)
  consider (copied) "j < length part" | (inside) "length part \<le> j" "j < length part + length ph"
    | (after) "length part + length ph \<le> j" by linarith
  then show ?case
  proof cases
    case copied
    then have "origin (oc # occs) cursor j = cursor + j" by (simp add: len Let_def)
    moreover have "slice sql cursor (cursor + j) = take j part"
      using copied len by (simp add: part_def slice_def)
    moreover have "chars_count (take j (part @ ph @ rest)) = chars_count (take j part)"
      using copied by simp
    ultimately show ?thesis
      unfolding segs whole using le [of j] bound pos copied n_def by (auto simp: nat_add_distrib)
  next
    case inside
    then obtain m where m: "j = length part + m" "m < length ph"
      using le_Suc_ex by fastforce
    have orig: "origin (oc # occs) cursor j = oc_start oc" using inside by (simp add: len ph_def Let_def)
    have tk: "chars_count (take j (part @ ph @ rest)) = n + m"
      using m by (simp add: cph n_def)
    have "chars_count (slice sql cursor (oc_start oc)) = n" by (simp add: n_def part_def)
    moreover have "rw + n + length ph < 2 ^ 32" "original + n + 1 < 2 ^ 32"
      using bound by (simp_all add: n_def)
    ultimately show ?thesis
      unfolding segs whole orig tk using m by simp
  next
    case after
    define k where "k = j - (length part + length ph)"
    have orig: "origin (oc # occs) cursor j = origin occs (oc_end oc) k"
      using after by (simp add: len ph_def k_def Let_def)
    have tk: "chars_count (take j (part @ ph @ rest)) = n + length ph + chars_count (take k rest)"
      using after cph [of j] by (simp add: n_def k_def cph)
    have occs: "occurrences_from sql (oc_end oc) occs" "k \<le> length rest"
      using "2.prems"(1,2) unfolding whole by (simp_all add: k_def)
    have "oc_end oc \<le> origin occs (oc_end oc) k"
      using origin_bounds [OF occs(1)] occs(2) by (simp add: rest_def)
    then have "slice sql cursor (origin occs (oc_end oc) k)
        = part @ slice sql (oc_start oc) (oc_end oc) @ slice sql (oc_end oc) (origin occs (oc_end oc) k)"
      using "2.prems"(1) by (simp add: part_def slice_split)
    then have cs: "chars_count (slice sql cursor (origin occs (oc_end oc) k))
        = n + w + chars_count (slice sql (oc_end oc) (origin occs (oc_end oc) k))"
      using occurrence_chars [OF "2.prems"(1)] by (simp add: n_def w)
    have IH: "to_original_loop (segments_from sql occs (oc_end oc) (original + n + w) (rw + n + length ph))
        (rw + n + length ph + chars_count (take k rest)) (int (original + n + w) - int (rw + n + length ph))
      = original + n + w + chars_count (slice sql (oc_end oc) (origin occs (oc_end oc) k)) + 1"
      unfolding rest_def k_def len ph_def
      by (rule "2.IH") (use after occs bound in \<open>simp_all add: len ph_def k_def rest_def n_def\<close>)
    show ?thesis
      unfolding segs whole orig tk cs using IH bound by (simp add: n_def add.assoc)
  qed
qed

lemma name_char_ascii: "name_char c \<Longrightarrow> is_ascii c"
  by (auto simp: name_char_def byte_defs byte_def)

lemma occurrences_from_sound:
  assumes "scan_sound sql scan"
  shows "occurrences_from sql 0 (ps_occurrences scan)"
proof -
  have ascii: "\<forall>c\<in>set (slice sql (oc_start oc) (oc_end oc)). is_ascii c"
    if oc: "oc \<in> set (ps_occurrences scan)" for oc
  proof -
    have "slice sql (oc_start oc) (oc_end oc) = CHR '':'' # ps_names scan ! oc_index oc"
      "ps_names scan ! oc_index oc \<in> set (ps_names scan)"
      using assms oc by (auto simp: scan_sound_def occurrence_ok_def)
    then show ?thesis
      using assms name_char_ascii by (auto simp: scan_sound_def is_ascii_def byte_def)
  qed
  have "occurrences_from sql cursor occs"
    if "cursor \<le> length sql" "\<forall>oc\<in>set occs. cursor \<le> oc_start oc" "set occs \<subseteq> set (ps_occurrences scan)"
      "sorted_wrt (\<lambda>a b. oc_end a \<le> oc_start b) occs" for occs cursor
    using that
  proof (induction occs arbitrary: cursor)
    case (Cons oc occs)
    then have "occurrence_ok sql (ps_names scan) oc" using assms by (auto simp: scan_sound_def)
    then show ?case using Cons ascii [of oc] by (auto simp: occurrence_ok_def)
  qed simp
  then show ?thesis using assms by (auto simp: scan_sound_def)
qed

section \<open>Plans\<close>

lemma rewrite_text: "fst (rewrite scan sql) = rewritten sql (ps_occurrences scan) 0"
proof -
  have "rw_text (foldl (rewrite_step sql) st occs) @ drop (rw_cursor (foldl (rewrite_step sql) st occs)) sql
      = rw_text st @ rewritten sql occs (rw_cursor st)" for st occs
    by (induction occs arbitrary: st) (simp_all add: rewrite_step_def Let_def)
  then show ?thesis by (simp add: rewrite_def Let_def)
qed

lemma plan_parameters_Inr:
  "plan_parameters sql scan supplied limit = Inr plan \<longleftrightarrow>
     \<not> ps_positional scan \<and>
     (\<exists>f vals. describe_script (fst (rewrite scan sql)) = Some [f]
        \<and> bind_values scan supplied = Inr vals
        \<and> plan = \<lparr>ep_shape =
              (if cursor_eligible f
               then CursorRead (slice (fst (rewrite scan sql)) (sf_start f) (sf_end f)) vals limit
               else BoundCommand (slice (fst (rewrite scan sql)) (sf_start f) (sf_end f)) vals),
            ep_policy_text = Some (fst (rewrite scan sql)),
            ep_positions = snd (rewrite scan sql),
            ep_statement_offset = char_count (take (sf_start f) (fst (rewrite scan sql)))\<rparr>)"
  by (auto simp: plan_parameters_def Let_def case_prod_unfold
      split: option.split list.split sum.split)

lemma plan_plain_cases:
  "plan_plain sql limit = \<lparr>ep_shape = Script sql limit, ep_policy_text = None, ep_positions = [],
      ep_statement_offset = 0\<rparr>
   \<or> (\<exists>f. describe_script sql = Some [f] \<and> cursor_eligible f
        \<and> plan_plain sql limit = \<lparr>ep_shape = CursorRead (slice sql (sf_start f) (sf_end f)) [] limit,
              ep_policy_text = Some sql, ep_positions = [],
              ep_statement_offset = char_count (take (sf_start f) sql)\<rparr>)"
  by (auto simp: plan_plain_def Let_def split: option.split list.split)

lemma plan_execution_Inr:
  assumes "plan_execution sql parameters row_limit = Inr plan"
  obtains (plain) limit where "plan_row_limit row_limit = Inr limit" "plan = plan_plain sql limit"
  | (parameters) limit supplied scan where "plan_row_limit row_limit = Inr limit"
      "parameters = Some supplied" "scan_parameters sql = Some scan" "ps_names scan \<noteq> []"
      "plan_parameters sql scan supplied limit = Inr plan"
  using assms
  by (auto simp: plan_execution_def split: sum.splits option.splits if_splits)

lemma cursor_eligible_Read: "cursor_eligible f \<Longrightarrow> sf_class f = Read \<and> \<not> sf_row_locking f"
  by (simp add: cursor_eligible_def)

lemma statement_end_in_text:
  assumes "describe_script_dialect sql d = Some fs" "f \<in> set fs"
  shows "sf_end f \<le> length sql"
  using describe_script_dialect_SomeD [OF assms(1)] dialect_lexer.describe_in_order assms(2)
  by (auto simp: facts_in_order_def)

section \<open>Properties\<close>

text \<open>
  the parameters the scan finds are where it says: every occurrence is a byte range of the
  text holding a colon and the name its index points to, the ranges are disjoint and in source
  order, the names are distinct ASCII words, and each of them occurs.
\<close>

lemma scan_finds_parameters:
  assumes "scan_parameters sql = Some scan"
  shows "distinct (ps_names scan)
    \<and> (\<forall>n\<in>set (ps_names scan). \<forall>c\<in>set n. is_ascii_alphanumeric c \<or> c = CHR ''_'')
    \<and> sorted_wrt (\<lambda>a b. oc_end a \<le> oc_start b) (ps_occurrences scan)
    \<and> (\<forall>oc\<in>set (ps_occurrences scan).
         oc_start oc < oc_end oc \<and> oc_end oc \<le> length sql \<and> oc_index oc < length (ps_names scan)
         \<and> slice sql (oc_start oc) (oc_end oc) = CHR '':'' # ps_names scan ! oc_index oc)
    \<and> (\<forall>i<length (ps_names scan). \<exists>oc\<in>set (ps_occurrences scan). oc_index oc = i)"
  using scan_parameters_scan_sound [OF assms]
  by (simp add: scan_sound_def occurrence_ok_def name_char_def)

definition sample_parameters :: string where
  "sample_parameters = ''VALUES (:ab,:c,:ab)''"

definition sample_scan :: parameter_scan where
  "sample_scan =
     \<lparr>ps_names = [''ab'', ''c''],
      ps_occurrences =
        [\<lparr>oc_start = 8, oc_end = 11, oc_index = 0\<rparr>, \<lparr>oc_start = 12, oc_end = 14, oc_index = 1\<rparr>,
         \<lparr>oc_start = 15, oc_end = 18, oc_index = 0\<rparr>],
      ps_positional = False\<rparr>"

lemma sample_scan: "scan_parameters sample_parameters = Some sample_scan"
  by code_simp

text \<open>
  binding succeeds exactly when every name is at most 63 bytes, there are at most 256 of them,
  each is supplied exactly once, no value is larger than 1 MiB and all of them together than
  4 MiB; the result then holds, in \<open>$k\<close> order, the value supplied for each name.
\<close>

lemma bind_values_iff:
  "bind_values scan supplied = Inr vals \<longleftrightarrow>
     (\<forall>n\<in>set (ps_names scan). length n \<le> MAX_NAME_BYTES)
     \<and> length (ps_names scan) \<le> MAX_PARAMETERS
     \<and> list_all2 (\<lambda>n v. filter (\<lambda>p. pv_name p = n) supplied = [\<lparr>pv_name = n, pv_value = v\<rparr>])
         (ps_names scan) vals
     \<and> (\<forall>v\<in>set vals. value_bytes v \<le> MAX_VALUE_BYTES)
     \<and> sum_list (map value_bytes vals) \<le> MAX_TOTAL_VALUE_BYTES"
  using bind_values_spec [of scan supplied vals] unfolding supplies_def [abs_def] .

text \<open>The SQL text a shape executes.\<close>

fun shape_text :: "execution_shape \<Rightarrow> string" where
  "shape_text (Script sql limit) = sql"
| "shape_text (CursorRead st vs limit) = st"
| "shape_text (BoundCommand st vs) = st"

definition sample_supplied :: "parameter_value list" where
  "sample_supplied = [\<lparr>pv_name = ''c'', pv_value = None\<rparr>, \<lparr>pv_name = ''ab'', pv_value = Some ''1''\<rparr>]"

text \<open>
  C17: every plan executes only text the policy sees, and sees alone: a script is the policy text
  itself; a cursor or a bound command is the byte range of the one statement the policy text
  holds, and a cursor wraps only a statement classed as a read that locks no rows.
\<close>

theorem plan_runs_classified_text:
  assumes "plan_execution sql parameters row_limit = Inr plan"
  shows "case ep_shape plan of
      Script s limit \<Rightarrow> s = sql \<and> policy_sql plan = sql
    | CursorRead st vs limit \<Rightarrow> \<exists>f. describe_script (policy_sql plan) = Some [f]
        \<and> st = slice (policy_sql plan) (sf_start f) (sf_end f) \<and> sf_class f = Read \<and> \<not> sf_row_locking f
    | BoundCommand st vs \<Rightarrow> \<exists>f. describe_script (policy_sql plan) = Some [f]
        \<and> st = slice (policy_sql plan) (sf_start f) (sf_end f)"
  using assms
proof (cases rule: plan_execution_Inr)
  case (plain limit)
  then show ?thesis using plan_plain_cases [of sql limit] by (auto simp: policy_sql_def cursor_eligible_Read)
next
  case (parameters limit supplied scan)
  then show ?thesis by (auto simp: plan_parameters_Inr policy_sql_def cursor_eligible_Read)
qed

definition sample_text :: string where
  "sample_text = ''VALUES ($1,$2,$1)''"

definition sample_plan :: execution_plan where
  "sample_plan =
     \<lparr>ep_shape = CursorRead sample_text [Some ''1'', None] (Some 10), ep_policy_text = Some sample_text,
      ep_positions =
        [\<lparr>sg_original = 8, sg_original_len = 3, sg_rewritten = 8, sg_rewritten_len = 2\<rparr>,
         \<lparr>sg_original = 12, sg_original_len = 2, sg_rewritten = 11, sg_rewritten_len = 2\<rparr>,
         \<lparr>sg_original = 15, sg_original_len = 3, sg_rewritten = 14, sg_rewritten_len = 2\<rparr>],
      ep_statement_offset = 0\<rparr>"

lemma sample_plan_parameters:
  "plan_parameters sample_parameters sample_scan sample_supplied (Some 10) = Inr sample_plan"
  by code_simp

lemma sample_plan: "plan_execution sample_parameters (Some sample_supplied) (Some 10) = Inr sample_plan"
  using sample_scan sample_plan_parameters
  by (simp add: plan_execution_def plan_row_limit_def MAX_ROW_LIMIT_def sample_scan_def)

lemma plan_runs_classified_text_witness:
  "\<exists>f. describe_script sample_text = Some [f] \<and> sf_class f = Read"
  using plan_runs_classified_text [OF sample_plan] by (auto simp: sample_plan_def policy_sql_def)

text \<open>
  parameter values never become SQL text: two runs that differ only in the supplied values
  plan the same policy text and the same statement text.
\<close>

lemma values_never_reach_the_text:
  assumes "plan_execution sql (Some supplied) row_limit = Inr plan"
    "plan_execution sql (Some supplied') row_limit = Inr plan'"
  shows "policy_sql plan' = policy_sql plan \<and> shape_text (ep_shape plan') = shape_text (ep_shape plan)"
proof (cases "\<exists>scan. scan_parameters sql = Some scan \<and> ps_names scan \<noteq> []")
  case True
  then obtain scan limit where
    "plan_parameters sql scan supplied limit = Inr plan"
    "plan_parameters sql scan supplied' limit = Inr plan'"
    using assms by (auto simp: plan_execution_def split: sum.splits)
  then show ?thesis by (auto simp: plan_parameters_Inr policy_sql_def)
next
  case False
  then obtain limit where "plan = plan_plain sql limit" "plan' = plan_plain sql limit"
    using assms by (auto simp: plan_execution_def split: sum.splits option.splits if_splits)
  then show ?thesis by simp
qed

text \<open>
  C15: error positions are mapped back to the user's text: a server position that points at the
  \<open>k\<close>th byte of the executed statement becomes the character position of the byte it was copied
  from, or of the colon of the parameter when it points into a \<open>$k\<close>.
\<close>

theorem error_positions_map_back:
  assumes "scan_parameters sql = Some scan" "plan_parameters sql scan supplied limit = Inr plan"
    and "length sql + 1 < 2 ^ 32" "length (policy_sql plan) + 1 < 2 ^ 32"
    and "describe_script (policy_sql plan) = Some [f]"
    and "k < sf_end f - sf_start f" "i = origin (ps_occurrences scan) 0 (sf_start f + k)"
  shows "original_position plan (lead + chars_count (take k (shape_text (ep_shape plan))) + 1) lead
      = Some (chars_count (take i sql) + 1)
    \<and> i < length sql
    \<and> (shape_text (ep_shape plan) ! k = sql ! i \<or> i \<in> oc_start ` set (ps_occurrences scan))"
proof -
  let ?occs = "ps_occurrences scan"
  define rw where "rw = rewritten sql ?occs 0"
  have plan: "policy_sql plan = rw" "shape_text (ep_shape plan) = slice rw (sf_start f) (sf_end f)"
    "ep_statement_offset plan = char_count (take (sf_start f) rw)"
    "ep_positions plan = snd (rewrite scan sql)"
    using assms(2,5) by (auto simp: plan_parameters_Inr policy_sql_def rewrite_text rw_def)
  have occs: "occurrences_from sql 0 ?occs"
    by (rule occurrences_from_sound [OF scan_parameters_scan_sound [OF assms(1)]])
  have size: "chars_count sql + 1 < 2 ^ 32" "chars_count rw + 1 < 2 ^ 32" "length rw + 1 < 2 ^ 32"
    using assms(3,4) chars_count_le [of sql] chars_count_le [of rw] unfolding plan by linarith+
  have segs: "snd (rewrite scan sql) = segments_from sql ?occs 0 0 0"
    using rewrite_eq [OF occs] size by (simp add: rw_def)
  have fin: "sf_end f \<le> length rw"
    using assms(5) statement_end_in_text [of rw Postgres "[f]" f] unfolding plan by (simp add: describe_script_def)
  let ?at = "chars_count (take (sf_start f + k) rw)"
  have part: "take k (slice rw (sf_start f) (sf_end f)) = take k (drop (sf_start f) rw)"
    using assms(6) by (simp add: slice_def min_def)
  have at: "chars_count (take k (slice rw (sf_start f) (sf_end f))) + chars_count (take (sf_start f) rw) = ?at"
    unfolding part by (simp add: take_add)
  have le: "?at \<le> chars_count rw" "chars_count (take (sf_start f) rw) \<le> chars_count rw"
    by (rule chars_count_take_le)+
  have "original_position plan (lead + chars_count (take k (shape_text (ep_shape plan))) + 1) lead
      = Some (to_original (segments_from sql ?occs 0 0 0) (?at + 1))"
    using size le at by (simp add: original_position_def plan segs char_count_def)
  also have "to_original (segments_from sql ?occs 0 0 0) (?at + 1) = chars_count (take i sql) + 1"
    using to_original_loop_segments [OF occs, of "sf_start f + k" 0 0] assms(6,7) fin size
    by (simp add: to_original_def rw_def slice_def)
  finally show ?thesis
    using origin_copies [OF occs, of "sf_start f + k"] assms(6,7) fin
    by (auto simp: plan rw_def [symmetric] nth_slice)
qed

lemma error_positions_map_back_witness:
  "original_position sample_plan (7 + 14 + 1) 7 = Some 16"
proof -
  have "map_option (map (\<lambda>f. (sf_start f, sf_end f))) (describe_script sample_text) = Some [(0, 17)]"
    by code_simp
  then obtain f where facts: "describe_script (policy_sql sample_plan) = Some [f]"
    and f: "sf_start f = 0" "sf_end f = 17"
    by (auto simp: sample_plan_def policy_sql_def)
  have shape: "shape_text (ep_shape sample_plan) = sample_text" "policy_sql sample_plan = sample_text"
    by (simp_all add: sample_plan_def policy_sql_def)
  have len: "length sample_parameters = 19" "length sample_text = 17" by code_simp+
  have chars: "chars_count (take 14 sample_text) = 14"
    "chars_count (take (origin (ps_occurrences sample_scan) 0 14) sample_parameters) = 15"
    by code_simp+
  show ?thesis
    using error_positions_map_back
        [OF sample_scan sample_plan_parameters _ _ facts _ refl, of 14 7] f shape len chars by simp
qed

end
