(* ===== verification/CsvCodec.thy ===== *)
theory CsvCodec imports Prelude begin

text \<open>
  The CSV codec of table transfers: \<open>backend/src/postgres/transfer/csv.rs\<close> and \<open>send_record\<close> of
  \<open>runner.rs\<close>.  A method that takes \<open>&mut self\<close> and may fail returns the parser it leaves behind
  together with its result, because the parser is looked at again after an error.  Counters are
  naturals: the record number cannot reach \<open>u64::MAX\<close>, and the byte counters are capped.
\<close>

section \<open>Options and errors\<close>

definition MAX_FIELD_BYTES :: nat where "MAX_FIELD_BYTES = 1024 * 1024"
definition MAX_RECORD_BYTES :: nat where "MAX_RECORD_BYTES = 8 * 1024 * 1024"
definition MAX_COLUMNS :: nat where "MAX_COLUMNS = 1600"
definition CSV_OUTPUT_CHUNK_BYTES :: nat where "CSV_OUTPUT_CHUNK_BYTES = 64 * 1024"
definition MAX_NULL_TOKEN_BYTES :: nat where "MAX_NULL_TOKEN_BYTES = 1024"

definition UTF8_BOM :: string where "UTF8_BOM = [CHR 0xEF, CHR 0xBB, CHR 0xBF]"

record csv_options =
  opt_delimiter :: string
  opt_quote :: string
  opt_escape :: string
  opt_null_token :: string
  opt_header :: bool

definition default_csv_options :: csv_options where
  "default_csv_options =
     \<lparr>opt_delimiter = '','', opt_quote = [DQUOTE], opt_escape = [DQUOTE],
      opt_null_token = [BACKSLASH, CHR ''N''], opt_header = True\<rparr>"

record csv_error =
  ce_record :: nat
  ce_column :: "nat option"
  ce_reason :: string

definition configuration_error :: "string \<Rightarrow> csv_error" where
  "configuration_error reason = \<lparr>ce_record = 0, ce_column = None, ce_reason = reason\<rparr>"

definition error_at :: "nat \<Rightarrow> nat option \<Rightarrow> string \<Rightarrow> csv_error" where
  "error_at rec column reason = \<lparr>ce_record = rec, ce_column = column, ce_reason = reason\<rparr>"

definition csv_error_display :: "csv_error \<Rightarrow> string" where
  "csv_error_display e =
     (if ce_record e = 0 then ce_reason e
      else case ce_column e of
             Some column \<Rightarrow>
               ''CSV record '' @ decimal (ce_record e) @ '', column '' @ decimal column @ '': '' @ ce_reason e
           | None \<Rightarrow> ''CSV record '' @ decimal (ce_record e) @ '': '' @ ce_reason e)"

fun validate_control_byte :: "string \<Rightarrow> string \<Rightarrow> csv_error + char" where
  "validate_control_byte name [b] =
     (if b \<in> {NUL, CR, LF}
      then Inl (configuration_error (name @ '' cannot be NUL, carriage return, or line feed''))
      else Inr b)"
| "validate_control_byte name v =
     Inl (configuration_error (name @ '' must be exactly one UTF-8 byte''))"

definition validate_options :: "csv_options \<Rightarrow> csv_error + unit" where
  "validate_options opts =
     (case validate_control_byte ''delimiter'' (opt_delimiter opts) of
        Inl e \<Rightarrow> Inl e
      | Inr delimiter \<Rightarrow>
     (case validate_control_byte ''quote'' (opt_quote opts) of
        Inl e \<Rightarrow> Inl e
      | Inr quote \<Rightarrow>
     (case validate_control_byte ''escape'' (opt_escape opts) of
        Inl e \<Rightarrow> Inl e
      | Inr escape \<Rightarrow>
          if delimiter = quote
          then Inl (configuration_error ''delimiter and quote must be different'')
          else if MAX_NULL_TOKEN_BYTES < length (opt_null_token opts)
          then Inl (configuration_error ''NULL token exceeds the 1 KiB limit'')
          else if list_ex (\<lambda>b. b \<in> {NUL, CR, LF} \<or> b = delimiter \<or> b = quote) (opt_null_token opts)
          then Inl (configuration_error
                 ''NULL token cannot contain NUL, the delimiter, quote, carriage return, or line feed'')
          else Inr ())))"

record control_bytes =
  cb_delimiter :: char
  cb_quote :: char
  cb_escape :: char

definition control_bytes_of :: "csv_options \<Rightarrow> csv_error + control_bytes" where
  "control_bytes_of opts =
     (case validate_options opts of
        Inl e \<Rightarrow> Inl e
      | Inr _ \<Rightarrow> Inr \<lparr>cb_delimiter = opt_delimiter opts ! 0, cb_quote = opt_quote opts ! 0,
                     cb_escape = opt_escape opts ! 0\<rparr>)"

record csv_cell =
  cell_value :: string
  cell_quoted :: bool

definition is_null :: "csv_options \<Rightarrow> csv_cell \<Rightarrow> bool" where
  "is_null opts cell \<longleftrightarrow> \<not> cell_quoted cell \<and> cell_value cell = opt_null_token opts"

section \<open>UTF-8\<close>

text \<open>\<open>String::from_utf8\<close>: the well-formed byte sequences of the Unicode standard, as \<open>core::str\<close> checks
  them.\<close>

definition between :: "nat \<Rightarrow> nat \<Rightarrow> char \<Rightarrow> bool" where
  "between lo hi c \<longleftrightarrow> lo \<le> byte c \<and> byte c \<le> hi"

definition utf8_second :: "char \<Rightarrow> char \<Rightarrow> bool" where
  "utf8_second a b \<longleftrightarrow>
     (if byte a = 0xE0 then between 0xA0 0xBF b
      else if byte a = 0xED then between 0x80 0x9F b
      else if byte a = 0xF0 then between 0x90 0xBF b
      else if byte a = 0xF4 then between 0x80 0x8F b
      else between 0x80 0xBF b)"

fun valid_utf8 :: "string \<Rightarrow> bool" where
  "valid_utf8 [] \<longleftrightarrow> True"
| "valid_utf8 (a # s) \<longleftrightarrow>
     (if byte a < 0x80 then valid_utf8 s
      else if between 0xC2 0xDF a then
        (case s of b # s' \<Rightarrow> utf8_second a b \<and> valid_utf8 s' | _ \<Rightarrow> False)
      else if between 0xE0 0xEF a then
        (case s of b # c # s' \<Rightarrow> utf8_second a b \<and> between 0x80 0xBF c \<and> valid_utf8 s' | _ \<Rightarrow> False)
      else if between 0xF0 0xF4 a then
        (case s of
           b # c # d # s' \<Rightarrow>
             utf8_second a b \<and> between 0x80 0xBF c \<and> between 0x80 0xBF d \<and> valid_utf8 s'
         | _ \<Rightarrow> False)
      else False)"

declare valid_utf8.simps(2) [simp del]

section \<open>The parser\<close>

datatype field_state = Start | Unquoted | Quoted | Escaped | AfterQuote

record parser =
  px_controls :: control_bytes
  px_record_number :: nat
  px_record_bytes :: nat
  px_fields :: "csv_cell list"
  px_field :: string
  px_field_quoted :: bool
  px_field_state :: field_state
  px_record_started :: bool
  px_pending_cr :: bool
  px_bom_prefix :: string
  px_bom_resolved :: bool
  px_failed :: bool
  px_finished :: bool

definition parser_new :: "csv_options \<Rightarrow> csv_error + parser" where
  "parser_new opts =
     (case control_bytes_of opts of
        Inl e \<Rightarrow> Inl e
      | Inr controls \<Rightarrow>
          Inr \<lparr>px_controls = controls, px_record_number = 1, px_record_bytes = 0, px_fields = [],
               px_field = [], px_field_quoted = False, px_field_state = Start,
               px_record_started = False, px_pending_cr = False, px_bom_prefix = [],
               px_bom_resolved = False, px_failed = False, px_finished = False\<rparr>)"

type_synonym 'a outcome = "parser \<times> (csv_error + 'a)"

text \<open>The \<open>?\<close> operator: go on with the new parser, or stop with the parser as it is.\<close>

definition and_then :: "'a outcome \<Rightarrow> (parser \<Rightarrow> 'a \<Rightarrow> 'b outcome) \<Rightarrow> 'b outcome" where
  "and_then r f = (case r of (p, Inl e) \<Rightarrow> (p, Inl e) | (p, Inr a) \<Rightarrow> f p a)"

definition parser_error :: "parser \<Rightarrow> nat option \<Rightarrow> string \<Rightarrow> csv_error" where
  "parser_error p column reason = error_at (px_record_number p) column reason"

definition fail :: "parser \<Rightarrow> nat option \<Rightarrow> string \<Rightarrow> 'a outcome" where
  "fail p column reason = (p, Inl (parser_error p column reason))"

definition current_column :: "parser \<Rightarrow> nat" where
  "current_column p = length (px_fields p) + 1"

definition has_pending_input :: "parser \<Rightarrow> bool" where
  "has_pending_input p \<longleftrightarrow>
     px_bom_prefix p \<noteq> [] \<or> px_pending_cr p \<or> px_record_started p \<or> px_fields p \<noteq> []
     \<or> px_field p \<noteq> [] \<or> px_field_state p \<noteq> Start"

definition next_record_number :: "parser \<Rightarrow> nat" where
  "next_record_number p = px_record_number p"

definition count_record_byte :: "parser \<Rightarrow> unit outcome" where
  "count_record_byte p =
     (if px_record_bytes p = MAX_RECORD_BYTES then fail p None ''record exceeds the 8 MiB limit''
      else (p\<lparr>px_record_bytes := px_record_bytes p + 1, px_record_started := True\<rparr>, Inr ()))"

definition push_field_byte :: "char \<Rightarrow> parser \<Rightarrow> unit outcome" where
  "push_field_byte b p =
     (if length (px_field p) = MAX_FIELD_BYTES
      then fail p (Some (current_column p)) ''field exceeds the 1 MiB limit''
      else (p\<lparr>px_field := px_field p @ [b]\<rparr>, Inr ()))"

definition finish_field :: "parser \<Rightarrow> unit outcome" where
  "finish_field p =
     (if length (px_fields p) = MAX_COLUMNS
      then fail p (Some (MAX_COLUMNS + 1)) ''record exceeds the 1600-column limit''
      else
        let bytes = px_field p;
            p = p\<lparr>px_field := []\<rparr>
        in if \<not> valid_utf8 bytes then fail p (Some (current_column p)) ''field contains invalid UTF-8''
           else (p\<lparr>px_fields := px_fields p @ [\<lparr>cell_value = bytes, cell_quoted = px_field_quoted p\<rparr>],
                   px_field_quoted := False, px_field_state := Start\<rparr>, Inr ()))"

definition ensure_another_column :: "parser \<Rightarrow> unit outcome" where
  "ensure_another_column p =
     (if length (px_fields p) = MAX_COLUMNS
      then fail p (Some (MAX_COLUMNS + 1)) ''record exceeds the 1600-column limit''
      else (p, Inr ()))"

definition complete_record :: "parser \<Rightarrow> csv_cell list option outcome" where
  "complete_record p =
     and_then (finish_field p) (\<lambda>p _.
       (p\<lparr>px_fields := [], px_record_number := px_record_number p + 1, px_record_bytes := 0,
          px_record_started := False, px_pending_cr := False\<rparr>, Inr (Some (px_fields p))))"

text \<open>The two \<open>unreachable!\<close> arms panic; \<open>panic\<close> marks them, and no call reaches them.\<close>

definition panic :: "parser \<Rightarrow> 'a outcome" where
  "panic p = fail p None ''entered unreachable code''"

definition push_quoted_byte :: "char \<Rightarrow> parser \<Rightarrow> csv_cell list option outcome" where
  "push_quoted_byte b p =
     (let quote = cb_quote (px_controls p); escape = cb_escape (px_controls p) in
      case px_field_state p of
        Quoted \<Rightarrow>
          if escape \<noteq> quote \<and> b = escape then (p\<lparr>px_field_state := Escaped\<rparr>, Inr None)
          else if b = quote then (p\<lparr>px_field_state := AfterQuote\<rparr>, Inr None)
          else and_then (push_field_byte b p) (\<lambda>p _. (p, Inr None))
      | Escaped \<Rightarrow>
          if b = quote \<or> b = escape then
            and_then (push_field_byte b p) (\<lambda>p _. (p\<lparr>px_field_state := Quoted\<rparr>, Inr None))
          else
            and_then (push_field_byte escape p) (\<lambda>p _.
              and_then (push_field_byte b p) (\<lambda>p _. (p\<lparr>px_field_state := Quoted\<rparr>, Inr None)))
      | _ \<Rightarrow> panic p)"

definition end_column :: "parser \<Rightarrow> csv_cell list option outcome" where
  "end_column p =
     and_then (finish_field p) (\<lambda>p _. and_then (ensure_another_column p) (\<lambda>p _. (p, Inr None)))"

definition push_unquoted_byte :: "char \<Rightarrow> parser \<Rightarrow> csv_cell list option outcome" where
  "push_unquoted_byte b p =
     (let delimiter = cb_delimiter (px_controls p); quote = cb_quote (px_controls p);
          escape = cb_escape (px_controls p) in
      case px_field_state p of
        Start \<Rightarrow>
          if b = delimiter then end_column p
          else if b = quote then
            (p\<lparr>px_field_quoted := True, px_field_state := Quoted\<rparr>, Inr None)
          else and_then (push_field_byte b p) (\<lambda>p _. (p\<lparr>px_field_state := Unquoted\<rparr>, Inr None))
      | Unquoted \<Rightarrow>
          if b = delimiter then end_column p
          else if b = quote then
            fail p (Some (current_column p)) ''unexpected quote in unquoted field''
          else and_then (push_field_byte b p) (\<lambda>p _. (p, Inr None))
      | AfterQuote \<Rightarrow>
          if escape = quote \<and> b = quote then
            and_then (push_field_byte b p) (\<lambda>p _. (p\<lparr>px_field_state := Quoted\<rparr>, Inr None))
          else if b = delimiter then end_column p
          else fail p (Some (current_column p)) ''unexpected character after closing quote''
      | _ \<Rightarrow> panic p)"

definition push_data_byte :: "char \<Rightarrow> parser \<Rightarrow> csv_cell list option outcome" where
  "push_data_byte b p =
     (if px_pending_cr p then
        if b \<noteq> LF then
          fail p (Some (current_column p)) ''carriage return must be followed by line feed''
        else complete_record (p\<lparr>px_pending_cr := False\<rparr>)
      else if px_field_state p \<in> {Quoted, Escaped} then
        and_then (count_record_byte p) (\<lambda>p _. push_quoted_byte b p)
      else if b = LF then complete_record p
      else if b = CR then (p\<lparr>px_pending_cr := True\<rparr>, Inr None)
      else and_then (count_record_byte p) (\<lambda>p _. push_unquoted_byte b p))"

text \<open>The bytes of a prefix that turned out not to be a byte order mark; what they emit is
  dropped, as in the code.\<close>

fun push_prefix :: "string \<Rightarrow> parser \<Rightarrow> unit outcome" where
  "push_prefix [] p = (p, Inr ())"
| "push_prefix (b # bs) p = and_then (push_data_byte b p) (\<lambda>p _. push_prefix bs p)"

definition push_with_bom :: "char \<Rightarrow> parser \<Rightarrow> csv_cell list option outcome" where
  "push_with_bom b p =
     (if px_bom_resolved p then push_data_byte b p
      else if b = UTF8_BOM ! length (px_bom_prefix p) then
        let prefix = px_bom_prefix p @ [b] in
        (if length prefix = length UTF8_BOM
         then p\<lparr>px_bom_prefix := [], px_bom_resolved := True\<rparr>
         else p\<lparr>px_bom_prefix := prefix\<rparr>, Inr None)
      else
        and_then (push_prefix (px_bom_prefix p) (p\<lparr>px_bom_resolved := True, px_bom_prefix := []\<rparr>))
          (\<lambda>p _. push_data_byte b p))"

definition latch :: "'a outcome \<Rightarrow> 'a outcome" where
  "latch r = (case r of (p, Inl e) \<Rightarrow> (p\<lparr>px_failed := True\<rparr>, Inl e) | (p, Inr a) \<Rightarrow> (p, Inr a))"

definition push :: "char \<Rightarrow> parser \<Rightarrow> csv_cell list option outcome" where
  "push b p =
     (if px_finished p then fail p None ''parser has already finished''
      else if px_failed p then fail p None ''parser is no longer usable after an error''
      else latch (push_with_bom b p))"

definition finish_inner :: "parser \<Rightarrow> csv_cell list option outcome" where
  "finish_inner p =
     and_then
       (if px_bom_resolved p then (p, Inr ())
        else push_prefix (px_bom_prefix p) (p\<lparr>px_bom_resolved := True, px_bom_prefix := []\<rparr>))
       (\<lambda>p _.
         if px_pending_cr p then
           fail p (Some (current_column p)) ''carriage return must be followed by line feed''
         else if px_field_state p = Quoted then
           fail p (Some (current_column p)) ''unterminated quoted field''
         else if px_field_state p = Escaped then
           fail p (Some (current_column p)) ''unterminated escape in quoted field''
         else if px_field_state p = Start \<and> \<not> px_record_started p \<and> px_fields p = []
         then (p, Inr None)
         else complete_record p)"

definition finish :: "parser \<Rightarrow> csv_cell list option outcome" where
  "finish p =
     (if px_finished p then fail p None ''parser has already finished''
      else if px_failed p then fail p None ''parser is no longer usable after an error''
      else latch (finish_inner (p\<lparr>px_finished := True\<rparr>)))"

section \<open>The encoder\<close>

datatype encoded_cell_kind =
    NullCell string nat
  | ValueCell string nat bool bool

record encoded_cell =
  enc_kind :: encoded_cell_kind
  enc_quote :: char
  enc_escape :: char

definition encode_cell :: "string option \<Rightarrow> csv_options \<Rightarrow> csv_error + encoded_cell" where
  "encode_cell v opts =
     (case control_bytes_of opts of
        Inl e \<Rightarrow> Inl e
      | Inr controls \<Rightarrow>
          (case v of
             None \<Rightarrow> Inr \<lparr>enc_kind = NullCell (opt_null_token opts) 0, enc_quote = cb_quote controls,
                         enc_escape = cb_escape controls\<rparr>
           | Some s \<Rightarrow>
               if MAX_FIELD_BYTES < length s
               then Inl (configuration_error ''field exceeds the 1 MiB limit'')
               else Inr \<lparr>enc_kind = ValueCell s 0 False False, enc_quote = cb_quote controls,
                         enc_escape = cb_escape controls\<rparr>))"

text \<open>The chunk loop: the bytes still to encode, the chunk so far and how many bytes it took.\<close>

fun fill_chunk :: "char \<Rightarrow> char \<Rightarrow> string \<Rightarrow> string \<Rightarrow> nat \<Rightarrow> string \<times> nat" where
  "fill_chunk quote escape [] chunk offset = (chunk, offset)"
| "fill_chunk quote escape (b # bs) chunk offset =
     (let escaped = (b = quote \<or> b = escape) in
      if CSV_OUTPUT_CHUNK_BYTES < length chunk + (if escaped then 2 else 1) then (chunk, offset)
      else fill_chunk quote escape bs (chunk @ (if escaped then [escape, b] else [b])) (offset + 1))"

definition next_chunk :: "encoded_cell \<Rightarrow> (string \<times> encoded_cell) option" where
  "next_chunk cell =
     (case enc_kind cell of
        NullCell bytes offset \<Rightarrow>
          if offset = length bytes then None
          else
            let stop = min (offset + CSV_OUTPUT_CHUNK_BYTES) (length bytes) in
            Some (slice bytes offset stop, cell\<lparr>enc_kind := NullCell bytes stop\<rparr>)
      | ValueCell bytes offset opened closed \<Rightarrow>
          if closed then None
          else
            let start = (if opened then [] else [enc_quote cell]);
                (chunk, offset) =
                  fill_chunk (enc_quote cell) (enc_escape cell) (drop offset bytes) start offset;
                close = (offset = length bytes \<and> length chunk < CSV_OUTPUT_CHUNK_BYTES)
            in Some (if close then chunk @ [enc_quote cell] else chunk,
                     cell\<lparr>enc_kind := ValueCell bytes offset True close\<rparr>))"

text \<open>
  \<open>for chunk in encode_cell(..)\<close>: the chunks until the iterator returns \<open>None\<close>.  A loop that did
  not end would be the value \<open>None\<close>.
\<close>

partial_function (option) drain :: "encoded_cell \<Rightarrow> string list option" where
  "drain cell =
     (case next_chunk cell of
        None \<Rightarrow> Some []
      | Some (chunk, cell') \<Rightarrow> Option.bind (drain cell') (\<lambda>chunks. Some (chunk # chunks)))"

declare drain.simps [code]

text \<open>
  \<open>send_record\<close> of \<open>runner.rs\<close>, up to the sending: the chunks of one record, or the encoder's error.
  \<open>None\<close> is the panic of a source index outside the record, or a loop that does not end.
\<close>

fun send_cells ::
  "csv_cell list \<Rightarrow> csv_options \<Rightarrow> nat \<Rightarrow> (nat \<times> string) list \<Rightarrow> (csv_error + string list) option" where
  "send_cells record_cells opts output_index [] = Some (Inr [])"
| "send_cells record_cells opts output_index ((source_index, target) # mapping) =
     (case get record_cells source_index of
        None \<Rightarrow> None
      | Some cell \<Rightarrow>
          (case encode_cell (if is_null opts cell then None else Some (cell_value cell)) opts of
             Inl e \<Rightarrow> Some (Inl e)
           | Inr encoded \<Rightarrow>
               Option.bind (drain encoded) (\<lambda>chunks.
                 case send_cells record_cells opts (output_index + 1) mapping of
                   None \<Rightarrow> None
                 | Some (Inl e) \<Rightarrow> Some (Inl e)
                 | Some (Inr rest) \<Rightarrow>
                     Some (Inr ((if 0 < output_index then [[opt_delimiter opts ! 0]] else [])
                                @ chunks @ rest)))))"

definition send_record ::
  "csv_cell list \<Rightarrow> (nat \<times> string) list \<Rightarrow> csv_options \<Rightarrow> (csv_error + string list) option" where
  "send_record record_cells mapping opts =
     (case send_cells record_cells opts 0 mapping of
        Some (Inr chunks) \<Rightarrow> Some (Inr (chunks @ [[LF]]))
      | other \<Rightarrow> other)"

end
