(* ===== verification/CsvFacts.thy ===== *)
theory CsvFacts imports CsvCodec begin

text \<open>
  Correctness of the CSV codec: the parser never holds or emits more than its limits and emits
  valid UTF-8 only, an error or the end of input is final, the encoder's chunks are bounded and
  end, and what \<open>send_record\<close> writes the parser reads back.
\<close>

section \<open>The parser's invariant\<close>

definition cell_ok :: "csv_cell \<Rightarrow> bool" where
  "cell_ok c \<longleftrightarrow> length (cell_value c) \<le> MAX_FIELD_BYTES \<and> valid_utf8 (cell_value c)"

definition cells_bytes :: "csv_cell list \<Rightarrow> nat" where
  "cells_bytes cs = sum_list (map (\<lambda>c. length (cell_value c)) cs)"

definition held_bytes :: "parser \<Rightarrow> nat" where
  "held_bytes p = cells_bytes (px_fields p) + length (px_field p)
     + (if px_field_state p = Escaped then 1 else 0)"

text \<open>\<open>parser_inv k p\<close>: the limits hold and the parser holds at least \<open>k\<close> bytes less than it counted.\<close>

definition parser_inv :: "nat \<Rightarrow> parser \<Rightarrow> bool" where
  "parser_inv k p \<longleftrightarrow>
     length (px_field p) \<le> MAX_FIELD_BYTES \<and> length (px_fields p) \<le> MAX_COLUMNS
     \<and> px_record_bytes p \<le> MAX_RECORD_BYTES \<and> held_bytes p + k \<le> px_record_bytes p
     \<and> list_all cell_ok (px_fields p) \<and> length (px_bom_prefix p) < length UTF8_BOM"

definition record_ok :: "csv_cell list \<Rightarrow> bool" where
  "record_ok r \<longleftrightarrow>
     r \<noteq> [] \<and> length r \<le> MAX_COLUMNS \<and> list_all cell_ok r \<and> cells_bytes r \<le> MAX_RECORD_BYTES"

fun emits_ok :: "csv_error + csv_cell list option \<Rightarrow> bool" where
  "emits_ok (Inr (Some r)) \<longleftrightarrow> record_ok r"
| "emits_ok _ \<longleftrightarrow> True"

text \<open>An operation that starts with \<open>k\<close> spare bytes and ends with \<open>m\<close> of them, error or not.\<close>

definition keeps :: "nat \<Rightarrow> (parser \<Rightarrow> 'a outcome) \<Rightarrow> nat \<Rightarrow> ('a \<Rightarrow> bool) \<Rightarrow> bool" where
  "keeps k f m ok \<longleftrightarrow>
     (\<forall>p. parser_inv k p \<longrightarrow>
        parser_inv 0 (fst (f p)) \<and> (\<forall>a. snd (f p) = Inr a \<longrightarrow> parser_inv m (fst (f p)) \<and> ok a))"

lemma parser_inv_mono: "parser_inv k p \<Longrightarrow> m \<le> k \<Longrightarrow> parser_inv m p"
  by (auto simp: parser_inv_def)

lemma keepsI:
  assumes "\<And>p. parser_inv k p \<Longrightarrow> parser_inv 0 (fst (f p))"
    "\<And>p a. parser_inv k p \<Longrightarrow> snd (f p) = Inr a \<Longrightarrow> parser_inv m (fst (f p)) \<and> ok a"
  shows "keeps k f m ok"
  using assms by (auto simp: keeps_def)

lemma keeps_and_then:
  assumes "keeps k f m ok" "\<And>a. ok a \<Longrightarrow> keeps m (\<lambda>p. g p a) n ok'"
  shows "keeps k (\<lambda>p. and_then (f p) g) n ok'"
proof (rule keepsI)
  fix p assume inv: "parser_inv k p"
  obtain p' r where f: "f p = (p', r)" by (cases "f p")
  show "parser_inv 0 (fst (and_then (f p) g))"
    using assms inv f by (cases r) (force simp: keeps_def and_then_def)+
  show "parser_inv n (fst (and_then (f p) g)) \<and> ok' a" if "snd (and_then (f p) g) = Inr a" for a
    using assms inv f that by (cases r) (force simp: keeps_def and_then_def)+
qed

lemma fst_fail [simp]: "fst (fail p c s) = p" and snd_fail [simp]: "snd (fail p c s) \<noteq> Inr a"
  by (simp_all add: fail_def)

lemma keeps_fail: "keeps k (\<lambda>p. fail p (c p) s) m ok"
  by (rule keepsI) (auto intro: parser_inv_mono)

lemma keeps_count: "keeps 0 count_record_byte 1 (\<lambda>_. True)"
  by (rule keepsI) (auto simp: count_record_byte_def parser_inv_def held_bytes_def)

lemma keeps_push_field: "keeps (Suc k) (push_field_byte b) k (\<lambda>_. True)"
  by (rule keepsI) (auto simp: push_field_byte_def parser_inv_def held_bytes_def)

lemma cells_bytes_snoc [simp]: "cells_bytes (cs @ [c]) = cells_bytes cs + length (cell_value c)"
  by (simp add: cells_bytes_def)

lemma cells_bytes_Nil [simp]: "cells_bytes [] = 0"
  by (simp add: cells_bytes_def)

lemma finish_field_inv:
  assumes "parser_inv k p"
  shows "parser_inv 0 (fst (finish_field p))"
    "snd (finish_field p) = Inr a \<Longrightarrow> parser_inv k (fst (finish_field p)) \<and> px_fields (fst (finish_field p)) \<noteq> []
      \<and> px_field (fst (finish_field p)) = [] \<and> px_field_state (fst (finish_field p)) = Start"
  using assms
  by (auto simp: finish_field_def Let_def parser_inv_def held_bytes_def cell_ok_def fail_def split: if_splits)

lemma keeps_finish_field: "keeps k finish_field k (\<lambda>_. True)"
  using finish_field_inv by (intro keepsI) blast+

lemma keeps_complete: "keeps k complete_record 0 (\<lambda>r. emits_ok (Inr r))"
proof (rule keepsI)
  fix p assume inv: "parser_inv k p"
  note fin = finish_field_inv [OF inv]
  obtain p' r where f: "finish_field p = (p', r)" by (cases "finish_field p")
  show "parser_inv 0 (fst (complete_record p))"
    using fin f by (cases r) (auto simp: complete_record_def and_then_def parser_inv_def held_bytes_def)
  fix a assume "snd (complete_record p) = Inr a"
  then show "parser_inv 0 (fst (complete_record p)) \<and> emits_ok (Inr a)"
    using fin f
    by (cases r) (auto simp: complete_record_def and_then_def parser_inv_def held_bytes_def record_ok_def)
qed

lemma keeps_ensure: "keeps k ensure_another_column k (\<lambda>_. True)"
  by (rule keepsI) (auto simp: ensure_another_column_def intro: parser_inv_mono)

lemma keeps_pure:
  assumes "\<And>p. parser_inv k p \<Longrightarrow> parser_inv m (f p)" "ok a"
  shows "keeps k (\<lambda>p. (f p, Inr a)) m ok"
  using assms by (intro keepsI) (auto intro: parser_inv_mono)

lemma keeps_cong_if:
  assumes "keeps k f m ok" "keeps k g m ok"
  shows "keeps k (\<lambda>p. if c p then f p else g p) m ok"
  using assms by (auto simp: keeps_def)

lemma keeps_end_column: "keeps k end_column k (\<lambda>r. emits_ok (Inr r))"
  unfolding end_column_def
  by (intro keeps_and_then [OF keeps_finish_field] keeps_and_then [OF keeps_ensure] keeps_pure) auto

lemma keeps_push_quoted: "keeps 1 (push_quoted_byte b) 0 (\<lambda>r. emits_ok (Inr r))"
  by (rule keepsI)
    (auto simp: push_quoted_byte_def and_then_def push_field_byte_def fail_def panic_def
      parser_inv_def held_bytes_def Let_def split: field_state.splits if_splits)

lemma keeps_push_unquoted: "keeps 1 (push_unquoted_byte b) 0 (\<lambda>r. emits_ok (Inr r))"
proof -
  have "parser_inv 0 (fst (push_unquoted_byte b p))
    \<and> (\<forall>a. snd (push_unquoted_byte b p) = Inr a \<longrightarrow>
         parser_inv 0 (fst (push_unquoted_byte b p)) \<and> emits_ok (Inr a))"
    if inv: "parser_inv 1 p" for p
  proof (cases "push_unquoted_byte b p = end_column p")
    case True
    then show ?thesis
      using keeps_end_column [of 1] inv parser_inv_mono [of 1 _ 0] by (auto simp: keeps_def)
  next
    case False
    then show ?thesis
      using inv
      by (auto simp: push_unquoted_byte_def and_then_def push_field_byte_def fail_def panic_def
          parser_inv_def held_bytes_def Let_def split: field_state.splits if_splits)
  qed
  then show ?thesis by (simp add: keeps_def)
qed

lemma keeps_at:
  "keeps k f m ok \<Longrightarrow> (\<And>p. parser_inv k p \<Longrightarrow> parser_inv k (u p)) \<Longrightarrow> keeps k (\<lambda>p. f (u p)) m ok"
  unfolding keeps_def by blast

lemma keeps_push_data: "keeps 0 (push_data_byte b) 0 (\<lambda>r. emits_ok (Inr r))"
proof -
  have complete: "keeps 0 (\<lambda>p. complete_record (p\<lparr>px_pending_cr := False\<rparr>)) 0 (\<lambda>r. emits_ok (Inr r))"
    by (rule keeps_at [OF keeps_complete]) (simp add: parser_inv_def held_bytes_def)
  have pending: "keeps 0 (\<lambda>p. (p\<lparr>px_pending_cr := True\<rparr>, Inr None)) 0 (\<lambda>r. emits_ok (Inr r))"
    by (rule keeps_pure) (auto simp: parser_inv_def held_bytes_def)
  have quoted: "keeps 0 (\<lambda>p. and_then (count_record_byte p) (\<lambda>p _. push_quoted_byte b p)) 0
      (\<lambda>r. emits_ok (Inr r))"
    by (rule keeps_and_then [OF keeps_count]) (rule keeps_push_quoted)
  have unquoted: "keeps 0 (\<lambda>p. and_then (count_record_byte p) (\<lambda>p _. push_unquoted_byte b p)) 0
      (\<lambda>r. emits_ok (Inr r))"
    by (rule keeps_and_then [OF keeps_count]) (rule keeps_push_unquoted)
  show ?thesis
    unfolding push_data_byte_def
    by (intro keeps_cong_if keeps_fail complete pending quoted unquoted keeps_complete)
qed

lemma keeps_push_prefix: "keeps 0 (push_prefix bs) 0 (\<lambda>_. True)"
proof (induction bs)
  case Nil
  then show ?case by (simp add: keeps_def)
next
  case (Cons b bs)
  show ?case
    unfolding push_prefix.simps by (rule keeps_and_then [OF keeps_push_data]) (rule Cons)
qed

lemma keeps_push_with_bom: "keeps 0 (push_with_bom b) 0 (\<lambda>r. emits_ok (Inr r))"
proof -
  have resolve: "keeps 0 (\<lambda>p. push_prefix (px_bom_prefix p)
      (p\<lparr>px_bom_resolved := True, px_bom_prefix := []\<rparr>)) 0 (\<lambda>_. True)"
    using keeps_push_prefix by (simp add: keeps_def parser_inv_def held_bytes_def UTF8_BOM_def)
  have extend: "keeps 0 (\<lambda>p. (if length (px_bom_prefix p @ [b]) = length UTF8_BOM
         then p\<lparr>px_bom_prefix := [], px_bom_resolved := True\<rparr>
         else p\<lparr>px_bom_prefix := px_bom_prefix p @ [b]\<rparr>, Inr None)) 0 (\<lambda>r. emits_ok (Inr r))"
    by (rule keeps_pure) (auto simp: parser_inv_def held_bytes_def UTF8_BOM_def)
  show ?thesis
    unfolding push_with_bom_def Let_def
    by (intro keeps_cong_if keeps_push_data extend keeps_and_then [OF resolve])
qed

lemma keeps_latch: "keeps k f 0 ok \<Longrightarrow> keeps k (\<lambda>p. latch (f p)) 0 ok"
  unfolding keeps_def latch_def
  by (auto simp: parser_inv_def held_bytes_def split: prod.splits sum.splits)

lemma keeps_push: "keeps 0 (push b) 0 (\<lambda>r. emits_ok (Inr r))"
  unfolding push_def
  by (intro keeps_cong_if keeps_fail keeps_latch keeps_push_with_bom)

lemma keeps_finish: "keeps 0 finish 0 (\<lambda>r. emits_ok (Inr r))"
proof -
  have resolve: "keeps 0 (\<lambda>p. if px_bom_resolved p then (p, Inr ())
       else push_prefix (px_bom_prefix p) (p\<lparr>px_bom_resolved := True, px_bom_prefix := []\<rparr>)) 0 (\<lambda>_. True)"
    using keeps_push_prefix by (simp add: keeps_def parser_inv_def held_bytes_def UTF8_BOM_def)
  have none: "keeps 0 (\<lambda>p. (p, Inr None)) 0 (\<lambda>r. emits_ok (Inr r))"
    by (rule keeps_pure) auto
  have "keeps 0 finish_inner 0 (\<lambda>r. emits_ok (Inr r))"
    unfolding finish_inner_def
    by (intro keeps_and_then [OF resolve] keeps_cong_if keeps_fail none keeps_complete)
  then have "keeps 0 (\<lambda>p. finish_inner (p\<lparr>px_finished := True\<rparr>)) 0 (\<lambda>r. emits_ok (Inr r))"
    by (rule keeps_at) (simp add: parser_inv_def held_bytes_def)
  then show ?thesis
    unfolding finish_def by (intro keeps_cong_if keeps_fail keeps_latch)
qed

section \<open>Runs of the parser\<close>

text \<open>A parser driven by a client: pushed bytes, with the records they emit, until an error.\<close>

fun feed :: "string \<Rightarrow> parser \<Rightarrow> csv_cell list list outcome" where
  "feed [] p = (p, Inr [])"
| "feed (b # bs) p =
     and_then (push b p) (\<lambda>p r. and_then (feed bs p) (\<lambda>p rs.
       (p, Inr (case r of None \<Rightarrow> rs | Some rec \<Rightarrow> rec # rs))))"

lemma keeps_feed: "keeps 0 (feed bs) 0 (list_all record_ok)"
proof (induction bs)
  case Nil
  then show ?case by (simp add: keeps_def)
next
  case (Cons b bs)
  show ?case
    unfolding feed.simps
  proof (rule keeps_and_then [OF keeps_push])
    fix r :: "csv_cell list option" assume r: "emits_ok (Inr r)"
    show "keeps 0 (\<lambda>p. and_then (feed bs p) (\<lambda>p rs.
        (p, Inr (case r of None \<Rightarrow> rs | Some rec \<Rightarrow> rec # rs)))) 0 (list_all record_ok)"
      by (rule keeps_and_then [OF Cons], rule keeps_pure) (use r in \<open>auto split: option.split\<close>)
  qed
qed

lemma parser_new_inv: "parser_new opts = Inr p \<Longrightarrow> parser_inv 0 p"
  by (auto simp: parser_new_def parser_inv_def held_bytes_def UTF8_BOM_def split: sum.splits)

lemma and_then_InrD: "and_then r f = (p', Inr a) \<Longrightarrow> \<exists>p b. r = (p, Inr b) \<and> f p b = (p', Inr a)"
  by (auto simp: and_then_def split: prod.splits sum.splits)

lemma and_then_Inr [simp]: "and_then (p, Inr a) f = f p a"
  and and_then_Inl [simp]: "and_then (p, Inl e) f = (p, Inl e)"
  by (simp_all add: and_then_def)

section \<open>The encoder\<close>

definition escape_byte :: "char \<Rightarrow> char \<Rightarrow> char \<Rightarrow> string" where
  "escape_byte quote escape b = (if b = quote \<or> b = escape then [escape, b] else [b])"

definition escaped :: "char \<Rightarrow> char \<Rightarrow> string \<Rightarrow> string" where
  "escaped quote escape s = concat (map (escape_byte quote escape) s)"

lemma escaped_Nil [simp]: "escaped q e [] = []"
  and escaped_Cons: "escaped q e (b # s) = escape_byte q e b @ escaped q e s"
  by (simp_all add: escaped_def)

lemma fill_chunk_spec:
  "fill_chunk q e bs chunk offset = (out, stop) \<Longrightarrow> length chunk \<le> CSV_OUTPUT_CHUNK_BYTES \<Longrightarrow>
     \<exists>k\<le>length bs. stop = offset + k \<and> out = chunk @ escaped q e (take k bs)
       \<and> length out \<le> CSV_OUTPUT_CHUNK_BYTES
       \<and> (length chunk + 2 \<le> CSV_OUTPUT_CHUNK_BYTES \<and> bs \<noteq> [] \<longrightarrow> 0 < k)"
proof (induction q e bs chunk offset rule: fill_chunk.induct)
  case (2 q e b bs chunk offset)
  define c where "c = escape_byte q e b"
  have c: "length c = (if b = q \<or> b = e then 2 else 1)" by (simp add: c_def escape_byte_def)
  show ?case
  proof (cases "CSV_OUTPUT_CHUNK_BYTES < length chunk + length c")
    case True
    then have "out = chunk \<and> stop = offset" using "2.prems"(1) c by (simp add: Let_def split: if_splits)
    moreover have "\<not> length chunk + 2 \<le> CSV_OUTPUT_CHUNK_BYTES" using True c by (auto split: if_splits)
    ultimately show ?thesis using "2.prems"(2) by (intro exI [of _ 0]) auto
  next
    case False
    then have "fill_chunk q e bs (chunk @ c) (offset + 1) = (out, stop)"
      using "2.prems"(1) c by (auto simp: Let_def c_def escape_byte_def split: if_splits)
    then obtain k where "k \<le> length bs" "stop = offset + 1 + k" "out = (chunk @ c) @ escaped q e (take k bs)"
      "length out \<le> CSV_OUTPUT_CHUNK_BYTES"
      using "2.IH" [of "b = q \<or> b = e"] False c by (auto simp: c_def escape_byte_def split: if_splits)
    then show ?thesis
      by (intro exI [of _ "Suc k"]) (auto simp: escaped_Cons c_def)
  qed
qed auto

definition encoding :: "string option \<Rightarrow> csv_options \<Rightarrow> string" where
  "encoding v opts =
     (case v of
        None \<Rightarrow> opt_null_token opts
      | Some s \<Rightarrow> let q = opt_quote opts ! 0 in q # escaped q (opt_escape opts ! 0) s @ [q])"

definition chunk_ok :: "string \<Rightarrow> bool" where
  "chunk_ok c \<longleftrightarrow> c \<noteq> [] \<and> length c \<le> CSV_OUTPUT_CHUNK_BYTES"

lemma drain_value:
  assumes "enc_kind cell = ValueCell bytes offset opened closed" "offset \<le> length bytes"
    "closed \<longrightarrow> offset = length bytes"
  shows "\<exists>cs. drain cell = Some cs \<and> list_all chunk_ok cs
    \<and> concat cs = (if closed then [] else (if opened then [] else [enc_quote cell])
        @ escaped (enc_quote cell) (enc_escape cell) (drop offset bytes) @ [enc_quote cell])"
  using assms
proof (induction "2 * (length bytes - offset) + (if opened then 0 else 1) + (if closed then 0 else 1)"
    arbitrary: cell offset opened closed rule: less_induct)
  case less
  show ?case
  proof (cases closed)
    case True
    then show ?thesis using less.prems by (subst drain.simps) (simp add: next_chunk_def)
  next
    case False
    define q where "q = enc_quote cell"
    define e where "e = enc_escape cell"
    define start where "start = (if opened then [] else [q])"
    obtain out stop where fill: "fill_chunk q e (drop offset bytes) start offset = (out, stop)"
      by (cases "fill_chunk q e (drop offset bytes) start offset")
    have "length start \<le> CSV_OUTPUT_CHUNK_BYTES" "length start + 2 \<le> CSV_OUTPUT_CHUNK_BYTES"
      by (simp_all add: start_def CSV_OUTPUT_CHUNK_BYTES_def)
    with fill_chunk_spec [OF fill] obtain k where k: "k \<le> length bytes - offset" "stop = offset + k"
      "out = start @ escaped q e (take k (drop offset bytes))" "length out \<le> CSV_OUTPUT_CHUNK_BYTES"
      "offset < length bytes \<Longrightarrow> 0 < k"
      by auto
    define close where "close \<longleftrightarrow> stop = length bytes \<and> length out < CSV_OUTPUT_CHUNK_BYTES"
    define cell' where "cell' = cell\<lparr>enc_kind := ValueCell bytes stop True close\<rparr>"
    define chunk where "chunk = (if close then out @ [q] else out)"
    have nxt: "next_chunk cell = Some (chunk, cell')"
      using less.prems(1) False fill
      by (cases opened) (simp_all add: next_chunk_def Let_def q_def e_def start_def close_def chunk_def cell'_def)
    have stop: "stop \<le> length bytes" using k(1,2) less.prems(2) by simp
    have out0: "out = [] \<Longrightarrow> opened \<and> offset = length bytes"
    proof -
      assume "out = []"
      then have "start = []" "escaped q e (take k (drop offset bytes)) = []" using k(3) by auto
      moreover from this(2) have "take k (drop offset bytes) = []"
        by (cases "take k (drop offset bytes)") (auto simp: escaped_Cons escape_byte_def split: if_splits)
      ultimately show "opened \<and> offset = length bytes"
        using k(5) less.prems(2) le_less_linear [of "length bytes" offset]
        by (auto simp: start_def split: if_splits)
    qed
    have ok: "chunk_ok chunk"
    proof (cases close)
      case True
      then show ?thesis by (simp add: chunk_ok_def chunk_def close_def)
    next
      case False
      then have "out \<noteq> []" using out0 stop k(2) by (auto simp: close_def CSV_OUTPUT_CHUNK_BYTES_def)
      with False k(4) show ?thesis by (simp add: chunk_ok_def chunk_def)
    qed
    have smaller: "2 * (length bytes - stop) + (if True then 0 else 1) + (if close then 0 else 1)
        < 2 * (length bytes - offset) + (if opened then 0 else 1) + (if closed then 0 else 1)"
    proof (cases "offset < length bytes")
      case True
      then show ?thesis using k(1,2,5) False by auto
    next
      case at: False
      then have "stop = length bytes" "length bytes = offset" using k(1,2) less.prems(2) by auto
      moreover have "opened \<longrightarrow> out = []" using at k(3) by (simp add: start_def)
      ultimately show ?thesis using False by (auto simp: close_def CSV_OUTPUT_CHUNK_BYTES_def)
    qed
    have "enc_kind cell' = ValueCell bytes stop True close" "enc_quote cell' = q" "enc_escape cell' = e"
      by (simp_all add: cell'_def q_def e_def)
    with less.hyps [OF smaller this(1) stop] have "\<exists>cs. drain cell' = Some cs \<and> list_all chunk_ok cs
      \<and> concat cs = (if close then [] else escaped q e (drop stop bytes) @ [q])"
      by (auto simp: close_def)
    then obtain cs where cs: "drain cell' = Some cs" "list_all chunk_ok cs"
      "concat cs = (if close then [] else escaped q e (drop stop bytes) @ [q])" by blast
    have "escaped q e (drop offset bytes) = escaped q e (take k (drop offset bytes)) @ escaped q e (drop stop bytes)"
      by (simp add: escaped_def k(2) add.commute
          flip: drop_drop concat_append map_append)
    moreover have "close \<longrightarrow> drop stop bytes = []" by (simp add: close_def)
    ultimately show ?thesis
      using cs ok nxt False k(3)
      by (subst drain.simps) (auto simp: chunk_def start_def q_def e_def)
  qed
qed

lemma drain_null:
  assumes "enc_kind cell = NullCell bytes offset" "offset \<le> length bytes"
  shows "\<exists>cs. drain cell = Some cs \<and> list_all chunk_ok cs \<and> concat cs = drop offset bytes"
  using assms
proof (induction "length bytes - offset" arbitrary: cell offset rule: less_induct)
  case less
  show ?case
  proof (cases "offset = length bytes")
    case True
    then show ?thesis using less.prems by (subst drain.simps) (simp add: next_chunk_def)
  next
    case False
    define stop where "stop = min (offset + CSV_OUTPUT_CHUNK_BYTES) (length bytes)"
    define cell' where "cell' = cell\<lparr>enc_kind := NullCell bytes stop\<rparr>"
    have stop: "offset < stop" "stop \<le> length bytes" "stop - offset \<le> CSV_OUTPUT_CHUNK_BYTES"
      using False less.prems(2) by (auto simp: stop_def CSV_OUTPUT_CHUNK_BYTES_def)
    have nxt: "next_chunk cell = Some (slice bytes offset stop, cell')"
      using less.prems(1) False by (simp add: next_chunk_def Let_def stop_def cell'_def)
    obtain cs where cs: "drain cell' = Some cs" "list_all chunk_ok cs" "concat cs = drop stop bytes"
      using less.hyps [of stop cell'] stop diff_less_mono2 [of offset stop "length bytes"]
      by (auto simp: cell'_def)
    have "slice bytes offset stop @ drop stop bytes = drop offset bytes"
      using stop by (simp add: slice_def) (metis append_take_drop_id drop_drop le_add_diff_inverse2 less_imp_le)
    moreover have "slice bytes offset stop \<noteq> []" using length_slice [of stop bytes offset] stop by auto
    ultimately show ?thesis
      using cs nxt stop by (subst drain.simps) (auto simp: chunk_ok_def length_slice)
  qed
qed

lemma encode_cell_drains:
  assumes "encode_cell v opts = Inr cell"
  shows "\<exists>cs. drain cell = Some cs \<and> list_all chunk_ok cs \<and> concat cs = encoding v opts"
proof (cases v)
  case None
  then show ?thesis
    using assms drain_null [of cell "opt_null_token opts" 0]
    by (auto simp: encode_cell_def encoding_def split: sum.splits)
next
  case (Some s)
  then show ?thesis
    using assms drain_value [of cell s 0 False False]
    by (auto simp: encode_cell_def encoding_def control_bytes_of_def Let_def split: sum.splits if_splits)
qed

section \<open>Reading back what was written\<close>

definition at_field ::
  "parser \<Rightarrow> csv_cell list \<Rightarrow> string \<Rightarrow> bool \<Rightarrow> field_state \<Rightarrow> nat \<Rightarrow> parser" where
  "at_field p fs f quoted st n =
     p\<lparr>px_record_bytes := n, px_fields := fs, px_field := f, px_field_quoted := quoted,
       px_field_state := st, px_record_started := (0 < n)\<rparr>"

definition good_controls :: "control_bytes \<Rightarrow> bool" where
  "good_controls c \<longleftrightarrow> cb_delimiter c \<noteq> cb_quote c
     \<and> cb_delimiter c \<notin> {CR, LF} \<and> cb_quote c \<notin> {CR, LF} \<and> cb_escape c \<notin> {CR, LF}"

definition running :: "parser \<Rightarrow> bool" where
  "running p \<longleftrightarrow> \<not> px_finished p \<and> \<not> px_failed p \<and> px_bom_resolved p \<and> \<not> px_pending_cr p
     \<and> good_controls (px_controls p)"

lemmas step_defs = push_def push_with_bom_def push_data_byte_def push_quoted_byte_def
  push_unquoted_byte_def count_record_byte_def push_field_byte_def latch_def Let_def at_field_def
  running_def good_controls_def

lemma push_open_quote:
  "running p \<Longrightarrow> n < MAX_RECORD_BYTES \<Longrightarrow>
     push (cb_quote (px_controls p)) (at_field p fs [] False Start n)
       = (at_field p fs [] True Quoted (n + 1), Inr None)"
  by (auto simp: step_defs)

lemma push_close_quote:
  "running p \<Longrightarrow> n < MAX_RECORD_BYTES \<Longrightarrow>
     push (cb_quote (px_controls p)) (at_field p fs f True Quoted n)
       = (at_field p fs f True AfterQuote (n + 1), Inr None)"
  by (auto simp: step_defs)

lemma push_plain:
  "running p \<Longrightarrow> n < MAX_RECORD_BYTES \<Longrightarrow> length f < MAX_FIELD_BYTES \<Longrightarrow>
   b \<notin> {cb_quote (px_controls p), cb_delimiter (px_controls p), CR, LF} \<Longrightarrow>
   st \<in> {Start, Unquoted} \<Longrightarrow>
     push b (at_field p fs f False st n) = (at_field p fs (f @ [b]) False Unquoted (n + 1), Inr None)"
  by (auto simp: step_defs)

lemma feed_append: "feed (a @ b) p = and_then (feed a p) (\<lambda>p rs. and_then (feed b p) (\<lambda>p rs'. (p, Inr (rs @ rs'))))"
proof (induction a arbitrary: p)
  case (Cons c a)
  show ?case
    by (cases "push c p"; cases "snd (push c p)"; cases "feed a (fst (push c p))";
        cases "snd (feed a (fst (push c p)))";
        cases "feed b (fst (feed a (fst (push c p))))";
        cases "snd (feed b (fst (feed a (fst (push c p)))))")
      (auto simp: Cons and_then_def split: option.split)
qed (simp add: and_then_def split: prod.split sum.split)

lemma feed_escape_byte:
  assumes "running p" "n + length (escape_byte q e b) \<le> MAX_RECORD_BYTES" "length f < MAX_FIELD_BYTES"
    and "q = cb_quote (px_controls p)" "e = cb_escape (px_controls p)"
  shows "feed (escape_byte q e b) (at_field p fs f True Quoted n)
    = (at_field p fs (f @ [b]) True Quoted (n + length (escape_byte q e b)), Inr [])"
  using assms by (auto simp: escape_byte_def step_defs)

lemma feed_escaped:
  "running p \<Longrightarrow> n + length (escaped q e s) \<le> MAX_RECORD_BYTES \<Longrightarrow> length f + length s \<le> MAX_FIELD_BYTES \<Longrightarrow>
   q = cb_quote (px_controls p) \<Longrightarrow> e = cb_escape (px_controls p) \<Longrightarrow>
     feed (escaped q e s) (at_field p fs f True Quoted n)
       = (at_field p fs (f @ s) True Quoted (n + length (escaped q e s)), Inr [])"
proof (induction s arbitrary: f n)
  case (Cons b s)
  have "feed (escape_byte q e b) (at_field p fs f True Quoted n)
    = (at_field p fs (f @ [b]) True Quoted (n + length (escape_byte q e b)), Inr [])"
    using Cons.prems by (intro feed_escape_byte) (auto simp: escaped_Cons)
  moreover have "feed (escaped q e s) (at_field p fs (f @ [b]) True Quoted (n + length (escape_byte q e b)))
    = (at_field p fs ((f @ [b]) @ s) True Quoted (n + length (escape_byte q e b) + length (escaped q e s)), Inr [])"
    using Cons.prems by (intro Cons.IH) (auto simp: escaped_Cons)
  ultimately show ?case by (simp add: escaped_Cons feed_append add.assoc)
qed simp

lemma feed_plain:
  "running p \<Longrightarrow> n + length s \<le> MAX_RECORD_BYTES \<Longrightarrow> length f + length s \<le> MAX_FIELD_BYTES \<Longrightarrow>
   set s \<inter> {cb_quote (px_controls p), cb_delimiter (px_controls p), CR, LF} = {} \<Longrightarrow>
   st \<in> {Start, Unquoted} \<Longrightarrow>
     feed s (at_field p fs f False st n)
       = (at_field p fs (f @ s) False (if s = [] then st else Unquoted) (n + length s), Inr [])"
proof (induction s arbitrary: f n st)
  case (Cons b s)
  have "push b (at_field p fs f False st n) = (at_field p fs (f @ [b]) False Unquoted (n + 1), Inr None)"
    using Cons.prems by (intro push_plain) auto
  moreover have "feed s (at_field p fs (f @ [b]) False Unquoted (n + 1))
    = (at_field p fs ((f @ [b]) @ s) False (if s = [] then Unquoted else Unquoted) (n + 1 + length s), Inr [])"
    using Cons.prems by (intro Cons.IH) auto
  ultimately show ?case by simp
qed simp

abbreviation cell :: "string \<Rightarrow> bool \<Rightarrow> csv_cell" where
  "cell f quoted \<equiv> \<lparr>cell_value = f, cell_quoted = quoted\<rparr>"

definition cell_ends :: "field_state set" where
  "cell_ends = {Start, Unquoted, AfterQuote}"

lemma push_delimiter:
  "running p \<Longrightarrow> n < MAX_RECORD_BYTES \<Longrightarrow> length fs + 1 < MAX_COLUMNS \<Longrightarrow> valid_utf8 f \<Longrightarrow> st \<in> cell_ends \<Longrightarrow>
     push (cb_delimiter (px_controls p)) (at_field p fs f quoted st n)
       = (at_field p (fs @ [cell f quoted]) [] False Start (n + 1), Inr None)"
  by (auto simp: step_defs cell_ends_def end_column_def finish_field_def ensure_another_column_def)

lemma push_newline:
  "running p \<Longrightarrow> length fs < MAX_COLUMNS \<Longrightarrow> valid_utf8 f \<Longrightarrow> st \<in> cell_ends \<Longrightarrow>
     push LF (at_field p fs f quoted st n)
       = (at_field (p\<lparr>px_record_number := px_record_number p + 1\<rparr>) [] [] False Start 0,
          Inr (Some (fs @ [cell f quoted])))"
  by (auto simp: step_defs cell_ends_def complete_record_def finish_field_def)

definition cell_text :: "string option \<Rightarrow> csv_options \<Rightarrow> string" where
  "cell_text v opts = (case v of None \<Rightarrow> opt_null_token opts | Some s \<Rightarrow> s)"

text \<open>What the parser makes of an encoded value.\<close>

definition read_cell :: "csv_options \<Rightarrow> string option \<Rightarrow> csv_cell" where
  "read_cell opts v = cell (cell_text v opts) (v \<noteq> None)"

lemma control_bytes_ofD:
  assumes "control_bytes_of opts = Inr c"
  shows "opt_delimiter opts ! 0 = cb_delimiter c" "opt_quote opts ! 0 = cb_quote c"
    "opt_escape opts ! 0 = cb_escape c" "good_controls c"
    "set (opt_null_token opts) \<inter> {cb_quote c, cb_delimiter c, CR, LF} = {}"
    "length (opt_null_token opts) \<le> MAX_NULL_TOKEN_BYTES"
proof -
  have one: "validate_control_byte name v = Inr b \<longleftrightarrow> v = [b] \<and> b \<notin> {NUL, CR, LF}" for name v b
    by (cases "(name, v)" rule: validate_control_byte.cases) auto
  show "opt_delimiter opts ! 0 = cb_delimiter c" "opt_quote opts ! 0 = cb_quote c"
    "opt_escape opts ! 0 = cb_escape c"
    using assms by (auto simp: control_bytes_of_def split: sum.splits)
  from assms obtain d q e where o: "opt_delimiter opts = [d]" "opt_quote opts = [q]" "opt_escape opts = [e]"
    and ctl: "d \<notin> {NUL, CR, LF}" "q \<notin> {NUL, CR, LF}" "e \<notin> {NUL, CR, LF}" "d \<noteq> q"
    and tok: "length (opt_null_token opts) \<le> MAX_NULL_TOKEN_BYTES"
      "\<not> list_ex (\<lambda>b. b \<in> {NUL, CR, LF} \<or> b = d \<or> b = q) (opt_null_token opts)"
    by (auto simp: control_bytes_of_def validate_options_def one split: sum.splits if_splits)
  have c: "c = \<lparr>cb_delimiter = d, cb_quote = q, cb_escape = e\<rparr>"
    using assms o by (auto simp: control_bytes_of_def split: sum.splits)
  show "good_controls c" using ctl by (simp add: c good_controls_def)
  show "length (opt_null_token opts) \<le> MAX_NULL_TOKEN_BYTES" by (rule tok(1))
  show "set (opt_null_token opts) \<inter> {cb_quote c, cb_delimiter c, CR, LF} = {}"
    using tok(2) unfolding list_ex_iff by (auto simp: c)
qed

lemma feed_cell:
  assumes "running p" "n + length (encoding v opts) \<le> MAX_RECORD_BYTES"
    and opts: "control_bytes_of opts = Inr (px_controls p)"
    and len: "length (cell_text v opts) \<le> MAX_FIELD_BYTES"
  shows "\<exists>st\<in>cell_ends. feed (encoding v opts) (at_field p fs [] False Start n)
    = (at_field p fs (cell_text v opts) (v \<noteq> None) st (n + length (encoding v opts)), Inr [])"
proof (cases v)
  case None
  then have "feed (encoding v opts) (at_field p fs [] False Start n)
    = (at_field p fs ([] @ opt_null_token opts) False (if opt_null_token opts = [] then Start else Unquoted)
        (n + length (opt_null_token opts)), Inr [])"
    using assms control_bytes_ofD(5) [OF opts]
    by (subst feed_plain [symmetric]) (auto simp: encoding_def cell_text_def)
  then show ?thesis using None by (auto simp: encoding_def cell_text_def cell_ends_def)
next
  case (Some s)
  define q where "q = cb_quote (px_controls p)"
  define e where "e = cb_escape (px_controls p)"
  have enc: "encoding v opts = q # escaped q e s @ [q]"
    using Some control_bytes_ofD(2,3) [OF opts] by (simp add: encoding_def q_def e_def Let_def)
  have open_q: "push q (at_field p fs [] False Start n) = (at_field p fs [] True Quoted (n + 1), Inr None)"
    unfolding q_def by (rule push_open_quote) (use assms enc in auto)
  have body: "feed (escaped q e s) (at_field p fs [] True Quoted (n + 1))
    = (at_field p fs ([] @ s) True Quoted (n + 1 + length (escaped q e s)), Inr [])"
    by (rule feed_escaped) (use assms enc Some in \<open>auto simp: q_def e_def cell_text_def\<close>)
  have close_q: "push q (at_field p fs s True Quoted (n + 1 + length (escaped q e s)))
    = (at_field p fs s True AfterQuote (n + 1 + length (escaped q e s) + 1), Inr None)"
    unfolding q_def by (rule push_close_quote) (use assms enc in \<open>auto simp: q_def\<close>)
  show ?thesis
    unfolding enc using open_q body close_q Some
    by (intro bexI [of _ AfterQuote]) (simp_all add: feed_append cell_text_def cell_ends_def)
qed

fun row_text :: "csv_options \<Rightarrow> nat \<Rightarrow> string option list \<Rightarrow> string" where
  "row_text opts i [] = []"
| "row_text opts i (v # vs) =
     (if 0 < i then [opt_delimiter opts ! 0] else []) @ encoding v opts @ row_text opts (i + 1) vs"

definition value_fits :: "csv_options \<Rightarrow> string option \<Rightarrow> bool" where
  "value_fits opts v \<longleftrightarrow> length (cell_text v opts) \<le> MAX_FIELD_BYTES \<and> valid_utf8 (cell_text v opts)"

lemma feed_row_rest:
  assumes "running p" and opts: "control_bytes_of opts = Inr (px_controls p)"
  shows "0 < i \<Longrightarrow> n + length (row_text opts i vs) \<le> MAX_RECORD_BYTES \<Longrightarrow>
    length fs + 1 + length vs \<le> MAX_COLUMNS \<Longrightarrow> valid_utf8 f \<Longrightarrow> st \<in> cell_ends \<Longrightarrow>
    list_all (value_fits opts) vs \<Longrightarrow>
    feed (row_text opts i vs @ [LF]) (at_field p fs f quoted st n)
      = (at_field (p\<lparr>px_record_number := px_record_number p + 1\<rparr>) [] [] False Start 0,
         Inr [fs @ [cell f quoted] @ map (read_cell opts) vs])"
proof (induction vs arbitrary: i fs f quoted st n)
  case Nil
  then show ?case using push_newline [OF assms(1)] by simp
next
  case (Cons v vs)
  have d: "push (opt_delimiter opts ! 0) (at_field p fs f quoted st n)
    = (at_field p (fs @ [cell f quoted]) [] False Start (n + 1), Inr None)"
    unfolding control_bytes_ofD(1) [OF opts]
    by (rule push_delimiter) (use assms Cons.prems in auto)
  obtain st' where st': "st' \<in> cell_ends"
    "feed (encoding v opts) (at_field p (fs @ [cell f quoted]) [] False Start (n + 1))
     = (at_field p (fs @ [cell f quoted]) (cell_text v opts) (v \<noteq> None) st'
          (n + 1 + length (encoding v opts)), Inr [])"
    using feed_cell [OF assms(1) _ opts, of "n + 1" v "fs @ [cell f quoted]"] Cons.prems
    by (auto simp: value_fits_def)
  have "feed (row_text opts (i + 1) vs @ [LF])
      (at_field p (fs @ [cell f quoted]) (cell_text v opts) (v \<noteq> None) st' (n + 1 + length (encoding v opts)))
    = (at_field (p\<lparr>px_record_number := px_record_number p + 1\<rparr>) [] [] False Start 0,
       Inr [(fs @ [cell f quoted]) @ [cell (cell_text v opts) (v \<noteq> None)] @ map (read_cell opts) vs])"
    using Cons.prems st'(1) by (intro Cons.IH) (auto simp: value_fits_def)
  then show ?case
    using d st'(2) Cons.prems(1) by (simp add: feed_append read_cell_def)
qed

lemma feed_row:
  assumes "running p" "control_bytes_of opts = Inr (px_controls p)" "vs \<noteq> []"
    and "length (row_text opts 0 vs) \<le> MAX_RECORD_BYTES" "length vs \<le> MAX_COLUMNS"
    and "list_all (value_fits opts) vs"
  shows "feed (row_text opts 0 vs @ [LF]) (at_field p [] [] False Start 0)
      = (at_field (p\<lparr>px_record_number := px_record_number p + 1\<rparr>) [] [] False Start 0,
         Inr [map (read_cell opts) vs])"
proof -
  obtain v rest where vs: "vs = v # rest" using assms(3) by (cases vs) auto
  obtain st where st: "st \<in> cell_ends" "feed (encoding v opts) (at_field p [] [] False Start 0)
     = (at_field p [] (cell_text v opts) (v \<noteq> None) st (0 + length (encoding v opts)), Inr [])"
    using feed_cell [OF assms(1) _ assms(2), of 0 v "[]"] assms(4,6) by (auto simp: vs value_fits_def)
  have "feed (row_text opts 1 rest @ [LF]) (at_field p [] (cell_text v opts) (v \<noteq> None) st (0 + length (encoding v opts)))
    = (at_field (p\<lparr>px_record_number := px_record_number p + 1\<rparr>) [] [] False Start 0,
       Inr [[] @ [cell (cell_text v opts) (v \<noteq> None)] @ map (read_cell opts) rest])"
    using assms st(1) by (intro feed_row_rest) (auto simp: vs value_fits_def)
  then show ?thesis using st(2) by (simp add: vs feed_append read_cell_def)
qed

text \<open>What \<open>send_record\<close> writes.\<close>

definition sent_value :: "csv_options \<Rightarrow> csv_cell \<Rightarrow> string option" where
  "sent_value opts c = (if is_null opts c then None else Some (cell_value c))"

lemma send_cells_Some:
  "send_cells rec opts i mapping = Some (Inr chunks) \<Longrightarrow>
     list_all (\<lambda>(k, _). k < length rec) mapping \<and> list_all (\<lambda>c. length c \<le> CSV_OUTPUT_CHUNK_BYTES) chunks
     \<and> concat chunks = row_text opts i (map (\<lambda>(k, _). sent_value opts (rec ! k)) mapping)"
proof (induction mapping arbitrary: i chunks)
  case (Cons m mapping)
  obtain k target where m: "m = (k, target)" by (cases m)
  note sent = Cons.prems [unfolded m send_cells.simps, folded sent_value_def]
  obtain c where c: "get rec k = Some c" using sent by (cases "get rec k") auto
  obtain enc where enc: "encode_cell (sent_value opts c) opts = Inr enc"
    using sent c by (cases "encode_cell (sent_value opts c) opts") auto
  obtain cs where cs: "drain enc = Some cs" using sent c enc by (cases "drain enc") auto
  obtain rest where rest: "send_cells rec opts (i + 1) mapping = Some (Inr rest)"
    using sent c enc cs by (auto split: option.splits sum.splits)
  have chunks: "chunks = (if 0 < i then [[opt_delimiter opts ! 0]] else []) @ cs @ rest"
    using sent c enc cs rest by simp
  have "list_all chunk_ok cs" "concat cs = encoding (sent_value opts c) opts"
    using encode_cell_drains [OF enc] cs by auto
  then show ?case
    using Cons.IH [OF rest] c chunks
    by (auto simp: m get_Some_iff chunk_ok_def list_all_iff CSV_OUTPUT_CHUNK_BYTES_def)
qed simp

section \<open>Files\<close>

text \<open>Every Rust \<open>String\<close> is valid UTF-8, so a one-byte option is an ASCII byte.\<close>

definition options_utf8 :: "csv_options \<Rightarrow> bool" where
  "options_utf8 opts \<longleftrightarrow> valid_utf8 (opt_delimiter opts) \<and> valid_utf8 (opt_quote opts)
     \<and> valid_utf8 (opt_escape opts) \<and> valid_utf8 (opt_null_token opts)"

lemma valid_utf8_single: "valid_utf8 [b] \<Longrightarrow> byte b < 128"
  by (auto simp: valid_utf8.simps(2) between_def split: if_splits)

lemma control_bytes_ascii:
  assumes "control_bytes_of opts = Inr c" "options_utf8 opts"
  shows "byte (cb_delimiter c) < 128" "byte (cb_quote c) < 128"
proof -
  have one: "validate_control_byte name v = Inr b \<Longrightarrow> v = [b]" for name v b
    by (cases "(name, v)" rule: validate_control_byte.cases) (auto split: if_splits)
  obtain d q where "validate_control_byte ''delimiter'' (opt_delimiter opts) = Inr d"
    "validate_control_byte ''quote'' (opt_quote opts) = Inr q"
    using assms(1)
    by (auto simp: control_bytes_of_def validate_options_def simp del: validate_control_byte.simps
        split: sum.splits)
  then have "opt_delimiter opts = [d]" "opt_quote opts = [q]" by (simp_all add: one del: validate_control_byte.simps)
  moreover from this have "valid_utf8 [d]" "valid_utf8 [q]"
    using assms(2) by (simp_all add: options_utf8_def)
  ultimately show "byte (cb_delimiter c) < 128" "byte (cb_quote c) < 128"
    using control_bytes_ofD(1,2) [OF assms(1)] valid_utf8_single [of d] valid_utf8_single [of q] by auto
qed

definition no_bom :: "string \<Rightarrow> bool" where
  "no_bom s \<longleftrightarrow> get s 0 \<noteq> Some (CHR 0xEF)"

lemma feed_resolves_bom:
  assumes "no_bom s" "s \<noteq> []" "px_bom_prefix p = []" "\<not> px_finished p" "\<not> px_failed p"
  shows "feed s p = feed s (p\<lparr>px_bom_resolved := True\<rparr>)"
proof -
  obtain b r where s: "s = b # r" using assms(2) by (cases s) auto
  have b: "b \<noteq> CHR 0xEF" using assms(1) by (auto simp: s no_bom_def)
  have p: "p\<lparr>px_bom_resolved := True, px_bom_prefix := []\<rparr> = p\<lparr>px_bom_resolved := True\<rparr>"
    using assms(3) by (cases p) simp
  have "push b p = push b (p\<lparr>px_bom_resolved := True\<rparr>)"
  proof (cases "px_bom_resolved p")
    case True
    then have "p\<lparr>px_bom_resolved := True\<rparr> = p" by (cases p) simp
    then show ?thesis by simp
  next
    case False
    then show ?thesis
      using assms(3-5) b by (simp add: push_def push_with_bom_def UTF8_BOM_def) (simp only: p)
  qed
  then show ?thesis by (simp add: s)
qed

lemma row_text_no_bom:
  assumes "control_bytes_of opts = Inr c" "options_utf8 opts" "no_bom (opt_null_token opts)"
  shows "no_bom (row_text opts 0 vs @ [LF])"
proof -
  have ascii: "byte (opt_delimiter opts ! 0) < 128" "byte (opt_quote opts ! 0) < 128"
    using control_bytes_ascii [OF assms(1,2)] control_bytes_ofD(1,2) [OF assms(1)] by simp_all
  have first: "no_bom (b # s)" if "byte b < 128" for b s
    using that by (auto simp: no_bom_def byte_def)
  have LF: "byte LF < 128" by (simp add: byte_def)
  have rest: "no_bom (row_text opts 1 us @ [LF])" for us
    by (cases us) (simp_all add: first ascii LF)
  show ?thesis
  proof (cases vs)
    case Nil
    then show ?thesis by (simp add: first LF)
  next
    case (Cons v us)
    show ?thesis
    proof (cases v)
      case None
      then show ?thesis using Cons rest assms(3)
        by (cases "opt_null_token opts") (auto simp: encoding_def no_bom_def)
    next
      case (Some s)
      then show ?thesis using Cons by (simp add: first encoding_def Let_def ascii)
    qed
  qed
qed

definition clean :: "parser \<Rightarrow> bool" where
  "clean p \<longleftrightarrow> px_fields p = [] \<and> px_field p = [] \<and> \<not> px_field_quoted p \<and> px_field_state p = Start
     \<and> px_record_bytes p = 0 \<and> \<not> px_record_started p"

lemma clean_at_field: "clean p \<longleftrightarrow> at_field p [] [] False Start 0 = p"
  by (cases p) (auto simp: clean_def at_field_def)

definition record_fits :: "csv_options \<Rightarrow> (nat \<times> string) list \<Rightarrow> csv_cell list \<Rightarrow> string list \<Rightarrow> bool" where
  "record_fits opts mapping rec chunks \<longleftrightarrow>
     send_record rec mapping opts = Some (Inr chunks) \<and> list_all cell_ok rec
     \<and> length (concat chunks) \<le> MAX_RECORD_BYTES + 1"

definition picked :: "csv_options \<Rightarrow> (nat \<times> string) list \<Rightarrow> csv_cell list \<Rightarrow> csv_cell list" where
  "picked opts mapping rec = map (\<lambda>(k, _). read_cell opts (sent_value opts (rec ! k))) mapping"

lemma feed_sent_record:
  assumes "running p" "clean p" "control_bytes_of opts = Inr (px_controls p)"
    and "record_fits opts mapping rec chunks" "mapping \<noteq> []" "length mapping \<le> MAX_COLUMNS"
    and "valid_utf8 (opt_null_token opts)"
  shows "feed (concat chunks) p
    = (p\<lparr>px_record_number := px_record_number p + 1\<rparr>, Inr [picked opts mapping rec])"
proof -
  define vs where "vs = map (\<lambda>(k, _). sent_value opts (rec ! k)) mapping"
  obtain cs where cs: "send_cells rec opts 0 mapping = Some (Inr cs)" "chunks = cs @ [[LF]]"
    using assms(4) by (auto simp: record_fits_def send_record_def split: option.splits sum.splits)
  note sent = send_cells_Some [OF cs(1)]
  have bytes: "concat chunks = row_text opts 0 vs @ [LF]" using sent cs(2) by (simp add: vs_def)
  have "value_fits opts (sent_value opts (rec ! k))" if "k < length rec" for k
    using assms(4,7) control_bytes_ofD(6) [OF assms(3)] that
    by (auto simp: value_fits_def sent_value_def cell_text_def record_fits_def cell_ok_def list_all_length
        MAX_NULL_TOKEN_BYTES_def MAX_FIELD_BYTES_def)
  then have fits: "list_all (value_fits opts) vs" using sent by (auto simp: vs_def list_all_iff)
  have "feed (row_text opts 0 vs @ [LF]) (at_field p [] [] False Start 0)
      = (at_field (p\<lparr>px_record_number := px_record_number p + 1\<rparr>) [] [] False Start 0,
         Inr [map (read_cell opts) vs])"
    using assms bytes fits by (intro feed_row) (auto simp: vs_def record_fits_def)
  moreover have "at_field (p\<lparr>px_record_number := px_record_number p + 1\<rparr>) [] [] False Start 0
      = p\<lparr>px_record_number := px_record_number p + 1\<rparr>"
    using assms(2) by (simp add: clean_at_field [symmetric]) (simp add: clean_def)
  moreover have "map (read_cell opts) vs = picked opts mapping rec"
    by (auto simp: vs_def picked_def)
  ultimately show ?thesis using assms(2) by (simp add: bytes clean_at_field)
qed

lemma feed_sent_records:
  assumes "control_bytes_of opts = Inr c" "mapping \<noteq> []" "length mapping \<le> MAX_COLUMNS"
    and "valid_utf8 (opt_null_token opts)"
  shows "list_all2 (record_fits opts mapping) recs chs \<Longrightarrow> running p \<Longrightarrow> clean p \<Longrightarrow> px_controls p = c \<Longrightarrow>
    feed (concat (concat chs)) p
      = (p\<lparr>px_record_number := px_record_number p + length recs\<rparr>, Inr (map (picked opts mapping) recs))"
proof (induction arbitrary: p rule: list_all2_induct)
  case (Cons rec recs chunks chs)
  let ?p = "p\<lparr>px_record_number := px_record_number p + 1\<rparr>"
  have "feed (concat chunks) p = (?p, Inr [picked opts mapping rec])"
    using Cons.prems Cons.hyps(1) assms by (intro feed_sent_record) auto
  moreover have "running ?p" "clean ?p" "px_controls ?p = c"
    using Cons.prems by (simp_all add: running_def clean_def)
  ultimately show ?case using Cons.IH [of ?p] by (simp add: feed_append)
qed simp

lemma picked_same:
  "list_all2 (\<lambda>c (k, _). cell_value c = cell_value (rec ! k) \<and> is_null opts c = is_null opts (rec ! k))
    (picked opts mapping rec) mapping"
  by (induction mapping)
    (auto simp: picked_def read_cell_def sent_value_def cell_text_def is_null_def split: if_splits)

end
