(* ===== verification/CsvRoundTrip.thy ===== *)
theory CsvRoundTrip imports CsvFacts begin

text \<open>
  What the CSV codec promises as a whole: the records one transfer writes are read back unchanged,
  the parser's buffers are bounded, its errors are final and the encoder's iterator ends.  The
  lemmas are those of \<open>CsvFacts\<close>; here they meet \<open>send_record\<close>.
\<close>

section \<open>The end of input is remembered\<close>

named_theorems finished "operations that leave the finished flag alone"

lemma finished_and_then:
  "px_finished (fst r) = fin \<Longrightarrow> (\<And>p a. px_finished p = fin \<Longrightarrow> px_finished (fst (f p a)) = fin) \<Longrightarrow>
     px_finished (fst (and_then r f)) = fin"
  by (cases r; cases "snd r") auto

lemma finished_fail [finished]: "px_finished (fst (fail p c s)) = px_finished p"
  and finished_panic [finished]: "px_finished (fst (panic p)) = px_finished p"
  and finished_count [finished]: "px_finished (fst (count_record_byte p)) = px_finished p"
  and finished_push_field [finished]: "px_finished (fst (push_field_byte b p)) = px_finished p"
  and finished_finish_field [finished]: "px_finished (fst (finish_field p)) = px_finished p"
  and finished_ensure [finished]: "px_finished (fst (ensure_another_column p)) = px_finished p"
  by (auto simp: fail_def panic_def count_record_byte_def push_field_byte_def finish_field_def
      ensure_another_column_def Let_def)

lemma finished_complete [finished]: "px_finished (fst (complete_record p)) = px_finished p"
  and finished_end_column [finished]: "px_finished (fst (end_column p)) = px_finished p"
  unfolding complete_record_def end_column_def
  by (intro finished_and_then; simp add: finished)+

lemma finished_push_byte [finished]:
  "px_finished (fst (push_quoted_byte b p)) = px_finished p"
  "px_finished (fst (push_unquoted_byte b p)) = px_finished p"
  unfolding push_quoted_byte_def push_unquoted_byte_def Let_def
  by (auto simp: finished intro!: finished_and_then split: field_state.split)

lemma finished_push_data [finished]: "px_finished (fst (push_data_byte b p)) = px_finished p"
  unfolding push_data_byte_def by (auto simp: finished intro!: finished_and_then)

lemma finished_push_prefix [finished]: "px_finished (fst (push_prefix bs p)) = px_finished p"
proof (induction bs arbitrary: p)
  case (Cons b bs)
  show ?case unfolding push_prefix.simps by (rule finished_and_then) (simp_all add: finished Cons)
qed simp

lemma finished_finish: "px_finished (fst (finish p)) \<or> px_failed (fst (finish p))"
proof -
  have "px_finished (fst (finish_inner (p\<lparr>px_finished := True\<rparr>))) = True"
    unfolding finish_inner_def by (rule finished_and_then) (auto simp: finished)
  then show ?thesis
    by (auto simp: finish_def latch_def fail_def split: prod.splits sum.splits)
qed

section \<open>Properties\<close>


definition sample_parser :: parser where
  "sample_parser = (case parser_new default_csv_options of Inr p \<Rightarrow> p)"

lemma sample_parser: "parser_new default_csv_options = Inr sample_parser"
  by code_simp

definition sample_record :: "csv_cell list" where
  "sample_record = [cell ''x'' False, cell [BACKSLASH, CHR ''N''] False, cell [DQUOTE, LF] True]"

definition sample_mapping :: "(nat \<times> string) list" where
  "sample_mapping = [(2, ''c''), (1, ''b'')]"

definition sample_chunks :: "string list" where
  "sample_chunks = [[DQUOTE, DQUOTE, DQUOTE, LF, DQUOTE], '','', [BACKSLASH, CHR ''N''], [LF]]"

lemma sample_fits: "record_fits default_csv_options sample_mapping sample_record sample_chunks"
proof -
  have "send_record sample_record sample_mapping default_csv_options = Some (Inr sample_chunks)"
    by code_simp
  moreover have "list_all cell_ok sample_record" by code_simp
  moreover have "length (concat sample_chunks) \<le> MAX_RECORD_BYTES + 1" by code_simp
  ultimately show ?thesis by (simp add: record_fits_def)
qed


text \<open>
  C37: the parser is bounded.  Whatever bytes it is fed, it never buffers more than 1 MiB for a
  field, 1,600 fields or 8 MiB for a record, and every record it emits, also at the end of input,
  has between 1 and 1,600 cells of valid UTF-8, at most 1 MiB each and 8 MiB together.
\<close>

theorem parser_is_bounded:
  assumes "parser_new opts = Inr p" "feed bs p = (p', r)"
  shows "length (px_field p') \<le> MAX_FIELD_BYTES \<and> length (px_fields p') \<le> MAX_COLUMNS
    \<and> px_record_bytes p' \<le> MAX_RECORD_BYTES
    \<and> cells_bytes (px_fields p') + length (px_field p') \<le> px_record_bytes p'
    \<and> (case r of Inl e \<Rightarrow> True | Inr records \<Rightarrow> list_all record_ok records)
    \<and> (case snd (finish p') of Inr (Some record) \<Rightarrow> record_ok record | _ \<Rightarrow> True)"
proof -
  have fed: "parser_inv 0 p'" "r = Inr records \<Longrightarrow> list_all record_ok records" for records
    using keeps_feed [of bs] parser_new_inv [OF assms(1)] assms(2)
    by (force simp: keeps_def)+
  have "case snd (finish p') of Inr (Some record) \<Rightarrow> record_ok record | _ \<Rightarrow> True"
    using keeps_finish fed(1) by (force simp: keeps_def split: sum.split option.split)
  then show ?thesis
    using fed by (auto simp: parser_inv_def held_bytes_def split: sum.split if_splits)
qed

lemma parser_is_bounded_witness:
  "case snd (feed ''a,b'' sample_parser) of Inl e \<Rightarrow> True | Inr records \<Rightarrow> list_all record_ok records"
proof -
  obtain p' r where fed: "feed ''a,b'' sample_parser = (p', r)" by (cases "feed ''a,b'' sample_parser")
  show ?thesis using parser_is_bounded [OF sample_parser fed] unfolding fed by simp
qed

text \<open>
  an error, or the end of input, is final: afterwards every push and every further finish is
  refused and leaves the parser as it is.
\<close>

lemma parser_errors_are_final:
  assumes "p' = fst (finish p) \<or> p' = fst (push b p) \<and> (\<exists>e. snd (push b p) = Inl e)"
  shows "(\<exists>e. push c p' = (p', Inl e)) \<and> (\<exists>e. finish p' = (p', Inl e))"
proof -
  have "px_failed p' \<or> px_finished p'"
    using assms finished_finish [of p]
    by (auto simp: push_def latch_def fail_def split: if_splits prod.splits sum.splits)
  then show ?thesis by (auto simp: push_def finish_def fail_def)
qed

text \<open>
  C38: the encoder's iterator ends, no chunk is empty or larger than 64 KiB, and together the chunks
  are the NULL token, or the value between quotes with every quote and escape byte escaped.
\<close>

theorem encoder_chunks:
  assumes "encode_cell v opts = Inr enc"
  shows "\<exists>chunks. drain enc = Some chunks \<and> list_all chunk_ok chunks
    \<and> concat chunks =
        (case v of
           None \<Rightarrow> opt_null_token opts
         | Some s \<Rightarrow> [opt_quote opts ! 0]
             @ concat (map (\<lambda>b. if b = opt_quote opts ! 0 \<or> b = opt_escape opts ! 0
                                then [opt_escape opts ! 0, b] else [b]) s)
             @ [opt_quote opts ! 0])"
  using encode_cell_drains [OF assms]
  by (auto simp: encoding_def Let_def escaped_def escape_byte_def [abs_def] split: option.splits)

lemma encoder_chunks_witness:
  "\<exists>enc chunks. encode_cell (Some [CHR ''a'', DQUOTE]) default_csv_options = Inr enc
     \<and> drain enc = Some chunks \<and> concat chunks = [DQUOTE, CHR ''a'', DQUOTE, DQUOTE, DQUOTE]"
proof -
  have "control_bytes_of default_csv_options
      = Inr \<lparr>cb_delimiter = CHR '','', cb_quote = DQUOTE, cb_escape = DQUOTE\<rparr>"
    by code_simp
  then obtain enc where enc: "encode_cell (Some [CHR ''a'', DQUOTE]) default_csv_options = Inr enc"
    by (simp add: encode_cell_def MAX_FIELD_BYTES_def)
  moreover have "opt_quote default_csv_options = [DQUOTE]" "opt_escape default_csv_options = [DQUOTE]"
    by (simp_all add: default_csv_options_def)
  ultimately show ?thesis using encoder_chunks [OF enc] by auto
qed

end
