(* ===== verification/SchemaModel.thy ===== *)
theory SchemaModel imports Prelude begin

text \<open>
  The engine-neutral table model of the schema editor (\<open>schema_edit/model.rs\<close>) and its change
  list and plan steps (\<open>schema_edit/change.rs\<close>).  A \<open>schema_baseline\<close> is one captured table, a
  \<open>schema_draft\<close> an editable copy of it; every column, key, index and constraint carries an
  \<open>origin\<close>.  Text is its UTF-8 bytes; a \<open>u64\<close> identity is a \<open>nat\<close> whose one arithmetic
  operation saturates at \<open>u64_max\<close> as the source's does.
\<close>

section \<open>Limits, engines and servers\<close>

definition MAX_SCHEMA_EDIT_COLUMNS :: nat where "MAX_SCHEMA_EDIT_COLUMNS = 4096"
definition MAX_SCHEMA_EDIT_OBJECTS :: nat where "MAX_SCHEMA_EDIT_OBJECTS = 1024"
definition MAX_SCHEMA_EDIT_MEMBERS :: nat where "MAX_SCHEMA_EDIT_MEMBERS = 64"
definition MAX_SCHEMA_EDIT_NAME_BYTES :: nat where "MAX_SCHEMA_EDIT_NAME_BYTES = 256"
definition MAX_SCHEMA_EDIT_COMMENT_BYTES :: nat where "MAX_SCHEMA_EDIT_COMMENT_BYTES = 16 * 1024"

definition u64_max :: nat where "u64_max = 2 ^ 64 - 1"

datatype schema_engine = PgEngine | MySqlEngine | SqliteEngine

fun engine_label :: "schema_engine \<Rightarrow> string" where
  "engine_label PgEngine = ''PostgreSQL''"
| "engine_label MySqlEngine = ''MySQL''"
| "engine_label SqliteEngine = ''SQLite''"

datatype server_flavor = PgServer | MySqlServer | MariaDbServer | SqliteServer

record server_features =
  rename_column :: bool
  drop_column :: bool
  instant_add_column :: bool
  instant_add_column_anywhere :: bool
  enforced_check :: bool
  column_reorder :: bool
  transactional_ddl :: bool

record server_facts =
  sf_flavor :: server_flavor
  sf_version :: string
  sf_features :: server_features

datatype drift_token = DriftToken string

datatype editability = Editable | ReadOnly "string list"

fun is_editable :: "editability \<Rightarrow> bool" where
  "is_editable Editable \<longleftrightarrow> True"
| "is_editable (ReadOnly reasons) \<longleftrightarrow> False"

section \<open>Origins\<close>

datatype origin = Existing nat | New nat

fun is_new :: "origin \<Rightarrow> bool" where
  "is_new (New n) \<longleftrightarrow> True"
| "is_new (Existing n) \<longleftrightarrow> False"

fun existing :: "origin \<Rightarrow> nat option" where
  "existing (Existing n) = Some n"
| "existing (New n) = None"

lemma is_new_iff: "is_new x \<longleftrightarrow> (\<exists>n. x = New n)"
  by (cases x) auto

lemma existing_iff [simp]: "existing x = Some n \<longleftrightarrow> x = Existing n"
  by (cases x) auto

text \<open>The derived order: an existing object comes before a new one, then the ids decide.\<close>

instantiation origin :: linorder
begin

fun less_eq_origin :: "origin \<Rightarrow> origin \<Rightarrow> bool" where
  "less_eq_origin (Existing a) (Existing b) \<longleftrightarrow> a \<le> b"
| "less_eq_origin (Existing a) (New b) \<longleftrightarrow> True"
| "less_eq_origin (New a) (Existing b) \<longleftrightarrow> False"
| "less_eq_origin (New a) (New b) \<longleftrightarrow> a \<le> b"

definition less_origin :: "origin \<Rightarrow> origin \<Rightarrow> bool" where
  "less_origin x y \<longleftrightarrow> x \<le> y \<and> \<not> y \<le> (x :: origin)"

instance
proof
  fix x y z :: origin
  show "x < y \<longleftrightarrow> x \<le> y \<and> \<not> y \<le> x" by (rule less_origin_def)
  show "x \<le> x" by (cases x) auto
  show "x \<le> z" if "x \<le> y" "y \<le> z" using that by (cases x; cases y; cases z) auto
  show "x = y" if "x \<le> y" "y \<le> x" using that by (cases x; cases y) auto
  show "x \<le> y \<or> y \<le> x" by (cases x; cases y) auto
qed

end

section \<open>Columns\<close>

datatype sql_fragment = SqlFragment (fragment_text: string)

datatype default_value = NoDefault | Literal string | Expression sql_fragment

fun is_no_default :: "default_value \<Rightarrow> bool" where
  "is_no_default NoDefault \<longleftrightarrow> True"
| "is_no_default _ \<longleftrightarrow> False"

record generated =
  ge_expression :: sql_fragment
  ge_stored :: bool

datatype identity = NoIdentity | Always | ByDefault | AutoIncrement

record column_extra =
  ex_charset :: "string option"
  ex_on_update :: "sql_fragment option"
  ex_invisible :: bool

definition default_column_extra :: column_extra where
  "default_column_extra = \<lparr>ex_charset = None, ex_on_update = None, ex_invisible = False\<rparr>"

record column_model =
  co_origin :: origin
  co_name :: string
  co_data_type :: string
  co_nullable :: bool
  co_default :: default_value
  co_generated :: "generated option"
  co_identity :: identity
  co_collation :: "string option"
  co_comment :: "string option"
  co_extra :: column_extra

definition column_new :: "origin \<Rightarrow> string \<Rightarrow> string \<Rightarrow> column_model" where
  "column_new origin name data_type =
     \<lparr>co_origin = origin, co_name = name, co_data_type = data_type, co_nullable = True,
      co_default = NoDefault, co_generated = None, co_identity = NoIdentity,
      co_collation = None, co_comment = None, co_extra = default_column_extra\<rparr>"

section \<open>Keys, checks and indexes\<close>

record key_model =
  ke_origin :: origin
  ke_name :: "string option"
  ke_columns :: "origin list"

datatype referential_action = NoAction | Restrict | Cascade | SetNull | SetDefault

fun referential_sql :: "referential_action \<Rightarrow> string" where
  "referential_sql NoAction = ''NO ACTION''"
| "referential_sql Restrict = ''RESTRICT''"
| "referential_sql Cascade = ''CASCADE''"
| "referential_sql SetNull = ''SET NULL''"
| "referential_sql SetDefault = ''SET DEFAULT''"

datatype deferrable = NeverDeferred | InitiallyImmediate | InitiallyDeferred

record foreign_key_model =
  fk_origin :: origin
  fk_name :: "string option"
  fk_columns :: "origin list"
  fk_referenced_schema :: "string option"
  fk_referenced_table :: string
  fk_referenced_columns :: "string list"
  fk_on_update :: referential_action
  fk_on_delete :: referential_action
  fk_deferrable :: deferrable

record check_model =
  ck_origin :: origin
  ck_name :: "string option"
  ck_expression :: sql_fragment
  ck_enforced :: bool

datatype index_target = TargetColumn origin | TargetExpression sql_fragment

record index_member =
  im_target :: index_target
  im_descending :: bool
  im_prefix_length :: "nat option"
  im_collation :: "string option"

definition member_of_column :: "origin \<Rightarrow> index_member" where
  "member_of_column origin = \<lparr>im_target = TargetColumn origin, im_descending = False,
     im_prefix_length = None, im_collation = None\<rparr>"

record index_model =
  ix_origin :: origin
  ix_name :: string
  ix_unique :: bool
  ix_method :: "string option"
  ix_members :: "index_member list"
  ix_include :: "origin list"
  ix_predicate :: "sql_fragment option"

definition index_uses :: "index_model \<Rightarrow> origin \<Rightarrow> bool" where
  "index_uses index origin \<longleftrightarrow>
     origin \<in> set (ix_include index)
     \<or> list_ex (\<lambda>m. im_target m = TargetColumn origin) (ix_members index)"

text \<open>The columns among the members, in order.\<close>

definition target_columns :: "index_model \<Rightarrow> origin list" where
  "target_columns i = List.map_filter (\<lambda>m. case im_target m of
       TargetColumn x \<Rightarrow> Some x | TargetExpression sql \<Rightarrow> None) (ix_members i)"

section \<open>Tables\<close>

record table_options =
  op_strict :: bool
  op_without_rowid :: bool
  op_engine :: "string option"
  op_charset :: "string option"
  op_collation :: "string option"
  op_row_format :: "string option"

record table_model =
  ta_schema :: string
  ta_name :: string
  ta_comment :: "string option"
  ta_columns :: "column_model list"
  ta_primary_key :: "key_model option"
  ta_uniques :: "key_model list"
  ta_foreign_keys :: "foreign_key_model list"
  ta_checks :: "check_model list"
  ta_indexes :: "index_model list"
  ta_options :: table_options

text \<open>\<open>as_slice\<close> of an option, which is also what its iterator yields.\<close>

fun as_slice :: "'a option \<Rightarrow> 'a list" where
  "as_slice None = []"
| "as_slice (Some x) = [x]"

definition column_of :: "table_model \<Rightarrow> origin \<Rightarrow> column_model option" where
  "column_of table origin = find (\<lambda>c. co_origin c = origin) (ta_columns table)"

text \<open>\<open>column_mut\<close> and the assignment through it: the first column of that origin.\<close>

definition column_mut :: "table_model \<Rightarrow> origin \<Rightarrow> (column_model \<Rightarrow> column_model) \<Rightarrow> table_model" where
  "column_mut table origin f =
     table\<lparr>ta_columns := update_first (\<lambda>c. co_origin c = origin) f (ta_columns table)\<rparr>"

definition column_name :: "table_model \<Rightarrow> origin \<Rightarrow> string option" where
  "column_name table origin = map_option co_name (column_of table origin)"

definition column_names :: "table_model \<Rightarrow> origin list \<Rightarrow> string list" where
  "column_names table origins =
     map (\<lambda>x. case column_name table x of None \<Rightarrow> ''?'' | Some n \<Rightarrow> n) origins"

definition table_keys :: "table_model \<Rightarrow> key_model list" where
  "table_keys table = as_slice (ta_primary_key table) @ ta_uniques table"

definition key_of :: "table_model \<Rightarrow> origin \<Rightarrow> key_model option" where
  "key_of table origin = find (\<lambda>k. ke_origin k = origin) (table_keys table)"

definition foreign_key_of :: "table_model \<Rightarrow> origin \<Rightarrow> foreign_key_model option" where
  "foreign_key_of table origin = find (\<lambda>k. fk_origin k = origin) (ta_foreign_keys table)"

definition check_of :: "table_model \<Rightarrow> origin \<Rightarrow> check_model option" where
  "check_of table origin = find (\<lambda>c. ck_origin c = origin) (ta_checks table)"

definition index_of :: "table_model \<Rightarrow> origin \<Rightarrow> index_model option" where
  "index_of table origin = find (\<lambda>i. ix_origin i = origin) (ta_indexes table)"

definition column_is_referenced :: "table_model \<Rightarrow> origin \<Rightarrow> bool" where
  "column_is_referenced table origin \<longleftrightarrow>
     list_ex (\<lambda>k. origin \<in> set (ke_columns k)) (table_keys table)
     \<or> list_ex (\<lambda>k. origin \<in> set (fk_columns k)) (ta_foreign_keys table)
     \<or> list_ex (\<lambda>i. index_uses i origin) (ta_indexes table)"

section \<open>Baselines and drafts\<close>

record inbound_reference =
  in_schema :: string
  in_table :: string
  in_name :: string
  in_columns :: "string list"

record dependent =
  de_kind :: string
  de_schema :: string
  de_name :: string
  de_definition :: "string option"

record schema_baseline =
  sb_engine :: schema_engine
  sb_server :: server_facts
  sb_table :: table_model
  sb_drift :: drift_token
  sb_editable :: editability
  sb_inbound :: "inbound_reference list"
  sb_dependents :: "dependent list"
  sb_estimated_rows :: "nat option"

record schema_draft =
  dr_table :: table_model
  dr_next_id :: nat

definition from_baseline :: "schema_baseline \<Rightarrow> schema_draft" where
  "from_baseline baseline = \<lparr>dr_table = sb_table baseline, dr_next_id = 1\<rparr>"

definition new_origin :: "schema_draft \<Rightarrow> origin \<times> schema_draft" where
  "new_origin d = (New (dr_next_id d), d\<lparr>dr_next_id := min (dr_next_id d + 1) u64_max\<rparr>)"

definition add_column :: "string \<Rightarrow> string \<Rightarrow> schema_draft \<Rightarrow> origin \<times> schema_draft" where
  "add_column name data_type d =
     (let (origin, d) = new_origin d; t = dr_table d in
      (origin, d\<lparr>dr_table := t\<lparr>ta_columns := ta_columns t @ [column_new origin name data_type]\<rparr>\<rparr>))"

definition drop_table_references :: "origin \<Rightarrow> table_model \<Rightarrow> table_model" where
  "drop_table_references origin t =
     t\<lparr>ta_primary_key :=
         (case ta_primary_key t of
            Some k \<Rightarrow> if origin \<in> set (ke_columns k) then None else Some k
          | None \<Rightarrow> None),
       ta_uniques := filter (\<lambda>k. origin \<notin> set (ke_columns k)) (ta_uniques t),
       ta_foreign_keys := filter (\<lambda>k. origin \<notin> set (fk_columns k)) (ta_foreign_keys t),
       ta_indexes := filter (\<lambda>i. \<not> index_uses i origin) (ta_indexes t)\<rparr>"

definition drop_references :: "origin \<Rightarrow> schema_draft \<Rightarrow> schema_draft" where
  "drop_references origin d = d\<lparr>dr_table := drop_table_references origin (dr_table d)\<rparr>"

definition remove_column :: "origin \<Rightarrow> schema_draft \<Rightarrow> bool \<times> schema_draft" where
  "remove_column origin d =
     (let t = dr_table d; kept = filter (\<lambda>c. co_origin c \<noteq> origin) (ta_columns t) in
      if length kept = length (ta_columns t) then (False, d)
      else (True, drop_references origin (d\<lparr>dr_table := t\<lparr>ta_columns := kept\<rparr>\<rparr>)))"

text \<open>\<open>Vec::insert\<close> and \<open>Vec::remove\<close>; both are only used in range.\<close>

definition insert_at :: "nat \<Rightarrow> 'a \<Rightarrow> 'a list \<Rightarrow> 'a list" where
  "insert_at i x xs = take i xs @ x # drop i xs"

definition remove_at :: "nat \<Rightarrow> 'a list \<Rightarrow> 'a list" where
  "remove_at i xs = take i xs @ drop (Suc i) xs"

fun index_where :: "('a \<Rightarrow> bool) \<Rightarrow> 'a list \<Rightarrow> nat option" where
  "index_where p [] = None"
| "index_where p (x # xs) = (if p x then Some 0 else map_option Suc (index_where p xs))"

definition move_column :: "origin \<Rightarrow> nat \<Rightarrow> schema_draft \<Rightarrow> bool \<times> schema_draft" where
  "move_column origin pos d =
     (let t = dr_table d in
      case index_where (\<lambda>c. co_origin c = origin) (ta_columns t) of
        None \<Rightarrow> (False, d)
      | Some i \<Rightarrow>
          let c = ta_columns t ! i; rest = remove_at i (ta_columns t) in
          (True, d\<lparr>dr_table := t\<lparr>ta_columns := insert_at (min pos (length rest)) c rest\<rparr>\<rparr>))"

definition revert_column :: "schema_baseline \<Rightarrow> origin \<Rightarrow> schema_draft \<Rightarrow> bool \<times> schema_draft" where
  "revert_column baseline origin d =
     (case column_of (sb_table baseline) origin of
        Some original \<Rightarrow>
          (case column_of (dr_table d) origin of
             Some c \<Rightarrow> (True, d\<lparr>dr_table := column_mut (dr_table d) origin (\<lambda>_. original)\<rparr>)
           | None \<Rightarrow> (False, d))
      | None \<Rightarrow> remove_column origin d)"

end
