(* ===== verification/SchemaChange.thy ===== *)
theory SchemaChange imports SchemaModel begin

text \<open>
  The change list a review shows and the engine-neutral plan steps
  (\<open>schema_edit/change.rs\<close>), with the issues validation and rebase report.
\<close>

section \<open>Changes\<close>

datatype schema_object =
  TableObject | ColumnObject | PrimaryKeyObject | UniqueObject | ForeignKeyObject | CheckObject
| IndexObject

fun object_label :: "schema_object \<Rightarrow> string" where
  "object_label TableObject = ''Table''"
| "object_label ColumnObject = ''Column''"
| "object_label PrimaryKeyObject = ''Primary key''"
| "object_label UniqueObject = ''Unique''"
| "object_label ForeignKeyObject = ''Foreign key''"
| "object_label CheckObject = ''Check''"
| "object_label IndexObject = ''Index''"

datatype change_group =
  ColumnsGroup | KeysGroup | ForeignKeysGroup | ChecksGroup | IndexesGroup | TableGroup

fun object_group :: "schema_object \<Rightarrow> change_group" where
  "object_group ColumnObject = ColumnsGroup"
| "object_group PrimaryKeyObject = KeysGroup"
| "object_group UniqueObject = KeysGroup"
| "object_group ForeignKeyObject = ForeignKeysGroup"
| "object_group CheckObject = ChecksGroup"
| "object_group IndexObject = IndexesGroup"
| "object_group TableObject = TableGroup"

definition all_groups :: "change_group list" where
  "all_groups =
     [ColumnsGroup, KeysGroup, ForeignKeysGroup, ChecksGroup, IndexesGroup, TableGroup]"

fun group_label :: "change_group \<Rightarrow> string" where
  "group_label ColumnsGroup = ''Columns''"
| "group_label KeysGroup = ''Keys''"
| "group_label ForeignKeysGroup = ''Foreign keys''"
| "group_label ChecksGroup = ''Checks''"
| "group_label IndexesGroup = ''Indexes''"
| "group_label TableGroup = ''Table''"

datatype change_field =
  CommentField | StrictField | WithoutRowidField | EngineField | CharsetField | CollationField
| RowFormatField
| DataTypeField | NullableField | DefaultField | GeneratedField | IdentityField | OnUpdateField
| InvisibleField | PositionField
| ColumnsField | MembersField | IncludeField | UniqueField | MethodField | PredicateField
| ReferenceField | OnUpdateActionField | OnDeleteActionField | DeferrableField | ExpressionField
| EnforcedField

fun field_label :: "change_field \<Rightarrow> string" where
  "field_label CommentField = ''comment''"
| "field_label StrictField = ''STRICT''"
| "field_label WithoutRowidField = ''WITHOUT ROWID''"
| "field_label EngineField = ''engine''"
| "field_label CharsetField = ''character set''"
| "field_label CollationField = ''collation''"
| "field_label RowFormatField = ''row format''"
| "field_label DataTypeField = ''type''"
| "field_label NullableField = ''nullable''"
| "field_label DefaultField = ''default''"
| "field_label GeneratedField = ''generated''"
| "field_label IdentityField = ''identity''"
| "field_label OnUpdateField = ''on update''"
| "field_label InvisibleField = ''invisible''"
| "field_label PositionField = ''position''"
| "field_label ColumnsField = ''columns''"
| "field_label MembersField = ''members''"
| "field_label IncludeField = ''include''"
| "field_label UniqueField = ''unique''"
| "field_label MethodField = ''method''"
| "field_label PredicateField = ''predicate''"
| "field_label ReferenceField = ''references''"
| "field_label OnUpdateActionField = ''on update''"
| "field_label OnDeleteActionField = ''on delete''"
| "field_label DeferrableField = ''deferrable''"
| "field_label ExpressionField = ''expression''"
| "field_label EnforcedField = ''enforced''"

datatype change_kind =
  Added
| Removed
| Renamed (renamed_from: string) (renamed_to: string)
| Changed (changed_field: change_field) (changed_before: string) (changed_after: string)

datatype destructive =
  DropsColumn | DropsConstraint | DropsIndex | Recreate | NarrowingType | SetsNotNull
| AddNotNullWithoutDefault | Regenerate

fun destructive_label :: "destructive \<Rightarrow> string" where
  "destructive_label DropsColumn = ''drops the column and its data''"
| "destructive_label DropsConstraint = ''drops a constraint''"
| "destructive_label DropsIndex = ''drops an index''"
| "destructive_label Recreate = ''drops and re-creates the object''"
| "destructive_label NarrowingType = ''type change may truncate or fail on existing values''"
| "destructive_label SetsNotNull = ''fails if any row holds NULL''"
| "destructive_label AddNotNullWithoutDefault = ''fails on a table that has rows''"
| "destructive_label Regenerate = ''recomputes the column for every row''"

record schema_change =
  ch_object :: schema_object
  ch_origin :: "origin option"
  ch_name :: string
  ch_kind :: change_kind
  ch_destructive :: "destructive option"

type_synonym schema_change_set = "schema_change list"

definition destructive_changes :: "schema_change_set \<Rightarrow> schema_change list" where
  "destructive_changes changes = filter (\<lambda>c. ch_destructive c \<noteq> None) changes"

definition changes_in_group :: "schema_change_set \<Rightarrow> change_group \<Rightarrow> schema_change list" where
  "changes_in_group changes g = filter (\<lambda>c. object_group (ch_object c) = g) changes"

definition changes_for_origin :: "schema_change_set \<Rightarrow> origin \<Rightarrow> schema_change list" where
  "changes_for_origin changes origin = filter (\<lambda>c. ch_origin c = Some origin) changes"

fun distinct_objects ::
  "(schema_object \<times> origin option) list \<Rightarrow> schema_change list
     \<Rightarrow> (schema_object \<times> origin option) list" where
  "distinct_objects seen [] = seen"
| "distinct_objects seen (c # cs) =
     (let k = (ch_object c, ch_origin c) in
      distinct_objects (if k \<in> set seen then seen else seen @ [k]) cs)"

definition object_count :: "schema_change_set \<Rightarrow> nat" where
  "object_count changes = length (distinct_objects [] changes)"

lemma distinct_objects_set:
  "set (distinct_objects seen cs) = set seen \<union> (\<lambda>c. (ch_object c, ch_origin c)) ` set cs"
  by (induction seen cs rule: distinct_objects.induct) (auto simp: Let_def)

lemma distinct_objects_distinct: "distinct seen \<Longrightarrow> distinct (distinct_objects seen cs)"
  by (induction seen cs rule: distinct_objects.induct) (auto simp: Let_def)

text \<open>The review button's count is the number of different objects that change.\<close>

lemma object_count_card:
  "object_count changes = card ((\<lambda>c. (ch_object c, ch_origin c)) ` set changes)"
  using distinct_card [OF distinct_objects_distinct [of "[]" changes]]
  by (simp add: object_count_def distinct_objects_set)

section \<open>Plan steps\<close>

datatype column_field =
  CfDataType | CfCollation | CfNullable | CfDefault | CfGenerated | CfIdentity | CfCharset
| CfOnUpdate | CfInvisible

datatype plan_step =
  DropForeignKey nat | DropCheck nat | DropUnique nat | DropPrimaryKey nat | DropIndex nat
| RenameColumn nat | RenameConstraint schema_object nat | RenameTable
| AlterColumn nat "column_field list"
| AddColumn origin
| DropColumn nat | ReorderColumns
| AddPrimaryKey origin | AddUnique origin | AddCheck origin | CreateIndex origin
| AddForeignKey origin
| SetTableComment | SetColumnComment origin | SetTableOptions "change_field list"

fun phase :: "plan_step \<Rightarrow> nat" where
  "phase (DropForeignKey _) = 1"
| "phase (DropCheck _) = 1"
| "phase (DropUnique _) = 1"
| "phase (DropPrimaryKey _) = 1"
| "phase (DropIndex _) = 1"
| "phase (RenameColumn _) = 2"
| "phase (RenameConstraint _ _) = 2"
| "phase RenameTable = 2"
| "phase (AlterColumn _ _) = 3"
| "phase (AddColumn _) = 4"
| "phase (DropColumn _) = 5"
| "phase ReorderColumns = 5"
| "phase (AddPrimaryKey _) = 6"
| "phase (AddUnique _) = 6"
| "phase (AddCheck _) = 6"
| "phase (CreateIndex _) = 6"
| "phase (AddForeignKey _) = 7"
| "phase SetTableComment = 8"
| "phase (SetColumnComment _) = 8"
| "phase (SetTableOptions _) = 8"

section \<open>Issues\<close>

record draft_issue =
  is_object :: schema_object
  is_origin :: "origin option"
  is_message :: string

definition issue_table :: "string \<Rightarrow> draft_issue" where
  "issue_table message = \<lparr>is_object = TableObject, is_origin = None, is_message = message\<rparr>"

definition issue_at :: "schema_object \<Rightarrow> origin \<Rightarrow> string \<Rightarrow> draft_issue" where
  "issue_at object origin message =
     \<lparr>is_object = object, is_origin = Some origin, is_message = message\<rparr>"

end
