(* ===== verification/SchemaText.thy ===== *)
theory SchemaText imports SchemaModel begin

text \<open>
  Shape checks for the SQL fragments and data types of a draft (\<open>schema_edit/fragment.rs\<close>).  A
  \<open>char\<close> of a string is its group of UTF-8 bytes.  The Unicode tables of the standard library
  that are too large to write out are the fields of a \<open>unicode\<close> record, an argument of every
  function that reads them; ASCII and white space are computed.
\<close>

section \<open>Characters of a text\<close>

record unicode =
  uc_lower :: "string \<Rightarrow> string"
  uc_alphanumeric :: "string \<Rightarrow> bool"
  uc_lower_text :: "string \<Rightarrow> string"
  uc_debug :: "string \<Rightarrow> string"

function utf8_chars :: "string \<Rightarrow> string list" where
  "utf8_chars [] = []"
| "utf8_chars (b # bs) =
     (b # takeWhile is_utf8_continuation bs) # utf8_chars (dropWhile is_utf8_continuation bs)"
  by pat_completeness auto
termination by (relation "measure length") (auto simp: less_Suc_eq_le length_dropWhile_le)

lemma concat_utf8_chars [simp]: "concat (utf8_chars s) = s"
  by (induction s rule: utf8_chars.induct) auto

definition is_whitespace :: "string \<Rightarrow> bool" where
  "is_whitespace c \<longleftrightarrow>
     c \<in> {[CHR 0x09], [CHR 0x0A], [CHR 0x0B], [CHR 0x0C], [CHR 0x0D], [CHR 0x20],
          [CHR 0xC2, CHR 0x85], [CHR 0xC2, CHR 0xA0], [CHR 0xE1, CHR 0x9A, CHR 0x80],
          [CHR 0xE2, CHR 0x80, CHR 0x80], [CHR 0xE2, CHR 0x80, CHR 0x81],
          [CHR 0xE2, CHR 0x80, CHR 0x82], [CHR 0xE2, CHR 0x80, CHR 0x83],
          [CHR 0xE2, CHR 0x80, CHR 0x84], [CHR 0xE2, CHR 0x80, CHR 0x85],
          [CHR 0xE2, CHR 0x80, CHR 0x86], [CHR 0xE2, CHR 0x80, CHR 0x87],
          [CHR 0xE2, CHR 0x80, CHR 0x88], [CHR 0xE2, CHR 0x80, CHR 0x89],
          [CHR 0xE2, CHR 0x80, CHR 0x8A], [CHR 0xE2, CHR 0x80, CHR 0xA8],
          [CHR 0xE2, CHR 0x80, CHR 0xA9], [CHR 0xE2, CHR 0x80, CHR 0xAF],
          [CHR 0xE2, CHR 0x81, CHR 0x9F], [CHR 0xE3, CHR 0x80, CHR 0x80]}"

definition trim_chars :: "string list \<Rightarrow> string list" where
  "trim_chars cs = rev (dropWhile is_whitespace (rev (dropWhile is_whitespace cs)))"

definition trim :: "string \<Rightarrow> string" where
  "trim s = concat (trim_chars (utf8_chars s))"

definition char_lower :: "unicode \<Rightarrow> string \<Rightarrow> string" where
  "char_lower u c =
     (case c of [b] \<Rightarrow> if is_ascii b then [to_ascii_lowercase b] else uc_lower u c
      | _ \<Rightarrow> uc_lower u c)"

definition char_alphanumeric :: "unicode \<Rightarrow> string \<Rightarrow> bool" where
  "char_alphanumeric u c =
     (case c of [b] \<Rightarrow> if is_ascii b then is_ascii_alphanumeric b else uc_alphanumeric u c
      | _ \<Rightarrow> uc_alphanumeric u c)"

section \<open>Fragments\<close>

definition MAX_FRAGMENT_BYTES :: nat where "MAX_FRAGMENT_BYTES = 16 * 1024"
definition MAX_DATA_TYPE_BYTES :: nat where "MAX_DATA_TYPE_BYTES = 256"

datatype fragment_error =
  EmptyFragment | TooLong | NulCharacter | UnterminatedQuote | UnterminatedComment
| UnbalancedParentheses | StatementTerminator | ExecutableComment | InvalidCharacter string

fun fragment_error_display :: "unicode \<Rightarrow> fragment_error \<Rightarrow> string" where
  "fragment_error_display u EmptyFragment = ''is empty''"
| "fragment_error_display u TooLong = ''is too long''"
| "fragment_error_display u NulCharacter = ''contains a NUL character''"
| "fragment_error_display u UnterminatedQuote = ''has an unterminated quote''"
| "fragment_error_display u UnterminatedComment = ''has an unterminated comment''"
| "fragment_error_display u UnbalancedParentheses = ''has unbalanced parentheses''"
| "fragment_error_display u StatementTerminator = ''contains a statement terminator''"
| "fragment_error_display u ExecutableComment = ''contains an executable comment''"
| "fragment_error_display u (InvalidCharacter c) = ''contains '' @ uc_debug u c"

definition identifier_byte :: "char \<Rightarrow> bool" where
  "identifier_byte b \<longleftrightarrow>
     is_ascii_alphanumeric b \<or> b = CHR ''_'' \<or> b = CHR ''$'' \<or> 0x80 \<le> byte b"

definition is_ascii_control :: "char \<Rightarrow> bool" where
  "is_ascii_control b \<longleftrightarrow> byte b < 0x20 \<or> byte b = 0x7F"

definition line_comment :: "string \<Rightarrow> nat \<Rightarrow> schema_engine \<Rightarrow> bool" where
  "line_comment bytes start engine \<longleftrightarrow>
     engine \<noteq> MySqlEngine
     \<or> (case get bytes (start + 2) of
          None \<Rightarrow> True
        | Some b \<Rightarrow> is_ascii_whitespace b \<or> is_ascii_control b)"

text \<open>The position after the line feed that ends a comment, or the end of the text.\<close>

definition after_line :: "string \<Rightarrow> nat \<Rightarrow> nat" where
  "after_line bytes i =
     (case find_window [LF] bytes i of None \<Rightarrow> length bytes | Some j \<Rightarrow> j + 1)"

function close_quote :: "string \<Rightarrow> nat \<Rightarrow> char \<Rightarrow> bool \<Rightarrow> fragment_error + nat" where
  "close_quote bytes i quote backslash =
     (if i < length bytes then
        let b = bytes ! i in
        if backslash \<and> b = BACKSLASH then close_quote bytes (i + 2) quote backslash
        else if b = quote then
          if get bytes (i + 1) = Some quote then close_quote bytes (i + 2) quote backslash
          else Inr (i + 1)
        else close_quote bytes (i + 1) quote backslash
      else Inl UnterminatedQuote)"
  by pat_completeness auto
termination by (relation "measure (\<lambda>(bytes, i, _). length bytes - i)") auto

declare close_quote.simps [simp del]

definition dollar_quote :: "string \<Rightarrow> nat \<Rightarrow> fragment_error + nat" where
  "dollar_quote bytes start =
     (let end' = skip_while (\<lambda>b. is_ascii_alphanumeric b \<or> b = CHR ''_'') bytes (start + 1) in
      if get bytes end' \<noteq> Some (CHR ''$'')
         \<or> (case get bytes (start + 1) of None \<Rightarrow> False | Some b \<Rightarrow> is_ascii_digit b)
      then Inr (start + 1)
      else
        let tag = slice bytes start (end' + 1) in
        (case find_window tag bytes (end' + 1) of
           None \<Rightarrow> Inl UnterminatedQuote
         | Some j \<Rightarrow> Inr (j + length tag)))"

function block_comment :: "string \<Rightarrow> nat \<Rightarrow> nat \<Rightarrow> bool \<Rightarrow> fragment_error + nat" where
  "block_comment bytes i depth nests =
     (if i + 1 < length bytes then
        if nests \<and> bytes ! i = CHR ''/'' \<and> bytes ! (i + 1) = CHR ''*''
        then block_comment bytes (i + 2) (depth + 1) nests
        else if bytes ! i = CHR ''*'' \<and> bytes ! (i + 1) = CHR ''/'' then
          if depth - 1 = 0 then Inr (i + 2) else block_comment bytes (i + 2) (depth - 1) nests
        else block_comment bytes (i + 1) depth nests
      else Inl UnterminatedComment)"
  by pat_completeness auto
termination by (relation "measure (\<lambda>(bytes, i, _). length bytes - i)") auto

declare block_comment.simps [simp del]

text \<open>One iteration of \<open>scan\<close> at \<open>i\<close>: the new depth and the next position.\<close>

definition scan_step ::
  "string \<Rightarrow> schema_engine \<Rightarrow> bool \<Rightarrow> int \<Rightarrow> nat \<Rightarrow> fragment_error + (int \<times> nat)" where
  "scan_step bytes engine backslash_strings depth i =
     (let b = bytes ! i;
          previous = (if i = 0 then None else get bytes (i - 1));
          at = (\<lambda>r. case r of Inl e \<Rightarrow> Inl e | Inr j \<Rightarrow> Inr (depth, j)) in
      if b = SQUOTE then
        let escape_string = engine = PgEngine
              \<and> previous \<in> {Some (CHR ''e''), Some (CHR ''E'')}
              \<and> \<not> (2 \<le> i \<and> identifier_byte (bytes ! (i - 2))) in
        at (close_quote bytes (i + 1) SQUOTE (backslash_strings \<or> escape_string))
      else if b = DQUOTE then at (close_quote bytes (i + 1) DQUOTE (engine = MySqlEngine))
      else if b = BACKTICK \<and> engine \<noteq> PgEngine then at (close_quote bytes (i + 1) BACKTICK False)
      else if b = CHR ''['' \<and> engine = SqliteEngine then
        (case find_window '']'' bytes (i + 1) of
           None \<Rightarrow> Inl UnterminatedQuote
         | Some j \<Rightarrow> Inr (depth, j + 1))
      else if b = CHR ''$'' \<and> engine = PgEngine
              \<and> \<not> (case previous of None \<Rightarrow> False | Some p \<Rightarrow> identifier_byte p)
      then at (dollar_quote bytes i)
      else if b = CHR ''-'' \<and> get bytes (i + 1) = Some (CHR ''-'') \<and> line_comment bytes i engine
      then Inr (depth, after_line bytes i)
      else if b = CHR ''#'' \<and> engine = MySqlEngine then Inr (depth, after_line bytes i)
      else if b = CHR ''/'' \<and> get bytes (i + 1) = Some (CHR ''*'') then
        if engine = MySqlEngine \<and> get bytes (i + 2) \<in> {Some (CHR ''!''), Some (CHR ''+'')}
        then Inl ExecutableComment
        else at (block_comment bytes (i + 2) 1 (engine = PgEngine))
      else if b = CHR ''('' then Inr (depth + 1, i + 1)
      else if b = CHR '')'' then
        if depth - 1 < 0 then Inl UnbalancedParentheses else Inr (depth - 1, i + 1)
      else if b = CHR '';'' then Inl StatementTerminator
      else Inr (depth, i + 1))"

lemma close_quote_bounds [bounds]:
  "close_quote bytes i quote backslash = Inr j \<Longrightarrow> i < j \<and> j \<le> length bytes"
proof (induction i rule: measure_induct_rule [where f = "\<lambda>i. length bytes - i"])
  case (less i)
  from less.prems less.IH [of "Suc i"] less.IH [of "Suc (Suc i)"] show ?case
    by (subst (asm) close_quote.simps) (force simp: Let_def split: if_splits)
qed

lemma block_comment_bounds [bounds]:
  "block_comment bytes i depth nests = Inr j \<Longrightarrow> i < j \<and> j \<le> length bytes"
proof (induction i arbitrary: depth rule: measure_induct_rule [where f = "\<lambda>i. length bytes - i"])
  case (less i)
  from less.prems less.IH [of "Suc i"] less.IH [of "Suc (Suc i)"] show ?case
    by (subst (asm) block_comment.simps) (fastforce split: if_splits)
qed

lemma dollar_quote_bounds [bounds]:
  assumes "dollar_quote bytes i = Inr j" "i < length bytes"
  shows "i < j \<and> j \<le> length bytes"
proof -
  define k where "k = skip_while (\<lambda>b. is_ascii_alphanumeric b \<or> b = CHR ''_'') bytes (Suc i)"
  have "Suc i \<le> k" unfolding k_def by (rule skip_while_ge)
  then show ?thesis
    using assms by (auto simp: dollar_quote_def Let_def k_def [symmetric]
        split: if_splits option.splits dest!: find_window_SomeD)
qed

lemma after_line_bounds [bounds]:
  "i < length bytes \<Longrightarrow> i < after_line bytes i \<and> after_line bytes i \<le> length bytes"
  by (auto simp: after_line_def split: option.splits dest!: find_window_SomeD)

lemma scan_step_bounds [bounds]:
  assumes "scan_step bytes engine backslash_strings depth i = Inr (depth', j)" "i < length bytes"
  shows "i < j \<and> j \<le> length bytes"
  using assms(1) after_line_bounds [OF assms(2)] assms(2)
  unfolding scan_step_def Let_def
  by (auto split: if_splits sum.splits option.splits
      dest!: close_quote_bounds block_comment_bounds dollar_quote_bounds find_window_SomeD)

function fragment_scan_loop ::
  "string \<Rightarrow> schema_engine \<Rightarrow> bool \<Rightarrow> int \<Rightarrow> nat \<Rightarrow> fragment_error + unit" where
  "fragment_scan_loop bytes engine backslash_strings depth i =
     (if i < length bytes then
        (case scan_step bytes engine backslash_strings depth i of
           Inl e \<Rightarrow> Inl e
         | Inr (depth', j) \<Rightarrow> fragment_scan_loop bytes engine backslash_strings depth' j)
      else if depth \<noteq> 0 then Inl UnbalancedParentheses else Inr ())"
  by pat_completeness auto
termination
  by (relation "measure (\<lambda>(bytes, _, _, _, i). length bytes - i)")
     (auto dest!: scan_step_bounds)

declare fragment_scan_loop.simps [simp del]

definition scan :: "string \<Rightarrow> schema_engine \<Rightarrow> bool \<Rightarrow> fragment_error + unit" where
  "scan text engine backslash_strings = fragment_scan_loop text engine backslash_strings 0 0"

definition scan_all :: "string \<Rightarrow> schema_engine \<Rightarrow> fragment_error + unit" where
  "scan_all text engine =
     (case engine of
        PgEngine \<Rightarrow>
          (case scan text engine False of Inl e \<Rightarrow> Inl e | Inr _ \<Rightarrow> scan text engine True)
      | MySqlEngine \<Rightarrow> scan text engine True
      | SqliteEngine \<Rightarrow> scan text engine False)"

definition check_fragment :: "string \<Rightarrow> schema_engine \<Rightarrow> fragment_error + unit" where
  "check_fragment text engine =
     (if trim text = [] then Inl EmptyFragment
      else if MAX_FRAGMENT_BYTES < length text then Inl TooLong
      else if NUL \<in> set text then Inl NulCharacter
      else scan_all text engine)"

section \<open>Data types\<close>

text \<open>The character loop of \<open>check_data_type\<close>; \<open>quoted\<close> is the open quote.\<close>

fun type_chars :: "unicode \<Rightarrow> string option \<Rightarrow> string list \<Rightarrow> fragment_error + unit" where
  "type_chars u quoted [] = Inr ()"
| "type_chars u quoted (c # cs) =
     (case quoted of
        Some q \<Rightarrow> type_chars u (if c = q then None else quoted) cs
      | None \<Rightarrow>
          if c \<in> {[DQUOTE], [SQUOTE], [BACKTICK]} then type_chars u (Some c) cs
          else if char_alphanumeric u c then type_chars u None cs
          else if c \<in> {'' '', ''_'', ''('', '')'', '','', ''['', '']'', ''.'', ''+'', ''-''}
          then type_chars u None cs
          else Inl (InvalidCharacter c))"

definition check_data_type :: "unicode \<Rightarrow> string \<Rightarrow> schema_engine \<Rightarrow> fragment_error + unit" where
  "check_data_type u text engine =
     (if trim text = [] then Inl EmptyFragment
      else if MAX_DATA_TYPE_BYTES < length text then Inl TooLong
      else if NUL \<in> set text then Inl NulCharacter
      else
        (case type_chars u None (utf8_chars text) of
           Inl e \<Rightarrow> Inl e
         | Inr _ \<Rightarrow>
             if find_window ''--'' text 0 \<noteq> None then Inl (InvalidCharacter ''-'')
             else scan_all text engine))"

text \<open>
  The loop of \<open>normalize_type\<close>: the text so far, the open quote, whether the last character
  escapes the next, and whether white space was skipped.
\<close>

fun normalize_loop ::
  "unicode \<Rightarrow> string \<Rightarrow> string option \<Rightarrow> bool \<Rightarrow> bool \<Rightarrow> string list \<Rightarrow> string" where
  "normalize_loop u out quoted escaped pending_space [] = out"
| "normalize_loop u out quoted escaped pending_space (c # cs) =
     (case quoted of
        Some q \<Rightarrow>
          let out = out @ c in
          if escaped then normalize_loop u out quoted False pending_space cs
          else if c = [BACKSLASH] \<and> q = [SQUOTE]
          then normalize_loop u out quoted True pending_space cs
          else if c = q then normalize_loop u out None escaped pending_space cs
          else normalize_loop u out quoted escaped pending_space cs
      | None \<Rightarrow>
          if is_whitespace c then normalize_loop u out quoted escaped True cs
          else
            let tight = c \<in> {''('', '')'', '','', ''['', '']''};
                out = (if pending_space \<and> \<not> tight \<and> out \<noteq> []
                          \<and> last out \<notin> {CHR ''('', CHR '','', CHR ''[''}
                       then out @ '' '' else out) in
            if c \<in> {[DQUOTE], [BACKTICK], [SQUOTE]}
            then normalize_loop u (out @ c) (Some c) escaped False cs
            else normalize_loop u (out @ char_lower u c) None escaped False cs)"

definition normalize_type :: "unicode \<Rightarrow> string \<Rightarrow> string" where
  "normalize_type u text = normalize_loop u [] None False False (trim_chars (utf8_chars text))"

definition types_equal :: "unicode \<Rightarrow> string \<Rightarrow> string \<Rightarrow> bool" where
  "types_equal u a b \<longleftrightarrow> normalize_type u a = normalize_type u b"

lemma types_equal_refl [simp, intro!]: "types_equal u a a"
  by (simp add: types_equal_def)

lemma types_equal_sym: "types_equal u a b \<Longrightarrow> types_equal u b a"
  by (simp add: types_equal_def)

lemma types_equal_trans [trans]: "types_equal u a b \<Longrightarrow> types_equal u b c \<Longrightarrow> types_equal u a c"
  by (simp add: types_equal_def)

end
