(* ===== verification/SchemaDiff.thy ===== *)
theory SchemaDiff imports SchemaChange SchemaText begin

text \<open>
  \<open>diff\<close> of \<open>schema_edit/diff.rs\<close>: the object-level and field-level changes from a baseline to a
  draft, with the display text and the destructive marks the review shows.
\<close>

section \<open>Display helpers\<close>

fun describe_default :: "default_value \<Rightarrow> string" where
  "describe_default NoDefault = ''none''"
| "describe_default (Literal text) = [SQUOTE] @ text @ [SQUOTE]"
| "describe_default (Expression sql) = fragment_text sql"

fun describe_generated :: "generated option \<Rightarrow> string" where
  "describe_generated None = ''none''"
| "describe_generated (Some g) =
     ''AS ('' @ fragment_text (ge_expression g) @ '') ''
       @ (if ge_stored g then ''STORED'' else ''VIRTUAL'')"

fun describe_identity :: "identity \<Rightarrow> string" where
  "describe_identity NoIdentity = ''none''"
| "describe_identity Always = ''GENERATED ALWAYS''"
| "describe_identity ByDefault = ''GENERATED BY DEFAULT''"
| "describe_identity AutoIncrement = ''AUTO_INCREMENT''"

definition describe_nullable :: "bool \<Rightarrow> string" where
  "describe_nullable nullable = (if nullable then ''NULL'' else ''NOT NULL'')"

fun describe_optional :: "string option \<Rightarrow> string" where
  "describe_optional None = ''none''"
| "describe_optional (Some s) = s"

definition describe_flag :: "bool \<Rightarrow> string" where
  "describe_flag value = (if value then ''yes'' else ''no'')"

fun describe_deferrable :: "deferrable \<Rightarrow> string" where
  "describe_deferrable NeverDeferred = ''NOT DEFERRABLE''"
| "describe_deferrable InitiallyImmediate = ''DEFERRABLE INITIALLY IMMEDIATE''"
| "describe_deferrable InitiallyDeferred = ''DEFERRABLE INITIALLY DEFERRED''"

definition describe_reference :: "foreign_key_model \<Rightarrow> string" where
  "describe_reference key =
     (let table = (case fk_referenced_schema key of
                     Some schema \<Rightarrow> schema @ ''.'' @ fk_referenced_table key
                   | None \<Rightarrow> fk_referenced_table key) in
      if fk_referenced_columns key = [] then table
      else table @ ''('' @ join '', '' (fk_referenced_columns key) @ '')'')"

fun describe_fragment :: "sql_fragment option \<Rightarrow> string" where
  "describe_fragment None = ''none''"
| "describe_fragment (Some sql) = fragment_text sql"

definition describe_member :: "table_model \<Rightarrow> index_member \<Rightarrow> string" where
  "describe_member table member =
     (case im_target member of
        TargetColumn origin \<Rightarrow> (case column_name table origin of None \<Rightarrow> ''?'' | Some n \<Rightarrow> n)
      | TargetExpression sql \<Rightarrow> ''('' @ fragment_text sql @ '')'')
     @ (case im_prefix_length member of None \<Rightarrow> [] | Some n \<Rightarrow> ''('' @ decimal n @ '')'')
     @ (case im_collation member of None \<Rightarrow> [] | Some c \<Rightarrow> '' COLLATE '' @ c)
     @ (if im_descending member then '' DESC'' else [])"

definition describe_members :: "index_model \<Rightarrow> table_model \<Rightarrow> string" where
  "describe_members index table = join '', '' (map (describe_member table) (ix_members index))"

definition same_name :: "schema_engine \<Rightarrow> string \<Rightarrow> string \<Rightarrow> bool" where
  "same_name engine a b =
     (case engine of PgEngine \<Rightarrow> a = b | _ \<Rightarrow> eq_ignore_ascii_case a b)"

section \<open>Widening\<close>

text \<open>\<open>str::strip_suffix\<close>, \<open>str::split\<close> on one byte and \<open>str::parse::<u64>\<close>.\<close>

definition strip_suffix :: "string \<Rightarrow> string \<Rightarrow> string option" where
  "strip_suffix s suffix =
     (let n = length s - length suffix in
      if length suffix \<le> length s \<and> drop n s = suffix then Some (take n s) else None)"

fun split_char :: "char \<Rightarrow> string \<Rightarrow> string list" where
  "split_char sep [] = [[]]"
| "split_char sep (c # cs) =
     (if c = sep then [] # split_char sep cs
      else case split_char sep cs of [] \<Rightarrow> [[c]] | w # ws \<Rightarrow> (c # w) # ws)"

definition digits_value :: "string \<Rightarrow> nat" where
  "digits_value ds = foldl (\<lambda>n d. 10 * n + (byte d - 48)) 0 ds"

definition parse_uint :: "nat \<Rightarrow> string \<Rightarrow> nat option" where
  "parse_uint limit s =
     (let ds = (case s of c # cs \<Rightarrow> if c = CHR ''+'' then cs else s | [] \<Rightarrow> []) in
      if ds \<noteq> [] \<and> list_all is_ascii_digit ds \<and> digits_value ds \<le> limit
      then Some (digits_value ds) else None)"

definition parse_u64 :: "string \<Rightarrow> nat option" where
  "parse_u64 = parse_uint u64_max"

fun collect_options :: "'a option list \<Rightarrow> 'a list option" where
  "collect_options [] = Some []"
| "collect_options (None # xs) = None"
| "collect_options (Some x # xs) = map_option ((#) x) (collect_options xs)"

text \<open>The first of the trailing attributes the text ends with, in the order they are tried.\<close>

fun split_attribute :: "string \<Rightarrow> string list \<Rightarrow> string \<times> nat list \<times> string" where
  "split_attribute normalized [] = (normalized, [], [])"
| "split_attribute normalized (attribute # attributes) =
     (case strip_suffix normalized attribute of
        Some base \<Rightarrow> (base, [], trim attribute)
      | None \<Rightarrow> split_attribute normalized attributes)"

definition split_type :: "unicode \<Rightarrow> string \<Rightarrow> string \<times> nat list \<times> string" where
  "split_type u text =
     (let normalized = normalize_type u text in
      case find_window ''('' normalized 0 of
        None \<Rightarrow> split_attribute normalized
          ['' unsigned zerofill'', '' unsigned'', '' signed'', '' zerofill'']
      | Some open' \<Rightarrow>
          (case find_window '')'' normalized open' of
             None \<Rightarrow> (normalized, [], [])
           | Some close' \<Rightarrow>
               (case collect_options (map (\<lambda>arg. parse_u64 (trim arg))
                       (split_char (CHR '','') (slice normalized (open' + 1) close'))) of
                  Some args \<Rightarrow> (trim (take open' normalized), args, trim (drop (close' + 1) normalized))
                | None \<Rightarrow> (normalized, [], []))))"

definition canonical_base :: "schema_engine \<Rightarrow> string \<Rightarrow> string" where
  "canonical_base engine base =
     (if base \<in> {''character varying'', ''varchar2'', ''nvarchar''} then ''varchar''
      else if base \<in> {''character'', ''nchar'', ''bpchar''} then ''char''
      else if base = ''int2'' then ''smallint''
      else if base \<in> {''int'', ''int4'', ''integer''} \<and> engine = PgEngine then ''integer''
      else if base \<in> {''int'', ''integer''} then ''int''
      else if base = ''int8'' then ''bigint''
      else if base = ''decimal'' then ''numeric''
      else if base = ''float4'' then ''real''
      else if base \<in> {''float8'', ''double precision'', ''double''} then ''double''
      else base)"

definition rank :: "string list \<Rightarrow> string \<Rightarrow> nat option" where
  "rank ladder base = index_where (\<lambda>step. step = base) ladder"

fun integer_ladder :: "schema_engine \<Rightarrow> string list" where
  "integer_ladder PgEngine = [''smallint'', ''integer'', ''bigint'']"
| "integer_ladder MySqlEngine = [''tinyint'', ''smallint'', ''mediumint'', ''int'', ''bigint'']"
| "integer_ladder SqliteEngine = [''smallint'', ''int'', ''bigint'']"

text \<open>\<open>([n], [m]) => m >= n, (_, []) => unbounded, _ => false\<close>.\<close>

definition length_widens :: "nat list \<Rightarrow> nat list \<Rightarrow> bool \<Rightarrow> bool" where
  "length_widens b_args a_args unbounded =
     (case (b_args, a_args) of
        ([n], [m]) \<Rightarrow> n \<le> m
      | (_, []) \<Rightarrow> unbounded
      | _ \<Rightarrow> False)"

definition numeric_widens :: "nat list \<Rightarrow> nat list \<Rightarrow> bool \<Rightarrow> bool" where
  "numeric_widens b_args a_args unbounded =
     (case (b_args, a_args) of
        ([p, s], [q, t]) \<Rightarrow> s = t \<and> p \<le> q
      | ([p], [q]) \<Rightarrow> p \<le> q
      | (_, []) \<Rightarrow> unbounded
      | _ \<Rightarrow> False)"

definition mysql_text_widens :: "string \<Rightarrow> string \<Rightarrow> bool" where
  "mysql_text_widens b a \<longleftrightarrow>
     b \<in> {''varchar'', ''char'', ''tinytext'', ''text''} \<and> a \<in> {''mediumtext'', ''longtext''}
     \<or> b \<in> {''tinytext'', ''mediumtext''} \<and> a = ''longtext''
     \<or> b = ''tinytext'' \<and> a \<in> {''text'', ''mediumtext''}
     \<or> b = ''tinyblob'' \<and> a \<in> {''blob'', ''mediumblob'', ''longblob''}
     \<or> b = ''blob'' \<and> a \<in> {''mediumblob'', ''longblob''}
     \<or> b = ''mediumblob'' \<and> a = ''longblob''"

definition base_widens ::
  "schema_engine \<Rightarrow> string \<Rightarrow> nat list \<Rightarrow> string \<Rightarrow> nat list \<Rightarrow> bool" where
  "base_widens engine b b_args a a_args =
     (if (b, a) \<in> {(''varchar'', ''varchar''), (''varbinary'', ''varbinary'')}
      then length_widens b_args a_args (engine = PgEngine)
      else if b = ''varchar'' \<and> a = ''text'' \<and> engine \<noteq> MySqlEngine then True
      else if b = ''char'' \<and> a = ''text'' \<and> engine = SqliteEngine then True
      else if mysql_text_widens b a \<and> engine = MySqlEngine then True
      else if b = ''char'' \<and> a = ''varchar'' \<and> engine = SqliteEngine
      then length_widens b_args a_args True
      else if b = ''numeric'' \<and> a = ''numeric''
      then numeric_widens b_args a_args (engine = PgEngine)
      else if b = ''real'' \<and> a = ''double'' then True
      else
        (case (rank (integer_ladder engine) b, rank (integer_ladder engine) a) of
           (Some from', Some to') \<Rightarrow> from' \<le> to'
         | (from', _) \<Rightarrow> engine = PgEngine \<and> from' \<noteq> None \<and> a = ''numeric'' \<and> a_args = []))"

definition is_widening :: "unicode \<Rightarrow> schema_engine \<Rightarrow> string \<Rightarrow> string \<Rightarrow> bool" where
  "is_widening u engine before after =
     (if types_equal u before after then True
      else
        let (b_base, b_args, b_suffix) = split_type u before;
            (a_base, a_args, a_suffix) = split_type u after in
        if b_suffix \<noteq> a_suffix then False
        else base_widens engine (canonical_base engine b_base) b_args
               (canonical_base engine a_base) a_args)"

section \<open>Moved columns\<close>

text \<open>
  \<open>longest_increasing\<close>: a table of the length of the longest strictly increasing subsequence that
  ends at each index, and of the index before it (\<open>usize::MAX\<close>, here \<open>None\<close>, for the first).
\<close>

definition lis_entry :: "nat list \<Rightarrow> nat list \<Rightarrow> nat \<Rightarrow> nat \<times> nat option" where
  "lis_entry xs len i =
     foldl (\<lambda>(l, p) j. if xs ! j < xs ! i \<and> l < len ! j + 1 then (len ! j + 1, Some j) else (l, p))
       (1, None) [0..<i]"

fun lis_table :: "nat list \<Rightarrow> nat \<Rightarrow> nat list \<times> nat option list" where
  "lis_table xs 0 = ([], [])"
| "lis_table xs (Suc i) =
     (let (len, prev) = lis_table xs i; (l, p) = lis_entry xs len i in (len @ [l], prev @ [p]))"

definition lis_last :: "nat list \<Rightarrow> nat option" where
  "lis_last len =
     (if len = [] then None
      else Some (foldl (\<lambda>b i. if len ! b < len ! i then i else b) 0 [1..<length len]))"

text \<open>
  Following \<open>previous\<close> from the last index; every entry of the table is a smaller index
  (\<open>lis_table_previous\<close>), so the last test never fails there.
\<close>

function lis_chain :: "nat option list \<Rightarrow> nat \<Rightarrow> nat list" where
  "lis_chain prev i =
     i # (case prev ! i of None \<Rightarrow> [] | Some j \<Rightarrow> if j < i then lis_chain prev j else [])"
  by pat_completeness auto
termination by (relation "measure snd") auto

declare lis_chain.simps [simp del]

definition longest_increasing :: "nat list \<Rightarrow> nat set" where
  "longest_increasing xs =
     (let (len, prev) = lis_table xs (length xs) in
      case lis_last len of None \<Rightarrow> {} | Some i \<Rightarrow> set (lis_chain prev i))"

definition moved_columns :: "table_model \<Rightarrow> table_model \<Rightarrow> origin list" where
  "moved_columns old new =
     (let surviving = set (map co_origin (ta_columns new));
          before = filter (\<lambda>x. x \<in> surviving) (map co_origin (ta_columns old));
          after = filter (\<lambda>x. \<not> is_new x) (map co_origin (ta_columns new)) in
      if before = after then []
      else
        let pos = map_of (rev (zip before [0..<length before]));
            kept = longest_increasing (List.map_filter pos after) in
        map snd (filter (\<lambda>(i, _). i \<notin> kept) (zip [0..<length after] after)))"

section \<open>Changes\<close>

definition changed ::
  "schema_object \<Rightarrow> origin option \<Rightarrow> string \<Rightarrow> change_field \<Rightarrow> string \<Rightarrow> string \<Rightarrow> destructive option
     \<Rightarrow> schema_change" where
  "changed object origin name field before after destructive =
     \<lparr>ch_object = object, ch_origin = origin, ch_name = name,
      ch_kind = Changed field before after, ch_destructive = destructive\<rparr>"

definition simple ::
  "schema_object \<Rightarrow> origin option \<Rightarrow> string \<Rightarrow> change_kind \<Rightarrow> destructive option \<Rightarrow> schema_change" where
  "simple object origin name kind destructive =
     \<lparr>ch_object = object, ch_origin = origin, ch_name = name, ch_kind = kind,
      ch_destructive = destructive\<rparr>"

text \<open>\<open>if c { out.push(x) }\<close>.\<close>

definition only_if :: "bool \<Rightarrow> 'a \<Rightarrow> 'a list" where
  "only_if c x = (if c then [x] else [])"

lemma only_if_simps [simp]: "only_if True x = [x]" "only_if False x = []"
  by (simp_all add: only_if_def)

lemma only_if_eq_Nil [simp]: "only_if c x = [] \<longleftrightarrow> \<not> c"
  by (simp add: only_if_def)

lemma set_only_if [simp]: "set (only_if c x) = (if c then {x} else {})"
  by (cases c) simp_all

definition option_changes ::
  "table_options \<Rightarrow> table_options \<Rightarrow> (change_field \<times> string \<times> string) list" where
  "option_changes old new =
     only_if (op_strict old \<noteq> op_strict new)
       (StrictField, describe_flag (op_strict old), describe_flag (op_strict new))
     @ only_if (op_without_rowid old \<noteq> op_without_rowid new)
         (WithoutRowidField, describe_flag (op_without_rowid old),
          describe_flag (op_without_rowid new))
     @ concat (map (\<lambda>(field, before, after).
           only_if (before \<noteq> after) (field, describe_optional before, describe_optional after))
         [(EngineField, op_engine old, op_engine new),
          (CharsetField, op_charset old, op_charset new),
          (CollationField, op_collation old, op_collation new),
          (RowFormatField, op_row_format old, op_row_format new)])"

definition table_changes :: "table_model \<Rightarrow> table_model \<Rightarrow> schema_change list" where
  "table_changes old new =
     (let name = ta_name new in
      only_if (ta_name old \<noteq> ta_name new)
        (simple TableObject None name (Renamed (ta_name old) (ta_name new)) None)
      @ only_if (ta_comment old \<noteq> ta_comment new)
          (changed TableObject None name CommentField (describe_optional (ta_comment old))
             (describe_optional (ta_comment new)) None)
      @ map (\<lambda>(field, before, after). changed TableObject None name field before after None)
          (option_changes (ta_options old) (ta_options new)))"

definition column_field_changes :: "unicode \<Rightarrow> column_model \<Rightarrow> column_model \<Rightarrow> column_field list" where
  "column_field_changes u old new =
     only_if (\<not> types_equal u (co_data_type old) (co_data_type new)) CfDataType
     @ only_if (co_collation old \<noteq> co_collation new) CfCollation
     @ only_if (co_nullable old \<noteq> co_nullable new) CfNullable
     @ only_if (co_default old \<noteq> co_default new) CfDefault
     @ only_if (co_generated old \<noteq> co_generated new) CfGenerated
     @ only_if (co_identity old \<noteq> co_identity new) CfIdentity
     @ only_if (ex_charset (co_extra old) \<noteq> ex_charset (co_extra new)) CfCharset
     @ only_if (ex_on_update (co_extra old) \<noteq> ex_on_update (co_extra new)) CfOnUpdate
     @ only_if (ex_invisible (co_extra old) \<noteq> ex_invisible (co_extra new)) CfInvisible"

text \<open>The changes of one surviving column; \<open>moved\<close> is \<open>moved_columns old new\<close>.\<close>

definition position_of :: "table_model \<Rightarrow> origin \<Rightarrow> nat" where
  "position_of table origin =
     (case index_where (\<lambda>c. co_origin c = origin) (ta_columns table) of None \<Rightarrow> 0 | Some i \<Rightarrow> i) + 1"

definition surviving_column_changes ::
  "unicode \<Rightarrow> schema_engine \<Rightarrow> table_model \<Rightarrow> table_model \<Rightarrow> origin list
     \<Rightarrow> column_model \<Rightarrow> column_model \<Rightarrow> schema_change list" where
  "surviving_column_changes u engine old new moved previous c =
     (let origin = Some (co_origin c); name = co_name c;
          at = changed ColumnObject origin name in
      only_if (co_name previous \<noteq> co_name c)
        (simple ColumnObject origin name (Renamed (co_name previous) (co_name c)) None)
      @ only_if (\<not> types_equal u (co_data_type previous) (co_data_type c))
          (at DataTypeField (co_data_type previous) (co_data_type c)
             (if \<not> is_widening u engine (co_data_type previous) (co_data_type c)
              then Some NarrowingType else None))
      @ only_if (co_nullable previous \<noteq> co_nullable c)
          (at NullableField (describe_nullable (co_nullable previous))
             (describe_nullable (co_nullable c)) (if \<not> co_nullable c then Some SetsNotNull else None))
      @ only_if (co_default previous \<noteq> co_default c)
          (at DefaultField (describe_default (co_default previous))
             (describe_default (co_default c)) None)
      @ only_if (co_generated previous \<noteq> co_generated c)
          (at GeneratedField (describe_generated (co_generated previous))
             (describe_generated (co_generated c))
             (if co_generated c \<noteq> None then Some Regenerate else None))
      @ only_if (co_identity previous \<noteq> co_identity c)
          (at IdentityField (describe_identity (co_identity previous))
             (describe_identity (co_identity c)) None)
      @ only_if (co_collation previous \<noteq> co_collation c)
          (at CollationField (describe_optional (co_collation previous))
             (describe_optional (co_collation c)) None)
      @ only_if (ex_charset (co_extra previous) \<noteq> ex_charset (co_extra c))
          (at CharsetField (describe_optional (ex_charset (co_extra previous)))
             (describe_optional (ex_charset (co_extra c))) (Some NarrowingType))
      @ only_if (ex_on_update (co_extra previous) \<noteq> ex_on_update (co_extra c))
          (at OnUpdateField (describe_fragment (ex_on_update (co_extra previous)))
             (describe_fragment (ex_on_update (co_extra c))) None)
      @ only_if (ex_invisible (co_extra previous) \<noteq> ex_invisible (co_extra c))
          (at InvisibleField (describe_flag (ex_invisible (co_extra previous)))
             (describe_flag (ex_invisible (co_extra c))) None)
      @ only_if (co_comment previous \<noteq> co_comment c)
          (at CommentField (describe_optional (co_comment previous))
             (describe_optional (co_comment c)) None)
      @ only_if (co_origin c \<in> set moved)
          (at PositionField (decimal (position_of old (co_origin c)))
             (decimal (position_of new (co_origin c))) None))"

text \<open>\<open>old.column(origin).filter(|_| !origin.is_new())\<close>.\<close>

definition previous_column :: "table_model \<Rightarrow> column_model \<Rightarrow> column_model option" where
  "previous_column old c = (if is_new (co_origin c) then None else column_of old (co_origin c))"

definition added_column_change :: "column_model \<Rightarrow> schema_change" where
  "added_column_change c =
     simple ColumnObject (Some (co_origin c)) (co_name c) Added
       (if \<not> co_nullable c \<and> is_no_default (co_default c) \<and> co_generated c = None
           \<and> co_identity c = NoIdentity
        then Some AddNotNullWithoutDefault else None)"

definition column_changes ::
  "unicode \<Rightarrow> schema_engine \<Rightarrow> table_model \<Rightarrow> table_model \<Rightarrow> schema_change list" where
  "column_changes u engine old new =
     (let moved = moved_columns old new in
      concat (map (\<lambda>c. case previous_column old c of
            None \<Rightarrow> [added_column_change c]
          | Some previous \<Rightarrow> surviving_column_changes u engine old new moved previous c)
        (ta_columns new))
      @ concat (map (\<lambda>c. only_if (column_of new (co_origin c) = None)
            (simple ColumnObject (Some (co_origin c)) (co_name c) Removed (Some DropsColumn)))
          (ta_columns old)))"

section \<open>Keys, foreign keys, checks and indexes\<close>

type_synonym 'a matched = "('a \<times> 'a) list \<times> 'a list \<times> 'a list"

definition match_pair :: "('a \<Rightarrow> origin) \<Rightarrow> 'a list \<Rightarrow> 'a \<Rightarrow> 'a option" where
  "match_pair origin old item =
     find (\<lambda>previous. origin previous = origin item \<and> \<not> is_new (origin item)) old"

definition match_objects :: "('a \<Rightarrow> origin) \<Rightarrow> 'a list \<Rightarrow> 'a list \<Rightarrow> 'a matched" where
  "match_objects origin old new =
     (List.map_filter (\<lambda>item. map_option (\<lambda>previous. (previous, item)) (match_pair origin old item)) new,
      filter (\<lambda>item. match_pair origin old item = None) new,
      filter (\<lambda>previous. \<not> list_ex (\<lambda>item. origin item = origin previous) new) old)"

definition unnamed :: "string option \<Rightarrow> string" where
  "unnamed name = (case name of None \<Rightarrow> ''(unnamed)'' | Some n \<Rightarrow> n)"

definition rename_changes ::
  "schema_object \<Rightarrow> origin \<Rightarrow> string \<Rightarrow> string option \<Rightarrow> string option \<Rightarrow> schema_change list" where
  "rename_changes object origin name old new =
     only_if (old \<noteq> new)
       (simple object (Some origin) name (Renamed (unnamed old) (unnamed new)) None)"

definition key_label :: "key_model \<Rightarrow> table_model \<Rightarrow> string" where
  "key_label k table =
     (case ke_name k of
        Some n \<Rightarrow> n
      | None \<Rightarrow> ''('' @ join '', '' (column_names table (ke_columns k)) @ '')'')"

definition key_pair_changes ::
  "schema_object \<Rightarrow> table_model \<Rightarrow> table_model \<Rightarrow> key_model \<times> key_model \<Rightarrow> schema_change list" where
  "key_pair_changes object old_table new_table = (\<lambda>(previous, k).
     let name = key_label k new_table in
     rename_changes object (ke_origin k) name (ke_name previous) (ke_name k)
     @ only_if (ke_columns previous \<noteq> ke_columns k)
         (changed object (Some (ke_origin k)) name ColumnsField
            (join '', '' (column_names old_table (ke_columns previous)))
            (join '', '' (column_names new_table (ke_columns k))) (Some Recreate)))"

text \<open>What the four kinds share: the changes of the pairs, then the added, then the removed.\<close>

definition object_changes ::
  "('a \<times> 'a \<Rightarrow> schema_change list) \<Rightarrow> ('a \<Rightarrow> schema_change) \<Rightarrow> ('a \<Rightarrow> schema_change)
     \<Rightarrow> 'a matched \<Rightarrow> schema_change list" where
  "object_changes pair add remove = (\<lambda>(pairs, added, removed).
     concat (map pair pairs) @ map add added @ map remove removed)"

definition key_changes ::
  "schema_object \<Rightarrow> table_model \<Rightarrow> table_model \<Rightarrow> key_model list \<Rightarrow> key_model list
     \<Rightarrow> schema_change list" where
  "key_changes object old_table new_table old new =
     object_changes (key_pair_changes object old_table new_table)
       (\<lambda>k. simple object (Some (ke_origin k)) (key_label k new_table) Added None)
       (\<lambda>k. simple object (Some (ke_origin k)) (key_label k old_table) Removed (Some DropsConstraint))
       (match_objects ke_origin old new)"

text \<open>The arrow between the columns and the reference is U+2192.\<close>

definition foreign_key_label :: "foreign_key_model \<Rightarrow> table_model \<Rightarrow> string" where
  "foreign_key_label k table =
     (case fk_name k of
        Some n \<Rightarrow> n
      | None \<Rightarrow> ''('' @ join '', '' (column_names table (fk_columns k)) @ '') ''
          @ [CHR 0xE2, CHR 0x86, CHR 0x92] @ '' '' @ describe_reference k)"

definition reference_differs :: "foreign_key_model \<Rightarrow> foreign_key_model \<Rightarrow> bool" where
  "reference_differs previous k \<longleftrightarrow>
     fk_referenced_schema previous \<noteq> fk_referenced_schema k
     \<or> fk_referenced_table previous \<noteq> fk_referenced_table k
     \<or> fk_referenced_columns previous \<noteq> fk_referenced_columns k"

definition foreign_key_pair_changes ::
  "table_model \<Rightarrow> table_model \<Rightarrow> foreign_key_model \<times> foreign_key_model \<Rightarrow> schema_change list" where
  "foreign_key_pair_changes old new = (\<lambda>(previous, k).
     let name = foreign_key_label k new;
         at = (\<lambda>field before after.
           changed ForeignKeyObject (Some (fk_origin k)) name field before after (Some Recreate)) in
     rename_changes ForeignKeyObject (fk_origin k) name (fk_name previous) (fk_name k)
     @ only_if (fk_columns previous \<noteq> fk_columns k)
         (at ColumnsField (join '', '' (column_names old (fk_columns previous)))
            (join '', '' (column_names new (fk_columns k))))
     @ only_if (reference_differs previous k)
         (at ReferenceField (describe_reference previous) (describe_reference k))
     @ only_if (fk_on_update previous \<noteq> fk_on_update k)
         (at OnUpdateActionField (referential_sql (fk_on_update previous))
            (referential_sql (fk_on_update k)))
     @ only_if (fk_on_delete previous \<noteq> fk_on_delete k)
         (at OnDeleteActionField (referential_sql (fk_on_delete previous))
            (referential_sql (fk_on_delete k)))
     @ only_if (fk_deferrable previous \<noteq> fk_deferrable k)
         (at DeferrableField (describe_deferrable (fk_deferrable previous))
            (describe_deferrable (fk_deferrable k))))"

definition foreign_key_changes :: "table_model \<Rightarrow> table_model \<Rightarrow> schema_change list" where
  "foreign_key_changes old new =
     object_changes (foreign_key_pair_changes old new)
       (\<lambda>k. simple ForeignKeyObject (Some (fk_origin k)) (foreign_key_label k new) Added None)
       (\<lambda>k. simple ForeignKeyObject (Some (fk_origin k)) (foreign_key_label k old) Removed
          (Some DropsConstraint))
       (match_objects fk_origin (ta_foreign_keys old) (ta_foreign_keys new))"

definition check_label :: "check_model \<Rightarrow> string" where
  "check_label c =
     (case ck_name c of
        Some n \<Rightarrow> n
      | None \<Rightarrow> ''CHECK ('' @ fragment_text (ck_expression c) @ '')'')"

definition check_pair_changes :: "check_model \<times> check_model \<Rightarrow> schema_change list" where
  "check_pair_changes = (\<lambda>(previous, c).
     let name = check_label c in
     rename_changes CheckObject (ck_origin c) name (ck_name previous) (ck_name c)
     @ only_if (ck_expression previous \<noteq> ck_expression c)
         (changed CheckObject (Some (ck_origin c)) name ExpressionField
            (fragment_text (ck_expression previous)) (fragment_text (ck_expression c))
            (Some Recreate))
     @ only_if (ck_enforced previous \<noteq> ck_enforced c)
         (changed CheckObject (Some (ck_origin c)) name EnforcedField
            (describe_flag (ck_enforced previous)) (describe_flag (ck_enforced c)) None))"

definition check_changes :: "table_model \<Rightarrow> table_model \<Rightarrow> schema_change list" where
  "check_changes old new =
     object_changes check_pair_changes
       (\<lambda>c. simple CheckObject (Some (ck_origin c)) (check_label c) Added None)
       (\<lambda>c. simple CheckObject (Some (ck_origin c)) (check_label c) Removed (Some DropsConstraint))
       (match_objects ck_origin (ta_checks old) (ta_checks new))"

definition index_pair_changes ::
  "table_model \<Rightarrow> table_model \<Rightarrow> index_model \<times> index_model \<Rightarrow> schema_change list" where
  "index_pair_changes old new = (\<lambda>(previous, i).
     let name = ix_name i;
         at = (\<lambda>field before after.
           changed IndexObject (Some (ix_origin i)) name field before after (Some Recreate)) in
     only_if (ix_name previous \<noteq> ix_name i)
       (simple IndexObject (Some (ix_origin i)) name (Renamed (ix_name previous) (ix_name i)) None)
     @ only_if (ix_unique previous \<noteq> ix_unique i)
         (at UniqueField (describe_flag (ix_unique previous)) (describe_flag (ix_unique i)))
     @ only_if (ix_method previous \<noteq> ix_method i)
         (at MethodField (describe_optional (ix_method previous)) (describe_optional (ix_method i)))
     @ only_if (ix_members previous \<noteq> ix_members i)
         (at MembersField (describe_members previous old) (describe_members i new))
     @ only_if (ix_include previous \<noteq> ix_include i)
         (at IncludeField (join '', '' (column_names old (ix_include previous)))
            (join '', '' (column_names new (ix_include i))))
     @ only_if (ix_predicate previous \<noteq> ix_predicate i)
         (at PredicateField (describe_fragment (ix_predicate previous))
            (describe_fragment (ix_predicate i))))"

definition index_changes :: "table_model \<Rightarrow> table_model \<Rightarrow> schema_change list" where
  "index_changes old new =
     object_changes (index_pair_changes old new)
       (\<lambda>i. simple IndexObject (Some (ix_origin i)) (ix_name i) Added None)
       (\<lambda>i. simple IndexObject (Some (ix_origin i)) (ix_name i) Removed (Some DropsIndex))
       (match_objects ix_origin (ta_indexes old) (ta_indexes new))"

definition diff :: "unicode \<Rightarrow> schema_baseline \<Rightarrow> schema_draft \<Rightarrow> schema_change_set" where
  "diff u baseline draft =
     (let old = sb_table baseline; new = dr_table draft in
      table_changes old new
      @ column_changes u (sb_engine baseline) old new
      @ key_changes PrimaryKeyObject old new
          (as_slice (ta_primary_key old)) (as_slice (ta_primary_key new))
      @ key_changes UniqueObject old new (ta_uniques old) (ta_uniques new)
      @ foreign_key_changes old new
      @ check_changes old new
      @ index_changes old new)"

end
