(* ===== verification/SchemaPlan.thy ===== *)
theory SchemaPlan imports SchemaDiff begin

text \<open>
  \<open>plan_steps\<close> of \<open>schema_edit/diff.rs\<close>: the engine-neutral operations that take a baseline to a
  draft, in plan order.
\<close>

section \<open>Steps of the keys, constraints and indexes\<close>

text \<open>
  Removed objects are dropped, a pair whose definition changed is dropped and added again, a pair
  with only a new name is renamed, added objects are added.  \<open>existing(..).expect(..)\<close> on a pair
  never fails: \<open>match_objects\<close> pairs existing objects only.
\<close>

definition drop_removed :: "('a \<Rightarrow> origin) \<Rightarrow> (nat \<Rightarrow> plan_step) \<Rightarrow> 'a list \<Rightarrow> plan_step list" where
  "drop_removed origin drop' removed =
     concat (map (\<lambda>x. case existing (origin x) of None \<Rightarrow> [] | Some n \<Rightarrow> [drop' n]) removed)"

definition pair_steps ::
  "('a \<Rightarrow> origin) \<Rightarrow> (nat \<Rightarrow> plan_step) \<Rightarrow> (origin \<Rightarrow> plan_step) \<Rightarrow> schema_object
     \<Rightarrow> ('a \<Rightarrow> 'a \<Rightarrow> bool) \<Rightarrow> ('a \<Rightarrow> 'a \<Rightarrow> bool) \<Rightarrow> 'a \<times> 'a \<Rightarrow> plan_step list" where
  "pair_steps origin drop' add object redefined renames = (\<lambda>(previous, x).
     case existing (origin x) of
       None \<Rightarrow> []
     | Some n \<Rightarrow>
         if redefined previous x then [drop' n, add (origin x)]
         else if renames previous x then [RenameConstraint object n]
         else [])"

definition object_steps ::
  "('a \<Rightarrow> origin) \<Rightarrow> (nat \<Rightarrow> plan_step) \<Rightarrow> (origin \<Rightarrow> plan_step) \<Rightarrow> schema_object
     \<Rightarrow> ('a \<Rightarrow> 'a \<Rightarrow> bool) \<Rightarrow> ('a \<Rightarrow> 'a \<Rightarrow> bool) \<Rightarrow> 'a list \<Rightarrow> 'a list \<Rightarrow> plan_step list" where
  "object_steps origin drop' add object redefined renames old new =
     (let (pairs, added, removed) = match_objects origin old new in
      drop_removed origin drop' removed
      @ concat (map (pair_steps origin drop' add object redefined renames) pairs)
      @ map (\<lambda>x. add (origin x)) added)"

text \<open>\<open>previous.name != key.name && key.name.is_some()\<close>.\<close>

definition renames_to :: "string option \<Rightarrow> string option \<Rightarrow> bool" where
  "renames_to old new \<longleftrightarrow> old \<noteq> new \<and> new \<noteq> None"

definition key_redefined :: "key_model \<Rightarrow> key_model \<Rightarrow> bool" where
  "key_redefined previous k \<longleftrightarrow> ke_columns previous \<noteq> ke_columns k"

definition key_renames :: "key_model \<Rightarrow> key_model \<Rightarrow> bool" where
  "key_renames previous k \<longleftrightarrow> renames_to (ke_name previous) (ke_name k)"

definition primary_key_steps :: "table_model \<Rightarrow> table_model \<Rightarrow> plan_step list" where
  "primary_key_steps old new =
     object_steps ke_origin DropPrimaryKey AddPrimaryKey PrimaryKeyObject key_redefined key_renames
       (as_slice (ta_primary_key old)) (as_slice (ta_primary_key new))"

definition unique_steps :: "table_model \<Rightarrow> table_model \<Rightarrow> plan_step list" where
  "unique_steps old new =
     object_steps ke_origin DropUnique AddUnique UniqueObject key_redefined key_renames
       (ta_uniques old) (ta_uniques new)"

definition retyped :: "unicode \<Rightarrow> table_model \<Rightarrow> table_model \<Rightarrow> origin list" where
  "retyped u old new =
     map co_origin (filter (\<lambda>c. case column_of old (co_origin c) of
         None \<Rightarrow> False
       | Some previous \<Rightarrow>
           \<not> types_equal u (co_data_type previous) (co_data_type c)
           \<or> co_collation previous \<noteq> co_collation c) (ta_columns new))"

definition foreign_key_definition_changed :: "foreign_key_model \<Rightarrow> foreign_key_model \<Rightarrow> bool" where
  "foreign_key_definition_changed previous k \<longleftrightarrow>
     fk_columns previous \<noteq> fk_columns k
     \<or> reference_differs previous k
     \<or> fk_on_update previous \<noteq> fk_on_update k
     \<or> fk_on_delete previous \<noteq> fk_on_delete k
     \<or> fk_deferrable previous \<noteq> fk_deferrable k"

definition foreign_key_redefined ::
  "unicode \<Rightarrow> table_model \<Rightarrow> table_model \<Rightarrow> foreign_key_model \<Rightarrow> foreign_key_model \<Rightarrow> bool" where
  "foreign_key_redefined u old new previous k \<longleftrightarrow>
     foreign_key_definition_changed previous k
     \<or> list_ex (\<lambda>x. x \<in> set (retyped u old new)) (fk_columns k)"

definition foreign_key_renames :: "foreign_key_model \<Rightarrow> foreign_key_model \<Rightarrow> bool" where
  "foreign_key_renames previous k \<longleftrightarrow> renames_to (fk_name previous) (fk_name k)"

definition foreign_key_steps :: "unicode \<Rightarrow> table_model \<Rightarrow> table_model \<Rightarrow> plan_step list" where
  "foreign_key_steps u old new =
     object_steps fk_origin DropForeignKey AddForeignKey ForeignKeyObject
       (foreign_key_redefined u old new) foreign_key_renames
       (ta_foreign_keys old) (ta_foreign_keys new)"

definition check_redefined :: "check_model \<Rightarrow> check_model \<Rightarrow> bool" where
  "check_redefined previous c \<longleftrightarrow>
     ck_expression previous \<noteq> ck_expression c \<or> ck_enforced previous \<noteq> ck_enforced c"

definition check_renames :: "check_model \<Rightarrow> check_model \<Rightarrow> bool" where
  "check_renames previous c \<longleftrightarrow> renames_to (ck_name previous) (ck_name c)"

definition check_steps :: "table_model \<Rightarrow> table_model \<Rightarrow> plan_step list" where
  "check_steps old new =
     object_steps ck_origin DropCheck AddCheck CheckObject check_redefined check_renames
       (ta_checks old) (ta_checks new)"

definition index_redefined :: "index_model \<Rightarrow> index_model \<Rightarrow> bool" where
  "index_redefined previous i \<longleftrightarrow>
     ix_unique previous \<noteq> ix_unique i
     \<or> ix_method previous \<noteq> ix_method i
     \<or> ix_members previous \<noteq> ix_members i
     \<or> ix_include previous \<noteq> ix_include i
     \<or> ix_predicate previous \<noteq> ix_predicate i"

definition index_renames :: "index_model \<Rightarrow> index_model \<Rightarrow> bool" where
  "index_renames previous i \<longleftrightarrow> ix_name previous \<noteq> ix_name i"

definition index_steps :: "table_model \<Rightarrow> table_model \<Rightarrow> plan_step list" where
  "index_steps old new =
     object_steps ix_origin DropIndex CreateIndex IndexObject index_redefined index_renames
       (ta_indexes old) (ta_indexes new)"

section \<open>Steps of the columns and the table\<close>

definition surviving_column_steps :: "unicode \<Rightarrow> nat \<Rightarrow> column_model \<Rightarrow> column_model \<Rightarrow> plan_step list" where
  "surviving_column_steps u n previous c =
     only_if (co_name previous \<noteq> co_name c) (RenameColumn n)
     @ (let fields = column_field_changes u previous c in
        only_if (fields \<noteq> []) (AlterColumn n fields))
     @ only_if (co_comment previous \<noteq> co_comment c) (SetColumnComment (co_origin c))"

definition column_steps_of :: "unicode \<Rightarrow> table_model \<Rightarrow> column_model \<Rightarrow> plan_step list" where
  "column_steps_of u old c =
     (case previous_column old c of
        Some previous \<Rightarrow>
          (case existing (co_origin c) of
             None \<Rightarrow> []
           | Some n \<Rightarrow> surviving_column_steps u n previous c)
      | None \<Rightarrow>
          AddColumn (co_origin c)
          # only_if (co_comment c \<noteq> None) (SetColumnComment (co_origin c)))"

fun new_before_existing :: "bool \<Rightarrow> column_model list \<Rightarrow> bool" where
  "new_before_existing seen_new [] \<longleftrightarrow> False"
| "new_before_existing seen_new (c # cs) \<longleftrightarrow>
     (if is_new (co_origin c) then new_before_existing True cs
      else if seen_new then True
      else new_before_existing seen_new cs)"

definition columns_reordered :: "table_model \<Rightarrow> table_model \<Rightarrow> bool" where
  "columns_reordered old new \<longleftrightarrow>
     (if moved_columns old new \<noteq> [] then True else new_before_existing False (ta_columns new))"

definition column_steps :: "unicode \<Rightarrow> table_model \<Rightarrow> table_model \<Rightarrow> plan_step list" where
  "column_steps u old new =
     concat (map (column_steps_of u old) (ta_columns new))
     @ concat (map (\<lambda>c. if column_of new (co_origin c) = None
         then case existing (co_origin c) of None \<Rightarrow> [] | Some n \<Rightarrow> [DropColumn n]
         else []) (ta_columns old))
     @ only_if (columns_reordered old new) ReorderColumns"

definition table_steps :: "table_model \<Rightarrow> table_model \<Rightarrow> plan_step list" where
  "table_steps old new =
     only_if (ta_name old \<noteq> ta_name new) RenameTable
     @ only_if (ta_comment old \<noteq> ta_comment new) SetTableComment
     @ (let fields = map fst (option_changes (ta_options old) (ta_options new)) in
        only_if (fields \<noteq> []) (SetTableOptions fields))"

definition unsorted_steps :: "unicode \<Rightarrow> table_model \<Rightarrow> table_model \<Rightarrow> plan_step list" where
  "unsorted_steps u old new =
     primary_key_steps old new @ unique_steps old new @ foreign_key_steps u old new
     @ check_steps old new @ index_steps old new @ column_steps u old new @ table_steps old new"

text \<open>\<open>sort_by_key\<close> is stable, as \<open>sort_key\<close> is.\<close>

definition plan_steps :: "unicode \<Rightarrow> schema_baseline \<Rightarrow> schema_draft \<Rightarrow> plan_step list" where
  "plan_steps u baseline draft =
     sort_key phase (unsorted_steps u (sb_table baseline) (dr_table draft))"

end
