(* ===== verification/SchemaValidate.thy ===== *)
theory SchemaValidate imports SchemaDiff begin

text \<open>
  \<open>validate\<close> of \<open>schema_edit/diff.rs\<close>: every issue that keeps a draft from being planned, in the
  order the source reports them.
\<close>

section \<open>Names, fragments and members\<close>

fun name_limit :: "schema_engine \<Rightarrow> nat" where
  "name_limit PgEngine = 63"
| "name_limit MySqlEngine = 64"
| "name_limit SqliteEngine = MAX_SCHEMA_EDIT_NAME_BYTES"

definition name_problem :: "schema_engine \<Rightarrow> string \<Rightarrow> string option" where
  "name_problem engine name =
     (let too_long = (if engine = MySqlEngine then 64 < chars_count name
                      else name_limit engine < length name) in
      if trim name = [] then Some ''name is empty''
      else if NUL \<in> set name then Some ''name contains a NUL character''
      else if too_long \<or> MAX_SCHEMA_EDIT_NAME_BYTES < length name
      then Some (''name is longer than '' @ decimal (name_limit engine) @ '' ''
                 @ (if engine = MySqlEngine then ''characters'' else ''bytes''))
      else if engine = MySqlEngine \<and> last name = CHR '' ''
      then Some ''MySQL names cannot end with a space''
      else None)"

definition fragment_issue ::
  "unicode \<Rightarrow> schema_engine \<Rightarrow> schema_object \<Rightarrow> origin \<Rightarrow> string \<Rightarrow> string \<Rightarrow> draft_issue list" where
  "fragment_issue u engine object origin what text =
     (case check_fragment text engine of
        Inl e \<Rightarrow> [issue_at object origin (what @ '' '' @ fragment_error_display u e)]
      | Inr _ \<Rightarrow> [])"

fun member_loop ::
  "table_model \<Rightarrow> schema_object \<Rightarrow> origin \<Rightarrow> origin list \<Rightarrow> origin list \<Rightarrow> draft_issue list" where
  "member_loop table object origin seen [] = []"
| "member_loop table object origin seen (m # ms) =
     (if column_of table m = None
      then issue_at object origin ''references a column that is not in the table''
           # member_loop table object origin seen ms
      else if m \<in> set seen
      then issue_at object origin ''lists a column twice'' # member_loop table object origin seen ms
      else member_loop table object origin (m # seen) ms)"

definition member_issues ::
  "table_model \<Rightarrow> schema_object \<Rightarrow> origin \<Rightarrow> origin list \<Rightarrow> bool \<Rightarrow> draft_issue list" where
  "member_issues table object origin members allow_empty =
     only_if (members = [] \<and> \<not> allow_empty) (issue_at object origin ''has no columns'')
     @ only_if (MAX_SCHEMA_EDIT_MEMBERS < length members)
         (issue_at object origin
            (''has more than '' @ decimal MAX_SCHEMA_EDIT_MEMBERS @ '' columns''))
     @ member_loop table object origin [] members"

section \<open>The table and its origins\<close>

definition comment_problem :: "string option \<Rightarrow> bool" where
  "comment_problem comment =
     (case comment of
        None \<Rightarrow> False
      | Some c \<Rightarrow> MAX_SCHEMA_EDIT_COMMENT_BYTES < length c \<or> NUL \<in> set c)"

definition table_issues :: "schema_engine \<Rightarrow> table_model \<Rightarrow> table_model \<Rightarrow> draft_issue list" where
  "table_issues engine old table =
     (case name_problem engine (ta_name table) of
        None \<Rightarrow> [] | Some problem \<Rightarrow> [issue_table (''Table '' @ problem)])
     @ only_if (ta_schema table \<noteq> ta_schema old)
         (issue_table ''Moving a table to another schema is not supported'')
     @ only_if (ta_options table \<noteq> ta_options old \<and> engine = PgEngine)
         (issue_table ''PostgreSQL has no editable table options'')
     @ only_if (comment_problem (ta_comment table))
         (issue_table ''Table comment is too long or contains NUL'')
     @ only_if (ta_columns table = []) (issue_table ''A table needs at least one column'')
     @ only_if (MAX_SCHEMA_EDIT_COLUMNS < length (ta_columns table))
         (issue_table (''More than '' @ decimal MAX_SCHEMA_EDIT_COLUMNS @ '' columns''))
     @ concat (map (\<lambda>(count, what).
           only_if (MAX_SCHEMA_EDIT_OBJECTS < count)
             (issue_table (''More than '' @ decimal MAX_SCHEMA_EDIT_OBJECTS @ '' '' @ what)))
         [(length (ta_uniques table), ''unique keys''),
          (length (ta_foreign_keys table), ''foreign keys''),
          (length (ta_checks table), ''checks''),
          (length (ta_indexes table), ''indexes'')])"

definition all_origins :: "table_model \<Rightarrow> (schema_object \<times> origin) list" where
  "all_origins table =
     map (\<lambda>c. (ColumnObject, co_origin c)) (ta_columns table)
     @ map (\<lambda>k. (PrimaryKeyObject, ke_origin k)) (as_slice (ta_primary_key table))
     @ map (\<lambda>k. (UniqueObject, ke_origin k)) (ta_uniques table)
     @ map (\<lambda>k. (ForeignKeyObject, fk_origin k)) (ta_foreign_keys table)
     @ map (\<lambda>c. (CheckObject, ck_origin c)) (ta_checks table)
     @ map (\<lambda>i. (IndexObject, ix_origin i)) (ta_indexes table)"

definition known_origin :: "table_model \<Rightarrow> schema_object \<Rightarrow> origin \<Rightarrow> bool" where
  "known_origin old object x \<longleftrightarrow>
     is_new x
     \<or> (case object of
          ColumnObject \<Rightarrow> column_of old x \<noteq> None
        | PrimaryKeyObject \<Rightarrow>
            (case ta_primary_key old of None \<Rightarrow> False | Some k \<Rightarrow> ke_origin k = x)
        | UniqueObject \<Rightarrow> list_ex (\<lambda>k. ke_origin k = x) (ta_uniques old)
        | ForeignKeyObject \<Rightarrow> foreign_key_of old x \<noteq> None
        | CheckObject \<Rightarrow> check_of old x \<noteq> None
        | IndexObject \<Rightarrow> index_of old x \<noteq> None
        | TableObject \<Rightarrow> False)"

text \<open>
  \<open>origins\<close> and \<open>new_ids\<close> are the two sets of the loop.  A repeated pair is refused before the
  second set is touched.
\<close>

fun origin_issues ::
  "table_model \<Rightarrow> nat \<Rightarrow> (schema_object \<times> origin) list \<Rightarrow> origin list
     \<Rightarrow> (schema_object \<times> origin) list \<Rightarrow> draft_issue list" where
  "origin_issues old next_id origins new_ids [] = []"
| "origin_issues old next_id origins new_ids ((object, x) # rest) =
     (let repeated = (object, x) \<in> set origins in
      only_if (repeated \<or> is_new x \<and> x \<in> set new_ids) (issue_at object x ''appears twice'')
      @ (case x of
           New n \<Rightarrow> only_if (next_id \<le> n)
             (issue_at object x ''has an identity the draft did not issue'')
         | Existing n \<Rightarrow> [])
      @ only_if (\<not> known_origin old object x)
          (issue_at object x ''is not part of the captured table'')
      @ origin_issues old next_id ((object, x) # origins)
          (if \<not> repeated \<and> is_new x then x # new_ids else new_ids) rest)"

section \<open>Columns\<close>

definition identity_issues :: "schema_engine \<Rightarrow> column_model \<Rightarrow> draft_issue list" where
  "identity_issues engine c =
     (let at = issue_at ColumnObject (co_origin c); defaulted = \<not> is_no_default (co_default c) in
      case co_identity c of
        NoIdentity \<Rightarrow> []
      | AutoIncrement \<Rightarrow>
          only_if (engine = PgEngine) (at ''Use an identity column on PostgreSQL'')
          @ only_if defaulted (at ''An auto-increment column cannot have a default'')
      | _ \<Rightarrow>
          only_if (engine \<noteq> PgEngine) (at ''Identity columns are PostgreSQL only'')
          @ only_if defaulted (at ''An identity column cannot have a default'')
          @ only_if (co_nullable c) (at ''An identity column must be NOT NULL''))"

definition optional_name_problem :: "schema_engine \<Rightarrow> string option \<Rightarrow> bool" where
  "optional_name_problem engine value =
     (case value of None \<Rightarrow> False | Some v \<Rightarrow> name_problem engine v \<noteq> None)"

definition column_issues ::
  "unicode \<Rightarrow> schema_engine \<Rightarrow> string list \<Rightarrow> column_model \<Rightarrow> draft_issue list" where
  "column_issues u engine names c =
     (let at = issue_at ColumnObject (co_origin c);
          fragment = fragment_issue u engine ColumnObject (co_origin c) in
      (case name_problem engine (co_name c) of
         Some problem \<Rightarrow> [at (''Column '' @ problem)]
       | None \<Rightarrow> only_if (list_ex (\<lambda>name. same_name engine name (co_name c)) names)
           (at (''Column name '' @ co_name c @ '' is used twice'')))
      @ (case check_data_type u (co_data_type c) engine of
           Inl e \<Rightarrow> [at (''Type '' @ fragment_error_display u e)] | Inr _ \<Rightarrow> [])
      @ (case co_default c of
           Expression sql \<Rightarrow> fragment ''Default'' (fragment_text sql)
         | Literal text \<Rightarrow> only_if (NUL \<in> set text) (at ''Default contains a NUL character'')
         | NoDefault \<Rightarrow> [])
      @ (case co_generated c of
           None \<Rightarrow> []
         | Some g \<Rightarrow>
             fragment ''Generated expression'' (fragment_text (ge_expression g))
             @ only_if (\<not> is_no_default (co_default c))
                 (at ''A generated column cannot have a default'')
             @ only_if (co_identity c \<noteq> NoIdentity)
                 (at ''A generated column cannot be an identity''))
      @ identity_issues engine c
      @ (case ex_on_update (co_extra c) of
           None \<Rightarrow> [] | Some sql \<Rightarrow> fragment ''ON UPDATE'' (fragment_text sql))
      @ only_if (comment_problem (co_comment c)) (at ''Comment is too long or contains NUL'')
      @ concat (map (\<lambda>(what, value).
            only_if (optional_name_problem engine value) (at (what @ '' is not a valid name'')))
          [(''Collation'', co_collation c), (''Character set'', ex_charset (co_extra c))]))"

fun columns_issues ::
  "unicode \<Rightarrow> schema_engine \<Rightarrow> string list \<Rightarrow> column_model list \<Rightarrow> draft_issue list" where
  "columns_issues u engine names [] = []"
| "columns_issues u engine names (c # cs) =
     column_issues u engine names c @ columns_issues u engine (names @ [co_name c]) cs"

section \<open>Constraints\<close>

definition old_names :: "table_model \<Rightarrow> (schema_object \<times> origin \<times> bool) list" where
  "old_names old =
     map (\<lambda>k. (UniqueObject, ke_origin k, ke_name k \<noteq> None)) (table_keys old)
     @ map (\<lambda>k. (ForeignKeyObject, fk_origin k, fk_name k \<noteq> None)) (ta_foreign_keys old)
     @ map (\<lambda>c. (CheckObject, ck_origin c, ck_name c \<noteq> None)) (ta_checks old)"

text \<open>\<open>a.or_else(b)\<close>.\<close>

definition or_else :: "'a option \<Rightarrow> 'a option \<Rightarrow> 'a option" where
  "or_else a b = (case a of None \<Rightarrow> b | Some x \<Rightarrow> Some x)"

definition name_cleared :: "table_model \<Rightarrow> origin \<Rightarrow> bool" where
  "name_cleared table x =
     (case or_else (map_option (\<lambda>k. ke_name k = None) (key_of table x))
             (or_else (map_option (\<lambda>k. fk_name k = None) (foreign_key_of table x))
                (map_option (\<lambda>c. ck_name c = None) (check_of table x))) of
        None \<Rightarrow> False | Some b \<Rightarrow> b)"

definition lost_name_issues :: "table_model \<Rightarrow> table_model \<Rightarrow> draft_issue list" where
  "lost_name_issues old table =
     concat (map (\<lambda>(object, x, named).
         only_if (named \<and> name_cleared table x)
           (issue_at object x ''An existing constraint must keep a name''))
       (old_names old))"

text \<open>The closure \<open>named\<close>; its list of names grows by \<open>as_slice name\<close>.\<close>

definition named_issues ::
  "schema_engine \<Rightarrow> string list \<Rightarrow> string option \<Rightarrow> schema_object \<Rightarrow> origin \<Rightarrow> draft_issue list" where
  "named_issues engine names name object origin =
     (case name of
        None \<Rightarrow> []
      | Some n \<Rightarrow>
          (case name_problem engine n of
             Some problem \<Rightarrow> [issue_at object origin (object_label object @ '' '' @ problem)]
           | None \<Rightarrow> only_if (list_ex (\<lambda>other. same_name engine other n) names)
               (issue_at object origin (''Name '' @ n @ '' is used twice''))))"

definition virtual_member :: "table_model \<Rightarrow> origin \<Rightarrow> bool" where
  "virtual_member table m =
     (case column_of table m of
        None \<Rightarrow> False
      | Some c \<Rightarrow> (case co_generated c of None \<Rightarrow> False | Some g \<Rightarrow> \<not> ge_stored g))"

definition primary_key_issues :: "schema_engine \<Rightarrow> table_model \<Rightarrow> draft_issue list" where
  "primary_key_issues engine table =
     (case ta_primary_key table of
        None \<Rightarrow> []
      | Some k \<Rightarrow>
          named_issues engine [] (ke_name k) PrimaryKeyObject (ke_origin k)
          @ member_issues table PrimaryKeyObject (ke_origin k) (ke_columns k) False
          @ concat (map (\<lambda>m. only_if (virtual_member table m)
                (issue_at PrimaryKeyObject (ke_origin k)
                   ''A virtual generated column cannot be in the primary key''))
              (ke_columns k)))"

fun unique_issues ::
  "schema_engine \<Rightarrow> table_model \<Rightarrow> string list \<Rightarrow> key_model list \<Rightarrow> draft_issue list" where
  "unique_issues engine table names [] = []"
| "unique_issues engine table names (k # ks) =
     named_issues engine names (ke_name k) UniqueObject (ke_origin k)
     @ member_issues table UniqueObject (ke_origin k) (ke_columns k) False
     @ unique_issues engine table (names @ as_slice (ke_name k)) ks"

definition foreign_key_shape_issues ::
  "schema_engine \<Rightarrow> table_model \<Rightarrow> foreign_key_model \<Rightarrow> draft_issue list" where
  "foreign_key_shape_issues engine table k =
     (let at = issue_at ForeignKeyObject (fk_origin k);
          implicit = fk_referenced_columns k = [] \<and> engine = SqliteEngine in
      member_issues table ForeignKeyObject (fk_origin k) (fk_columns k) False
      @ (case name_problem engine (fk_referenced_table k) of
           None \<Rightarrow> [] | Some problem \<Rightarrow> [at (''Referenced table '' @ problem)])
      @ (case fk_referenced_schema k of
           None \<Rightarrow> []
         | Some schema \<Rightarrow>
             (case name_problem engine schema of
                None \<Rightarrow> [] | Some problem \<Rightarrow> [at (''Referenced schema '' @ problem)]))
      @ only_if (\<not> implicit \<and> length (fk_referenced_columns k) \<noteq> length (fk_columns k))
          (at ''Column and referenced column counts differ'')
      @ only_if (list_ex (\<lambda>c. name_problem engine c \<noteq> None) (fk_referenced_columns k))
          (at ''A referenced column name is invalid''))"

fun foreign_key_issues ::
  "schema_engine \<Rightarrow> table_model \<Rightarrow> string list \<Rightarrow> foreign_key_model list \<Rightarrow> draft_issue list" where
  "foreign_key_issues engine table names [] = []"
| "foreign_key_issues engine table names (k # ks) =
     named_issues engine names (fk_name k) ForeignKeyObject (fk_origin k)
     @ foreign_key_shape_issues engine table k
     @ foreign_key_issues engine table (names @ as_slice (fk_name k)) ks"

fun check_issues ::
  "unicode \<Rightarrow> schema_engine \<Rightarrow> string list \<Rightarrow> check_model list \<Rightarrow> draft_issue list" where
  "check_issues u engine names [] = []"
| "check_issues u engine names (c # cs) =
     named_issues engine names (ck_name c) CheckObject (ck_origin c)
     @ fragment_issue u engine CheckObject (ck_origin c) ''Check'' (fragment_text (ck_expression c))
     @ check_issues u engine (names @ as_slice (ck_name c)) cs"

section \<open>Indexes\<close>

definition index_member_issues ::
  "unicode \<Rightarrow> schema_engine \<Rightarrow> origin \<Rightarrow> index_member \<Rightarrow> draft_issue list" where
  "index_member_issues u engine origin m =
     (case im_target m of
        TargetExpression sql \<Rightarrow>
          fragment_issue u engine IndexObject origin ''Index expression'' (fragment_text sql)
      | TargetColumn x \<Rightarrow> [])
     @ only_if (optional_name_problem engine (im_collation m))
         (issue_at IndexObject origin ''Collation is not a valid name'')
     @ only_if (case im_prefix_length m of None \<Rightarrow> False | Some n \<Rightarrow> n = 0 \<or> 65535 < n)
         (issue_at IndexObject origin ''Key prefix length must be between 1 and 65535'')"

definition index_shape_issues ::
  "unicode \<Rightarrow> schema_engine \<Rightarrow> table_model \<Rightarrow> index_model \<Rightarrow> draft_issue list" where
  "index_shape_issues u engine table i =
     (let at = issue_at IndexObject (ix_origin i) in
      only_if (ix_members i = []) (at ''has no members'')
      @ only_if (MAX_SCHEMA_EDIT_MEMBERS < length (ix_members i))
          (at (''has more than '' @ decimal MAX_SCHEMA_EDIT_MEMBERS @ '' members''))
      @ member_issues table IndexObject (ix_origin i) (target_columns i) True
      @ member_issues table IndexObject (ix_origin i) (ix_include i) True
      @ concat (map (index_member_issues u engine (ix_origin i)) (ix_members i))
      @ (case ix_predicate i of
           None \<Rightarrow> []
         | Some sql \<Rightarrow>
             fragment_issue u engine IndexObject (ix_origin i) ''Predicate'' (fragment_text sql))
      @ (case ix_method i of
           None \<Rightarrow> []
         | Some method \<Rightarrow>
             only_if (method = []
                 \<or> \<not> list_all (\<lambda>c. is_ascii_alphanumeric c \<or> c = CHR ''_'') method)
               (at ''Index method is not a plain name'')))"

definition index_name_issues ::
  "schema_engine \<Rightarrow> string list \<Rightarrow> index_model \<Rightarrow> draft_issue list" where
  "index_name_issues engine names i =
     (case name_problem engine (ix_name i) of
        Some problem \<Rightarrow> [issue_at IndexObject (ix_origin i) (''Index '' @ problem)]
      | None \<Rightarrow> only_if (list_ex (\<lambda>other. same_name engine other (ix_name i)) names)
          (issue_at IndexObject (ix_origin i) (''Index name '' @ ix_name i @ '' is used twice'')))"

fun index_issues ::
  "unicode \<Rightarrow> schema_engine \<Rightarrow> table_model \<Rightarrow> string list \<Rightarrow> index_model list \<Rightarrow> draft_issue list"
  where
  "index_issues u engine table names [] = []"
| "index_issues u engine table names (i # is) =
     index_name_issues engine names i
     @ index_shape_issues u engine table i
     @ index_issues u engine table (names @ [ix_name i]) is"

section \<open>Expressions that still use an old column name\<close>

text \<open>
  The loop of \<open>mentions\<close> does not return on an empty name (\<open>None\<close>): it would find it at the same
  place for ever.
\<close>

definition name_boundary :: "char option \<Rightarrow> bool" where
  "name_boundary b =
     (case b of
        None \<Rightarrow> True
      | Some b \<Rightarrow> \<not> (is_ascii_alphanumeric b \<or> b = CHR ''_'' \<or> b = CHR ''$''))"

partial_function (option) mentions_loop :: "string \<Rightarrow> string \<Rightarrow> nat \<Rightarrow> bool option" where
  "mentions_loop lower name from' =
     (case find_window name lower from' of
        None \<Rightarrow> Some False
      | Some start \<Rightarrow>
          if name_boundary (if start = 0 then None else get lower (start - 1))
             \<and> name_boundary (get lower (start + length name))
          then Some True
          else mentions_loop lower name (start + length name))"

definition mentions :: "unicode \<Rightarrow> string \<Rightarrow> string \<Rightarrow> bool option" where
  "mentions u text name = mentions_loop (uc_lower_text u text) (uc_lower_text u name) 0"

text \<open>\<open>Iterator::any\<close> over tests that may not return.\<close>

fun any_returns :: "('a \<Rightarrow> bool option) \<Rightarrow> 'a list \<Rightarrow> bool option" where
  "any_returns f [] = Some False"
| "any_returns f (x # xs) =
     (case f x of None \<Rightarrow> None | Some b \<Rightarrow> if b then Some True else any_returns f xs)"

fun concat_returns :: "'a list option list \<Rightarrow> 'a list option" where
  "concat_returns [] = Some []"
| "concat_returns (r # rs) =
     (case r of None \<Rightarrow> None | Some xs \<Rightarrow> map_option ((@) xs) (concat_returns rs))"

definition renamed_columns :: "table_model \<Rightarrow> table_model \<Rightarrow> string list" where
  "renamed_columns old new =
     List.map_filter (\<lambda>c. case column_of old (co_origin c) of
         None \<Rightarrow> None
       | Some previous \<Rightarrow>
           if co_name previous \<noteq> co_name c \<and> \<not> is_new (co_origin c) then Some (co_name previous)
           else None) (ta_columns new)"

definition stale_check ::
  "(string \<Rightarrow> bool option) \<Rightarrow> table_model \<Rightarrow> check_model \<Rightarrow> draft_issue list option" where
  "stale_check stale old c =
     (case check_of old (ck_origin c) of
        None \<Rightarrow> Some []
      | Some previous \<Rightarrow>
          if ck_enforced previous \<noteq> ck_enforced c \<and> ck_expression previous = ck_expression c
          then map_option (\<lambda>b. only_if b (issue_at CheckObject (ck_origin c)
            ''This check is re-created and its expression still uses a renamed column's old name; edit the expression''))
            (stale (fragment_text (ck_expression c)))
          else Some [])"

definition untouched_expressions :: "index_model \<Rightarrow> index_model \<Rightarrow> sql_fragment list" where
  "untouched_expressions previous i =
     filter (\<lambda>sql. list_ex (\<lambda>m. im_target m = TargetExpression sql) (ix_members previous))
       (List.map_filter (\<lambda>m. case im_target m of
            TargetExpression sql \<Rightarrow> Some sql | TargetColumn x \<Rightarrow> None) (ix_members i))
     @ filter (\<lambda>p. ix_predicate previous = Some p) (as_slice (ix_predicate i))"

definition index_recreated :: "index_model \<Rightarrow> index_model \<Rightarrow> bool" where
  "index_recreated previous i \<longleftrightarrow>
     ix_unique previous \<noteq> ix_unique i
     \<or> ix_method previous \<noteq> ix_method i
     \<or> ix_members previous \<noteq> ix_members i
     \<or> ix_include previous \<noteq> ix_include i
     \<or> ix_predicate previous \<noteq> ix_predicate i"

definition stale_index ::
  "(string \<Rightarrow> bool option) \<Rightarrow> table_model \<Rightarrow> index_model \<Rightarrow> draft_issue list option" where
  "stale_index stale old i =
     (case index_of old (ix_origin i) of
        None \<Rightarrow> Some []
      | Some previous \<Rightarrow>
          if index_recreated previous i
          then map_option (\<lambda>b. only_if b (issue_at IndexObject (ix_origin i)
            ''This index is re-created and an expression still uses a renamed column's old name; edit it''))
            (any_returns (\<lambda>sql. stale (fragment_text sql)) (untouched_expressions previous i))
          else Some [])"

definition stale_recreated_expressions ::
  "unicode \<Rightarrow> schema_baseline \<Rightarrow> schema_draft \<Rightarrow> draft_issue list option" where
  "stale_recreated_expressions u baseline draft =
     (let old = sb_table baseline; new = dr_table draft; renamed = renamed_columns old new;
          stale = (\<lambda>text. any_returns (mentions u text) renamed) in
      if sb_engine baseline = SqliteEngine \<or> renamed = [] then Some []
      else concat_returns (map (stale_check stale old) (ta_checks new)
             @ map (stale_index stale old) (ta_indexes new)))"

section \<open>The whole validation\<close>

definition shape_issues :: "unicode \<Rightarrow> schema_baseline \<Rightarrow> schema_draft \<Rightarrow> draft_issue list" where
  "shape_issues u baseline draft =
     (let engine = sb_engine baseline; old = sb_table baseline; table = dr_table draft;
          key_names = (case ta_primary_key table of None \<Rightarrow> [] | Some k \<Rightarrow> as_slice (ke_name k));
          unique_names = key_names @ List.map_filter ke_name (ta_uniques table);
          foreign_names = unique_names @ List.map_filter fk_name (ta_foreign_keys table) in
      table_issues engine old table
      @ origin_issues old (dr_next_id draft) [] [] (all_origins table)
      @ columns_issues u engine [] (ta_columns table)
      @ lost_name_issues old table
      @ primary_key_issues engine table
      @ unique_issues engine table key_names (ta_uniques table)
      @ foreign_key_issues engine table unique_names (ta_foreign_keys table)
      @ check_issues u engine foreign_names (ta_checks table)
      @ index_issues u engine table [] (ta_indexes table))"

definition validate :: "unicode \<Rightarrow> schema_baseline \<Rightarrow> schema_draft \<Rightarrow> draft_issue list option" where
  "validate u baseline draft =
     map_option ((@) (shape_issues u baseline draft)) (stale_recreated_expressions u baseline draft)"

end
