(* ===== verification/SchemaRebase.thy ===== *)
theory SchemaRebase imports SchemaDiff "HOL-Library.List_Lexorder" "HOL-Library.Char_ord" "HOL-Library.Option_ord" "HOL-Library.Product_Lexorder" begin

text \<open>
  \<open>schema_edit/rebase.rs\<close>: a draft edited against one baseline is carried over to a newer one by a
  three-way merge, per field for columns and the table, per object for the rest.
\<close>

section \<open>Three-way merge\<close>

type_synonym rebase_conflict = draft_issue

text \<open>\<open>merge\<close> returns the merged value; the second component is what it ors into \<open>conflict\<close>.\<close>

definition merge :: "'a \<Rightarrow> 'a \<Rightarrow> 'a \<Rightarrow> 'a \<times> bool" where
  "merge base server user =
     (if user = base then (server, False)
      else (user, server \<noteq> base \<and> server \<noteq> user))"

definition merge_extra :: "column_extra \<Rightarrow> column_extra \<Rightarrow> column_extra \<Rightarrow> column_extra" where
  "merge_extra base server user =
     \<lparr>ex_charset = fst (merge (ex_charset base) (ex_charset server) (ex_charset user)),
      ex_on_update = fst (merge (ex_on_update base) (ex_on_update server) (ex_on_update user)),
      ex_invisible = fst (merge (ex_invisible base) (ex_invisible server) (ex_invisible user))\<rparr>"

definition merge_column ::
  "column_model \<Rightarrow> column_model \<Rightarrow> column_model \<Rightarrow> column_model \<times> string list" where
  "merge_column base server user =
     (server\<lparr>co_name := fst (merge (co_name base) (co_name server) (co_name user)),
         co_data_type := fst (merge (co_data_type base) (co_data_type server) (co_data_type user)),
         co_nullable := fst (merge (co_nullable base) (co_nullable server) (co_nullable user)),
         co_default := fst (merge (co_default base) (co_default server) (co_default user)),
         co_generated := fst (merge (co_generated base) (co_generated server) (co_generated user)),
         co_identity := fst (merge (co_identity base) (co_identity server) (co_identity user)),
         co_collation := fst (merge (co_collation base) (co_collation server) (co_collation user)),
         co_comment := fst (merge (co_comment base) (co_comment server) (co_comment user)),
         co_extra := merge_extra (co_extra base) (co_extra server) (co_extra user)\<rparr>,
       only_if (snd (merge (co_name base) (co_name server) (co_name user))) ''name''
       @ only_if (snd (merge (co_data_type base) (co_data_type server) (co_data_type user))) ''type''
       @ only_if (snd (merge (co_nullable base) (co_nullable server) (co_nullable user))) ''nullable''
       @ only_if (snd (merge (co_default base) (co_default server) (co_default user))) ''default''
       @ only_if (snd (merge (co_generated base) (co_generated server) (co_generated user)))
           ''generated''
       @ only_if (snd (merge (co_identity base) (co_identity server) (co_identity user))) ''identity''
       @ only_if (snd (merge (co_collation base) (co_collation server) (co_collation user)))
           ''collation''
       @ only_if (snd (merge (co_comment base) (co_comment server) (co_comment user))) ''comment''
       @ only_if (snd (merge (ex_charset (co_extra base)) (ex_charset (co_extra server))
             (ex_charset (co_extra user)))) ''character set''
       @ only_if (snd (merge (ex_on_update (co_extra base)) (ex_on_update (co_extra server))
             (ex_on_update (co_extra user)))) ''on update''
       @ only_if (snd (merge (ex_invisible (co_extra base)) (ex_invisible (co_extra server))
             (ex_invisible (co_extra user)))) ''invisible'')"

section \<open>Objects\<close>

text \<open>
  One pass over the server's objects, then one over the draft's; each yields the objects kept and
  the conflicts.
\<close>

definition merge_server_object ::
  "schema_object \<Rightarrow> ('a \<Rightarrow> origin) \<Rightarrow> ('a \<Rightarrow> string) \<Rightarrow> 'a list \<Rightarrow> 'a list \<Rightarrow> 'a
     \<Rightarrow> 'a list \<times> rebase_conflict list" where
  "merge_server_object object origin label base user current =
     (let x = origin current; lookup = (\<lambda>items. find (\<lambda>item. origin item = x) items) in
      case lookup base of
        None \<Rightarrow> ([current], [])
      | Some previous \<Rightarrow>
          (case lookup user of
             Some edited \<Rightarrow>
               if edited = previous then ([current], [])
               else ([edited],
                     only_if (current \<noteq> previous \<and> current \<noteq> edited)
                       (issue_at object x (label edited
                          @ '' changed on the server and in the draft; the draft wins'')))
           | None \<Rightarrow>
               ([], only_if (current \<noteq> previous)
                  (issue_at object x (label current
                     @ '' was removed in the draft but changed on the server'')))))"

definition merge_user_object ::
  "schema_object \<Rightarrow> ('a \<Rightarrow> origin) \<Rightarrow> ('a \<Rightarrow> string) \<Rightarrow> 'a list \<Rightarrow> 'a list \<Rightarrow> 'a
     \<Rightarrow> 'a list \<times> rebase_conflict list" where
  "merge_user_object object origin label base server edited =
     (let x = origin edited; lookup = (\<lambda>items. find (\<lambda>item. origin item = x) items) in
      if lookup server \<noteq> None then ([], [])
      else
        (case lookup base of
           None \<Rightarrow> ([edited], [])
         | Some previous \<Rightarrow>
             ([], only_if (edited \<noteq> previous)
                (issue_at object x (label edited
                   @ '' was removed on the server; the draft's edit is dropped'')))))"

definition merge_objects ::
  "schema_object \<Rightarrow> ('a \<Rightarrow> origin) \<Rightarrow> ('a \<Rightarrow> string) \<Rightarrow> 'a list \<Rightarrow> 'a list \<Rightarrow> 'a list
     \<Rightarrow> 'a list \<times> rebase_conflict list" where
  "merge_objects object origin label base server user =
     (let rs = map (merge_server_object object origin label base user) server
             @ map (merge_user_object object origin label base server) user in
      (concat (map fst rs), concat (map snd rs)))"

definition rebase_key_label :: "key_model \<Rightarrow> string" where
  "rebase_key_label k = (case ke_name k of None \<Rightarrow> ''Key'' | Some n \<Rightarrow> n)"

section \<open>When ids can be compared\<close>

text \<open>\<open>str::splitn\<close> on one byte.\<close>

fun splitn :: "nat \<Rightarrow> char \<Rightarrow> string \<Rightarrow> string list" where
  "splitn 0 sep s = []"
| "splitn (Suc 0) sep s = [s]"
| "splitn (Suc (Suc n)) sep s =
     (case dropWhile (\<lambda>c. c \<noteq> sep) s of
        [] \<Rightarrow> [s]
      | c # rest \<Rightarrow> takeWhile (\<lambda>c. c \<noteq> sep) s # splitn (Suc n) sep rest)"

definition drift_oid :: "drift_token \<Rightarrow> nat option" where
  "drift_oid token =
     (case token of DriftToken s \<Rightarrow>
        (case splitn 3 (CHR '':'') s of
           [tag, oid, digest] \<Rightarrow>
             if tag = ''pg''
             then (case parse_uint (2 ^ 32 - 1) oid of
                     None \<Rightarrow> None | Some n \<Rightarrow> if n \<noteq> 0 then Some n else None)
             else None
         | _ \<Rightarrow> None))"

definition sorted_names :: "('a \<Rightarrow> origin \<times> string option) \<Rightarrow> 'a list \<Rightarrow> (origin \<times> string option) list"
  where
  "sorted_names key items = sort (map key items)"

definition ids_comparable :: "schema_baseline \<Rightarrow> schema_baseline \<Rightarrow> bool" where
  "ids_comparable old new =
     (let a = sb_table old; b = sb_table new;
          column_key = (\<lambda>c. (co_origin c, Some (co_name c)));
          key_key = (\<lambda>k. (ke_origin k, ke_name k));
          foreign_key_key = (\<lambda>k. (fk_origin k, fk_name k));
          check_key = (\<lambda>c. (ck_origin c, ck_name c));
          index_key = (\<lambda>i. (ix_origin i, Some (ix_name i))) in
      if sb_engine old \<noteq> sb_engine new \<or> ta_schema a \<noteq> ta_schema b then False
      else if sb_engine old = PgEngine then drift_oid (sb_drift old) = drift_oid (sb_drift new)
      else
        sorted_names column_key (ta_columns a) = sorted_names column_key (ta_columns b)
        \<and> sorted_names key_key (as_slice (ta_primary_key a))
            = sorted_names key_key (as_slice (ta_primary_key b))
        \<and> sorted_names key_key (ta_uniques a) = sorted_names key_key (ta_uniques b)
        \<and> sorted_names foreign_key_key (ta_foreign_keys a)
            = sorted_names foreign_key_key (ta_foreign_keys b)
        \<and> sorted_names check_key (ta_checks a) = sorted_names check_key (ta_checks b)
        \<and> sorted_names index_key (ta_indexes a) = sorted_names index_key (ta_indexes b))"

section \<open>Rebase\<close>

definition rebase_user_column ::
  "table_model \<Rightarrow> table_model \<Rightarrow> column_model \<Rightarrow> column_model list \<times> rebase_conflict list" where
  "rebase_user_column base server edited =
     (let x = co_origin edited in
      if is_new x then ([edited], [])
      else
        (case (column_of base x, column_of server x) of
           (Some previous, Some current) \<Rightarrow>
             (let (merged, fields) = merge_column previous current edited in
              ([merged], map (\<lambda>field. issue_at ColumnObject x (''Column '' @ co_name merged @ '': ''
                 @ field @ '' changed on the server and in the draft; the draft wins'')) fields))
         | (Some previous, None) \<Rightarrow>
             ([], only_if (edited \<noteq> previous)
                (issue_at ColumnObject x (''Column '' @ co_name edited
                   @ '' was removed on the server; the draft's edit is dropped'')))
         | (None, _) \<Rightarrow> ([], [])))"

definition rebase_server_column ::
  "table_model \<Rightarrow> table_model \<Rightarrow> column_model \<Rightarrow> column_model list \<times> rebase_conflict list" where
  "rebase_server_column base user current =
     (let x = co_origin current in
      if column_of base x = None then ([current], [])
      else if column_of user x = None
      then ([], only_if (column_of base x \<noteq> Some current)
             (issue_at ColumnObject x (''Column '' @ co_name current
                @ '' was removed in the draft but changed on the server'')))
      else ([], []))"

definition rebase_columns ::
  "table_model \<Rightarrow> table_model \<Rightarrow> table_model \<Rightarrow> column_model list \<times> rebase_conflict list" where
  "rebase_columns base server user =
     (let rs = map (rebase_user_column base server) (ta_columns user)
             @ map (rebase_server_column base user) (ta_columns server) in
      (concat (map fst rs), concat (map snd rs)))"

definition merge_table_value ::
  "string \<Rightarrow> 'a \<Rightarrow> 'a \<Rightarrow> 'a \<Rightarrow> 'a \<times> rebase_conflict list" where
  "merge_table_value message base server user =
     (let (v, conflict) = merge base server user in (v, only_if conflict (issue_table message)))"

definition merged_table ::
  "table_model \<Rightarrow> table_model \<Rightarrow> table_model \<Rightarrow> table_model \<times> rebase_conflict list" where
  "merged_table base server user =
     (let (columns, c1) = rebase_columns base server user;
          (name, c2) = merge_table_value
            ''The table was renamed on the server and in the draft; the draft wins''
            (ta_name base) (ta_name server) (ta_name user);
          (comment, c3) = merge_table_value
            ''The table comment changed on the server and in the draft; the draft wins''
            (ta_comment base) (ta_comment server) (ta_comment user);
          (options, c4) = merge_table_value
            ''Table options changed on the server and in the draft; the draft wins''
            (ta_options base) (ta_options server) (ta_options user);
          (primary, c5) = merge_objects PrimaryKeyObject ke_origin rebase_key_label
            (as_slice (ta_primary_key base)) (as_slice (ta_primary_key server))
            (as_slice (ta_primary_key user));
          (uniques, c6) = merge_objects UniqueObject ke_origin rebase_key_label
            (ta_uniques base) (ta_uniques server) (ta_uniques user);
          (foreign, c7) = merge_objects ForeignKeyObject fk_origin
            (\<lambda>k. case fk_name k of None \<Rightarrow> ''Foreign key'' | Some n \<Rightarrow> n)
            (ta_foreign_keys base) (ta_foreign_keys server) (ta_foreign_keys user);
          (checks, c8) = merge_objects CheckObject ck_origin
            (\<lambda>c. case ck_name c of None \<Rightarrow> ''Check'' | Some n \<Rightarrow> n)
            (ta_checks base) (ta_checks server) (ta_checks user);
          (indexes, c9) = merge_objects IndexObject ix_origin ix_name
            (ta_indexes base) (ta_indexes server) (ta_indexes user) in
      (\<lparr>ta_schema = ta_schema server, ta_name = name, ta_comment = comment, ta_columns = columns,
        ta_primary_key = (case primary of [] \<Rightarrow> None | k # ks \<Rightarrow> Some k),
        ta_uniques = uniques, ta_foreign_keys = foreign, ta_checks = checks,
        ta_indexes = indexes, ta_options = options\<rparr>,
       c1 @ c2 @ c3 @ c4 @ c5
       @ only_if (1 < length primary)
           (issue_table ''The server and the draft define different primary keys; review the keys'')
       @ c6 @ c7 @ c8 @ c9))"

definition referenced_columns :: "table_model \<Rightarrow> origin list" where
  "referenced_columns table =
     concat (map ke_columns (table_keys table))
     @ concat (map fk_columns (ta_foreign_keys table))
     @ concat (map (\<lambda>i. ix_include i @ target_columns i) (ta_indexes table))"

definition dangling :: "table_model \<Rightarrow> origin list" where
  "dangling table = filter (\<lambda>x. column_of table x = None) (referenced_columns table)"

definition rebase ::
  "schema_baseline \<Rightarrow> schema_baseline \<Rightarrow> schema_draft \<Rightarrow> schema_draft \<times> rebase_conflict list" where
  "rebase old new draft =
     (if \<not> ids_comparable old new
      then (\<lparr>dr_table = sb_table new, dr_next_id = dr_next_id draft\<rparr>,
            [issue_table (''The table's columns or constraints changed on the server in a way the draft ''
               @ ''cannot follow; the draft was restarted from the current structure'')])
      else
        let (table, conflicts) = merged_table (sb_table old) (sb_table new) (dr_table draft);
            rebased = \<lparr>dr_table = table, dr_next_id = dr_next_id draft\<rparr> in
        (fold drop_references (dangling table) rebased, conflicts))"

end
