(* ===== verification/SchemaFacts.thy ===== *)
theory SchemaFacts imports SchemaValidate SchemaRebase "HOL-Library.Multiset" begin

text \<open>
  Well-formed drafts: the invariant of a draft, that every editing operation keeps it, and that
  validation accepts nothing else.  The sample table of the witnesses is here too.
\<close>

section \<open>Lists\<close>

lemma find_map_Some: "find P xs = Some x \<Longrightarrow> x \<in> set xs \<and> P x"
  by (auto simp: find_Some_iff)

lemma find_eq_None: "find P xs = None \<longleftrightarrow> (\<forall>x\<in>set xs. \<not> P x)"
  by (auto simp: find_None_iff)

lemma find_distinct:
  "distinct (map f xs) \<Longrightarrow> x \<in> set xs \<Longrightarrow> find (\<lambda>y. f y = f x) xs = Some x"
  by (induction xs) auto

lemma distinct_map_filter_fun: "distinct (map f xs) \<Longrightarrow> distinct (map f (filter P xs))"
  by (induction xs) auto

lemma map_update_first:
  "(\<And>x. p x \<Longrightarrow> g (f x) = g x) \<Longrightarrow> map g (update_first p f xs) = map g xs"
  by (induction xs) auto

lemma index_where_None: "index_where p xs = None \<longleftrightarrow> (\<forall>x\<in>set xs. \<not> p x)"
  by (induction xs) auto

lemma index_where_Some: "index_where p xs = Some i \<Longrightarrow> i < length xs \<and> p (xs ! i)"
  by (induction xs arbitrary: i) (auto split: if_splits)

lemma mset_move:
  assumes "i < length xs"
  shows "mset (insert_at j (xs ! i) (remove_at i xs)) = mset xs"
proof -
  have "mset (insert_at j x ys) = add_mset x (mset ys)" for x :: 'a and ys
  proof -
    have "mset ys = mset (take j ys) + mset (drop j ys)"
      by (metis append_take_drop_id mset_append)
    then show ?thesis by (simp add: insert_at_def)
  qed
  moreover have "mset xs = add_mset (xs ! i) (mset (remove_at i xs))"
    using arg_cong [OF id_take_nth_drop [OF assms], of mset] by (simp add: remove_at_def)
  ultimately show ?thesis by simp
qed

section \<open>Well-formed drafts\<close>

definition issued :: "nat \<Rightarrow> origin \<Rightarrow> bool" where
  "issued next_id x = (case x of New n \<Rightarrow> n < next_id | Existing n \<Rightarrow> True)"

text \<open>
  What every draft must satisfy against the table it was taken from: no origin twice within a kind,
  no draft id twice at all, every existing origin one of the captured table, every draft id issued,
  and no key, foreign key or index over a column that is not there.
\<close>

definition origins_ok :: "table_model \<Rightarrow> nat \<Rightarrow> (schema_object \<times> origin) list \<Rightarrow> bool" where
  "origins_ok old next_id os \<longleftrightarrow>
     distinct os \<and> distinct (filter is_new (map snd os))
     \<and> list_all (\<lambda>(object, x). known_origin old object x \<and> issued next_id x) os"

definition draft_inv :: "table_model \<Rightarrow> schema_draft \<Rightarrow> bool" where
  "draft_inv old d \<longleftrightarrow>
     origins_ok old (dr_next_id d) (all_origins (dr_table d)) \<and> dangling (dr_table d) = []"

lemma origin_issues_Nil_iff:
  "origin_issues old next_id origins new_ids os = [] \<longleftrightarrow>
     origins_ok old next_id os \<and> set os \<inter> set origins = {}
     \<and> set (filter is_new (map snd os)) \<inter> set new_ids = {}"
  by (induction old next_id origins new_ids os rule: origin_issues.induct)
     (auto simp: origins_ok_def issued_def Let_def split: origin.splits)

lemma member_loop_Nil_iff:
  "member_loop table object origin seen ms = [] \<longleftrightarrow>
     list_all (\<lambda>m. column_of table m \<noteq> None) ms \<and> distinct ms \<and> set ms \<inter> set seen = {}"
  by (induction table object origin seen ms rule: member_loop.induct) auto

lemma member_issues_Nil_iff:
  "member_issues table object origin ms allow_empty = [] \<longleftrightarrow>
     (ms = [] \<longrightarrow> allow_empty) \<and> length ms \<le> MAX_SCHEMA_EDIT_MEMBERS
     \<and> list_all (\<lambda>m. column_of table m \<noteq> None) ms \<and> distinct ms"
  by (auto simp: member_issues_def member_loop_Nil_iff)

lemma distinct_count_le: "distinct xs \<longleftrightarrow> (\<forall>a. count (mset xs) a \<le> 1)"
  by (induction xs) (auto simp: not_in_iff Suc_le_eq count_eq_zero_iff le_Suc_eq)

lemma distinct_subset_mset: "mset xs \<subseteq># mset ys \<Longrightarrow> distinct ys \<Longrightarrow> distinct xs"
  unfolding distinct_count_le by (meson mset_subset_eq_count order_trans)

lemma mset_map_filter_subset: "mset (map f (filter P xs)) \<subseteq># mset (map f xs)"
  by (simp add: image_mset_subseteq_mono)

lemma origins_ok_subset:
  assumes sub: "mset os' \<subseteq># mset os" and ok: "origins_ok old next_id os" and "next_id \<le> next_id'"
  shows "origins_ok old next_id' os'"
proof -
  have "mset (filter is_new (map snd os')) \<subseteq># mset (filter is_new (map snd os))"
    using image_mset_subseteq_mono [OF sub, of snd] by (simp add: multiset_filter_mono)
  then have "distinct os'" "distinct (filter is_new (map snd os'))"
    using ok sub distinct_subset_mset unfolding origins_ok_def by blast+
  moreover have "set os' \<subseteq> set os" using set_mset_mono [OF sub] by simp
  ultimately show ?thesis using ok \<open>next_id \<le> next_id'\<close>
    by (fastforce simp: origins_ok_def list_all_iff issued_def split: origin.splits)
qed

lemma column_of_None_iff: "column_of t x = None \<longleftrightarrow> x \<notin> co_origin ` set (ta_columns t)"
  by (auto simp: column_of_def find_eq_None)

lemma column_of_SomeD: "column_of t x = Some c \<Longrightarrow> c \<in> set (ta_columns t) \<and> co_origin c = x"
  unfolding column_of_def by (drule find_map_Some) auto

lemma dangling_Nil_iff:
  "dangling t = [] \<longleftrightarrow> set (referenced_columns t) \<subseteq> co_origin ` set (ta_columns t)"
  by (auto simp: dangling_def filter_empty_conv column_of_None_iff)

lemma index_uses_iff: "index_uses i x \<longleftrightarrow> x \<in> set (ix_include i) \<union> set (target_columns i)"
  by (force simp: index_uses_def target_columns_def list_ex_iff map_filter_def
      split: index_target.splits)

lemma set_as_slice [simp]: "set (as_slice x) = set_option x"
  by (cases x) auto

lemma referenced_columns_iff:
  "x \<in> set (referenced_columns t) \<longleftrightarrow> column_is_referenced t x"
  by (auto simp: referenced_columns_def column_is_referenced_def list_ex_iff index_uses_iff)

lemma drop_table_references_referenced:
  "set (referenced_columns (drop_table_references x t)) \<subseteq> set (referenced_columns t) - {x}"
  unfolding subset_iff Diff_iff referenced_columns_iff
  by (auto simp: column_is_referenced_def drop_table_references_def table_keys_def list_ex_iff
      split: option.splits if_splits)

lemma drop_table_references_columns [simp]:
  "ta_columns (drop_table_references x t) = ta_columns t"
  by (simp add: drop_table_references_def)

lemma drop_table_references_origins:
  "mset (all_origins (drop_table_references x t)) \<subseteq># mset (all_origins t)"
  unfolding all_origins_def drop_table_references_def mset_append
  by (intro subset_mset.add_mono)
     (auto simp flip: mset_map mset_filter intro: mset_map_filter_subset split: option.splits)

lemma mset_all_origins_columns:
  "mset (map co_origin cs) \<subseteq># mset (map co_origin (ta_columns t)) \<Longrightarrow>
     mset (all_origins (t\<lparr>ta_columns := cs\<rparr>)) \<subseteq># mset (all_origins t)"
proof -
  assume "mset (map co_origin cs) \<subseteq># mset (map co_origin (ta_columns t))"
  from image_mset_subseteq_mono [OF this, of "Pair ColumnObject"]
  have "mset (map (\<lambda>c. (ColumnObject, co_origin c)) cs)
      \<subseteq># mset (map (\<lambda>c. (ColumnObject, co_origin c)) (ta_columns t))"
    by (simp add: image_mset.compositionality comp_def)
  then show ?thesis unfolding all_origins_def by simp
qed

lemma origins_ok_mset:
  "mset os' = mset os \<Longrightarrow> origins_ok old next_id os' \<longleftrightarrow> origins_ok old next_id os"
  using origins_ok_subset [of os' os] origins_ok_subset [of os os'] by auto

lemma origins_ok_Cons:
  "origins_ok old next_id ((object, x) # os) \<longleftrightarrow>
     origins_ok old next_id os \<and> (object, x) \<notin> set os
     \<and> (is_new x \<longrightarrow> x \<notin> snd ` set os) \<and> known_origin old object x \<and> issued next_id x"
  by (auto simp: origins_ok_def)

section \<open>Every edit keeps a draft well-formed\<close>

text \<open>
  What a capture delivers: ids carry a tag of their kind, so they differ across kinds as well, and
  the objects are over columns of the table.
\<close>

definition baseline_ok :: "schema_baseline \<Rightarrow> bool" where
  "baseline_ok b \<longleftrightarrow>
     distinct (map snd (all_origins (sb_table b))) \<and> list_all (\<lambda>(object, x). \<not> is_new x) (all_origins (sb_table b))
     \<and> dangling (sb_table b) = []"

lemma known_in_itself: "(object, x) \<in> set (all_origins t) \<Longrightarrow> known_origin t object x"
  by (auto simp: all_origins_def known_origin_def column_of_None_iff foreign_key_of_def check_of_def
      index_of_def find_eq_None list_ex_iff)

lemma draft_inv_from_baseline: "baseline_ok b \<Longrightarrow> draft_inv (sb_table b) (from_baseline b)"
proof -
  assume ok: "baseline_ok b"
  have "filter is_new (map snd (all_origins (sb_table b))) = []"
    using ok by (auto simp: baseline_ok_def filter_empty_conv list_all_iff)
  then show ?thesis using ok known_in_itself [of _ _ "sb_table b"]
    by (auto simp: baseline_ok_def draft_inv_def origins_ok_def from_baseline_def list_all_iff
        issued_def distinct_map split: origin.splits)
qed

lemma all_origins_add_column:
  "mset (all_origins (t\<lparr>ta_columns := ta_columns t @ [c]\<rparr>))
     = mset ((ColumnObject, co_origin c) # all_origins t)"
  by (simp add: all_origins_def)

lemma referenced_columns_columns [simp]:
  "referenced_columns (t\<lparr>ta_columns := cs\<rparr>) = referenced_columns t"
  by (simp add: referenced_columns_def table_keys_def)

lemma draft_inv_add_column:
  assumes "draft_inv old d" "dr_next_id d < u64_max"
  shows "draft_inv old (snd (add_column name data_type d))"
proof -
  have ok: "origins_ok old (dr_next_id d) (all_origins (dr_table d))"
    using assms(1) by (simp add: draft_inv_def)
  then have "New (dr_next_id d) \<notin> snd ` set (all_origins (dr_table d))"
    by (fastforce simp: origins_ok_def list_all_iff issued_def)
  with ok have "origins_ok old (Suc (dr_next_id d))
      ((ColumnObject, New (dr_next_id d)) # all_origins (dr_table d))"
    using origins_ok_subset [OF _ ok, of _ "Suc (dr_next_id d)"]
    by (force simp: origins_ok_Cons known_origin_def issued_def)
  then show ?thesis using assms
    by (auto simp: draft_inv_def add_column_def new_origin_def Let_def column_new_def dangling_Nil_iff
        origins_ok_mset [OF all_origins_add_column] min_absorb1 Suc_leI)
qed

lemma draft_inv_remove_column:
  assumes "draft_inv old d"
  shows "draft_inv old (snd (remove_column x d))"
proof -
  let ?t = "dr_table d" and ?kept = "filter (\<lambda>c. co_origin c \<noteq> x) (ta_columns (dr_table d))"
  let ?t' = "drop_table_references x (?t\<lparr>ta_columns := ?kept\<rparr>)"
  have sub: "mset (all_origins ?t') \<subseteq># mset (all_origins ?t)"
    using drop_table_references_origins mset_all_origins_columns [OF mset_map_filter_subset]
    by (rule subset_mset.order_trans)
  then have "origins_ok old (dr_next_id d) (all_origins ?t')"
    using assms by (intro origins_ok_subset [OF sub _ order_refl]) (simp add: draft_inv_def)
  moreover have "dangling ?t' = []"
  proof -
    have "set (referenced_columns ?t') \<subseteq> set (referenced_columns ?t) - {x}"
      using drop_table_references_referenced [of x "?t\<lparr>ta_columns := ?kept\<rparr>"] by simp
    moreover have "set (referenced_columns ?t) \<subseteq> co_origin ` set (ta_columns ?t)"
      using assms by (simp add: draft_inv_def dangling_Nil_iff)
    moreover have "co_origin ` set (ta_columns ?t') = co_origin ` set (ta_columns ?t) - {x}"
      by auto
    ultimately show ?thesis unfolding dangling_Nil_iff by blast
  qed
  ultimately show ?thesis using assms
    by (simp add: remove_column_def Let_def drop_references_def draft_inv_def)
qed

lemma draft_inv_columns_mset:
  assumes "draft_inv old d" "mset (map co_origin cs) = mset (map co_origin (ta_columns (dr_table d)))"
  shows "draft_inv old (d\<lparr>dr_table := (dr_table d)\<lparr>ta_columns := cs\<rparr>\<rparr>)"
proof -
  have "mset (all_origins ((dr_table d)\<lparr>ta_columns := cs\<rparr>)) \<subseteq># mset (all_origins (dr_table d))"
    using assms(2) by (intro mset_all_origins_columns) simp
  moreover have "co_origin ` set cs = co_origin ` set (ta_columns (dr_table d))"
    using arg_cong [OF assms(2), of set_mset] by simp
  ultimately show ?thesis using assms(1) origins_ok_subset
    by (auto simp: draft_inv_def dangling_Nil_iff)
qed

lemma draft_inv_move_column:
  assumes "draft_inv old d"
  shows "draft_inv old (snd (move_column x pos d))"
proof (cases "index_where (\<lambda>c. co_origin c = x) (ta_columns (dr_table d))")
  case (Some i)
  then have "mset (insert_at j (ta_columns (dr_table d) ! i) (remove_at i (ta_columns (dr_table d))))
      = mset (ta_columns (dr_table d))" for j
    by (intro mset_move) (simp add: index_where_Some)
  with assms Some show ?thesis
    by (auto simp: move_column_def Let_def intro!: draft_inv_columns_mset)
qed (use assms in \<open>simp add: move_column_def\<close>)

lemma draft_inv_revert_column:
  assumes "draft_inv (sb_table b) d"
  shows "draft_inv (sb_table b) (snd (revert_column b x d))"
proof (cases "column_of (sb_table b) x")
  case None
  then show ?thesis using assms by (simp add: revert_column_def draft_inv_remove_column)
next
  case (Some original)
  then have "co_origin original = x" by (simp add: column_of_SomeD)
  then have "map co_origin (update_first (\<lambda>c. co_origin c = x) (\<lambda>_. original) cs) = map co_origin cs" for cs
    by (intro map_update_first) auto
  with Some assms show ?thesis
    by (auto simp: revert_column_def column_mut_def intro!: draft_inv_columns_mset split: option.splits)
qed

text \<open>One edit of the draft by the editor, and the next id it leaves.\<close>

inductive edit_step :: "schema_baseline \<Rightarrow> schema_draft \<Rightarrow> schema_draft \<Rightarrow> bool" for b where
  add: "edit_step b d (snd (add_column name data_type d))"
| remove: "edit_step b d (snd (remove_column x d))"
| move: "edit_step b d (snd (move_column x pos d))"
| revert: "edit_step b d (snd (revert_column b x d))"

inductive_cases edit_stepE: "edit_step b d d'"

lemma remove_column_next_id [simp]: "dr_next_id (snd (remove_column x d)) = dr_next_id d"
  by (simp add: remove_column_def Let_def drop_references_def)

lemma edit_step_next_id:
  "edit_step b d d' \<Longrightarrow> dr_next_id d \<le> u64_max \<Longrightarrow>
     dr_next_id d \<le> dr_next_id d' \<and> dr_next_id d' \<le> u64_max"
  by (erule edit_stepE)
     (auto simp: add_column_def new_origin_def move_column_def revert_column_def Let_def
       split: option.splits)

lemma edit_step_draft_inv:
  "edit_step b d d' \<Longrightarrow> draft_inv (sb_table b) d \<Longrightarrow> dr_next_id d < u64_max \<Longrightarrow>
     draft_inv (sb_table b) d'"
  by (erule edit_stepE)
     (auto intro: draft_inv_add_column draft_inv_remove_column draft_inv_move_column
       draft_inv_revert_column)

lemma edits_keep_draft_inv:
  assumes "(edit_step b)\<^sup>*\<^sup>* (from_baseline b) d" "baseline_ok b"
  shows "dr_next_id d \<le> u64_max \<and> (dr_next_id d < u64_max \<longrightarrow> draft_inv (sb_table b) d)"
  using assms(1)
proof (induction rule: rtranclp_induct)
  case base
  show ?case using draft_inv_from_baseline [OF assms(2)] by (simp add: from_baseline_def u64_max_def)
next
  case (step d1 d2)
  then show ?case using edit_step_next_id [of b d1 d2] edit_step_draft_inv [of b d1 d2] by linarith
qed

section \<open>A small table\<close>

text \<open>The sample of the witnesses: two columns, a primary key and an index.\<close>

definition sample_unicode :: unicode where
  "sample_unicode = \<lparr>uc_lower = (\<lambda>c. c), uc_alphanumeric = (\<lambda>c. True),
     uc_lower_text = map to_ascii_lowercase, uc_debug = (\<lambda>c. c)\<rparr>"

definition sample_table :: table_model where
  "sample_table =
     \<lparr>ta_schema = ''s'', ta_name = ''t'', ta_comment = None,
      ta_columns = [column_new (Existing 1) ''a'' ''int'', column_new (Existing 2) ''b'' ''text''],
      ta_primary_key = Some \<lparr>ke_origin = Existing 3, ke_name = Some ''p'', ke_columns = [Existing 1]\<rparr>,
      ta_uniques = [], ta_foreign_keys = [], ta_checks = [],
      ta_indexes = [\<lparr>ix_origin = Existing 4, ix_name = ''i'', ix_unique = False, ix_method = None,
        ix_members = [member_of_column (Existing 2)], ix_include = [], ix_predicate = None\<rparr>],
      ta_options = \<lparr>op_strict = False, op_without_rowid = False, op_engine = None,
        op_charset = None, op_collation = None, op_row_format = None\<rparr>\<rparr>"

definition sample_baseline :: schema_baseline where
  "sample_baseline =
     \<lparr>sb_engine = PgEngine,
      sb_server = \<lparr>sf_flavor = PgServer, sf_version = ''16'',
        sf_features = \<lparr>rename_column = True, drop_column = True, instant_add_column = False,
          instant_add_column_anywhere = False, enforced_check = True, column_reorder = False,
          transactional_ddl = True\<rparr>\<rparr>,
      sb_table = sample_table, sb_drift = DriftToken ''pg:1:x'', sb_editable = Editable,
      sb_inbound = [], sb_dependents = [], sb_estimated_rows = None\<rparr>"

lemma sample_baseline_ok: "baseline_ok sample_baseline"
  by code_simp

section \<open>What validation lets through\<close>

lemma validated_draft:
  assumes "validate u b d = Some []"
  shows "draft_inv (sb_table b) d \<and> ta_columns (dr_table d) \<noteq> []
    \<and> list_all (\<lambda>k. ke_columns k \<noteq> [] \<and> distinct (ke_columns k) \<and> length (ke_columns k) \<le> 64)
        (table_keys (dr_table d))
    \<and> list_all (\<lambda>k. fk_columns k \<noteq> [] \<and> distinct (fk_columns k) \<and> length (fk_columns k) \<le> 64)
        (ta_foreign_keys (dr_table d))"
proof -
  let ?t = "dr_table d" and ?e = "sb_engine b"
  have shape: "shape_issues u b d = []"
    using assms by (auto simp: validate_def)
  have uniques: "unique_issues e ?t names ks = [] \<Longrightarrow>
      list_all (\<lambda>k. member_issues ?t UniqueObject (ke_origin k) (ke_columns k) False = []) ks"
    for e names ks by (induction ks arbitrary: names) auto
  have foreigns: "foreign_key_issues e ?t names ks = [] \<Longrightarrow>
      list_all (\<lambda>k. member_issues ?t ForeignKeyObject (fk_origin k) (fk_columns k) False = []) ks"
    for e names ks
    by (induction ks arbitrary: names) (auto simp: foreign_key_shape_issues_def Let_def)
  have indexes: "index_issues u e ?t names is = [] \<Longrightarrow>
      list_all (\<lambda>i. member_issues ?t IndexObject (ix_origin i) (target_columns i) True = []
        \<and> member_issues ?t IndexObject (ix_origin i) (ix_include i) True = []) is"
    for e names "is"
    by (induction "is" arbitrary: names) (auto simp: index_shape_issues_def Let_def)
  have keys: "list_all (\<lambda>k. ke_columns k \<noteq> [] \<and> length (ke_columns k) \<le> 64 \<and> distinct (ke_columns k)
      \<and> list_all (\<lambda>m. column_of ?t m \<noteq> None) (ke_columns k)) (table_keys ?t)"
    using shape uniques
    by (fastforce simp: shape_issues_def Let_def primary_key_issues_def member_issues_Nil_iff
        table_keys_def MAX_SCHEMA_EDIT_MEMBERS_def list_all_iff split: option.splits)
  have foreign: "list_all (\<lambda>k. fk_columns k \<noteq> [] \<and> length (fk_columns k) \<le> 64
      \<and> distinct (fk_columns k) \<and> list_all (\<lambda>m. column_of ?t m \<noteq> None) (fk_columns k))
      (ta_foreign_keys ?t)"
    using shape foreigns
    by (fastforce simp: shape_issues_def Let_def member_issues_Nil_iff
        MAX_SCHEMA_EDIT_MEMBERS_def list_all_iff)
  have idx: "list_all (\<lambda>i. list_all (\<lambda>m. column_of ?t m \<noteq> None) (ix_include i @ target_columns i))
      (ta_indexes ?t)"
    using shape indexes by (fastforce simp: shape_issues_def Let_def member_issues_Nil_iff list_all_iff)
  have "dangling ?t = []"
    using keys foreign idx
    by (auto simp: dangling_def filter_empty_conv referenced_columns_def list_all_iff)
  moreover have "origins_ok (sb_table b) (dr_next_id d) (all_origins ?t)" "ta_columns ?t \<noteq> []"
    using shape by (simp_all add: shape_issues_def Let_def origin_issues_Nil_iff table_issues_def)
  ultimately show ?thesis using keys foreign by (auto simp: draft_inv_def list_all_iff)
qed

section \<open>Properties\<close>

text \<open>
  C32: whatever columns the user adds, removes, moves and reverts, the draft stays well-formed
  until the counter of ids has run out: no identity is used twice, every existing object is one of
  the captured table, and no key, foreign key or index keeps a member whose column is gone.
\<close>

theorem edits_keep_drafts_well_formed:
  assumes "baseline_ok b" "(edit_step b)\<^sup>*\<^sup>* (from_baseline b) d" "dr_next_id d < u64_max"
  shows "draft_inv (sb_table b) d"
  using edits_keep_draft_inv [OF assms(2,1)] assms(3) by simp

lemma edits_keep_drafts_well_formed_witness:
  "draft_inv sample_table (snd (remove_column (Existing 2)
     (snd (add_column ''c'' ''int'' (from_baseline sample_baseline)))))"
proof -
  let ?d = "snd (add_column ''c'' ''int'' (from_baseline sample_baseline))"
  have "(edit_step sample_baseline)\<^sup>*\<^sup>* (from_baseline sample_baseline)
      (snd (remove_column (Existing 2) ?d))"
    by (rule rtranclp.rtrancl_into_rtrancl [OF r_into_rtranclp]) (rule edit_step.intros)+
  moreover have "dr_next_id (snd (remove_column (Existing 2) ?d)) < u64_max"
    by (simp add: add_column_def new_origin_def from_baseline_def u64_max_def Let_def)
  ultimately show ?thesis
    using edits_keep_drafts_well_formed [OF sample_baseline_ok] by (simp add: sample_baseline_def)
qed

text \<open>
  C35: validation lets through well-formed drafts only.  A draft with no issue has columns, and each
  key and foreign key has between 1 and 64 different columns of the table, and its origins are
  issued, known and used once.
\<close>

theorem validated_drafts_are_well_formed:
  assumes "validate u b d = Some []"
  shows "draft_inv (sb_table b) d \<and> ta_columns (dr_table d) \<noteq> []
    \<and> list_all (\<lambda>k. ke_columns k \<noteq> [] \<and> distinct (ke_columns k) \<and> length (ke_columns k) \<le> 64)
        (table_keys (dr_table d))
    \<and> list_all (\<lambda>k. fk_columns k \<noteq> [] \<and> distinct (fk_columns k) \<and> length (fk_columns k) \<le> 64)
        (ta_foreign_keys (dr_table d))"
  using assms by (rule validated_draft)

lemma validated_drafts_are_well_formed_witness:
  "draft_inv sample_table (from_baseline sample_baseline)"
proof -
  have "validate sample_unicode sample_baseline (from_baseline sample_baseline) = Some []"
    by code_simp
  from validated_drafts_are_well_formed [OF this] show ?thesis by (simp add: sample_baseline_def)
qed

end
