(* ===== verification/SchemaMoves.thy ===== *)
theory SchemaMoves imports SchemaDiff begin

text \<open>
  The columns a draft moved: \<open>longest_increasing\<close> finds a longest increasing subsequence, so
  \<open>moved_columns\<close> names the fewest columns whose removal leaves both orders equal.
\<close>

section \<open>The longest increasing subsequence\<close>

text \<open>Increasing indexes of increasing values.\<close>

definition incr_indexes :: "nat list \<Rightarrow> nat list \<Rightarrow> bool" where
  "incr_indexes xs is \<longleftrightarrow>
     sorted_wrt (\<lambda>i j. i < j \<and> xs ! i < xs ! j) is \<and> list_all (\<lambda>i. i < length xs) is"

lemma incr_indexes_snoc:
  "incr_indexes xs (is @ [i]) \<longleftrightarrow>
     incr_indexes xs is \<and> i < length xs \<and> (is \<noteq> [] \<longrightarrow> last is < i \<and> xs ! last is < xs ! i)"
proof (cases "is" rule: rev_cases)
  case (snoc js j)
  then show ?thesis by (fastforce simp: incr_indexes_def sorted_wrt_append)
qed (simp add: incr_indexes_def)

text \<open>What one row of the table says, for the rows before it in \<open>len\<close>.\<close>

definition entry_ok :: "nat list \<Rightarrow> nat list \<Rightarrow> nat \<Rightarrow> nat \<Rightarrow> nat \<times> nat option \<Rightarrow> bool" where
  "entry_ok xs len i m = (\<lambda>(l, p).
     (\<forall>j<m. xs ! j < xs ! i \<longrightarrow> len ! j + 1 \<le> l)
     \<and> (case p of None \<Rightarrow> l = 1 | Some j \<Rightarrow> j < m \<and> xs ! j < xs ! i \<and> l = len ! j + 1))"

lemma entry_ok_step:
  assumes "entry_ok xs len i m (l, p)"
  shows "entry_ok xs len i (Suc m)
    (if xs ! m < xs ! i \<and> l < len ! m + 1 then (len ! m + 1, Some m) else (l, p))"
proof (cases "xs ! m < xs ! i \<and> l < len ! m + 1")
  case True
  then have "xs ! j < xs ! i \<Longrightarrow> len ! j + 1 \<le> len ! m + 1" if "j < Suc m" for j
    using assms that by (cases "j = m") (auto simp: entry_ok_def less_Suc_eq dest!: spec [of _ j])
  with True show ?thesis by (simp add: entry_ok_def)
next
  case False
  then show ?thesis using assms
    by (auto simp: entry_ok_def less_Suc_eq split: option.splits)
qed

lemma lis_entry_ok: "entry_ok xs len i i (lis_entry xs len i)"
proof -
  have "entry_ok xs len i m
      (foldl (\<lambda>(l, p) j. if xs ! j < xs ! i \<and> l < len ! j + 1 then (len ! j + 1, Some j) else (l, p))
        (1, None) [0..<m])" for m
  proof (induction m)
    case (Suc m)
    then show ?case using entry_ok_step by (simp add: case_prod_beta)
  qed (simp add: entry_ok_def)
  then show ?thesis by (simp add: lis_entry_def)
qed

lemma lis_entry_prefix:
  assumes "\<And>j. j < i \<Longrightarrow> len ! j = len' ! j"
  shows "lis_entry xs len i = lis_entry xs len' i"
  unfolding lis_entry_def using assms by (intro foldl_cong) auto

lemma lis_table_length [simp]:
  "length (fst (lis_table xs n)) = n" "length (snd (lis_table xs n)) = n"
  by (induction n) (auto simp: Let_def split: prod.splits)

lemma lis_table_entry:
  "i < n \<Longrightarrow>
     (fst (lis_table xs n) ! i, snd (lis_table xs n) ! i) = lis_entry xs (fst (lis_table xs n)) i"
proof (induction n)
  case (Suc n)
  obtain len prev where t: "lis_table xs n = (len, prev)" by (cases "lis_table xs n")
  obtain l p where e: "lis_entry xs len n = (l, p)" by (cases "lis_entry xs len n")
  have len: "length len = n" "length prev = n"
    using lis_table_length [of xs n] by (simp_all add: t)
  have same: "lis_entry xs (len @ [l]) i = lis_entry xs len i" if "i \<le> n"
    using that len by (intro lis_entry_prefix) (simp add: nth_append)
  show ?case
  proof (cases "i = n")
    case True
    then show ?thesis using same [of ] len e t by (simp add: Let_def nth_append)
  next
    case False
    then have "i < n" using Suc.prems by simp
    with Suc.IH same len e t show ?thesis by (simp add: Let_def nth_append)
  qed
qed simp

lemma lis_table_ok:
  "i < n \<Longrightarrow> entry_ok xs (fst (lis_table xs n)) i i
     (fst (lis_table xs n) ! i, snd (lis_table xs n) ! i)"
  by (simp add: lis_table_entry lis_entry_ok)

text \<open>Every entry of \<open>previous\<close> is a smaller index, which \<open>lis_chain\<close> relies on.\<close>

lemma lis_table_previous: "i < n \<Longrightarrow> snd (lis_table xs n) ! i = Some j \<Longrightarrow> j < i"
  using lis_table_ok [of i n xs] by (simp add: entry_ok_def)

lemma lis_chain_ok:
  assumes "i < length xs"
  defines "len \<equiv> fst (lis_table xs (length xs))" and "prev \<equiv> snd (lis_table xs (length xs))"
  shows "incr_indexes xs (rev (lis_chain prev i)) \<and> hd (lis_chain prev i) = i
    \<and> length (lis_chain prev i) = len ! i"
  using assms(1)
proof (induction i rule: less_induct)
  case (less i)
  have ok: "entry_ok xs len i i (len ! i, prev ! i)"
    using lis_table_ok [OF less.prems] by (simp add: len_def prev_def)
  show ?case
  proof (cases "prev ! i")
    case None
    then show ?thesis using ok less.prems
      by (subst (1 2 3) lis_chain.simps) (simp add: entry_ok_def incr_indexes_def)
  next
    case (Some j)
    with ok have j: "j < i" "xs ! j < xs ! i" "len ! i = len ! j + 1"
      by (simp_all add: entry_ok_def)
    with less have IH: "incr_indexes xs (rev (lis_chain prev j))" "hd (lis_chain prev j) = j"
      "length (lis_chain prev j) = len ! j"
      by auto
    have "lis_chain prev j \<noteq> []" by (subst lis_chain.simps) simp
    then have "last (rev (lis_chain prev j)) = j" using IH(2) by (simp add: last_rev)
    then show ?thesis using Some j IH less.prems
      by (subst (1 2 3) lis_chain.simps) (simp add: incr_indexes_snoc)
  qed
qed

lemma lis_upper:
  assumes "i < length xs" "incr_indexes xs (is @ [i])"
  shows "length is + 1 \<le> fst (lis_table xs (length xs)) ! i"
  using assms
proof (induction "is" arbitrary: i rule: rev_induct)
  case Nil
  then show ?case using lis_table_ok [of i "length xs" xs]
    by (auto simp: entry_ok_def split: option.splits)
next
  case (snoc j js)
  then have "j < i" "xs ! j < xs ! i" "incr_indexes xs (js @ [j])"
    using incr_indexes_snoc [of xs "js @ [j]" i] by (simp_all del: append_assoc)
  with snoc have "length js + 1 \<le> fst (lis_table xs (length xs)) ! j" by simp
  with \<open>j < i\<close> \<open>xs ! j < xs ! i\<close> show ?case
    using lis_table_ok [OF snoc.prems(1)] by (fastforce simp: entry_ok_def)
qed

lemma lis_last_ok:
  assumes "len \<noteq> []"
  shows "\<exists>i. lis_last len = Some i \<and> i < length len \<and> (\<forall>j<length len. len ! j \<le> len ! i)"
proof -
  have "1 \<le> m \<Longrightarrow> (let b = foldl (\<lambda>b i. if len ! b < len ! i then i else b) 0 [1..<m] in
      b < m \<and> (\<forall>j<m. len ! j \<le> len ! b))" for m
    by (induction m rule: dec_induct) (auto simp: Let_def less_Suc_eq)
  from this [of "length len"] show ?thesis using assms
    by (simp add: lis_last_def Let_def Suc_le_eq)
qed

lemma longest_increasing_ok:
  "\<exists>is. incr_indexes xs is \<and> longest_increasing xs = set is
     \<and> (\<forall>js. incr_indexes xs js \<longrightarrow> length js \<le> length is)"
proof (cases "xs = []")
  case True
  then have "js = []" if "incr_indexes xs js" for js
    using that by (cases js) (auto simp: incr_indexes_def)
  with True show ?thesis
    by (intro exI [of _ "[]"]) (auto simp: longest_increasing_def lis_last_def incr_indexes_def)
next
  case False
  define len where "len = fst (lis_table xs (length xs))"
  define prev where "prev = snd (lis_table xs (length xs))"
  have "length len = length xs" by (simp add: len_def)
  with False obtain i where i: "lis_last len = Some i" "i < length xs" "\<forall>j<length xs. len ! j \<le> len ! i"
    using lis_last_ok [of len] by fastforce
  have chain: "incr_indexes xs (rev (lis_chain prev i))" "length (lis_chain prev i) = len ! i"
    using lis_chain_ok [OF i(2)] by (simp_all add: len_def prev_def)
  have "length js \<le> len ! i" if "incr_indexes xs js" for js
  proof (cases js rule: rev_cases)
    case (snoc ks k)
    then have "k < length xs" "length ks + 1 \<le> len ! k"
      using that lis_upper [of k xs ks] by (simp_all add: incr_indexes_snoc len_def)
    with i(3) snoc show ?thesis by (force intro: order_trans)
  qed simp
  moreover have "longest_increasing xs = set (rev (lis_chain prev i))"
    using i(1) by (simp add: longest_increasing_def len_def prev_def case_prod_beta)
  ultimately show ?thesis using chain by (intro exI [of _ "rev (lis_chain prev i)"]) simp
qed

section \<open>The columns that moved\<close>

text \<open>The position table of a list without repetitions, and the values \<open>longest_increasing\<close> sees.\<close>

abbreviation position_in :: "'a list \<Rightarrow> 'a \<Rightarrow> nat option" where
  "position_in xs \<equiv> map_of (rev (zip xs [0..<length xs]))"

lemma position_in_nth:
  assumes "distinct xs" "i < length xs"
  shows "position_in xs (xs ! i) = Some i"
proof -
  have "(xs ! i, i) \<in> set (rev (zip xs [0..<length xs]))"
    using assms(2) by (auto simp: in_set_zip)
  then show ?thesis using assms(1)
    by (intro map_of_is_SomeI) (simp_all flip: rev_map)
qed

lemma position_in_Some:
  assumes "distinct xs" "x \<in> set xs"
  obtains i where "i < length xs" "xs ! i = x" "position_in xs x = Some i"
  using assms position_in_nth by (metis in_set_conv_nth)

definition ranks :: "'a list \<Rightarrow> 'a list \<Rightarrow> nat list" where
  "ranks before after = map (\<lambda>x. the (position_in before x)) after"

lemma map_filter_positions:
  assumes "distinct before" "set after \<subseteq> set before"
  shows "List.map_filter (position_in before) after = ranks before after"
proof -
  have "x \<in> set after \<Longrightarrow> position_in before x \<noteq> None" for x
    using assms by (metis position_in_Some subsetD option.distinct(1))
  then show ?thesis unfolding ranks_def
    by (induction after) (auto simp: List.map_filter_def)
qed

lemma nth_ranks:
  assumes "distinct before" "set after \<subseteq> set before" "i < length after"
  shows "before ! (ranks before after ! i) = after ! i \<and> ranks before after ! i < length before"
proof -
  obtain k where "k < length before" "before ! k = after ! i" "position_in before (after ! i) = Some k"
    using position_in_Some [OF assms(1)] assms by (metis nth_mem subsetD)
  then show ?thesis using assms(3) by (simp add: ranks_def)
qed

lemma ranks_self: "distinct xs \<Longrightarrow> ranks xs xs = [0..<length xs]"
  by (rule nth_equalityI) (simp_all add: ranks_def position_in_nth)

text \<open>A list is in the order of \<open>before\<close> when its ranks increase.\<close>

lemma same_order_iff:
  assumes "distinct before" "distinct xs" "distinct ys" "set xs = set ys" "set ys \<subseteq> set before"
    and "sorted (ranks before xs)" "sorted (ranks before ys)"
  shows "xs = ys"
proof -
  have inj: "inj_on (\<lambda>x. the (position_in before x)) (set before)"
    by (auto intro!: inj_onI elim!: position_in_Some [OF assms(1)])
  have "distinct (ranks before xs)" "distinct (ranks before ys)"
    using assms inj by (auto simp: ranks_def distinct_map intro: inj_on_subset)
  moreover have "set (ranks before xs) = set (ranks before ys)"
    using assms(4) by (simp add: ranks_def)
  ultimately have "ranks before xs = ranks before ys"
    using assms(6,7) by (simp add: sorted_distinct_set_unique)
  then show ?thesis unfolding ranks_def
    by (rule map_inj_on) (use assms inj in \<open>auto intro: inj_on_subset\<close>)
qed

lemma sorted_ranks_filter: "distinct xs \<Longrightarrow> sorted (ranks xs (filter P xs))"
proof -
  assume d: "distinct xs"
  have "sorted (ranks xs xs)" by (simp add: ranks_self d)
  then have "sorted_wrt (\<lambda>x y. the (position_in xs x) \<le> the (position_in xs y)) xs"
    by (simp add: ranks_def sorted_wrt_map)
  then show ?thesis by (simp add: ranks_def sorted_wrt_map sorted_wrt_filter)
qed

text \<open>What is left when the indexes outside \<open>kept\<close> are taken out.\<close>

definition moved_in :: "'a list \<Rightarrow> 'a list \<Rightarrow> 'a list" where
  "moved_in before after =
     map snd (filter (\<lambda>(i, _). i \<notin> longest_increasing (ranks before after))
       (zip [0..<length after] after))"

lemma moved_in_alt:
  "moved_in before after = map ((!) after)
     (filter (\<lambda>i. i \<notin> longest_increasing (ranks before after)) [0..<length after])"
  (is "_ = map _ (filter ?P _)")
proof -
  have "zip [0..<length after] after = map (\<lambda>i. (i, after ! i)) [0..<length after]"
    by (rule nth_equalityI) simp_all
  then show ?thesis by (simp add: moved_in_def filter_map comp_def)
qed

lemma incr_indexes_sorted:
  "incr_indexes xs is \<Longrightarrow> sorted_wrt (<) is \<and> sorted_wrt (\<lambda>i j. xs ! i < xs ! j) is"
  unfolding incr_indexes_def by (induction "is") auto

lemma incr_indexes_filter:
  "incr_indexes xs is \<Longrightarrow> is = filter (\<lambda>i. i \<in> set is) [0..<length xs]"
proof -
  assume inc: "incr_indexes xs is"
  then have "sorted_wrt (<) is" by (simp add: incr_indexes_sorted)
  moreover have "set is = set (filter (\<lambda>i. i \<in> set is) [0..<length xs])"
    using inc by (auto simp: incr_indexes_def list_all_iff)
  moreover have "sorted_wrt (<) (filter (\<lambda>i. i \<in> set is) [0..<length xs])"
    by (simp add: sorted_wrt_filter)
  ultimately show ?thesis by (metis strict_sorted_equal)
qed

lemma sorted_wrt_both:
  "sorted_wrt P xs \<Longrightarrow> sorted_wrt Q xs \<Longrightarrow>
     (\<And>x y. x \<in> set xs \<Longrightarrow> y \<in> set xs \<Longrightarrow> P x y \<Longrightarrow> Q x y \<Longrightarrow> R x y) \<Longrightarrow> sorted_wrt R xs"
  by (induction xs) auto

lemma moved_in_ok:
  assumes "distinct before" "distinct after" "set after = set before"
  shows "filter (\<lambda>x. x \<notin> set (moved_in before after)) before
      = filter (\<lambda>x. x \<notin> set (moved_in before after)) after
    \<and> distinct (moved_in before after) \<and> set (moved_in before after) \<subseteq> set after
    \<and> (\<forall>S. filter (\<lambda>x. x \<notin> S) before = filter (\<lambda>x. x \<notin> S) after
          \<longrightarrow> length (moved_in before after) \<le> card (S \<inter> set after))"
proof -
  let ?xs = "ranks before after" and ?n = "length after"
  obtain "is" where inc: "incr_indexes ?xs is" and kept: "longest_increasing ?xs = set is"
    and best: "\<And>js. incr_indexes ?xs js \<Longrightarrow> length js \<le> length is"
    using longest_increasing_ok [of ?xs] by auto
  have len: "length ?xs = ?n" by (simp add: ranks_def)
  have moved: "moved_in before after = map ((!) after) (filter (\<lambda>i. i \<notin> set is) [0..<?n])"
    by (simp add: moved_in_alt kept)
  have in_moved: "after ! i \<in> set (moved_in before after) \<longleftrightarrow> i \<notin> set is" if "i < ?n" for i
    using that assms(2) by (auto simp: moved nth_eq_iff_index_eq)
  have rest: "filter (\<lambda>x. x \<notin> set (moved_in before after)) after = map ((!) after) is"
  proof -
    have "filter (\<lambda>i. after ! i \<notin> set (moved_in before after)) [0..<?n]
        = filter (\<lambda>i. i \<in> set is) [0..<?n]"
      by (rule filter_cong) (auto simp: in_moved)
    then have "filter (\<lambda>x. x \<notin> set (moved_in before after)) (map ((!) after) [0..<?n])
        = map ((!) after) (filter (\<lambda>i. i \<in> set is) [0..<?n])"
      by (simp add: filter_map comp_def)
    also have "filter (\<lambda>i. i \<in> set is) [0..<?n] = is"
      using incr_indexes_filter [OF inc] len by simp
    finally show ?thesis by (simp add: map_nth)
  qed
  have "ranks before (map ((!) after) is) = map ((!) ?xs) is"
    using inc len by (simp add: ranks_def incr_indexes_def list_all_iff)
  then have "sorted (ranks before (map ((!) after) is))"
    using incr_indexes_sorted [OF inc]
      sorted_wrt_mono_rel [of "is" "\<lambda>i j. ?xs ! i < ?xs ! j" "\<lambda>i j. ?xs ! i \<le> ?xs ! j"]
    by (simp add: sorted_wrt_map)
  then have "sorted (ranks before (filter (\<lambda>x. x \<notin> set (moved_in before after)) after))"
    by (simp add: rest)
  then have "filter (\<lambda>x. x \<notin> set (moved_in before after)) before
      = filter (\<lambda>x. x \<notin> set (moved_in before after)) after"
    using assms sorted_ranks_filter [OF assms(1)] by (intro same_order_iff [OF assms(1)]) simp_all
  moreover have "distinct (moved_in before after)"
    using assms(2) by (auto simp: moved distinct_map inj_on_def nth_eq_iff_index_eq)
  moreover have "set (moved_in before after) \<subseteq> set after" by (auto simp: moved)
  moreover have "length (moved_in before after) \<le> card (S \<inter> set after)"
    if S: "filter (\<lambda>x. x \<notin> S) before = filter (\<lambda>x. x \<notin> S) after" for S
  proof -
    let ?js = "filter (\<lambda>i. after ! i \<notin> S) [0..<?n]"
    have "filter (\<lambda>x. x \<notin> S) after = map ((!) after) ?js"
    proof -
      have "filter (\<lambda>x. x \<notin> S) (map ((!) after) [0..<?n]) = map ((!) after) ?js"
        by (simp add: filter_map comp_def)
      then show ?thesis by (simp add: map_nth)
    qed
    then have "sorted (ranks before (map ((!) after) ?js))"
      using sorted_ranks_filter [OF assms(1), of "\<lambda>x. x \<notin> S"] S by simp
    moreover have "ranks before (map ((!) after) ?js) = map ((!) ?xs) ?js"
      by (simp add: ranks_def)
    ultimately have le: "sorted_wrt (\<lambda>i j. ?xs ! i \<le> ?xs ! j) ?js" by (simp add: sorted_wrt_map)
    have "?xs ! i \<noteq> ?xs ! j" if "i < j" "j < ?n" for i j
      using that nth_ranks [OF assms(1), of after i] nth_ranks [OF assms(1), of after j] assms(2,3)
      by (auto simp: nth_eq_iff_index_eq)
    with le have "incr_indexes ?xs ?js"
      using len sorted_wrt_both [OF le, of "(<)"] unfolding incr_indexes_def
      by (auto simp: list_all_iff sorted_wrt_filter le_neq_implies_less)
    from best [OF this] have "length ?js \<le> length is" .
    moreover have "length (moved_in before after) = ?n - length is"
      using incr_indexes_filter [OF inc] len sum_length_filter_compl [of "\<lambda>i. i \<in> set is" "[0..<?n]"]
      by (simp add: moved)
    moreover have "card (S \<inter> set after) = ?n - length ?js"
    proof -
      have "S \<inter> set after = set (filter (\<lambda>x. x \<in> S) after)" by auto
      then have "card (S \<inter> set after) = length (filter (\<lambda>x. x \<in> S) after)"
        using assms(2) distinct_card [of "filter (\<lambda>x. x \<in> S) after"] by simp
      moreover have "length (filter (\<lambda>x. x \<notin> S) after) = length ?js"
        using \<open>filter (\<lambda>x. x \<notin> S) after = map ((!) after) ?js\<close> by simp
      ultimately show ?thesis using sum_length_filter_compl [of "\<lambda>x. x \<in> S" after] by simp
    qed
    ultimately show ?thesis by simp
  qed
  ultimately show ?thesis using rest by simp
qed

text \<open>The two orders \<open>moved_columns\<close> compares.\<close>

definition order_before :: "table_model \<Rightarrow> table_model \<Rightarrow> origin list" where
  "order_before old new =
     filter (\<lambda>x. x \<in> set (map co_origin (ta_columns new))) (map co_origin (ta_columns old))"

definition order_after :: "table_model \<Rightarrow> origin list" where
  "order_after new = filter (\<lambda>x. \<not> is_new x) (map co_origin (ta_columns new))"

text \<open>Origins of a captured table and of a draft of it.\<close>

definition columns_ok :: "table_model \<Rightarrow> table_model \<Rightarrow> bool" where
  "columns_ok old new \<longleftrightarrow>
     distinct (map co_origin (ta_columns old)) \<and> distinct (map co_origin (ta_columns new))
     \<and> list_all (\<lambda>c. \<not> is_new (co_origin c)) (ta_columns old)
     \<and> list_all (\<lambda>c. is_new (co_origin c) \<or> co_origin c \<in> co_origin ` set (ta_columns old))
         (ta_columns new)"

lemma orders_ok:
  assumes "columns_ok old new"
  shows "distinct (order_before old new)" "distinct (order_after new)"
    "set (order_after new) = set (order_before old new)"
  using assms by (auto simp: columns_ok_def order_before_def order_after_def list_all_iff)

lemma moved_columns_eq:
  assumes "columns_ok old new"
  shows "moved_columns old new =
    (if order_before old new = order_after new then []
     else moved_in (order_before old new) (order_after new))"
proof -
  have "List.map_filter (position_in (order_before old new)) (order_after new)
      = ranks (order_before old new) (order_after new)"
    using orders_ok [OF assms] by (intro map_filter_positions) simp_all
  then show ?thesis
    by (simp add: moved_columns_def order_before_def order_after_def Let_def moved_in_def)
qed

lemma moved_columns_Nil_iff:
  assumes "columns_ok old new"
  shows "moved_columns old new = [] \<longleftrightarrow> order_before old new = order_after new"
  using moved_in_ok [OF orders_ok [OF assms]] by (auto simp: moved_columns_eq [OF assms])

text \<open>
  C36: \<open>diff\<close> reports as moved the fewest columns that explain the new order.  Without the moved
  columns the surviving columns stand in the captured order, and no set of fewer columns has that
  effect.
\<close>

theorem moved_columns_are_fewest:
  assumes "columns_ok old new"
  shows "filter (\<lambda>x. x \<notin> set (moved_columns old new)) (order_before old new)
      = filter (\<lambda>x. x \<notin> set (moved_columns old new)) (order_after new)
    \<and> distinct (moved_columns old new) \<and> set (moved_columns old new) \<subseteq> set (order_after new)
    \<and> (filter (\<lambda>x. x \<notin> S) (order_before old new) = filter (\<lambda>x. x \<notin> S) (order_after new)
        \<longrightarrow> length (moved_columns old new) \<le> card (S \<inter> set (order_after new)))"
  using moved_in_ok [OF orders_ok [OF assms]] by (simp add: moved_columns_eq [OF assms])

lemma moved_columns_are_fewest_witness:
  "\<exists>old new. columns_ok old new \<and> moved_columns old new = [Existing 3]
    \<and> length (moved_columns old new) \<le> card ({Existing 3, Existing 1} \<inter> set (order_after new))"
proof -
  define col where "col n = column_new (Existing n) [] []" for n
  define table where "table cs = \<lparr>ta_schema = [], ta_name = [], ta_comment = None,
    ta_columns = map col cs, ta_primary_key = None, ta_uniques = [], ta_foreign_keys = [],
    ta_checks = [], ta_indexes = [], ta_options = \<lparr>op_strict = False, op_without_rowid = False,
    op_engine = None, op_charset = None, op_collation = None, op_row_format = None\<rparr>\<rparr>" for cs
  have "columns_ok (table [1, 2, 3]) (table [3, 1, 2])"
    "moved_columns (table [1, 2, 3]) (table [3, 1, 2]) = [Existing 3]"
    "filter (\<lambda>x. x \<notin> {Existing 3, Existing 1}) (order_before (table [1, 2, 3]) (table [3, 1, 2]))
      = filter (\<lambda>x. x \<notin> {Existing 3, Existing 1}) (order_after (table [3, 1, 2]))"
    unfolding table_def col_def by code_simp+
  then show ?thesis
    using moved_columns_are_fewest [of "table [1, 2, 3]" "table [3, 1, 2]" "{Existing 3, Existing 1}"]
    by blast
qed

end
