(* ===== verification/SchemaApply.thy ===== *)
theory SchemaApply imports SchemaPlan SchemaFacts SchemaMoves begin

text \<open>
  What the plan steps mean: an abstract interpreter that applies a step to a table.  It is the
  specification \<open>plan_steps\<close> is proved against, and models no code.  The locales \<open>part\<close> and \<open>slot\<close> state
  what the lists of a table that the steps change have in common.
\<close>

section \<open>Operations on a list of objects\<close>

definition drop_object :: "('a \<Rightarrow> origin) \<Rightarrow> nat \<Rightarrow> 'a list \<Rightarrow> 'a list option" where
  "drop_object origin n xs =
     (if Existing n \<in> origin ` set xs then Some (filter (\<lambda>x. origin x \<noteq> Existing n) xs) else None)"

definition update_object ::
  "('a \<Rightarrow> origin) \<Rightarrow> ('a \<Rightarrow> 'a \<Rightarrow> 'a) \<Rightarrow> 'a list \<Rightarrow> origin \<Rightarrow> 'a list \<Rightarrow> 'a list option" where
  "update_object origin f target x xs =
     (case find (\<lambda>y. origin y = x) target of
        None \<Rightarrow> None
      | Some y \<Rightarrow>
          if x \<in> origin ` set xs then Some (map (\<lambda>c. if origin c = x then f y c else c) xs) else None)"

definition add_object ::
  "('a \<Rightarrow> origin) \<Rightarrow> ('a \<Rightarrow> bool) \<Rightarrow> 'a list \<Rightarrow> origin \<Rightarrow> 'a list \<Rightarrow> 'a list option" where
  "add_object origin allowed target x xs =
     (case find (\<lambda>y. origin y = x) target of
        None \<Rightarrow> None
      | Some y \<Rightarrow> if x \<notin> origin ` set xs \<and> allowed y then Some (xs @ [y]) else None)"

section \<open>What a step does\<close>

text \<open>
  \<open>apply_step new s t\<close> is the table after step \<open>s\<close> on table \<open>t\<close>, where \<open>new\<close> is the draft's table
  that the step takes its values from, or \<open>None\<close> when the step cannot be carried out: its object is
  missing or already there, a new key names a column that is not there, a primary key is added to
  another, or a column is dropped that a key, index or foreign key still uses.
\<close>

definition columns_present :: "table_model \<Rightarrow> origin list \<Rightarrow> bool" where
  "columns_present t xs \<longleftrightarrow> list_all (\<lambda>x. column_of t x \<noteq> None) xs"

fun copy_field :: "column_model \<Rightarrow> column_model \<Rightarrow> column_field \<Rightarrow> column_model" where
  "copy_field c p CfDataType = p\<lparr>co_data_type := co_data_type c\<rparr>"
| "copy_field c p CfCollation = p\<lparr>co_collation := co_collation c\<rparr>"
| "copy_field c p CfNullable = p\<lparr>co_nullable := co_nullable c\<rparr>"
| "copy_field c p CfDefault = p\<lparr>co_default := co_default c\<rparr>"
| "copy_field c p CfGenerated = p\<lparr>co_generated := co_generated c\<rparr>"
| "copy_field c p CfIdentity = p\<lparr>co_identity := co_identity c\<rparr>"
| "copy_field c p CfCharset =
     p\<lparr>co_extra := (co_extra p)\<lparr>ex_charset := ex_charset (co_extra c)\<rparr>\<rparr>"
| "copy_field c p CfOnUpdate =
     p\<lparr>co_extra := (co_extra p)\<lparr>ex_on_update := ex_on_update (co_extra c)\<rparr>\<rparr>"
| "copy_field c p CfInvisible =
     p\<lparr>co_extra := (co_extra p)\<lparr>ex_invisible := ex_invisible (co_extra c)\<rparr>\<rparr>"

definition put_columns :: "column_model list \<Rightarrow> table_model \<Rightarrow> table_model" where
  "put_columns cs t = t\<lparr>ta_columns := cs\<rparr>"

definition put_primary_key :: "key_model list \<Rightarrow> table_model \<Rightarrow> table_model" where
  "put_primary_key ks t = t\<lparr>ta_primary_key := (case ks of [] \<Rightarrow> None | k # _ \<Rightarrow> Some k)\<rparr>"

definition put_uniques :: "key_model list \<Rightarrow> table_model \<Rightarrow> table_model" where
  "put_uniques ks t = t\<lparr>ta_uniques := ks\<rparr>"

definition put_foreign_keys :: "foreign_key_model list \<Rightarrow> table_model \<Rightarrow> table_model" where
  "put_foreign_keys ks t = t\<lparr>ta_foreign_keys := ks\<rparr>"

definition put_checks :: "check_model list \<Rightarrow> table_model \<Rightarrow> table_model" where
  "put_checks cs t = t\<lparr>ta_checks := cs\<rparr>"

definition put_indexes :: "index_model list \<Rightarrow> table_model \<Rightarrow> table_model" where
  "put_indexes is t = t\<lparr>ta_indexes := is\<rparr>"

definition primary_keys :: "table_model \<Rightarrow> key_model list" where
  "primary_keys t = as_slice (ta_primary_key t)"

definition copy_key_name :: "key_model \<Rightarrow> key_model \<Rightarrow> key_model" where
  "copy_key_name k p = p\<lparr>ke_name := ke_name k\<rparr>"

definition update_column ::
  "(column_model \<Rightarrow> column_model \<Rightarrow> column_model) \<Rightarrow> table_model \<Rightarrow> origin \<Rightarrow> table_model
     \<Rightarrow> table_model option" where
  "update_column f new x t =
     map_option (\<lambda>cs. put_columns cs t) (update_object co_origin f (ta_columns new) x (ta_columns t))"

fun apply_step :: "table_model \<Rightarrow> plan_step \<Rightarrow> table_model \<Rightarrow> table_model option" where
  "apply_step new (DropForeignKey n) t =
     map_option (\<lambda>xs. put_foreign_keys xs t) (drop_object fk_origin n (ta_foreign_keys t))"
| "apply_step new (DropCheck n) t =
     map_option (\<lambda>xs. put_checks xs t) (drop_object ck_origin n (ta_checks t))"
| "apply_step new (DropUnique n) t =
     map_option (\<lambda>xs. put_uniques xs t) (drop_object ke_origin n (ta_uniques t))"
| "apply_step new (DropPrimaryKey n) t =
     map_option (\<lambda>xs. put_primary_key xs t) (drop_object ke_origin n (primary_keys t))"
| "apply_step new (DropIndex n) t =
     map_option (\<lambda>xs. put_indexes xs t) (drop_object ix_origin n (ta_indexes t))"
| "apply_step new (RenameColumn n) t =
     update_column (\<lambda>c p. p\<lparr>co_name := co_name c\<rparr>) new (Existing n) t"
| "apply_step new (RenameConstraint object n) t =
     (case object of
        PrimaryKeyObject \<Rightarrow> map_option (\<lambda>xs. put_primary_key xs t)
          (update_object ke_origin copy_key_name (primary_keys new) (Existing n) (primary_keys t))
      | UniqueObject \<Rightarrow> map_option (\<lambda>xs. put_uniques xs t)
          (update_object ke_origin copy_key_name (ta_uniques new) (Existing n) (ta_uniques t))
      | ForeignKeyObject \<Rightarrow> map_option (\<lambda>xs. put_foreign_keys xs t)
          (update_object fk_origin (\<lambda>k p. p\<lparr>fk_name := fk_name k\<rparr>) (ta_foreign_keys new)
             (Existing n) (ta_foreign_keys t))
      | CheckObject \<Rightarrow> map_option (\<lambda>xs. put_checks xs t)
          (update_object ck_origin (\<lambda>c p. p\<lparr>ck_name := ck_name c\<rparr>) (ta_checks new)
             (Existing n) (ta_checks t))
      | IndexObject \<Rightarrow> map_option (\<lambda>xs. put_indexes xs t)
          (update_object ix_origin (\<lambda>i p. p\<lparr>ix_name := ix_name i\<rparr>) (ta_indexes new)
             (Existing n) (ta_indexes t))
      | _ \<Rightarrow> None)"
| "apply_step new RenameTable t = Some (t\<lparr>ta_name := ta_name new\<rparr>)"
| "apply_step new (AlterColumn n fs) t =
     update_column (\<lambda>c p. foldl (copy_field c) p fs) new (Existing n) t"
| "apply_step new (AddColumn x) t =
     map_option (\<lambda>cs. put_columns cs t)
       (add_object co_origin (\<lambda>c. True) (map (\<lambda>c. c\<lparr>co_comment := None\<rparr>) (ta_columns new)) x
          (ta_columns t))"
| "apply_step new (DropColumn n) t =
     (if column_is_referenced t (Existing n) then None
      else map_option (\<lambda>cs. put_columns cs t) (drop_object co_origin n (ta_columns t)))"
| "apply_step new ReorderColumns t =
     (let xs = map co_origin (ta_columns new) in
      if columns_present t xs \<and> length xs = length (ta_columns t)
      then Some (put_columns (map (\<lambda>x. the (column_of t x)) xs) t) else None)"
| "apply_step new (AddPrimaryKey x) t =
     map_option (\<lambda>xs. put_primary_key xs t)
       (add_object ke_origin (\<lambda>k. columns_present t (ke_columns k) \<and> length (primary_keys t @ [k]) \<le> 1)
          (primary_keys new) x (primary_keys t))"
| "apply_step new (AddUnique x) t =
     map_option (\<lambda>xs. put_uniques xs t)
       (add_object ke_origin (\<lambda>k. columns_present t (ke_columns k)) (ta_uniques new) x (ta_uniques t))"
| "apply_step new (AddCheck x) t =
     map_option (\<lambda>xs. put_checks xs t)
       (add_object ck_origin (\<lambda>c. True) (ta_checks new) x (ta_checks t))"
| "apply_step new (CreateIndex x) t =
     map_option (\<lambda>xs. put_indexes xs t)
       (add_object ix_origin (\<lambda>i. columns_present t (ix_include i @ target_columns i))
          (ta_indexes new) x (ta_indexes t))"
| "apply_step new (AddForeignKey x) t =
     map_option (\<lambda>xs. put_foreign_keys xs t)
       (add_object fk_origin (\<lambda>k. columns_present t (fk_columns k)) (ta_foreign_keys new) x
          (ta_foreign_keys t))"
| "apply_step new SetTableComment t = Some (t\<lparr>ta_comment := ta_comment new\<rparr>)"
| "apply_step new (SetColumnComment x) t =
     update_column (\<lambda>c p. p\<lparr>co_comment := co_comment c\<rparr>) new x t"
| "apply_step new (SetTableOptions fs) t = Some (t\<lparr>ta_options := ta_options new\<rparr>)"

declare apply_step.simps [simp del]

fun run_steps :: "table_model \<Rightarrow> plan_step list \<Rightarrow> table_model \<Rightarrow> table_model option" where
  "run_steps new [] t = Some t"
| "run_steps new (s # ss) t =
     (case apply_step new s t of None \<Rightarrow> None | Some t' \<Rightarrow> run_steps new ss t')"

lemma run_steps_append:
  "run_steps new (xs @ ys) t = (case run_steps new xs t of None \<Rightarrow> None | Some t' \<Rightarrow> run_steps new ys t')"
  by (induction xs arbitrary: t) (auto split: option.splits)

lemma run_steps_only_if:
  "run_steps new (only_if c s) t = (if c then apply_step new s t else Some t)"
  by (auto split: option.splits)

text \<open>Updates of different objects, one after the other, are one map over the list.\<close>

definition update_all ::
  "('a \<Rightarrow> origin) \<Rightarrow> (origin \<times> ('a \<Rightarrow> 'a \<Rightarrow> 'a)) list \<Rightarrow> 'a list \<Rightarrow> 'a \<Rightarrow> 'a" where
  "update_all origin us target c =
     (case map_of us (origin c) of
        None \<Rightarrow> c
      | Some f \<Rightarrow> f (the (find (\<lambda>y. origin y = origin c) target)) c)"

section \<open>Parts of a table\<close>

text \<open>
  A part is a list of objects of the table that can be read and replaced; \<open>fits\<close> is the limit on
  its length (one primary key).
\<close>

locale part =
  fixes items :: "table_model \<Rightarrow> 'a list" and put :: "'a list \<Rightarrow> table_model \<Rightarrow> table_model"
    and fits :: "'a list \<Rightarrow> bool" and origin :: "'a \<Rightarrow> origin"
  assumes items_put: "fits xs \<Longrightarrow> items (put xs t) = xs"
    and put_put: "put xs (put ys t) = put xs t"
    and put_items: "put (items t) t = t"
    and fits_items: "fits (items t)"
    and fits_length: "fits xs \<Longrightarrow> length ys \<le> length xs \<Longrightarrow> fits ys"

context part
begin

lemma run_updates:
  assumes "\<And>t v. v \<in> set vs \<Longrightarrow> apply_step new (mk v) t
        = map_option (\<lambda>xs. put xs t) (update_object origin (snd (h v)) (items new) (fst (h v)) (items t))"
    and "distinct (map (\<lambda>v. fst (h v)) vs)" "(\<lambda>v. fst (h v)) ` set vs \<subseteq> origin ` set (items t)"
    and "(\<lambda>v. fst (h v)) ` set vs \<subseteq> origin ` set (items new)"
    and "\<And>v y c. v \<in> set vs \<Longrightarrow> origin (snd (h v) y c) = origin c"
  shows "run_steps new (map mk vs) t
    = Some (put (map (update_all origin (map h vs) (items new)) (items t)) t)"
  using assms
proof (induction vs arbitrary: t)
  case Nil
  then show ?case by (simp add: update_all_def put_items map_idI)
next
  case (Cons v vs)
  obtain x f where v: "h v = (x, f)" by (cases "h v")
  obtain y where y: "find (\<lambda>y. origin y = x) (items new) = Some y"
    using Cons.prems(4) v by (cases "find (\<lambda>y. origin y = x) (items new)") (auto simp: find_eq_None)
  let ?g = "\<lambda>c. if origin c = x then f y c else c"
  let ?t = "put (map ?g (items t)) t"
  have org: "origin (?g c) = origin c" for c using Cons.prems(5) [of v y c] v by auto
  have step: "apply_step new (mk v) t = Some ?t"
    using Cons.prems(1) [of v t] Cons.prems(3) v y by (auto simp: update_object_def)
  have items: "items ?t = map ?g (items t)"
    by (rule items_put) (rule fits_length [OF fits_items [of t]], simp)
  have "origin ` set (items ?t) = origin ` set (items t)"
    by (simp only: items set_map image_image org)
  then have "run_steps new (map mk vs) ?t
      = Some (put (map (update_all origin (map h vs) (items new)) (items ?t)) ?t)"
    using Cons.prems by (intro Cons.IH) auto
  also have "map (update_all origin (map h vs) (items new)) (items ?t)
      = map (update_all origin (map h (v # vs)) (items new)) (items t)"
  proof -
    have "update_all origin (map h vs) (items new) (?g c)
        = update_all origin (map h (v # vs)) (items new) c" for c
    proof (cases "origin c = x")
      case True
      moreover have "map_of (map h vs) x = None"
        using Cons.prems(2) v by (auto simp: map_of_eq_None_iff image_iff)
      moreover have "origin (f y c) = origin c" using Cons.prems(5) [of v y c] v by simp
      ultimately show ?thesis using v y by (simp add: update_all_def)
    next
      case False
      then show ?thesis using v by (simp add: update_all_def)
    qed
    then show ?thesis by (simp add: items)
  qed
  finally show ?case using step by (simp add: put_put)
qed

end

text \<open>
  A slot is a part whose objects the plan drops, renames and adds.  \<open>members\<close> are the columns an
  object needs when it is added.
\<close>

locale slot = part items put fits origin
  for items :: "table_model \<Rightarrow> 'a list" and put fits origin +
  fixes drop' :: "nat \<Rightarrow> plan_step" and add :: "origin \<Rightarrow> plan_step" and object :: schema_object
    and copy_name :: "'a \<Rightarrow> 'a \<Rightarrow> 'a" and members :: "'a \<Rightarrow> origin list"
  assumes apply_drop: "apply_step new (drop' n) t
      = map_option (\<lambda>xs. put xs t) (drop_object origin n (items t))"
    and apply_rename: "apply_step new (RenameConstraint object n) t
      = map_option (\<lambda>xs. put xs t) (update_object origin copy_name (items new) (Existing n) (items t))"
    and apply_add: "apply_step new (add x) t
      = map_option (\<lambda>xs. put xs t)
          (add_object origin (\<lambda>y. columns_present t (members y) \<and> fits (items t @ [y])) (items new) x
             (items t))"
    and copy_name_origin: "origin (copy_name y c) = origin c"
    and columns_put: "ta_columns (put xs t) = ta_columns t"
    and phase_drop: "phase (drop' n) = 1"
    and phase_add: "phase (add x) \<in> {6, 7}"

context slot
begin

lemma run_drops:
  "distinct ns \<Longrightarrow> Existing ` set ns \<subseteq> origin ` set (items t) \<Longrightarrow>
     run_steps new (map drop' ns) t
       = Some (put (filter (\<lambda>x. origin x \<notin> Existing ` set ns) (items t)) t)"
proof (induction ns arbitrary: t)
  case Nil
  then show ?case by (simp add: put_items)
next
  case (Cons n ns)
  let ?t = "put (filter (\<lambda>x. origin x \<noteq> Existing n) (items t)) t"
  have items: "items ?t = filter (\<lambda>x. origin x \<noteq> Existing n) (items t)"
    by (rule items_put) (rule fits_length [OF fits_items [of t]], simp)
  have "Existing m \<in> origin ` set (items ?t)" if "m \<in> set ns" for m
  proof -
    have "Existing m \<in> origin ` set (items t)" using Cons.prems(2) that by auto
    then obtain x where "x \<in> set (items t)" "origin x = Existing m" by (metis imageE)
    moreover from this have "x \<in> set (items ?t)" unfolding items using Cons.prems(1) that by auto
    ultimately show ?thesis by (metis image_eqI)
  qed
  then have "run_steps new (map drop' ns) ?t
      = Some (put (filter (\<lambda>x. origin x \<notin> Existing ` set ns) (items ?t)) ?t)"
    using Cons.prems(1) by (intro Cons.IH) auto
  moreover have "filter (\<lambda>x. origin x \<notin> Existing ` set ns) (items ?t)
      = filter (\<lambda>x. origin x \<notin> Existing ` set (n # ns)) (items t)"
    unfolding items filter_filter by (rule filter_cong) auto
  moreover have "Existing n \<in> origin ` set (items t)" using Cons.prems(2) by simp
  ultimately show ?case by (simp add: apply_drop drop_object_def put_put)
qed

lemma run_renames:
  assumes "distinct ns" "Existing ` set ns \<subseteq> origin ` set (items t)"
    and "Existing ` set ns \<subseteq> origin ` set (items new)"
  shows "run_steps new (map (RenameConstraint object) ns) t
    = Some (put (map (update_all origin (map (\<lambda>n. (Existing n, copy_name)) ns) (items new)) (items t)) t)"
  using assms by (intro run_updates) (auto simp: apply_rename copy_name_origin distinct_map inj_on_def)

lemma run_adds:
  "distinct (map origin (items t @ ys)) \<Longrightarrow> set ys \<subseteq> set (items new) \<Longrightarrow>
     distinct (map origin (items new)) \<Longrightarrow> fits (items t @ ys) \<Longrightarrow>
     list_all (\<lambda>y. columns_present t (members y)) ys \<Longrightarrow>
     run_steps new (map (\<lambda>y. add (origin y)) ys) t = Some (put (items t @ ys) t)"
proof (induction ys arbitrary: t)
  case Nil
  then show ?case by (simp add: put_items)
next
  case (Cons y ys)
  let ?t = "put (items t @ [y]) t"
  have fits: "fits (items t @ [y])" by (rule fits_length [OF Cons.prems(4)]) simp
  then have items: "items ?t = items t @ [y]" by (rule items_put)
  have "find (\<lambda>z. origin z = origin y) (items new) = Some y"
    using Cons.prems by (intro find_distinct) auto
  then have "apply_step new (add (origin y)) t = Some ?t"
    using Cons.prems fits by (auto simp: apply_add add_object_def)
  moreover have "run_steps new (map (\<lambda>y. add (origin y)) ys) ?t = Some (put (items ?t @ ys) ?t)"
    using Cons.prems by (intro Cons.IH) (auto simp: items columns_present_def column_of_def columns_put)
  ultimately show ?case by (simp add: items put_put)
qed

end

section \<open>The parts of the model\<close>

interpretation columns: part ta_columns put_columns "\<lambda>_. True" co_origin
  by unfold_locales (simp_all add: put_columns_def)

interpretation primary: slot primary_keys put_primary_key "\<lambda>ks. length ks \<le> 1" ke_origin
  DropPrimaryKey AddPrimaryKey PrimaryKeyObject copy_key_name ke_columns
proof
  show "primary_keys (put_primary_key xs t) = xs" if "length xs \<le> 1" for xs t
    using that by (cases xs) (simp_all add: primary_keys_def put_primary_key_def)
  show "put_primary_key (primary_keys t) t = t" for t
    by (cases "ta_primary_key t") (simp_all add: primary_keys_def put_primary_key_def)
  show "length (primary_keys t) \<le> 1" for t
    by (cases "ta_primary_key t") (simp_all add: primary_keys_def)
qed (simp_all add: apply_step.simps put_primary_key_def copy_key_name_def)

interpretation uniques: slot ta_uniques put_uniques "\<lambda>_. True" ke_origin
  DropUnique AddUnique UniqueObject copy_key_name ke_columns
  by unfold_locales (simp_all add: apply_step.simps put_uniques_def copy_key_name_def)

interpretation foreign_keys: slot ta_foreign_keys put_foreign_keys "\<lambda>_. True" fk_origin
  DropForeignKey AddForeignKey ForeignKeyObject "\<lambda>k p. p\<lparr>fk_name := fk_name k\<rparr>" fk_columns
  by unfold_locales (simp_all add: apply_step.simps put_foreign_keys_def)

interpretation checks: slot ta_checks put_checks "\<lambda>_. True" ck_origin
  DropCheck AddCheck CheckObject "\<lambda>c p. p\<lparr>ck_name := ck_name c\<rparr>" "\<lambda>c. []"
  by unfold_locales (simp_all add: apply_step.simps put_checks_def columns_present_def)

interpretation indexes: slot ta_indexes put_indexes "\<lambda>_. True" ix_origin
  DropIndex CreateIndex IndexObject "\<lambda>i p. p\<lparr>ix_name := ix_name i\<rparr>"
  "\<lambda>i. ix_include i @ target_columns i"
  by unfold_locales (simp_all add: apply_step.simps put_indexes_def)

end
