(* ===== verification/SchemaSlots.thy ===== *)
theory SchemaSlots imports SchemaApply begin

text \<open>
  The steps of a plan, sorted by what they do to the objects of one kind: which are dropped, which
  renamed, which added, and that together these give the draft's objects.
\<close>

section \<open>Which objects the plan drops, renames and adds\<close>

definition drop_ids :: "('a \<Rightarrow> origin) \<Rightarrow> ('a \<Rightarrow> 'a \<Rightarrow> bool) \<Rightarrow> 'a list \<Rightarrow> 'a list \<Rightarrow> nat list" where
  "drop_ids origin redefined old new =
     (let (pairs, added, removed) = match_objects origin old new in
      concat (map (\<lambda>x. as_slice (existing (origin x))) removed)
      @ concat (map (\<lambda>(p, x). if redefined p x then as_slice (existing (origin x)) else []) pairs))"

definition rename_ids ::
  "('a \<Rightarrow> origin) \<Rightarrow> ('a \<Rightarrow> 'a \<Rightarrow> bool) \<Rightarrow> ('a \<Rightarrow> 'a \<Rightarrow> bool) \<Rightarrow> 'a list \<Rightarrow> 'a list \<Rightarrow> nat list" where
  "rename_ids origin redefined renames old new =
     (let (pairs, added, removed) = match_objects origin old new in
      concat (map (\<lambda>(p, x). if \<not> redefined p x \<and> renames p x then as_slice (existing (origin x)) else [])
        pairs))"

definition added_items :: "('a \<Rightarrow> origin) \<Rightarrow> ('a \<Rightarrow> 'a \<Rightarrow> bool) \<Rightarrow> 'a list \<Rightarrow> 'a list \<Rightarrow> 'a list" where
  "added_items origin redefined old new =
     (let (pairs, added, removed) = match_objects origin old new in
      map snd (filter (\<lambda>(p, x). redefined p x) pairs) @ added)"

lemma match_pair_Some:
  "match_pair origin old x = Some p \<Longrightarrow>
     p \<in> set old \<and> origin p = origin x \<and> (\<exists>n. origin x = Existing n)"
  unfolding match_pair_def by (drule find_map_Some) (cases "origin x", auto)

lemma pairs_existing:
  "(p, x) \<in> set (fst (match_objects origin old new)) \<Longrightarrow> \<exists>n. existing (origin x) = Some n"
  by (auto simp: match_objects_def List.map_filter_def dest: match_pair_Some)

lemma object_steps_phases:
  assumes "\<And>n. phase (drop' n) = 1" "\<And>x. phase (add x) = a" "a \<in> {6, 7}"
  shows "filter (\<lambda>s. phase s = k) (object_steps origin drop' add object redefined renames old new)
    = (if k = 1 then map drop' (drop_ids origin redefined old new)
       else if k = 2 then map (RenameConstraint object) (rename_ids origin redefined renames old new)
       else if k = a then map (\<lambda>x. add (origin x)) (added_items origin redefined old new)
       else [])"
proof -
  obtain pairs added removed where m: "match_objects origin old new = (pairs, added, removed)"
    by (cases "match_objects origin old new")
  have pairs: "(p, x) \<in> set pairs \<Longrightarrow> \<exists>n. existing (origin x) = Some n" for p x
    using pairs_existing [of p x origin old new] by (simp add: m)
  have removed: "filter (\<lambda>s. phase s = k) (drop_removed origin drop' xs)
      = (if k = 1 then map drop' (concat (map (\<lambda>x. as_slice (existing (origin x))) xs)) else [])" for xs
    by (induction xs) (auto simp: drop_removed_def assms(1) split: option.splits)
  have "filter (\<lambda>s. phase s = k) (concat (map (pair_steps origin drop' add object redefined renames) ps))
      = (if k = 1 then map drop' (concat (map (\<lambda>(p, x).
            if redefined p x then as_slice (existing (origin x)) else []) ps))
         else if k = 2 then map (RenameConstraint object) (concat (map (\<lambda>(p, x).
            if \<not> redefined p x \<and> renames p x then as_slice (existing (origin x)) else []) ps))
         else if k = a then map (\<lambda>x. add (origin x)) (map snd (filter (\<lambda>(p, x). redefined p x) ps))
         else [])" if "set ps \<subseteq> set pairs" for ps
    using that
  proof (induction ps)
    case (Cons q ps)
    obtain p x where q: "q = (p, x)" by (cases q)
    from Cons.prems q pairs [of p x] obtain n where "existing (origin x) = Some n" by auto
    with Cons q assms show ?case by (auto simp: pair_steps_def)
  qed simp
  from this [of pairs] removed show ?thesis
    using assms by (auto simp: object_steps_def m drop_ids_def rename_ids_def added_items_def)
qed

text \<open>Two lists of objects a draft can hold: the captured ones, and the edited ones.\<close>

definition objects_ok :: "('a \<Rightarrow> origin) \<Rightarrow> 'a list \<Rightarrow> 'a list \<Rightarrow> bool" where
  "objects_ok origin old new \<longleftrightarrow>
     distinct (map origin old) \<and> distinct (map origin new) \<and> (\<forall>p\<in>set old. \<not> is_new (origin p))
     \<and> (\<forall>x\<in>set new. is_new (origin x) \<or> origin x \<in> origin ` set old)"

lemma set_map_filter: "y \<in> set (List.map_filter f xs) \<longleftrightarrow> (\<exists>x\<in>set xs. f x = Some y)"
  by (induction xs) (auto simp: List.map_filter_def image_iff)

lemma same_origin:
  assumes "objects_ok origin old new"
  shows "p \<in> set old \<Longrightarrow> q \<in> set old \<Longrightarrow> origin p = origin q \<Longrightarrow> p = q"
    "x \<in> set new \<Longrightarrow> y \<in> set new \<Longrightarrow> origin x = origin y \<Longrightarrow> x = y"
  using assms by (auto simp: objects_ok_def distinct_map dest: inj_onD)

lemma match_pair_iff:
  assumes "objects_ok origin old new"
  shows "match_pair origin old x = Some p \<longleftrightarrow> p \<in> set old \<and> origin p = origin x"
proof
  assume p: "p \<in> set old \<and> origin p = origin x"
  then have "\<not> is_new (origin x)" using assms by (metis objects_ok_def)
  moreover from p have "find (\<lambda>q. origin q = origin x) old = Some p"
    using assms find_distinct [of origin old p] by (simp add: objects_ok_def)
  ultimately show "match_pair origin old x = Some p" by (simp add: match_pair_def)
qed (blast dest: match_pair_Some)

lemma match_pair_None:
  assumes "objects_ok origin old new"
  shows "match_pair origin old x = None \<longleftrightarrow> origin x \<notin> origin ` set old"
  using match_pair_iff [OF assms, of x] by (metis imageE imageI not_Some_eq)

lemma existing_old: "objects_ok origin old new \<Longrightarrow> p \<in> set old \<Longrightarrow> \<exists>n. origin p = Existing n"
  by (cases "origin p") (auto simp: objects_ok_def)

text \<open>The pairs, the added and the removed objects, as sets.\<close>

lemma match_objects_sets:
  assumes "objects_ok origin old new" "match_objects origin old new = (pairs, added, removed)"
  shows "(p, x) \<in> set pairs \<longleftrightarrow> p \<in> set old \<and> x \<in> set new \<and> origin p = origin x"
    and "set added = {x \<in> set new. origin x \<notin> origin ` set old}"
    and "set removed = {p \<in> set old. origin p \<notin> origin ` set new}"
  using assms(2)
  by (auto simp: match_objects_def set_map_filter match_pair_iff [OF assms(1)]
      match_pair_None [OF assms(1)] list_ex_iff image_iff) metis?

lemma drop_ids_iff:
  assumes "objects_ok origin old new"
  shows "n \<in> set (drop_ids origin redefined old new) \<longleftrightarrow>
     (\<exists>p\<in>set old. origin p = Existing n \<and> (\<forall>x\<in>set new. origin x = origin p \<longrightarrow> redefined p x))"
proof -
  obtain pairs added removed where m: "match_objects origin old new = (pairs, added, removed)"
    by (cases "match_objects origin old new")
  note sets = match_objects_sets [OF assms m]
  have "n \<in> set (drop_ids origin redefined old new) \<longleftrightarrow>
      (\<exists>p\<in>set removed. origin p = Existing n)
      \<or> (\<exists>p x. (p, x) \<in> set pairs \<and> redefined p x \<and> origin x = Existing n)"
    by (auto simp: drop_ids_def m)
  also have "\<dots> \<longleftrightarrow> (\<exists>p\<in>set old. origin p = Existing n
        \<and> (\<forall>x\<in>set new. origin x = origin p \<longrightarrow> redefined p x))" (is "?l \<longleftrightarrow> ?r")
  proof
    assume ?l
    then show ?r unfolding sets using same_origin(2) [OF assms] by (auto simp: image_iff) metis+
  next
    assume ?r
    then obtain p where p: "p \<in> set old" "origin p = Existing n"
      "\<forall>x\<in>set new. origin x = origin p \<longrightarrow> redefined p x" by blast
    show ?l
    proof (cases "origin p \<in> origin ` set new")
      case True
      then obtain x where "x \<in> set new" "origin x = origin p" by (metis imageE)
      with p have "(p, x) \<in> set pairs \<and> redefined p x \<and> origin x = Existing n"
        by (simp add: sets(1))
      then show ?thesis by blast
    next
      case False
      with p have "p \<in> set removed" by (simp add: sets(3))
      with p show ?thesis by blast
    qed
  qed
  finally show ?thesis .
qed

lemma distinct_concat_ids:
  "distinct (map f xs) \<Longrightarrow>
     distinct (concat (map (\<lambda>x. if P x then as_slice (existing (f x)) else []) xs))"
proof (induction xs)
  case (Cons x xs)
  have "n \<notin> set (concat (map (\<lambda>x. if P x then as_slice (existing (f x)) else []) xs))"
    if "f x = Existing n" for n
    using Cons.prems that by (auto simp: image_iff split: if_splits)
  with Cons show ?case by (cases "f x") (auto simp del: set_concat)
qed simp

lemma map_snd_pairs:
  "map snd (List.map_filter (\<lambda>x. map_option (\<lambda>p. (p, x)) (g x)) xs) = filter (\<lambda>x. g x \<noteq> None) xs"
  by (induction xs) (auto simp: List.map_filter_def)

lemma distinct_matched:
  assumes "objects_ok origin old new" "match_objects origin old new = (pairs, added, removed)"
  shows "distinct (map (\<lambda>q. origin (snd q)) pairs)" "distinct (map origin removed)"
    "distinct (map origin added)"
proof -
  have "map snd pairs = filter (\<lambda>x. match_pair origin old x \<noteq> None) new"
    using assms(2) map_snd_pairs [of "match_pair origin old" new] by (simp add: match_objects_def)
  moreover have "map (\<lambda>q. origin (snd q)) pairs = map origin (map snd pairs)" by simp
  ultimately have "map (\<lambda>q. origin (snd q)) pairs
      = map origin (filter (\<lambda>x. match_pair origin old x \<noteq> None) new)"
    by (simp only:)
  then show "distinct (map (\<lambda>q. origin (snd q)) pairs)"
    using assms(1) by (simp add: objects_ok_def distinct_map_filter)
  show "distinct (map origin removed)" "distinct (map origin added)"
    using assms by (auto simp: match_objects_def objects_ok_def distinct_map_filter)
qed

lemma distinct_ids:
  assumes "objects_ok origin old new"
  shows "distinct (drop_ids origin redefined old new)"
    "distinct (rename_ids origin redefined renames old new)"
proof -
  obtain pairs added removed where m: "match_objects origin old new = (pairs, added, removed)"
    by (cases "match_objects origin old new")
  note sets = match_objects_sets [OF assms m] and distinct = distinct_matched [OF assms m]
  have ids: "distinct (concat (map (\<lambda>(p, x). if P p x then as_slice (existing (origin x)) else []) pairs))"
    for P
  proof -
    have "(\<lambda>q. if case q of (p, x) \<Rightarrow> P p x then as_slice (existing (origin (snd q))) else [])
        = (\<lambda>(p, x). if P p x then as_slice (existing (origin x)) else [])"
      by (simp add: fun_eq_iff)
    then show ?thesis using distinct_concat_ids [OF distinct(1), of "\<lambda>(p, x). P p x"] by simp
  qed
  have "distinct (concat (map (\<lambda>x. as_slice (existing (origin x))) removed))"
    using distinct_concat_ids [OF distinct(2), of "\<lambda>_. True"] by simp
  moreover have "set (concat (map (\<lambda>x. as_slice (existing (origin x))) removed))
      \<inter> set (concat (map (\<lambda>(p, x). if redefined p x then as_slice (existing (origin x)) else []) pairs)) = {}"
    by (auto simp: sets image_iff split: if_splits) metis+
  ultimately show "distinct (drop_ids origin redefined old new)"
    using ids [of redefined] by (simp add: drop_ids_def m)
  show "distinct (rename_ids origin redefined renames old new)"
    using ids [of "\<lambda>p x. \<not> redefined p x \<and> renames p x"] by (simp add: rename_ids_def m)
qed

lemma rename_ids_iff:
  assumes "objects_ok origin old new"
  shows "n \<in> set (rename_ids origin redefined renames old new) \<longleftrightarrow>
    (\<exists>p\<in>set old. \<exists>x\<in>set new. origin p = Existing n \<and> origin x = Existing n
        \<and> \<not> redefined p x \<and> renames p x)"
proof -
  obtain pairs added removed where m: "match_objects origin old new = (pairs, added, removed)"
    by (cases "match_objects origin old new")
  have "n \<in> set (rename_ids origin redefined renames old new) \<longleftrightarrow>
      (\<exists>p x. (p, x) \<in> set pairs \<and> \<not> redefined p x \<and> renames p x \<and> origin x = Existing n)"
    by (auto simp: rename_ids_def m)
  then show ?thesis unfolding match_objects_sets(1) [OF assms m] by auto metis+
qed

text \<open>
  After the drops, the renames and the adds, the objects are those of the draft, when what is
  neither redefined nor renamed is equal.
\<close>

lemma settled_items:
  assumes ok: "objects_ok origin old new"
    and settles: "\<And>p x. p \<in> set old \<Longrightarrow> x \<in> set new \<Longrightarrow> origin p = origin x \<Longrightarrow> \<not> redefined p x \<Longrightarrow>
      (if renames p x then copy x p else p) = x"
  defines "kept \<equiv> filter (\<lambda>p. origin p \<notin> Existing ` set (drop_ids origin redefined old new)) old"
    and "u \<equiv> update_all origin
      (map (\<lambda>n. (Existing n, copy)) (rename_ids origin redefined renames old new)) new"
  shows "mset (map u kept @ added_items origin redefined old new) = mset new"
    and "distinct (map origin (map u kept @ added_items origin redefined old new))"
proof -
  obtain pairs added removed where m: "match_objects origin old new = (pairs, added, removed)"
    by (cases "match_objects origin old new")
  note sets = match_objects_sets [OF ok m] and same = same_origin [OF ok]
  let ?new = "added_items origin redefined old new"
  have kept: "p \<in> set kept \<longleftrightarrow> p \<in> set old \<and> (\<exists>x\<in>set new. origin x = origin p \<and> \<not> redefined p x)" for p
  proof (cases "p \<in> set old")
    case True
    then obtain n where n: "origin p = Existing n" using existing_old [OF ok] by blast
    have "n \<in> set (drop_ids origin redefined old new)
        \<longleftrightarrow> (\<forall>x\<in>set new. origin x = origin p \<longrightarrow> redefined p x)"
      unfolding drop_ids_iff [OF ok] using True n same(1) by metis
    moreover have "p \<in> set kept \<longleftrightarrow> n \<notin> set (drop_ids origin redefined old new)"
      using True by (auto simp: kept_def n)
    ultimately show ?thesis using True by blast
  qed (simp add: kept_def)
  have u: "u p = x" if p: "p \<in> set kept" "x \<in> set new" "origin x = origin p" for p x
  proof -
    have "p \<in> set old" "\<not> redefined p x" using p kept same(2) by metis+
    then have settled: "(if renames p x then copy x p else p) = x" using settles p by simp
    obtain n where n: "origin p = Existing n" using existing_old [OF ok \<open>p \<in> set old\<close>] by blast
    have "n \<in> set (rename_ids origin redefined renames old new) \<longleftrightarrow> renames p x"
      unfolding rename_ids_iff [OF ok] using p n \<open>p \<in> set old\<close> \<open>\<not> redefined p x\<close> same
      by (metis (no_types, lifting))
    then have "map_of (map (\<lambda>n. (Existing n, copy)) (rename_ids origin redefined renames old new)) (origin p)
        = (if renames p x then Some copy else None)"
      by (auto simp: n map_of_eq_None_iff image_iff intro!: map_of_is_SomeI
          simp: distinct_map inj_on_def comp_def distinct_ids [OF ok])
    moreover have "find (\<lambda>y. origin y = origin p) new = Some x"
      using find_distinct [of origin new x] p ok by (simp add: objects_ok_def)
    ultimately have "u p = (if renames p x then copy x p else p)"
      by (simp add: u_def update_all_def)
    then show ?thesis using settled by (rule trans)
  qed
  have "map origin (map u kept) = map origin kept"
    using u kept by (force simp: comp_def)
  moreover have "distinct (map origin kept)"
    using ok by (simp add: kept_def objects_ok_def distinct_map_filter)
  ultimately have d1: "distinct (map origin (map u kept))" by (simp only:)
  have s1: "set (map u kept) = {x \<in> set new. \<exists>p\<in>set old. origin p = origin x \<and> \<not> redefined p x}"
    using u kept by (auto simp: image_iff) metis+
  have s2: "set ?new = {x \<in> set new. origin x \<notin> origin ` set old
      \<or> (\<exists>p\<in>set old. origin p = origin x \<and> redefined p x)}"
    by (auto simp: added_items_def m sets image_iff)
  have d2: "distinct (map origin ?new)"
  proof -
    have "distinct (map origin (map snd (filter (\<lambda>(p, x). redefined p x) pairs)))"
      using distinct_map_filter [OF distinct_matched(1) [OF ok m]] by (simp add: comp_def)
    moreover have "origin ` set (map snd pairs) \<inter> origin ` set added = {}"
      by (auto simp: sets image_iff) metis+
    ultimately show ?thesis using distinct_matched(3) [OF ok m]
      by (auto simp: added_items_def m image_iff)
  qed
  have "origin ` set (map u kept) \<inter> origin ` set ?new = {}"
    unfolding s1 s2 using same by (auto simp: image_iff) metis+
  with d1 d2 show d: "distinct (map origin (map u kept @ ?new))"
    by (simp add: image_image)
  have "set (map u kept @ ?new) = set new"
    using ok unfolding set_append s1 s2 by (auto simp: image_iff)
  moreover have "distinct (map u kept @ ?new)" "distinct new"
    using d ok by (metis distinct_map objects_ok_def)+
  ultimately show "mset (map u kept @ ?new) = mset new"
    by (simp only: set_eq_iff_mset_eq_distinct)
qed

definition kept_items :: "('a \<Rightarrow> origin) \<Rightarrow> ('a \<Rightarrow> 'a \<Rightarrow> bool) \<Rightarrow> 'a list \<Rightarrow> 'a list \<Rightarrow> 'a list" where
  "kept_items origin redefined old new =
     filter (\<lambda>p. origin p \<notin> Existing ` set (drop_ids origin redefined old new)) old"

definition renamed_items ::
  "('a \<Rightarrow> origin) \<Rightarrow> ('a \<Rightarrow> 'a \<Rightarrow> 'a) \<Rightarrow> ('a \<Rightarrow> 'a \<Rightarrow> bool) \<Rightarrow> ('a \<Rightarrow> 'a \<Rightarrow> bool) \<Rightarrow> 'a list \<Rightarrow> 'a list
     \<Rightarrow> 'a list" where
  "renamed_items origin copy redefined renames old new =
     map (update_all origin
       (map (\<lambda>n. (Existing n, copy)) (rename_ids origin redefined renames old new)) new)
       (kept_items origin redefined old new)"

text \<open>What is neither redefined nor renamed is equal.\<close>

definition settles ::
  "('a \<Rightarrow> origin) \<Rightarrow> ('a \<Rightarrow> 'a \<Rightarrow> 'a) \<Rightarrow> ('a \<Rightarrow> 'a \<Rightarrow> bool) \<Rightarrow> ('a \<Rightarrow> 'a \<Rightarrow> bool) \<Rightarrow> 'a list \<Rightarrow> 'a list
     \<Rightarrow> bool" where
  "settles origin copy redefined renames old new \<longleftrightarrow>
     (\<forall>p\<in>set old. \<forall>x\<in>set new. origin p = origin x \<longrightarrow> \<not> redefined p x \<longrightarrow>
        (if renames p x then copy x p else p) = x)"

lemma settled:
  assumes "objects_ok origin old new" "settles origin copy redefined renames old new"
  shows "mset (renamed_items origin copy redefined renames old new
      @ added_items origin redefined old new) = mset new"
    and "distinct (map origin (renamed_items origin copy redefined renames old new
      @ added_items origin redefined old new))"
  using settled_items [OF assms(1), where copy = copy and redefined = redefined and renames = renames]
    assms(2)
  unfolding renamed_items_def kept_items_def settles_def by blast+

lemma settled_sets:
  assumes "objects_ok origin old new" "settles origin copy redefined renames old new"
  shows "set (renamed_items origin copy redefined renames old new) \<subseteq> set new"
    "set (added_items origin redefined old new) \<subseteq> set new"
  using arg_cong [OF settled(1) [OF assms], of set_mset] by auto

lemma drop_ids_old:
  "objects_ok origin old new \<Longrightarrow>
     Existing ` set (drop_ids origin redefined old new) \<subseteq> origin ` set old"
  by (force simp: drop_ids_iff image_iff)

lemma rename_ids_kept:
  assumes "objects_ok origin old new"
  shows "Existing ` set (rename_ids origin redefined renames old new)
      \<subseteq> origin ` set (kept_items origin redefined old new)"
    and "Existing ` set (rename_ids origin redefined renames old new) \<subseteq> origin ` set new"
proof -
  have "Existing n \<in> origin ` set (kept_items origin redefined old new) \<and> Existing n \<in> origin ` set new"
    if n: "n \<in> set (rename_ids origin redefined renames old new)" for n
  proof -
    obtain p x where p: "p \<in> set old" "x \<in> set new" "origin p = Existing n" "origin x = Existing n"
      "\<not> redefined p x" using n unfolding rename_ids_iff [OF assms] by blast
    then have "n \<notin> set (drop_ids origin redefined old new)"
      using same_origin(1) [OF assms] unfolding drop_ids_iff [OF assms] by metis
    with p have "p \<in> set (kept_items origin redefined old new)" by (auto simp: kept_items_def)
    with p show ?thesis by (metis image_eqI)
  qed
  then show "Existing ` set (rename_ids origin redefined renames old new)
      \<subseteq> origin ` set (kept_items origin redefined old new)"
    "Existing ` set (rename_ids origin redefined renames old new) \<subseteq> origin ` set new"
    by blast+
qed

context slot
begin

lemma drop_phase:
  "objects_ok origin (items t) (items new) \<Longrightarrow>
     run_steps new (map drop' (drop_ids origin redefined (items t) (items new))) t
       = Some (put (kept_items origin redefined (items t) (items new)) t)"
  unfolding kept_items_def by (intro run_drops distinct_ids drop_ids_old)

lemma rename_phase:
  assumes "objects_ok origin old (items new)" "items t = kept_items origin redefined old (items new)"
  shows "run_steps new (map (RenameConstraint object) (rename_ids origin redefined renames old (items new))) t
    = Some (put (renamed_items origin copy_name redefined renames old (items new)) t)"
  unfolding renamed_items_def assms(2) [symmetric]
proof (rule run_renames)
  show "Existing ` set (rename_ids origin redefined renames old (items new)) \<subseteq> origin ` set (items t)"
    unfolding assms(2) by (rule rename_ids_kept [OF assms(1)])
qed (rule distinct_ids [OF assms(1)] rename_ids_kept [OF assms(1)])+

lemma add_phase:
  assumes "objects_ok origin old (items new)"
    and "settles origin copy_name redefined renames old (items new)"
    and "items t = renamed_items origin copy_name redefined renames old (items new)"
    and "\<And>y. y \<in> set (items new) \<Longrightarrow> columns_present t (members y)"
  shows "run_steps new (map (\<lambda>y. add (origin y)) (added_items origin redefined old (items new))) t
    = Some (put (items t @ added_items origin redefined old (items new)) t)"
proof (rule run_adds)
  let ?ys = "added_items origin redefined old (items new)"
  note settled = settled [OF assms(1,2)] settled_sets [OF assms(1,2)]
  show "distinct (map origin (items t @ ?ys))" "set ?ys \<subseteq> set (items new)"
    using settled assms(3) by simp_all
  show "distinct (map origin (items new))" using assms(1) by (simp add: objects_ok_def)
  have "length (items t @ ?ys) = length (items new)"
    using settled(1) assms(3) by (metis size_mset)
  then show "fits (items t @ ?ys)" by (intro fits_length [OF fits_items [of new]]) simp
  show "list_all (\<lambda>y. columns_present t (members y)) ?ys"
    using settled(4) assms(4) by (auto simp: list_all_iff)
qed

end

end
