(* ===== verification/SchemaColumns.thy ===== *)
theory SchemaColumns imports SchemaSlots begin

text \<open>
  The plan, phase by phase, and what its column phases do to the columns of a table: renames,
  alterations, additions and drops.
\<close>

section \<open>Sorting by phase\<close>

lemma sorted_filter_split:
  "sorted (map f zs) \<Longrightarrow>
     filter (\<lambda>z. f z < Suc k) zs = filter (\<lambda>z. f z < k) zs @ filter (\<lambda>z. f z = (k :: nat)) zs"
proof (induction zs)
  case (Cons z zs)
  then have IH: "filter (\<lambda>z. f z < Suc k) zs = filter (\<lambda>z. f z < k) zs @ filter (\<lambda>z. f z = k) zs"
    and le: "\<forall>y\<in>set zs. f z \<le> f y" by auto
  have "filter (\<lambda>z. f z < k) zs = []" if "k \<le> f z"
    using le that by (auto simp: filter_empty_conv)
  with IH show ?case by (auto simp: less_Suc_eq)
qed simp

lemma sort_key_phases:
  assumes "\<And>s. s \<in> set ss \<Longrightarrow> f s \<in> {1..<n}"
  shows "sort_key f ss = concat (map (\<lambda>k. filter (\<lambda>s. f s = k) ss) [1..<(n :: nat)])"
proof -
  let ?zs = "sort_key f ss"
  have "filter (\<lambda>s. f s < k) ?zs = concat (map (\<lambda>k. filter (\<lambda>s. f s = k) ?zs) [1..<k])" if "1 \<le> k" for k
    using that
  proof (induction k rule: dec_induct)
    case base
    have "0 < f s" if "s \<in> set ss" for s using assms [OF that] by simp
    then show ?case by (simp add: filter_empty_conv)
  next
    case (step k)
    then show ?case using sorted_filter_split [of f ?zs k] by simp
  qed
  moreover have "filter (\<lambda>s. f s < n) ?zs = ?zs" using assms by (auto simp: filter_id_conv)
  ultimately show ?thesis
    by (cases "1 \<le> n") (use assms in \<open>force simp: sort_key_stable\<close>)+
qed

lemma phase_range: "phase s \<in> {1..<9}"
  by (cases s) auto

lemma plan_by_phase:
  "plan_steps u b d = concat (map (\<lambda>k. filter (\<lambda>s. phase s = k)
     (unsorted_steps u (sb_table b) (dr_table d))) [1..<9])"
  unfolding plan_steps_def by (rule sort_key_phases) (rule phase_range)

section \<open>Column steps by phase\<close>

definition column_pairs ::
  "table_model \<Rightarrow> column_model list \<Rightarrow> (nat \<times> column_model \<times> column_model) list" where
  "column_pairs old cs = concat (map (\<lambda>c.
     case previous_column old c of
       None \<Rightarrow> []
     | Some p \<Rightarrow> map (\<lambda>n. (n, p, c)) (as_slice (existing (co_origin c)))) cs)"

definition new_columns :: "table_model \<Rightarrow> column_model list \<Rightarrow> column_model list" where
  "new_columns old cs = filter (\<lambda>c. previous_column old c = None) cs"

definition commented :: "table_model \<Rightarrow> column_model list \<Rightarrow> column_model list" where
  "commented old cs = filter (\<lambda>c.
     case previous_column old c of
       None \<Rightarrow> co_comment c \<noteq> None
     | Some p \<Rightarrow> existing (co_origin c) \<noteq> None \<and> co_comment p \<noteq> co_comment c) cs"

definition dropped_columns :: "table_model \<Rightarrow> table_model \<Rightarrow> nat list" where
  "dropped_columns old new = concat (map (\<lambda>c.
     if column_of new (co_origin c) = None then as_slice (existing (co_origin c)) else [])
     (ta_columns old))"

lemma filter_only_if: "filter P (only_if c s) = (if c \<and> P s then [s] else [])"
  by (simp add: only_if_def)

definition survivor_steps :: "unicode \<Rightarrow> table_model \<Rightarrow> column_model list \<Rightarrow> nat \<Rightarrow> plan_step list" where
  "survivor_steps u old cs k =
    (if k = 2 then map (\<lambda>(n, p, c). RenameColumn n)
        (filter (\<lambda>(n, p, c). co_name p \<noteq> co_name c) (column_pairs old cs))
     else if k = 3 then map (\<lambda>(n, p, c). AlterColumn n (column_field_changes u p c))
        (filter (\<lambda>(n, p, c). column_field_changes u p c \<noteq> []) (column_pairs old cs))
     else if k = 4 then map (\<lambda>c. AddColumn (co_origin c)) (new_columns old cs)
     else if k = 8 then map (\<lambda>c. SetColumnComment (co_origin c)) (commented old cs)
     else [])"

lemma survivor_steps_Cons:
  "survivor_steps u old (c # cs) k = survivor_steps u old [c] k @ survivor_steps u old cs k"
  by (simp add: survivor_steps_def column_pairs_def new_columns_def commented_def)

lemma column_steps_of_phase:
  "filter (\<lambda>s. phase s = k) (column_steps_of u old c) = survivor_steps u old [c] k"
  by (cases "previous_column old c"; cases "existing (co_origin c)")
     (auto simp: column_steps_of_def surviving_column_steps_def column_pairs_def survivor_steps_def
       new_columns_def commented_def filter_only_if Let_def)

lemma column_steps_phases:
  "filter (\<lambda>s. phase s = k) (column_steps u old new) =
    survivor_steps u old (ta_columns new) k
    @ (if k = 5 then map DropColumn (dropped_columns old new)
        @ only_if (columns_reordered old new) ReorderColumns else [])"
proof -
  have survivors: "filter (\<lambda>s. phase s = k) (concat (map (column_steps_of u old) cs))
      = survivor_steps u old cs k" for cs
  proof (induction cs)
    case Nil
    show ?case by (simp add: survivor_steps_def column_pairs_def new_columns_def commented_def)
  next
    case (Cons c cs)
    then show ?case using column_steps_of_phase [of k u old c]
      by (subst survivor_steps_Cons) simp
  qed
  define steps where "steps c = (if column_of new (co_origin c) = None
      then case existing (co_origin c) of None \<Rightarrow> [] | Some n \<Rightarrow> [DropColumn n] else [])" for c :: column_model
  define ids where "ids c = (if column_of new (co_origin c) = None
      then as_slice (existing (co_origin c)) else [])" for c :: column_model
  have one: "filter (\<lambda>s. phase s = k) (steps c) = (if k = 5 then map DropColumn (ids c) else [])" for c
    by (cases "existing (co_origin c)"; cases "column_of new (co_origin c)")
       (simp_all add: steps_def ids_def)
  have dropped: "filter (\<lambda>s. phase s = k) (concat (map steps cs))
    = (if k = 5 then map DropColumn (concat (map ids cs)) else [])" for cs
    by (induction cs) (simp_all only: list.map concat.simps filter_append one filter.simps map_append
        append_Nil if_cancel split: if_split, simp_all)
  show ?thesis
    using survivors [of "ta_columns new"] dropped [of "ta_columns old"]
    by (cases "k = 5"; cases "columns_reordered old new")
       (simp_all add: column_steps_def dropped_columns_def steps_def [abs_def] ids_def [abs_def])
qed

lemma table_steps_phases:
  "filter (\<lambda>s. phase s = k) (table_steps old new) =
    (if k = 2 then only_if (ta_name old \<noteq> ta_name new) RenameTable
     else if k = 8 then only_if (ta_comment old \<noteq> ta_comment new) SetTableComment
       @ (let fields = map fst (option_changes (ta_options old) (ta_options new)) in
          only_if (fields \<noteq> []) (SetTableOptions fields))
     else [])"
  by (simp add: table_steps_def Let_def filter_only_if)

section \<open>Column updates\<close>

lemma update_all_in:
  assumes "distinct (map (\<lambda>v. fst (h v)) vs)" "v \<in> set vs" "fst (h v) = origin x"
    and "find (\<lambda>y. origin y = origin x) target = Some y"
  shows "update_all origin (map h vs) target x = snd (h v) y x"
proof -
  have "map_of (map h vs) (origin x) = Some (snd (h v))"
    using assms(1-3) by (intro map_of_is_SomeI) (auto simp: comp_def prod_eq_iff image_iff intro!: bexI [of _ v])
  with assms(4) show ?thesis by (simp add: update_all_def)
qed

lemma update_all_out:
  assumes "origin x \<notin> (\<lambda>v. fst (h v)) ` set vs"
  shows "update_all origin (map h vs) target x = x"
proof -
  have "map_of (map h vs) (origin x) = None"
    using assms by (auto simp: map_of_eq_None_iff image_iff)
  then show ?thesis by (simp add: update_all_def)
qed

lemma previous_column_match: "previous_column old c = match_pair co_origin (ta_columns old) c"
  using find_eq_None [of "\<lambda>_. False" "ta_columns old"]
  by (cases "is_new (co_origin c)") (simp_all add: previous_column_def match_pair_def column_of_def)

lemma columns_objects_ok: "columns_ok old new \<longleftrightarrow> objects_ok co_origin (ta_columns old) (ta_columns new)"
  by (auto simp: columns_ok_def objects_ok_def list_all_iff)

lemma column_pairs_iff:
  assumes "columns_ok old new"
  shows "(n, p, c) \<in> set (column_pairs old (ta_columns new)) \<longleftrightarrow>
    p \<in> set (ta_columns old) \<and> c \<in> set (ta_columns new) \<and> co_origin p = Existing n
      \<and> co_origin c = Existing n"
proof -
  have "(n, p, c) \<in> set (column_pairs old (ta_columns new)) \<longleftrightarrow>
      c \<in> set (ta_columns new) \<and> previous_column old c = Some p \<and> co_origin c = Existing n"
    by (force simp: column_pairs_def split: option.splits)
  then show ?thesis
    unfolding previous_column_match match_pair_iff [OF assms [unfolded columns_objects_ok]] by auto
qed

lemma column_pairs_distinct:
  assumes "distinct (map co_origin cs)"
  shows "distinct (map fst (column_pairs old cs))"
proof -
  have "map fst (column_pairs old cs) = concat (map (\<lambda>c.
      if previous_column old c \<noteq> None then as_slice (existing (co_origin c)) else []) cs)"
    unfolding column_pairs_def by (induction cs) (auto simp: comp_def split: option.splits)
  then show ?thesis using distinct_concat_ids [OF assms] by simp
qed

lemma new_columns_iff:
  assumes "columns_ok old new"
  shows "c \<in> set (new_columns old (ta_columns new)) \<longleftrightarrow> c \<in> set (ta_columns new) \<and> is_new (co_origin c)"
  unfolding new_columns_def previous_column_match
  using match_pair_None [OF assms [unfolded columns_objects_ok]] assms
  by (auto simp: columns_ok_def list_all_iff)

text \<open>The column a captured column becomes: the draft's, in the captured spelling of an equal type.\<close>

definition settled_column :: "unicode \<Rightarrow> column_model \<Rightarrow> column_model \<Rightarrow> column_model" where
  "settled_column u p c =
     c\<lparr>co_data_type := if types_equal u (co_data_type p) (co_data_type c) then co_data_type p
        else co_data_type c\<rparr>"

definition altered_column :: "unicode \<Rightarrow> column_model \<Rightarrow> column_model \<Rightarrow> column_model" where
  "altered_column u p c =
     foldl (copy_field c) (p\<lparr>co_name := co_name c\<rparr>) (column_field_changes u p c)"

text \<open>One conditional field at a time, by its selectors.\<close>

definition copy_if :: "column_model \<Rightarrow> bool \<Rightarrow> column_field \<Rightarrow> column_model \<Rightarrow> column_model" where
  "copy_if c b f q = (if b then copy_field c q f else q)"

lemma foldl_only_if: "foldl (copy_field c) q (only_if b f) = copy_if c b f q"
  by (simp add: copy_if_def only_if_def)

lemma copy_if_selectors:
  "co_origin (copy_if c b f q) = co_origin q"
  "co_name (copy_if c b f q) = co_name q"
  "co_comment (copy_if c b f q) = co_comment q"
  "co_data_type (copy_if c b f q) = (if b \<and> f = CfDataType then co_data_type c else co_data_type q)"
  "co_collation (copy_if c b f q) = (if b \<and> f = CfCollation then co_collation c else co_collation q)"
  "co_nullable (copy_if c b f q) = (if b \<and> f = CfNullable then co_nullable c else co_nullable q)"
  "co_default (copy_if c b f q) = (if b \<and> f = CfDefault then co_default c else co_default q)"
  "co_generated (copy_if c b f q) = (if b \<and> f = CfGenerated then co_generated c else co_generated q)"
  "co_identity (copy_if c b f q) = (if b \<and> f = CfIdentity then co_identity c else co_identity q)"
  "ex_charset (co_extra (copy_if c b f q))
     = (if b \<and> f = CfCharset then ex_charset (co_extra c) else ex_charset (co_extra q))"
  "ex_on_update (co_extra (copy_if c b f q))
     = (if b \<and> f = CfOnUpdate then ex_on_update (co_extra c) else ex_on_update (co_extra q))"
  "ex_invisible (co_extra (copy_if c b f q))
     = (if b \<and> f = CfInvisible then ex_invisible (co_extra c) else ex_invisible (co_extra q))"
  by (cases f; simp add: copy_if_def)+

lemma altered_column:
  assumes "co_origin p = co_origin c"
  shows "(altered_column u p c)\<lparr>co_comment := co_comment c\<rparr> = settled_column u p c"
    and "co_comment (altered_column u p c) = co_comment p"
    and "co_origin (altered_column u p c) = co_origin p"
proof -
  have "co_extra (altered_column u p c) = co_extra c"
    by (rule column_extra.equality)
       (simp_all add: altered_column_def column_field_changes_def foldl_only_if copy_if_selectors)
  then show "(altered_column u p c)\<lparr>co_comment := co_comment c\<rparr> = settled_column u p c"
    by (intro column_model.equality)
       (simp_all add: assms altered_column_def settled_column_def column_field_changes_def
         foldl_only_if copy_if_selectors)
  show "co_comment (altered_column u p c) = co_comment p" "co_origin (altered_column u p c) = co_origin p"
    by (simp_all add: altered_column_def column_field_changes_def foldl_only_if copy_if_selectors)
qed

section \<open>The columns after each phase\<close>

text \<open>
  \<open>partner new p\<close> is the draft's column of the same origin.  Renames and alterations make a captured
  column its \<open>altered_column\<close>; columns the draft dropped keep their values until they are dropped.
\<close>

definition partner :: "table_model \<Rightarrow> column_model \<Rightarrow> column_model option" where
  "partner new p = column_of new (co_origin p)"

definition renamed_column :: "table_model \<Rightarrow> column_model \<Rightarrow> column_model" where
  "renamed_column new p = (case partner new p of None \<Rightarrow> p | Some c \<Rightarrow> p\<lparr>co_name := co_name c\<rparr>)"

definition changed_column :: "unicode \<Rightarrow> table_model \<Rightarrow> column_model \<Rightarrow> column_model" where
  "changed_column u new p = (case partner new p of None \<Rightarrow> p | Some c \<Rightarrow> altered_column u p c)"

lemma partner_Some_iff:
  assumes "columns_ok old new"
  shows "partner new p = Some c \<longleftrightarrow> c \<in> set (ta_columns new) \<and> co_origin c = co_origin p"
  using assms find_distinct [of co_origin "ta_columns new" c]
  by (auto simp: partner_def columns_ok_def column_of_def dest!: find_map_Some)

lemma update_pairs:
  assumes "columns_ok old new" "p \<in> set (ta_columns old)" "co_origin x = co_origin p"
  shows "update_all co_origin (map (\<lambda>(n, p, c). (Existing n, g p c))
      (filter (\<lambda>(n, p, c). Q p c) (column_pairs old (ta_columns new)))) (ta_columns new) x
    = (case partner new p of None \<Rightarrow> x | Some c \<Rightarrow> if Q p c then g p c c x else x)"
proof -
  let ?vs = "filter (\<lambda>(n, p, c). Q p c) (column_pairs old (ta_columns new))"
  let ?h = "\<lambda>(n, p, c). (Existing n, g p c)"
  obtain n where n: "co_origin p = Existing n"
    using assms(1,2) existing_old [of co_origin] by (metis columns_objects_ok)
  note pairs = column_pairs_iff [OF assms(1)]
  have "distinct (map fst ?vs)"
    using column_pairs_distinct [of "ta_columns new" old] assms(1)
    by (simp add: columns_ok_def distinct_map_filter)
  then have distinct: "distinct (map (\<lambda>v. fst (?h v)) ?vs)"
    by (auto simp: distinct_map inj_on_def)
  have same: "(n, q, c) \<in> set ?vs \<Longrightarrow> q = p" for q c
    using same_origin(1) [OF assms(1) [unfolded columns_objects_ok]] assms(2) n by (auto simp: pairs)
  show ?thesis
  proof (cases "\<exists>c. partner new p = Some c \<and> Q p c")
    case True
    then obtain c where c: "partner new p = Some c" "Q p c" by blast
    then have "(n, p, c) \<in> set ?vs"
      using assms(2) n by (auto simp: pairs partner_Some_iff [OF assms(1)])
    moreover have "find (\<lambda>y. co_origin y = co_origin x) (ta_columns new) = Some c"
      using c(1) assms(3) by (simp add: partner_def column_of_def)
    ultimately show ?thesis
      using update_all_in [OF distinct, of "(n, p, c)" co_origin x "ta_columns new" c] c assms(3) n by simp
  next
    case False
    have "co_origin x \<notin> (\<lambda>v. fst (?h v)) ` set ?vs"
    proof
      assume "co_origin x \<in> (\<lambda>v. fst (?h v)) ` set ?vs"
      then obtain q c where q: "(n, q, c) \<in> set ?vs" using assms(3) n by auto
      with same have "(n, p, c) \<in> set ?vs" by metis
      with False n show False by (auto simp: pairs partner_Some_iff [OF assms(1)])
    qed
    then show ?thesis using False by (subst update_all_out) (auto split: option.splits)
  qed
qed

lemma foldl_copy_origin [simp]: "co_origin (foldl (copy_field c) p fs) = co_origin p"
proof (induction fs arbitrary: p)
  case (Cons f fs)
  then show ?case by (cases f) simp_all
qed simp

lemma column_origins [simp]:
  "co_origin (renamed_column new p) = co_origin p" "co_origin (changed_column u new p) = co_origin p"
  by (cases "partner new p"; simp add: renamed_column_def changed_column_def altered_column_def)+

lemma pairs_updatable:
  fixes Q :: "column_model \<Rightarrow> column_model \<Rightarrow> bool"
  assumes "columns_ok old new"
  defines "vs \<equiv> filter (\<lambda>(n, p, c). Q p c) (column_pairs old (ta_columns new))"
  shows "distinct (map (\<lambda>(n, p, c). Existing n) vs)"
    "(\<lambda>(n, p, c). Existing n) ` set vs \<subseteq> co_origin ` set (ta_columns old)"
    "(\<lambda>(n, p, c). Existing n) ` set vs \<subseteq> co_origin ` set (ta_columns new)"
proof -
  have "distinct (map fst vs)"
    using column_pairs_distinct [of "ta_columns new" old] assms(1)
    by (simp add: vs_def columns_ok_def distinct_map_filter)
  then have "distinct (map Existing (map fst vs))" by (simp add: distinct_map inj_on_def)
  moreover have "map (\<lambda>(n, p, c). Existing n) vs = map Existing (map fst vs)" by auto
  ultimately show "distinct (map (\<lambda>(n, p, c). Existing n) vs)" by (simp only:)
  show "(\<lambda>(n, p, c). Existing n) ` set vs \<subseteq> co_origin ` set (ta_columns old)"
    "(\<lambda>(n, p, c). Existing n) ` set vs \<subseteq> co_origin ` set (ta_columns new)"
    unfolding vs_def by (auto simp: column_pairs_iff [OF assms(1)] image_iff) metis+
qed

lemma run_pairs:
  assumes "columns_ok old new" "map co_origin (ta_columns t) = map co_origin (ta_columns old)"
    and "\<And>t n p c. apply_step new (mk (n, p, c)) t
        = map_option (\<lambda>xs. put_columns xs t)
            (update_object co_origin (g p c) (ta_columns new) (Existing n) (ta_columns t))"
    and "\<And>p c y x. co_origin (g p c y x) = co_origin x"
  shows "run_steps new (map mk (filter (\<lambda>(n, p, c). Q p c) (column_pairs old (ta_columns new)))) t
    = Some (put_columns (map (update_all co_origin (map (\<lambda>(n, p, c). (Existing n, g p c))
        (filter (\<lambda>(n, p, c). Q p c) (column_pairs old (ta_columns new)))) (ta_columns new))
        (ta_columns t)) t)"
proof -
  let ?vs = "filter (\<lambda>(n, p, c). Q p c) (column_pairs old (ta_columns new))"
  have key: "(\<lambda>v. fst (case v of (n, p, c) \<Rightarrow> (Existing n, g p c))) = (\<lambda>(n, p, c). Existing n)"
    by (auto simp: fun_eq_iff)
  have "co_origin ` set (ta_columns t) = co_origin ` set (ta_columns old)"
    using arg_cong [OF assms(2), of set] by simp
  then show ?thesis
    using pairs_updatable [OF assms(1), of Q]
    by (intro columns.run_updates) (simp_all only: key split_paired_all prod.case fst_conv snd_conv
        assms(3,4))
qed

lemma rename_columns_phase:
  assumes "columns_ok old new" "ta_columns t = ta_columns old"
  shows "run_steps new (survivor_steps u old (ta_columns new) 2) t
    = Some (put_columns (map (renamed_column new) (ta_columns old)) t)"
proof -
  let ?g = "\<lambda>p c c' p'. p'\<lparr>co_name := co_name c'\<rparr> :: column_model"
  let ?vs = "filter (\<lambda>(n, p, c). co_name p \<noteq> co_name c) (column_pairs old (ta_columns new))"
  have "run_steps new (map (\<lambda>(n, p, c). RenameColumn n) ?vs) t
    = Some (put_columns (map (update_all co_origin (map (\<lambda>(n, p, c). (Existing n, ?g p c)) ?vs)
        (ta_columns new)) (ta_columns t)) t)"
    using assms by (intro run_pairs) (simp_all add: apply_step.simps update_column_def)
  moreover have "update_all co_origin (map (\<lambda>(n, p, c). (Existing n, ?g p c)) ?vs) (ta_columns new) p
      = renamed_column new p" if "p \<in> set (ta_columns old)" for p
    using update_pairs [OF assms(1) that refl, of ?g "\<lambda>p c. co_name p \<noteq> co_name c"]
    by (auto simp: renamed_column_def split: option.splits)
  ultimately show ?thesis using assms(2) by (simp add: survivor_steps_def cong: map_cong)
qed

lemma alter_columns_phase:
  assumes "columns_ok old new" "ta_columns t = map (renamed_column new) (ta_columns old)"
  shows "run_steps new (survivor_steps u old (ta_columns new) 3) t
    = Some (put_columns (map (changed_column u new) (ta_columns old)) t)"
proof -
  let ?g = "\<lambda>p c c' p'. foldl (copy_field c') p' (column_field_changes u p c)"
  let ?vs = "filter (\<lambda>(n, p, c). column_field_changes u p c \<noteq> []) (column_pairs old (ta_columns new))"
  have "run_steps new (map (\<lambda>(n, p, c). AlterColumn n (column_field_changes u p c)) ?vs) t
    = Some (put_columns (map (update_all co_origin (map (\<lambda>(n, p, c). (Existing n, ?g p c)) ?vs)
        (ta_columns new)) (ta_columns t)) t)"
    using assms by (intro run_pairs) (simp_all add: apply_step.simps update_column_def comp_def)
  moreover have "update_all co_origin (map (\<lambda>(n, p, c). (Existing n, ?g p c)) ?vs) (ta_columns new)
      (renamed_column new p) = changed_column u new p" if "p \<in> set (ta_columns old)" for p
    using update_pairs [OF assms(1) that, of "renamed_column new p" ?g
        "\<lambda>p c. column_field_changes u p c \<noteq> []"]
    by (auto simp: changed_column_def renamed_column_def altered_column_def split: option.splits)
  ultimately show ?thesis using assms(2) by (simp add: survivor_steps_def comp_def cong: map_cong)
qed

abbreviation uncommented :: "column_model \<Rightarrow> column_model" where
  "uncommented c \<equiv> c\<lparr>co_comment := None\<rparr>"

lemma run_add_columns:
  "distinct (map co_origin (ta_columns t @ cs)) \<Longrightarrow> set cs \<subseteq> set (ta_columns new) \<Longrightarrow>
     distinct (map co_origin (ta_columns new)) \<Longrightarrow>
     run_steps new (map (\<lambda>c. AddColumn (co_origin c)) cs) t
       = Some (put_columns (ta_columns t @ map uncommented cs) t)"
proof (induction cs arbitrary: t)
  case Nil
  then show ?case by (simp add: put_columns_def)
next
  case (Cons c cs)
  let ?t = "put_columns (ta_columns t @ [uncommented c]) t"
  have "find (\<lambda>y. co_origin y = co_origin c) (map uncommented (ta_columns new)) = Some (uncommented c)"
    using Cons.prems find_distinct [of co_origin "map uncommented (ta_columns new)" "uncommented c"]
    by (simp add: comp_def)
  then have "apply_step new (AddColumn (co_origin c)) t = Some ?t"
    using Cons.prems by (auto simp: apply_step.simps add_object_def)
  moreover have "run_steps new (map (\<lambda>c. AddColumn (co_origin c)) cs) ?t
      = Some (put_columns (ta_columns ?t @ map uncommented cs) ?t)"
    using Cons.prems by (intro Cons.IH) (auto simp: put_columns_def)
  ultimately show ?case by (simp add: put_columns_def)
qed

lemma add_columns_phase:
  assumes "columns_ok old new" "map co_origin (ta_columns t) = map co_origin (ta_columns old)"
  shows "run_steps new (survivor_steps u old (ta_columns new) 4) t
    = Some (put_columns (ta_columns t @ map uncommented (new_columns old (ta_columns new))) t)"
proof -
  let ?cs = "new_columns old (ta_columns new)"
  have "distinct (map co_origin ?cs)" "distinct (map co_origin (ta_columns t))"
    "distinct (map co_origin (ta_columns new))"
    using assms by (simp_all add: new_columns_def columns_ok_def distinct_map_filter)
  moreover have "co_origin ` set (ta_columns t) = co_origin ` set (ta_columns old)"
    using arg_cong [OF assms(2), of set] by simp
  then have "co_origin ` set (ta_columns t) \<inter> co_origin ` set ?cs = {}"
    using assms(1) by (auto simp: new_columns_iff [OF assms(1)] columns_ok_def list_all_iff)
  moreover have "set ?cs \<subseteq> set (ta_columns new)" by (auto simp: new_columns_def)
  ultimately show ?thesis
    by (auto simp: survivor_steps_def intro!: run_add_columns)
qed

lemma column_is_referenced_put_columns [simp]:
  "column_is_referenced (put_columns cs t) x = column_is_referenced t x"
  by (simp add: column_is_referenced_def table_keys_def put_columns_def)

lemma run_drop_columns:
  "distinct ns \<Longrightarrow> Existing ` set ns \<subseteq> co_origin ` set (ta_columns t) \<Longrightarrow>
     (\<And>n. n \<in> set ns \<Longrightarrow> \<not> column_is_referenced t (Existing n)) \<Longrightarrow>
     run_steps new (map DropColumn ns) t
       = Some (put_columns (filter (\<lambda>c. co_origin c \<notin> Existing ` set ns) (ta_columns t)) t)"
proof (induction ns arbitrary: t)
  case Nil
  then show ?case by (simp add: put_columns_def)
next
  case (Cons n ns)
  let ?t = "put_columns (filter (\<lambda>c. co_origin c \<noteq> Existing n) (ta_columns t)) t"
  have items: "ta_columns ?t = filter (\<lambda>c. co_origin c \<noteq> Existing n) (ta_columns t)"
    by (simp add: put_columns_def)
  have "Existing m \<in> co_origin ` set (ta_columns ?t)" if "m \<in> set ns" for m
  proof -
    have "Existing m \<in> co_origin ` set (ta_columns t)" using Cons.prems(2) that by auto
    then obtain x where "x \<in> set (ta_columns t)" "co_origin x = Existing m" by (metis imageE)
    moreover from this have "x \<in> set (ta_columns ?t)" unfolding items using Cons.prems(1) that by auto
    ultimately show ?thesis by (metis image_eqI)
  qed
  then have "run_steps new (map DropColumn ns) ?t
      = Some (put_columns (filter (\<lambda>c. co_origin c \<notin> Existing ` set ns) (ta_columns ?t)) ?t)"
    using Cons.prems(1,3) by (intro Cons.IH) auto
  moreover have "filter (\<lambda>c. co_origin c \<notin> Existing ` set ns) (ta_columns ?t)
      = filter (\<lambda>c. co_origin c \<notin> Existing ` set (n # ns)) (ta_columns t)"
    unfolding items filter_filter by (rule filter_cong) auto
  moreover have "Existing n \<in> co_origin ` set (ta_columns t)" using Cons.prems(2) by simp
  ultimately show ?case using Cons.prems(3)
    by (simp add: apply_step.simps drop_object_def) (simp add: put_columns_def)
qed

lemma dropped_columns_iff:
  assumes "columns_ok old new"
  shows "Existing n \<in> Existing ` set (dropped_columns old new) \<longleftrightarrow>
    Existing n \<in> co_origin ` set (ta_columns old) \<and> Existing n \<notin> co_origin ` set (ta_columns new)"
  by (force simp: dropped_columns_def column_of_None_iff image_iff split: if_splits)

lemma dropped_columns_distinct:
  "columns_ok old new \<Longrightarrow> distinct (dropped_columns old new)"
  unfolding dropped_columns_def columns_ok_def
  using distinct_concat_ids [of co_origin "ta_columns old" "\<lambda>c. column_of new (co_origin c) = None"]
  by simp

end
