(* ===== verification/SchemaStages.thy ===== *)
theory SchemaStages imports SchemaColumns begin

text \<open>
  The drop, rename and add phases of the keys, constraints and indexes, each as one step between
  stages of a table.
\<close>

section \<open>The stages of a table\<close>

definition stage ::
  "table_model \<Rightarrow> column_model list \<Rightarrow> key_model list \<Rightarrow> key_model list \<Rightarrow> foreign_key_model list
     \<Rightarrow> check_model list \<Rightarrow> index_model list \<Rightarrow> table_model" where
  "stage t cs ps us fs ks is =
     t\<lparr>ta_columns := cs, ta_primary_key := (case ps of [] \<Rightarrow> None | k # _ \<Rightarrow> Some k),
       ta_uniques := us, ta_foreign_keys := fs, ta_checks := ks, ta_indexes := is\<rparr>"

lemma stage_simps [simp]:
  "ta_columns (stage t cs ps us fs ks is) = cs"
  "ta_uniques (stage t cs ps us fs ks is) = us"
  "ta_foreign_keys (stage t cs ps us fs ks is) = fs"
  "ta_checks (stage t cs ps us fs ks is) = ks"
  "ta_indexes (stage t cs ps us fs ks is) = is"
  "ta_schema (stage t cs ps us fs ks is) = ta_schema t"
  "ta_name (stage t cs ps us fs ks is) = ta_name t"
  "ta_comment (stage t cs ps us fs ks is) = ta_comment t"
  "ta_options (stage t cs ps us fs ks is) = ta_options t"
  "put_columns cs' (stage t cs ps us fs ks is) = stage t cs' ps us fs ks is"
  "put_primary_key ps' (stage t cs ps us fs ks is) = stage t cs ps' us fs ks is"
  "put_uniques us' (stage t cs ps us fs ks is) = stage t cs ps us' fs ks is"
  "put_foreign_keys fs' (stage t cs ps us fs ks is) = stage t cs ps us fs' ks is"
  "put_checks ks' (stage t cs ps us fs ks is) = stage t cs ps us fs ks' is"
  "put_indexes is' (stage t cs ps us fs ks is) = stage t cs ps us fs ks is'"
  by (simp_all add: stage_def put_columns_def put_primary_key_def put_uniques_def
      put_foreign_keys_def put_checks_def put_indexes_def)

lemma primary_keys_stage [simp]:
  "length ps \<le> 1 \<Longrightarrow> primary_keys (stage t cs ps us fs ks is) = ps"
  by (cases ps) (simp_all add: primary_keys_def stage_def)

lemma primary_keys_length [simp]: "length (primary_keys t) \<le> Suc 0"
  by (cases "ta_primary_key t") (simp_all add: primary_keys_def)

lemma stage_self:
  "stage t (ta_columns t) (primary_keys t) (ta_uniques t) (ta_foreign_keys t) (ta_checks t)
     (ta_indexes t) = t"
  by (cases "ta_primary_key t") (simp_all add: stage_def primary_keys_def)

section \<open>The steps of each phase\<close>

lemma slot_phases:
  "filter (\<lambda>s. phase s = k) (primary_key_steps old new) =
    (if k = 1 then map DropPrimaryKey (drop_ids ke_origin key_redefined (primary_keys old) (primary_keys new))
     else if k = 2 then map (RenameConstraint PrimaryKeyObject)
       (rename_ids ke_origin key_redefined key_renames (primary_keys old) (primary_keys new))
     else if k = 6 then map (\<lambda>x. AddPrimaryKey (ke_origin x))
       (added_items ke_origin key_redefined (primary_keys old) (primary_keys new)) else [])"
  "filter (\<lambda>s. phase s = k) (unique_steps old new) =
    (if k = 1 then map DropUnique (drop_ids ke_origin key_redefined (ta_uniques old) (ta_uniques new))
     else if k = 2 then map (RenameConstraint UniqueObject)
       (rename_ids ke_origin key_redefined key_renames (ta_uniques old) (ta_uniques new))
     else if k = 6 then map (\<lambda>x. AddUnique (ke_origin x))
       (added_items ke_origin key_redefined (ta_uniques old) (ta_uniques new)) else [])"
  "filter (\<lambda>s. phase s = k) (foreign_key_steps u old new) =
    (if k = 1 then map DropForeignKey
       (drop_ids fk_origin (foreign_key_redefined u old new) (ta_foreign_keys old) (ta_foreign_keys new))
     else if k = 2 then map (RenameConstraint ForeignKeyObject)
       (rename_ids fk_origin (foreign_key_redefined u old new) foreign_key_renames
          (ta_foreign_keys old) (ta_foreign_keys new))
     else if k = 7 then map (\<lambda>x. AddForeignKey (fk_origin x))
       (added_items fk_origin (foreign_key_redefined u old new) (ta_foreign_keys old) (ta_foreign_keys new))
     else [])"
  "filter (\<lambda>s. phase s = k) (check_steps old new) =
    (if k = 1 then map DropCheck (drop_ids ck_origin check_redefined (ta_checks old) (ta_checks new))
     else if k = 2 then map (RenameConstraint CheckObject)
       (rename_ids ck_origin check_redefined check_renames (ta_checks old) (ta_checks new))
     else if k = 6 then map (\<lambda>x. AddCheck (ck_origin x))
       (added_items ck_origin check_redefined (ta_checks old) (ta_checks new)) else [])"
  "filter (\<lambda>s. phase s = k) (index_steps old new) =
    (if k = 1 then map DropIndex (drop_ids ix_origin index_redefined (ta_indexes old) (ta_indexes new))
     else if k = 2 then map (RenameConstraint IndexObject)
       (rename_ids ix_origin index_redefined index_renames (ta_indexes old) (ta_indexes new))
     else if k = 6 then map (\<lambda>x. CreateIndex (ix_origin x))
       (added_items ix_origin index_redefined (ta_indexes old) (ta_indexes new)) else [])"
  unfolding primary_key_steps_def unique_steps_def foreign_key_steps_def check_steps_def
    index_steps_def primary_keys_def
  by (rule object_steps_phases; simp)+

text \<open>What a draft must satisfy for its plan to reach it.\<close>

definition plannable :: "unicode \<Rightarrow> table_model \<Rightarrow> table_model \<Rightarrow> bool" where
  "plannable u old new \<longleftrightarrow>
     columns_ok old new \<and> dangling new = [] \<and> ta_schema old = ta_schema new
     \<and> objects_ok ke_origin (primary_keys old) (primary_keys new)
     \<and> objects_ok ke_origin (ta_uniques old) (ta_uniques new)
     \<and> objects_ok fk_origin (ta_foreign_keys old) (ta_foreign_keys new)
     \<and> objects_ok ck_origin (ta_checks old) (ta_checks new)
     \<and> objects_ok ix_origin (ta_indexes old) (ta_indexes new)
     \<and> settles ke_origin copy_key_name key_redefined key_renames (primary_keys old) (primary_keys new)
     \<and> settles ke_origin copy_key_name key_redefined key_renames (ta_uniques old) (ta_uniques new)
     \<and> settles fk_origin (\<lambda>k p. p\<lparr>fk_name := fk_name k\<rparr>) (foreign_key_redefined u old new)
         foreign_key_renames (ta_foreign_keys old) (ta_foreign_keys new)
     \<and> settles ck_origin (\<lambda>c p. p\<lparr>ck_name := ck_name c\<rparr>) check_redefined check_renames
         (ta_checks old) (ta_checks new)
     \<and> settles ix_origin (\<lambda>i p. p\<lparr>ix_name := ix_name i\<rparr>) index_redefined index_renames
         (ta_indexes old) (ta_indexes new)"

text \<open>Slot phases on a stage; \<open>ps\<close> to \<open>is\<close> are the objects before the phase.\<close>

lemma kept_items_length: "length (kept_items origin red old new) \<le> length old"
  by (simp add: kept_items_def)

lemma renamed_items_length: "length (renamed_items origin copy red ren old new) \<le> length old"
  by (simp add: renamed_items_def kept_items_def)

lemma stage_drops:
  "objects_ok ke_origin (primary_keys old) (primary_keys new) \<Longrightarrow>
     run_steps new (map DropPrimaryKey (drop_ids ke_origin red (primary_keys old) (primary_keys new)))
       (stage t cs (primary_keys old) us fs ks is)
     = Some (stage t cs (kept_items ke_origin red (primary_keys old) (primary_keys new)) us fs ks is)"
  "objects_ok ke_origin us (ta_uniques new) \<Longrightarrow>
     run_steps new (map DropUnique (drop_ids ke_origin red us (ta_uniques new))) (stage t cs ps us fs ks is)
     = Some (stage t cs ps (kept_items ke_origin red us (ta_uniques new)) fs ks is)"
  "objects_ok fk_origin fs (ta_foreign_keys new) \<Longrightarrow>
     run_steps new (map DropForeignKey (drop_ids fk_origin red' fs (ta_foreign_keys new)))
       (stage t cs ps us fs ks is)
     = Some (stage t cs ps us (kept_items fk_origin red' fs (ta_foreign_keys new)) ks is)"
  "objects_ok ck_origin ks (ta_checks new) \<Longrightarrow>
     run_steps new (map DropCheck (drop_ids ck_origin red'' ks (ta_checks new))) (stage t cs ps us fs ks is)
     = Some (stage t cs ps us fs (kept_items ck_origin red'' ks (ta_checks new)) is)"
  "objects_ok ix_origin is (ta_indexes new) \<Longrightarrow>
     run_steps new (map DropIndex (drop_ids ix_origin red3 is (ta_indexes new))) (stage t cs ps us fs ks is)
     = Some (stage t cs ps us fs ks (kept_items ix_origin red3 is (ta_indexes new)))"
  using primary.drop_phase [of "stage t cs (primary_keys old) us fs ks is" new red]
    uniques.drop_phase [of "stage t cs ps us fs ks is" new red]
    foreign_keys.drop_phase [of "stage t cs ps us fs ks is" new red']
    checks.drop_phase [of "stage t cs ps us fs ks is" new red'']
    indexes.drop_phase [of "stage t cs ps us fs ks is" new red3]
  by simp_all

lemma stage_renames:
  assumes "objects_ok ke_origin (primary_keys old) (primary_keys new)"
    and "objects_ok ke_origin us (ta_uniques new)" "objects_ok fk_origin fs (ta_foreign_keys new)"
    and "objects_ok ck_origin ks (ta_checks new)" "objects_ok ix_origin is (ta_indexes new)"
  shows "run_steps new (map (RenameConstraint PrimaryKeyObject)
        (rename_ids ke_origin red ren (primary_keys old) (primary_keys new)))
      (stage t cs (kept_items ke_origin red (primary_keys old) (primary_keys new)) us' fs' ks' is')
    = Some (stage t cs (renamed_items ke_origin copy_key_name red ren (primary_keys old) (primary_keys new))
        us' fs' ks' is')" (is ?primary)
    and "run_steps new (map (RenameConstraint UniqueObject) (rename_ids ke_origin red ren us (ta_uniques new)))
      (stage t cs ps' (kept_items ke_origin red us (ta_uniques new)) fs' ks' is')
    = Some (stage t cs ps' (renamed_items ke_origin copy_key_name red ren us (ta_uniques new)) fs' ks' is')"
      (is ?unique)
    and "run_steps new (map (RenameConstraint ForeignKeyObject)
        (rename_ids fk_origin red' ren' fs (ta_foreign_keys new)))
      (stage t cs ps' us' (kept_items fk_origin red' fs (ta_foreign_keys new)) ks' is')
    = Some (stage t cs ps' us' (renamed_items fk_origin (\<lambda>k p. p\<lparr>fk_name := fk_name k\<rparr>) red' ren' fs
        (ta_foreign_keys new)) ks' is')" (is ?foreign)
    and "run_steps new (map (RenameConstraint CheckObject)
        (rename_ids ck_origin red'' ren'' ks (ta_checks new)))
      (stage t cs ps' us' fs' (kept_items ck_origin red'' ks (ta_checks new)) is')
    = Some (stage t cs ps' us' fs' (renamed_items ck_origin (\<lambda>c p. p\<lparr>ck_name := ck_name c\<rparr>) red'' ren'' ks
        (ta_checks new)) is')" (is ?check)
    and "run_steps new (map (RenameConstraint IndexObject)
        (rename_ids ix_origin red3 ren3 is (ta_indexes new)))
      (stage t cs ps' us' fs' ks' (kept_items ix_origin red3 is (ta_indexes new)))
    = Some (stage t cs ps' us' fs' ks' (renamed_items ix_origin (\<lambda>i p. p\<lparr>ix_name := ix_name i\<rparr>) red3 ren3
        is (ta_indexes new)))" (is ?index)
proof -
  have len: "length (kept_items ke_origin red (primary_keys old) (primary_keys new)) \<le> Suc 0"
    using kept_items_length primary_keys_length by (rule order_trans)
  show ?primary
    using primary.rename_phase [OF assms(1), where redefined = red and renames = ren and t =
      "stage t cs (kept_items ke_origin red (primary_keys old) (primary_keys new)) us' fs' ks' is'"] len
    by simp
  show ?unique
    using uniques.rename_phase [OF assms(2), where redefined = red and renames = ren and t =
      "stage t cs ps' (kept_items ke_origin red us (ta_uniques new)) fs' ks' is'"] by simp
  show ?foreign
    using foreign_keys.rename_phase [OF assms(3), where redefined = red' and renames = ren' and t =
      "stage t cs ps' us' (kept_items fk_origin red' fs (ta_foreign_keys new)) ks' is'"] by simp
  show ?check
    using checks.rename_phase [OF assms(4), where redefined = red'' and renames = ren'' and t =
      "stage t cs ps' us' fs' (kept_items ck_origin red'' ks (ta_checks new)) is'"] by simp
  show ?index
    using indexes.rename_phase [OF assms(5), where redefined = red3 and renames = ren3 and t =
      "stage t cs ps' us' fs' ks' (kept_items ix_origin red3 is (ta_indexes new))"] by simp
qed

text \<open>The objects of one kind once the plan has run.\<close>

definition final_items ::
  "('a \<Rightarrow> origin) \<Rightarrow> ('a \<Rightarrow> 'a \<Rightarrow> 'a) \<Rightarrow> ('a \<Rightarrow> 'a \<Rightarrow> bool) \<Rightarrow> ('a \<Rightarrow> 'a \<Rightarrow> bool) \<Rightarrow> 'a list \<Rightarrow> 'a list
     \<Rightarrow> 'a list" where
  "final_items origin copy redefined renames old new =
     renamed_items origin copy redefined renames old new @ added_items origin redefined old new"

lemma columns_present_members:
  assumes "dangling new = []" "co_origin ` set (ta_columns new) \<subseteq> co_origin ` set (ta_columns t)"
    and "set xs \<subseteq> set (referenced_columns new)"
  shows "columns_present t xs"
  using assms unfolding columns_present_def list_all_iff column_of_None_iff dangling_Nil_iff by blast

lemma members_referenced:
  "k \<in> set (primary_keys new) \<Longrightarrow> set (ke_columns k) \<subseteq> set (referenced_columns new)"
  "k \<in> set (ta_uniques new) \<Longrightarrow> set (ke_columns k) \<subseteq> set (referenced_columns new)"
  "f \<in> set (ta_foreign_keys new) \<Longrightarrow> set (fk_columns f) \<subseteq> set (referenced_columns new)"
  "i \<in> set (ta_indexes new) \<Longrightarrow> set (ix_include i @ target_columns i) \<subseteq> set (referenced_columns new)"
  by (force simp: referenced_columns_def table_keys_def primary_keys_def)+

lemma stage_adds:
  assumes "dangling new = []" "co_origin ` set (ta_columns new) \<subseteq> co_origin ` set cs"
  shows "objects_ok ke_origin (primary_keys old) (primary_keys new) \<Longrightarrow>
      settles ke_origin copy_key_name red ren (primary_keys old) (primary_keys new) \<Longrightarrow>
      run_steps new (map (\<lambda>x. AddPrimaryKey (ke_origin x))
          (added_items ke_origin red (primary_keys old) (primary_keys new)))
        (stage t cs (renamed_items ke_origin copy_key_name red ren (primary_keys old) (primary_keys new))
          us' fs' ks' is')
      = Some (stage t cs (final_items ke_origin copy_key_name red ren (primary_keys old) (primary_keys new))
          us' fs' ks' is')"
    (is "_ \<Longrightarrow> _ \<Longrightarrow> ?primary")
    and "objects_ok ke_origin us (ta_uniques new) \<Longrightarrow>
      settles ke_origin copy_key_name red ren us (ta_uniques new) \<Longrightarrow>
      run_steps new (map (\<lambda>x. AddUnique (ke_origin x)) (added_items ke_origin red us (ta_uniques new)))
        (stage t cs ps' (renamed_items ke_origin copy_key_name red ren us (ta_uniques new)) fs' ks' is')
      = Some (stage t cs ps' (final_items ke_origin copy_key_name red ren us (ta_uniques new)) fs' ks' is')"
    (is "_ \<Longrightarrow> _ \<Longrightarrow> ?unique")
    and "objects_ok fk_origin fs (ta_foreign_keys new) \<Longrightarrow>
      settles fk_origin (\<lambda>k p. p\<lparr>fk_name := fk_name k\<rparr>) red' ren' fs (ta_foreign_keys new) \<Longrightarrow>
      run_steps new (map (\<lambda>x. AddForeignKey (fk_origin x)) (added_items fk_origin red' fs (ta_foreign_keys new)))
        (stage t cs ps' us' (renamed_items fk_origin (\<lambda>k p. p\<lparr>fk_name := fk_name k\<rparr>) red' ren' fs
          (ta_foreign_keys new)) ks' is')
      = Some (stage t cs ps' us' (final_items fk_origin (\<lambda>k p. p\<lparr>fk_name := fk_name k\<rparr>) red' ren' fs
          (ta_foreign_keys new)) ks' is')" (is "_ \<Longrightarrow> _ \<Longrightarrow> ?foreign")
    and "objects_ok ck_origin ks (ta_checks new) \<Longrightarrow>
      settles ck_origin (\<lambda>c p. p\<lparr>ck_name := ck_name c\<rparr>) red'' ren'' ks (ta_checks new) \<Longrightarrow>
      run_steps new (map (\<lambda>x. AddCheck (ck_origin x)) (added_items ck_origin red'' ks (ta_checks new)))
        (stage t cs ps' us' fs' (renamed_items ck_origin (\<lambda>c p. p\<lparr>ck_name := ck_name c\<rparr>) red'' ren'' ks
          (ta_checks new)) is')
      = Some (stage t cs ps' us' fs' (final_items ck_origin (\<lambda>c p. p\<lparr>ck_name := ck_name c\<rparr>) red'' ren'' ks
          (ta_checks new)) is')" (is "_ \<Longrightarrow> _ \<Longrightarrow> ?check")
    and "objects_ok ix_origin is (ta_indexes new) \<Longrightarrow>
      settles ix_origin (\<lambda>i p. p\<lparr>ix_name := ix_name i\<rparr>) red3 ren3 is (ta_indexes new) \<Longrightarrow>
      run_steps new (map (\<lambda>x. CreateIndex (ix_origin x)) (added_items ix_origin red3 is (ta_indexes new)))
        (stage t cs ps' us' fs' ks' (renamed_items ix_origin (\<lambda>i p. p\<lparr>ix_name := ix_name i\<rparr>) red3 ren3 is
          (ta_indexes new)))
      = Some (stage t cs ps' us' fs' ks' (final_items ix_origin (\<lambda>i p. p\<lparr>ix_name := ix_name i\<rparr>) red3 ren3 is
          (ta_indexes new)))" (is "_ \<Longrightarrow> _ \<Longrightarrow> ?index")
proof -
  note present = columns_present_members [OF assms(1)]
  show ?primary if ok: "objects_ok ke_origin (primary_keys old) (primary_keys new)"
    "settles ke_origin copy_key_name red ren (primary_keys old) (primary_keys new)"
  proof -
    let ?ps = "renamed_items ke_origin copy_key_name red ren (primary_keys old) (primary_keys new)"
    have "length ?ps \<le> Suc 0"
      using renamed_items_length primary_keys_length by (rule order_trans)
    then show ?thesis
      using primary.add_phase [OF ok, where t = "stage t cs ?ps us' fs' ks' is'"] assms(2)
        present [OF _ members_referenced(1)]
      by (simp add: final_items_def)
  qed
  show ?unique if ok: "objects_ok ke_origin us (ta_uniques new)"
    "settles ke_origin copy_key_name red ren us (ta_uniques new)"
    using uniques.add_phase [OF ok, where t = "stage t cs ps' (renamed_items ke_origin copy_key_name red ren
        us (ta_uniques new)) fs' ks' is'"] assms(2) present [OF _ members_referenced(2)]
    by (simp add: final_items_def)
  show ?foreign if ok: "objects_ok fk_origin fs (ta_foreign_keys new)"
    "settles fk_origin (\<lambda>k p. p\<lparr>fk_name := fk_name k\<rparr>) red' ren' fs (ta_foreign_keys new)"
    using foreign_keys.add_phase [OF ok, where t = "stage t cs ps' us' (renamed_items fk_origin
        (\<lambda>k p. p\<lparr>fk_name := fk_name k\<rparr>) red' ren' fs (ta_foreign_keys new)) ks' is'"]
      assms(2) present [OF _ members_referenced(3)]
    by (simp add: final_items_def)
  show ?check if ok: "objects_ok ck_origin ks (ta_checks new)"
    "settles ck_origin (\<lambda>c p. p\<lparr>ck_name := ck_name c\<rparr>) red'' ren'' ks (ta_checks new)"
    using checks.add_phase [OF ok, where t = "stage t cs ps' us' fs' (renamed_items ck_origin
        (\<lambda>c p. p\<lparr>ck_name := ck_name c\<rparr>) red'' ren'' ks (ta_checks new)) is'"]
    by (simp add: final_items_def columns_present_def)
  show ?index if ok: "objects_ok ix_origin is (ta_indexes new)"
    "settles ix_origin (\<lambda>i p. p\<lparr>ix_name := ix_name i\<rparr>) red3 ren3 is (ta_indexes new)"
    using indexes.add_phase [OF ok, where t = "stage t cs ps' us' fs' ks' (renamed_items ix_origin
        (\<lambda>i p. p\<lparr>ix_name := ix_name i\<rparr>) red3 ren3 is (ta_indexes new))"]
      assms(2) present [OF _ members_referenced(4)]
    by (simp add: final_items_def)
qed

end
