(* ===== verification/SchemaRefine.thy ===== *)
theory SchemaRefine imports SchemaStages begin

text \<open>
  The plan of a validated draft reaches the draft: the phases put together.
\<close>

section \<open>The columns at the end\<close>

lemma same_keys_same_set:
  "map f xs = map f ys \<Longrightarrow> set xs = set ys \<Longrightarrow> distinct (map f ys) \<Longrightarrow> xs = ys"
proof (induction xs arbitrary: ys)
  case (Cons x xs)
  then obtain y ys' where ys: "ys = y # ys'" by (cases ys) auto
  from Cons.prems ys have "x \<in> set ys" "f x = f y" by auto
  with Cons.prems(3) ys have "x = y" by (auto simp: image_iff)
  moreover have "xs = ys'"
  proof (rule Cons.IH)
    show "map f xs = map f ys'" "distinct (map f ys')" using Cons.prems ys by auto
    then have "x \<notin> set xs" "y \<notin> set ys'" using Cons.prems ys \<open>x = y\<close>
      by (metis distinct.simps(2) distinct_map list.simps(9))+
    then show "set xs = set ys'" using Cons.prems(2) ys \<open>x = y\<close> by auto
  qed
  ultimately show ?case by (simp add: ys)
qed simp

definition columns_kept :: "unicode \<Rightarrow> table_model \<Rightarrow> table_model \<Rightarrow> column_model list" where
  "columns_kept u old new =
     filter (\<lambda>c. co_origin c \<notin> Existing ` set (dropped_columns old new))
       (map (changed_column u new) (ta_columns old) @ map uncommented (new_columns old (ta_columns new)))"

definition placed_column :: "unicode \<Rightarrow> table_model \<Rightarrow> column_model \<Rightarrow> column_model" where
  "placed_column u old c =
     (case previous_column old c of None \<Rightarrow> uncommented c | Some p \<Rightarrow> altered_column u p c)"

lemma altered_column_origin [simp]: "co_origin (altered_column u p c) = co_origin p"
  by (simp add: altered_column_def)

lemma previous_column_iff:
  assumes "columns_ok old new"
  shows "previous_column old c = Some p \<longleftrightarrow> p \<in> set (ta_columns old) \<and> co_origin p = co_origin c"
  unfolding previous_column_match by (rule match_pair_iff [OF assms [unfolded columns_objects_ok]])

lemma placed_column_origin:
  "columns_ok old new \<Longrightarrow> co_origin (placed_column u old c) = co_origin c"
  by (auto simp: placed_column_def previous_column_iff split: option.splits)

lemma columns_kept_set:
  assumes ok: "columns_ok old new"
  shows "set (columns_kept u old new) = placed_column u old ` set (ta_columns new)"
proof (intro equalityI subsetI)
  fix x assume "x \<in> set (columns_kept u old new)"
  then consider (old) p where "p \<in> set (ta_columns old)" "x = changed_column u new p"
      "co_origin p \<notin> Existing ` set (dropped_columns old new)"
    | (new) c where "c \<in> set (new_columns old (ta_columns new))" "x = uncommented c"
    by (auto simp: columns_kept_def)
  then show "x \<in> placed_column u old ` set (ta_columns new)"
  proof cases
    case old
    obtain n where n: "co_origin p = Existing n"
      using existing_old [OF ok [unfolded columns_objects_ok] old(1)] by blast
    with old dropped_columns_iff [OF ok, of n] have "co_origin p \<in> co_origin ` set (ta_columns new)"
      by (metis imageI)
    then obtain c where c: "c \<in> set (ta_columns new)" "co_origin c = co_origin p" by (metis imageE)
    then have "partner new p = Some c" "previous_column old c = Some p"
      using old(1) by (simp_all add: partner_Some_iff [OF ok] previous_column_iff [OF ok])
    then have "x = placed_column u old c" using old(2) by (simp add: changed_column_def placed_column_def)
    with c(1) show ?thesis by blast
  next
    case new
    then have "c \<in> set (ta_columns new)" "x = placed_column u old c"
      by (auto simp: new_columns_def placed_column_def)
    then show ?thesis by blast
  qed
next
  fix x assume "x \<in> placed_column u old ` set (ta_columns new)"
  then obtain c where c: "c \<in> set (ta_columns new)" "x = placed_column u old c" by blast
  show "x \<in> set (columns_kept u old new)"
  proof (cases "previous_column old c")
    case None
    then have "c \<in> set (new_columns old (ta_columns new))" using c by (simp add: new_columns_def)
    moreover from this have "is_new (co_origin c)" using new_columns_iff [OF ok] by blast
    ultimately show ?thesis using c None by (auto simp: columns_kept_def placed_column_def)
  next
    case (Some p)
    then have p: "p \<in> set (ta_columns old)" "co_origin p = co_origin c"
      by (simp_all add: previous_column_iff [OF ok])
    then have "partner new p = Some c" using c by (simp add: partner_Some_iff [OF ok])
    then have x: "x = changed_column u new p" using c Some by (simp add: placed_column_def changed_column_def)
    obtain n where n: "co_origin p = Existing n"
      using existing_old [OF ok [unfolded columns_objects_ok] p(1)] by blast
    have "co_origin p \<notin> Existing ` set (dropped_columns old new)"
      unfolding n dropped_columns_iff [OF ok] using c p n by (metis imageI)
    then show ?thesis using p(1) unfolding x columns_kept_def by simp
  qed
qed

lemma columns_kept_distinct:
  assumes ok: "columns_ok old new"
  shows "distinct (map co_origin (columns_kept u old new))"
proof -
  have "distinct (map co_origin (map (changed_column u new) (ta_columns old)
      @ map uncommented (new_columns old (ta_columns new))))"
    using ok new_columns_iff [OF ok]
    by (auto simp: comp_def columns_ok_def new_columns_def distinct_map_filter list_all_iff)
  then show ?thesis unfolding columns_kept_def by (rule distinct_map_filter)
qed

lemma new_before_existing_parts:
  "\<not> new_before_existing b cs \<Longrightarrow>
     (if b then list_all (\<lambda>c. is_new (co_origin c)) cs
      else cs = filter (\<lambda>c. \<not> is_new (co_origin c)) cs @ filter (\<lambda>c. is_new (co_origin c)) cs)"
proof (induction b cs rule: new_before_existing.induct)
  case (2 seen c cs)
  then show ?case by (auto simp: list_all_iff filter_empty_conv filter_id_conv split: if_splits)
qed simp

lemma columns_kept_in_order:
  assumes ok: "columns_ok old new" and "\<not> columns_reordered old new"
  shows "columns_kept u old new = map (placed_column u old) (ta_columns new)"
proof (rule same_keys_same_set)
  have order: "order_before old new = order_after new"
    using assms by (simp add: columns_reordered_def moved_columns_Nil_iff [OF ok] split: if_splits)
  have parts: "ta_columns new = filter (\<lambda>c. \<not> is_new (co_origin c)) (ta_columns new)
      @ filter (\<lambda>c. is_new (co_origin c)) (ta_columns new)"
    using new_before_existing_parts [of False "ta_columns new"] assms(2)
    by (simp add: columns_reordered_def split: if_splits)
  have "new_columns old (ta_columns new) = filter (\<lambda>c. is_new (co_origin c)) (ta_columns new)"
    using new_columns_iff [OF ok] unfolding new_columns_def by (intro filter_cong) auto
  moreover have "map co_origin (filter (\<lambda>c. co_origin c \<notin> Existing ` set (dropped_columns old new))
      (map (changed_column u new) (ta_columns old))) = order_before old new"
  proof -
    have "co_origin p \<notin> Existing ` set (dropped_columns old new)
        \<longleftrightarrow> co_origin p \<in> set (map co_origin (ta_columns new))" if p: "p \<in> set (ta_columns old)" for p
    proof -
      obtain n where "co_origin p = Existing n"
        using existing_old [OF ok [unfolded columns_objects_ok] p] by blast
      then show ?thesis using dropped_columns_iff [OF ok, of n] p by (metis imageI set_map)
    qed
    then show ?thesis
      by (simp add: order_before_def filter_map comp_def cong: filter_cong map_cong)
  qed
  moreover have "filter (\<lambda>c. co_origin c \<notin> Existing ` set (dropped_columns old new)) (map uncommented
      (filter (\<lambda>c. is_new (co_origin c)) (ta_columns new)))
      = map uncommented (filter (\<lambda>c. is_new (co_origin c)) (ta_columns new))"
    by (auto simp: filter_id_conv)
  ultimately have "map co_origin (columns_kept u old new)
      = order_after new @ map co_origin (filter (\<lambda>c. is_new (co_origin c)) (ta_columns new))"
    by (simp add: columns_kept_def order comp_def)
  also have "\<dots> = map co_origin (ta_columns new)"
    using arg_cong [OF parts, of "map co_origin"] by (simp add: order_after_def filter_map comp_def)
  also have "\<dots> = map co_origin (map (placed_column u old) (ta_columns new))"
    by (simp add: placed_column_origin [OF ok] comp_def)
  finally show "map co_origin (columns_kept u old new)
      = map co_origin (map (placed_column u old) (ta_columns new))" .
  show "set (columns_kept u old new) = set (map (placed_column u old) (ta_columns new))"
    using columns_kept_set [OF ok] by simp
  show "distinct (map co_origin (map (placed_column u old) (ta_columns new)))"
    using ok by (simp add: placed_column_origin [OF ok] comp_def columns_ok_def)
qed


lemma reorder_columns:
  assumes ok: "columns_ok old new" and cols: "ta_columns t = columns_kept u old new"
  shows "run_steps new (only_if (columns_reordered old new) ReorderColumns) t
    = Some (put_columns (map (placed_column u old) (ta_columns new)) t)"
proof (cases "columns_reordered old new")
  case True
  note distinct = columns_kept_distinct [OF ok, of u]
  have find: "column_of t (co_origin c) = Some (placed_column u old c)" if "c \<in> set (ta_columns new)" for c
    using find_distinct [OF distinct, of "placed_column u old c"] that
    by (simp add: column_of_def cols columns_kept_set [OF ok] placed_column_origin [OF ok])
  then have "columns_present t (map co_origin (ta_columns new))"
    by (simp add: columns_present_def list_all_iff)
  moreover have "length (ta_columns new) = length (ta_columns t)"
  proof -
    have "distinct (map co_origin (map (placed_column u old) (ta_columns new)))"
      using ok by (simp add: placed_column_origin [OF ok] comp_def columns_ok_def)
    then have "distinct (map (placed_column u old) (ta_columns new))" by (simp only: distinct_map)
    moreover have "distinct (columns_kept u old new)" using distinct by (simp only: distinct_map)
    ultimately show ?thesis
      using columns_kept_set [OF ok, of u] by (metis cols distinct_card length_map list.set_map)
  qed
  moreover have "map (\<lambda>x. the (column_of t x)) (map co_origin (ta_columns new))
      = map (placed_column u old) (ta_columns new)"
    using find by simp
  ultimately show ?thesis
    using True by (simp add: run_steps_only_if apply_step.simps Let_def del: map_map)
next
  case False
  then show ?thesis
    using columns_kept_in_order [OF ok False, of u] cols
    by (cases t) (simp add: put_columns_def)
qed

text \<open>The column a draft's column ends as: itself, or the captured one with an equal type kept.\<close>

definition settled_draft_column :: "unicode \<Rightarrow> table_model \<Rightarrow> column_model \<Rightarrow> column_model" where
  "settled_draft_column u old c =
     (case previous_column old c of None \<Rightarrow> c | Some p \<Rightarrow> settled_column u p c)"

lemma comment_columns_phase:
  assumes ok: "columns_ok old new" and cols: "ta_columns t = map (placed_column u old) (ta_columns new)"
  shows "run_steps new (survivor_steps u old (ta_columns new) 8) t
    = Some (put_columns (map (settled_draft_column u old) (ta_columns new)) t)"
proof -
  let ?h = "\<lambda>c. (co_origin c, \<lambda>c p. p\<lparr>co_comment := co_comment c\<rparr>) :: origin \<times> _"
  let ?vs = "commented old (ta_columns new)"
  have sub: "set ?vs \<subseteq> set (ta_columns new)" by (auto simp: commented_def)
  have origins: "co_origin ` set (ta_columns t) = co_origin ` set (ta_columns new)"
    by (simp add: cols image_image placed_column_origin [OF ok])
  have distinct: "distinct (map (\<lambda>v. fst (?h v)) ?vs)"
    using ok by (simp add: commented_def columns_ok_def distinct_map_filter)
  have "run_steps new (map (\<lambda>c. SetColumnComment (co_origin c)) ?vs) t
      = Some (put_columns (map (update_all co_origin (map ?h ?vs) (ta_columns new)) (ta_columns t)) t)"
  proof (rule columns.run_updates)
    show "distinct (map (\<lambda>v. fst (?h v)) ?vs)" by (rule distinct)
    show "(\<lambda>v. fst (?h v)) ` set ?vs \<subseteq> co_origin ` set (ta_columns t)"
      "(\<lambda>v. fst (?h v)) ` set ?vs \<subseteq> co_origin ` set (ta_columns new)"
      using sub by (auto simp: origins)
  qed (simp_all add: apply_step.simps update_column_def)
  moreover have "update_all co_origin (map ?h ?vs) (ta_columns new) (placed_column u old c)
      = settled_draft_column u old c" if c: "c \<in> set (ta_columns new)" for c
  proof -
    have origin: "co_origin (placed_column u old c) = co_origin c" by (rule placed_column_origin [OF ok])
    have find: "find (\<lambda>y. co_origin y = co_origin c) (ta_columns new) = Some c"
      using c ok find_distinct [of co_origin "ta_columns new" c] by (simp add: columns_ok_def)
    have settled: "(placed_column u old c)\<lparr>co_comment := co_comment c\<rparr> = settled_draft_column u old c"
    proof (cases "previous_column old c")
      case (Some p)
      then have "co_origin p = co_origin c" by (simp add: previous_column_iff [OF ok])
      then show ?thesis using Some altered_column(1) [of p c u]
        by (simp add: placed_column_def settled_draft_column_def)
    qed (simp add: placed_column_def settled_draft_column_def)
    show ?thesis
    proof (cases "c \<in> set ?vs")
      case True
      then show ?thesis
        using update_all_in [OF distinct True, of co_origin "placed_column u old c" "ta_columns new" c]
          origin find settled by simp
    next
      case False
      have "co_origin (placed_column u old c) \<notin> (\<lambda>v. fst (?h v)) ` set ?vs"
      proof
        assume "co_origin (placed_column u old c) \<in> (\<lambda>v. fst (?h v)) ` set ?vs"
        then obtain c' where c': "c' \<in> set ?vs" "co_origin c' = co_origin c" using origin by auto
        then have "c' = c"
          using sub c ok by (auto simp: columns_ok_def distinct_map dest: inj_onD)
        with c' False show False by simp
      qed
      then have "update_all co_origin (map ?h ?vs) (ta_columns new) (placed_column u old c)
          = placed_column u old c"
        by (rule update_all_out)
      moreover have "co_comment (placed_column u old c) = co_comment c"
      proof (cases "previous_column old c")
        case None
        then show ?thesis using False c by (simp add: commented_def placed_column_def)
      next
        case (Some p)
        then have p: "p \<in> set (ta_columns old)" "co_origin p = co_origin c"
          by (simp_all add: previous_column_iff [OF ok])
        then have "existing (co_origin c) \<noteq> None"
          using existing_old [OF ok [unfolded columns_objects_ok] p(1)] by auto
        then show ?thesis using False c Some altered_column(2) [OF p(2), of u]
          by (simp add: commented_def placed_column_def)
      qed
      ultimately show ?thesis using settled by (cases "placed_column u old c") simp
    qed
  qed
  ultimately show ?thesis by (simp add: survivor_steps_def cols comp_def cong: map_cong)
qed


section \<open>Phase by phase\<close>

abbreviation phase_steps :: "unicode \<Rightarrow> table_model \<Rightarrow> table_model \<Rightarrow> nat \<Rightarrow> plan_step list" where
  "phase_steps u old new k \<equiv> filter (\<lambda>s. phase s = k) (unsorted_steps u old new)"

text \<open>The stages after the drops, after the renames, after the adds but the last, and at the end.\<close>

abbreviation dropped_stage ::
  "unicode \<Rightarrow> table_model \<Rightarrow> table_model \<Rightarrow> table_model \<Rightarrow> column_model list \<Rightarrow> table_model" where
  "dropped_stage u old new t cs \<equiv> stage t cs
     (kept_items ke_origin key_redefined (primary_keys old) (primary_keys new))
     (kept_items ke_origin key_redefined (ta_uniques old) (ta_uniques new))
     (kept_items fk_origin (foreign_key_redefined u old new) (ta_foreign_keys old) (ta_foreign_keys new))
     (kept_items ck_origin check_redefined (ta_checks old) (ta_checks new))
     (kept_items ix_origin index_redefined (ta_indexes old) (ta_indexes new))"

abbreviation renamed_foreign_keys :: "unicode \<Rightarrow> table_model \<Rightarrow> table_model \<Rightarrow> foreign_key_model list" where
  "renamed_foreign_keys u old new \<equiv> renamed_items fk_origin (\<lambda>k p. p\<lparr>fk_name := fk_name k\<rparr>)
     (foreign_key_redefined u old new) foreign_key_renames (ta_foreign_keys old) (ta_foreign_keys new)"

abbreviation renamed_stage ::
  "unicode \<Rightarrow> table_model \<Rightarrow> table_model \<Rightarrow> table_model \<Rightarrow> column_model list \<Rightarrow> table_model" where
  "renamed_stage u old new t cs \<equiv> stage t cs
     (renamed_items ke_origin copy_key_name key_redefined key_renames (primary_keys old) (primary_keys new))
     (renamed_items ke_origin copy_key_name key_redefined key_renames (ta_uniques old) (ta_uniques new))
     (renamed_foreign_keys u old new)
     (renamed_items ck_origin (\<lambda>c p. p\<lparr>ck_name := ck_name c\<rparr>) check_redefined check_renames
        (ta_checks old) (ta_checks new))
     (renamed_items ix_origin (\<lambda>i p. p\<lparr>ix_name := ix_name i\<rparr>) index_redefined index_renames
        (ta_indexes old) (ta_indexes new))"

abbreviation final_foreign_keys :: "unicode \<Rightarrow> table_model \<Rightarrow> table_model \<Rightarrow> foreign_key_model list" where
  "final_foreign_keys u old new \<equiv> final_items fk_origin (\<lambda>k p. p\<lparr>fk_name := fk_name k\<rparr>)
     (foreign_key_redefined u old new) foreign_key_renames (ta_foreign_keys old) (ta_foreign_keys new)"

abbreviation added_stage ::
  "foreign_key_model list \<Rightarrow> table_model \<Rightarrow> table_model \<Rightarrow> table_model \<Rightarrow> column_model list \<Rightarrow> table_model"
  where
  "added_stage fs old new t cs \<equiv> stage t cs
     (final_items ke_origin copy_key_name key_redefined key_renames (primary_keys old) (primary_keys new))
     (final_items ke_origin copy_key_name key_redefined key_renames (ta_uniques old) (ta_uniques new))
     fs
     (final_items ck_origin (\<lambda>c p. p\<lparr>ck_name := ck_name c\<rparr>) check_redefined check_renames
        (ta_checks old) (ta_checks new))
     (final_items ix_origin (\<lambda>i p. p\<lparr>ix_name := ix_name i\<rparr>) index_redefined index_renames
        (ta_indexes old) (ta_indexes new))"

lemmas steps_by_phase =
  unsorted_steps_def slot_phases column_steps_phases table_steps_phases

lemma stage_updates:
  "(stage t cs ps us fs ks is)\<lparr>ta_name := n\<rparr> = stage (t\<lparr>ta_name := n\<rparr>) cs ps us fs ks is"
  "(stage t cs ps us fs ks is)\<lparr>ta_comment := c\<rparr> = stage (t\<lparr>ta_comment := c\<rparr>) cs ps us fs ks is"
  "(stage t cs ps us fs ks is)\<lparr>ta_options := opts\<rparr> = stage (t\<lparr>ta_options := opts\<rparr>) cs ps us fs ks is"
  by (simp_all add: stage_def)

lemma same_updates:
  "ta_name t = n \<Longrightarrow> t\<lparr>ta_name := n\<rparr> = t"
  "ta_comment t = c \<Longrightarrow> t\<lparr>ta_comment := c\<rparr> = t"
  "ta_options t = opts \<Longrightarrow> t\<lparr>ta_options := opts\<rparr> = t"
  by (cases t; simp)+

lemma plannableD:
  assumes "plannable u old new"
  shows "columns_ok old new" "dangling new = []"
    "objects_ok ke_origin (primary_keys old) (primary_keys new)"
    "objects_ok ke_origin (ta_uniques old) (ta_uniques new)"
    "objects_ok fk_origin (ta_foreign_keys old) (ta_foreign_keys new)"
    "objects_ok ck_origin (ta_checks old) (ta_checks new)"
    "objects_ok ix_origin (ta_indexes old) (ta_indexes new)"
    "settles ke_origin copy_key_name key_redefined key_renames (primary_keys old) (primary_keys new)"
    "settles ke_origin copy_key_name key_redefined key_renames (ta_uniques old) (ta_uniques new)"
    "settles fk_origin (\<lambda>k p. p\<lparr>fk_name := fk_name k\<rparr>) (foreign_key_redefined u old new)
       foreign_key_renames (ta_foreign_keys old) (ta_foreign_keys new)"
    "settles ck_origin (\<lambda>c p. p\<lparr>ck_name := ck_name c\<rparr>) check_redefined check_renames
       (ta_checks old) (ta_checks new)"
    "settles ix_origin (\<lambda>i p. p\<lparr>ix_name := ix_name i\<rparr>) index_redefined index_renames
       (ta_indexes old) (ta_indexes new)"
  using assms by (simp_all add: plannable_def)

lemma phase_1:
  assumes "plannable u old new"
  shows "run_steps new (phase_steps u old new 1) old
    = Some (dropped_stage u old new old (ta_columns old))"
proof -
  have "run_steps new (phase_steps u old new 1)
      (stage old (ta_columns old) (primary_keys old) (ta_uniques old) (ta_foreign_keys old)
        (ta_checks old) (ta_indexes old))
    = Some (dropped_stage u old new old (ta_columns old))"
    by (simp add: steps_by_phase survivor_steps_def run_steps_append stage_drops plannableD [OF assms])
  then show ?thesis by (simp add: stage_self)
qed

lemma phase_2:
  assumes "plannable u old new"
  shows "run_steps new (phase_steps u old new 2) (dropped_stage u old new t (ta_columns old))
    = Some (renamed_stage u old new (if ta_name old = ta_name new then t else t\<lparr>ta_name := ta_name new\<rparr>)
        (map (renamed_column new) (ta_columns old)))"
  using rename_columns_phase [OF plannableD(1) [OF assms], where u = u]
  by (cases "ta_name old = ta_name new")
     (simp_all add: steps_by_phase run_steps_append stage_renames [OF plannableD(3-7) [OF assms]]
       apply_step.simps stage_updates)

lemma phase_3:
  assumes "plannable u old new" "ta_columns t = map (renamed_column new) (ta_columns old)"
  shows "run_steps new (phase_steps u old new 3) t
    = Some (put_columns (map (changed_column u new) (ta_columns old)) t)"
  using alter_columns_phase [OF plannableD(1) [OF assms(1)] assms(2)] by (simp add: steps_by_phase)

lemma phase_4:
  assumes "plannable u old new" "ta_columns t = map (changed_column u new) (ta_columns old)"
  shows "run_steps new (phase_steps u old new 4) t
    = Some (put_columns (map (changed_column u new) (ta_columns old)
        @ map uncommented (new_columns old (ta_columns new))) t)"
  using add_columns_phase [OF plannableD(1) [OF assms(1)], of t u] assms(2)
  by (simp add: steps_by_phase comp_def)

lemma column_is_referenced_mono:
  assumes "set (primary_keys t) \<subseteq> set (primary_keys t')" "set (ta_uniques t) \<subseteq> set (ta_uniques t')"
    and "set (ta_foreign_keys t) \<subseteq> set (ta_foreign_keys t')" "set (ta_indexes t) \<subseteq> set (ta_indexes t')"
  shows "column_is_referenced t x \<Longrightarrow> column_is_referenced t' x"
  using assms by (fastforce simp: column_is_referenced_def list_ex_iff table_keys_def primary_keys_def)

lemma phase_5:
  assumes "plannable u old new"
  defines "cs \<equiv> map (changed_column u new) (ta_columns old) @ map uncommented (new_columns old (ta_columns new))"
  shows "run_steps new (phase_steps u old new 5) (renamed_stage u old new t cs)
    = Some (renamed_stage u old new t (map (placed_column u old) (ta_columns new)))"
proof -
  let ?t = "renamed_stage u old new t cs"
  note ok = plannableD [OF assms(1)]
  have free: "\<not> column_is_referenced ?t (Existing n)" if n: "n \<in> set (dropped_columns old new)" for n
  proof
    assume "column_is_referenced ?t (Existing n)"
    moreover have "length (renamed_items ke_origin copy_key_name key_redefined key_renames
        (primary_keys old) (primary_keys new)) \<le> Suc 0"
      using renamed_items_length primary_keys_length by (rule order_trans)
    ultimately have "column_is_referenced new (Existing n)"
      by (rule_tac column_is_referenced_mono [of ?t])
         (simp_all add: settled_sets(1) [OF ok(3,8)] settled_sets(1) [OF ok(4,9)]
           settled_sets(1) [OF ok(5,10)] settled_sets(1) [OF ok(7,12)])
    then have "Existing n \<in> co_origin ` set (ta_columns new)"
      using ok(2) by (auto simp: dangling_Nil_iff simp flip: referenced_columns_iff)
    then show False using n dropped_columns_iff [OF ok(1), of n] by blast
  qed
  have "co_origin ` set (ta_columns old) \<subseteq> co_origin ` set (ta_columns ?t)"
    by (auto simp: cs_def image_image image_Un)
  then have "Existing ` set (dropped_columns old new) \<subseteq> co_origin ` set (ta_columns ?t)"
    using dropped_columns_iff [OF ok(1)] by blast
  then have "run_steps new (map DropColumn (dropped_columns old new)) ?t
      = Some (put_columns (columns_kept u old new) ?t)"
    using run_drop_columns [OF dropped_columns_distinct [OF ok(1)], where t = ?t and new = new] free
    by (simp add: columns_kept_def cs_def)
  then show ?thesis
    using reorder_columns [OF ok(1), of "put_columns (columns_kept u old new) ?t" u]
    by (simp add: steps_by_phase survivor_steps_def run_steps_append)
qed


lemma phase_6:
  assumes "plannable u old new" "co_origin ` set cs = co_origin ` set (ta_columns new)"
  shows "run_steps new (phase_steps u old new 6) (renamed_stage u old new t cs)
    = Some (added_stage (renamed_foreign_keys u old new) old new t cs)"
proof -
  note ok = plannableD [OF assms(1)]
  have cols: "co_origin ` set (ta_columns new) \<subseteq> co_origin ` set cs" by (simp add: assms(2))
  show ?thesis
    by (simp add: steps_by_phase survivor_steps_def run_steps_append stage_adds [OF ok(2) cols] ok)
qed

lemma phase_7:
  assumes "plannable u old new" "co_origin ` set cs = co_origin ` set (ta_columns new)"
  shows "run_steps new (phase_steps u old new 7) (added_stage (renamed_foreign_keys u old new) old new t cs)
    = Some (added_stage (final_foreign_keys u old new) old new t cs)"
proof -
  note ok = plannableD [OF assms(1)]
  have cols: "co_origin ` set (ta_columns new) \<subseteq> co_origin ` set cs" by (simp add: assms(2))
  show ?thesis
    by (simp add: steps_by_phase survivor_steps_def stage_adds(3) [OF ok(2) cols ok(5,10)])
qed

lemma option_changes_Nil_iff: "option_changes old new = [] \<longleftrightarrow> old = new"
  by (cases old; cases new) (auto simp: option_changes_def)

definition described :: "table_model \<Rightarrow> table_model \<Rightarrow> table_model \<Rightarrow> table_model" where
  "described old new t =
     t\<lparr>ta_comment := if ta_comment old = ta_comment new then ta_comment t else ta_comment new,
       ta_options := if ta_options old = ta_options new then ta_options t else ta_options new\<rparr>"

lemma phase_8:
  assumes "plannable u old new" "ta_columns t = map (placed_column u old) (ta_columns new)"
  shows "run_steps new (phase_steps u old new 8) t
    = Some (described old new (put_columns (map (settled_draft_column u old) (ta_columns new)) t))"
proof -
  have "run_steps new (survivor_steps u old (ta_columns new) 8) t
      = Some (put_columns (map (settled_draft_column u old) (ta_columns new)) t)"
    using comment_columns_phase [OF plannableD(1) [OF assms(1)] assms(2)] .
  then show ?thesis
    by (cases "ta_comment old = ta_comment new"; cases "ta_options old = ta_options new")
       (simp_all add: steps_by_phase run_steps_append apply_step.simps option_changes_Nil_iff Let_def
         described_def same_updates)
qed

text \<open>The whole plan.\<close>

lemma run_plan:
  assumes ok: "plannable u old new"
  shows "\<exists>t. run_steps new (concat (map (phase_steps u old new) [1..<9])) old
      = Some (described old new (added_stage (final_foreign_keys u old new) old new t
          (map (settled_draft_column u old) (ta_columns new))))
    \<and> t = (if ta_name old = ta_name new then old else old\<lparr>ta_name := ta_name new\<rparr>)"
proof -
  let ?t = "if ta_name old = ta_name new then old else old\<lparr>ta_name := ta_name new\<rparr>"
  have origins: "co_origin ` set (map (placed_column u old) (ta_columns new)) = co_origin ` set (ta_columns new)"
    by (simp add: image_image placed_column_origin [OF plannableD(1) [OF ok]])
  have phases: "[1..<9] = [1, 2, 3, 4, 5, 6, 7, 8 :: nat]" by (simp add: upt_rec)
  show ?thesis
    unfolding phases
    by (simp add: run_steps_append phase_1 [OF ok] phase_2 [OF ok] phase_3 [OF ok] phase_4 [OF ok]
        phase_5 [OF ok] phase_6 [OF ok origins] phase_7 [OF ok origins] phase_8 [OF ok]
        del: One_nat_def list.set_map map_append filter.simps)
qed


section \<open>Validated drafts can be planned\<close>

lemma known_existing:
  "known_origin old object x \<Longrightarrow> \<not> is_new x \<Longrightarrow> (object, x) \<in> set (all_origins old)"
  by (cases object)
     (auto simp: known_origin_def all_origins_def column_of_None_iff list_ex_iff foreign_key_of_def
       check_of_def index_of_def image_iff split: option.splits dest!: find_map_Some)

lemma distinct_origins:
  assumes "origins_ok old next_id os" "distinct (map snd (all_origins old))"
  shows "distinct (map snd os)"
proof -
  have "inj_on snd (set os)"
  proof (rule inj_onI)
    fix a b assume ab: "a \<in> set os" "b \<in> set os" "snd a = snd b"
    show "a = b"
    proof (cases "is_new (snd a)")
      case True
      have "distinct (map snd (filter (\<lambda>a. is_new (snd a)) os))"
        using assms(1) by (simp add: origins_ok_def filter_map comp_def)
      then have "inj_on snd (set (filter (\<lambda>a. is_new (snd a)) os))" by (simp only: distinct_map)
      then show ?thesis using True ab by (auto dest: inj_onD)
    next
      case False
      then have "a \<in> set (all_origins old)" "b \<in> set (all_origins old)"
        using assms(1) ab known_existing [of old]
        by (auto simp: origins_ok_def list_all_iff split_paired_all)
      then show ?thesis using assms(2) ab(3) by (auto simp: distinct_map dest: inj_onD)
    qed
  qed
  then show ?thesis using assms(1) by (simp add: distinct_map origins_ok_def)
qed

definition origins_of :: "schema_object \<Rightarrow> table_model \<Rightarrow> origin list" where
  "origins_of object t =
     (case object of
        TableObject \<Rightarrow> []
      | ColumnObject \<Rightarrow> map co_origin (ta_columns t)
      | PrimaryKeyObject \<Rightarrow> map ke_origin (primary_keys t)
      | UniqueObject \<Rightarrow> map ke_origin (ta_uniques t)
      | ForeignKeyObject \<Rightarrow> map fk_origin (ta_foreign_keys t)
      | CheckObject \<Rightarrow> map ck_origin (ta_checks t)
      | IndexObject \<Rightarrow> map ix_origin (ta_indexes t))"

lemma all_origins_iff: "(object, x) \<in> set (all_origins t) \<longleftrightarrow> x \<in> set (origins_of object t)"
  by (cases object) (auto simp: all_origins_def origins_of_def primary_keys_def)

lemma origins_of_distinct: "distinct (map snd (all_origins t)) \<Longrightarrow> distinct (origins_of object t)"
  by (cases object) (simp_all add: all_origins_def origins_of_def primary_keys_def comp_def)

lemma slots_ok:
  assumes "origins_ok old next_id (all_origins new)" "distinct (map snd (all_origins old))"
    and "list_all (\<lambda>(object, x). \<not> is_new x) (all_origins old)"
  shows "columns_ok old new"
    "objects_ok ke_origin (primary_keys old) (primary_keys new)"
    "objects_ok ke_origin (ta_uniques old) (ta_uniques new)"
    "objects_ok fk_origin (ta_foreign_keys old) (ta_foreign_keys new)"
    "objects_ok ck_origin (ta_checks old) (ta_checks new)"
    "objects_ok ix_origin (ta_indexes old) (ta_indexes new)"
proof -
  have slot: "objects_ok f xs ys"
    if "origins_of object old = map f xs" "origins_of object new = map f ys" for f :: "'a \<Rightarrow> origin" and xs ys object
  proof -
    have "distinct (map f xs)" "distinct (map f ys)"
      using origins_of_distinct [OF assms(2), of object] that
        origins_of_distinct [OF distinct_origins [OF assms(1,2)], of object] by simp_all
    moreover have "\<not> is_new x" if "x \<in> set (origins_of object old)" for x
      using assms(3) that by (auto simp: list_all_iff simp flip: all_origins_iff)
    moreover have "is_new x \<or> x \<in> set (origins_of object old)" if "x \<in> set (origins_of object new)" for x
      using assms(1) known_existing [of old object x] that
      by (auto simp: origins_ok_def list_all_iff simp flip: all_origins_iff)
    ultimately show ?thesis using that by (auto simp: objects_ok_def)
  qed
  show "columns_ok old new"
    unfolding columns_objects_ok by (rule slot [of ColumnObject]) (simp_all add: origins_of_def)
  show "objects_ok ke_origin (primary_keys old) (primary_keys new)"
    by (rule slot [of PrimaryKeyObject]) (simp_all add: origins_of_def)
  show "objects_ok ke_origin (ta_uniques old) (ta_uniques new)"
    by (rule slot [of UniqueObject]) (simp_all add: origins_of_def)
  show "objects_ok fk_origin (ta_foreign_keys old) (ta_foreign_keys new)"
    by (rule slot [of ForeignKeyObject]) (simp_all add: origins_of_def)
  show "objects_ok ck_origin (ta_checks old) (ta_checks new)"
    by (rule slot [of CheckObject]) (simp_all add: origins_of_def)
  show "objects_ok ix_origin (ta_indexes old) (ta_indexes new)"
    by (rule slot [of IndexObject]) (simp_all add: origins_of_def)
qed


lemma name_cleared_iff:
  assumes "distinct (map snd (all_origins t))"
  shows "k \<in> set (table_keys t) \<Longrightarrow> name_cleared t (ke_origin k) \<longleftrightarrow> ke_name k = None"
    and "f \<in> set (ta_foreign_keys t) \<Longrightarrow> name_cleared t (fk_origin f) \<longleftrightarrow> fk_name f = None"
    and "c \<in> set (ta_checks t) \<Longrightarrow> name_cleared t (ck_origin c) \<longleftrightarrow> ck_name c = None"
proof -
  have "distinct (map ke_origin (table_keys t) @ map fk_origin (ta_foreign_keys t)
      @ map ck_origin (ta_checks t))"
    using assms by (simp add: all_origins_def table_keys_def comp_def Int_Un_distrib Int_Un_distrib2)
  then have keys: "distinct (map ke_origin (table_keys t))" "distinct (map fk_origin (ta_foreign_keys t))"
    "distinct (map ck_origin (ta_checks t))"
    and apart: "ke_origin ` set (table_keys t) \<inter> fk_origin ` set (ta_foreign_keys t) = {}"
      "ke_origin ` set (table_keys t) \<inter> ck_origin ` set (ta_checks t) = {}"
      "fk_origin ` set (ta_foreign_keys t) \<inter> ck_origin ` set (ta_checks t) = {}"
    by (simp_all add: Int_Un_distrib)
  show "name_cleared t (ke_origin k) \<longleftrightarrow> ke_name k = None" if "k \<in> set (table_keys t)"
    using find_distinct [OF keys(1) that] by (simp add: name_cleared_def key_of_def or_else_def)
  show "name_cleared t (fk_origin f) \<longleftrightarrow> fk_name f = None" if f: "f \<in> set (ta_foreign_keys t)"
  proof -
    have "key_of t (fk_origin f) = None" using apart(1) f by (force simp: key_of_def find_eq_None)
    then show ?thesis
      using find_distinct [OF keys(2) f] by (simp add: name_cleared_def foreign_key_of_def or_else_def)
  qed
  show "name_cleared t (ck_origin c) \<longleftrightarrow> ck_name c = None" if c: "c \<in> set (ta_checks t)"
  proof -
    have "key_of t (ck_origin c) = None" "foreign_key_of t (ck_origin c) = None"
      using apart(2,3) c by (force simp: key_of_def foreign_key_of_def find_eq_None)+
    then show ?thesis
      using find_distinct [OF keys(3) c] by (simp add: name_cleared_def check_of_def or_else_def)
  qed
qed

lemma names_kept:
  assumes "lost_name_issues old new = []" "distinct (map snd (all_origins new))"
  shows "p \<in> set (table_keys old) \<Longrightarrow> k \<in> set (table_keys new) \<Longrightarrow> ke_origin p = ke_origin k \<Longrightarrow>
      ke_name k = None \<Longrightarrow> ke_name p = None"
    and "f \<in> set (ta_foreign_keys old) \<Longrightarrow> f' \<in> set (ta_foreign_keys new) \<Longrightarrow> fk_origin f = fk_origin f' \<Longrightarrow>
      fk_name f' = None \<Longrightarrow> fk_name f = None"
    and "c \<in> set (ta_checks old) \<Longrightarrow> c' \<in> set (ta_checks new) \<Longrightarrow> ck_origin c = ck_origin c' \<Longrightarrow>
      ck_name c' = None \<Longrightarrow> ck_name c = None"
proof -
  have "\<forall>(object, x, named)\<in>set (old_names old). \<not> (named \<and> name_cleared new x)"
    using assms(1) by (auto simp: lost_name_issues_def)
  then have kept: "\<not> name_cleared new x" if "(object, x, True) \<in> set (old_names old)" for object x
    using that by blast
  show "ke_name p = None" if "p \<in> set (table_keys old)" "k \<in> set (table_keys new)"
    "ke_origin p = ke_origin k" "ke_name k = None"
  proof (rule ccontr)
    assume "ke_name p \<noteq> None"
    then have "(UniqueObject, ke_origin p, True) \<in> set (old_names old)"
      using that(1) by (auto simp: old_names_def image_iff)
    then show False using kept name_cleared_iff(1) [OF assms(2) that(2)] that(3,4) by simp
  qed
  show "fk_name f = None" if "f \<in> set (ta_foreign_keys old)" "f' \<in> set (ta_foreign_keys new)"
    "fk_origin f = fk_origin f'" "fk_name f' = None"
  proof (rule ccontr)
    assume "fk_name f \<noteq> None"
    then have "(ForeignKeyObject, fk_origin f, True) \<in> set (old_names old)"
      using that(1) by (auto simp: old_names_def image_iff)
    then show False using kept name_cleared_iff(2) [OF assms(2) that(2)] that(3,4) by simp
  qed
  show "ck_name c = None" if "c \<in> set (ta_checks old)" "c' \<in> set (ta_checks new)"
    "ck_origin c = ck_origin c'" "ck_name c' = None"
  proof (rule ccontr)
    assume "ck_name c \<noteq> None"
    then have "(CheckObject, ck_origin c, True) \<in> set (old_names old)"
      using that(1) by (auto simp: old_names_def image_iff)
    then show False using kept name_cleared_iff(3) [OF assms(2) that(2)] that(3,4) by simp
  qed
qed

lemma slots_settle:
  assumes "lost_name_issues old new = []" "distinct (map snd (all_origins new))"
  shows "settles ke_origin copy_key_name key_redefined key_renames (primary_keys old) (primary_keys new)"
    "settles ke_origin copy_key_name key_redefined key_renames (ta_uniques old) (ta_uniques new)"
    "settles fk_origin (\<lambda>k p. p\<lparr>fk_name := fk_name k\<rparr>) (foreign_key_redefined u old new)
       foreign_key_renames (ta_foreign_keys old) (ta_foreign_keys new)"
    "settles ck_origin (\<lambda>c p. p\<lparr>ck_name := ck_name c\<rparr>) check_redefined check_renames
       (ta_checks old) (ta_checks new)"
    "settles ix_origin (\<lambda>i p. p\<lparr>ix_name := ix_name i\<rparr>) index_redefined index_renames
       (ta_indexes old) (ta_indexes new)"
proof -
  note kept = names_kept [OF assms]
  have key: "(if key_renames p k then copy_key_name k p else p) = k"
    if "p \<in> set (table_keys old)" "k \<in> set (table_keys new)" "ke_origin p = ke_origin k"
      "\<not> key_redefined p k" for p k
  proof -
    have "key_renames p k \<or> ke_name p = ke_name k"
      using kept(1) [OF that(1-3)] by (cases "ke_name p"; cases "ke_name k") (auto simp: key_renames_def renames_to_def)
    moreover have "ke_columns p = ke_columns k" using that(4) by (simp add: key_redefined_def)
    ultimately show ?thesis using that(3) by (intro key_model.equality) (auto simp: copy_key_name_def)
  qed
  show "settles ke_origin copy_key_name key_redefined key_renames (primary_keys old) (primary_keys new)"
    "settles ke_origin copy_key_name key_redefined key_renames (ta_uniques old) (ta_uniques new)"
    using key by (auto simp: settles_def table_keys_def primary_keys_def)
  show "settles fk_origin (\<lambda>k p. p\<lparr>fk_name := fk_name k\<rparr>) (foreign_key_redefined u old new)
      foreign_key_renames (ta_foreign_keys old) (ta_foreign_keys new)"
    unfolding settles_def
  proof (intro ballI impI)
    fix p k assume pk: "p \<in> set (ta_foreign_keys old)" "k \<in> set (ta_foreign_keys new)"
      "fk_origin p = fk_origin k" "\<not> foreign_key_redefined u old new p k"
    have "foreign_key_renames p k \<or> fk_name p = fk_name k"
      using kept(2) [OF pk(1-3)] by (cases "fk_name p"; cases "fk_name k") (auto simp: foreign_key_renames_def renames_to_def)
    then show "(if foreign_key_renames p k then p\<lparr>fk_name := fk_name k\<rparr> else p) = k"
      using pk(3,4) by (intro foreign_key_model.equality)
        (auto simp: foreign_key_redefined_def foreign_key_definition_changed_def reference_differs_def)
  qed
  show "settles ck_origin (\<lambda>c p. p\<lparr>ck_name := ck_name c\<rparr>) check_redefined check_renames
      (ta_checks old) (ta_checks new)"
    unfolding settles_def
  proof (intro ballI impI)
    fix p c assume pc: "p \<in> set (ta_checks old)" "c \<in> set (ta_checks new)"
      "ck_origin p = ck_origin c" "\<not> check_redefined p c"
    have "check_renames p c \<or> ck_name p = ck_name c"
      using kept(3) [OF pc(1-3)] by (cases "ck_name p"; cases "ck_name c") (auto simp: check_renames_def renames_to_def)
    then show "(if check_renames p c then p\<lparr>ck_name := ck_name c\<rparr> else p) = c"
      using pc(3,4) by (intro check_model.equality) (auto simp: check_redefined_def)
  qed
  show "settles ix_origin (\<lambda>i p. p\<lparr>ix_name := ix_name i\<rparr>) index_redefined index_renames
      (ta_indexes old) (ta_indexes new)"
    unfolding settles_def
  proof (intro ballI impI)
    fix p i assume "ix_origin p = ix_origin i" "\<not> index_redefined p i"
    then show "(if index_renames p i then p\<lparr>ix_name := ix_name i\<rparr> else p) = i"
      by (intro index_model.equality) (auto simp: index_redefined_def index_renames_def)
  qed
qed

lemma validated_plannable:
  assumes "baseline_ok b" "validate u b d = Some []"
  shows "plannable u (sb_table b) (dr_table d)"
proof -
  have inv: "draft_inv (sb_table b) d" using validated_draft [OF assms(2)] by simp
  have shape: "shape_issues u b d = []" using assms(2) by (auto simp: validate_def)
  have origins: "origins_ok (sb_table b) (dr_next_id d) (all_origins (dr_table d))"
    using inv by (simp add: draft_inv_def)
  have old: "distinct (map snd (all_origins (sb_table b)))"
    "list_all (\<lambda>(object, x). \<not> is_new x) (all_origins (sb_table b))"
    using assms(1) by (simp_all add: baseline_ok_def)
  have "lost_name_issues (sb_table b) (dr_table d) = []" "ta_schema (sb_table b) = ta_schema (dr_table d)"
    using shape by (simp_all add: shape_issues_def Let_def table_issues_def)
  then show ?thesis
    using slots_ok [OF origins old] slots_settle distinct_origins [OF origins old(1)] inv
    by (simp add: plannable_def draft_inv_def)
qed

section \<open>The plan reaches the draft\<close>

text \<open>
  \<open>reaches u old new t\<close>: table \<open>t\<close> is the draft's \<open>new\<close>.  Columns stand in the draft's order, a column
  whose type text differs only in case or spacing keeps its captured text, and the order within a
  kind of constraint is not fixed.
\<close>

definition reaches :: "unicode \<Rightarrow> table_model \<Rightarrow> table_model \<Rightarrow> table_model \<Rightarrow> bool" where
  "reaches u old new t \<longleftrightarrow>
     ta_schema t = ta_schema new \<and> ta_name t = ta_name new \<and> ta_comment t = ta_comment new
     \<and> ta_options t = ta_options new \<and> ta_primary_key t = ta_primary_key new
     \<and> ta_columns t = map (settled_draft_column u old) (ta_columns new)
     \<and> mset (ta_uniques t) = mset (ta_uniques new)
     \<and> mset (ta_foreign_keys t) = mset (ta_foreign_keys new)
     \<and> mset (ta_checks t) = mset (ta_checks new) \<and> mset (ta_indexes t) = mset (ta_indexes new)"

lemma described_simps [simp]:
  "ta_comment old = ta_comment t \<Longrightarrow> ta_comment (described old new t) = ta_comment new"
  "ta_options old = ta_options t \<Longrightarrow> ta_options (described old new t) = ta_options new"
  "ta_schema (described old new t) = ta_schema t" "ta_name (described old new t) = ta_name t"
  "ta_primary_key (described old new t) = ta_primary_key t"
  "ta_columns (described old new t) = ta_columns t" "ta_uniques (described old new t) = ta_uniques t"
  "ta_foreign_keys (described old new t) = ta_foreign_keys t"
  "ta_checks (described old new t) = ta_checks t" "ta_indexes (described old new t) = ta_indexes t"
  by (simp_all add: described_def)

lemma final_items_mset:
  "objects_ok origin old new \<Longrightarrow> settles origin copy redefined renames old new \<Longrightarrow>
     mset (final_items origin copy redefined renames old new) = mset new"
  unfolding final_items_def by (rule settled(1))

lemma ta_primary_key_stage:
  "mset ps = mset (primary_keys new) \<Longrightarrow> ta_primary_key (stage t cs ps us fs ks is) = ta_primary_key new"
  by (cases "ta_primary_key new"; cases ps) (auto simp: stage_def primary_keys_def)

lemma plannable_reaches:
  assumes ok: "plannable u old new"
  shows "\<exists>t. run_steps new (concat (map (phase_steps u old new) [1..<9])) old = Some t
    \<and> reaches u old new t"
proof -
  define t0 where "t0 = (if ta_name old = ta_name new then old else old\<lparr>ta_name := ta_name new\<rparr>)"
  have "run_steps new (concat (map (phase_steps u old new) [1..<9])) old
      = Some (described old new (added_stage (final_foreign_keys u old new) old new t0
          (map (settled_draft_column u old) (ta_columns new))))"
    using run_plan [OF ok] by (simp add: t0_def)
  moreover have "ta_name t0 = ta_name new" "ta_comment t0 = ta_comment old" "ta_options t0 = ta_options old"
    "ta_schema t0 = ta_schema new"
    using ok by (simp_all add: t0_def plannable_def)
  ultimately show ?thesis
    by (simp add: reaches_def ta_primary_key_stage final_items_mset plannableD [OF ok])
qed


text \<open>The draft of the witness: a column added in front, another removed with its index.\<close>

definition sample_draft :: schema_draft where
  "sample_draft =
     snd (move_column (New 1) 0 (snd (remove_column (Existing 2)
       (snd (add_column ''c'' ''int'' (from_baseline sample_baseline))))))"


text \<open>A table that references its own key, and a draft that removes the key and the reference.\<close>

definition self_reference :: schema_baseline where
  "self_reference =
     sample_baseline\<lparr>sb_table := sample_table\<lparr>ta_foreign_keys :=
       [\<lparr>fk_origin = Existing 5, fk_name = Some ''f'', fk_columns = [Existing 1],
         fk_referenced_schema = Some ''s'', fk_referenced_table = ''t'', fk_referenced_columns = [''a''],
         fk_on_update = NoAction, fk_on_delete = NoAction, fk_deferrable = NeverDeferred\<rparr>]\<rparr>\<rparr>"

definition keyless_draft :: schema_draft where
  "keyless_draft = (from_baseline self_reference)\<lparr>dr_table :=
     sample_table\<lparr>ta_primary_key := None\<rparr>\<rparr>"

text \<open>
  within the first phase a plan drops the primary key and the unique constraints before any
  foreign key.  For a table that references its own key, a draft that removes both is planned as
  the drop of the key, which the server refuses while the foreign key stands, and then the drop of
  the foreign key.
\<close>

lemma plans_drop_keys_first:
  "(\<exists>ps us fs cs is. filter (\<lambda>s. phase s = 1) (plan_steps u b d)
      = map DropPrimaryKey ps @ map DropUnique us @ map DropForeignKey fs @ map DropCheck cs @ map DropIndex is)
    \<and> validate sample_unicode self_reference keyless_draft = Some []
    \<and> plan_steps sample_unicode self_reference keyless_draft = [DropPrimaryKey 3, DropForeignKey 5]"
proof (intro conjI)
  show "\<exists>ps us fs cs is. filter (\<lambda>s. phase s = 1) (plan_steps u b d)
      = map DropPrimaryKey ps @ map DropUnique us @ map DropForeignKey fs @ map DropCheck cs @ map DropIndex is"
    unfolding plan_steps_def
    by (simp add: sort_key_stable steps_by_phase survivor_steps_def) blast
qed code_simp+

end
