(* ===== verification/SchemaReview.thy ===== *)
theory SchemaReview imports SchemaRefine begin

text \<open>
  The review and the plan agree: what \<open>diff\<close> lists and what \<open>plan_steps\<close> runs are empty together.
\<close>

section \<open>Objects\<close>

lemma object_changes_Nil_iff:
  "object_changes pair add remove (pairs, added, removed) = []
     \<longleftrightarrow> (\<forall>q\<in>set pairs. pair q = []) \<and> added = [] \<and> removed = []"
  by (auto simp: object_changes_def)

lemma object_steps_Nil_iff:
  assumes "objects_ok origin old new" "match_objects origin old new = (pairs, added, removed)"
  shows "object_steps origin drop' add object redefined renames old new = []
    \<longleftrightarrow> (\<forall>(p, x)\<in>set pairs. \<not> redefined p x \<and> \<not> renames p x) \<and> added = [] \<and> removed = []"
proof -
  note sets = match_objects_sets [OF assms]
  have "pair_steps origin drop' add object redefined renames (p, x) = []
      \<longleftrightarrow> \<not> redefined p x \<and> \<not> renames p x" if "(p, x) \<in> set pairs" for p x
    using pairs_existing [of p x origin old new] that by (auto simp: pair_steps_def assms(2) split: if_splits)
  moreover have "drop_removed origin drop' removed = [] \<longleftrightarrow> removed = []"
  proof -
    have "(case existing (origin p) of None \<Rightarrow> [] | Some n \<Rightarrow> [drop' n]) \<noteq> []" if "p \<in> set removed" for p
      using existing_old [OF assms(1), of p] that by (auto simp: sets(3))
    then show ?thesis by (cases removed) (auto simp: drop_removed_def)
  qed
  ultimately show ?thesis by (auto simp: object_steps_def assms(2))
qed

text \<open>One kind: the changes and the steps are empty together when they are for every pair.\<close>

lemma slot_agrees:
  assumes ok: "objects_ok origin old new"
    and pairs: "\<And>p x. p \<in> set old \<Longrightarrow> x \<in> set new \<Longrightarrow> origin p = origin x \<Longrightarrow>
      pair (p, x) = [] \<longleftrightarrow> \<not> redefined p x \<and> \<not> renames p x"
  shows "object_changes pair add' remove (match_objects origin old new) = []
    \<longleftrightarrow> object_steps origin drop' add object redefined renames old new = []"
proof -
  obtain ps added removed where m: "match_objects origin old new = (ps, added, removed)"
    by (cases "match_objects origin old new")
  have "pair q = [] \<longleftrightarrow> (case q of (p, x) \<Rightarrow> \<not> redefined p x \<and> \<not> renames p x)" if "q \<in> set ps" for q
  proof (cases q)
    case (Pair p x)
    then show ?thesis using that pairs [of p x] by (simp add: match_objects_sets(1) [OF ok m])
  qed
  then show ?thesis
    unfolding m object_changes_Nil_iff object_steps_Nil_iff [OF ok m] by auto
qed

lemma settles_pair:
  assumes "settles origin copy redefined renames old new" "p \<in> set old" "x \<in> set new"
    "origin p = origin x" "\<not> redefined p x" "\<not> renames p x"
  shows "p = x"
  using assms by (fastforce simp: settles_def)

lemma key_slot_agrees:
  assumes "objects_ok ke_origin ps qs" "settles ke_origin copy_key_name key_redefined key_renames ps qs"
  shows "key_changes object old new ps qs = []
    \<longleftrightarrow> object_steps ke_origin drop' add object' key_redefined key_renames ps qs = []"
  unfolding key_changes_def
proof (rule slot_agrees [OF assms(1)])
  fix p k assume "p \<in> set ps" "k \<in> set qs" "ke_origin p = ke_origin k"
  then show "key_pair_changes object old new (p, k) = [] \<longleftrightarrow> \<not> key_redefined p k \<and> \<not> key_renames p k"
    using settles_pair [OF assms(2)]
    by (auto simp: key_pair_changes_def rename_changes_def key_redefined_def key_renames_def
        renames_to_def Let_def)
qed

lemma foreign_key_slot_agrees:
  assumes "objects_ok fk_origin (ta_foreign_keys old) (ta_foreign_keys new)"
    and "settles fk_origin (\<lambda>k p. p\<lparr>fk_name := fk_name k\<rparr>) (foreign_key_redefined u old new)
       foreign_key_renames (ta_foreign_keys old) (ta_foreign_keys new)"
    and "retyped u old new = []"
  shows "foreign_key_changes old new = [] \<longleftrightarrow> foreign_key_steps u old new = []"
  unfolding foreign_key_changes_def foreign_key_steps_def
proof (rule slot_agrees [OF assms(1)])
  fix p k assume "p \<in> set (ta_foreign_keys old)" "k \<in> set (ta_foreign_keys new)" "fk_origin p = fk_origin k"
  then show "foreign_key_pair_changes old new (p, k) = []
      \<longleftrightarrow> \<not> foreign_key_redefined u old new p k \<and> \<not> foreign_key_renames p k"
    using settles_pair [OF assms(2)] assms(3)
    by (auto simp: foreign_key_pair_changes_def rename_changes_def foreign_key_redefined_def Let_def
        foreign_key_definition_changed_def foreign_key_renames_def renames_to_def list_ex_iff
        reference_differs_def)
qed

lemma check_slot_agrees:
  assumes "objects_ok ck_origin (ta_checks old) (ta_checks new)"
    and "settles ck_origin (\<lambda>c p. p\<lparr>ck_name := ck_name c\<rparr>) check_redefined check_renames
       (ta_checks old) (ta_checks new)"
  shows "check_changes old new = [] \<longleftrightarrow> check_steps old new = []"
  unfolding check_changes_def check_steps_def
proof (rule slot_agrees [OF assms(1)])
  fix p c assume "p \<in> set (ta_checks old)" "c \<in> set (ta_checks new)" "ck_origin p = ck_origin c"
  then show "check_pair_changes (p, c) = [] \<longleftrightarrow> \<not> check_redefined p c \<and> \<not> check_renames p c"
    using settles_pair [OF assms(2)]
    by (auto simp: check_pair_changes_def rename_changes_def check_redefined_def Let_def
        check_renames_def renames_to_def)
qed

lemma index_slot_agrees:
  assumes "objects_ok ix_origin (ta_indexes old) (ta_indexes new)"
  shows "index_changes old new = [] \<longleftrightarrow> index_steps old new = []"
  unfolding index_changes_def index_steps_def
  by (rule slot_agrees [OF assms])
     (auto simp: index_pair_changes_def index_redefined_def index_renames_def Let_def)

section \<open>Columns and the table\<close>

lemma table_agrees: "table_changes old new = [] \<longleftrightarrow> table_steps old new = []"
  by (simp add: table_changes_def table_steps_def Let_def)

lemma surviving_Nil_iff:
  "surviving_column_changes u engine old new moved p c = []
     \<longleftrightarrow> co_name p = co_name c \<and> column_field_changes u p c = [] \<and> co_comment p = co_comment c
       \<and> co_origin c \<notin> set moved"
  by (auto simp: surviving_column_changes_def column_field_changes_def Let_def)

lemma moved_columns_survive:
  assumes "columns_ok old new"
  shows "set (moved_columns old new) \<subseteq> co_origin ` set (ta_columns new)"
proof -
  have "set (moved_columns old new) \<subseteq> set (order_after new)"
    using moved_in_ok [OF orders_ok [OF assms]] by (auto simp: moved_columns_eq [OF assms])
  then show ?thesis by (auto simp: order_after_def)
qed

lemma not_new_before_existing:
  "list_all (\<lambda>c. \<not> is_new (co_origin c)) cs \<Longrightarrow> \<not> new_before_existing False cs"
  by (induction cs) auto

lemma column_changes_Nil_iff:
  "column_changes u engine old new = [] \<longleftrightarrow>
     (\<forall>c\<in>set (ta_columns new). \<exists>p. previous_column old c = Some p \<and> co_name p = co_name c
        \<and> column_field_changes u p c = [] \<and> co_comment p = co_comment c
        \<and> co_origin c \<notin> set (moved_columns old new))
     \<and> (\<forall>c\<in>set (ta_columns old). column_of new (co_origin c) \<noteq> None)"
  by (auto simp: column_changes_def Let_def surviving_Nil_iff split: option.splits)

lemma columns_agree:
  assumes ok: "columns_ok old new"
  shows "column_changes u engine old new = [] \<longleftrightarrow> column_steps u old new = []"
proof -
  have steps: "column_steps_of u old c = [] \<longleftrightarrow> (\<exists>p. previous_column old c = Some p
      \<and> co_name p = co_name c \<and> column_field_changes u p c = [] \<and> co_comment p = co_comment c)"
    if "c \<in> set (ta_columns new)" for c
  proof (cases "previous_column old c")
    case (Some p)
    then have "p \<in> set (ta_columns old)" "co_origin p = co_origin c"
      by (simp_all add: previous_column_iff [OF ok])
    then obtain n where "existing (co_origin c) = Some n"
      using existing_old [OF ok [unfolded columns_objects_ok], of p] by auto
    then show ?thesis using Some
      by (auto simp: column_steps_of_def surviving_column_steps_def Let_def)
  qed (simp add: column_steps_of_def)
  have one: "(if column_of new (co_origin c) = None
      then case existing (co_origin c) of None \<Rightarrow> [] | Some n \<Rightarrow> [DropColumn n] else []) = []
      \<longleftrightarrow> column_of new (co_origin c) \<noteq> None" if "c \<in> set (ta_columns old)" for c
    using existing_old [OF ok [unfolded columns_objects_ok] that] by auto
  have drops: "concat (map (\<lambda>c. if column_of new (co_origin c) = None
      then case existing (co_origin c) of None \<Rightarrow> [] | Some n \<Rightarrow> [DropColumn n] else []) (ta_columns old)) = []
      \<longleftrightarrow> (\<forall>c\<in>set (ta_columns old). column_of new (co_origin c) \<noteq> None)"
    unfolding concat_eq_Nil_conv set_map ball_simps using one by blast
  have order: "\<not> columns_reordered old new \<longleftrightarrow> moved_columns old new = []"
    if "\<forall>c\<in>set (ta_columns new). \<exists>p. previous_column old c = Some p"
  proof -
    have "list_all (\<lambda>c. \<not> is_new (co_origin c)) (ta_columns new)"
      using that by (fastforce simp: list_all_iff previous_column_def split: if_splits)
    then show ?thesis using not_new_before_existing by (auto simp: columns_reordered_def)
  qed
  have moved: "moved_columns old new = []
      \<longleftrightarrow> (\<forall>c\<in>set (ta_columns new). co_origin c \<notin> set (moved_columns old new))"
    using moved_columns_survive [OF ok] by (cases "moved_columns old new") auto
  have "column_steps u old new = [] \<longleftrightarrow>
      (\<forall>c\<in>set (ta_columns new). column_steps_of u old c = [])
      \<and> (\<forall>c\<in>set (ta_columns old). column_of new (co_origin c) \<noteq> None) \<and> \<not> columns_reordered old new"
    unfolding column_steps_def append_is_Nil_conv drops by auto
  then show ?thesis
    unfolding column_changes_Nil_iff using steps order moved by (metis (no_types, lifting))
qed

lemma retyped_Nil:
  assumes "columns_ok old new" "column_changes u engine old new = []"
  shows "retyped u old new = []"
proof -
  have "\<not> (case column_of old (co_origin c) of None \<Rightarrow> False
      | Some p \<Rightarrow> \<not> types_equal u (co_data_type p) (co_data_type c) \<or> co_collation p \<noteq> co_collation c)"
    if c: "c \<in> set (ta_columns new)" for c
  proof -
    obtain p where p: "previous_column old c = Some p" "column_field_changes u p c = []"
      using assms(2) c unfolding column_changes_Nil_iff by blast
    then have "column_of old (co_origin c) = Some p" by (simp add: previous_column_def split: if_splits)
    with p(2) show ?thesis by (simp add: column_field_changes_def)
  qed
  then show ?thesis by (simp add: retyped_def filter_empty_conv)
qed

lemma plannable_agrees:
  assumes ok: "plannable u (sb_table b) (dr_table d)"
  shows "diff u b d = [] \<longleftrightarrow> unsorted_steps u (sb_table b) (dr_table d) = []"
proof -
  note p = plannableD [OF ok]
  let ?old = "sb_table b" and ?new = "dr_table d"
  have "diff u b d = [] \<longleftrightarrow> table_steps ?old ?new = [] \<and> column_steps u ?old ?new = []
      \<and> primary_key_steps ?old ?new = [] \<and> unique_steps ?old ?new = []
      \<and> foreign_key_changes ?old ?new = [] \<and> check_steps ?old ?new = [] \<and> index_steps ?old ?new = []"
    unfolding diff_def Let_def append_is_Nil_conv primary_key_steps_def unique_steps_def
      table_agrees columns_agree [OF p(1)] check_slot_agrees [OF p(6,11)] index_slot_agrees [OF p(7)]
      key_slot_agrees [OF p(3,8), where drop' = DropPrimaryKey and add = AddPrimaryKey
        and object' = PrimaryKeyObject, unfolded primary_keys_def]
      key_slot_agrees [OF p(4,9), where drop' = DropUnique and add = AddUnique and object' = UniqueObject] ..
  moreover have "column_steps u ?old ?new = [] \<Longrightarrow>
      foreign_key_changes ?old ?new = [] \<longleftrightarrow> foreign_key_steps u ?old ?new = []"
    using foreign_key_slot_agrees [OF p(5,10)] retyped_Nil [OF p(1)] columns_agree [OF p(1)] by blast
  ultimately show ?thesis by (auto simp: unsorted_steps_def)
qed

text \<open>
  C34: the review and the plan agree on whether there is anything to do.  For a draft that validation
  lets through, \<open>diff\<close> lists no change exactly when \<open>plan_steps\<close> has no step, and then the captured
  table already is the draft.
\<close>

theorem nothing_listed_nothing_run:
  assumes "baseline_ok b" "validate u b d = Some []"
  shows "(diff u b d = [] \<longleftrightarrow> plan_steps u b d = [])
    \<and> (diff u b d = [] \<longrightarrow> reaches u (sb_table b) (dr_table d) (sb_table b))"
proof -
  have ok: "plannable u (sb_table b) (dr_table d)" by (rule validated_plannable [OF assms])
  have "plan_steps u b d = [] \<longleftrightarrow> unsorted_steps u (sb_table b) (dr_table d) = []"
    unfolding plan_steps_def by (metis length_0_conv length_sort)
  moreover have "reaches u (sb_table b) (dr_table d) (sb_table b)"
    if "unsorted_steps u (sb_table b) (dr_table d) = []"
    using plannable_reaches [OF ok] that by (simp add: map_replicate_const)
  ultimately show ?thesis using plannable_agrees [OF ok] by blast
qed

lemma nothing_listed_nothing_run_witness:
  "plan_steps sample_unicode sample_baseline (from_baseline sample_baseline) = []
   \<and> diff sample_unicode sample_baseline sample_draft \<noteq> []"
proof -
  have "validate sample_unicode sample_baseline (from_baseline sample_baseline) = Some []"
    "diff sample_unicode sample_baseline (from_baseline sample_baseline) = []"
    "validate sample_unicode sample_baseline sample_draft = Some []"
    "plan_steps sample_unicode sample_baseline sample_draft \<noteq> []" by code_simp+
  then show ?thesis
    using nothing_listed_nothing_run [OF sample_baseline_ok, of sample_unicode] by blast
qed

end
