(* ===== verification/SchemaRebaseFacts.thy ===== *)
theory SchemaRebaseFacts imports SchemaRefine begin

text \<open>
  Rebase: the draft it returns is well-formed against the new baseline, an unedited draft becomes the
  server's table, and an unchanged server leaves the draft as it is.
\<close>

section \<open>Removing dangling references\<close>

lemma fold_drop_references:
  "fold drop_references xs d = d\<lparr>dr_table := fold drop_table_references xs (dr_table d)\<rparr>"
  by (induction xs arbitrary: d) (simp_all add: drop_references_def)

lemma fold_drop_table_references:
  "ta_columns (fold drop_table_references xs t) = ta_columns t"
  "mset (all_origins (fold drop_table_references xs t)) \<subseteq># mset (all_origins t)"
  "set (referenced_columns (fold drop_table_references xs t)) \<subseteq> set (referenced_columns t) - set xs"
proof (induction xs arbitrary: t)
  case (Cons x xs)
  { case 1 show ?case by (simp add: Cons(1)) }
  { case 2 show ?case
      using subset_mset.order_trans [OF Cons(2) [of "drop_table_references x t"]
          drop_table_references_origins] by simp }
  { case 3 show ?case
      using Cons(3) [of "drop_table_references x t"] drop_table_references_referenced [of x t] by auto }
qed simp_all

lemma dangling_removed: "dangling (fold drop_table_references (dangling t) t) = []"
proof -
  have "set (referenced_columns t) - set (dangling t) \<subseteq> co_origin ` set (ta_columns t)"
    by (auto simp: dangling_def column_of_None_iff)
  then show ?thesis
    using fold_drop_table_references(1,3) [where xs = "dangling t" and t = t]
    unfolding dangling_Nil_iff by auto
qed

section \<open>Origins of the merge\<close>

lemma merge_column_origin [simp]: "co_origin (fst (merge_column base server user)) = co_origin server"
  by (simp add: merge_column_def)

lemma lookup_None: "find (\<lambda>item. origin item = x) xs = None \<longleftrightarrow> x \<notin> origin ` set xs"
  by (auto simp: find_eq_None)

lemma lookup_Some: "find (\<lambda>item. origin item = x) xs = Some y \<Longrightarrow> y \<in> set xs \<and> origin y = x"
  by (drule find_map_Some) simp

lemma user_column_origin:
  "map co_origin (fst (rebase_user_column base server c))
    = (if is_new (co_origin c) \<or> co_origin c \<in> co_origin ` set (ta_columns base)
          \<and> co_origin c \<in> co_origin ` set (ta_columns server) then [co_origin c] else [])"
proof -
  have members: "x \<in> co_origin ` set (ta_columns t) \<longleftrightarrow> column_of t x \<noteq> None" for x t
    using column_of_None_iff by metis
  show ?thesis
    by (cases "column_of base (co_origin c)"; cases "column_of server (co_origin c)")
       (simp_all add: rebase_user_column_def members Let_def case_prod_beta column_of_SomeD)
qed

lemma user_column_origins:
  "map co_origin (concat (map (\<lambda>e. fst (rebase_user_column base server e)) cs))
    = filter (\<lambda>x. is_new x \<or> x \<in> co_origin ` set (ta_columns base) \<and> x \<in> co_origin ` set (ta_columns server))
        (map co_origin cs)"
  by (induction cs) (simp_all add: user_column_origin)

lemma server_column_origins:
  "map co_origin (concat (map (\<lambda>c. fst (rebase_server_column base user c)) cs))
    = filter (\<lambda>x. x \<notin> co_origin ` set (ta_columns base)) (map co_origin cs)"
  by (induction cs) (auto simp: rebase_server_column_def Let_def column_of_None_iff)

lemma server_object_origin:
  "map origin (fst (merge_server_object object origin label base user c))
    = (if origin c \<notin> origin ` set base \<or> origin c \<in> origin ` set user then [origin c] else [])"
proof (cases "find (\<lambda>item. origin item = origin c) base")
  case None
  moreover from None have "origin c \<notin> origin ` set base" by (simp only: lookup_None not_False_eq_True)
  ultimately show ?thesis by (simp add: merge_server_object_def)
next
  case (Some p)
  then have base: "origin c \<in> origin ` set base" using lookup_Some by (metis imageI)
  show ?thesis
  proof (cases "find (\<lambda>item. origin item = origin c) user")
    case None
    moreover from None have "origin c \<notin> origin ` set user" by (simp only: lookup_None not_False_eq_True)
    ultimately show ?thesis using Some base by (simp add: merge_server_object_def)
  next
    case user: (Some e)
    then have "origin e = origin c" "e \<in> set user" using lookup_Some by metis+
    moreover from this have "origin c \<in> origin ` set user" by (metis imageI)
    ultimately show ?thesis using Some user base by (simp add: merge_server_object_def)
  qed
qed

lemma server_object_origins:
  "map origin (concat (map (\<lambda>c. fst (merge_server_object object origin label base user c)) cs))
    = filter (\<lambda>x. x \<notin> origin ` set base \<or> x \<in> origin ` set user) (map origin cs)"
  by (induction cs) (simp_all add: server_object_origin)

lemma user_object_fst:
  "fst (merge_user_object object origin label base server e)
    = (if origin e \<notin> origin ` set server \<and> origin e \<notin> origin ` set base then [e] else [])"
  by (simp add: merge_user_object_def Let_def split: option.split flip: lookup_None)

lemma user_object_origins:
  "map origin (concat (map (\<lambda>e. fst (merge_user_object object origin label base server e)) es))
    = filter (\<lambda>x. x \<notin> origin ` set server \<and> x \<notin> origin ` set base) (map origin es)"
  by (induction es) (simp_all add: user_object_fst)

lemma merge_objects_origins:
  "map origin (fst (merge_objects object origin label base server user))
    = filter (\<lambda>x. x \<notin> origin ` set base \<or> x \<in> origin ` set user) (map origin server)
      @ filter (\<lambda>x. x \<notin> origin ` set server \<and> x \<notin> origin ` set base) (map origin user)"
  using server_object_origins [of origin object label base user server]
    user_object_origins [of origin object label base server user]
  by (simp add: merge_objects_def Let_def comp_def del: map_concat)


section \<open>The merge is well-formed\<close>

lemma all_origins_pairs:
  "all_origins t =
     map (Pair ColumnObject) (map co_origin (ta_columns t))
     @ map (Pair PrimaryKeyObject) (map ke_origin (as_slice (ta_primary_key t)))
     @ map (Pair UniqueObject) (map ke_origin (ta_uniques t))
     @ map (Pair ForeignKeyObject) (map fk_origin (ta_foreign_keys t))
     @ map (Pair CheckObject) (map ck_origin (ta_checks t))
     @ map (Pair IndexObject) (map ix_origin (ta_indexes t))"
  by (simp add: all_origins_def comp_def)

lemma filter_Pair: "filter (\<lambda>q. is_new (snd q)) (map (Pair k) xs) = map (Pair k) (filter is_new xs)"
  by (simp add: filter_map comp_def)

lemma merge_objects_subset:
  assumes "\<And>x. x \<in> set (map origin user) \<Longrightarrow> is_new x \<or> x \<in> origin ` set base"
  shows "mset (map origin (fst (merge_objects object origin label base server user)))
    \<subseteq># mset (map origin server) + mset (filter is_new (map origin user))"
proof -
  let ?q = "\<lambda>x. x \<notin> origin ` set server \<and> x \<notin> origin ` set base"
  have "filter ?q (map origin user) = filter ?q (filter is_new (map origin user))"
    unfolding filter_filter using assms by (intro filter_cong) auto
  then show ?thesis
    unfolding merge_objects_origins mset_append
    by (metis (no_types, lifting) mset_filter multiset_filter_subset subset_mset.add_mono)
qed

lemma mset_subset_distinct:
  assumes "distinct xs" "set xs \<subseteq> set ys"
  shows "mset xs \<subseteq># mset ys"
proof (rule mset_subset_eqI)
  fix a
  have "count (mset xs) a \<le> 1" using assms(1) unfolding distinct_count_le by blast
  moreover have "count (mset xs) a = 0 \<or> 1 \<le> count (mset ys) a"
    using assms(2) by (cases "a \<in> set xs") (auto simp: count_eq_zero_iff Suc_le_eq)
  ultimately show "count (mset xs) a \<le> count (mset ys) a" by linarith
qed

lemma mset_filter_or:
  "mset (filter (\<lambda>x. P x \<or> Q x) xs) = mset (filter P xs) + mset (filter (\<lambda>x. \<not> P x \<and> Q x) xs)"
  by (induction xs) auto

lemma rebase_columns_subset:
  assumes "distinct (map co_origin (ta_columns user))" "distinct (map co_origin (ta_columns server))"
  shows "mset (map co_origin (fst (rebase_columns base server user)))
    \<subseteq># mset (map co_origin (ta_columns server)) + mset (filter is_new (map co_origin (ta_columns user)))"
proof -
  let ?base = "co_origin ` set (ta_columns base)" and ?server = "map co_origin (ta_columns server)"
    and ?user = "map co_origin (ta_columns user)"
  let ?kept = "filter (\<lambda>x. \<not> is_new x \<and> x \<in> ?base \<and> x \<in> set ?server) ?user"
  have "mset ?kept \<subseteq># mset (filter (\<lambda>x. x \<in> ?base) ?server)"
    using assms(1) by (intro mset_subset_distinct) (auto simp: distinct_map_filter)
  then have "mset ?kept + mset (filter (\<lambda>x. x \<notin> ?base) ?server)
      \<subseteq># mset (filter (\<lambda>x. x \<in> ?base) ?server) + mset (filter (\<lambda>x. x \<notin> ?base) ?server)"
    by (rule subset_mset.add_right_mono)
  also have "\<dots> = mset ?server" by (simp add: multiset_partition [symmetric])
  finally have "mset (filter is_new ?user) + (mset ?kept + mset (filter (\<lambda>x. x \<notin> ?base) ?server))
      \<subseteq># mset (filter is_new ?user) + mset ?server"
    by (rule subset_mset.add_left_mono)
  moreover have "map co_origin (fst (rebase_columns base server user))
      = filter (\<lambda>x. is_new x \<or> x \<in> ?base \<and> x \<in> set ?server) ?user @ filter (\<lambda>x. x \<notin> ?base) ?server"
    using user_column_origins [of base server "ta_columns user"]
      server_column_origins [of base user "ta_columns server"]
    by (simp add: rebase_columns_def Let_def comp_def del: map_concat)
  ultimately show ?thesis
    by (simp only: mset_append mset_filter_or) (simp only: ac_simps)
qed

lemma merged_table_parts:
  "ta_columns (fst (merged_table base server user)) = fst (rebase_columns base server user)"
  "ta_schema (fst (merged_table base server user)) = ta_schema server"
  "ta_name (fst (merged_table base server user)) = fst (merge (ta_name base) (ta_name server) (ta_name user))"
  "ta_comment (fst (merged_table base server user))
     = fst (merge (ta_comment base) (ta_comment server) (ta_comment user))"
  "ta_options (fst (merged_table base server user))
     = fst (merge (ta_options base) (ta_options server) (ta_options user))"
  "ta_primary_key (fst (merged_table base server user))
     = (case fst (merge_objects PrimaryKeyObject ke_origin rebase_key_label (as_slice (ta_primary_key base))
          (as_slice (ta_primary_key server)) (as_slice (ta_primary_key user))) of
          [] \<Rightarrow> None | k # ks \<Rightarrow> Some k)"
  "ta_uniques (fst (merged_table base server user))
     = fst (merge_objects UniqueObject ke_origin rebase_key_label (ta_uniques base) (ta_uniques server)
          (ta_uniques user))"
  "ta_foreign_keys (fst (merged_table base server user))
     = fst (merge_objects ForeignKeyObject fk_origin
          (\<lambda>k. case fk_name k of None \<Rightarrow> ''Foreign key'' | Some n \<Rightarrow> n)
          (ta_foreign_keys base) (ta_foreign_keys server) (ta_foreign_keys user))"
  "ta_checks (fst (merged_table base server user))
     = fst (merge_objects CheckObject ck_origin (\<lambda>c. case ck_name c of None \<Rightarrow> ''Check'' | Some n \<Rightarrow> n)
          (ta_checks base) (ta_checks server) (ta_checks user))"
  "ta_indexes (fst (merged_table base server user))
     = fst (merge_objects IndexObject ix_origin ix_name (ta_indexes base) (ta_indexes server)
          (ta_indexes user))"
  by (simp_all add: merged_table_def merge_table_value_def Let_def case_prod_beta)

lemma first_item_subset:
  "mset (map f (as_slice (case xs of [] \<Rightarrow> None | x # xs' \<Rightarrow> Some x))) \<subseteq># mset (map f xs)"
  by (cases xs) simp_all

lemma merged_table_origins:
  assumes user: "origins_ok base next_id (all_origins user)"
    and server: "distinct (map snd (all_origins server))"
  shows "mset (all_origins (fst (merged_table base server user)))
    \<subseteq># mset (all_origins server @ filter (\<lambda>q. is_new (snd q)) (all_origins user))"
proof -
  let ?t = "fst (merged_table base server user)"
  let ?pairs = "\<lambda>k xs. image_mset (Pair k) (mset xs)"
  have known: "(object, x) \<in> set (all_origins user) \<Longrightarrow> is_new x \<or> x \<in> set (origins_of object base)" for object x
    using user known_existing [of base object x]
    by (fastforce simp: origins_ok_def list_all_iff all_origins_iff)
  have origins: "is_new x \<or> x \<in> set (origins_of object base)" if "x \<in> set (origins_of object user)" for object x
    using known that by (simp add: all_origins_iff)
  have step: "?pairs k (map f as) \<subseteq># ?pairs k (map f bs) + ?pairs k (filter is_new (map f cs))"
    if "mset (map f as) \<subseteq># mset (map f bs) + mset (filter is_new (map f cs))" for k and f :: "'z \<Rightarrow> origin" and as bs cs
    using image_mset_subseteq_mono [OF that, of "Pair k"] by (simp only: image_mset_union)
  have "distinct (map co_origin (ta_columns user))" "distinct (map co_origin (ta_columns server))"
    using user server origins_of_distinct [OF server, of ColumnObject]
    by (auto simp: origins_ok_def all_origins_def origins_of_def distinct_map inj_on_def)
  then have columns: "?pairs ColumnObject (map co_origin (ta_columns ?t))
      \<subseteq># ?pairs ColumnObject (map co_origin (ta_columns server))
        + ?pairs ColumnObject (filter is_new (map co_origin (ta_columns user)))"
    unfolding merged_table_parts by (intro step rebase_columns_subset)
  have primary: "?pairs PrimaryKeyObject (map ke_origin (as_slice (ta_primary_key ?t)))
      \<subseteq># ?pairs PrimaryKeyObject (map ke_origin (as_slice (ta_primary_key server)))
        + ?pairs PrimaryKeyObject (filter is_new (map ke_origin (as_slice (ta_primary_key user))))"
    unfolding merged_table_parts
    by (intro step subset_mset.order_trans [OF first_item_subset] merge_objects_subset)
       (use origins [of _ PrimaryKeyObject] in \<open>simp add: origins_of_def primary_keys_def\<close>)
  have uniques: "?pairs UniqueObject (map ke_origin (ta_uniques ?t))
      \<subseteq># ?pairs UniqueObject (map ke_origin (ta_uniques server))
        + ?pairs UniqueObject (filter is_new (map ke_origin (ta_uniques user)))"
    unfolding merged_table_parts
    by (intro step merge_objects_subset) (use origins [of _ UniqueObject] in \<open>simp add: origins_of_def\<close>)
  have foreign: "?pairs ForeignKeyObject (map fk_origin (ta_foreign_keys ?t))
      \<subseteq># ?pairs ForeignKeyObject (map fk_origin (ta_foreign_keys server))
        + ?pairs ForeignKeyObject (filter is_new (map fk_origin (ta_foreign_keys user)))"
    unfolding merged_table_parts
    by (intro step merge_objects_subset) (use origins [of _ ForeignKeyObject] in \<open>simp add: origins_of_def\<close>)
  have checks: "?pairs CheckObject (map ck_origin (ta_checks ?t))
      \<subseteq># ?pairs CheckObject (map ck_origin (ta_checks server))
        + ?pairs CheckObject (filter is_new (map ck_origin (ta_checks user)))"
    unfolding merged_table_parts
    by (intro step merge_objects_subset) (use origins [of _ CheckObject] in \<open>simp add: origins_of_def\<close>)
  have indexes: "?pairs IndexObject (map ix_origin (ta_indexes ?t))
      \<subseteq># ?pairs IndexObject (map ix_origin (ta_indexes server))
        + ?pairs IndexObject (filter is_new (map ix_origin (ta_indexes user)))"
    unfolding merged_table_parts
    by (intro step merge_objects_subset) (use origins [of _ IndexObject] in \<open>simp add: origins_of_def\<close>)
  note add = subset_mset.add_mono
  show ?thesis
    using add [OF columns add [OF primary add [OF uniques add [OF foreign add [OF checks indexes]]]]]
    unfolding all_origins_pairs filter_append filter_Pair mset_append mset_map [of "Pair _"]
    by (simp only: ac_simps)
qed

lemma merged_origins_ok:
  assumes "origins_ok base next_id (all_origins user)" "baseline_ok new" "server = sb_table new"
  shows "origins_ok server next_id (all_origins (fst (merged_table base server user)))"
proof (rule origins_ok_subset [OF merged_table_origins [OF assms(1)] _ order_refl])
  let ?news = "filter (\<lambda>q. is_new (snd q)) (all_origins user)"
  have server: "distinct (map snd (all_origins server))"
    "list_all (\<lambda>(object, x). \<not> is_new x) (all_origins server)"
    using assms(2,3) by (simp_all add: baseline_ok_def)
  then show "distinct (map snd (all_origins server))" by simp
  have user: "distinct (all_origins user)" "distinct (filter is_new (map snd (all_origins user)))"
    "list_all (\<lambda>(object, x). issued next_id x) (all_origins user)"
    using assms(1) by (auto simp: origins_ok_def list_all_iff)
  have "filter is_new (map snd (all_origins server)) = []"
    using server(2) by (auto simp: filter_empty_conv list_all_iff)
  moreover have "map snd ?news = filter is_new (map snd (all_origins user))"
    by (simp add: filter_map comp_def)
  moreover have "distinct (all_origins server @ ?news)"
    using server user(1) by (auto simp: distinct_map list_all_iff)
  moreover have "list_all (\<lambda>(object, x). known_origin server object x \<and> issued next_id x)
      (all_origins server @ ?news)"
    unfolding list_all_iff
  proof (intro ballI, clarify)
    fix object x assume that: "(object, x) \<in> set (all_origins server @ ?news)"
    show "known_origin server object x \<and> issued next_id x"
    proof (cases "is_new x")
      case True
      then have "(object, x) \<in> set (all_origins user)" using that server(2) by (auto simp: list_all_iff)
      then show ?thesis using True user(3) by (auto simp: known_origin_def list_all_iff)
    next
      case False
      then have "(object, x) \<in> set (all_origins server)" using that by auto
      then show ?thesis using False known_in_itself by (cases x) (auto simp: issued_def)
    qed
  qed
  ultimately show "origins_ok server next_id (all_origins server @ ?news)"
    using user(2) unfolding origins_ok_def map_append filter_append by simp
qed

section \<open>One side unchanged\<close>

lemma merge_same: "merge a b a = (b, False)" "merge a a c = (c, False)"
  by (simp_all add: merge_def)

lemma merge_column_unedited: "co_origin p = co_origin s \<Longrightarrow> merge_column p s p = (s, [])"
  by (simp add: merge_column_def merge_extra_def merge_same)

lemma merge_column_unchanged: "co_origin p = co_origin c \<Longrightarrow> merge_column p p c = (c, [])"
  by (simp add: merge_column_def merge_extra_def merge_same)

lemma concat_map_Nil: "(\<And>x. x \<in> set xs \<Longrightarrow> f x = []) \<Longrightarrow> concat (map f xs) = []"
  by simp

lemma concat_map_single: "(\<And>x. x \<in> set xs \<Longrightarrow> f x = [x]) \<Longrightarrow> concat (map f xs) = xs"
  by (induction xs) simp_all

lemma merge_objects_unedited:
  assumes "distinct (map origin base)"
  shows "merge_objects object origin label base server base = (server, [])"
proof -
  have server: "merge_server_object object origin label base base c = ([c], [])" for c
    by (simp add: merge_server_object_def Let_def split: option.split)
  have user: "merge_user_object object origin label base server e = ([], [])" if "e \<in> set base" for e
    using find_distinct [OF assms that] by (simp add: merge_user_object_def Let_def)
  show ?thesis
    unfolding merge_objects_def Let_def
    by (simp add: server user concat_map_single [of _ "\<lambda>x. [x]"] cong: map_cong)
qed

lemma merge_objects_unchanged:
  assumes "objects_ok origin base user"
  shows "mset (fst (merge_objects object origin label base base user)) = mset user"
    and "snd (merge_objects object origin label base base user) = []"
proof -
  have base: "find (\<lambda>item. origin item = origin c) base = Some c" if "c \<in> set base" for c
    using assms that find_distinct [of origin base c] by (simp add: objects_ok_def)
  have server: "merge_server_object object origin label base user c
      = (as_slice (find (\<lambda>item. origin item = origin c) user), [])" if "c \<in> set base" for c
    using base [OF that] by (auto simp: merge_server_object_def Let_def split: option.split)
  have user: "merge_user_object object origin label base base e
      = (if origin e \<in> origin ` set base then [] else [e], [])" for e
  proof (cases "find (\<lambda>item. origin item = origin e) base")
    case None
    moreover from None have "origin e \<notin> origin ` set base" by (simp only: lookup_None not_False_eq_True)
    ultimately show ?thesis by (simp add: merge_user_object_def Let_def)
  next
    case (Some p)
    moreover from this have "origin e \<in> origin ` set base" using lookup_Some by (metis imageI)
    ultimately show ?thesis by (simp add: merge_user_object_def Let_def)
  qed
  show "snd (merge_objects object origin label base base user) = []"
    by (simp add: merge_objects_def Let_def server user cong: map_cong)
  let ?xs = "fst (merge_objects object origin label base base user)"
  have xs: "?xs = concat (map (\<lambda>c. as_slice (find (\<lambda>item. origin item = origin c) user)) base)
      @ concat (map (\<lambda>e. if origin e \<in> origin ` set base then [] else [e]) user)"
    by (simp add: merge_objects_def Let_def server user comp_def cong: map_cong)
  have "distinct (map origin ?xs)"
    using assms unfolding merge_objects_origins
    by (auto simp: objects_ok_def distinct_map_filter)
  moreover have "set ?xs = set user"
  proof -
    have "set ?xs = {e \<in> set user. origin e \<in> origin ` set base} \<union> {e \<in> set user. origin e \<notin> origin ` set base}"
    proof -
      have "(\<exists>c\<in>set base. find (\<lambda>item. origin item = origin c) user = Some e)
          \<longleftrightarrow> e \<in> set user \<and> origin e \<in> origin ` set base" (is "?l \<longleftrightarrow> ?r") for e
      proof
        assume ?l
        then obtain c where c: "c \<in> set base" "find (\<lambda>item. origin item = origin c) user = Some e" by blast
        then have "e \<in> set user" "origin e = origin c" using lookup_Some [OF c(2)] by simp_all
        with c(1) show ?r by simp
      next
        assume r: ?r
        then obtain c where "c \<in> set base" "origin c = origin e" by (metis imageE)
        then show ?l using r find_distinct [of origin user e] assms by (auto simp: objects_ok_def)
      qed
      then show ?thesis by (auto simp: xs)
    qed
    then show ?thesis by blast
  qed
  ultimately show "mset ?xs = mset user"
    using assms by (metis distinct_map objects_ok_def set_eq_iff_mset_eq_distinct)
qed


lemma column_of_distinct:
  "distinct (map co_origin (ta_columns t)) \<Longrightarrow> c \<in> set (ta_columns t) \<Longrightarrow> column_of t (co_origin c) = Some c"
  unfolding column_of_def by (rule find_distinct)

lemma rebase_columns_unedited:
  assumes base: "distinct (map co_origin (ta_columns base))" "list_all (\<lambda>c. \<not> is_new (co_origin c)) (ta_columns base)"
    and server: "distinct (map co_origin (ta_columns server))"
  shows "mset (fst (rebase_columns base server base)) = mset (ta_columns server)"
    and "snd (rebase_columns base server base) = []"
proof -
  have user_part: "rebase_user_column base server e = (as_slice (column_of server (co_origin e)), [])"
    if e: "e \<in> set (ta_columns base)" for e
  proof -
    have "\<not> is_new (co_origin e)" using base(2) e by (auto simp: list_all_iff)
    then have part: "rebase_user_column base server e = (case column_of server (co_origin e) of
        None \<Rightarrow> ([], [])
      | Some c \<Rightarrow> ([fst (merge_column e c e)], map (\<lambda>field. issue_at ColumnObject (co_origin e)
          (''Column '' @ co_name (fst (merge_column e c e)) @ '': '' @ field
            @ '' changed on the server and in the draft; the draft wins'')) (snd (merge_column e c e))))"
      using column_of_distinct [OF base(1) e]
      by (simp add: rebase_user_column_def Let_def case_prod_beta split: option.split)
    show ?thesis
    proof (cases "column_of server (co_origin e)")
      case (Some c)
      then have "co_origin e = co_origin c" using column_of_SomeD by metis
      then show ?thesis using part Some merge_column_unedited [of e c] by simp
    qed (simp add: part)
  qed
  have server_part: "rebase_server_column base base c
      = (if column_of base (co_origin c) = None then [c] else [], [])" for c
    by (simp add: rebase_server_column_def Let_def)
  show "snd (rebase_columns base server base) = []"
    by (simp add: rebase_columns_def Let_def user_part server_part cong: map_cong)
  let ?xs = "fst (rebase_columns base server base)"
  have xs: "?xs = concat (map (\<lambda>e. as_slice (column_of server (co_origin e))) (ta_columns base))
      @ concat (map (\<lambda>c. if column_of base (co_origin c) = None then [c] else []) (ta_columns server))"
    by (simp add: rebase_columns_def Let_def user_part server_part comp_def cong: map_cong)
  have "map co_origin ?xs
      = filter (\<lambda>x. is_new x \<or> x \<in> co_origin ` set (ta_columns base) \<and> x \<in> co_origin ` set (ta_columns server))
          (map co_origin (ta_columns base))
        @ filter (\<lambda>x. x \<notin> co_origin ` set (ta_columns base)) (map co_origin (ta_columns server))"
    using user_column_origins [of base server "ta_columns base"]
      server_column_origins [of base base "ta_columns server"]
    by (simp add: rebase_columns_def Let_def comp_def del: map_concat)
  then have "distinct (map co_origin ?xs)" using base server by auto
  moreover have "set ?xs = set (ta_columns server)"
  proof -
    have "(\<exists>e\<in>set (ta_columns base). column_of server (co_origin e) = Some c)
        \<longleftrightarrow> c \<in> set (ta_columns server) \<and> column_of base (co_origin c) \<noteq> None" for c
      using column_of_distinct [OF server, of c] column_of_SomeD [of server _ c]
        column_of_None_iff [of base "co_origin c"]
      by (metis (no_types, lifting) imageE imageI)
    then show ?thesis by (auto simp: xs)
  qed
  ultimately show "mset ?xs = mset (ta_columns server)"
    using server by (metis distinct_map set_eq_iff_mset_eq_distinct)
qed

lemma rebase_columns_unchanged:
  assumes "columns_ok base user"
  shows "rebase_columns base base user = (ta_columns user, [])"
proof -
  have user_part: "rebase_user_column base base e = ([e], [])" if e: "e \<in> set (ta_columns user)" for e
  proof (cases "is_new (co_origin e)")
    case False
    then obtain p where "column_of base (co_origin e) = Some p"
      using assms e column_of_None_iff [of base "co_origin e"] by (auto simp: columns_ok_def list_all_iff)
    then show ?thesis
      using False column_of_SomeD by (simp add: rebase_user_column_def merge_column_unchanged)
  qed (simp add: rebase_user_column_def)
  have server_part: "rebase_server_column base user c = ([], [])" if "c \<in> set (ta_columns base)" for c
    using column_of_distinct [of base c] that assms by (simp add: rebase_server_column_def Let_def columns_ok_def)
  show ?thesis
    by (simp add: rebase_columns_def Let_def user_part server_part concat_map_single [of _ "\<lambda>x. [x]"]
        comp_def cong: map_cong)
qed


lemma no_dangling_no_change: "dangling t = [] \<Longrightarrow> fold drop_references (dangling t) d = d"
  by simp

lemma dangling_columns:
  "mset cs = mset (ta_columns t) \<Longrightarrow> dangling (t\<lparr>ta_columns := cs\<rparr>) = [] \<longleftrightarrow> dangling t = []"
  by (drule mset_eq_setD) (simp add: dangling_Nil_iff)

lemma merge_table_value_same:
  "merge_table_value message a b a = (b, [])" "merge_table_value message a a c = (c, [])"
  by (simp_all add: merge_table_value_def merge_same)

lemma as_slice_first: "(case as_slice x of [] \<Rightarrow> None | k # ks \<Rightarrow> Some k) = x"
  by (cases x) simp_all

lemma short_slice [simp]: "length (as_slice x) \<le> Suc 0"
  by (cases x) simp_all

lemma merged_unedited:
  assumes "distinct (map snd (all_origins base))" "list_all (\<lambda>(object, x). \<not> is_new x) (all_origins base)"
    and "distinct (map snd (all_origins server))"
  shows "merged_table base server base
    = (server\<lparr>ta_columns := fst (rebase_columns base server base)\<rparr>, [])"
    "mset (fst (rebase_columns base server base)) = mset (ta_columns server)"
proof -
  have slots: "distinct (map ke_origin (as_slice (ta_primary_key base)))"
    "distinct (map ke_origin (ta_uniques base))" "distinct (map fk_origin (ta_foreign_keys base))"
    "distinct (map ck_origin (ta_checks base))" "distinct (map ix_origin (ta_indexes base))"
    "distinct (map co_origin (ta_columns base))"
    using origins_of_distinct [OF assms(1), of PrimaryKeyObject]
      origins_of_distinct [OF assms(1), of UniqueObject] origins_of_distinct [OF assms(1), of ForeignKeyObject]
      origins_of_distinct [OF assms(1), of CheckObject] origins_of_distinct [OF assms(1), of IndexObject]
      origins_of_distinct [OF assms(1), of ColumnObject]
    by (simp_all add: origins_of_def primary_keys_def)
  have columns: "list_all (\<lambda>c. \<not> is_new (co_origin c)) (ta_columns base)"
    "distinct (map co_origin (ta_columns server))"
    using assms(2) origins_of_distinct [OF assms(3), of ColumnObject]
    by (auto simp: list_all_iff all_origins_def origins_of_def)
  note cs = rebase_columns_unedited [OF slots(6) columns]
  then have eq: "rebase_columns base server base = (fst (rebase_columns base server base), [])"
    by (metis prod.collapse)
  show "merged_table base server base
      = (server\<lparr>ta_columns := fst (rebase_columns base server base)\<rparr>, [])"
    unfolding merged_table_def
    by (subst eq)
       (simp add: merge_objects_unedited slots merge_table_value_same as_slice_first not_less)
  show "mset (fst (rebase_columns base server base)) = mset (ta_columns server)" by (rule cs(1))
qed

lemma rebase_unedited:
  assumes "baseline_ok old" "baseline_ok new" "ids_comparable old new"
  shows "\<exists>cs. mset cs = mset (ta_columns (sb_table new))
    \<and> rebase old new (from_baseline old)
      = (\<lparr>dr_table = (sb_table new)\<lparr>ta_columns := cs\<rparr>, dr_next_id = 1\<rparr>, [])"
proof -
  let ?cs = "fst (rebase_columns (sb_table old) (sb_table new) (sb_table old))"
  have merged: "merged_table (sb_table old) (sb_table new) (sb_table old)
      = ((sb_table new)\<lparr>ta_columns := ?cs\<rparr>, [])"
    and cs: "mset ?cs = mset (ta_columns (sb_table new))"
    using merged_unedited [of "sb_table old" "sb_table new"] assms(1,2) by (simp_all add: baseline_ok_def)
  moreover have "dangling ((sb_table new)\<lparr>ta_columns := ?cs\<rparr>) = []"
    using dangling_columns [OF cs] assms(2) by (simp add: baseline_ok_def)
  ultimately show ?thesis
    using assms(3) by (auto simp: rebase_def from_baseline_def)
qed


text \<open>The same table, but for the order of keys, constraints and indexes.\<close>

definition same_table :: "table_model \<Rightarrow> table_model \<Rightarrow> bool" where
  "same_table t t' \<longleftrightarrow>
     ta_schema t = ta_schema t' \<and> ta_name t = ta_name t' \<and> ta_comment t = ta_comment t'
     \<and> ta_options t = ta_options t' \<and> ta_columns t = ta_columns t' \<and> ta_primary_key t = ta_primary_key t'
     \<and> mset (ta_uniques t) = mset (ta_uniques t') \<and> mset (ta_foreign_keys t) = mset (ta_foreign_keys t')
     \<and> mset (ta_checks t) = mset (ta_checks t') \<and> mset (ta_indexes t) = mset (ta_indexes t')"

lemma mset_as_slice: "mset xs = mset (as_slice x) \<Longrightarrow> xs = as_slice x"
  by (cases x) auto

lemma same_table_dangling:
  assumes "same_table t t'"
  shows "dangling t = [] \<longleftrightarrow> dangling t' = []"
proof -
  have "set (referenced_columns t) = set (referenced_columns t')"
    using assms by (auto simp: same_table_def referenced_columns_def table_keys_def dest!: mset_eq_setD)
  then show ?thesis using assms by (simp add: dangling_Nil_iff same_table_def)
qed

lemma merged_unchanged:
  assumes "columns_ok base user"
    and "objects_ok ke_origin (primary_keys base) (primary_keys user)"
    and "objects_ok ke_origin (ta_uniques base) (ta_uniques user)"
    and "objects_ok fk_origin (ta_foreign_keys base) (ta_foreign_keys user)"
    and "objects_ok ck_origin (ta_checks base) (ta_checks user)"
    and "objects_ok ix_origin (ta_indexes base) (ta_indexes user)"
  shows "same_table (fst (merged_table base base user)) (user\<lparr>ta_schema := ta_schema base\<rparr>)"
    and "snd (merged_table base base user) = []"
proof -
  have primary: "fst (merge_objects PrimaryKeyObject ke_origin rebase_key_label
      (as_slice (ta_primary_key base)) (as_slice (ta_primary_key base)) (as_slice (ta_primary_key user)))
      = as_slice (ta_primary_key user)"
    using merge_objects_unchanged(1) [OF assms(2), of PrimaryKeyObject rebase_key_label]
    unfolding primary_keys_def by (rule mset_as_slice)
  show "same_table (fst (merged_table base base user)) (user\<lparr>ta_schema := ta_schema base\<rparr>)"
    by (simp add: same_table_def merged_table_parts merge_same primary as_slice_first
        rebase_columns_unchanged [OF assms(1)] merge_objects_unchanged(1) [OF assms(3)]
        merge_objects_unchanged(1) [OF assms(4)] merge_objects_unchanged(1) [OF assms(5)]
        merge_objects_unchanged(1) [OF assms(6)])
  show "snd (merged_table base base user) = []"
    using merge_objects_unchanged(2) [OF assms(2)]
    by (simp add: merged_table_def merge_table_value_same Let_def case_prod_beta primary not_less
        primary_keys_def rebase_columns_unchanged [OF assms(1)] merge_objects_unchanged(2) [OF assms(3)]
        merge_objects_unchanged(2) [OF assms(4)] merge_objects_unchanged(2) [OF assms(5)]
        merge_objects_unchanged(2) [OF assms(6)])
qed

section \<open>A changed server\<close>

text \<open>
  The server dropped column \<open>b\<close> with its index and added column \<open>x\<close>; the draft has a new unique key
  over \<open>b\<close>.
\<close>

definition changed_server :: schema_baseline where
  "changed_server = sample_baseline\<lparr>sb_drift := DriftToken ''pg:1:y'',
     sb_table := sample_table\<lparr>
       ta_columns := [column_new (Existing 1) ''a'' ''int'', column_new (Existing 5) ''x'' ''text''],
       ta_indexes := []\<rparr>\<rparr>"

definition edited_draft :: schema_draft where
  "edited_draft = \<lparr>dr_table = sample_table\<lparr>ta_uniques :=
     [\<lparr>ke_origin = New 1, ke_name = Some ''u'', ke_columns = [Existing 2]\<rparr>]\<rparr>, dr_next_id = 2\<rparr>"

lemma changed_server_ok: "baseline_ok changed_server"
  by code_simp

lemma edited_draft_inv: "draft_inv sample_table edited_draft"
  by code_simp

lemma sample_table_of: "sb_table sample_baseline = sample_table"
  by (simp add: sample_baseline_def)

section \<open>Properties\<close>

text \<open>
  C33: rebase gives back a draft that is well-formed against the new baseline, whatever changed on
  the server and in the draft: no identity twice, every existing object one of the new capture's, and
  no key, foreign key or index over a column the merge dropped.  The counter of ids is the
  draft's, so ids issued later are new.
\<close>

theorem rebased_drafts_are_well_formed:
  assumes "baseline_ok new" "draft_inv (sb_table old) d"
  shows "draft_inv (sb_table new) (fst (rebase old new d))
    \<and> dr_next_id (fst (rebase old new d)) = dr_next_id d"
proof (cases "ids_comparable old new")
  case True
  let ?t = "fst (merged_table (sb_table old) (sb_table new) (dr_table d))"
  let ?t' = "fold drop_table_references (dangling ?t) ?t"
  have "origins_ok (sb_table new) (dr_next_id d) (all_origins ?t)"
    using assms by (intro merged_origins_ok) (simp_all add: draft_inv_def)
  then have "origins_ok (sb_table new) (dr_next_id d) (all_origins ?t')"
    by (rule origins_ok_subset [OF fold_drop_table_references(2) _ order_refl])
  moreover have "fst (rebase old new d) = \<lparr>dr_table = ?t', dr_next_id = dr_next_id d\<rparr>"
    using True by (simp add: rebase_def case_prod_beta fold_drop_references)
  ultimately show ?thesis by (simp add: draft_inv_def dangling_removed)
next
  case False
  have "origins_ok (sb_table new) (dr_next_id d) (all_origins (sb_table new))"
    using draft_inv_from_baseline [OF assms(1)] assms(1)
    by (auto simp: draft_inv_def origins_ok_def from_baseline_def baseline_ok_def list_all_iff
        issued_def split: origin.splits)
  then show ?thesis using False assms(1) by (simp add: rebase_def draft_inv_def baseline_ok_def)
qed

lemma rebased_drafts_are_well_formed_witness:
  "draft_inv (sb_table changed_server) (fst (rebase sample_baseline changed_server edited_draft))
   \<and> ta_uniques (dr_table (fst (rebase sample_baseline changed_server edited_draft))) = []"
proof
  show "draft_inv (sb_table changed_server) (fst (rebase sample_baseline changed_server edited_draft))"
    using rebased_drafts_are_well_formed [OF changed_server_ok, of sample_baseline edited_draft]
      edited_draft_inv by (simp add: sample_table_of)
  show "ta_uniques (dr_table (fst (rebase sample_baseline changed_server edited_draft))) = []"
    by code_simp
qed

text \<open>
  a draft nobody edited follows the server.  Rebased onto a capture whose ids can be compared, it
  becomes that capture's table, up to the place of the columns, and nothing is reported as a
  conflict.
\<close>

lemma untouched_draft_follows_the_server:
  assumes "baseline_ok old" "baseline_ok new" "ids_comparable old new"
  shows "\<exists>cs. mset cs = mset (ta_columns (sb_table new))
    \<and> rebase old new (from_baseline old)
      = (\<lparr>dr_table = (sb_table new)\<lparr>ta_columns := cs\<rparr>, dr_next_id = 1\<rparr>, [])"
  by (rule rebase_unedited [OF assms])

text \<open>
  a server that did not change leaves the draft as it is.  Rebased onto its own baseline a
  well-formed draft keeps every object with every edit, the columns in their order, and nothing is
  reported as a conflict.
\<close>

lemma unchanged_server_keeps_the_draft:
  assumes "baseline_ok b" "draft_inv (sb_table b) d"
  shows "\<exists>t. rebase b b d = (\<lparr>dr_table = t, dr_next_id = dr_next_id d\<rparr>, [])
    \<and> same_table t ((dr_table d)\<lparr>ta_schema := ta_schema (sb_table b)\<rparr>)"
proof -
  have old: "distinct (map snd (all_origins (sb_table b)))"
    "list_all (\<lambda>(object, x). \<not> is_new x) (all_origins (sb_table b))"
    using assms(1) by (simp_all add: baseline_ok_def)
  have origins: "origins_ok (sb_table b) (dr_next_id d) (all_origins (dr_table d))"
    using assms(2) by (simp add: draft_inv_def)
  let ?t = "fst (merged_table (sb_table b) (sb_table b) (dr_table d))"
  note merged = merged_unchanged [OF slots_ok [OF origins old]]
  have "dangling ((dr_table d)\<lparr>ta_schema := ta_schema (sb_table b)\<rparr>) = []"
    using assms(2) by (simp add: draft_inv_def dangling_Nil_iff referenced_columns_def table_keys_def)
  then have "dangling ?t = []" using same_table_dangling [OF merged(1)] by simp
  moreover have "ids_comparable b b" by (simp add: ids_comparable_def Let_def)
  ultimately show ?thesis using merged by (auto simp: rebase_def case_prod_beta)
qed

end
