(* ===== verification/TransferManager.thy ===== *)
theory TransferManager imports SafetyPolicy CsvCodec "HOL-Library.AList" "HOL-Library.Char_ord" "HOL-Library.List_Lexorder" "HOL-Library.Product_Lexorder" begin

text \<open>
  The job manager of CSV transfers, \<open>backend/src/postgres/transfer/manager.rs\<close>, with the
  types of \<open>protocol.rs\<close> it keeps.  Every operation is a function of the state behind the
  mutex; the clock and the identifiers \<open>Uuid::new_v4\<close> returns are arguments.  A
  \<open>HashMap\<close> is an association list, whose order stands for the iteration order the map
  leaves open.  The shared cells (\<open>Arc<AtomicU8>\<close> of a job, the watch channels of a job or
  of an admission) are a store beside the maps, at the identifier they were created for,
  because a worker keeps its cells after its entry has gone.  An instant is a number of
  milliseconds.
\<close>

section \<open>Types of the protocol\<close>

datatype direction = Import | Export

datatype transfer_phase =
    Preparing | Running | Cancelling | Finalizing
  | Completed | PhaseCancelled | Failed | PhaseOutcomeUnknown

fun phase_terminal :: "transfer_phase \<Rightarrow> bool" where
  "phase_terminal Completed = True"
| "phase_terminal PhaseCancelled = True"
| "phase_terminal Failed = True"
| "phase_terminal PhaseOutcomeUnknown = True"
| "phase_terminal _ = False"

datatype export_limit = LimitField | LimitRecord

datatype transfer_error =
    UnsupportedEngine
  | InvalidRequest string string
  | ConnectionClosing
  | JobLimitReached
  | JobNotFound
  | JobActive
  | InspectionExpired
  | SourceChanged
  | TargetChanged
  | DestinationExists
  | UnsupportedTarget string
  | ExportLimitExceeded export_limit
  | CsvFailure nat "nat option" string
  | DatabaseFailure "string option" string
  | IoFailure string string
  | Timeout string
  | PolicyBlocked string
  | PolicyNeedsConfirmation "statement_class_summary list"
  | Cancelled
  | OutcomeUnknown

definition transfer_invalid :: "string \<Rightarrow> string \<Rightarrow> transfer_error" where
  "transfer_invalid f reason = InvalidRequest f reason"

record inspect_payload =
  ip_connection_id :: string
  ip_schema :: string
  ip_table :: string
  ip_direction :: direction
  ip_source_path :: "string option"
  ip_options :: csv_options

record target_column =
  tc_name :: string
  tc_data_type :: string
  tc_nullable :: bool
  tc_has_default :: bool
  tc_generated :: bool
  tc_identity :: bool

record source_column =
  so_index :: nat
  so_name :: string

record inspection =
  in_inspection_token :: string
  in_connection_id :: string
  in_schema :: string
  in_table :: string
  in_direction :: direction
  in_file_name :: "string option"
  in_total_bytes :: "nat option"
  in_source_columns :: "source_column list"
  in_target_columns :: "target_column list"
  in_sample_rows :: "string option list list"
  in_sample_truncated :: bool
  in_options :: csv_options

record snapshot =
  sn_job_id :: string
  sn_connection_id :: string
  sn_schema :: string
  sn_table :: string
  sn_direction :: direction
  sn_file_name :: string
  sn_phase :: transfer_phase
  sn_started_at :: string
  sn_finished_at :: "string option"
  sn_total_bytes :: "nat option"
  sn_bytes_processed :: nat
  sn_rows_processed :: "nat option"
  sn_rows_committed :: "nat option"
  sn_failure :: "transfer_error option"

text \<open>What a review keeps of the inspected file and relation.\<close>

record file_fingerprint =
  ff_len :: nat
  ff_modified :: int
  ff_device :: nat
  ff_inode :: nat
  ff_changed_seconds :: int
  ff_changed_nanoseconds :: int

record catalog_column =
  cc_number :: int
  cc_type_oid :: nat
  cc_type_modifier :: int
  cc_collation_oid :: nat
  cc_default_fingerprint :: "string option"
  cc_public :: target_column

record relation_state =
  rs_oid :: nat
  rs_kind :: string
  rs_row_security :: bool
  rs_force_row_security :: bool
  rs_populated :: bool
  rs_columns :: "catalog_column list"

record transfer_review =
  rv_payload :: inspect_payload
  rv_inspection :: inspection
  rv_source_fingerprint :: "file_fingerprint option"
  rv_relation :: relation_state

section \<open>The state of the manager\<close>

type_synonym instant = nat
type_synonym 'a transfer_result = "transfer_error + 'a"

definition MAX_ACTIVE :: nat where "MAX_ACTIVE = 4"
definition MAX_REVIEWS :: nat where "MAX_REVIEWS = 8"
definition MAX_TERMINAL :: nat where "MAX_TERMINAL = 32"
definition REVIEW_TTL :: nat where "REVIEW_TTL = 300 * 1000"
definition RETENTION :: nat where "RETENTION = 3600 * 1000"
definition SAFE_INTEGER :: nat where "SAFE_INTEGER = 9007199254740991"

text \<open>The four values the \<open>AtomicU8\<close> of a job takes.\<close>

datatype claim = OPEN | CANCEL | FINALIZING | SUCCEEDED

record scope =
  sc_closing :: nat
  sc_generation :: nat

definition scope_default :: scope where
  "scope_default = \<lparr>sc_closing = 0, sc_generation = 0\<rparr>"

record pending_entry =
  pe_connection_id :: string

record review_entry =
  re_review :: transfer_review
  re_created :: instant
  re_connection :: nat
  re_global :: nat

text \<open>The cells of \<open>Control\<close> are in the store; what is left is whether the join handle is there.\<close>

record control =
  ct_task :: bool

record io_context =
  io_tracked :: bool
  io_complete :: bool

definition io_default :: io_context where
  "io_default = \<lparr>io_tracked = False, io_complete = False\<rparr>"

definition retains_cleanup :: "io_context \<Rightarrow> bool" where
  "retains_cleanup io \<longleftrightarrow> io_tracked io \<and> \<not> io_complete io"

record job_entry =
  je_snapshot :: snapshot
  je_active :: "control option"
  je_finished :: "instant option"
  je_io :: io_context

record manager =
  m_jobs :: "(string \<times> job_entry) list"
  m_pending :: "(string \<times> pending_entry) list"
  m_reviews :: "(string \<times> review_entry) list"
  m_connections :: "(string \<times> scope) list"
  m_global :: scope
  m_native :: bool
  m_claims :: "string \<Rightarrow> claim"
  m_cancels :: "string \<Rightarrow> bool"
  m_dones :: "string \<Rightarrow> bool"

definition manager_new :: "bool \<Rightarrow> manager" where
  "manager_new native =
     \<lparr>m_jobs = [], m_pending = [], m_reviews = [], m_connections = [], m_global = scope_default,
      m_native = native, m_claims = (\<lambda>_. OPEN), m_cancels = (\<lambda>_. False), m_dones = (\<lambda>_. False)\<rparr>"

record admission =
  ad_id :: string
  ad_connection_id :: string
  ad_connection :: nat
  ad_global :: nat

record job_context =
  jc_job_id :: string
  jc_tracked :: bool

section \<open>Retention\<close>

abbreviation je_connection :: "job_entry \<Rightarrow> string" where
  "je_connection e \<equiv> sn_connection_id (je_snapshot e)"

abbreviation re_connection_id :: "review_entry \<Rightarrow> string" where
  "re_connection_id e \<equiv> ip_connection_id (rv_payload (re_review e))"

definition kept_job :: "instant \<Rightarrow> job_entry \<Rightarrow> bool" where
  "kept_job now e \<longleftrightarrow> retains_cleanup (je_io e) \<or>
     (case je_finished e of None \<Rightarrow> True | Some t \<Rightarrow> now - t < RETENTION)"

definition terminal_jobs :: "(string \<times> job_entry) list \<Rightarrow> (string \<times> instant) list" where
  "terminal_jobs js = sort_key snd
     (List.map_filter (\<lambda>(k, e). map_option (Pair k) (je_finished e))
       (filter (\<lambda>(_, e). \<not> retains_cleanup (je_io e)) js))"

definition prune_state :: "instant \<Rightarrow> manager \<Rightarrow> manager" where
  "prune_state now s =
     (let reviews = filter (\<lambda>(_, e). now - re_created e < REVIEW_TTL) (m_reviews s);
          js = filter (\<lambda>(_, e). kept_job now e) (m_jobs s);
          terminal = terminal_jobs js;
          excess = length terminal - MAX_TERMINAL
      in s\<lparr>m_reviews := reviews,
            m_jobs := fold (\<lambda>(k, _). AList.delete k) (take excess terminal) js\<rparr>)"

section \<open>Admission\<close>

definition holds_slot :: "job_entry \<Rightarrow> bool" where
  "holds_slot e \<longleftrightarrow> je_active e \<noteq> None \<or> retains_cleanup (je_io e)"

definition connection_closing :: "string \<Rightarrow> manager \<Rightarrow> bool" where
  "connection_closing c s \<longleftrightarrow>
     (case map_of (m_connections s) c of None \<Rightarrow> False | Some sc \<Rightarrow> 0 < sc_closing sc)"

definition connection_generation :: "string \<Rightarrow> manager \<Rightarrow> nat" where
  "connection_generation c s =
     (case map_of (m_connections s) c of None \<Rightarrow> 0 | Some sc \<Rightarrow> sc_generation sc)"

definition admit :: "instant \<Rightarrow> string \<Rightarrow> string \<Rightarrow> manager \<Rightarrow> admission transfer_result \<times> manager" where
  "admit now token c s0 =
     (if c = [] \<or> 128 < length c
      then (Inl (transfer_invalid ''connectionId'' ''Invalid connection identifier''), s0)
      else let s = prune_state now s0 in
        if 0 < sc_closing (m_global s) \<or> connection_closing c s then (Inl ConnectionClosing, s)
        else let active = length (filter (\<lambda>(_, e). holds_slot e) (m_jobs s)) in
          if MAX_ACTIVE \<le> active + length (m_pending s)
             \<or> list_ex (\<lambda>(_, e). holds_slot e \<and> je_connection e = c) (m_jobs s)
             \<or> list_ex (\<lambda>(_, p). pe_connection_id p = c) (m_pending s)
          then (Inl JobLimitReached, s)
          else (Inr \<lparr>ad_id = token, ad_connection_id = c,
                     ad_connection = connection_generation c s,
                     ad_global = sc_generation (m_global s)\<rparr>,
                s\<lparr>m_pending := AList.update token \<lparr>pe_connection_id = c\<rparr> (m_pending s),
                  m_cancels := (m_cancels s)(token := False),
                  m_dones := (m_dones s)(token := False)\<rparr>))"

text \<open>\<open>impl Drop for Admission\<close>, for a reservation \<open>start\<close> has not taken over.\<close>

definition drop_admission :: "admission \<Rightarrow> manager \<Rightarrow> manager" where
  "drop_admission a s =
     s\<lparr>m_pending := AList.delete (ad_id a) (m_pending s),
       m_dones := (m_dones s)(ad_id a := True)\<rparr>"

definition check_admission :: "manager \<Rightarrow> admission \<Rightarrow> unit transfer_result" where
  "check_admission s a =
     (if 0 < sc_closing (m_global s)
         \<or> sc_generation (m_global s) \<noteq> ad_global a
         \<or> (case map_of (m_connections s) (ad_connection_id a) of None \<Rightarrow> False
             | Some c \<Rightarrow> 0 < sc_closing c \<or> sc_generation c \<noteq> ad_connection a)
         \<or> \<not> (case map_of (m_pending s) (ad_id a) of None \<Rightarrow> False
               | Some _ \<Rightarrow> \<not> m_cancels s (ad_id a))
      then Inl ConnectionClosing else Inr ())"

definition admission_current :: "manager \<Rightarrow> admission \<Rightarrow> bool" where
  "admission_current s a = (case check_admission s a of Inr _ \<Rightarrow> True | Inl _ \<Rightarrow> False)"

section \<open>Reviews\<close>

definition review_entry_for :: "instant \<Rightarrow> admission \<Rightarrow> transfer_review \<Rightarrow> review_entry" where
  "review_entry_for now a rv =
     \<lparr>re_review = rv, re_created = now, re_connection = ad_connection a, re_global = ad_global a\<rparr>"

definition insert_shared_review ::
  "instant \<Rightarrow> string \<Rightarrow> admission \<Rightarrow> transfer_review \<Rightarrow> manager \<Rightarrow> string transfer_result \<times> manager" where
  "insert_shared_review now token a rv s0 =
     (let s = prune_state now s0 in
      case check_admission s a of Inl e \<Rightarrow> (Inl e, s)
      | Inr _ \<Rightarrow>
        if MAX_REVIEWS \<le> length (m_reviews s) then (Inl JobLimitReached, s)
        else (Inr token,
              s\<lparr>m_reviews := AList.update token (review_entry_for now a rv) (m_reviews s)\<rparr>))"

definition insert_review ::
  "instant \<Rightarrow> string \<Rightarrow> admission \<Rightarrow> transfer_review \<Rightarrow> manager \<Rightarrow> inspection transfer_result \<times> manager" where
  "insert_review now token a rv s0 =
     (let s = prune_state now s0 in
      case check_admission s a of Inl e \<Rightarrow> (Inl e, s)
      | Inr _ \<Rightarrow>
        if MAX_REVIEWS \<le> length (m_reviews s) then (Inl JobLimitReached, s)
        else let rv' = rv\<lparr>rv_inspection := (rv_inspection rv)\<lparr>in_inspection_token := token\<rparr>\<rparr> in
          (Inr (rv_inspection rv'),
           s\<lparr>m_reviews := AList.update token (review_entry_for now a rv') (m_reviews s)\<rparr>))"

definition find_review :: "instant \<Rightarrow> string \<Rightarrow> manager \<Rightarrow> transfer_review transfer_result \<times> manager" where
  "find_review now token s0 =
     (let s = prune_state now s0 in
      case map_of (m_reviews s) token of
        None \<Rightarrow> (Inl InspectionExpired, s)
      | Some e \<Rightarrow>
          if re_global e \<noteq> sc_generation (m_global s)
             \<or> re_connection e \<noteq> connection_generation (re_connection_id e) s
          then (Inl InspectionExpired, s)
          else (Inr (re_review e), s))"

definition release_review :: "string \<Rightarrow> manager \<Rightarrow> manager" where
  "release_review token s = s\<lparr>m_reviews := AList.delete token (m_reviews s)\<rparr>"

section \<open>Starting a job\<close>

text \<open>
  The new admission is consumed: on every error before the reservation is taken over the
  admission is dropped, which releases the reservation.  \<open>spawned\<close> is whether the task
  owner of a profile accepted the worker; the runtime of the plain build always does.
\<close>

definition valid_review :: "instant \<Rightarrow> admission \<Rightarrow> string \<Rightarrow> manager \<Rightarrow> bool" where
  "valid_review now a token s \<longleftrightarrow>
     (case map_of (m_reviews s) token of None \<Rightarrow> False
      | Some e \<Rightarrow> now - re_created e < REVIEW_TTL
          \<and> re_connection e = ad_connection a
          \<and> re_global e = ad_global a
          \<and> re_connection_id e = ad_connection_id a)"

definition start_job ::
  "instant \<Rightarrow> admission \<Rightarrow> string \<Rightarrow> snapshot \<Rightarrow> string \<Rightarrow> bool \<Rightarrow> manager \<Rightarrow>
   snapshot transfer_result \<times> manager" where
  "start_job now a token snap job spawned s =
     (case check_admission s a of
        Inl e \<Rightarrow> (Inl e, drop_admission a s)
      | Inr _ \<Rightarrow>
        if \<not> valid_review now a token s then (Inl InspectionExpired, drop_admission a s)
        else
          let s1 = s\<lparr>m_reviews := AList.delete token (m_reviews s),
                     m_pending := AList.delete (ad_id a) (m_pending s),
                     m_dones := (m_dones s)(ad_id a := True, job := False),
                     m_cancels := (m_cancels s)(job := False),
                     m_claims := (m_claims s)(job := OPEN)\<rparr>;
              snap' = snap\<lparr>sn_job_id := job\<rparr>;
              io = (if m_native s then \<lparr>io_tracked = True, io_complete = False\<rparr> else io_default)
          in if m_native s \<and> \<not> spawned then (Inl JobLimitReached, s1)
             else (Inr snap',
               s1\<lparr>m_jobs := AList.update job
                   \<lparr>je_snapshot = snap', je_active = Some \<lparr>ct_task = \<not> m_native s\<rparr>,
                    je_finished = None, je_io = io\<rparr> (m_jobs s)\<rparr>))"

definition job_context_of :: "string \<Rightarrow> manager \<Rightarrow> job_context" where
  "job_context_of job s = \<lparr>jc_job_id = job, jc_tracked = m_native s\<rparr>"

section \<open>What a worker does\<close>

definition compare_exchange :: "'a \<Rightarrow> 'a \<Rightarrow> 'a \<Rightarrow> bool \<times> 'a" where
  "compare_exchange old new current = (if current = old then (True, new) else (False, current))"

definition is_cancelled :: "job_context \<Rightarrow> manager \<Rightarrow> bool" where
  "is_cancelled ctx s \<longleftrightarrow> m_claims s (jc_job_id ctx) = CANCEL"

definition begin_finalizing :: "job_context \<Rightarrow> manager \<Rightarrow> bool \<times> manager" where
  "begin_finalizing ctx s =
     (let j = jc_job_id ctx in
      if jc_tracked ctx \<and>
         (0 < sc_closing (m_global s) \<or>
          (case map_of (m_jobs s) j of None \<Rightarrow> True
           | Some e \<Rightarrow> connection_closing (je_connection e) s))
      then (False, s)
      else case compare_exchange OPEN FINALIZING (m_claims s j) of
        (False, _) \<Rightarrow> (False, s)
      | (True, c) \<Rightarrow>
          (True, s\<lparr>m_claims := (m_claims s)(j := c),
                   m_jobs := AList.map_entry j
                     (\<lambda>e. e\<lparr>je_snapshot := (je_snapshot e)\<lparr>sn_phase := Finalizing\<rparr>\<rparr>) (m_jobs s)\<rparr>))"

definition record_progress :: "nat \<Rightarrow> nat option \<Rightarrow> snapshot \<Rightarrow> snapshot" where
  "record_progress bytes rows sn =
     sn\<lparr>sn_phase := (if sn_phase sn = Preparing then Running else sn_phase sn),
        sn_bytes_processed := min bytes SAFE_INTEGER,
        sn_rows_processed := map_option (\<lambda>v. min v SAFE_INTEGER) rows\<rparr>"

definition progress :: "job_context \<Rightarrow> nat \<Rightarrow> nat option \<Rightarrow> manager \<Rightarrow> manager" where
  "progress ctx bytes rows s =
     s\<lparr>m_jobs := AList.map_entry (jc_job_id ctx)
         (\<lambda>e. if je_active e = None then e
              else e\<lparr>je_snapshot := record_progress bytes rows (je_snapshot e)\<rparr>) (m_jobs s)\<rparr>"

definition succeeded :: "job_context \<Rightarrow> nat option \<Rightarrow> manager \<Rightarrow> manager" where
  "succeeded ctx rows s =
     (let j = jc_job_id ctx in
      case compare_exchange FINALIZING SUCCEEDED (m_claims s j) of
        (False, _) \<Rightarrow> s
      | (True, c) \<Rightarrow>
          s\<lparr>m_claims := (m_claims s)(j := c),
            m_jobs := AList.map_entry j
              (\<lambda>e. e\<lparr>je_snapshot := (je_snapshot e)
                     \<lparr>sn_rows_committed := map_option (\<lambda>v. min v SAFE_INTEGER) rows\<rparr>\<rparr>)
              (m_jobs s)\<rparr>)"

section \<open>How a worker ends\<close>

text \<open>What \<open>catch_unwind\<close> makes of a worker that panics.\<close>

definition worker_panicked :: "unit transfer_result" where
  "worker_panicked = Inl (IoFailure ''worker'' ''Transfer worker stopped unexpectedly'')"

definition worker_failure :: "unit transfer_result \<Rightarrow> bool" where
  "worker_failure r = (case r of Inl (IoFailure operation _) \<Rightarrow> operation = ''worker'' | _ \<Rightarrow> False)"

definition acknowledged_result :: "claim \<Rightarrow> unit transfer_result \<Rightarrow> unit transfer_result" where
  "acknowledged_result c r =
     (if c = SUCCEEDED then Inr ()
      else case r of
        Inr _ \<Rightarrow> Inl (IoFailure ''worker'' ''Transfer ended without acknowledged completion'')
      | Inl e \<Rightarrow> Inl e)"

definition job_get :: "instant \<Rightarrow> string \<Rightarrow> manager \<Rightarrow> snapshot transfer_result \<times> manager" where
  "job_get now j s0 =
     (let s = prune_state now s0 in
      case map_of (m_jobs s) j of None \<Rightarrow> (Inl JobNotFound, s)
      | Some e \<Rightarrow> (Inr (je_snapshot e), s))"

text \<open>\<open>complete\<close> up to the completion effects, which run before the lock is taken again.\<close>

definition complete_result ::
  "instant \<Rightarrow> job_context \<Rightarrow> unit transfer_result \<Rightarrow> manager \<Rightarrow> unit transfer_result \<times> manager" where
  "complete_result now ctx r s =
     (let c = m_claims s (jc_job_id ctx); r' = acknowledged_result c r in
      if c = FINALIZING \<and> worker_failure r'
      then case job_get now (jc_job_id ctx) s of
          (Inr sn, s') \<Rightarrow> (if sn_direction sn = Import then Inl OutcomeUnknown else r', s')
        | (Inl _, s') \<Rightarrow> (r', s')
      else (r', s))"

definition terminal_phase :: "claim \<Rightarrow> unit transfer_result \<Rightarrow> transfer_phase" where
  "terminal_phase c r =
     (if c = SUCCEEDED then Completed
      else if r = Inl OutcomeUnknown then PhaseOutcomeUnknown
      else if c = CANCEL \<or> r = Inl Cancelled then PhaseCancelled
      else Failed)"

definition result_err :: "'a transfer_result \<Rightarrow> transfer_error option" where
  "result_err r = (case r of Inl e \<Rightarrow> Some e | Inr _ \<Rightarrow> None)"

definition finish_snapshot :: "claim \<Rightarrow> string \<Rightarrow> unit transfer_result \<Rightarrow> snapshot \<Rightarrow> snapshot" where
  "finish_snapshot c stamp r sn =
     (let ph = terminal_phase c r in
      sn\<lparr>sn_phase := ph,
         sn_failure := (if ph = Completed then None else result_err r),
         sn_finished_at := Some stamp\<rparr>)"

definition finish_job :: "instant \<Rightarrow> string \<Rightarrow> string \<Rightarrow> unit transfer_result \<Rightarrow> manager \<Rightarrow> manager" where
  "finish_job now stamp j r s =
     (case map_of (m_jobs s) j of
        None \<Rightarrow> s
      | Some e \<Rightarrow>
        (case je_active e of
           None \<Rightarrow> s
         | Some _ \<Rightarrow>
             prune_state now
               (s\<lparr>m_jobs := AList.update j
                    (e\<lparr>je_active := None,
                       je_snapshot := finish_snapshot (m_claims s j) stamp r (je_snapshot e),
                       je_finished := Some now\<rparr>) (m_jobs s),
                  m_dones := (m_dones s)(j := True)\<rparr>)))"

section \<open>Reading and releasing jobs\<close>

definition job_list :: "instant \<Rightarrow> string option \<Rightarrow> manager \<Rightarrow> snapshot list \<times> manager" where
  "job_list now c s0 =
     (let s = prune_state now s0;
          js = map (je_snapshot \<circ> snd)
                 (filter (\<lambda>(_, e). case c of None \<Rightarrow> True | Some c' \<Rightarrow> je_connection e = c') (m_jobs s))
      in (sort_key (\<lambda>sn. (sn_started_at sn, sn_job_id sn)) js, s))"

definition job_observation :: "string \<Rightarrow> manager \<Rightarrow> (snapshot \<times> io_context) option" where
  "job_observation j s = map_option (\<lambda>e. (je_snapshot e, je_io e)) (map_of (m_jobs s) j)"

definition job_is_active :: "string \<Rightarrow> manager \<Rightarrow> bool" where
  "job_is_active j s =
     (case map_of (m_jobs s) j of None \<Rightarrow> False | Some e \<Rightarrow> je_active e \<noteq> None)"

definition job_release :: "string \<Rightarrow> manager \<Rightarrow> unit transfer_result \<times> manager" where
  "job_release j s =
     (if job_is_active j s then (Inl JobActive, s)
      else (Inr (), s\<lparr>m_jobs := AList.delete j (m_jobs s)\<rparr>))"

section \<open>Cancelling\<close>

text \<open>\<open>cancel_entry\<close> on an entry and the two cells of its job.\<close>

definition cancel_entry :: "job_entry \<Rightarrow> claim \<Rightarrow> bool \<Rightarrow> bool \<times> job_entry \<times> claim \<times> bool" where
  "cancel_entry e c flag =
     (case je_active e of
        None \<Rightarrow> (False, e, c, flag)
      | Some _ \<Rightarrow>
        (case compare_exchange OPEN CANCEL c of
           (False, c') \<Rightarrow> (False, e, c', flag)
         | (True, c') \<Rightarrow>
             (True, e\<lparr>je_snapshot := (je_snapshot e)\<lparr>sn_phase := Cancelling\<rparr>\<rparr>, c', True)))"

definition cancel_job :: "string \<Rightarrow> manager \<Rightarrow> (snapshot \<times> bool) transfer_result \<times> manager" where
  "cancel_job j s =
     (case map_of (m_jobs s) j of
        None \<Rightarrow> (Inl JobNotFound, s)
      | Some e \<Rightarrow>
        (case cancel_entry e (m_claims s j) (m_cancels s j) of
           (accepted, e', c', flag') \<Rightarrow>
             (Inr (je_snapshot e', accepted \<and> \<not> m_native s),
              s\<lparr>m_jobs := AList.update j e' (m_jobs s),
                m_claims := (m_claims s)(j := c'),
                m_cancels := (m_cancels s)(j := flag')\<rparr>)))"

text \<open>
  The locked part of \<open>abort_cancelled\<close>: the jobs whose task it aborts and joins, and the
  jobs whose end it waits for.
\<close>

definition abort_selects :: "string option \<Rightarrow> string option \<Rightarrow> manager \<Rightarrow> string \<Rightarrow> job_entry \<Rightarrow> bool" where
  "abort_selects c j s k e \<longleftrightarrow>
     (case j of None \<Rightarrow> True | Some j' \<Rightarrow> k = j')
     \<and> (case c of None \<Rightarrow> True | Some c' \<Rightarrow> je_connection e = c')
     \<and> je_active e \<noteq> None \<and> m_claims s k = CANCEL"

definition has_task :: "job_entry \<Rightarrow> bool" where
  "has_task e = (case je_active e of None \<Rightarrow> False | Some ct \<Rightarrow> ct_task ct)"

definition abort_entry :: "job_entry \<Rightarrow> job_entry" where
  "abort_entry e =
     e\<lparr>je_active := map_option (\<lambda>ct. ct\<lparr>ct_task := False\<rparr>) (je_active e),
       je_snapshot := (je_snapshot e)\<lparr>sn_failure := Some (Timeout ''cleanup'')\<rparr>\<rparr>"

definition abort_cancelled ::
  "string option \<Rightarrow> string option \<Rightarrow> manager \<Rightarrow> string list \<times> string list \<times> manager" where
  "abort_cancelled c j s =
     (if m_native s then ([], [], s)
      else
        let selected = filter (\<lambda>(k, e). abort_selects c j s k e) (m_jobs s);
            tasks = map fst (filter (\<lambda>(_, e). has_task e) selected)
        in (tasks, map fst selected,
            s\<lparr>m_jobs := map (\<lambda>(k, e). (k, if abort_selects c j s k e \<and> has_task e
                                           then abort_entry e else e)) (m_jobs s)\<rparr>))"

section \<open>Teardown of a connection or of the whole manager\<close>

definition in_scope :: "string option \<Rightarrow> string \<Rightarrow> bool" where
  "in_scope c c' = (case c of None \<Rightarrow> True | Some c0 \<Rightarrow> c' = c0)"

definition close_scope :: "scope \<Rightarrow> scope" where
  "close_scope sc = \<lparr>sc_closing = sc_closing sc + 1, sc_generation = sc_generation sc + 1\<rparr>"

definition reopen_scope :: "scope \<Rightarrow> scope" where
  "reopen_scope sc = sc\<lparr>sc_closing := sc_closing sc - 1\<rparr>"

definition scope_of :: "string \<Rightarrow> manager \<Rightarrow> scope" where
  "scope_of c s = (case map_of (m_connections s) c of None \<Rightarrow> scope_default | Some sc \<Rightarrow> sc)"

definition update_scope :: "(scope \<Rightarrow> scope) \<Rightarrow> string option \<Rightarrow> manager \<Rightarrow> manager" where
  "update_scope f c s =
     (case c of
        Some c' \<Rightarrow> s\<lparr>m_connections := AList.update c' (f (scope_of c' s)) (m_connections s)\<rparr>
      | None \<Rightarrow> s\<lparr>m_global := f (m_global s)\<rparr>)"

text \<open>\<open>cancel_entry\<close> on every job in scope; each one has cells of its own.\<close>

definition cancelled_cells :: "string option \<Rightarrow> manager \<Rightarrow> string \<Rightarrow> bool \<times> claim \<times> bool" where
  "cancelled_cells c s k =
     (case map_of (m_jobs s) k of
        None \<Rightarrow> (False, m_claims s k, m_cancels s k)
      | Some e \<Rightarrow>
          if in_scope c (je_connection e)
          then (case cancel_entry e (m_claims s k) (m_cancels s k) of (acc, _, c', f') \<Rightarrow> (acc, c', f'))
          else (False, m_claims s k, m_cancels s k))"

definition cancel_jobs :: "string option \<Rightarrow> manager \<Rightarrow> manager" where
  "cancel_jobs c s =
     s\<lparr>m_jobs := map (\<lambda>(k, e). (k, if in_scope c (je_connection e)
                    then fst (snd (cancel_entry e (m_claims s k) (m_cancels s k))) else e)) (m_jobs s),
       m_claims := (\<lambda>k. fst (snd (cancelled_cells c s k))),
       m_cancels := (\<lambda>k. snd (snd (cancelled_cells c s k)))\<rparr>"

definition begin_teardown :: "string option \<Rightarrow> manager \<Rightarrow> string list \<times> manager" where
  "begin_teardown c s0 =
     (let s1 = update_scope close_scope c s0;
          s2 = s1\<lparr>m_reviews := filter (\<lambda>(_, e). case c of None \<Rightarrow> False
                                      | Some c' \<Rightarrow> re_connection_id e \<noteq> c') (m_reviews s1)\<rparr>;
          s3 = cancel_jobs c s2;
          job_waits = map fst (filter (\<lambda>(_, e). in_scope c (je_connection e) \<and> je_active e \<noteq> None)
                                (m_jobs s3));
          dropped = map fst (filter (\<lambda>(_, p). in_scope c (pe_connection_id p)) (m_pending s3))
      in (job_waits @ dropped,
          s3\<lparr>m_cancels := (\<lambda>k. k \<in> set dropped \<or> m_cancels s3 k)\<rparr>))"

definition end_teardown :: "string option \<Rightarrow> manager \<Rightarrow> manager" where
  "end_teardown c s = update_scope reopen_scope c s"

text \<open>The end of \<open>IoContext::cleanup\<close>, once the owned work of a finished job is drained.\<close>

definition io_cleaned :: "string \<Rightarrow> manager \<Rightarrow> manager" where
  "io_cleaned j s =
     s\<lparr>m_jobs := AList.map_entry j (\<lambda>e. e\<lparr>je_io := (je_io e)\<lparr>io_complete := True\<rparr>\<rparr>) (m_jobs s)\<rparr>"

end
