(* ===== verification/TransferFacts.thy ===== *)
theory TransferFacts imports TransferManager "HOL-Library.Multiset" begin

text \<open>
  What one operation of the transfer manager keeps.  \<open>manager_ok\<close> is the invariant of the
  state behind the mutex: identifiers are used once, the phase of a job agrees with its claim,
  the done cell of a job or reservation is set exactly when it is over, at most
  \<open>MAX_ACTIVE\<close> slots are taken and at most one per connection, and in a scope that is
  closing every reservation and every job short of its commit point is cancelled.  Every
  operation preserves it.
\<close>

named_theorems job_lists "lookups and keys after an update of the job list"

section \<open>Association lists\<close>

definition adjust :: "('k \<Rightarrow> 'v \<Rightarrow> 'v) \<Rightarrow> ('k \<times> 'v) list \<Rightarrow> ('k \<times> 'v) list" where
  "adjust g xs = map (\<lambda>(k, v). (k, g k v)) xs"

abbreviation keys :: "('k \<times> 'v) list \<Rightarrow> 'k list" where
  "keys xs \<equiv> map fst xs"

lemma keys_adjust [simp, job_lists]: "keys (adjust g xs) = keys xs"
  by (induction xs) (auto simp: adjust_def)

lemma map_of_adjust [simp, job_lists]: "map_of (adjust g xs) k = map_option (g k) (map_of xs k)"
  by (induction xs) (auto simp: adjust_def)

lemma adjust_absent: "k \<notin> set (keys xs) \<Longrightarrow> adjust (\<lambda>k' v. if k' = k then f v else v) xs = xs"
  by (induction xs) (auto simp: adjust_def)

lemma map_entry_adjust:
  "distinct (keys xs) \<Longrightarrow> AList.map_entry k f xs = adjust (\<lambda>k' v. if k' = k then f v else v) xs"
proof (induction xs)
  case (Cons x xs)
  then show ?case
    using adjust_absent [of "fst x" xs f] by (cases x) (auto simp: adjust_def)
qed (simp add: adjust_def)

lemma update_adjust:
  "distinct (keys xs) \<Longrightarrow> k \<in> set (keys xs) \<Longrightarrow>
   AList.update k v' xs = adjust (\<lambda>k' v. if k' = k then v' else v) xs"
proof (induction xs)
  case (Cons x xs)
  then show ?case
    using adjust_absent [of "fst x" xs "\<lambda>_. v'"] by (cases x) (auto simp: adjust_def)
qed simp

lemma map_of_keys: "map_of xs k = Some v \<Longrightarrow> k \<in> set (keys xs)"
  by (force dest: map_of_SomeD)

lemma adjust_cong:
  "distinct (keys xs) \<Longrightarrow> (\<And>k v. map_of xs k = Some v \<Longrightarrow> f k v = g k v) \<Longrightarrow> adjust f xs = adjust g xs"
  by (auto simp: adjust_def)

lemma adjust_ident [simp]: "adjust (\<lambda>_ v. v) xs = xs"
  by (simp add: adjust_def)

lemma update_in_place:
  assumes "distinct (keys xs)" "map_of xs k = Some v"
  shows "AList.update k (f v) xs = adjust (\<lambda>k' v. if k' = k then f v else v) xs"
  unfolding update_adjust [OF assms(1) map_of_keys [OF assms(2)]]
  by (rule adjust_cong [OF assms(1)]) (use assms(2) in auto)

lemma update_same:
  assumes "distinct (keys xs)" "map_of xs k = Some v"
  shows "AList.update k v xs = xs"
  using update_in_place [OF assms, of "\<lambda>v. v"] by simp

lemma update_fresh: "k \<notin> set (keys xs) \<Longrightarrow> AList.update k v xs = xs @ [(k, v)]"
  by (induction xs) auto

lemma delete_filter: "AList.delete k xs = filter (\<lambda>(k', _). k' \<noteq> k) xs"
  by (auto simp: AList.delete_eq case_prod_beta intro!: filter_cong)

lemma fold_delete_filter:
  "fold (\<lambda>x. AList.delete (fst x)) ks xs = filter (\<lambda>x. fst x \<notin> fst ` set ks) xs"
proof (induction ks arbitrary: xs)
  case (Cons x ks)
  have "fold (\<lambda>x. AList.delete (fst x)) (x # ks) xs =
      filter (\<lambda>x. fst x \<notin> fst ` set ks) (filter (\<lambda>y. fst y \<noteq> fst x) xs)"
    by (simp add: Cons.IH delete_filter case_prod_beta')
  then show ?case by (simp add: conj_commute)
qed simp

lemma keys_filter_subset: "set (keys (filter P xs)) \<subseteq> set (keys xs)"
  by auto

lemma distinct_keys_filter: "distinct (keys xs) \<Longrightarrow> distinct (keys (filter P xs))"
  by (simp add: distinct_map_filter)

lemma map_of_filter_Some:
  "distinct (keys xs) \<Longrightarrow>
   map_of (filter P xs) k = Some v \<longleftrightarrow> map_of xs k = Some v \<and> P (k, v)"
  by (simp add: map_of_eq_Some_iff distinct_map_filter)

lemma map_of_filter:
  assumes d: "distinct (keys xs)"
  shows "map_of (filter P xs) k =
    (case map_of xs k of Some v \<Rightarrow> if P (k, v) then Some v else None | None \<Rightarrow> None)"
proof (cases "map_of (filter P xs) k")
  case None
  then have "map_of xs k = Some v \<Longrightarrow> \<not> P (k, v)" for v
    using map_of_filter_Some [OF d, of P k v] by auto
  with None show ?thesis by (simp split: option.split)
next
  case (Some v)
  then have "map_of xs k = Some v" "P (k, v)"
    using map_of_filter_Some [OF d, of P k v] by blast+
  with Some show ?thesis by simp
qed

lemma map_of_mset_eq:
  assumes eq: "mset xs = mset ys" and d: "distinct (keys xs)"
  shows "map_of xs = map_of ys" and "distinct (keys ys)"
proof -
  from eq have "mset (keys xs) = mset (keys ys)" by (metis mset_map)
  with d show d': "distinct (keys ys)" using mset_eq_imp_distinct_iff by blast
  from eq have "set xs = set ys" by (rule mset_eq_setD)
  with d d' show "map_of xs = map_of ys" by (simp add: map_of_inject_set)
qed

section \<open>Retention\<close>

definition kept_after_prune :: "instant \<Rightarrow> (string \<times> job_entry) list \<Rightarrow> string \<times> job_entry \<Rightarrow> bool" where
  "kept_after_prune now js = (\<lambda>(k, e). kept_job now e \<and>
     (let terminal = terminal_jobs (filter (\<lambda>(_, e). kept_job now e) js)
      in k \<notin> set (keys (take (length terminal - MAX_TERMINAL) terminal))))"

lemma prune_jobs: "m_jobs (prune_state now s) = filter (kept_after_prune now (m_jobs s)) (m_jobs s)"
  by (simp add: prune_state_def Let_def fold_delete_filter kept_after_prune_def
      case_prod_beta' conj_commute)

lemma prune_reviews:
  "m_reviews (prune_state now s) = filter (\<lambda>(_, e). now - re_created e < REVIEW_TTL) (m_reviews s)"
  by (simp add: prune_state_def Let_def)

lemma prune_rest [simp]:
  "m_pending (prune_state now s) = m_pending s"
  "m_connections (prune_state now s) = m_connections s"
  "m_global (prune_state now s) = m_global s"
  "m_native (prune_state now s) = m_native s"
  "m_claims (prune_state now s) = m_claims s"
  "m_cancels (prune_state now s) = m_cancels s"
  "m_dones (prune_state now s) = m_dones s"
  by (simp_all add: prune_state_def Let_def)

lemma set_terminal_jobs:
  "(k, t) \<in> set (terminal_jobs js) \<longleftrightarrow>
     (\<exists>e. (k, e) \<in> set js \<and> je_finished e = Some t \<and> \<not> retains_cleanup (je_io e))"
proof -
  have "(k, t) \<in> set (List.map_filter (\<lambda>(k, e). map_option (Pair k) (je_finished e)) xs) \<longleftrightarrow>
      (\<exists>e. (k, e) \<in> set xs \<and> je_finished e = Some t)" for xs :: "(string \<times> job_entry) list"
    by (induction xs) (auto simp: List.map_filter_simps split: option.splits)
  then show ?thesis by (auto simp: terminal_jobs_def)
qed

lemma prune_keeps:
  assumes d: "distinct (keys (m_jobs s))" and e: "(k, e) \<in> set (m_jobs s)"
    and open_job: "je_finished e = None \<or> retains_cleanup (je_io e)"
  shows "(k, e) \<in> set (m_jobs (prune_state now s))"
proof -
  let ?js = "filter (\<lambda>(_, e). kept_job now e) (m_jobs s)"
  have "(k, t) \<notin> set (terminal_jobs ?js)" for t
  proof
    assume "(k, t) \<in> set (terminal_jobs ?js)"
    then obtain e' where e': "(k, e') \<in> set (m_jobs s)"
        "je_finished e' = Some t" "\<not> retains_cleanup (je_io e')"
      unfolding set_terminal_jobs by auto
    from d e'(1) e have "e' = e" by (rule eq_key_imp_eq_value)
    with e' open_job show False by simp
  qed
  then have "k \<notin> set (keys (take n (terminal_jobs ?js)))" for n
    using in_set_takeD by fastforce
  moreover have "kept_job now e" using open_job by (auto simp: kept_job_def)
  ultimately show ?thesis using e by (simp add: prune_jobs kept_after_prune_def Let_def)
qed

section \<open>The invariant\<close>

fun active_phase :: "claim \<Rightarrow> transfer_phase \<Rightarrow> bool" where
  "active_phase OPEN ph \<longleftrightarrow> ph = Preparing \<or> ph = Running"
| "active_phase CANCEL ph \<longleftrightarrow> ph = Cancelling"
| "active_phase FINALIZING ph \<longleftrightarrow> ph = Finalizing"
| "active_phase SUCCEEDED ph \<longleftrightarrow> ph = Finalizing"

definition job_ok :: "string \<Rightarrow> claim \<Rightarrow> bool \<Rightarrow> job_entry \<Rightarrow> bool" where
  "job_ok j c d e \<longleftrightarrow> sn_job_id (je_snapshot e) = j \<and>
     (if je_active e \<noteq> None
      then je_finished e = None \<and> \<not> d \<and> active_phase c (sn_phase (je_snapshot e))
      else je_finished e \<noteq> None \<and> d \<and> phase_terminal (sn_phase (je_snapshot e))
        \<and> (sn_phase (je_snapshot e) = Completed \<longleftrightarrow> c = SUCCEEDED)
        \<and> (c = CANCEL \<longrightarrow> sn_phase (je_snapshot e) \<in> {PhaseCancelled, PhaseOutcomeUnknown}))"

definition scope_closing :: "string \<Rightarrow> manager \<Rightarrow> bool" where
  "scope_closing c s \<longleftrightarrow> 0 < sc_closing (m_global s) \<or> connection_closing c s"

definition job_slots :: "(string \<times> job_entry) list \<Rightarrow> string multiset" where
  "job_slots js = mset (map (\<lambda>x. je_connection (snd x)) (filter (\<lambda>x. holds_slot (snd x)) js))"

definition slot_connections :: "manager \<Rightarrow> string multiset" where
  "slot_connections s = job_slots (m_jobs s) + mset (map (\<lambda>x. pe_connection_id (snd x)) (m_pending s))"

definition ids_ok :: "manager \<Rightarrow> bool" where
  "ids_ok s \<longleftrightarrow> distinct (keys (m_jobs s)) \<and> distinct (keys (m_pending s))
     \<and> distinct (keys (m_reviews s)) \<and> set (keys (m_jobs s)) \<inter> set (keys (m_pending s)) = {}"

definition jobs_ok :: "manager \<Rightarrow> bool" where
  "jobs_ok s \<longleftrightarrow> (\<forall>j e. map_of (m_jobs s) j = Some e \<longrightarrow> job_ok j (m_claims s j) (m_dones s j) e)"

definition pending_ok :: "manager \<Rightarrow> bool" where
  "pending_ok s \<longleftrightarrow> (\<forall>t p. map_of (m_pending s) t = Some p \<longrightarrow> \<not> m_dones s t)"

definition slots_ok :: "manager \<Rightarrow> bool" where
  "slots_ok s \<longleftrightarrow> size (slot_connections s) \<le> MAX_ACTIVE \<and> (\<forall>c. count (slot_connections s) c \<le> 1)"

definition reviews_ok :: "manager \<Rightarrow> bool" where
  "reviews_ok s \<longleftrightarrow> length (m_reviews s) \<le> MAX_REVIEWS"

definition closing_ok :: "manager \<Rightarrow> bool" where
  "closing_ok s \<longleftrightarrow>
     (\<forall>j e. map_of (m_jobs s) j = Some e \<longrightarrow> je_active e \<noteq> None \<longrightarrow>
        scope_closing (je_connection e) s \<longrightarrow> m_claims s j \<noteq> OPEN)
     \<and> (\<forall>t p. map_of (m_pending s) t = Some p \<longrightarrow>
        scope_closing (pe_connection_id p) s \<longrightarrow> m_cancels s t)"

definition manager_ok :: "manager \<Rightarrow> bool" where
  "manager_ok s \<longleftrightarrow> ids_ok s \<and> jobs_ok s \<and> pending_ok s \<and> slots_ok s \<and> reviews_ok s \<and> closing_ok s"

lemma manager_okI [intro?]:
  "ids_ok s \<Longrightarrow> jobs_ok s \<Longrightarrow> pending_ok s \<Longrightarrow> slots_ok s \<Longrightarrow> reviews_ok s \<Longrightarrow> closing_ok s \<Longrightarrow> manager_ok s"
  by (simp add: manager_ok_def)

lemma manager_okD:
  assumes "manager_ok s"
  shows "ids_ok s" "jobs_ok s" "pending_ok s" "slots_ok s" "reviews_ok s" "closing_ok s"
  using assms by (simp_all add: manager_ok_def)

lemma manager_distinct [simp]:
  assumes "manager_ok s"
  shows "distinct (keys (m_jobs s))" "distinct (keys (m_pending s))" "distinct (keys (m_reviews s))"
  using assms by (simp_all add: manager_ok_def ids_ok_def)

lemma manager_new_ok: "manager_ok (manager_new native)"
  by (simp add: manager_ok_def manager_new_def ids_ok_def jobs_ok_def pending_ok_def slots_ok_def
      reviews_ok_def closing_ok_def slot_connections_def job_slots_def)

section \<open>Slots\<close>

lemma slots_ok_mono: "slots_ok s \<Longrightarrow> slot_connections s' \<subseteq># slot_connections s \<Longrightarrow> slots_ok s'"
  unfolding slots_ok_def by (meson le_trans mset_subset_eq_count size_mset_mono)

lemma job_slots_simps [simp]:
  "job_slots [] = {#}"
  "job_slots (x # js) =
     (if holds_slot (snd x) then add_mset (je_connection (snd x)) (job_slots js) else job_slots js)"
  "job_slots (js @ js') = job_slots js + job_slots js'"
  by (simp_all add: job_slots_def)

lemma subset_add_mset: "A \<subseteq># B \<Longrightarrow> A \<subseteq># add_mset x B"
  by (simp add: subseteq_mset_def le_SucI)

lemma job_slots_filter: "job_slots (filter P js) \<subseteq># job_slots js"
  by (induction js) (auto intro: subset_add_mset)

lemma mset_keys_filter_subset: "mset (map f (filter P xs)) \<subseteq># mset (map f xs)"
  by (simp add: image_mset_subseteq_mono)

lemma job_slots_adjust:
  assumes "\<And>k e. (k, e) \<in> set js \<Longrightarrow>
      je_connection (g k e) = je_connection e \<and> (holds_slot (g k e) \<longrightarrow> holds_slot e)"
  shows "job_slots (adjust g js) \<subseteq># job_slots js"
  using assms
proof (induction js)
  case (Cons x js)
  have IH: "job_slots (adjust g js) \<subseteq># job_slots js"
    by (rule Cons.IH, rule Cons.prems, simp)
  obtain k e where x: "x = (k, e)" by (cases x)
  with Cons.prems have "je_connection (g k e) = je_connection e" "holds_slot (g k e) \<longrightarrow> holds_slot e"
    by auto
  moreover have "adjust g ((k, e) # js) = (k, g k e) # adjust g js" by (simp add: adjust_def)
  ultimately show ?case
    using IH by (auto simp: x intro: subset_add_mset)
qed (simp add: adjust_def)

lemma slots_take_filter:
  assumes "m_jobs s' = filter P (m_jobs s)" "m_pending s' = filter Q (m_pending s)"
  shows "slot_connections s' \<subseteq># slot_connections s"
  unfolding slot_connections_def assms
  by (intro subset_mset.add_mono job_slots_filter mset_keys_filter_subset)

section \<open>Two shapes of update\<close>

text \<open>Operations that only remove entries, and leave the cells of what stays alone.\<close>

lemma shrink_ok:
  assumes ok: "manager_ok s"
    and jobs: "m_jobs s' = filter P (m_jobs s)" and pend: "m_pending s' = filter Q (m_pending s)"
    and revs: "m_reviews s' = filter R (m_reviews s)"
    and scopes: "m_connections s' = m_connections s" "m_global s' = m_global s"
    and claims: "m_claims s' = m_claims s" and cancels: "m_cancels s' = m_cancels s"
    and dones: "\<And>k. k \<in> set (keys (m_jobs s')) \<union> set (keys (m_pending s')) \<Longrightarrow> m_dones s' k = m_dones s k"
  shows "manager_ok s'"
proof
  note parts = manager_okD [OF ok]
  note look = map_of_filter_Some [OF manager_distinct(1) [OF ok]]
    map_of_filter_Some [OF manager_distinct(2) [OF ok]]
  have same: "scope_closing c s' = scope_closing c s" for c
    by (simp add: scope_closing_def connection_closing_def scopes)
  show "ids_ok s'"
    using parts(1) by (auto simp: ids_ok_def jobs pend revs distinct_map_filter)
  show "jobs_ok s'"
    unfolding jobs_ok_def
  proof (intro allI impI)
    fix j e assume e: "map_of (m_jobs s') j = Some e"
    then have "m_dones s' j = m_dones s j"
      by (intro dones) (auto dest!: map_of_SomeD intro: rev_image_eqI)
    with e parts(2) show "job_ok j (m_claims s' j) (m_dones s' j) e"
      by (simp add: jobs_ok_def jobs look claims)
  qed
  show "pending_ok s'"
    unfolding pending_ok_def
  proof (intro allI impI)
    fix t p assume p: "map_of (m_pending s') t = Some p"
    then have "m_dones s' t = m_dones s t"
      by (intro dones) (auto dest!: map_of_SomeD intro: rev_image_eqI)
    with p parts(3) show "\<not> m_dones s' t" by (auto simp: pending_ok_def pend look)
  qed
  show "slots_ok s'" by (rule slots_ok_mono [OF parts(4) slots_take_filter [OF jobs pend]])
  show "reviews_ok s'"
    using parts(5) by (auto simp: reviews_ok_def revs intro: le_trans [OF length_filter_le])
  show "closing_ok s'"
    using parts(6) by (auto simp: closing_ok_def jobs pend look same claims cancels)
qed

text \<open>Operations that rewrite entries in place, with the cells of the same jobs.\<close>

definition entry_step :: "manager \<Rightarrow> manager \<Rightarrow> string \<Rightarrow> job_entry \<Rightarrow> job_entry \<Rightarrow> bool" where
  "entry_step s s' j e e' \<longleftrightarrow> job_ok j (m_claims s' j) (m_dones s' j) e'
     \<and> je_connection e' = je_connection e
     \<and> (holds_slot e' \<longrightarrow> holds_slot e)
     \<and> (je_active e' \<noteq> None \<longrightarrow> je_active e \<noteq> None)
     \<and> (m_claims s' j = OPEN \<longrightarrow> m_claims s j = OPEN)"

lemma adjust_ok:
  assumes ok: "manager_ok s"
    and jobs: "m_jobs s' = adjust g (m_jobs s)" and pend: "m_pending s' = m_pending s"
    and revs: "m_reviews s' = m_reviews s"
    and scopes: "m_connections s' = m_connections s" "m_global s' = m_global s"
    and entries: "\<And>j e. map_of (m_jobs s) j = Some e \<Longrightarrow>
        job_ok j (m_claims s j) (m_dones s j) e \<Longrightarrow> entry_step s s' j e (g j e)"
    and cells: "\<And>t p. map_of (m_pending s) t = Some p \<Longrightarrow> t \<notin> set (keys (m_jobs s)) \<Longrightarrow>
        m_dones s' t = m_dones s t \<and> (m_cancels s t \<longrightarrow> m_cancels s' t)"
  shows "manager_ok s'"
proof
  note parts = manager_okD [OF ok]
  have step: "entry_step s s' j e (g j e)" if "map_of (m_jobs s) j = Some e" for j e
    using entries [OF that] parts(2) that by (simp add: jobs_ok_def)
  have cell: "m_dones s' t = m_dones s t \<and> (m_cancels s t \<longrightarrow> m_cancels s' t)"
    if t: "map_of (m_pending s) t = Some p" for t p
  proof (rule cells [OF t])
    from t have "t \<in> set (keys (m_pending s))" by (auto dest: map_of_SomeD intro: rev_image_eqI)
    with parts(1) show "t \<notin> set (keys (m_jobs s))" unfolding ids_ok_def by blast
  qed
  have same: "scope_closing c s' = scope_closing c s" for c
    by (simp add: scope_closing_def connection_closing_def scopes)
  show "ids_ok s'" using parts(1) by (simp add: ids_ok_def jobs pend revs)
  show "jobs_ok s'" using step by (auto simp: jobs_ok_def jobs entry_step_def)
  show "pending_ok s'" using parts(3) cell by (auto simp: pending_ok_def pend)
  show "slots_ok s'"
  proof (rule slots_ok_mono [OF parts(4)])
    have "job_slots (adjust g (m_jobs s)) \<subseteq># job_slots (m_jobs s)"
    proof (rule job_slots_adjust)
      fix k e assume "(k, e) \<in> set (m_jobs s)"
      with ok have "map_of (m_jobs s) k = Some e" by simp
      from step [OF this]
      show "je_connection (g k e) = je_connection e \<and> (holds_slot (g k e) \<longrightarrow> holds_slot e)"
        by (simp add: entry_step_def)
    qed
    then show "slot_connections s' \<subseteq># slot_connections s"
      by (simp add: slot_connections_def jobs pend)
  qed
  show "reviews_ok s'" using parts(5) by (simp add: reviews_ok_def revs)
  show "closing_ok s'"
    using parts(6) step cell
    by (fastforce simp: closing_ok_def jobs pend same entry_step_def)
qed

section \<open>Every operation keeps the invariant\<close>

lemma prune_ok [simp]: "manager_ok s \<Longrightarrow> manager_ok (prune_state now s)"
  by (rule shrink_ok [where Q = "\<lambda>_. True"]) (simp_all add: prune_jobs prune_reviews)

lemma prune_map_of_job:
  assumes "manager_ok s" "map_of (m_jobs (prune_state now s)) j = Some e"
  shows "map_of (m_jobs s) j = Some e"
  using assms by (simp add: prune_jobs map_of_filter_Some)

lemma prune_active:
  assumes ok: "manager_ok s" and e: "map_of (m_jobs s) j = Some e" and active: "je_active e \<noteq> None"
  shows "map_of (m_jobs (prune_state now s)) j = Some e"
proof -
  from manager_okD(2) [OF ok] e active have "je_finished e = None"
    by (auto simp: jobs_ok_def job_ok_def)
  with ok e have "(j, e) \<in> set (m_jobs (prune_state now s))"
    by (intro prune_keeps) (auto dest: map_of_SomeD)
  with prune_ok [OF ok] show ?thesis by simp
qed

text \<open>Admission.\<close>

lemma active_count: "length (filter (\<lambda>(_, e). holds_slot e) js) = size (job_slots js)"
  by (induction js) auto

lemma slot_free:
  "\<not> list_ex (\<lambda>(_, e). holds_slot e \<and> je_connection e = c) js \<Longrightarrow> count (job_slots js) c = 0"
  by (induction js) auto

lemma pending_free:
  "\<not> list_ex (\<lambda>(_, p). pe_connection_id p = c) ps \<Longrightarrow>
   count (image_mset (\<lambda>x. pe_connection_id (snd x)) (mset ps)) c = 0"
  by (induction ps) auto

lemma admit_Inr:
  assumes "admit now t c s0 = (Inr a, s')"
  obtains s where "s = prune_state now s0" "\<not> scope_closing c s"
    "size (slot_connections s) < MAX_ACTIVE" "count (slot_connections s) c = 0"
    "a = \<lparr>ad_id = t, ad_connection_id = c, ad_connection = connection_generation c s,
          ad_global = sc_generation (m_global s)\<rparr>"
    "s' = s\<lparr>m_pending := AList.update t \<lparr>pe_connection_id = c\<rparr> (m_pending s),
            m_cancels := (m_cancels s)(t := False), m_dones := (m_dones s)(t := False)\<rparr>"
    "c \<noteq> []" "length c \<le> 128"
  using assms
  by (auto simp: admit_def Let_def scope_closing_def slot_connections_def active_count
      slot_free pending_free split: if_splits)

lemma admit_Inl: "admit now t c s0 = (Inl e, s') \<Longrightarrow> s' = s0 \<or> s' = prune_state now s0"
  by (auto simp: admit_def Let_def split: if_splits)

definition identifiers :: "manager \<Rightarrow> string set" where
  "identifiers s = set (keys (m_jobs s)) \<union> set (keys (m_pending s)) \<union> set (keys (m_reviews s))"

lemma fresh_keys:
  assumes "t \<notin> identifiers s"
  shows "map_of (m_jobs s) t = None" "map_of (m_pending s) t = None" "map_of (m_reviews s) t = None"
  using assms by (auto simp: identifiers_def map_of_eq_None_iff)

lemma identifiers_prune: "identifiers (prune_state now s) \<subseteq> identifiers s"
  by (auto simp: identifiers_def prune_jobs prune_reviews)

lemma reserve_ok:
  assumes ok: "manager_ok s" and fresh: "t \<notin> identifiers s" and op: "\<not> scope_closing c s"
    and room: "size (slot_connections s) < MAX_ACTIVE" "count (slot_connections s) c = 0"
  shows "manager_ok (s\<lparr>m_pending := AList.update t \<lparr>pe_connection_id = c\<rparr> (m_pending s),
     m_cancels := (m_cancels s)(t := False), m_dones := (m_dones s)(t := False)\<rparr>)"
    (is "manager_ok ?s'")
proof
  note parts = manager_okD [OF ok]
  from fresh have pend: "m_pending ?s' = m_pending s @ [(t, \<lparr>pe_connection_id = c\<rparr>)]"
    by (simp add: update_fresh identifiers_def)
  have slots: "slot_connections ?s' = add_mset c (slot_connections s)"
    by (simp add: slot_connections_def pend)
  have same: "scope_closing c' ?s' = scope_closing c' s" for c'
    by (simp add: scope_closing_def connection_closing_def)
  show "ids_ok ?s'" using parts(1) fresh by (auto simp: ids_ok_def pend identifiers_def)
  show "jobs_ok ?s'" using parts(2) fresh_keys(1) [OF fresh] by (auto simp: jobs_ok_def)
  show "pending_ok ?s'" using parts(3) by (auto simp: pending_ok_def update_conv')
  show "slots_ok ?s'" using parts(4) room by (simp add: slots_ok_def slots)
  show "reviews_ok ?s'" using parts(5) by (simp add: reviews_ok_def)
  show "closing_ok ?s'"
    using parts(6) op unfolding closing_ok_def same by (auto simp: update_conv')
qed

lemma admit_ok:
  assumes ok: "manager_ok s0" and fresh: "t \<notin> identifiers s0"
    and r: "admit now t c s0 = (r, s')"
  shows "manager_ok s'"
proof (cases r)
  case (Inl e)
  with r ok show ?thesis using admit_Inl [of now t c s0 e s'] by auto
next
  case (Inr a)
  with r show ?thesis
    using ok fresh identifiers_prune [of now s0]
    by (auto elim!: admit_Inr intro!: reserve_ok)
qed

lemma drop_ok:
  assumes ok: "manager_ok s" and a: "ad_id a \<notin> set (keys (m_jobs s))"
  shows "manager_ok (drop_admission a s)"
  by (rule shrink_ok [OF ok, where P = "\<lambda>_. True" and R = "\<lambda>_. True"])
     (use a in \<open>auto simp: drop_admission_def delete_filter\<close>)

text \<open>Reviews.\<close>

lemma store_review_ok:
  assumes ok: "manager_ok s" and fresh: "t \<notin> identifiers s" and room: "length (m_reviews s) < MAX_REVIEWS"
  shows "manager_ok (s\<lparr>m_reviews := AList.update t r (m_reviews s)\<rparr>)" (is "manager_ok ?s'")
proof
  note parts = manager_okD [OF ok]
  from fresh have upd: "m_reviews ?s' = m_reviews s @ [(t, r)]"
    by (simp add: update_fresh identifiers_def)
  have same: "scope_closing c ?s' = scope_closing c s" for c
    by (simp add: scope_closing_def connection_closing_def)
  show "ids_ok ?s'" using parts(1) fresh by (auto simp: ids_ok_def upd identifiers_def simp del: AList.update.simps)
  show "jobs_ok ?s'" using parts(2) by (simp add: jobs_ok_def)
  show "pending_ok ?s'" using parts(3) by (simp add: pending_ok_def)
  show "slots_ok ?s'" using parts(4) by (simp add: slots_ok_def slot_connections_def)
  show "reviews_ok ?s'" using room by (simp only: reviews_ok_def upd) simp
  show "closing_ok ?s'" using parts(6) unfolding closing_ok_def same by simp
qed

lemma insert_review_result:
  assumes "insert_review now t a rv s0 = (r, s')"
  shows "s' = prune_state now s0 \<or>
    (\<exists>x. length (m_reviews (prune_state now s0)) < MAX_REVIEWS \<and>
      s' = (prune_state now s0)\<lparr>m_reviews := AList.update t x (m_reviews (prune_state now s0))\<rparr>)"
proof -
  define s where "s = prune_state now s0"
  from assms show ?thesis
    unfolding insert_review_def Let_def s_def [symmetric]
    by (cases "check_admission s a") (auto split: if_splits)
qed

lemma insert_shared_review_result:
  assumes "insert_shared_review now t a rv s0 = (r, s')"
  shows "s' = prune_state now s0 \<or>
    (\<exists>x. length (m_reviews (prune_state now s0)) < MAX_REVIEWS \<and>
      s' = (prune_state now s0)\<lparr>m_reviews := AList.update t x (m_reviews (prune_state now s0))\<rparr>)"
proof -
  define s where "s = prune_state now s0"
  from assms show ?thesis
    unfolding insert_shared_review_def Let_def s_def [symmetric]
    by (cases "check_admission s a") (auto split: if_splits)
qed

lemma insert_review_ok:
  assumes ok: "manager_ok s0" and fresh: "t \<notin> identifiers s0"
    and r: "insert_review now t a rv s0 = (r, s') \<or> insert_shared_review now t a rv s0 = (r', s')"
  shows "manager_ok s'"
proof -
  from fresh identifiers_prune [of now s0] have "t \<notin> identifiers (prune_state now s0)" by blast
  note store = store_review_ok [OF prune_ok [OF ok] this]
  from r insert_review_result insert_shared_review_result
  have "s' = prune_state now s0 \<or>
    (\<exists>x. length (m_reviews (prune_state now s0)) < MAX_REVIEWS \<and>
      s' = (prune_state now s0)\<lparr>m_reviews := AList.update t x (m_reviews (prune_state now s0))\<rparr>)"
    by blast
  with store show ?thesis using prune_ok [OF ok] by blast
qed

lemma find_review_ok: "manager_ok s0 \<Longrightarrow> find_review now t s0 = (r, s') \<Longrightarrow> manager_ok s'"
  by (auto simp: find_review_def Let_def split: option.splits if_splits)

lemma release_review_ok: "manager_ok s \<Longrightarrow> manager_ok (release_review t s)"
  by (rule shrink_ok [where P = "\<lambda>_. True" and Q = "\<lambda>_. True"])
     (simp_all add: release_review_def delete_filter)

end
