(* ===== verification/TransferOps.thy ===== *)
theory TransferOps imports TransferFacts begin

text \<open>
  The operations that start, drive, end, cancel and tear down jobs keep \<open>manager_ok\<close>, with
  what each of them returns.
\<close>

section \<open>Starting a job\<close>

lemma check_admission_Inr:
  "check_admission s a = Inr u \<longleftrightarrow>
     \<not> scope_closing (ad_connection_id a) s
     \<and> ad_global a = sc_generation (m_global s)
     \<and> (case map_of (m_connections s) (ad_connection_id a) of None \<Rightarrow> True
        | Some c \<Rightarrow> sc_generation c = ad_connection a)
     \<and> map_of (m_pending s) (ad_id a) \<noteq> None \<and> \<not> m_cancels s (ad_id a)"
  by (auto simp: check_admission_def scope_closing_def connection_closing_def split: option.splits)

lemma check_admission_sum: "check_admission s a = Inl ConnectionClosing \<or> check_admission s a = Inr ()"
  by (simp add: check_admission_def)

definition started :: "admission \<Rightarrow> string \<Rightarrow> string \<Rightarrow> manager \<Rightarrow> manager" where
  "started a token job s =
     s\<lparr>m_reviews := AList.delete token (m_reviews s),
       m_pending := AList.delete (ad_id a) (m_pending s),
       m_dones := (m_dones s)(ad_id a := True, job := False),
       m_cancels := (m_cancels s)(job := False),
       m_claims := (m_claims s)(job := OPEN)\<rparr>"

definition new_job :: "bool \<Rightarrow> snapshot \<Rightarrow> string \<Rightarrow> job_entry" where
  "new_job native snap job =
     \<lparr>je_snapshot = snap\<lparr>sn_job_id := job\<rparr>, je_active = Some \<lparr>ct_task = \<not> native\<rparr>,
      je_finished = None,
      je_io = (if native then \<lparr>io_tracked = True, io_complete = False\<rparr> else io_default)\<rparr>"

lemma start_job_cases:
  assumes "start_job now a token snap job spawned s = (r, s')"
  obtains (refused) e where "r = Inl e" "s' = drop_admission a s"
      "e = ConnectionClosing \<or> e = InspectionExpired"
  | (not_spawned) "r = Inl JobLimitReached" "s' = started a token job s"
      "check_admission s a = Inr ()" "valid_review now a token s" "m_native s" "\<not> spawned"
  | (running) "r = Inr (snap\<lparr>sn_job_id := job\<rparr>)" "check_admission s a = Inr ()" "valid_review now a token s"
      "s' = (started a token job s)\<lparr>m_jobs := AList.update job (new_job (m_native s) snap job) (m_jobs s)\<rparr>"
proof (cases "check_admission s a = Inr () \<and> valid_review now a token s")
  case False
  then show ?thesis
    using assms check_admission_sum [of s a] refused by (auto simp: start_job_def)
next
  case True
  then show ?thesis
    using assms not_spawned running
    by (auto simp: start_job_def Let_def started_def new_job_def split: if_splits)
qed

lemma mset_delete:
  assumes "distinct (keys xs)" "map_of xs k = Some v"
  shows "add_mset (f (k, v)) (mset (map f (AList.delete k xs))) = mset (map f xs)"
  using assms
proof (induction xs)
  case (Cons x xs)
  obtain k' v' where x: "x = (k', v')" by (cases x)
  show ?case
  proof (cases "k' = k")
    case True
    with Cons.prems x have "k \<notin> set (keys xs)" "v' = v" by auto
    moreover from this have "AList.delete k xs = xs" by (simp add: delete_id)
    ultimately show ?thesis using True x by simp
  next
    case False
    with Cons x have "add_mset (f (k, v)) (mset (map f (AList.delete k xs))) = mset (map f xs)" by auto
    with False x show ?thesis by (simp add: add_mset_commute)
  qed
qed simp

lemma started_ok:
  assumes ok: "manager_ok s" and fresh: "job \<notin> identifiers s"
    and a: "ad_id a \<notin> set (keys (m_jobs s))"
  shows "manager_ok (started a token job s)"
proof -
  let ?s = "s\<lparr>m_cancels := (m_cancels s)(job := False), m_claims := (m_claims s)(job := OPEN)\<rparr>"
  note free = fresh_keys [OF fresh]
  have same: "scope_closing c ?s = scope_closing c s" for c
    by (simp add: scope_closing_def connection_closing_def)
  have slots: "slot_connections ?s = slot_connections s" by (simp add: slot_connections_def)
  from ok free have "manager_ok ?s"
    unfolding manager_ok_def closing_ok_def same slots_ok_def slots
    by (auto simp: ids_ok_def jobs_ok_def pending_ok_def reviews_ok_def)
  then show ?thesis
  proof (rule shrink_ok [where P = "\<lambda>_. True"])
    fix k assume "k \<in> set (keys (m_jobs (started a token job s))) \<union> set (keys (m_pending (started a token job s)))"
    then have "k \<in> set (keys (m_jobs s)) \<or> k \<in> set (keys (m_pending s)) \<and> k \<noteq> ad_id a"
      by (auto simp: started_def delete_filter)
    with a fresh have "k \<noteq> job" "k \<noteq> ad_id a" unfolding identifiers_def by blast+
    then show "m_dones (started a token job s) k = m_dones ?s k" by (simp add: started_def)
  qed (simp_all add: started_def delete_filter)
qed

lemma start_ok:
  assumes ok: "manager_ok s" and fresh: "job \<notin> identifiers s"
    and a: "ad_id a \<notin> set (keys (m_jobs s))"
    and mine: "\<And>p. map_of (m_pending s) (ad_id a) = Some p \<Longrightarrow> pe_connection_id p = ad_connection_id a"
    and snap: "sn_connection_id snap = ad_connection_id a" "sn_phase snap = Preparing"
    and r: "start_job now a token snap job spawned s = (r, s')"
  shows "manager_ok s'"
  using r
proof (cases rule: start_job_cases)
  case running
  note ok1 = started_ok [OF ok fresh a, of token]
  let ?s1 = "started a token job s"
  let ?e = "new_job (m_native s) snap job"
  note parts = manager_okD [OF ok1] and free = fresh_keys [OF fresh]
  from running(2) obtain p where p: "map_of (m_pending s) (ad_id a) = Some p"
      and op: "\<not> scope_closing (ad_connection_id a) s"
    by (auto simp: check_admission_Inr)
  have jobs: "m_jobs s' = m_jobs s @ [(job, ?e)]"
    using fresh by (simp add: running(4) update_fresh identifiers_def)
  have rest: "m_pending s' = m_pending ?s1" "m_reviews s' = m_reviews ?s1" "m_claims s' = m_claims ?s1"
      "m_dones s' = m_dones ?s1" "m_cancels s' = m_cancels ?s1" "m_jobs ?s1 = m_jobs s"
      "m_connections s' = m_connections s" "m_global s' = m_global s"
      "m_claims ?s1 job = OPEN" "\<not> m_dones ?s1 job" "m_pending ?s1 = AList.delete (ad_id a) (m_pending s)"
      "m_connections ?s1 = m_connections s" "m_global ?s1 = m_global s"
    by (simp_all add: running(4) started_def)
  have same: "scope_closing c s' = scope_closing c s" "scope_closing c ?s1 = scope_closing c s" for c
    by (simp_all add: scope_closing_def connection_closing_def rest)
  show ?thesis
  proof
    show "ids_ok s'" using parts(1) fresh
      by (auto simp: ids_ok_def jobs rest identifiers_def delete_filter)
    have "job_ok job OPEN False ?e" using snap by (simp add: job_ok_def new_job_def)
    with parts(2) free show "jobs_ok s'" by (auto simp: jobs_ok_def jobs rest map_add_def split: option.splits)
    show "pending_ok s'" using parts(3) by (simp add: pending_ok_def rest)
    have "slot_connections s' = slot_connections s"
      using mset_delete [OF manager_distinct(2) [OF ok] p, of "\<lambda>x. pe_connection_id (snd x)"] mine [OF p] snap(1)
      by (auto simp: slot_connections_def jobs rest holds_slot_def new_job_def)
    with manager_okD(4) [OF ok] show "slots_ok s'" by (simp add: slots_ok_def)
    show "reviews_ok s'" using parts(5) by (simp add: reviews_ok_def rest)
    show "closing_ok s'"
      using parts(6) op snap(1) unfolding closing_ok_def same
      by (auto simp: jobs rest map_add_def new_job_def split: option.splits)
  qed
next
  case refused
  then show ?thesis by (simp add: drop_ok [OF ok a])
next
  case not_spawned
  then show ?thesis by (simp add: started_ok [OF ok fresh a])
qed

section \<open>The worker's own operations\<close>

lemmas entry_facts = entry_step_def job_ok_def holds_slot_def retains_cleanup_def

lemma begin_finalizing_cases:
  assumes "begin_finalizing ctx s = (b, s')"
  obtains (refused) "\<not> b" "s' = s"
  | (won) "b" "m_claims s (jc_job_id ctx) = OPEN"
      "s' = s\<lparr>m_claims := (m_claims s)(jc_job_id ctx := FINALIZING),
              m_jobs := AList.map_entry (jc_job_id ctx)
                (\<lambda>e. e\<lparr>je_snapshot := (je_snapshot e)\<lparr>sn_phase := Finalizing\<rparr>\<rparr>) (m_jobs s)\<rparr>"
proof (cases "b")
  case True
  with assms show ?thesis
    by (intro won) (simp_all add: begin_finalizing_def Let_def compare_exchange_def split: if_splits)
next
  case False
  with assms show ?thesis
    by (intro refused) (simp_all add: begin_finalizing_def Let_def compare_exchange_def split: if_splits)
qed

lemma job_is_active_iff: "job_is_active j s \<longleftrightarrow> (\<exists>e. map_of (m_jobs s) j = Some e \<and> je_active e \<noteq> None)"
  by (auto simp: job_is_active_def split: option.splits)

lemma begin_finalizing_ok:
  assumes ok: "manager_ok s" and r: "begin_finalizing ctx s = (b, s')"
    and live: "m_claims s (jc_job_id ctx) = OPEN \<Longrightarrow> job_is_active (jc_job_id ctx) s"
  shows "manager_ok s'"
  using r
proof (cases rule: begin_finalizing_cases)
  case won
  let ?j = "jc_job_id ctx"
  from live won(2) have active: "job_is_active ?j s" by simp
  show ?thesis
  proof (rule adjust_ok [OF ok])
    show "m_jobs s' = adjust (\<lambda>k e. if k = ?j
        then e\<lparr>je_snapshot := (je_snapshot e)\<lparr>sn_phase := Finalizing\<rparr>\<rparr> else e) (m_jobs s)"
      using ok by (simp add: won(3) map_entry_adjust)
  qed (use active won(2) in \<open>auto simp: won(3) entry_facts job_is_active_iff split: if_splits\<close>)
qed (use ok in simp)

lemma succeeded_cases:
  obtains (refused) "m_claims s (jc_job_id ctx) \<noteq> FINALIZING" "succeeded ctx rows s = s"
  | (done_work) "m_claims s (jc_job_id ctx) = FINALIZING"
      "succeeded ctx rows s = s\<lparr>m_claims := (m_claims s)(jc_job_id ctx := SUCCEEDED),
              m_jobs := AList.map_entry (jc_job_id ctx)
                (\<lambda>e. e\<lparr>je_snapshot := (je_snapshot e)
                       \<lparr>sn_rows_committed := map_option (\<lambda>v. min v SAFE_INTEGER) rows\<rparr>\<rparr>) (m_jobs s)\<rparr>"
  by (cases "m_claims s (jc_job_id ctx) = FINALIZING")
     (simp_all add: succeeded_def Let_def compare_exchange_def)

lemma succeeded_ok:
  assumes ok: "manager_ok s"
    and live: "m_claims s (jc_job_id ctx) = FINALIZING \<Longrightarrow> job_is_active (jc_job_id ctx) s"
  shows "manager_ok (succeeded ctx rows s)"
proof (cases rule: succeeded_cases [of s ctx rows])
  case done_work
  let ?j = "jc_job_id ctx" and ?s' = "succeeded ctx rows s"
  from live done_work(1) have active: "job_is_active ?j s" by simp
  show ?thesis
  proof (rule adjust_ok [OF ok])
    show "m_jobs ?s' = adjust (\<lambda>k e. if k = ?j then e\<lparr>je_snapshot := (je_snapshot e)
        \<lparr>sn_rows_committed := map_option (\<lambda>v. min v SAFE_INTEGER) rows\<rparr>\<rparr> else e) (m_jobs s)"
      using ok by (simp add: done_work(2) map_entry_adjust)
  qed (use active done_work(1) in \<open>auto simp: done_work(2) entry_facts job_is_active_iff split: if_splits\<close>)
qed (use ok in simp)

lemma active_phase_progress:
  "active_phase c (sn_phase sn) \<Longrightarrow> active_phase c (sn_phase (record_progress b rows sn))"
  by (cases c) (auto simp: record_progress_def)

lemma progress_ok:
  assumes ok: "manager_ok s"
  shows "manager_ok (progress ctx bytes rows s)"
proof (rule adjust_ok [OF ok])
  show "m_jobs (progress ctx bytes rows s) = adjust (\<lambda>k e. if k = jc_job_id ctx
      then (if je_active e = None then e
            else e\<lparr>je_snapshot := record_progress bytes rows (je_snapshot e)\<rparr>) else e) (m_jobs s)"
    using ok by (simp add: progress_def map_entry_adjust)
next
  fix j e assume e: "job_ok j (m_claims s j) (m_dones s j) e"
  show "entry_step s (progress ctx bytes rows s) j e (if j = jc_job_id ctx
      then (if je_active e = None then e
            else e\<lparr>je_snapshot := record_progress bytes rows (je_snapshot e)\<rparr>) else e)"
    using e active_phase_progress [of "m_claims s j" "je_snapshot e" bytes rows]
    by (auto simp: progress_def entry_facts) (simp_all add: record_progress_def)
qed (simp_all add: progress_def)

section \<open>The end of a job\<close>

lemma job_get_ok: "manager_ok s \<Longrightarrow> job_get now j s = (r, s') \<Longrightarrow> manager_ok s'"
  by (auto simp: job_get_def Let_def split: option.splits)

lemma complete_result_state: "complete_result now ctx r s = (r', s') \<Longrightarrow> s' = s \<or> s' = prune_state now s"
  by (auto simp: complete_result_def Let_def job_get_def split: if_splits option.splits sum.splits)

lemma complete_result_ok: "manager_ok s \<Longrightarrow> complete_result now ctx r s = (r', s') \<Longrightarrow> manager_ok s'"
  using complete_result_state [of now ctx r s r' s'] by auto

lemma terminal_phase_facts [simp]:
  "phase_terminal (terminal_phase c r)" "terminal_phase c r = Completed \<longleftrightarrow> c = SUCCEEDED"
  "terminal_phase CANCEL r = PhaseCancelled \<or> terminal_phase CANCEL r = PhaseOutcomeUnknown"
  by (simp_all add: terminal_phase_def)

definition finished_job :: "instant \<Rightarrow> string \<Rightarrow> claim \<Rightarrow> unit transfer_result \<Rightarrow> job_entry \<Rightarrow> job_entry" where
  "finished_job now stamp c r e =
     e\<lparr>je_active := None, je_snapshot := finish_snapshot c stamp r (je_snapshot e), je_finished := Some now\<rparr>"

definition finished :: "instant \<Rightarrow> string \<Rightarrow> string \<Rightarrow> unit transfer_result \<Rightarrow> manager \<Rightarrow> manager" where
  "finished now stamp j r s =
     s\<lparr>m_jobs := adjust (\<lambda>k e. if k = j then finished_job now stamp (m_claims s j) r e else e) (m_jobs s),
       m_dones := (m_dones s)(j := True)\<rparr>"

lemma finish_job_cases:
  assumes "manager_ok s"
  shows "finish_job now stamp j r s =
    (if job_is_active j s then prune_state now (finished now stamp j r s) else s)"
proof (cases "map_of (m_jobs s) j")
  case (Some e)
  then have "AList.update j (finished_job now stamp (m_claims s j) r e) (m_jobs s)
      = adjust (\<lambda>k e. if k = j then finished_job now stamp (m_claims s j) r e else e) (m_jobs s)"
    using assms by (intro update_in_place) simp_all
  with Some show ?thesis
    by (auto simp: finish_job_def job_is_active_def finished_def finished_job_def split: option.splits)
qed (simp add: finish_job_def job_is_active_def)

lemma finished_ok:
  assumes ok: "manager_ok s" and active: "job_is_active j s"
  shows "manager_ok (finished now stamp j r s)"
proof (rule adjust_ok [OF ok])
  show "m_jobs (finished now stamp j r s) =
      adjust (\<lambda>k e. if k = j then finished_job now stamp (m_claims s j) r e else e) (m_jobs s)"
    by (simp add: finished_def)
  from active obtain e where "map_of (m_jobs s) j = Some e" unfolding job_is_active_iff by blast
  then have "j \<in> set (keys (m_jobs s))" by (rule map_of_keys)
  then show "\<And>t p. t \<notin> set (keys (m_jobs s)) \<Longrightarrow> m_dones (finished now stamp j r s) t = m_dones s t \<and>
      (m_cancels s t \<longrightarrow> m_cancels (finished now stamp j r s) t)"
    by (auto simp: finished_def)
next
  fix k e assume "job_ok k (m_claims s k) (m_dones s k) e"
  then show "entry_step s (finished now stamp j r s) k e
      (if k = j then finished_job now stamp (m_claims s j) r e else e)"
    by (auto simp: finished_def entry_facts finished_job_def finish_snapshot_def Let_def)
qed (simp_all add: finished_def)

lemma finish_ok: "manager_ok s \<Longrightarrow> manager_ok (finish_job now stamp j r s)"
  by (simp add: finish_job_cases finished_ok)

lemma job_release_ok: "manager_ok s \<Longrightarrow> job_release j s = (r, s') \<Longrightarrow> manager_ok s'"
  by (auto simp: job_release_def delete_filter split: if_splits
      intro: shrink_ok [where Q = "\<lambda>_. True" and R = "\<lambda>_. True"])

section \<open>Cancelling\<close>

lemma cancel_entry_cases:
  "cancel_entry e c flag =
     (if je_active e \<noteq> None \<and> c = OPEN
      then (True, e\<lparr>je_snapshot := (je_snapshot e)\<lparr>sn_phase := Cancelling\<rparr>\<rparr>, CANCEL, True)
      else (False, e, c, flag))"
  by (auto simp: cancel_entry_def compare_exchange_def split: option.split)

lemma cancel_job_cases:
  assumes ok: "manager_ok s" and r: "cancel_job j s = (r, s')"
  obtains (missing) "map_of (m_jobs s) j = None" "r = Inl JobNotFound" "s' = s"
  | (late) e where "map_of (m_jobs s) j = Some e" "\<not> (je_active e \<noteq> None \<and> m_claims s j = OPEN)"
      "r = Inr (je_snapshot e, False)" "s' = s"
  | (won) e where "map_of (m_jobs s) j = Some e" "je_active e \<noteq> None" "m_claims s j = OPEN"
      "r = Inr ((je_snapshot e)\<lparr>sn_phase := Cancelling\<rparr>, \<not> m_native s)"
      "s' = s\<lparr>m_jobs := adjust (\<lambda>k e. if k = j
                then e\<lparr>je_snapshot := (je_snapshot e)\<lparr>sn_phase := Cancelling\<rparr>\<rparr> else e) (m_jobs s),
              m_claims := (m_claims s)(j := CANCEL), m_cancels := (m_cancels s)(j := True)\<rparr>"
proof (cases "map_of (m_jobs s) j")
  case None
  then show ?thesis using r by (intro missing) (simp_all add: cancel_job_def)
next
  case (Some e)
  note upd = update_in_place [OF manager_distinct(1) [OF ok] Some]
  show ?thesis
  proof (cases "je_active e \<noteq> None \<and> m_claims s j = OPEN")
    case True
    let ?f = "\<lambda>e. e\<lparr>je_snapshot := (je_snapshot e)\<lparr>sn_phase := Cancelling\<rparr>\<rparr>"
    have "cancel_job j s = (Inr (je_snapshot (?f e), \<not> m_native s),
        s\<lparr>m_jobs := AList.update j (?f e) (m_jobs s),
          m_claims := (m_claims s)(j := CANCEL), m_cancels := (m_cancels s)(j := True)\<rparr>)"
      unfolding cancel_job_def Some option.case cancel_entry_cases using True by simp
    with r True Some show ?thesis unfolding upd [of ?f] by (intro won [of e]) auto
  next
    case False
    have "AList.update j e (m_jobs s) = m_jobs s"
      using ok Some by (intro update_same) simp_all
    with False show ?thesis using r Some by (intro late [of e]) (auto simp: cancel_job_def cancel_entry_cases)
  qed
qed

lemma cancel_job_ok:
  assumes ok: "manager_ok s" and r: "cancel_job j s = (r, s')"
  shows "manager_ok s'"
  using ok r
proof (cases rule: cancel_job_cases)
  case (won e)
  show ?thesis
  proof (rule adjust_ok [OF ok])
    fix k e assume "job_ok k (m_claims s k) (m_dones s k) e" "map_of (m_jobs s) k = Some e"
    then show "entry_step s s' k e (if k = j
        then e\<lparr>je_snapshot := (je_snapshot e)\<lparr>sn_phase := Cancelling\<rparr>\<rparr> else e)"
      using won(1-3) by (auto simp: won(5) entry_facts)
  qed (simp_all add: won(5))
qed (use ok in simp_all)

lemma abort_cancelled_cases:
  assumes "abort_cancelled c j s = (tasks, waits, s')"
  shows "m_jobs s' = adjust (\<lambda>k e. if \<not> m_native s \<and> abort_selects c j s k e \<and> has_task e
            then abort_entry e else e) (m_jobs s)"
    and "s' = s\<lparr>m_jobs := m_jobs s'\<rparr>"
    and "k \<in> set tasks \<longleftrightarrow> (\<exists>e. (k, e) \<in> set (m_jobs s) \<and> \<not> m_native s \<and> abort_selects c j s k e \<and> has_task e)"
    and "k \<in> set waits \<longleftrightarrow> (\<exists>e. (k, e) \<in> set (m_jobs s) \<and> \<not> m_native s \<and> abort_selects c j s k e)"
  using assms
  by (force simp: abort_cancelled_def adjust_def Let_def case_prod_beta' split: if_splits)+

lemma abort_cancelled_ok:
  assumes ok: "manager_ok s" and r: "abort_cancelled c j s = (tasks, waits, s')"
  shows "manager_ok s'"
proof (rule adjust_ok [OF ok])
  note res = abort_cancelled_cases(1,2) [OF r]
  show "m_jobs s' = adjust (\<lambda>k e. if \<not> m_native s \<and> abort_selects c j s k e \<and> has_task e
            then abort_entry e else e) (m_jobs s)" by (rule res(1))
  have same: "m_claims s' = m_claims s" "m_dones s' = m_dones s" "m_pending s' = m_pending s"
      "m_reviews s' = m_reviews s" "m_connections s' = m_connections s" "m_global s' = m_global s"
      "m_cancels s' = m_cancels s"
    by (subst res(2); simp)+
  show "m_pending s' = m_pending s" "m_reviews s' = m_reviews s" "m_connections s' = m_connections s"
      "m_global s' = m_global s" by (rule same)+
  show "entry_step s s' k e (if \<not> m_native s \<and> abort_selects c j s k e \<and> has_task e
            then abort_entry e else e)" if "job_ok k (m_claims s k) (m_dones s k) e" for k e
    using that by (auto simp: same entry_facts abort_entry_def)
  show "m_dones s' t = m_dones s t \<and> (m_cancels s t \<longrightarrow> m_cancels s' t)" for t by (simp add: same)
qed

lemma io_cleaned_ok: "manager_ok s \<Longrightarrow> manager_ok (io_cleaned j s)"
proof (rule adjust_ok)
  assume ok: "manager_ok s"
  show "m_jobs (io_cleaned j s) =
      adjust (\<lambda>k e. if k = j then e\<lparr>je_io := (je_io e)\<lparr>io_complete := True\<rparr>\<rparr> else e) (m_jobs s)"
    using ok by (simp add: io_cleaned_def map_entry_adjust)
qed (auto simp: io_cleaned_def entry_facts)

section \<open>Teardown\<close>

lemma in_scope_simps [simp]: "in_scope None c" "in_scope (Some c0) c \<longleftrightarrow> c = c0"
  by (simp_all add: in_scope_def)

lemma cancel_jobs_cells:
  "m_claims (cancel_jobs c s) k =
     (case map_of (m_jobs s) k of None \<Rightarrow> m_claims s k
      | Some e \<Rightarrow> if in_scope c (je_connection e) \<and> je_active e \<noteq> None \<and> m_claims s k = OPEN
                   then CANCEL else m_claims s k)"
  "m_cancels (cancel_jobs c s) k =
     (case map_of (m_jobs s) k of None \<Rightarrow> m_cancels s k
      | Some e \<Rightarrow> in_scope c (je_connection e) \<and> je_active e \<noteq> None \<and> m_claims s k = OPEN
                   \<or> m_cancels s k)"
  by (auto simp: cancel_jobs_def cancelled_cells_def cancel_entry_cases split: option.split)

definition cancelled_entry :: "string option \<Rightarrow> manager \<Rightarrow> string \<Rightarrow> job_entry \<Rightarrow> job_entry" where
  "cancelled_entry c s k e =
     (if in_scope c (je_connection e) \<and> je_active e \<noteq> None \<and> m_claims s k = OPEN
      then e\<lparr>je_snapshot := (je_snapshot e)\<lparr>sn_phase := Cancelling\<rparr>\<rparr> else e)"

lemma cancel_jobs_rest [simp]:
  "m_jobs (cancel_jobs c s) = adjust (cancelled_entry c s) (m_jobs s)"
  "m_pending (cancel_jobs c s) = m_pending s" "m_reviews (cancel_jobs c s) = m_reviews s"
  "m_connections (cancel_jobs c s) = m_connections s" "m_global (cancel_jobs c s) = m_global s"
  "m_dones (cancel_jobs c s) = m_dones s" "m_native (cancel_jobs c s) = m_native s"
  by (auto simp: cancel_jobs_def adjust_def cancelled_entry_def cancel_entry_cases)

lemma cancelled_entry_keeps [simp]:
  "je_connection (cancelled_entry c s k e) = je_connection e"
  "je_active (cancelled_entry c s k e) = je_active e"
  "je_io (cancelled_entry c s k e) = je_io e"
  "je_finished (cancelled_entry c s k e) = je_finished e"
  by (simp_all add: cancelled_entry_def)

lemma cancel_jobs_ok:
  assumes ok: "manager_ok s" shows "manager_ok (cancel_jobs c s)"
proof (rule adjust_ok [OF ok])
  fix k e assume e: "map_of (m_jobs s) k = Some e" and j: "job_ok k (m_claims s k) (m_dones s k) e"
  then show "entry_step s (cancel_jobs c s) k e (cancelled_entry c s k e)"
    by (auto simp: entry_facts cancel_jobs_cells cancelled_entry_def)
next
  fix t :: string assume "t \<notin> set (keys (m_jobs s))"
  then have "map_of (m_jobs s) t = None" by (simp add: map_of_eq_None_iff)
  then show "m_dones (cancel_jobs c s) t = m_dones s t \<and> (m_cancels s t \<longrightarrow> m_cancels (cancel_jobs c s) t)"
    by (simp add: cancel_jobs_cells)
qed simp_all

definition dropped_pending :: "string option \<Rightarrow> manager \<Rightarrow> string list" where
  "dropped_pending c s = map fst (filter (\<lambda>(_, p). in_scope c (pe_connection_id p)) (m_pending s))"

definition teardown_waits :: "string option \<Rightarrow> manager \<Rightarrow> string list" where
  "teardown_waits c s =
     map fst (filter (\<lambda>(_, e). in_scope c (je_connection e) \<and> je_active e \<noteq> None) (m_jobs s))
     @ dropped_pending c s"

lemma waits_adjust:
  assumes "\<And>k e. je_connection (g k e) = je_connection e" "\<And>k e. je_active (g k e) = je_active e"
  shows "map fst (filter (\<lambda>(_, e). in_scope c (je_connection e) \<and> je_active e \<noteq> None) (adjust g js)) =
    map fst (filter (\<lambda>(_, e). in_scope c (je_connection e) \<and> je_active e \<noteq> None) js)"
  by (induction js) (auto simp: adjust_def assms)

lemma update_scope_rest [simp]:
  "m_jobs (update_scope f c s) = m_jobs s" "m_pending (update_scope f c s) = m_pending s"
  "m_reviews (update_scope f c s) = m_reviews s" "m_claims (update_scope f c s) = m_claims s"
  "m_cancels (update_scope f c s) = m_cancels s" "m_dones (update_scope f c s) = m_dones s"
  "m_native (update_scope f c s) = m_native s"
  by (simp_all add: update_scope_def split: option.split)

lemma cancel_jobs_cong:
  assumes "m_jobs t = m_jobs s" "m_claims t = m_claims s" "m_cancels t = m_cancels s"
  shows "m_claims (cancel_jobs c t) = m_claims (cancel_jobs c s)"
    "m_cancels (cancel_jobs c t) = m_cancels (cancel_jobs c s)"
    "cancelled_entry c t = cancelled_entry c s"
  by (auto simp: fun_eq_iff cancel_jobs_cells cancelled_entry_def assms split: option.split)

lemma begin_teardown_fields:
  assumes "begin_teardown c s = (w, s')"
  shows "w = teardown_waits c s"
    and "m_jobs s' = adjust (cancelled_entry c s) (m_jobs s)"
    and "m_pending s' = m_pending s"
    and "m_reviews s' = filter (\<lambda>(_, e). \<not> in_scope c (re_connection_id e)) (m_reviews s)"
    and "m_connections s' = m_connections (update_scope close_scope c s)"
    and "m_global s' = m_global (update_scope close_scope c s)"
    and "m_claims s' = m_claims (cancel_jobs c s)"
    and "m_cancels s' = (\<lambda>k. k \<in> set (dropped_pending c s) \<or> m_cancels (cancel_jobs c s) k)"
    and "m_dones s' = m_dones s" and "m_native s' = m_native s"
proof -
  let ?s2 = "(update_scope close_scope c s)\<lparr>m_reviews := filter (\<lambda>(_, e). case c of None \<Rightarrow> False
                 | Some c' \<Rightarrow> re_connection_id e \<noteq> c') (m_reviews s)\<rparr>"
  have cong: "m_claims (cancel_jobs c ?s2) = m_claims (cancel_jobs c s)"
    "m_cancels (cancel_jobs c ?s2) = m_cancels (cancel_jobs c s)"
    "cancelled_entry c ?s2 = cancelled_entry c s"
    by (rule cancel_jobs_cong; simp)+
  have s': "s' = (cancel_jobs c ?s2)\<lparr>m_cancels := (\<lambda>k. k \<in> set (dropped_pending c s) \<or>
      m_cancels (cancel_jobs c ?s2) k)\<rparr>"
    using assms by (simp add: begin_teardown_def Let_def dropped_pending_def)
  show "w = teardown_waits c s"
    using assms
    by (simp add: begin_teardown_def Let_def teardown_waits_def dropped_pending_def
        waits_adjust [of "cancelled_entry c t" for t, simplified])
  show "m_reviews s' = filter (\<lambda>(_, e). \<not> in_scope c (re_connection_id e)) (m_reviews s)"
    by (auto simp: s' in_scope_def split: option.splits intro!: filter_cong)
  show "m_jobs s' = adjust (cancelled_entry c s) (m_jobs s)" "m_pending s' = m_pending s"
    "m_connections s' = m_connections (update_scope close_scope c s)"
    "m_global s' = m_global (update_scope close_scope c s)"
    "m_claims s' = m_claims (cancel_jobs c s)"
    "m_cancels s' = (\<lambda>k. k \<in> set (dropped_pending c s) \<or> m_cancels (cancel_jobs c s) k)"
    "m_dones s' = m_dones s" "m_native s' = m_native s"
    by (simp_all add: s' cong)
qed

lemma scope_closing_begin:
  assumes "begin_teardown c s = (w, s')"
  shows "scope_closing c' s' \<longleftrightarrow> in_scope c c' \<or> scope_closing c' s"
  using begin_teardown_fields(5,6) [OF assms]
  by (auto simp: scope_closing_def connection_closing_def update_scope_def close_scope_def scope_of_def
      update_conv' in_scope_def split: option.splits)

lemma begin_teardown_ok:
  assumes ok: "manager_ok s" and r: "begin_teardown c s = (w, s')"
  shows "manager_ok s'"
proof
  note f = begin_teardown_fields [OF r]
  note parts = manager_okD [OF cancel_jobs_ok [OF ok, of c]] and parts0 = manager_okD [OF ok]
  show "ids_ok s'" using parts0(1) by (auto simp: ids_ok_def f distinct_map_filter)
  show "jobs_ok s'" using parts(2) by (simp add: jobs_ok_def f)
  show "pending_ok s'" using parts0(3) by (simp add: pending_ok_def f)
  show "slots_ok s'" using parts(4) by (simp add: slots_ok_def slot_connections_def f)
  show "reviews_ok s'" using parts0(5) le_trans [OF length_filter_le] by (auto simp: reviews_ok_def f)
  show "closing_ok s'"
    unfolding closing_ok_def scope_closing_begin [OF r]
  proof (intro conjI allI impI)
    fix j e assume e: "map_of (m_jobs s') j = Some e" "je_active e \<noteq> None"
      "in_scope c (je_connection e) \<or> scope_closing (je_connection e) s"
    then obtain e0 where e0: "map_of (m_jobs s) j = Some e0" "e = cancelled_entry c s j e0"
      by (auto simp: f)
    with parts0(6) e show "m_claims s' j \<noteq> OPEN"
      by (auto simp: f cancel_jobs_cells closing_ok_def)
  next
    fix t p assume p: "map_of (m_pending s') t = Some p"
      "in_scope c (pe_connection_id p) \<or> scope_closing (pe_connection_id p) s"
    then have "(t, p) \<in> set (m_pending s)" by (auto simp: f dest: map_of_SomeD)
    with p parts0(6) show "m_cancels s' t"
      by (force simp: f closing_ok_def dropped_pending_def cancel_jobs_cells split: option.split)
  qed
qed

lemma scope_closing_end: "scope_closing c' (end_teardown c s) \<Longrightarrow> scope_closing c' s"
  by (auto simp: end_teardown_def scope_closing_def connection_closing_def update_scope_def reopen_scope_def
      scope_of_def scope_default_def update_conv' split: option.splits if_splits)

lemma end_teardown_rest [simp]:
  "m_jobs (end_teardown c s) = m_jobs s" "m_pending (end_teardown c s) = m_pending s"
  "m_reviews (end_teardown c s) = m_reviews s" "m_claims (end_teardown c s) = m_claims s"
  "m_cancels (end_teardown c s) = m_cancels s" "m_dones (end_teardown c s) = m_dones s"
  "m_native (end_teardown c s) = m_native s"
  by (simp_all add: end_teardown_def)

lemma end_teardown_ok: "manager_ok s \<Longrightarrow> manager_ok (end_teardown c s)"
proof
  assume ok: "manager_ok s"
  note parts = manager_okD [OF ok]
  show "ids_ok (end_teardown c s)" using parts(1) by (simp add: ids_ok_def)
  show "jobs_ok (end_teardown c s)" using parts(2) by (simp add: jobs_ok_def)
  show "pending_ok (end_teardown c s)" using parts(3) by (simp add: pending_ok_def)
  show "slots_ok (end_teardown c s)" using parts(4) by (simp add: slots_ok_def slot_connections_def)
  show "reviews_ok (end_teardown c s)" using parts(5) by (simp add: reviews_ok_def)
  show "closing_ok (end_teardown c s)"
    using parts(6) scope_closing_end [of _ c s] unfolding closing_ok_def end_teardown_rest by blast
qed

text \<open>The \<open>HashMap\<close> of jobs may change its iteration order at any time.\<close>

lemma reorder_ok:
  assumes ok: "manager_ok s" and js: "mset js = mset (m_jobs s)"
  shows "manager_ok (s\<lparr>m_jobs := js\<rparr>)" (is "manager_ok ?s'")
proof
  note parts = manager_okD [OF ok]
  note same = map_of_mset_eq [OF js [symmetric] manager_distinct(1) [OF ok]]
  have "set (keys js) = set (keys (m_jobs s))" using mset_eq_setD [OF js] by simp
  then show "ids_ok ?s'" using parts(1) same(2) by (simp add: ids_ok_def)
  show "jobs_ok ?s'" using parts(2) by (simp add: jobs_ok_def same)
  show "pending_ok ?s'" using parts(3) by (simp add: pending_ok_def)
  have "job_slots js = job_slots (m_jobs s)"
    unfolding job_slots_def mset_map mset_filter js ..
  then show "slots_ok ?s'" using parts(4) by (simp add: slots_ok_def slot_connections_def)
  show "reviews_ok ?s'" using parts(5) by (simp add: reviews_ok_def)
  have "scope_closing c ?s' = scope_closing c s" for c
    by (simp add: scope_closing_def connection_closing_def)
  then show "closing_ok ?s'" using parts(6) by (simp add: closing_ok_def same)
qed

end
