(* ===== verification/TransferSystem.thy ===== *)
theory TransferSystem imports TransferOps begin

text \<open>
  The transfer manager with its clients as a transition system.  Between two steps the mutex
  is free, so a step is one locked section of \<open>manager.rs\<close>: the operations of the clients
  holding admissions, of the workers the manager has spawned, of the watchdogs, and of a
  teardown.  Which step comes next is open: it stands for every interleaving of the tasks.
\<close>

text \<open>A spawned worker runs, then \<open>complete\<close> holds its result until \<open>terminal\<close>.\<close>

datatype worker = Working | Completing "unit transfer_result"

record system =
  sy_mg :: manager
  sy_now :: instant
  sy_held :: "admission list"
  sy_workers :: "string \<rightharpoonup> worker"
  sy_aborting :: "string set"
  sy_used :: "string set"

definition system_new :: "bool \<Rightarrow> system" where
  "system_new native =
     \<lparr>sy_mg = manager_new native, sy_now = 0, sy_held = [], sy_workers = Map.empty,
      sy_aborting = {}, sy_used = {}\<rparr>"

definition fresh_snapshot :: "admission \<Rightarrow> snapshot \<Rightarrow> bool" where
  "fresh_snapshot a snap \<longleftrightarrow> sn_connection_id snap = ad_connection_id a \<and> sn_phase snap = Preparing"

definition with_held :: "admission transfer_result \<Rightarrow> admission list \<Rightarrow> admission list" where
  "with_held r held = (case r of Inr a \<Rightarrow> a # held | Inl _ \<Rightarrow> held)"

definition with_worker ::
  "snapshot transfer_result \<Rightarrow> string \<Rightarrow> (string \<rightharpoonup> worker) \<Rightarrow> (string \<rightharpoonup> worker)" where
  "with_worker r j ws = (case r of Inr _ \<Rightarrow> ws(j \<mapsto> Working) | Inl _ \<Rightarrow> ws)"

text \<open>
  The steps a worker or a client takes to wind down what it holds: drop a reservation, end
  the work, report the end, and join an aborted task.  The label is the identifier of the
  reservation or job whose owner takes the step.
\<close>

inductive wind_down :: "string \<Rightarrow> system \<Rightarrow> system \<Rightarrow> bool" where
  drop: "a \<in> set (sy_held y) \<Longrightarrow>
    wind_down (ad_id a) y (y\<lparr>sy_mg := drop_admission a (sy_mg y), sy_held := remove1 a (sy_held y)\<rparr>)"
| ends: "sy_workers y j = Some Working \<Longrightarrow>
    complete_result (sy_now y) (job_context_of j (sy_mg y)) r (sy_mg y) = (r', m) \<Longrightarrow>
    wind_down j y (y\<lparr>sy_mg := m, sy_workers := (sy_workers y)(j \<mapsto> Completing r')\<rparr>)"
| terminal: "sy_workers y j = Some (Completing r) \<Longrightarrow>
    wind_down j y (y\<lparr>sy_mg := finish_job (sy_now y) stamp j r (sy_mg y),
                   sy_workers := (sy_workers y)(j := None)\<rparr>)"
| joined: "j \<in> sy_aborting y \<Longrightarrow>
    wind_down j y (y\<lparr>sy_mg := finish_job (sy_now y) stamp j (Inl (Timeout ''cleanup'')) (sy_mg y),
                   sy_workers := (sy_workers y)(j := None),
                   sy_aborting := sy_aborting y - {j}\<rparr>)"

inductive transfer_step :: "system \<Rightarrow> system \<Rightarrow> bool" where
  wind: "wind_down t y y' \<Longrightarrow> transfer_step y y'"
| tick: "transfer_step y (y\<lparr>sy_now := sy_now y + d\<rparr>)"
| monitor: "transfer_step y (y\<lparr>sy_mg := prune_state (sy_now y) (sy_mg y)\<rparr>)"
| reorder: "mset js = mset (m_jobs (sy_mg y)) \<Longrightarrow>
    transfer_step y (y\<lparr>sy_mg := (sy_mg y)\<lparr>m_jobs := js\<rparr>\<rparr>)"
| admission: "t \<notin> sy_used y \<Longrightarrow> admit (sy_now y) t c (sy_mg y) = (r, m) \<Longrightarrow>
    transfer_step y (y\<lparr>sy_mg := m, sy_held := with_held r (sy_held y), sy_used := insert t (sy_used y)\<rparr>)"
| inspect: "a \<in> set (sy_held y) \<Longrightarrow> t \<notin> sy_used y \<Longrightarrow>
    insert_review (sy_now y) t a rv (sy_mg y) = (r, m) \<Longrightarrow>
    transfer_step y (y\<lparr>sy_mg := m, sy_used := insert t (sy_used y)\<rparr>)"
| inspect_shared: "a \<in> set (sy_held y) \<Longrightarrow> t \<notin> sy_used y \<Longrightarrow>
    insert_shared_review (sy_now y) t a rv (sy_mg y) = (r, m) \<Longrightarrow>
    transfer_step y (y\<lparr>sy_mg := m, sy_used := insert t (sy_used y)\<rparr>)"
| review: "find_review (sy_now y) t (sy_mg y) = (r, m) \<Longrightarrow> transfer_step y (y\<lparr>sy_mg := m\<rparr>)"
| release_review: "transfer_step y (y\<lparr>sy_mg := release_review t (sy_mg y)\<rparr>)"
| start: "a \<in> set (sy_held y) \<Longrightarrow> j \<notin> sy_used y \<Longrightarrow> fresh_snapshot a snap \<Longrightarrow>
    start_job (sy_now y) a t snap j spawned (sy_mg y) = (r, m) \<Longrightarrow>
    transfer_step y (y\<lparr>sy_mg := m, sy_held := remove1 a (sy_held y),
      sy_workers := with_worker r j (sy_workers y), sy_used := insert j (sy_used y)\<rparr>)"
| finalize: "sy_workers y j = Some Working \<Longrightarrow>
    begin_finalizing (job_context_of j (sy_mg y)) (sy_mg y) = (b, m) \<Longrightarrow>
    transfer_step y (y\<lparr>sy_mg := m\<rparr>)"
| progress: "sy_workers y j = Some Working \<Longrightarrow>
    transfer_step y (y\<lparr>sy_mg := progress (job_context_of j (sy_mg y)) bytes rows (sy_mg y)\<rparr>)"
| succeed: "sy_workers y j = Some Working \<Longrightarrow>
    transfer_step y (y\<lparr>sy_mg := succeeded (job_context_of j (sy_mg y)) rows (sy_mg y)\<rparr>)"
| get: "job_get (sy_now y) j (sy_mg y) = (r, m) \<Longrightarrow> transfer_step y (y\<lparr>sy_mg := m\<rparr>)"
| list: "job_list (sy_now y) c (sy_mg y) = (sns, m) \<Longrightarrow> transfer_step y (y\<lparr>sy_mg := m\<rparr>)"
| release: "job_release j (sy_mg y) = (r, m) \<Longrightarrow> transfer_step y (y\<lparr>sy_mg := m\<rparr>)"
| cancel: "cancel_job j (sy_mg y) = (r, m) \<Longrightarrow> transfer_step y (y\<lparr>sy_mg := m\<rparr>)"
| abort: "abort_cancelled c j (sy_mg y) = (tasks, waits, m) \<Longrightarrow>
    transfer_step y (y\<lparr>sy_mg := m, sy_aborting := sy_aborting y \<union> set tasks\<rparr>)"
| teardown_begin: "begin_teardown c (sy_mg y) = (waits, m) \<Longrightarrow> transfer_step y (y\<lparr>sy_mg := m\<rparr>)"
| teardown_end: "transfer_step y (y\<lparr>sy_mg := end_teardown c (sy_mg y)\<rparr>)"
| cleanup: "m_native (sy_mg y) \<Longrightarrow> \<not> job_is_active j (sy_mg y) \<Longrightarrow>
    transfer_step y (y\<lparr>sy_mg := io_cleaned j (sy_mg y)\<rparr>)"

inductive transfer_reachable :: "bool \<Rightarrow> system \<Rightarrow> bool" for native where
  initial: "transfer_reachable native (system_new native)"
| step: "transfer_reachable native y \<Longrightarrow> transfer_step y y' \<Longrightarrow> transfer_reachable native y'"

inductive_cases wind_downE: "wind_down t y y'"

section \<open>What holds between the manager and its clients\<close>

text \<open>
  Identifiers are spent once; an admission in a client's hands is a reservation of its own
  connection; a job is active exactly while its worker is there or its task is being joined,
  a worker that outlives its job was cancelled, and a reservation has no worker.
\<close>

definition held_ok :: "system \<Rightarrow> bool" where
  "held_ok y \<longleftrightarrow> distinct (map ad_id (sy_held y))
     \<and> set (keys (m_pending (sy_mg y))) = ad_id ` set (sy_held y)
     \<and> (\<forall>a\<in>set (sy_held y). \<forall>p. map_of (m_pending (sy_mg y)) (ad_id a) = Some p \<longrightarrow>
          pe_connection_id p = ad_connection_id a)"

definition workers_ok :: "system \<Rightarrow> bool" where
  "workers_ok y \<longleftrightarrow>
     (\<forall>j. sy_workers y j \<noteq> None \<longrightarrow> job_is_active j (sy_mg y) \<or> m_claims (sy_mg y) j = CANCEL)
     \<and> (\<forall>j. job_is_active j (sy_mg y) \<longrightarrow> sy_workers y j \<noteq> None \<or> j \<in> sy_aborting y)
     \<and> (\<forall>j\<in>sy_aborting y. m_claims (sy_mg y) j = CANCEL)
     \<and> (\<forall>t p. map_of (m_pending (sy_mg y)) t = Some p \<longrightarrow> sy_workers y t = None \<and> t \<notin> sy_aborting y)"

definition used_ok :: "system \<Rightarrow> bool" where
  "used_ok y \<longleftrightarrow> identifiers (sy_mg y) \<subseteq> sy_used y \<and> dom (sy_workers y) \<subseteq> sy_used y
     \<and> sy_aborting y \<subseteq> sy_used y"

definition system_ok :: "system \<Rightarrow> bool" where
  "system_ok y \<longleftrightarrow> manager_ok (sy_mg y) \<and> held_ok y \<and> workers_ok y \<and> used_ok y"

section \<open>Operations that leave reservations and activity alone\<close>

definition tame :: "manager \<Rightarrow> manager \<Rightarrow> bool" where
  "tame s s' \<longleftrightarrow> manager_ok s' \<and> m_pending s' = m_pending s \<and> identifiers s' \<subseteq> identifiers s
     \<and> (\<forall>j. job_is_active j s' \<longleftrightarrow> job_is_active j s)
     \<and> (\<forall>j. m_claims s j = CANCEL \<longrightarrow> m_claims s' j = CANCEL)"

lemma tame_refl: "manager_ok s \<Longrightarrow> tame s s"
  by (simp add: tame_def)

lemma tame_adjust:
  assumes "manager_ok s'" "m_jobs s' = adjust g (m_jobs s)" "m_pending s' = m_pending s"
    and "set (keys (m_reviews s')) \<subseteq> set (keys (m_reviews s))"
    and active: "\<And>k e. je_active (g k e) = None \<longleftrightarrow> je_active e = None"
    and "\<And>j. m_claims s j = CANCEL \<Longrightarrow> m_claims s' j = CANCEL"
  shows "tame s s'"
proof -
  have "(\<exists>y. je_active (g k e) = Some y) \<longleftrightarrow> (\<exists>y. je_active e = Some y)" for k e
    using active [of k e] by (cases "je_active e") auto
  then have "job_is_active j s' \<longleftrightarrow> job_is_active j s" for j
    by (simp add: job_is_active_def assms(2) split: option.split)
  then show ?thesis using assms by (auto simp: tame_def identifiers_def)
qed

lemma tame_filter:
  assumes ok: "manager_ok s" and ok': "manager_ok s'" and jobs: "m_jobs s' = filter P (m_jobs s)"
    and same: "m_pending s' = m_pending s" "m_claims s' = m_claims s"
    and revs: "set (keys (m_reviews s')) \<subseteq> set (keys (m_reviews s))"
    and keep: "\<And>k e. map_of (m_jobs s) k = Some e \<Longrightarrow> je_active e \<noteq> None \<Longrightarrow> P (k, e)"
  shows "tame s s'"
proof -
  have "job_is_active j s' \<longleftrightarrow> job_is_active j s" for j
    using keep by (auto simp: job_is_active_iff jobs map_of_filter_Some [OF manager_distinct(1) [OF ok]])
  then show ?thesis
    using ok' revs by (auto simp: tame_def same identifiers_def jobs)
qed

lemma prune_tame: "manager_ok s \<Longrightarrow> tame s (prune_state now s)"
proof (rule tame_filter)
  assume ok: "manager_ok s"
  fix k e assume "map_of (m_jobs s) k = Some e" "je_active e \<noteq> None"
  from prune_active [OF ok this] ok show "kept_after_prune now (m_jobs s) (k, e)"
    by (simp add: prune_jobs map_of_filter_Some)
qed (auto simp: prune_jobs prune_reviews)

lemma reorder_tame: "manager_ok s \<Longrightarrow> mset js = mset (m_jobs s) \<Longrightarrow> tame s (s\<lparr>m_jobs := js\<rparr>)"
  using map_of_mset_eq(1) [of "m_jobs s" js] mset_eq_setD [of js "m_jobs s"]
  by (simp add: tame_def reorder_ok identifiers_def job_is_active_iff)

lemma find_review_tame: "manager_ok s \<Longrightarrow> find_review now t s = (r, s') \<Longrightarrow> tame s s'"
  using prune_tame [of s now] by (auto simp: find_review_def Let_def split: option.splits if_splits)

lemma release_review_tame: "manager_ok s \<Longrightarrow> tame s (release_review t s)"
  by (rule tame_adjust [where g = "\<lambda>_ e. e"])
     (simp_all add: release_review_ok, auto simp: release_review_def delete_filter intro: rev_image_eqI)

lemma begin_finalizing_tame:
  assumes ok: "manager_ok s" and r: "begin_finalizing ctx s = (b, s')"
    and live: "m_claims s (jc_job_id ctx) = OPEN \<Longrightarrow> job_is_active (jc_job_id ctx) s"
  shows "tame s s'"
  using r
proof (cases rule: begin_finalizing_cases)
  case won
  show ?thesis
    by (rule tame_adjust [OF begin_finalizing_ok [OF ok r live], where g = "\<lambda>k e. if k = jc_job_id ctx
        then e\<lparr>je_snapshot := (je_snapshot e)\<lparr>sn_phase := Finalizing\<rparr>\<rparr> else e"])
       (use ok won(2) in \<open>auto simp: won(3) map_entry_adjust\<close>)
qed (use ok tame_refl in simp)

lemma succeeded_tame:
  assumes ok: "manager_ok s"
    and live: "m_claims s (jc_job_id ctx) = FINALIZING \<Longrightarrow> job_is_active (jc_job_id ctx) s"
  shows "tame s (succeeded ctx rows s)"
proof (cases rule: succeeded_cases [of s ctx rows])
  case done_work
  show ?thesis
    by (rule tame_adjust [OF succeeded_ok [OF ok live], where g = "\<lambda>k e. if k = jc_job_id ctx
        then e\<lparr>je_snapshot := (je_snapshot e)
          \<lparr>sn_rows_committed := map_option (\<lambda>v. min v SAFE_INTEGER) rows\<rparr>\<rparr> else e"])
       (use ok done_work(1) in \<open>auto simp: done_work(2) map_entry_adjust\<close>)
qed (use ok tame_refl in simp)

lemma progress_tame: "manager_ok s \<Longrightarrow> tame s (progress ctx bytes rows s)"
  by (rule tame_adjust [where g = "\<lambda>k e. if k = jc_job_id ctx
      then (if je_active e = None then e
            else e\<lparr>je_snapshot := record_progress bytes rows (je_snapshot e)\<rparr>) else e"])
     (simp_all add: progress_ok, simp_all add: progress_def map_entry_adjust)

lemma job_get_tame: "manager_ok s \<Longrightarrow> job_get now j s = (r, s') \<Longrightarrow> tame s s'"
  using prune_tame [of s now] by (auto simp: job_get_def Let_def split: option.splits)

lemma job_list_tame: "manager_ok s \<Longrightarrow> job_list now c s = (r, s') \<Longrightarrow> tame s s'"
  using prune_tame [of s now] by (auto simp: job_list_def Let_def)

lemma job_release_tame:
  assumes ok: "manager_ok s" and r: "job_release j s = (r, s')"
  shows "tame s s'"
proof (cases "job_is_active j s")
  case True
  with ok r show ?thesis by (simp add: job_release_def tame_refl)
next
  case False
  then have s': "s' = s\<lparr>m_jobs := AList.delete j (m_jobs s)\<rparr>" using r by (simp add: job_release_def)
  from False show ?thesis
    by (intro tame_filter [OF ok job_release_ok [OF ok r], where P = "\<lambda>(k, _). k \<noteq> j"])
       (auto simp: s' delete_filter job_is_active_iff)
qed

lemma cancel_job_tame:
  assumes ok: "manager_ok s" and r: "cancel_job j s = (r, s')"
  shows "tame s s'"
  using ok r
proof (cases rule: cancel_job_cases)
  case (won e)
  show ?thesis
    by (rule tame_adjust [OF cancel_job_ok [OF ok r], where g = "\<lambda>k e. if k = j
        then e\<lparr>je_snapshot := (je_snapshot e)\<lparr>sn_phase := Cancelling\<rparr>\<rparr> else e"])
       (auto simp: won(5))
qed (use ok tame_refl in simp_all)

lemma abort_cancelled_tame:
  assumes ok: "manager_ok s" and r: "abort_cancelled c j s = (tasks, waits, s')"
  shows "tame s s'"
proof (rule tame_adjust [OF abort_cancelled_ok [OF ok r] abort_cancelled_cases(1) [OF r]])
  note same = abort_cancelled_cases(2) [OF r]
  show "m_pending s' = m_pending s" by (subst same) simp
  show "set (keys (m_reviews s')) \<subseteq> set (keys (m_reviews s))" by (subst same) simp
  show "m_claims s k = CANCEL \<Longrightarrow> m_claims s' k = CANCEL" for k by (subst same) simp
qed (auto simp: abort_entry_def)

lemma begin_teardown_tame:
  assumes ok: "manager_ok s" and r: "begin_teardown c s = (w, s')"
  shows "tame s s'"
  by (rule tame_adjust [OF begin_teardown_ok [OF ok r] begin_teardown_fields(2) [OF r]])
     (auto simp: begin_teardown_fields [OF r] cancel_jobs_cells split: option.split)

lemma end_teardown_tame: "manager_ok s \<Longrightarrow> tame s (end_teardown c s)"
  by (rule tame_adjust [where g = "\<lambda>_ e. e"])
     (simp_all add: end_teardown_ok)

lemma io_cleaned_tame: "manager_ok s \<Longrightarrow> tame s (io_cleaned j s)"
  by (rule tame_adjust [where g = "\<lambda>k e. if k = j
      then e\<lparr>je_io := (je_io e)\<lparr>io_complete := True\<rparr>\<rparr> else e"])
     (simp_all add: io_cleaned_ok, simp_all add: io_cleaned_def map_entry_adjust)

lemma complete_result_tame:
  "manager_ok s \<Longrightarrow> complete_result now ctx r s = (r', s') \<Longrightarrow> tame s s'"
  using complete_result_state [of now ctx r s r' s'] prune_tame [of s now] tame_refl [of s] by auto

lemma tame_system:
  assumes "system_ok y" "tame (sy_mg y) m"
  shows "system_ok (y\<lparr>sy_mg := m\<rparr>)"
  using assms by (auto simp: system_ok_def tame_def held_ok_def workers_ok_def used_ok_def)

section \<open>The steps that touch them\<close>

lemma system_okD:
  assumes "system_ok y"
  shows "manager_ok (sy_mg y)" "held_ok y" "workers_ok y" "used_ok y"
  using assms by (simp_all add: system_ok_def)

lemma held_not_job:
  assumes "system_ok y" "a \<in> set (sy_held y)"
  shows "ad_id a \<notin> set (keys (m_jobs (sy_mg y)))" "ad_id a \<in> set (keys (m_pending (sy_mg y)))"
proof -
  from assms system_okD(2) [OF assms(1)] show "ad_id a \<in> set (keys (m_pending (sy_mg y)))"
    unfolding held_ok_def by blast
  with manager_okD(1) [OF system_okD(1) [OF assms(1)]] show "ad_id a \<notin> set (keys (m_jobs (sy_mg y)))"
    unfolding ids_ok_def by blast
qed

lemma remove1_map:
  "distinct (map f xs) \<Longrightarrow> a \<in> set xs \<Longrightarrow>
     f ` set (remove1 a xs) = f ` set xs - {f a} \<and> distinct (map f (remove1 a xs))"
proof (induction xs)
  case (Cons x xs)
  show ?case
  proof (cases "x = a")
    case True
    with Cons.prems show ?thesis by auto
  next
    case False
    with Cons have IH: "f ` set (remove1 a xs) = f ` set xs - {f a}" "distinct (map f (remove1 a xs))"
      by simp_all
    from False Cons.prems have "f x \<noteq> f a" by auto
    moreover from Cons.prems(1) have "f x \<notin> f ` set (remove1 a xs)"
      using set_remove1_subset [of a xs] by fastforce
    ultimately show ?thesis using False IH by auto
  qed
qed simp

lemma keys_delete: "set (keys (AList.delete k xs)) = set (keys xs) - {k}"
  by (simp only: AList.delete_keys set_removeAll)

lemma keys_update: "set (keys (AList.update k v xs)) = insert k (set (keys xs))"
  by (simp add: AList.dom_update)

lemma held_ok_remove:
  assumes ok: "system_ok y" and a: "a \<in> set (sy_held y)"
    and pend: "m_pending m = AList.delete (ad_id a) (m_pending (sy_mg y))"
    and y': "sy_mg y' = m" "sy_held y' = remove1 a (sy_held y)"
  shows "held_ok y'"
proof -
  note held = system_okD(2) [OF ok, unfolded held_ok_def]
  have rm: "ad_id ` set (remove1 a (sy_held y)) = ad_id ` set (sy_held y) - {ad_id a}"
    "distinct (map ad_id (remove1 a (sy_held y)))"
    using remove1_map [of ad_id, OF _ a] held by auto
  have "\<forall>b\<in>set (remove1 a (sy_held y)). \<forall>p. map_of (m_pending m) (ad_id b) = Some p \<longrightarrow>
      pe_connection_id p = ad_connection_id b"
  proof (intro ballI allI impI)
    fix b p assume b: "b \<in> set (remove1 a (sy_held y))" and p: "map_of (m_pending m) (ad_id b) = Some p"
    from p have "map_of (m_pending (sy_mg y)) (ad_id b) = Some p"
      by (simp add: pend delete_conv' split: if_splits)
    with b held set_remove1_subset [of a "sy_held y"] show "pe_connection_id p = ad_connection_id b" by blast
  qed
  moreover have "set (keys (m_pending m)) = ad_id ` set (remove1 a (sy_held y))"
    using held unfolding pend keys_delete rm by blast
  ultimately show ?thesis using rm unfolding held_ok_def y' by blast
qed

lemma finish_active:
  assumes "manager_ok s"
  shows "job_is_active k (finish_job now stamp j r s) \<longleftrightarrow> job_is_active k s \<and> k \<noteq> j"
proof (cases "job_is_active j s")
  case True
  note ok = finished_ok [OF assms True, of now stamp r]
  have "job_is_active k (prune_state now (finished now stamp j r s)) \<longleftrightarrow>
      job_is_active k (finished now stamp j r s)"
    using prune_tame [OF ok, of now] by (simp add: tame_def)
  also have "\<dots> \<longleftrightarrow> job_is_active k s \<and> k \<noteq> j"
    by (auto simp: job_is_active_def finished_def finished_job_def split: option.split)
  finally show ?thesis using True by (simp add: finish_job_cases [OF assms])
qed (auto simp: finish_job_cases [OF assms])

lemma finish_rest:
  assumes "manager_ok s"
  shows "m_pending (finish_job now stamp j r s) = m_pending s"
    and "m_claims (finish_job now stamp j r s) = m_claims s"
    and "identifiers (finish_job now stamp j r s) \<subseteq> identifiers s"
  using identifiers_prune [of now "finished now stamp j r s"]
  by (auto simp: finish_job_cases [OF assms] finished_def identifiers_def)

lemma drop_ok_system:
  assumes ok: "system_ok y" and a: "a \<in> set (sy_held y)"
  shows "system_ok (y\<lparr>sy_mg := drop_admission a (sy_mg y), sy_held := remove1 a (sy_held y)\<rparr>)" (is "system_ok ?y")
  unfolding system_ok_def
proof (intro conjI)
  show "manager_ok (sy_mg ?y)" using drop_ok [OF system_okD(1) [OF ok] held_not_job(1) [OF ok a]] by simp
  show "held_ok ?y" by (rule held_ok_remove [OF ok a]) (simp_all add: drop_admission_def)
  show "workers_ok ?y" using system_okD(3) [OF ok]
    by (auto simp: workers_ok_def drop_admission_def job_is_active_def delete_conv' split: if_splits)
  show "used_ok ?y" using system_okD(4) [OF ok]
    by (auto simp: used_ok_def drop_admission_def identifiers_def delete_filter)
qed

lemma finish_ok_system:
  assumes ok: "system_ok y" and who: "A \<subseteq> {j}"
  shows "system_ok (y\<lparr>sy_mg := finish_job (sy_now y) stamp j r (sy_mg y),
      sy_workers := (sy_workers y)(j := None), sy_aborting := sy_aborting y - A\<rparr>)" (is "system_ok ?y")
  unfolding system_ok_def
proof (intro conjI)
  note parts = system_okD [OF ok]
  note fin = finish_active [OF parts(1)] finish_rest [OF parts(1)]
  show "manager_ok (sy_mg ?y)" using finish_ok [OF parts(1)] by simp
  show "held_ok ?y" using parts(2) by (simp add: held_ok_def fin)
  show "workers_ok ?y" using parts(3) who by (auto simp: workers_ok_def fin)
  show "used_ok ?y" using parts(4) fin(4) [of "sy_now y" stamp j r] by (auto simp: used_ok_def)
qed

lemma wind_down_ok:
  assumes ok: "system_ok y" and step: "wind_down t y y'"
  shows "system_ok y'"
  using step
proof cases
  case (drop a)
  then show ?thesis using drop_ok_system [OF ok] by simp
next
  case (ends r r' m)
  note tm = complete_result_tame [OF system_okD(1) [OF ok] ends(3)]
  from tame_system [OF ok tm] have "system_ok (y\<lparr>sy_mg := m\<rparr>)" .
  then show ?thesis
    using ends(2) unfolding ends(1)
    by (auto simp: system_ok_def held_ok_def workers_ok_def used_ok_def)
next
  case (terminal r stamp)
  then show ?thesis using finish_ok_system [OF ok, of "{}" t stamp r] by simp
next
  case (joined stamp)
  then show ?thesis using finish_ok_system [OF ok, of "{t}" t stamp] by simp
qed

lemma fresh_identifier: "system_ok y \<Longrightarrow> t \<notin> sy_used y \<Longrightarrow> t \<notin> identifiers (sy_mg y)"
  by (auto simp: system_ok_def used_ok_def)

lemma fresh_idle:
  assumes "system_ok y" "t \<notin> sy_used y"
  shows "sy_workers y t = None" "t \<notin> sy_aborting y" "\<not> job_is_active t (sy_mg y)"
  using system_okD(4) [OF assms(1)] assms(2) fresh_keys(1) [OF fresh_identifier [OF assms]]
  by (auto simp: used_ok_def job_is_active_def)

lemma reserve_system:
  assumes ok: "system_ok y" and fresh: "t \<notin> sy_used y"
    and m: "manager_ok m" "m_pending m = AList.update t \<lparr>pe_connection_id = ad_connection_id a\<rparr> (m_pending (sy_mg y))"
      "m_claims m = m_claims (sy_mg y)" "\<And>j. job_is_active j m \<longleftrightarrow> job_is_active j (sy_mg y)"
      "identifiers m \<subseteq> insert t (identifiers (sy_mg y))"
    and a: "ad_id a = t"
  shows "system_ok (y\<lparr>sy_mg := m, sy_held := a # sy_held y, sy_used := insert t (sy_used y)\<rparr>)" (is "system_ok ?y")
  unfolding system_ok_def
proof (intro conjI)
  note held = system_okD(2) [OF ok, unfolded held_ok_def]
  have t: "t \<notin> ad_id ` set (sy_held y)"
    using held fresh_identifier [OF ok fresh] unfolding identifiers_def by blast
  have pend: "m_pending m = m_pending (sy_mg y) @ [(t, \<lparr>pe_connection_id = ad_connection_id a\<rparr>)]"
    using fresh_identifier [OF ok fresh] by (simp add: m(2) update_fresh identifiers_def)
  show "manager_ok (sy_mg ?y)" using m(1) by simp
  have "pe_connection_id p = ad_connection_id b"
    if "b \<in> set (a # sy_held y)" "map_of (m_pending m) (ad_id b) = Some p" for b p
  proof (cases "b = a")
    case True
    with that(2) a show ?thesis by (auto simp: m(2) update_conv')
  next
    case False
    with that(1) t have "b \<in> set (sy_held y)" "ad_id b \<noteq> t" by auto
    with that(2) held show ?thesis by (simp add: m(2) update_conv')
  qed
  with held t show "held_ok ?y" by (simp add: held_ok_def pend a)
  show "workers_ok ?y" using system_okD(3) [OF ok] fresh_idle [OF ok fresh]
    by (auto simp: workers_ok_def m update_conv' split: if_splits)
  show "used_ok ?y" using system_okD(4) [OF ok] m(5) by (auto simp: used_ok_def)
qed

lemma admission_system:
  assumes ok: "system_ok y" and fresh: "t \<notin> sy_used y" and r: "admit (sy_now y) t c (sy_mg y) = (r, m)"
  shows "system_ok (y\<lparr>sy_mg := m, sy_held := with_held r (sy_held y), sy_used := insert t (sy_used y)\<rparr>)"
proof (cases r)
  case (Inl e)
  with r have "m = sy_mg y \<or> m = prune_state (sy_now y) (sy_mg y)" by (auto dest: admit_Inl)
  then have "tame (sy_mg y) m"
    using tame_refl prune_tame system_okD(1) [OF ok] by blast
  from tame_system [OF ok this] Inl show ?thesis
    by (auto simp: with_held_def system_ok_def held_ok_def workers_ok_def used_ok_def)
next
  case (Inr a)
  note tm = prune_tame [OF system_okD(1) [OF ok], of "sy_now y"]
  from r Inr have "admit (sy_now y) t c (sy_mg y) = (Inr a, m)" by simp
  then show ?thesis
  proof (rule admit_Inr)
    fix s assume s: "s = prune_state (sy_now y) (sy_mg y)"
      and a: "a = \<lparr>ad_id = t, ad_connection_id = c, ad_connection = connection_generation c s,
          ad_global = sc_generation (m_global s)\<rparr>"
      and m: "m = s\<lparr>m_pending := AList.update t \<lparr>pe_connection_id = c\<rparr> (m_pending s),
            m_cancels := (m_cancels s)(t := False), m_dones := (m_dones s)(t := False)\<rparr>"
    have act: "job_is_active j m \<longleftrightarrow> job_is_active j (sy_mg y)" for j
      using tm unfolding tame_def s [symmetric] by (simp add: m job_is_active_def)
    have "identifiers m \<subseteq> insert t (identifiers s)"
      unfolding m identifiers_def by (simp add: keys_update del: set_map)
    then have ids: "identifiers m \<subseteq> insert t (identifiers (sy_mg y))"
      using tm unfolding tame_def s [symmetric] by blast
    show ?thesis
      unfolding Inr with_held_def sum.case
      by (rule reserve_system [OF ok fresh admit_ok [OF system_okD(1) [OF ok] fresh_identifier [OF ok fresh] r]
          _ _ act ids]) (simp_all add: a m s)
  qed
qed

lemma inspect_system:
  assumes ok: "system_ok y" and fresh: "t \<notin> sy_used y"
    and r: "insert_review (sy_now y) t a rv (sy_mg y) = (r, m) \<or>
            insert_shared_review (sy_now y) t a rv (sy_mg y) = (r', m)"
  shows "system_ok (y\<lparr>sy_mg := m, sy_used := insert t (sy_used y)\<rparr>)" (is "system_ok ?y")
  unfolding system_ok_def
proof (intro conjI)
  let ?s = "prune_state (sy_now y) (sy_mg y)"
  have tm: "tame (sy_mg y) ?s" by (rule prune_tame [OF system_okD(1) [OF ok]])
  from r insert_review_result insert_shared_review_result
  have m: "m = ?s \<or> (\<exists>x. m = ?s\<lparr>m_reviews := AList.update t x (m_reviews ?s)\<rparr>)" by blast
  then have same: "m_pending m = m_pending ?s" "m_jobs m = m_jobs ?s" "m_claims m = m_claims ?s" by auto
  from m have "set (keys (m_reviews m)) \<subseteq> insert t (set (keys (m_reviews ?s)))"
    by (auto simp: keys_update simp del: set_map)
  with tm have ids: "identifiers m \<subseteq> insert t (identifiers (sy_mg y))"
    unfolding tame_def identifiers_def same by blast
  show "manager_ok (sy_mg ?y)"
    using insert_review_ok [OF system_okD(1) [OF ok] fresh_identifier [OF ok fresh] r] by simp
  show "held_ok ?y" using system_okD(2) [OF ok] by (simp add: held_ok_def same)
  show "workers_ok ?y" using system_okD(3) [OF ok] tm
    by (simp add: workers_ok_def tame_def job_is_active_def same)
  show "used_ok ?y" using system_okD(4) [OF ok] ids by (auto simp: used_ok_def)
qed

lemma started_fields [simp]:
  "m_jobs (started a t j s) = m_jobs s" "m_native (started a t j s) = m_native s"
  "m_pending (started a t j s) = AList.delete (ad_id a) (m_pending s)"
  "m_claims (started a t j s) = (m_claims s)(j := OPEN)"
  "m_reviews (started a t j s) = AList.delete t (m_reviews s)"
  by (simp_all add: started_def)

lemma start_system:
  assumes ok: "system_ok y" and a: "a \<in> set (sy_held y)" and fresh: "j \<notin> sy_used y"
    and snap: "fresh_snapshot a snap"
    and r: "start_job (sy_now y) a t snap j spawned (sy_mg y) = (r, m)"
  shows "system_ok (y\<lparr>sy_mg := m, sy_held := remove1 a (sy_held y),
      sy_workers := with_worker r j (sy_workers y), sy_used := insert j (sy_used y)\<rparr>)" (is "system_ok ?y")
  unfolding system_ok_def
proof (intro conjI)
  note parts = system_okD [OF ok] and idle = fresh_idle [OF ok fresh]
  note free = fresh_identifier [OF ok fresh]
  have mine: "map_of (m_pending (sy_mg y)) (ad_id a) = Some p \<Longrightarrow> pe_connection_id p = ad_connection_id a" for p
    using parts(2) a by (simp add: held_ok_def)
  show "manager_ok (sy_mg ?y)"
    using start_ok [OF parts(1) free held_not_job(1) [OF ok a] mine _ _ r] snap
    by (simp add: fresh_snapshot_def)
  from r have pend: "m_pending m = AList.delete (ad_id a) (m_pending (sy_mg y))"
    by (cases rule: start_job_cases) (simp_all add: drop_admission_def)
  show "held_ok ?y" by (rule held_ok_remove [OF ok a pend]) simp_all
  show "workers_ok ?y"
    using r
  proof (cases rule: start_job_cases)
    case refused
    then show ?thesis using parts(3)
      by (auto simp: workers_ok_def with_worker_def drop_admission_def job_is_active_def delete_conv'
          split: if_splits)
  next
    case not_spawned
    then show ?thesis using parts(3) idle
      by (auto simp: workers_ok_def with_worker_def job_is_active_def delete_conv' split: if_splits)
  next
    case running
    have "job_is_active k m \<longleftrightarrow> k = j \<or> job_is_active k (sy_mg y)" for k
      by (auto simp: job_is_active_def running(4) update_conv' new_job_def split: option.splits)
    then show ?thesis using parts(3) idle running(1,4) fresh_keys(2) [OF free]
      by (auto simp: workers_ok_def with_worker_def delete_conv' split: if_splits)
  qed
  have "identifiers m \<subseteq> insert j (identifiers (sy_mg y))"
    using r by (cases rule: start_job_cases)
      (simp_all add: identifiers_def drop_admission_def keys_delete keys_update del: set_map; blast)+
  moreover have "dom (with_worker r j (sy_workers y)) \<subseteq> insert j (dom (sy_workers y))"
    by (auto simp: with_worker_def split: sum.splits if_splits)
  ultimately show "used_ok ?y" using parts(4) unfolding used_ok_def by simp blast
qed

section \<open>Every reachable state\<close>

lemma worker_live:
  assumes "system_ok y" "sy_workers y j \<noteq> None" "m_claims (sy_mg y) j \<noteq> CANCEL"
  shows "job_is_active j (sy_mg y)"
  using system_okD(3) [OF assms(1)] assms(2,3) by (auto simp: workers_ok_def)

lemma transfer_step_ok:
  assumes ok: "system_ok y" and step: "transfer_step y y'"
  shows "system_ok y'"
proof -
  note m = system_okD(1) [OF ok] and tm = tame_system [OF ok]
  show ?thesis
    using step
  proof cases
    case wind then show ?thesis using wind_down_ok [OF ok] by simp
  next
    case tick then show ?thesis using ok
      by (simp add: system_ok_def held_ok_def workers_ok_def used_ok_def)
  next
    case monitor then show ?thesis using tm [OF prune_tame [OF m]] by simp
  next
    case reorder then show ?thesis using tm [OF reorder_tame [OF m]] by simp
  next
    case admission then show ?thesis using admission_system [OF ok] by simp
  next
    case inspect then show ?thesis using inspect_system [OF ok] by blast
  next
    case inspect_shared then show ?thesis using inspect_system [OF ok] by blast
  next
    case review then show ?thesis using tm [OF find_review_tame [OF m]] by simp
  next
    case release_review then show ?thesis using tm [OF release_review_tame [OF m]] by simp
  next
    case start then show ?thesis using start_system [OF ok] by simp
  next
    case (finalize j b m')
    then have "m_claims (sy_mg y) j = OPEN \<Longrightarrow> job_is_active j (sy_mg y)" using worker_live [OF ok] by simp
    then have "tame (sy_mg y) m'"
      by (intro begin_finalizing_tame [OF m finalize(3)]) (simp add: job_context_of_def)
    from tm [OF this] finalize show ?thesis by simp
  next
    case progress then show ?thesis using tm [OF progress_tame [OF m]] by simp
  next
    case (succeed j rows)
    then have "m_claims (sy_mg y) j = FINALIZING \<Longrightarrow> job_is_active j (sy_mg y)"
      using worker_live [OF ok] by simp
    then have "tame (sy_mg y) (succeeded (job_context_of j (sy_mg y)) rows (sy_mg y))"
      by (intro succeeded_tame [OF m]) (simp add: job_context_of_def)
    from tm [OF this] succeed show ?thesis by simp
  next
    case get then show ?thesis using tm [OF job_get_tame [OF m]] by simp
  next
    case list then show ?thesis using tm [OF job_list_tame [OF m]] by simp
  next
    case release then show ?thesis using tm [OF job_release_tame [OF m]] by simp
  next
    case cancel then show ?thesis using tm [OF cancel_job_tame [OF m]] by simp
  next
    case (abort c j tasks waits m')
    note tm' = tm [OF abort_cancelled_tame [OF m abort(2)]]
    have "m_claims m' k = CANCEL \<and> k \<in> sy_used y \<and> map_of (m_pending m') k = None" if "k \<in> set tasks" for k
    proof -
      from that abort_cancelled_cases(3) [OF abort(2)] obtain e
        where e: "(k, e) \<in> set (m_jobs (sy_mg y))" "abort_selects c j (sy_mg y) k e" by blast
      from e(1) have "k \<in> set (keys (m_jobs (sy_mg y)))" by (auto intro: rev_image_eqI)
      with system_okD(4) [OF ok] have "k \<in> sy_used y"
        unfolding used_ok_def identifiers_def by blast
      moreover have "m_claims m' k = CANCEL"
        using e(2) abort_cancelled_tame [OF m abort(2)] by (auto simp: abort_selects_def tame_def)
      moreover have "map_of (m_pending m') k = None"
        using abort_cancelled_tame [OF m abort(2)] manager_okD(1) [OF m] \<open>k \<in> set (keys _)\<close>
        unfolding tame_def ids_ok_def map_of_eq_None_iff set_map by (simp add: disjoint_iff)
      ultimately show ?thesis by simp
    qed
    then have "\<forall>k p. map_of (m_pending m') k = Some p \<longrightarrow> k \<notin> set tasks" "\<forall>k\<in>sy_aborting y \<union> set tasks. m_claims m' k = CANCEL" "set tasks \<subseteq> sy_used y"
      using system_okD(3) [OF tm'] by (auto simp: workers_ok_def simp del: map_of_eq_Some_iff)
    then show ?thesis using system_okD [OF tm'] unfolding abort(1) system_ok_def
      by (simp add: held_ok_def workers_ok_def used_ok_def) blast
  next
    case teardown_begin then show ?thesis using tm [OF begin_teardown_tame [OF m]] by simp
  next
    case teardown_end then show ?thesis using tm [OF end_teardown_tame [OF m]] by simp
  next
    case cleanup then show ?thesis using tm [OF io_cleaned_tame [OF m]] by simp
  qed
qed

lemma system_new_ok: "system_ok (system_new native)"
proof -
  have "manager_ok (sy_mg (system_new native))" by (simp add: system_new_def manager_new_ok)
  then show ?thesis
    by (simp add: system_ok_def)
       (simp add: system_new_def held_ok_def workers_ok_def used_ok_def
         job_is_active_def identifiers_def manager_new_def)
qed

lemma reachable_ok: "transfer_reachable native y \<Longrightarrow> system_ok y"
  by (induction rule: transfer_reachable.induct) (auto intro: system_new_ok transfer_step_ok)

lemma reachable_steps: "transfer_step\<^sup>*\<^sup>* y y' \<Longrightarrow> transfer_reachable native y \<Longrightarrow> transfer_reachable native y'"
  by (induction rule: rtranclp_induct) (auto intro: transfer_reachable.step)

lemma steps_ok: "transfer_step\<^sup>*\<^sup>* y y' \<Longrightarrow> system_ok y \<Longrightarrow> system_ok y'"
  by (induction rule: rtranclp_induct) (auto intro: transfer_step_ok)

end
