(* ===== verification/TransferProps.thy ===== *)
theory TransferProps imports TransferSystem begin

text \<open>
  What the transfer manager promises over every interleaving of its tasks: bounded slots, one
  winner between cancelling and committing, finished jobs that never change, teardowns that
  nothing slips past, and their waits, which end.
\<close>

section \<open>How one step moves the cells of a job\<close>

definition claim_after :: "claim \<Rightarrow> claim \<Rightarrow> bool" where
  "claim_after c c' \<longleftrightarrow> c' = c \<or> c = OPEN \<or> c = FINALIZING \<and> c' = SUCCEEDED"

lemma claim_after_trans: "claim_after a b \<Longrightarrow> claim_after b c \<Longrightarrow> claim_after a c"
  by (auto simp: claim_after_def)

definition advances :: "manager \<Rightarrow> manager \<Rightarrow> string \<Rightarrow> bool" where
  "advances s s' j \<longleftrightarrow> claim_after (m_claims s j) (m_claims s' j) \<and> (m_dones s j \<longrightarrow> m_dones s' j)
     \<and> sc_generation (m_global s) \<le> sc_generation (m_global s')
     \<and> (\<forall>c. connection_generation c s \<le> connection_generation c s')"

lemma advances_refl [simp]: "advances s s j"
  by (simp add: advances_def claim_after_def)

lemma advances_trans: "advances s s' j \<Longrightarrow> advances s' s'' j \<Longrightarrow> advances s s'' j"
  unfolding advances_def by (meson claim_after_trans le_trans)

lemma advancesI:
  assumes "m_connections s' = m_connections s" "m_global s' = m_global s"
    and "claim_after (m_claims s j) (m_claims s' j)" "m_dones s j \<Longrightarrow> m_dones s' j"
  shows "advances s s' j"
  using assms by (simp add: advances_def connection_generation_def)

lemma prune_advances [simp]: "advances s (prune_state now s) j"
  by (rule advancesI) (simp_all add: claim_after_def)

lemma finish_advances: "manager_ok s \<Longrightarrow> advances s (finish_job now stamp k r s) j"
  by (rule advancesI) (auto simp: finish_job_cases finished_def claim_after_def)

lemma begin_teardown_advances:
  assumes "begin_teardown c s = (w, s')"
  shows "advances s s' j"
proof -
  note f = begin_teardown_fields [OF assms]
  have "sc_generation (m_global s) \<le> sc_generation (m_global s')"
    by (cases c) (simp_all add: f update_scope_def close_scope_def)
  moreover have "connection_generation c' s \<le> connection_generation c' s'" for c'
    by (cases c) (auto simp: connection_generation_def f update_scope_def close_scope_def scope_of_def
        scope_default_def update_conv' split: option.split)
  moreover have "claim_after (m_claims s j) (m_claims s' j)"
    by (auto simp: f cancel_jobs_cells claim_after_def split: option.split)
  ultimately show ?thesis by (simp add: advances_def f)
qed

lemma end_teardown_advances: "advances s (end_teardown c s) j"
proof -
  have "sc_generation (m_global (end_teardown c s)) = sc_generation (m_global s)"
    by (cases c) (simp_all add: end_teardown_def update_scope_def reopen_scope_def)
  moreover have "connection_generation c' (end_teardown c s) = connection_generation c' s" for c'
    by (cases c) (auto simp: connection_generation_def end_teardown_def update_scope_def reopen_scope_def
        scope_of_def scope_default_def update_conv' split: option.split)
  ultimately show ?thesis by (simp add: advances_def claim_after_def)
qed

lemma start_advances:
  assumes "start_job now a t snap j spawned s = (r, s')" "k \<noteq> j"
  shows "advances s s' k"
  using assms(1)
  by (cases rule: start_job_cases; intro advancesI)
     (use assms(2) in \<open>auto simp: started_def drop_admission_def claim_after_def\<close>)

lemma insert_review_advances:
  assumes "insert_review now t a rv s = (r, s') \<or> insert_shared_review now t a rv s = (r', s')"
  shows "advances s s' j"
proof -
  from assms insert_review_result insert_shared_review_result
  have "s' = prune_state now s \<or>
    (\<exists>x. s' = (prune_state now s)\<lparr>m_reviews := AList.update t x (m_reviews (prune_state now s))\<rparr>)"
    by blast
  then show ?thesis by (elim disjE exE; intro advancesI) (simp_all add: claim_after_def)
qed

lemma admit_advances:
  assumes "admit now t c s0 = (r, s')" "k \<noteq> t"
  shows "advances s0 s' k"
proof (cases r)
  case (Inl e)
  with assms(1) show ?thesis using admit_Inl [of now t c s0 e s'] by auto
next
  case (Inr a)
  with assms(1) have "admit now t c s0 = (Inr a, s')" by simp
  then show ?thesis
    by (rule admit_Inr) (intro advancesI, use assms(2) in \<open>auto simp: claim_after_def\<close>)
qed

lemma cancel_job_advances:
  assumes "manager_ok s" "cancel_job k s = (r, s')"
  shows "advances s s' j"
  using assms by (cases rule: cancel_job_cases) (auto intro!: advancesI simp: claim_after_def)

lemma find_review_state: "find_review now t s = (r, s') \<Longrightarrow> s' = prune_state now s"
  by (auto simp: find_review_def Let_def split: option.splits if_splits)

lemma job_get_state: "job_get now j s = (r, s') \<Longrightarrow> s' = prune_state now s"
  by (auto simp: job_get_def Let_def split: option.splits)

lemma job_list_state: "job_list now c s = (r, s') \<Longrightarrow> s' = prune_state now s"
  by (auto simp: job_list_def Let_def)

lemma abort_cancelled_rest:
  assumes "abort_cancelled c j s = (tasks, waits, s')"
  shows "m_claims s' = m_claims s" "m_dones s' = m_dones s" "m_connections s' = m_connections s"
    "m_global s' = m_global s" "m_pending s' = m_pending s" "m_reviews s' = m_reviews s"
    "m_cancels s' = m_cancels s"
  by (subst abort_cancelled_cases(2) [OF assms]; simp)+

lemma wind_down_advances:
  assumes ok: "system_ok y" and step: "wind_down t y y'"
  shows "advances (sy_mg y) (sy_mg y') k"
  using step
proof cases
  case (ends r r' m)
  then show ?thesis using complete_result_state [OF ends(3)] by auto
qed (auto intro!: finish_advances [OF system_okD(1) [OF ok]] advancesI simp: drop_admission_def claim_after_def)

lemma step_advances:
  assumes ok: "system_ok y" and step: "transfer_step y y'" and used: "k \<in> sy_used y"
  shows "advances (sy_mg y) (sy_mg y') k"
  using step
proof cases
  case wind then show ?thesis using wind_down_advances [OF ok] by simp
next
  case admission then show ?thesis using used by (auto intro: admit_advances)
next
  case inspect then show ?thesis using insert_review_advances by simp blast
next
  case inspect_shared then show ?thesis using insert_review_advances by simp blast
next
  case review then show ?thesis by (auto dest: find_review_state)
next
  case start then show ?thesis using used by (auto intro: start_advances)
next
  case (finalize j b m)
  from finalize(3) show ?thesis
    by (cases rule: begin_finalizing_cases)
       (use finalize(1) in \<open>auto intro!: advancesI simp: claim_after_def job_context_of_def\<close>)
next
  case (succeed j rows)
  show ?thesis
    by (cases rule: succeeded_cases [of "sy_mg y" "job_context_of j (sy_mg y)" rows])
       (use succeed(1) in \<open>auto intro!: advancesI simp: claim_after_def job_context_of_def\<close>)
next
  case get then show ?thesis by (auto dest: job_get_state)
next
  case list then show ?thesis by (auto dest: job_list_state)
next
  case release then show ?thesis
    by (auto simp: job_release_def claim_after_def split: if_splits intro!: advancesI)
next
  case cancel then show ?thesis using cancel_job_advances [OF system_okD(1) [OF ok]] by simp
next
  case (abort c j tasks waits m)
  then show ?thesis
    by (intro advancesI) (simp_all add: abort_cancelled_rest [OF abort(2)] claim_after_def)
next
  case teardown_begin then show ?thesis using begin_teardown_advances by simp
next
  case teardown_end then show ?thesis using end_teardown_advances by simp
qed (auto intro!: advancesI simp: release_review_def progress_def io_cleaned_def claim_after_def)

lemma used_grows: "transfer_step y y' \<Longrightarrow> sy_used y \<subseteq> sy_used y'"
  by (auto elim!: transfer_step.cases wind_downE)

lemma steps_advance:
  assumes "transfer_step\<^sup>*\<^sup>* y y'" "system_ok y" "k \<in> sy_used y"
  shows "advances (sy_mg y) (sy_mg y') k \<and> k \<in> sy_used y'"
  using assms(1)
proof (induction rule: rtranclp_induct)
  case (step u v)
  then show ?case
    using step_advances [OF steps_ok [OF step(1) assms(2)] step(2), of k] used_grows [OF step(2)]
    by (auto intro: advances_trans)
qed (use assms(3) in simp)

section \<open>A run to test the statements on\<close>

text \<open>
  A connection is admitted, a review of an import is stored, and the job is started, all at
  time 0 of the plain build.
\<close>

definition demo_payload :: inspect_payload where
  "demo_payload =
     \<lparr>ip_connection_id = ''pg'', ip_schema = ''public'', ip_table = ''t'', ip_direction = Import,
      ip_source_path = Some ''/tmp/t.csv'', ip_options = default_csv_options\<rparr>"

definition demo_review :: transfer_review where
  "demo_review =
     \<lparr>rv_payload = demo_payload,
      rv_inspection = \<lparr>in_inspection_token = '''', in_connection_id = ''pg'', in_schema = ''public'',
        in_table = ''t'', in_direction = Import, in_file_name = None, in_total_bytes = None,
        in_source_columns = [], in_target_columns = [], in_sample_rows = [],
        in_sample_truncated = False, in_options = default_csv_options\<rparr>,
      rv_source_fingerprint = None,
      rv_relation = \<lparr>rs_oid = 1, rs_kind = ''r'', rs_row_security = False,
        rs_force_row_security = False, rs_populated = True, rs_columns = []\<rparr>\<rparr>"

definition demo_snapshot :: snapshot where
  "demo_snapshot =
     \<lparr>sn_job_id = '''', sn_connection_id = ''pg'', sn_schema = ''public'', sn_table = ''t'',
      sn_direction = Import, sn_file_name = ''t.csv'', sn_phase = Preparing, sn_started_at = ''now'',
      sn_finished_at = None, sn_total_bytes = None, sn_bytes_processed = 0, sn_rows_processed = None,
      sn_rows_committed = None, sn_failure = None\<rparr>"

definition demo_admission :: admission where
  "demo_admission = \<lparr>ad_id = ''a'', ad_connection_id = ''pg'', ad_connection = 0, ad_global = 0\<rparr>"

definition demo_admitted :: system where
  "demo_admitted = (system_new False)
     \<lparr>sy_mg := snd (admit 0 ''a'' ''pg'' (manager_new False)),
      sy_held := [demo_admission], sy_used := {''a''}\<rparr>"

definition demo_reviewed :: system where
  "demo_reviewed = demo_admitted
     \<lparr>sy_mg := snd (insert_review 0 ''r'' demo_admission demo_review (sy_mg demo_admitted)),
      sy_used := {''r'', ''a''}\<rparr>"

definition demo_running :: system where
  "demo_running = demo_reviewed
     \<lparr>sy_mg := snd (start_job 0 demo_admission ''r'' demo_snapshot ''j'' True (sy_mg demo_reviewed)),
      sy_held := [], sy_workers := [''j'' \<mapsto> Working], sy_used := {''j'', ''r'', ''a''}\<rparr>"

lemmas demo_defs = demo_payload_def demo_review_def demo_snapshot_def demo_admission_def
  system_new_def manager_new_def scope_default_def prune_state_def kept_job_def terminal_jobs_def
  connection_closing_def connection_generation_def check_admission_def review_entry_for_def valid_review_def
  MAX_ACTIVE_def MAX_REVIEWS_def MAX_TERMINAL_def REVIEW_TTL_def RETENTION_def

lemma admit_demo:
  "admit 0 ''a'' ''pg'' (manager_new False) = (Inr demo_admission, (manager_new False)
     \<lparr>m_pending := [(''a'', \<lparr>pe_connection_id = ''pg''\<rparr>)],
      m_cancels := (\<lambda>_. False)(''a'' := False), m_dones := (\<lambda>_. False)(''a'' := False)\<rparr>)"
  by (simp add: admit_def demo_defs Let_def)

lemma update_const [simp]: "(\<lambda>_. c)(x := c) = (\<lambda>_. c)"
  by (simp add: fun_eq_iff)

lemma demo_admitted_mg:
  "sy_mg demo_admitted = (manager_new False)\<lparr>m_pending := [(''a'', \<lparr>pe_connection_id = ''pg''\<rparr>)]\<rparr>"
  by (simp add: demo_admitted_def admit_demo) (simp add: manager_new_def)

definition demo_stored :: review_entry where
  "demo_stored = review_entry_for 0 demo_admission
     (demo_review\<lparr>rv_inspection := (rv_inspection demo_review)\<lparr>in_inspection_token := ''r''\<rparr>\<rparr>)"

lemma demo_reviewed_mg:
  "sy_mg demo_reviewed = (sy_mg demo_admitted)\<lparr>m_reviews := [(''r'', demo_stored)]\<rparr>"
  by (simp add: demo_reviewed_def demo_admitted_mg insert_review_def Let_def demo_stored_def)
     (simp add: demo_defs)

lemma demo_running_mg:
  "sy_mg demo_running = (manager_new False)
     \<lparr>m_jobs := [(''j'', new_job False demo_snapshot ''j'')],
      m_dones := (\<lambda>_. False)(''a'' := True)\<rparr>"
  by (simp add: demo_running_def demo_reviewed_mg demo_admitted_mg start_job_def Let_def
      demo_stored_def new_job_def) (simp add: demo_defs io_default_def Let_def fun_eq_iff)

lemma demo_reviewed_reachable: "transfer_reachable False demo_reviewed"
proof -
  have "transfer_step (system_new False) demo_admitted"
    using transfer_step.admission [of "''a''" "system_new False" "''pg''"]
    by (simp add: demo_admitted_def admit_demo with_held_def) (simp add: system_new_def admit_demo with_held_def)
  then have "transfer_reachable False demo_admitted"
    by (rule transfer_reachable.step [OF transfer_reachable.initial])
  moreover have "transfer_step demo_admitted demo_reviewed"
    unfolding demo_reviewed_def
    using transfer_step.inspect [of demo_admission demo_admitted "''r''" demo_review _
        "snd (insert_review 0 ''r'' demo_admission demo_review (sy_mg demo_admitted))"]
    by (simp add: demo_admitted_def system_new_def prod_eq_iff)
  ultimately show ?thesis by (rule transfer_reachable.step)
qed

lemma demo_reachable: "transfer_reachable False demo_running"
proof -
  have "fst (start_job 0 demo_admission ''r'' demo_snapshot ''j'' True (sy_mg demo_reviewed)) =
      Inr (demo_snapshot\<lparr>sn_job_id := ''j''\<rparr>)"
    by (simp add: demo_reviewed_mg demo_admitted_mg start_job_def Let_def demo_stored_def)
       (simp add: demo_defs Let_def)
  then have "transfer_step demo_reviewed demo_running"
    unfolding demo_running_def
    using transfer_step.start [of demo_admission demo_reviewed "''j''" demo_snapshot "''r''" True
        "Inr (demo_snapshot\<lparr>sn_job_id := ''j''\<rparr>)"
        "snd (start_job 0 demo_admission ''r'' demo_snapshot ''j'' True (sy_mg demo_reviewed))"]
    by (simp add: demo_reviewed_def demo_admitted_def system_new_def prod_eq_iff with_worker_def
        fresh_snapshot_def demo_snapshot_def demo_admission_def)
  with demo_reviewed_reachable show ?thesis by (rule transfer_reachable.step)
qed

section \<open>Bounded slots\<close>

text \<open>
  C13: at most four transfers hold a slot and at most one per connection, whatever the
  interleaving.  A slot is an admission not yet dropped or started, an active job, or a job
  whose files are not cleaned up; and at most eight reviews are stored.
\<close>

theorem transfer_slots_are_bounded:
  assumes "transfer_reachable native y"
  shows "length (filter (\<lambda>(_, e). holds_slot e) (m_jobs (sy_mg y))) + length (m_pending (sy_mg y)) \<le> 4
    \<and> distinct (map (\<lambda>(_, e). je_connection e) (filter (\<lambda>(_, e). holds_slot e) (m_jobs (sy_mg y)))
        @ map (\<lambda>(_, p). pe_connection_id p) (m_pending (sy_mg y)))
    \<and> length (m_reviews (sy_mg y)) \<le> 8"
proof -
  let ?s = "sy_mg y"
  note parts = manager_okD [OF system_okD(1) [OF reachable_ok [OF assms]]]
  let ?xs = "map (\<lambda>x. je_connection (snd x)) (filter (\<lambda>x. holds_slot (snd x)) (m_jobs ?s))
        @ map (\<lambda>x. pe_connection_id (snd x)) (m_pending ?s)"
  have m: "slot_connections ?s = mset ?xs" by (simp add: slot_connections_def job_slots_def)
  have "distinct ?xs"
    unfolding distinct_count_atmost_1
    using parts(4) by (auto simp: slots_ok_def m count_eq_zero_iff le_Suc_eq simp flip: mset_append)
  moreover have "length ?xs \<le> 4"
    using parts(4) unfolding slots_ok_def m size_mset MAX_ACTIVE_def by blast
  moreover have "length (m_reviews ?s) \<le> 8"
    using parts(5) by (simp add: reviews_ok_def MAX_REVIEWS_def)
  ultimately show ?thesis by (simp add: case_prod_beta')
qed

lemma transfer_slots_are_bounded_witness:
  "length (filter (\<lambda>(_, e). holds_slot e) (m_jobs (sy_mg demo_running)))
     + length (m_pending (sy_mg demo_running)) \<le> 4"
  using transfer_slots_are_bounded [OF demo_reachable] by blast

section \<open>Cancelling against committing\<close>

lemma claim_settles:
  assumes "transfer_reachable native y" "transfer_step\<^sup>*\<^sup>* y y'" "j \<in> sy_used y"
  shows "claim_after (m_claims (sy_mg y) j) (m_claims (sy_mg y') j)"
  using steps_advance [OF assms(2) reachable_ok [OF assms(1)] assms(3)] by (simp add: advances_def)

lemma job_phase:
  assumes "system_ok y" "map_of (m_jobs (sy_mg y)) j = Some e"
  shows "job_ok j (m_claims (sy_mg y) j) (m_dones (sy_mg y) j) e"
  using manager_okD(2) [OF system_okD(1) [OF assms(1)]] assms(2) by (simp add: jobs_ok_def)

lemma job_used:
  assumes "system_ok y" "map_of (m_jobs (sy_mg y)) j = Some e"
  shows "j \<in> sy_used y"
  using system_okD(4) [OF assms(1)] map_of_keys [OF assms(2)] unfolding used_ok_def identifiers_def by blast

text \<open>
  C6: once a cancellation has won the claim of a job, nothing the job or anyone else does
  later turns it into a commit.  The worker is refused at its commit point, and the job is
  only ever shown as cancelling, and at its end as cancelled or, when the worker itself
  reports so, as of unknown outcome; it is never shown as completed or failed.
\<close>

theorem cancelled_job_never_commits:
  assumes "transfer_reachable native y" "map_of (m_jobs (sy_mg y)) j = Some e"
    and "cancel_job j (sy_mg y) = (Inr (sn, w), m)" "m_claims m j = CANCEL"
    and "transfer_step\<^sup>*\<^sup>* (y\<lparr>sy_mg := m\<rparr>) y'"
  shows "fst (begin_finalizing (job_context_of j (sy_mg y')) (sy_mg y')) = False
    \<and> (case map_of (m_jobs (sy_mg y')) j of None \<Rightarrow> True
       | Some e' \<Rightarrow> sn_phase (je_snapshot e') \<in> {Cancelling, PhaseCancelled, PhaseOutcomeUnknown})"
proof -
  let ?y = "y\<lparr>sy_mg := m\<rparr>"
  have r: "transfer_reachable native ?y"
    by (rule transfer_reachable.step [OF assms(1) transfer_step.cancel [OF assms(3)]])
  have "j \<in> sy_used ?y" using job_used [OF reachable_ok [OF assms(1)] assms(2)] by simp
  from claim_settles [OF r assms(5) this] assms(4) have c: "m_claims (sy_mg y') j = CANCEL"
    by (simp add: claim_after_def)
  have "fst (begin_finalizing (job_context_of j (sy_mg y')) (sy_mg y')) = False"
    by (simp add: begin_finalizing_def Let_def compare_exchange_def job_context_of_def c)
  moreover have "sn_phase (je_snapshot e') \<in> {Cancelling, PhaseCancelled, PhaseOutcomeUnknown}"
    if "map_of (m_jobs (sy_mg y')) j = Some e'" for e'
    using job_phase [OF steps_ok [OF assms(5) reachable_ok [OF r]] that]
    by (auto simp: job_ok_def c split: if_splits)
  ultimately show ?thesis by (simp split: option.split)
qed

lemma cancel_demo:
  "fst (cancel_job ''j'' (sy_mg demo_running)) =
     Inr (demo_snapshot\<lparr>sn_job_id := ''j'', sn_phase := Cancelling\<rparr>, True)"
  "m_claims (snd (cancel_job ''j'' (sy_mg demo_running))) ''j'' = CANCEL"
  by (simp_all add: demo_running_mg cancel_job_def cancel_entry_cases new_job_def manager_new_def)

lemma cancelled_job_never_commits_witness:
  "fst (begin_finalizing (job_context_of ''j'' (snd (cancel_job ''j'' (sy_mg demo_running))))
     (snd (cancel_job ''j'' (sy_mg demo_running)))) = False"
proof -
  let ?m = "snd (cancel_job ''j'' (sy_mg demo_running))"
  have "map_of (m_jobs (sy_mg demo_running)) ''j'' = Some (new_job False demo_snapshot ''j'')"
    by (simp add: demo_running_mg)
  moreover have "cancel_job ''j'' (sy_mg demo_running) =
      (Inr (demo_snapshot\<lparr>sn_job_id := ''j'', sn_phase := Cancelling\<rparr>, True), ?m)"
    using cancel_demo(1) by (simp add: prod_eq_iff)
  ultimately show ?thesis
    using cancelled_job_never_commits [OF demo_reachable _ _ cancel_demo(2) rtranclp.rtrancl_refl]
    by simp
qed

section \<open>What a job is reported as\<close>

definition transfer_verdict :: "claim \<Rightarrow> direction \<Rightarrow> unit transfer_result \<Rightarrow> transfer_phase" where
  "transfer_verdict c d r =
     (if c = SUCCEEDED then Completed
      else if r = Inl OutcomeUnknown then PhaseOutcomeUnknown
      else if c = FINALIZING \<and> d = Import \<and> (r = Inr () \<or> worker_failure r) then PhaseOutcomeUnknown
      else if c = CANCEL \<or> r = Inl Cancelled then PhaseCancelled
      else Failed)"

lemma complete_result_verdict:
  assumes ok: "manager_ok s" and e: "map_of (m_jobs s) (jc_job_id ctx) = Some e" "je_active e \<noteq> None"
    and r: "complete_result now ctx r s = (r', s')"
  shows "terminal_phase (m_claims s (jc_job_id ctx)) r' =
      transfer_verdict (m_claims s (jc_job_id ctx)) (sn_direction (je_snapshot e)) r"
    and "map_of (m_jobs s') (jc_job_id ctx) = Some e" and "m_claims s' = m_claims s"
    and "manager_ok s'" and "r' = Inr () \<longleftrightarrow> m_claims s (jc_job_id ctx) = SUCCEEDED"
proof -
  let ?c = "m_claims s (jc_job_id ctx)"
  have get: "job_get now (jc_job_id ctx) s = (Inr (je_snapshot e), prune_state now s)"
    using prune_active [OF ok e] by (simp add: job_get_def Let_def)
  have s': "s' = s \<or> s' = prune_state now s" by (rule complete_result_state [OF r])
  then show "map_of (m_jobs s') (jc_job_id ctx) = Some e" "m_claims s' = m_claims s" "manager_ok s'"
    using e(1) prune_active [OF ok e] ok by auto
  have r': "r' = (if ?c = FINALIZING \<and> worker_failure (acknowledged_result ?c r) \<and>
      sn_direction (je_snapshot e) = Import then Inl OutcomeUnknown else acknowledged_result ?c r)"
    using r get by (auto simp: complete_result_def Let_def split: if_splits)
  show "r' = Inr () \<longleftrightarrow> ?c = SUCCEEDED"
    unfolding r' by (auto simp: acknowledged_result_def worker_failure_def split: sum.split)
  show "terminal_phase ?c r' = transfer_verdict ?c (sn_direction (je_snapshot e)) r"
    unfolding r'
    by (cases r) (auto simp: acknowledged_result_def worker_failure_def terminal_phase_def
        transfer_verdict_def split: transfer_error.split)
qed

text \<open>
  what a transfer is reported as when its worker ends.  Completed means exactly that the
  worker acknowledged the commit or the published file, whatever it returned.  An import whose
  worker was lost, or returned, after it had won the commit without an acknowledgement is
  reported as of unknown outcome, never as failed.  Otherwise a cancelled job is reported as
  cancelled and every other as failed, with the worker's error.
\<close>

lemma transfer_reports_verdict:
  assumes "transfer_reachable native y" "sy_workers y j = Some Working"
    and "map_of (m_jobs (sy_mg y)) j = Some e" "je_active e \<noteq> None"
    and "complete_result now (job_context_of j (sy_mg y)) r (sy_mg y) = (r', s)"
    and "map_of (m_jobs (finish_job now' stamp j r' s)) j = Some e'"
  shows "sn_phase (je_snapshot e') =
      transfer_verdict (m_claims (sy_mg y) j) (sn_direction (je_snapshot e)) r
    \<and> (sn_failure (je_snapshot e') = None \<longleftrightarrow> sn_phase (je_snapshot e') = Completed)
    \<and> je_active e' = None \<and> m_dones (finish_job now' stamp j r' s) j"
proof -
  note ok = system_okD(1) [OF reachable_ok [OF assms(1)]]
  have j: "jc_job_id (job_context_of j (sy_mg y)) = j" by (simp add: job_context_of_def)
  note ver = complete_result_verdict [OF ok _ assms(4,5), unfolded j, OF assms(3)]
  have active: "job_is_active j s" using ver(2) assms(4) by (auto simp: job_is_active_iff)
  have fin: "finish_job now' stamp j r' s = prune_state now' (finished now' stamp j r' s)"
    using active by (simp add: finish_job_cases [OF ver(4)])
  from assms(6) have "map_of (m_jobs (finished now' stamp j r' s)) j = Some e'"
    unfolding fin by (rule prune_map_of_job [OF finished_ok [OF ver(4) active]])
  with ver(2) have e': "e' = finished_job now' stamp (m_claims s j) r' e" by (simp add: finished_def)
  have "m_dones (finish_job now' stamp j r' s) j" by (simp add: fin finished_def)
  then show ?thesis
    using ver(5) unfolding ver(1) [symmetric]
    by (auto simp: e' finished_job_def finish_snapshot_def Let_def ver(3) result_err_def split: sum.split)
qed

definition demo_committing :: system where
  "demo_committing = demo_running
     \<lparr>sy_mg := snd (begin_finalizing (job_context_of ''j'' (sy_mg demo_running)) (sy_mg demo_running))\<rparr>"

definition demo_committing_job :: job_entry where
  "demo_committing_job =
     (new_job False demo_snapshot ''j'')\<lparr>je_snapshot := demo_snapshot\<lparr>sn_job_id := ''j'', sn_phase := Finalizing\<rparr>\<rparr>"

lemma demo_committing_mg:
  "sy_mg demo_committing = (sy_mg demo_running)
     \<lparr>m_jobs := [(''j'', demo_committing_job)], m_claims := (\<lambda>_. OPEN)(''j'' := FINALIZING)\<rparr>"
  by (simp add: demo_committing_def begin_finalizing_def Let_def compare_exchange_def job_context_of_def
      demo_running_mg manager_new_def demo_committing_job_def new_job_def)

lemma demo_committing_reachable: "transfer_reachable False demo_committing"
  unfolding demo_committing_def
  by (rule transfer_reachable.step [OF demo_reachable], rule transfer_step.finalize [of _ "''j''"])
     (simp_all add: demo_running_def prod_eq_iff)

section \<open>Finished jobs\<close>

definition frozen :: "string \<Rightarrow> snapshot \<Rightarrow> system \<Rightarrow> bool" where
  "frozen j sn y \<longleftrightarrow> j \<in> sy_used y \<and>
     (\<forall>e. map_of (m_jobs (sy_mg y)) j = Some e \<longrightarrow> je_active e = None \<and> je_snapshot e = sn)"

lemma frozen_filter:
  assumes "frozen j sn y" "system_ok y" "m_jobs (sy_mg y') = filter P (m_jobs (sy_mg y))"
    and "sy_used y \<subseteq> sy_used y'"
  shows "frozen j sn y'"
  using assms system_okD(1) [OF assms(2)]
  by (auto simp: frozen_def map_of_filter_Some)

lemma frozen_adjust:
  assumes "frozen j sn y" "m_jobs (sy_mg y') = adjust g (m_jobs (sy_mg y))" "sy_used y \<subseteq> sy_used y'"
    and "\<And>e. map_of (m_jobs (sy_mg y)) j = Some e \<Longrightarrow> je_active e = None \<Longrightarrow>
      je_active (g j e) = None \<and> je_snapshot (g j e) = je_snapshot e"
  shows "frozen j sn y'"
proof -
  have "je_active e' = None \<and> je_snapshot e' = sn" if e': "map_of (m_jobs (sy_mg y')) j = Some e'" for e'
  proof -
    from e' obtain e where e: "map_of (m_jobs (sy_mg y)) j = Some e" "e' = g j e"
      by (auto simp: assms(2))
    with assms(1) have "je_active e = None" "je_snapshot e = sn" by (simp_all add: frozen_def)
    with assms(4) [OF e(1)] e(2) show ?thesis by simp
  qed
  with assms(1,3) show ?thesis by (auto simp: frozen_def)
qed

lemma frozen_same:
  assumes "frozen j sn y" "m_jobs (sy_mg y') = m_jobs (sy_mg y)" "sy_used y \<subseteq> sy_used y'"
  shows "frozen j sn y'"
  using assms by (auto simp: frozen_def)

lemma frozen_finish:
  assumes "frozen j sn y" "system_ok y" "sy_mg y' = finish_job now stamp k r (sy_mg y)" "sy_used y' = sy_used y"
  shows "frozen j sn y'"
proof (cases "job_is_active k (sy_mg y)")
  case True
  let ?f = "finished now stamp k r (sy_mg y)"
  note ok = system_okD(1) [OF assms(2)]
  have s': "sy_mg y' = prune_state now ?f" using True by (simp add: assms(3) finish_job_cases [OF ok])
  have "frozen j sn (y\<lparr>sy_mg := ?f\<rparr>)"
  proof (rule frozen_adjust [OF assms(1)])
    show "m_jobs (sy_mg (y\<lparr>sy_mg := ?f\<rparr>)) = adjust (\<lambda>k' e. if k' = k
        then finished_job now stamp (m_claims (sy_mg y) k) r e else e) (m_jobs (sy_mg y))"
      by (simp add: finished_def)
  qed (use True in \<open>auto simp: job_is_active_iff\<close>)
  then have "j \<in> sy_used y" and fr: "\<And>e. map_of (m_jobs ?f) j = Some e \<Longrightarrow> je_active e = None \<and> je_snapshot e = sn"
    by (simp_all add: frozen_def)
  moreover have "map_of (m_jobs ?f) j = Some e" if "map_of (m_jobs (sy_mg y')) j = Some e" for e
    using prune_map_of_job [OF finished_ok [OF ok True] that [unfolded s']] .
  ultimately show ?thesis unfolding frozen_def assms(4) by blast
next
  case False
  then have "sy_mg y' = sy_mg y" by (simp add: assms(3) finish_job_cases [OF system_okD(1) [OF assms(2)]])
  with assms(1,4) show ?thesis by (simp add: frozen_def)
qed

lemma frozen_prune:
  assumes "frozen j sn y" "system_ok y" "m_jobs (sy_mg y') = m_jobs (prune_state now (sy_mg y))"
    "sy_used y \<subseteq> sy_used y'"
  shows "frozen j sn y'"
  using frozen_filter [OF assms(1,2) _ assms(4)] assms(3) by (simp add: prune_jobs)

lemma admit_jobs:
  "admit now t c s = (r, s') \<Longrightarrow> m_jobs s' = m_jobs s \<or> m_jobs s' = m_jobs (prune_state now s)"
  by (auto simp: admit_def Let_def split: if_splits)

lemma insert_review_jobs:
  assumes "insert_review now t a rv s = (r, s') \<or> insert_shared_review now t a rv s = (r', s')"
  shows "m_jobs s' = m_jobs (prune_state now s)"
proof -
  from assms insert_review_result insert_shared_review_result
  have "s' = prune_state now s \<or>
    (\<exists>x. s' = (prune_state now s)\<lparr>m_reviews := AList.update t x (m_reviews (prune_state now s))\<rparr>)"
    by blast
  then show ?thesis by auto
qed

lemma frozen_wind_down:
  assumes ok: "system_ok y" and step: "wind_down t y y'" and fr: "frozen j sn y"
  shows "frozen j sn y'"
  using step
proof cases
  case (drop a)
  then show ?thesis by (intro frozen_same [OF fr]) (simp_all add: drop_admission_def)
next
  case (ends r r' m)
  from complete_result_state [OF ends(3)] show ?thesis
    by (elim disjE; use ends in \<open>auto intro: frozen_same [OF fr] frozen_prune [OF fr ok]\<close>)
qed (auto intro: frozen_finish [OF fr ok])

lemma frozen_step:
  assumes ok: "system_ok y" and step: "transfer_step y y'" and fr: "frozen j sn y"
  shows "frozen j sn y'"
proof -
  note m = system_okD(1) [OF ok] and same = frozen_same [OF fr] and pr = frozen_prune [OF fr ok]
  show ?thesis
    using step
  proof cases
    case wind then show ?thesis using frozen_wind_down [OF ok _ fr] by simp
  next
    case monitor then show ?thesis by (intro pr) simp_all
  next
    case reorder
    then show ?thesis using map_of_mset_eq(1) [OF reorder(2) [symmetric] manager_distinct(1) [OF m]] fr
      by (simp add: frozen_def)
  next
    case admission
    from admit_jobs [OF admission(3)] show ?thesis
      by (elim disjE; use admission in \<open>auto intro: same pr\<close>)
  next
    case inspect
    then show ?thesis using insert_review_jobs by (intro pr) (simp, blast, simp, blast)
  next
    case inspect_shared
    then show ?thesis using insert_review_jobs by (intro pr) (simp, blast, simp, blast)
  next
    case review then show ?thesis by (intro pr) (auto dest: find_review_state)
  next
    case (start a k snap t spawned r m')
    from fr start(3) have k: "k \<noteq> j" by (auto simp: frozen_def)
    have "map_of (m_jobs m') j = map_of (m_jobs (sy_mg y)) j"
      using start(5) by (cases rule: start_job_cases) (use k in \<open>simp_all add: drop_admission_def update_conv'\<close>)
    with start fr show ?thesis by (simp add: frozen_def)
  next
    case (finalize k b m')
    from finalize(3) show ?thesis
    proof (cases rule: begin_finalizing_cases)
      case won
      then have "job_is_active k (sy_mg y)"
        using worker_live [OF ok, of k] finalize(2) by (simp add: job_context_of_def)
      with fr have "k \<noteq> j" by (fastforce simp: frozen_def job_is_active_def split: option.splits)
      then show ?thesis
        by (intro frozen_adjust [OF fr, where g = "\<lambda>k' e. if k' = k
              then e\<lparr>je_snapshot := (je_snapshot e)\<lparr>sn_phase := Finalizing\<rparr>\<rparr> else e"])
           (use m won(3) finalize(1) in \<open>auto simp: map_entry_adjust job_context_of_def\<close>)
    qed (use finalize(1) same in simp)
  next
    case (progress k bytes rows)
    show ?thesis unfolding progress(1)
      by (intro frozen_adjust [OF fr, where g = "\<lambda>k' e. if k' = k
            then (if je_active e = None then e
                  else e\<lparr>je_snapshot := record_progress bytes rows (je_snapshot e)\<rparr>) else e"])
         (use m in \<open>auto simp: progress_def map_entry_adjust job_context_of_def\<close>)
  next
    case (succeed k rows)
    let ?ctx = "job_context_of k (sy_mg y)"
    show ?thesis
    proof (cases rule: succeeded_cases [of "sy_mg y" ?ctx rows])
      case done_work
      then have "job_is_active k (sy_mg y)"
        using worker_live [OF ok, of k] succeed(2) by (simp add: job_context_of_def)
      with fr have "k \<noteq> j" by (fastforce simp: frozen_def job_is_active_def split: option.splits)
      then show ?thesis
        by (intro frozen_adjust [OF fr, where g = "\<lambda>k' e. if k' = k then e\<lparr>je_snapshot := (je_snapshot e)
              \<lparr>sn_rows_committed := map_option (\<lambda>v. min v SAFE_INTEGER) rows\<rparr>\<rparr> else e"])
           (use m done_work(2) succeed(1) in \<open>auto simp: map_entry_adjust job_context_of_def\<close>)
    qed (use succeed(1) same in simp)
  next
    case get then show ?thesis by (intro pr) (auto dest: job_get_state)
  next
    case list then show ?thesis by (intro pr) (auto dest: job_list_state)
  next
    case (release k r m')
    show ?thesis
    proof (cases "job_is_active k (sy_mg y)")
      case True
      with release same show ?thesis by (simp add: job_release_def)
    next
      case False
      with release show ?thesis
        by (intro frozen_filter [OF fr ok, where P = "\<lambda>(k', _). k' \<noteq> k"])
           (auto simp: job_release_def delete_filter)
    qed
  next
    case (cancel k r m')
    from m cancel(2) show ?thesis
    proof (cases rule: cancel_job_cases)
      case (won e)
      then show ?thesis unfolding cancel(1)
        by (intro frozen_adjust [OF fr, where g = "\<lambda>k' e. if k' = k
              then e\<lparr>je_snapshot := (je_snapshot e)\<lparr>sn_phase := Cancelling\<rparr>\<rparr> else e"]) auto
    qed (use cancel(1) same in simp_all)
  next
    case (abort c k tasks waits m')
    show ?thesis unfolding abort(1)
      by (rule frozen_adjust [OF fr]) (use abort_cancelled_cases(1) [OF abort(2)] in simp, simp,
          auto simp: abort_selects_def)
  next
    case (teardown_begin c waits m')
    show ?thesis unfolding teardown_begin(1)
      by (rule frozen_adjust [OF fr]) (use begin_teardown_fields(2) [OF teardown_begin(2)] in simp, simp,
          auto simp: cancelled_entry_def)
  next
    case (cleanup k)
    show ?thesis unfolding cleanup(1)
      by (rule frozen_adjust [OF fr, where g = "\<lambda>k' e. if k' = k
            then e\<lparr>je_io := (je_io e)\<lparr>io_complete := True\<rparr>\<rparr> else e"])
         (use m in \<open>auto simp: io_cleaned_def map_entry_adjust\<close>)
  qed (auto intro: same simp: release_review_def)
qed

text \<open>
  a finished transfer stays as it was reported.  Once a job has ended, no progress, no
  late success, no cancellation and no teardown changes its snapshot; it can only be released
  or expire, and its identifier never names another job.
\<close>

lemma finished_jobs_never_change:
  assumes "transfer_reachable native y" "map_of (m_jobs (sy_mg y)) j = Some e" "je_active e = None"
    and "transfer_step\<^sup>*\<^sup>* y y'" "map_of (m_jobs (sy_mg y')) j = Some e'"
  shows "je_snapshot e' = je_snapshot e \<and> je_active e' = None"
proof -
  note ok = reachable_ok [OF assms(1)]
  have "frozen j (je_snapshot e) y'"
    using assms(4)
  proof (induction rule: rtranclp_induct)
    case base
    show ?case using assms(2,3) job_used [OF ok assms(2)] by (simp add: frozen_def)
  next
    case (step u v)
    show ?case by (rule frozen_step [OF steps_ok [OF step(1) ok] step(2,3)])
  qed
  with assms(5) show ?thesis by (simp add: frozen_def)
qed

definition demo_finished :: system where
  "demo_finished = demo_running
     \<lparr>sy_mg := finish_job 0 ''end'' ''j'' worker_panicked (sy_mg demo_running), sy_workers := Map.empty\<rparr>"

definition demo_finished_job :: job_entry where
  "demo_finished_job = finished_job 0 ''end'' OPEN worker_panicked (new_job False demo_snapshot ''j'')"

lemma demo_finished_mg: "map_of (m_jobs (sy_mg demo_finished)) ''j'' = Some demo_finished_job"
  by (simp add: demo_finished_def finish_job_def demo_running_mg demo_finished_job_def)
     (simp add: demo_defs new_job_def List.map_filter_simps io_default_def retains_cleanup_def finished_job_def)

lemma demo_finished_reachable: "transfer_reachable False demo_finished"
proof -
  let ?y = "demo_running\<lparr>sy_workers := [''j'' \<mapsto> Completing worker_panicked]\<rparr>"
  have "complete_result 0 (job_context_of ''j'' (sy_mg demo_running)) worker_panicked (sy_mg demo_running) =
      (worker_panicked, sy_mg demo_running)"
    by (simp add: complete_result_def Let_def acknowledged_result_def worker_panicked_def
        demo_running_mg manager_new_def)
  moreover have now: "sy_now demo_running = 0" "sy_workers demo_running = [''j'' \<mapsto> Working]"
    by (simp_all add: demo_running_def demo_reviewed_def demo_admitted_def system_new_def)
  ultimately have "wind_down ''j'' demo_running ?y"
    using wind_down.ends [of demo_running "''j''" worker_panicked worker_panicked "sy_mg demo_running"] by simp
  moreover have "wind_down ''j'' ?y demo_finished"
    using wind_down.terminal [of ?y "''j''" worker_panicked "''end''"] now
    by (simp add: demo_finished_def)
  ultimately show ?thesis
    using demo_reachable by (blast intro: transfer_reachable.step transfer_step.wind)
qed

section \<open>Teardown\<close>

text \<open>
  C14: a teardown fences its scope off.  While a connection, or the manager, is closing, no
  admission is granted for it, an admission already granted stores no review and starts no
  job, every reservation has been told to stop, and every active job of the scope is
  cancelled or past its commit point.
\<close>

theorem teardown_fences_the_scope:
  assumes "transfer_reachable native y" "scope_closing (ad_connection_id a) (sy_mg y)"
  shows "isl (fst (admit now t (ad_connection_id a) (sy_mg y)))
    \<and> isl (fst (insert_review now t a rv (sy_mg y)))
    \<and> isl (fst (start_job now a token snap j spawned (sy_mg y)))
    \<and> (\<forall>k e. map_of (m_jobs (sy_mg y)) k = Some e \<longrightarrow> je_active e \<noteq> None \<longrightarrow>
         je_connection e = ad_connection_id a \<longrightarrow> m_claims (sy_mg y) k \<in> {CANCEL, FINALIZING, SUCCEEDED})
    \<and> (\<forall>k p. map_of (m_pending (sy_mg y)) k = Some p \<longrightarrow>
         pe_connection_id p = ad_connection_id a \<longrightarrow> m_cancels (sy_mg y) k)"
proof (intro conjI)
  let ?s = "sy_mg y"
  note ok = system_okD(1) [OF reachable_ok [OF assms(1)]]
  have closed: "scope_closing c (prune_state now ?s) = scope_closing c ?s" for c
    by (simp add: scope_closing_def connection_closing_def)
  show "isl (fst (admit now t (ad_connection_id a) ?s))"
    using assms(2) unfolding closed [symmetric]
    by (auto simp: admit_def Let_def scope_closing_def)
  have "check_admission s a = Inl ConnectionClosing" if "scope_closing (ad_connection_id a) s" for s
    using that check_admission_Inr [of s a] check_admission_sum [of s a] by fastforce
  then have refused: "check_admission ?s a = Inl ConnectionClosing"
      "check_admission (prune_state now ?s) a = Inl ConnectionClosing"
    using assms(2) closed by simp_all
  show "isl (fst (insert_review now t a rv ?s))" by (simp add: insert_review_def Let_def refused)
  show "isl (fst (start_job now a token snap j spawned ?s))" by (simp add: start_job_def refused)
  show "\<forall>k e. map_of (m_jobs ?s) k = Some e \<longrightarrow> je_active e \<noteq> None \<longrightarrow>
         je_connection e = ad_connection_id a \<longrightarrow> m_claims ?s k \<in> {CANCEL, FINALIZING, SUCCEEDED}"
  proof (intro allI impI)
    fix k e assume "map_of (m_jobs ?s) k = Some e" "je_active e \<noteq> None" "je_connection e = ad_connection_id a"
    with manager_okD(6) [OF ok] assms(2) have "m_claims ?s k \<noteq> OPEN" unfolding closing_ok_def by metis
    then show "m_claims ?s k \<in> {CANCEL, FINALIZING, SUCCEEDED}" by (cases "m_claims ?s k") simp_all
  qed
  show "\<forall>k p. map_of (m_pending ?s) k = Some p \<longrightarrow>
         pe_connection_id p = ad_connection_id a \<longrightarrow> m_cancels ?s k"
    using manager_okD(6) [OF ok] assms(2) by (simp add: closing_ok_def)
qed

lemma teardown_fences_the_scope_witness:
  "isl (fst (admit 0 ''b'' ''pg'' (snd (begin_teardown (Some ''pg'') (sy_mg demo_running)))))"
proof -
  let ?m = "snd (begin_teardown (Some ''pg'') (sy_mg demo_running))"
  have b: "begin_teardown (Some ''pg'') (sy_mg demo_running) =
      (fst (begin_teardown (Some ''pg'') (sy_mg demo_running)), ?m)" by simp
  have "transfer_reachable False (demo_running\<lparr>sy_mg := ?m\<rparr>)"
    by (rule transfer_reachable.step [OF demo_reachable transfer_step.teardown_begin [OF b]])
  moreover have "scope_closing (ad_connection_id demo_admission) ?m"
    by (simp add: scope_closing_begin [OF b] demo_admission_def)
  ultimately have "isl (fst (admit 0 ''b'' (ad_connection_id demo_admission) (sy_mg (demo_running\<lparr>sy_mg := ?m\<rparr>))))"
    using teardown_fences_the_scope [of False "demo_running\<lparr>sy_mg := ?m\<rparr>" demo_admission 0] by simp
  then show ?thesis by (simp add: demo_admission_def)
qed

definition generations_ok :: "system \<Rightarrow> bool" where
  "generations_ok y \<longleftrightarrow> (\<forall>a\<in>set (sy_held y). ad_id a \<in> sy_used y
     \<and> ad_global a \<le> sc_generation (m_global (sy_mg y))
     \<and> ad_connection a \<le> connection_generation (ad_connection_id a) (sy_mg y))"

lemma in_remove1: "a \<in> set (remove1 b xs) \<Longrightarrow> a \<in> set xs"
  by (meson set_remove1_subset subsetD)

lemma held_step:
  assumes "transfer_step y y'" "a \<in> set (sy_held y')"
  obtains "a \<in> set (sy_held y)"
  | now t c where "admit now t c (sy_mg y) = (Inr a, sy_mg y')" "t \<in> sy_used y'"
  using assms
  by (cases rule: transfer_step.cases)
     (auto elim!: wind_downE simp: with_held_def dest!: in_remove1 split: sum.splits)

lemma generations_step:
  assumes "system_ok y" "transfer_step y y'" "generations_ok y"
  shows "generations_ok y'"
  unfolding generations_ok_def
proof
  fix a assume "a \<in> set (sy_held y')"
  with assms(2) show "ad_id a \<in> sy_used y' \<and> ad_global a \<le> sc_generation (m_global (sy_mg y'))
     \<and> ad_connection a \<le> connection_generation (ad_connection_id a) (sy_mg y')"
  proof (cases rule: held_step)
    case 1
    with assms(3) have a: "ad_id a \<in> sy_used y" "ad_global a \<le> sc_generation (m_global (sy_mg y))"
        "ad_connection a \<le> connection_generation (ad_connection_id a) (sy_mg y)"
      by (simp_all add: generations_ok_def)
    with step_advances [OF assms(1,2) a(1)] used_grows [OF assms(2)] show ?thesis
      unfolding advances_def by (meson le_trans subsetD)
  next
    case (2 now t c)
    from 2(1) show ?thesis
      by (rule admit_Inr) (use 2(2) in \<open>auto simp: connection_generation_def\<close>)
  qed
qed

lemma reachable_generations: "transfer_reachable native y \<Longrightarrow> generations_ok y"
proof (induction rule: transfer_reachable.induct)
  case initial
  show ?case by (simp add: generations_ok_def system_new_def)
next
  case (step y y')
  then show ?case using generations_step [OF reachable_ok] by blast
qed

lemma begin_teardown_generation:
  assumes "begin_teardown c s = (w, s')" "in_scope c c0"
  shows "sc_generation (m_global s) < sc_generation (m_global s')
    \<or> connection_generation c0 s < connection_generation c0 s'"
  using assms(2) begin_teardown_fields(5,6) [OF assms(1)]
  by (cases c) (auto simp: update_scope_def close_scope_def connection_generation_def scope_of_def
      scope_default_def update_conv' split: option.split)

lemma outdated_refused:
  assumes "ad_global a < sc_generation (m_global s) \<or> ad_connection a < connection_generation (ad_connection_id a) s"
  shows "check_admission s a = Inl ConnectionClosing"
  using assms by (auto simp: check_admission_def connection_generation_def split: option.splits)

text \<open>
  an admission does not outlive a teardown of its scope.  Whatever happens after the
  teardown has begun, its end and new admissions included, an admission granted before it
  neither stores a review nor starts a job: both are answered with ConnectionClosing.
\<close>

lemma teardown_outdates_admissions:
  assumes "transfer_reachable native y" "a \<in> set (sy_held y)"
    and "begin_teardown c (sy_mg y) = (waits, m)" "in_scope c (ad_connection_id a)"
    and "transfer_step\<^sup>*\<^sup>* (y\<lparr>sy_mg := m\<rparr>) y'"
  shows "fst (insert_review now t a rv (sy_mg y')) = Inl ConnectionClosing
    \<and> fst (start_job now a token snap j spawned (sy_mg y')) = Inl ConnectionClosing"
proof -
  let ?y = "y\<lparr>sy_mg := m\<rparr>"
  have r: "transfer_reachable native ?y"
    by (rule transfer_reachable.step [OF assms(1) transfer_step.teardown_begin [OF assms(3)]])
  from reachable_generations [OF assms(1)] assms(2) have a: "ad_id a \<in> sy_used ?y"
      "ad_global a \<le> sc_generation (m_global (sy_mg y))"
      "ad_connection a \<le> connection_generation (ad_connection_id a) (sy_mg y)"
    by (simp_all add: generations_ok_def)
  from steps_advance [OF assms(5) reachable_ok [OF r] a(1)]
  have adv: "sc_generation (m_global m) \<le> sc_generation (m_global (sy_mg y'))"
      "connection_generation (ad_connection_id a) m \<le> connection_generation (ad_connection_id a) (sy_mg y')"
    by (simp_all add: advances_def)
  have now: "ad_global a < sc_generation (m_global m) \<or> ad_connection a < connection_generation (ad_connection_id a) m"
    using begin_teardown_generation [OF assms(3,4)]
      begin_teardown_advances [OF assms(3), of "ad_id a"] a(2,3) by (auto simp: advances_def)
  with adv have late: "ad_global a < sc_generation (m_global (sy_mg y'))
      \<or> ad_connection a < connection_generation (ad_connection_id a) (sy_mg y')" by linarith
  then have "check_admission (prune_state now (sy_mg y')) a = Inl ConnectionClosing"
    by (intro outdated_refused) (simp add: connection_generation_def)
  with outdated_refused [OF late] show ?thesis
    by (simp add: insert_review_def start_job_def Let_def)
qed

section \<open>Starting a job\<close>

lemma scope_entry:
  "(case map_of (m_connections s) c of None \<Rightarrow> True | Some sc \<Rightarrow> sc_generation sc = g) \<Longrightarrow>
   map_of (m_connections s) c \<noteq> None \<Longrightarrow> connection_generation c s = g"
  by (auto simp: connection_generation_def split: option.splits)

text \<open>
  a job starts exactly when its admission is current and its review fits: nothing in scope
  is closing, no teardown has begun since the admission, the reservation is there and not
  cancelled, and the review was made for the same connection under the same generations less
  than five minutes ago (and, in a profile, the worker can be spawned).  The reservation is
  gone in every case; a review that started a job is gone too, so it starts no second one.
\<close>

lemma start_job_iff:
  "case start_job now a token snap job spawned s of
     (r, s') \<Rightarrow>
       (r = Inr (snap\<lparr>sn_job_id := job\<rparr>) \<longleftrightarrow>
          \<not> scope_closing (ad_connection_id a) s
          \<and> ad_global a = sc_generation (m_global s)
          \<and> (case map_of (m_connections s) (ad_connection_id a) of None \<Rightarrow> True
             | Some sc \<Rightarrow> sc_generation sc = ad_connection a)
          \<and> map_of (m_pending s) (ad_id a) \<noteq> None \<and> \<not> m_cancels s (ad_id a)
          \<and> (\<exists>e. map_of (m_reviews s) token = Some e \<and> now - re_created e < 300000
               \<and> re_connection e = ad_connection a \<and> re_global e = ad_global a
               \<and> re_connection_id e = ad_connection_id a)
          \<and> \<not> (m_native s \<and> \<not> spawned))
     \<and> map_of (m_pending s') (ad_id a) = None
     \<and> (case r of Inr _ \<Rightarrow> map_of (m_reviews s') token = None \<and> job_is_active job s'
        | Inl e \<Rightarrow> e \<in> {ConnectionClosing, InspectionExpired, JobLimitReached} \<and> m_jobs s' = m_jobs s)"
proof -
  obtain r s' where rs: "start_job now a token snap job spawned s = (r, s')" by (cases "start_job now a token snap job spawned s")
  have valid: "valid_review now a token s \<longleftrightarrow> (\<exists>e. map_of (m_reviews s) token = Some e \<and> now - re_created e < 300000
               \<and> re_connection e = ad_connection a \<and> re_global e = ad_global a
               \<and> re_connection_id e = ad_connection_id a)"
    by (simp add: valid_review_def REVIEW_TTL_def split: option.split)
  have iff: "r = Inr (snap\<lparr>sn_job_id := job\<rparr>) \<longleftrightarrow>
      check_admission s a = Inr () \<and> valid_review now a token s \<and> \<not> (m_native s \<and> \<not> spawned)"
  proof (cases "check_admission s a = Inr () \<and> valid_review now a token s")
    case False
    then show ?thesis
      using rs check_admission_sum [of s a] by (auto simp: start_job_def)
  next
    case True
    then show ?thesis using rs by (auto simp: start_job_def Let_def split: if_splits)
  qed
  have "map_of (m_pending s') (ad_id a) = None
     \<and> (case r of Inr _ \<Rightarrow> map_of (m_reviews s') token = None \<and> job_is_active job s'
        | Inl e \<Rightarrow> e \<in> {ConnectionClosing, InspectionExpired, JobLimitReached} \<and> m_jobs s' = m_jobs s)"
    using rs
    by (cases rule: start_job_cases)
       (auto simp: drop_admission_def delete_conv' job_is_active_def update_conv' new_job_def)
  with iff show ?thesis
    unfolding rs valid check_admission_Inr prod.case by blast
qed

end
