(* ===== verification/TransferLive.thy ===== *)
theory TransferLive imports TransferProps begin

text \<open>
  The waits of a teardown end.  A reservation or job somebody waits for has an owner that can
  wind it down, winding down brings it closer to its end, and no other step takes it further
  away; so it ends in every run that is weakly fair to the owners.  Then retention: what
  \<open>prune\<close> may remove.
\<close>

section \<open>What is waited for\<close>

definition awaited :: "string \<Rightarrow> system \<Rightarrow> bool" where
  "awaited t y \<longleftrightarrow> t \<in> sy_used y \<and>
     (m_dones (sy_mg y) t \<or> job_is_active t (sy_mg y) \<or> map_of (m_pending (sy_mg y)) t \<noteq> None)"

definition wait_rank :: "string \<Rightarrow> system \<Rightarrow> nat" where
  "wait_rank t y =
     (if m_dones (sy_mg y) t then 0 else if sy_workers y t = Some Working then 2 else 1)"

lemma awaited_enabled:
  assumes ok: "system_ok y" and t: "awaited t y" "\<not> m_dones (sy_mg y) t"
  shows "\<exists>y'. wind_down t y y'"
proof (cases "job_is_active t (sy_mg y)")
  case True
  with system_okD(3) [OF ok] consider "t \<in> sy_aborting y" | w where "sy_workers y t = Some w"
    by (auto simp: workers_ok_def)
  then show ?thesis
  proof cases
    case 1
    then show ?thesis by (blast intro: wind_down.joined)
  next
    case (2 w)
    then show ?thesis
    proof (cases w)
      case Working
      with 2 show ?thesis
        using wind_down.ends [of y t "Inr ()"] by (metis surj_pair)
    next
      case (Completing r)
      with 2 show ?thesis by (blast intro: wind_down.terminal)
    qed
  qed
next
  case False
  with t have "t \<in> set (keys (m_pending (sy_mg y)))"
    by (auto simp: awaited_def dest: map_of_keys)
  with system_okD(2) [OF ok] obtain a where "a \<in> set (sy_held y)" "t = ad_id a"
    unfolding held_ok_def by blast
  then show ?thesis by (blast intro: wind_down.drop)
qed

lemma finish_dones:
  "manager_ok s \<Longrightarrow> job_is_active j s \<Longrightarrow> m_dones (finish_job now stamp j r s) j"
  by (simp add: finish_job_cases finished_def)

lemma wind_down_progress:
  assumes ok: "system_ok y" and t: "awaited t y" "\<not> m_dones (sy_mg y) t" and step: "wind_down t y y'"
  shows "wait_rank t y' < wait_rank t y"
  using step
proof cases
  case (drop a)
  then show ?thesis using t(2) by (simp add: wait_rank_def drop_admission_def)
next
  case (ends r r' m)
  then show ?thesis using t(2) by (simp add: wait_rank_def)
next
  case (terminal r stamp)
  have "job_is_active t (sy_mg y)"
    using t terminal(2) system_okD(3) [OF ok] by (auto simp: awaited_def workers_ok_def)
  from finish_dones [OF system_okD(1) [OF ok] this] terminal(1) t(2) show ?thesis
    by (simp add: wait_rank_def)
next
  case (joined stamp)
  have "job_is_active t (sy_mg y)"
    using t joined(2) system_okD(3) [OF ok] by (auto simp: awaited_def workers_ok_def)
  from finish_dones [OF system_okD(1) [OF ok] this] joined(1) t(2) show ?thesis
    by (simp add: wait_rank_def)
qed

lemma worker_step:
  assumes "transfer_step y y'" "t \<in> sy_used y" "sy_workers y' t = Some Working"
  shows "sy_workers y t = Some Working"
  using assms
  by (cases rule: transfer_step.cases)
     (auto elim!: wind_downE simp: with_worker_def split: sum.splits if_splits)

lemma wait_rank_step:
  assumes ok: "system_ok y" and step: "transfer_step y y'" and t: "t \<in> sy_used y"
  shows "wait_rank t y' \<le> wait_rank t y"
  using step_advances [OF ok step t] worker_step [OF step t]
  by (auto simp: wait_rank_def advances_def)

lemma tame_pending:
  "tame s s' \<Longrightarrow> m_pending s' = m_pending s \<and> (\<forall>j. job_is_active j s' \<longleftrightarrow> job_is_active j s)"
  by (simp add: tame_def)

text \<open>What a step takes off the waiting list is done.\<close>

lemma wind_down_settles:
  assumes ok: "system_ok y" and step: "wind_down t y y'"
    and k: "job_is_active k (sy_mg y) \<or> map_of (m_pending (sy_mg y)) k \<noteq> None"
  shows "m_dones (sy_mg y') k \<or> job_is_active k (sy_mg y') \<or> map_of (m_pending (sy_mg y')) k \<noteq> None"
  using step
proof cases
  case (drop a)
  then show ?thesis using k
    by (auto simp: drop_admission_def job_is_active_def delete_conv')
next
  case (ends r r' m)
  from tame_pending [OF complete_result_tame [OF system_okD(1) [OF ok] ends(3)]] ends(1) k
  show ?thesis by auto
next
  case (terminal r stamp)
  note m = system_okD(1) [OF ok]
  show ?thesis
    using k finish_dones [OF m, of t "sy_now y" stamp r]
    by (auto simp: terminal(1) finish_active [OF m] finish_rest [OF m])
next
  case (joined stamp)
  note m = system_okD(1) [OF ok]
  show ?thesis
    using k finish_dones [OF m, of t "sy_now y" stamp]
    by (auto simp: joined(1) finish_active [OF m] finish_rest [OF m])
qed

lemma insert_review_same:
  assumes ok: "manager_ok s"
    and r: "insert_review now t a rv s = (r, s') \<or> insert_shared_review now t a rv s = (r', s')"
  shows "m_pending s' = m_pending s \<and> (\<forall>j. job_is_active j s' \<longleftrightarrow> job_is_active j s)"
proof -
  from r insert_review_result insert_shared_review_result
  have "s' = prune_state now s \<or>
    (\<exists>x. s' = (prune_state now s)\<lparr>m_reviews := AList.update t x (m_reviews (prune_state now s))\<rparr>)"
    by blast
  then have "m_pending s' = m_pending s" "m_jobs s' = m_jobs (prune_state now s)" by auto
  with tame_pending [OF prune_tame [OF ok, of now]] show ?thesis by (simp add: job_is_active_def)
qed

lemma step_settles:
  assumes ok: "system_ok y" and step: "transfer_step y y'"
    and k: "job_is_active k (sy_mg y) \<or> map_of (m_pending (sy_mg y)) k \<noteq> None"
  shows "m_dones (sy_mg y') k \<or> job_is_active k (sy_mg y') \<or> map_of (m_pending (sy_mg y')) k \<noteq> None"
proof -
  note m = system_okD(1) [OF ok]
  have tame: ?thesis if "tame (sy_mg y) (sy_mg y')"
    using tame_pending [OF that] k by simp
  show ?thesis
    using step
  proof cases
    case wind then show ?thesis using wind_down_settles [OF ok _ k] by simp
  next
    case tick then show ?thesis using k by simp
  next
    case monitor then show ?thesis using prune_tame [OF m] by (intro tame) simp
  next
    case reorder then show ?thesis using reorder_tame [OF m] by (intro tame) simp
  next
    case (admission t c r m')
    show ?thesis
    proof (cases r)
      case (Inl e)
      with admission(3) admit_Inl have "m' = sy_mg y \<or> m' = prune_state (sy_now y) (sy_mg y)" by blast
      with prune_tame [OF m] tame_refl [OF m] have "tame (sy_mg y) m'" by auto
      with admission(1) show ?thesis by (intro tame) simp
    next
      case (Inr a)
      with admission(3) have "admit (sy_now y) t c (sy_mg y) = (Inr a, m')" by simp
      then show ?thesis
        by (rule admit_Inr)
           (use k admission(1) tame_pending [OF prune_tame [OF m, of "sy_now y"]] in
            \<open>auto simp: update_conv' job_is_active_def\<close>)
    qed
  next
    case (inspect a t rv r m')
    then show ?thesis using insert_review_same [OF m disjI1 [OF inspect(4)]] k by simp
  next
    case (inspect_shared a t rv r m')
    then show ?thesis using insert_review_same [OF m disjI2 [OF inspect_shared(4)]] k by simp
  next
    case review then show ?thesis using find_review_tame [OF m] by (intro tame) simp
  next
    case release_review then show ?thesis using release_review_tame [OF m] by (intro tame) simp
  next
    case (start a j snap t spawned r m')
    from start(3) k job_used [OF ok] fresh_idle(3) [OF ok start(3)]
      fresh_keys(2) [OF fresh_identifier [OF ok start(3)]] have kj: "k \<noteq> j" by auto
    have "m_dones m' k \<or> job_is_active k m' \<or> map_of (m_pending m') k \<noteq> None"
      using start(5)
      by (cases rule: start_job_cases)
         (use k kj in \<open>auto simp: started_def drop_admission_def job_is_active_def delete_conv' update_conv'\<close>)
    with start(1) show ?thesis by simp
  next
    case (finalize j b m')
    then have "m_claims (sy_mg y) j = OPEN \<Longrightarrow> job_is_active j (sy_mg y)" using worker_live [OF ok] by simp
    then have "tame (sy_mg y) m'"
      by (intro begin_finalizing_tame [OF m finalize(3)]) (simp add: job_context_of_def)
    with finalize(1) show ?thesis by (intro tame) simp
  next
    case progress then show ?thesis using progress_tame [OF m] by (intro tame) simp
  next
    case (succeed j rows)
    then have "m_claims (sy_mg y) j = FINALIZING \<Longrightarrow> job_is_active j (sy_mg y)"
      using worker_live [OF ok] by simp
    then have "tame (sy_mg y) (succeeded (job_context_of j (sy_mg y)) rows (sy_mg y))"
      by (intro succeeded_tame [OF m]) (simp add: job_context_of_def)
    with succeed(1) show ?thesis by (intro tame) simp
  next
    case get then show ?thesis using job_get_tame [OF m] by (intro tame) simp
  next
    case list then show ?thesis using job_list_tame [OF m] by (intro tame) simp
  next
    case release then show ?thesis using job_release_tame [OF m] by (intro tame) simp
  next
    case cancel then show ?thesis using cancel_job_tame [OF m] by (intro tame) simp
  next
    case abort then show ?thesis using abort_cancelled_tame [OF m] by (intro tame) simp
  next
    case teardown_begin then show ?thesis using begin_teardown_tame [OF m] by (intro tame) simp
  next
    case teardown_end then show ?thesis using end_teardown_tame [OF m] by (intro tame) simp
  next
    case cleanup then show ?thesis using io_cleaned_tame [OF m] by (intro tame) simp
  qed
qed

lemma awaited_step:
  assumes ok: "system_ok y" and step: "transfer_step y y'" and t: "awaited t y"
  shows "awaited t y'"
proof -
  from t have used: "t \<in> sy_used y" by (simp add: awaited_def)
  then have "t \<in> sy_used y'" using used_grows [OF step] by blast
  moreover have "m_dones (sy_mg y) t \<Longrightarrow> m_dones (sy_mg y') t"
    using step_advances [OF ok step used] by (simp add: advances_def)
  ultimately show ?thesis using t step_settles [OF ok step, of t] by (auto simp: awaited_def)
qed

section \<open>Runs\<close>

definition transfer_run :: "(nat \<Rightarrow> system) \<Rightarrow> bool" where
  "transfer_run \<sigma> \<longleftrightarrow> (\<forall>n. transfer_step (\<sigma> n) (\<sigma> (Suc n)))"

text \<open>Weak fairness: an owner that could wind down for ever after does so some time.\<close>

definition fair_owners :: "(nat \<Rightarrow> system) \<Rightarrow> bool" where
  "fair_owners \<sigma> \<longleftrightarrow> (\<forall>t n. (\<forall>k\<ge>n. \<exists>y. wind_down t (\<sigma> k) y) \<longrightarrow>
     (\<exists>k\<ge>n. wind_down t (\<sigma> k) (\<sigma> (Suc k))))"

lemma run_from:
  assumes run: "transfer_run \<sigma>" and ok: "system_ok (\<sigma> 0)" and t: "awaited t (\<sigma> n)"
  shows "system_ok (\<sigma> k)" and "n \<le> k \<Longrightarrow> awaited t (\<sigma> k) \<and> wait_rank t (\<sigma> k) \<le> wait_rank t (\<sigma> n)"
proof -
  show oks: "system_ok (\<sigma> k)" for k
    by (induction k) (use ok run in \<open>auto simp: transfer_run_def intro: transfer_step_ok\<close>)
  show "n \<le> k \<Longrightarrow> awaited t (\<sigma> k) \<and> wait_rank t (\<sigma> k) \<le> wait_rank t (\<sigma> n)"
  proof (induction k rule: dec_induct)
    case base
    show ?case using t by simp
  next
    case (step k)
    from run have s: "transfer_step (\<sigma> k) (\<sigma> (Suc k))" by (simp add: transfer_run_def)
    from step(3) have a: "awaited t (\<sigma> k)" by simp
    then have "t \<in> sy_used (\<sigma> k)" by (simp add: awaited_def)
    from wait_rank_step [OF oks s this] awaited_step [OF oks s a] step(3) show ?case by simp
  qed
qed

lemma awaited_ends:
  assumes run: "transfer_run \<sigma>" and fair: "fair_owners \<sigma>" and ok: "system_ok (\<sigma> 0)"
  shows "awaited t (\<sigma> n) \<Longrightarrow> \<exists>k\<ge>n. m_dones (sy_mg (\<sigma> k)) t"
proof (induction "wait_rank t (\<sigma> n)" arbitrary: n rule: less_induct)
  case less
  note from_n = run_from [OF run ok less(2)]
  show ?case
  proof (rule ccontr)
    assume "\<not> ?case"
    then have never: "\<not> m_dones (sy_mg (\<sigma> k)) t" if "n \<le> k" for k using that by blast
    have "\<forall>k\<ge>n. \<exists>y. wind_down t (\<sigma> k) y"
      using awaited_enabled [OF from_n(1)] from_n(2) never by blast
    with fair obtain k where k: "n \<le> k" "wind_down t (\<sigma> k) (\<sigma> (Suc k))"
      unfolding fair_owners_def by blast
    from k(1) from_n(2) have a: "awaited t (\<sigma> k)" "wait_rank t (\<sigma> k) \<le> wait_rank t (\<sigma> n)" by blast+
    from wind_down_progress [OF from_n(1) a(1) never [OF k(1)] k(2)] a(2)
    have "wait_rank t (\<sigma> (Suc k)) < wait_rank t (\<sigma> n)" by simp
    moreover have "awaited t (\<sigma> (Suc k))" using from_n(2) [of "Suc k"] k(1) by simp
    ultimately obtain k' where "Suc k \<le> k'" "m_dones (sy_mg (\<sigma> k')) t" using less(1) by blast
    with k(1) never [of k'] show False by simp
  qed
qed

lemma waits_awaited:
  assumes ok: "system_ok y" and r: "begin_teardown c (sy_mg y) = (waits, m)" and t: "t \<in> set waits"
  shows "awaited t (y\<lparr>sy_mg := m\<rparr>)"
proof -
  from t have "(\<exists>e. (t, e) \<in> set (m_jobs (sy_mg y)) \<and> je_active e \<noteq> None)
      \<or> (\<exists>p. (t, p) \<in> set (m_pending (sy_mg y)))"
    by (auto simp: begin_teardown_fields(1) [OF r] teardown_waits_def dropped_pending_def)
  with system_okD(1) [OF ok] have "job_is_active t (sy_mg y) \<or> map_of (m_pending (sy_mg y)) t \<noteq> None"
    by (auto simp: job_is_active_iff)
  moreover from this have "t \<in> identifiers (sy_mg y)"
    by (auto simp: job_is_active_iff identifiers_def dest: map_of_keys simp del: set_map)
  then have "t \<in> sy_used y" using system_okD(4) [OF ok] by (auto simp: used_ok_def)
  ultimately show ?thesis
    using tame_pending [OF begin_teardown_tame [OF system_okD(1) [OF ok] r]] by (simp add: awaited_def)
qed

text \<open>
  C7: a teardown does not wait for ever.  Every reservation and job it waits for is over after
  finitely many steps, in every run in which the owner of one, when it could end it for ever
  after, does so some time: clients that are told to stop drop their admissions, workers
  return, and aborted tasks are joined.  The other clients and connections may go on working
  meanwhile, and what is over stays over.
\<close>

theorem teardown_waits_end:
  assumes "transfer_reachable native y" "begin_teardown c (sy_mg y) = (waits, m)"
    and "\<sigma> 0 = y\<lparr>sy_mg := m\<rparr>" "transfer_run \<sigma>" "fair_owners \<sigma>"
  shows "\<exists>n. \<forall>k\<ge>n. \<forall>t\<in>set waits. m_dones (sy_mg (\<sigma> k)) t"
proof -
  note ok = reachable_ok [OF assms(1)]
  have "transfer_reachable native (\<sigma> 0)"
    unfolding assms(3) by (rule transfer_reachable.step [OF assms(1) transfer_step.teardown_begin [OF assms(2)]])
  from reachable_ok [OF this] have ok0: "system_ok (\<sigma> 0)" .
  have "\<exists>n. \<forall>k\<ge>n. m_dones (sy_mg (\<sigma> k)) t" if t: "t \<in> set waits" for t
  proof -
    from waits_awaited [OF ok assms(2) t] have a: "awaited t (\<sigma> 0)" by (simp add: assms(3))
    from awaited_ends [OF assms(4,5) ok0 a] obtain n where n: "m_dones (sy_mg (\<sigma> n)) t" by blast
    then have "wait_rank t (\<sigma> n) = 0" by (simp add: wait_rank_def)
    moreover have "awaited t (\<sigma> n)" using run_from(2) [OF assms(4) ok0 a] by simp
    ultimately have "\<forall>k\<ge>n. wait_rank t (\<sigma> k) = 0"
      using run_from(2) [OF assms(4) ok0 \<open>awaited t (\<sigma> n)\<close>] by simp
    then show ?thesis by (auto simp: wait_rank_def split: if_splits)
  qed
  then obtain f where f: "\<And>t k. t \<in> set waits \<Longrightarrow> f t \<le> k \<Longrightarrow> m_dones (sy_mg (\<sigma> k)) t" by metis
  have "m_dones (sy_mg (\<sigma> k)) t" if "Max (insert 0 (f ` set waits)) \<le> k" "t \<in> set waits" for k t
    using that f [OF that(2), of k] by simp
  then show ?thesis by blast
qed

definition demo_torn :: manager where
  "demo_torn = snd (begin_teardown (Some ''pg'') (sy_mg demo_running))"

definition demo_run :: "nat \<Rightarrow> system" where
  "demo_run n =
     (if n = 0 then demo_running\<lparr>sy_mg := demo_torn\<rparr>
      else if n = 1 then demo_running\<lparr>sy_mg := demo_torn, sy_workers := [''j'' \<mapsto> Completing (Inl Cancelled)]\<rparr>
      else demo_running\<lparr>sy_mg := finish_job 0 ''end'' ''j'' (Inl Cancelled) demo_torn, sy_workers := Map.empty\<rparr>)"

lemma demo_running_rest:
  "sy_now demo_running = 0" "sy_workers demo_running = [''j'' \<mapsto> Working]"
  "sy_held demo_running = []" "sy_aborting demo_running = {}"
  by (simp_all add: demo_running_def demo_reviewed_def demo_admitted_def system_new_def)

lemma demo_torn_claim: "m_claims demo_torn ''j'' = CANCEL"
proof -
  have "begin_teardown (Some ''pg'') (sy_mg demo_running) =
      (fst (begin_teardown (Some ''pg'') (sy_mg demo_running)), demo_torn)" by (simp add: demo_torn_def)
  from begin_teardown_fields(7) [OF this] show ?thesis
    by (simp add: cancel_jobs_cells demo_running_mg new_job_def manager_new_def demo_snapshot_def)
qed

lemma demo_run_steps: "transfer_run demo_run"
  unfolding transfer_run_def
proof
  fix n :: nat
  let ?y = "demo_running\<lparr>sy_mg := demo_torn\<rparr>"
  have "complete_result 0 ctx (Inl Cancelled) demo_torn = (Inl Cancelled, demo_torn)"
    if "jc_job_id ctx = ''j''" for ctx
    by (simp add: complete_result_def Let_def that demo_torn_claim acknowledged_result_def)
  then have s0: "wind_down ''j'' (demo_run 0) (demo_run 1)"
    using wind_down.ends [of ?y "''j''" "Inl Cancelled" "Inl Cancelled" demo_torn]
    by (simp add: demo_run_def demo_running_rest job_context_of_def)
  have s1: "wind_down ''j'' (demo_run 1) (demo_run 2)"
    using wind_down.terminal [of "demo_run 1" "''j''" "Inl Cancelled" "''end''"]
    by (simp add: demo_run_def demo_running_rest)
  have stay: "transfer_step y y" for y using transfer_step.tick [of y 0] by simp
  consider "n = 0" | "n = 1" | "2 \<le> n" by linarith
  then show "transfer_step (demo_run n) (demo_run (Suc n))"
  proof cases
    case 1
    with s0 show ?thesis unfolding One_nat_def by (blast intro: transfer_step.wind)
  next
    case 2
    with s1 show ?thesis unfolding numeral_2_eq_2 One_nat_def by (blast intro: transfer_step.wind)
  next
    case 3
    with stay show ?thesis by (simp add: demo_run_def)
  qed
qed

lemma demo_run_fair: "fair_owners demo_run"
proof -
  have "\<not> wind_down t (demo_run k) y" if "2 \<le> k" for t k y
    using that by (auto elim!: wind_downE simp: demo_run_def demo_running_rest)
  then have "\<not> (\<forall>k\<ge>n. \<exists>y. wind_down t (demo_run k) y)" for t n
    by (metis le_add1 le_add2)
  then show ?thesis unfolding fair_owners_def by blast
qed

lemma teardown_waits_end_witness: "\<exists>n. m_dones (sy_mg (demo_run n)) ''j''"
proof -
  let ?b = "begin_teardown (Some ''pg'') (sy_mg demo_running)"
  have b: "?b = (fst ?b, demo_torn)" by (simp add: demo_torn_def)
  have "''j'' \<in> set (fst ?b)"
    unfolding begin_teardown_fields(1) [OF b]
    by (simp add: teardown_waits_def demo_running_mg new_job_def demo_snapshot_def)
  moreover have "demo_run 0 = demo_running\<lparr>sy_mg := demo_torn\<rparr>" by (simp add: demo_run_def)
  ultimately show ?thesis
    using teardown_waits_end [OF demo_reachable b _ demo_run_steps demo_run_fair] by blast
qed

section \<open>Retention\<close>

lemma sorted_take_bound:
  assumes "sorted (map f xs)" "x \<in> set (take n xs)" "y \<in> set (drop n xs)"
  shows "f x \<le> f y"
proof -
  have "sorted (map f (take n xs) @ map f (drop n xs))"
    using assms(1) by (simp flip: map_append)
  with assms(2,3) show ?thesis by (auto simp: sorted_append)
qed

lemma terminal_jobs_keys:
  assumes "distinct (keys js)"
  shows "distinct (keys (terminal_jobs js))"
proof -
  have "keys (List.map_filter (\<lambda>(k, e). map_option (Pair k) (je_finished e)) xs) =
      keys (filter (\<lambda>(k, e). je_finished e \<noteq> None) xs)" for xs :: "(string \<times> job_entry) list"
    by (induction xs) (auto simp: List.map_filter_def)
  then have "keys (List.map_filter (\<lambda>(k, e). map_option (Pair k) (je_finished e))
      (filter (\<lambda>(_, e). \<not> retains_cleanup (je_io e)) js))
    = keys (filter (\<lambda>(k, e). je_finished e \<noteq> None) (filter (\<lambda>(_, e). \<not> retains_cleanup (je_io e)) js))" .
  with assms have "distinct (keys (List.map_filter (\<lambda>(k, e). map_option (Pair k) (je_finished e))
      (filter (\<lambda>(_, e). \<not> retains_cleanup (je_io e)) js)))"
    by (simp add: distinct_map_filter)
  moreover have "mset (keys (sort_key f xs)) = mset (keys xs)" for f :: "string \<times> nat \<Rightarrow> nat" and xs
    by (metis mset_map mset_sort)
  ultimately show ?thesis unfolding terminal_jobs_def by (metis mset_eq_imp_distinct_iff)
qed

lemma filter_take_drop:
  assumes "distinct (map f xs)"
  shows "filter (\<lambda>x. f x \<notin> f ` set (take n xs)) xs = drop n xs"
proof -
  have "filter (\<lambda>x. f x \<notin> f ` set (take n xs)) (take n xs @ drop n xs) = drop n xs"
  proof -
    have "f ` set (take n xs) \<inter> f ` set (drop n xs) = {}"
      using assms by (metis append_take_drop_id distinct_append map_append set_map)
    then have "filter (\<lambda>x. f x \<notin> f ` set (take n xs)) (drop n xs) = drop n xs"
      by (intro filter_True) blast
    moreover have "filter (\<lambda>x. f x \<notin> f ` set (take n xs)) (take n xs) = []"
      by (simp add: filter_empty_conv)
    ultimately show ?thesis by (simp only: filter_append append_Nil)
  qed
  then show ?thesis by (simp only: append_take_drop_id)
qed

lemma terminal_jobs_drop:
  assumes "distinct (keys (terminal_jobs js))"
  shows "terminal_jobs (filter (\<lambda>x. fst x \<notin> set (keys (take n (terminal_jobs js)))) js) =
    drop n (terminal_jobs js)"
proof -
  have mf: "List.map_filter (\<lambda>(k, e). map_option (Pair k) (je_finished e)) (filter (\<lambda>x. fst x \<notin> A) xs) =
      filter (\<lambda>x. fst x \<notin> A) (List.map_filter (\<lambda>(k, e). map_option (Pair k) (je_finished e)) xs)"
    for A and xs :: "(string \<times> job_entry) list"
    by (induction xs) (auto simp: List.map_filter_def)
  have comm: "filter (\<lambda>(_, e). \<not> retains_cleanup (je_io e)) (filter (\<lambda>x. fst x \<notin> A) js) =
      filter (\<lambda>x. fst x \<notin> A) (filter (\<lambda>(_, e). \<not> retains_cleanup (je_io e)) js)" for A
    by (simp add: conj_commute)
  have "terminal_jobs (filter (\<lambda>x. fst x \<notin> A) js) = filter (\<lambda>x. fst x \<notin> A) (terminal_jobs js)" for A
    unfolding terminal_jobs_def comm mf by (simp add: filter_sort)
  then show ?thesis using filter_take_drop [OF assms, of n] by simp
qed

text \<open>
  what pruning may remove.  At most 32 finished jobs stay, jobs that are active or not
  cleaned up always stay, and nothing that stays is changed.  A finished job that is removed
  was kept for an hour, or 32 jobs that finished no earlier are kept.
\<close>

lemma prune_removes_the_oldest:
  assumes "distinct (keys (m_jobs s))"
  shows "length (terminal_jobs (m_jobs (prune_state now s))) \<le> 32
    \<and> set (m_jobs (prune_state now s)) \<subseteq> set (m_jobs s)
    \<and> (\<forall>k e. (k, e) \<in> set (m_jobs s) \<longrightarrow> (k, e) \<notin> set (m_jobs (prune_state now s)) \<longrightarrow>
        (\<exists>t. je_finished e = Some t \<and> \<not> retains_cleanup (je_io e) \<and>
          (3600 * 1000 \<le> now - t
           \<or> length (filter (\<lambda>x. t \<le> snd x) (terminal_jobs (m_jobs (prune_state now s)))) = 32)))"
proof -
  let ?js = "filter (\<lambda>(_, e). kept_job now e) (m_jobs s)"
  let ?T = "terminal_jobs ?js"
  let ?n = "length ?T - MAX_TERMINAL"
  have dT: "distinct (keys ?T)"
    using assms by (intro terminal_jobs_keys) (simp add: distinct_map_filter)
  have jobs: "m_jobs (prune_state now s) = filter (\<lambda>x. fst x \<notin> set (keys (take ?n ?T))) ?js"
    by (simp add: prune_state_def Let_def fold_delete_filter case_prod_beta')
  have after: "terminal_jobs (m_jobs (prune_state now s)) = drop ?n ?T"
    unfolding jobs by (rule terminal_jobs_drop [OF dT])
  have "(\<exists>t. je_finished e = Some t \<and> \<not> retains_cleanup (je_io e) \<and>
          (3600 * 1000 \<le> now - t \<or> length (filter (\<lambda>x. t \<le> snd x) (drop ?n ?T)) = 32))"
    if e: "(k, e) \<in> set (m_jobs s)" "(k, e) \<notin> set (m_jobs (prune_state now s))" for k e
  proof -
    from prune_keeps [OF assms e(1)] e(2) obtain t
      where t: "je_finished e = Some t" "\<not> retains_cleanup (je_io e)" by (metis not_None_eq)
    show ?thesis
    proof (cases "kept_job now e")
      case False
      with t show ?thesis by (auto simp: kept_job_def RETENTION_def)
    next
      case True
      with e jobs have k: "k \<in> set (keys (take ?n ?T))" by auto
      then obtain u where u: "(k, u) \<in> set (take ?n ?T)" by auto
      then have "(k, u) \<in> set ?T" by (rule in_set_takeD)
      then obtain e' where "(k, e') \<in> set (m_jobs s)" "je_finished e' = Some u"
        by (auto simp: set_terminal_jobs)
      with eq_key_imp_eq_value [OF assms e(1)] t(1) have "u = t" by auto
      have "\<forall>x\<in>set (drop ?n ?T). t \<le> snd x"
        using sorted_take_bound [of snd ?T "(k, u)" ?n] u \<open>u = t\<close> by (auto simp: terminal_jobs_def)
      moreover from k have "0 < ?n" by (cases "?n = 0") auto
      ultimately have "length (filter (\<lambda>x. t \<le> snd x) (drop ?n ?T)) = 32"
        by (simp add: MAX_TERMINAL_def)
      with t show ?thesis by blast
    qed
  qed
  moreover have "length (drop ?n ?T) \<le> 32" by (simp add: MAX_TERMINAL_def)
  moreover have "set (m_jobs (prune_state now s)) \<subseteq> set (m_jobs s)" unfolding jobs by auto
  ultimately show ?thesis unfolding after by blast
qed

end
