(* ===== verification/CompareManager.thy ===== *)
theory CompareManager imports Prelude begin

text \<open>
  The manager of schema comparisons, \<open>backend/src/postgres/schema_compare/manager/mod.rs\<close> and
  the response ownership of \<open>manager/reads.rs\<close> and \<open>values.rs\<close>, with the types of
  \<open>protocol.rs\<close> it keeps and the allocation budget of \<open>budget.rs\<close>.  Every operation is a
  function of the state behind the mutex; the clocks and the identifiers \<open>Uuid::new_v4\<close>
  returns are arguments.  The watch channel that tells a teardown that a supervisor has ended
  outlives the entry of its job, so it is a store beside the entries; the one that carries the
  cancellation is read through the entry only while the job is active and is a field of it.
  An instant is a number of milliseconds.
\<close>

section \<open>Types of the protocol\<close>

datatype compare_side = SourceSide | TargetSide

datatype compare_limit =
    LimitInventory | LimitTables | LimitChildFacts | LimitFieldBytes | LimitEndpointBytes
  | LimitResultBytes | LimitPageBytes | LimitPageItems | LimitAllocation

datatype compare_error =
    CompareBusy
  | CompareLimitExceeded compare_limit
  | CompareUnsupportedVersion compare_side string
  | CompareUnsupportedEngine compare_side
  | CompareUnavailable
  | CompareInvalidRequest
  | CompareCaptureChanged
  | CompareCancelled
  | CompareDeadlineExceeded

type_synonym 'a compare_result = "compare_error + 'a"

datatype status_state =
    StateResolving | StateReadingSource | StateReadingTarget | StateReadingBoth | StateComparing
  | StateCompleted string
  | StateCancelling
  | StateCancelled
  | StateFailed compare_error

record endpoint =
  ep_connection_id :: string
  ep_schema :: string

record result_identity =
  ri_job_id :: string
  ri_result_id :: string

record compare_status =
  st_job_id :: string
  st_request_id :: string
  st_source :: endpoint
  st_target :: endpoint
  st_source_objects :: nat
  st_target_objects :: nat
  st_state :: status_state

record start_request =
  sq_request_id :: string
  sq_source :: endpoint
  sq_target :: endpoint

record result_request =
  rq_identity :: result_identity
  rq_source :: endpoint
  rq_target :: endpoint

text \<open>Of a \<open>Comparison\<close>, what the manager reads: its identity, its endpoints and its age.\<close>

record comparison =
  cp_identity :: result_identity
  cp_source :: endpoint
  cp_target :: endpoint
  cp_created :: nat

section \<open>Identifiers\<close>

definition MAX_ID_BYTES :: nat where "MAX_ID_BYTES = 128"

definition valid_id :: "string \<Rightarrow> bool" where
  "valid_id i \<longleftrightarrow> i \<noteq> [] \<and> length i \<le> MAX_ID_BYTES"

definition validate_id :: "string \<Rightarrow> unit compare_result" where
  "validate_id i = (if valid_id i then Inr () else Inl CompareInvalidRequest)"

definition valid_endpoint :: "endpoint \<Rightarrow> bool" where
  "valid_endpoint e \<longleftrightarrow> valid_id (ep_connection_id e) \<and> ep_schema e \<noteq> [] \<and> length (ep_schema e) \<le> 63
     \<and> NUL \<notin> set (ep_schema e)"

definition validate_request :: "start_request \<Rightarrow> unit compare_result" where
  "validate_request r =
     (if \<not> valid_id (sq_request_id r) \<or> list_ex (\<lambda>e. \<not> valid_endpoint e) [sq_source r, sq_target r]
      then Inl CompareInvalidRequest else Inr ())"

text \<open>\<open>str::split_once(':')\<close> and \<open>str::parse::<i64>\<close>.\<close>

fun split_once :: "char \<Rightarrow> string \<Rightarrow> (string \<times> string) option" where
  "split_once c [] = None"
| "split_once c (x # xs) =
     (if x = c then Some ([], xs) else map_option (apfst (Cons x)) (split_once c xs))"

definition i64_max :: int where "i64_max = 9223372036854775807"
definition i64_min :: int where "i64_min = - 9223372036854775808"

fun i64_digits :: "int \<Rightarrow> string \<Rightarrow> int option" where
  "i64_digits v [] = Some v"
| "i64_digits v (c # cs) =
     (if is_ascii_digit c then i64_digits (10 * v + int (byte c) - 48) cs else None)"

definition parse_i64 :: "string \<Rightarrow> int option" where
  "parse_i64 s =
     (let (sign, ds) = (case s of [] \<Rightarrow> (1, [])
            | c # cs \<Rightarrow> if c = CHR ''-'' then (-1, cs) else if c = CHR ''+'' then (1, cs) else (1, s))
      in if ds = [] then None
         else case i64_digits 0 ds of None \<Rightarrow> None
           | Some v \<Rightarrow> if i64_min \<le> sign * v \<and> sign * v \<le> i64_max then Some (sign * v) else None)"

definition saturating_sub_i64 :: "int \<Rightarrow> int \<Rightarrow> int" where
  "saturating_sub_i64 a b = max i64_min (min i64_max (a - b))"

text \<open>\<open>wall\<close> is \<open>chrono::Utc::now().timestamp_millis()\<close>.\<close>

definition fresh_request :: "int \<Rightarrow> start_request \<Rightarrow> bool" where
  "fresh_request wall r =
     (case split_once (CHR '':'') (sq_request_id r) of None \<Rightarrow> False
      | Some (ms, nonce) \<Rightarrow>
          (case parse_i64 ms of None \<Rightarrow> False
           | Some v \<Rightarrow> nonce \<noteq> [] \<and>
               (let age = saturating_sub_i64 wall v in -5000 \<le> age \<and> age < 60000)))"

section \<open>The allocation budget\<close>

text \<open>
  \<open>budget.rs\<close>: the counters shared by every clone of a budget, and the scope counters of the
  results, at the identifier of the scope.  \<open>peak\<close> is only read by measurements.
\<close>

definition GLOBAL_BYTES :: nat where "GLOBAL_BYTES = 256 * 1024 * 1024"
definition CONTROL_BYTES :: nat where "CONTROL_BYTES = 64 * 1024"
definition RESULT_BYTES :: nat where "RESULT_BYTES = 32 * 1024 * 1024"
definition SERIALIZER_SCRATCH :: nat where "SERIALIZER_SCRATCH = 8 * 1024 * 1024"

record budget =
  bu_used :: nat
  bu_peak :: nat
  bu_serializers :: nat
  bu_limit :: nat
  bu_scopes :: "string \<Rightarrow> nat"

definition budget_new :: "nat \<Rightarrow> budget" where
  "budget_new limit = \<lparr>bu_used = 0, bu_peak = 0, bu_serializers = 0, bu_limit = limit, bu_scopes = (\<lambda>_. 0)\<rparr>"

definition budget_default :: budget where
  "budget_default = budget_new (GLOBAL_BYTES - CONTROL_BYTES)"

record reservation =
  rv_scope :: "string option"
  rv_bytes :: nat

text \<open>The two atomic updates of \<open>reserve\<close>, and \<open>reserve\<close> as their composition.\<close>

definition charge_global :: "nat \<Rightarrow> budget \<Rightarrow> budget compare_result" where
  "charge_global bytes b =
     (if bu_used b + bytes \<le> bu_limit b
      then Inr (b\<lparr>bu_used := bu_used b + bytes, bu_peak := max (bu_peak b) (bu_used b + bytes)\<rparr>)
      else Inl (CompareLimitExceeded LimitAllocation))"

definition charge_scope :: "string \<Rightarrow> nat \<Rightarrow> budget \<Rightarrow> budget compare_result" where
  "charge_scope sc bytes b =
     (if bu_scopes b sc + bytes \<le> RESULT_BYTES
      then Inr (b\<lparr>bu_scopes := (bu_scopes b)(sc := bu_scopes b sc + bytes)\<rparr>)
      else Inl (CompareLimitExceeded LimitResultBytes))"

definition reserve :: "string option \<Rightarrow> nat \<Rightarrow> budget \<Rightarrow> reservation compare_result \<times> budget" where
  "reserve sc bytes b =
     (case charge_global bytes b of Inl e \<Rightarrow> (Inl e, b)
      | Inr b1 \<Rightarrow>
          (case sc of None \<Rightarrow> (Inr \<lparr>rv_scope = None, rv_bytes = bytes\<rparr>, b1)
           | Some i \<Rightarrow>
               (case charge_scope i bytes b1 of
                  Inl e \<Rightarrow> (Inl e, b1\<lparr>bu_used := bu_used b1 - bytes\<rparr>)
                | Inr b2 \<Rightarrow> (Inr \<lparr>rv_scope = Some i, rv_bytes = bytes\<rparr>, b2))))"

definition scratch :: "nat \<Rightarrow> budget \<Rightarrow> reservation compare_result \<times> budget" where
  "scratch bytes b = reserve None bytes b"

definition drop_reservation :: "reservation \<Rightarrow> budget \<Rightarrow> budget" where
  "drop_reservation r b =
     (let b1 = b\<lparr>bu_used := bu_used b - rv_bytes r\<rparr> in
      case rv_scope r of None \<Rightarrow> b1
      | Some i \<Rightarrow> b1\<lparr>bu_scopes := (bu_scopes b1)(i := bu_scopes b1 i - rv_bytes r)\<rparr>)"

definition serializer :: "budget \<Rightarrow> reservation compare_result \<times> budget" where
  "serializer b =
     (if 2 \<le> bu_serializers b then (Inl CompareBusy, b)
      else let b1 = b\<lparr>bu_serializers := bu_serializers b + 1\<rparr> in
        case scratch SERIALIZER_SCRATCH b1 of
          (Inr r, b2) \<Rightarrow> (Inr r, b2)
        | (Inl e, b2) \<Rightarrow> (Inl e, b2\<lparr>bu_serializers := bu_serializers b2 - 1\<rparr>))"

text \<open>A lease ends with its own counter first and its reservation after it.\<close>

definition drop_lease :: "reservation \<Rightarrow> budget \<Rightarrow> budget" where
  "drop_lease r b = drop_reservation r (b\<lparr>bu_serializers := bu_serializers b - 1\<rparr>)"

section \<open>The state of the manager\<close>

definition JOB_DEADLINE :: nat where "JOB_DEADLINE = 60 * 1000"
definition CLEANUP_GRACE :: nat where "CLEANUP_GRACE = 5 * 1000"
definition MAX_ACTIVE_COMPARISONS :: nat where "MAX_ACTIVE_COMPARISONS = 2"
definition MAX_TERMINAL_COMPARISONS :: nat where "MAX_TERMINAL_COMPARISONS = 2"
definition MAX_REQUESTS :: nat where "MAX_REQUESTS = 64"
definition MAX_FENCE_SCOPES :: nat where "MAX_FENCE_SCOPES = 4"
definition MAX_CONNECTION_ID_BYTES :: nat where "MAX_CONNECTION_ID_BYTES = 128"
definition MAX_TRANSPORTS :: nat where "MAX_TRANSPORTS = 4"
definition RESULT_TTL :: nat where "RESULT_TTL = 600 * 1000"
definition WORKER_SCRATCH :: nat where "WORKER_SCRATCH = 32 * 1024 * 1024"

record fence_scope =
  fs_closing :: nat
  fs_generation :: nat

definition fence_scope_default :: fence_scope where
  "fence_scope_default = \<lparr>fs_closing = 0, fs_generation = 0\<rparr>"

record compare_entry =
  ce_status :: compare_status
  ce_generations :: "nat \<times> nat \<times> nat"
  ce_cancel :: bool
  ce_active :: bool
  ce_invalidated :: bool
  ce_stop_reason :: "compare_error option"
  ce_finished :: "nat option"
  ce_result :: "comparison option"

record request_record =
  rr_request :: start_request
  rr_job_id :: string
  rr_created :: nat

record in_flight =
  if_session :: string
  if_response_id :: string
  if_lease :: reservation

record document_transport =
  dt_window :: string
  dt_token :: string

record compare_manager =
  cm_jobs :: "compare_entry list"
  cm_requests :: "request_record list"
  cm_connections :: "(string \<times> fence_scope) list"
  cm_global :: fence_scope
  cm_responses :: "in_flight option list"
  cm_transports :: "document_transport list"
  cm_dones :: "string \<Rightarrow> bool"
  cm_budget :: budget

definition compare_new :: compare_manager where
  "compare_new =
     \<lparr>cm_jobs = [], cm_requests = [], cm_connections = [], cm_global = fence_scope_default,
      cm_responses = [None, None], cm_transports = [], cm_dones = (\<lambda>_. False),
      cm_budget = budget_default\<rparr>"

abbreviation ce_job :: "compare_entry \<Rightarrow> string" where
  "ce_job e \<equiv> st_job_id (ce_status e)"

abbreviation ce_source :: "compare_entry \<Rightarrow> string" where
  "ce_source e \<equiv> ep_connection_id (st_source (ce_status e))"

abbreviation ce_target :: "compare_entry \<Rightarrow> string" where
  "ce_target e \<equiv> ep_connection_id (st_target (ce_status e))"

definition involves :: "compare_entry \<Rightarrow> string \<Rightarrow> bool" where
  "involves e i \<longleftrightarrow> ce_source e = i \<or> ce_target e = i"

definition connection_scope :: "compare_manager \<Rightarrow> string \<Rightarrow> fence_scope option" where
  "connection_scope s i = map_of (cm_connections s) i"

definition compare_generation :: "compare_manager \<Rightarrow> string \<Rightarrow> nat" where
  "compare_generation s i = (case connection_scope s i of None \<Rightarrow> 0 | Some c \<Rightarrow> fs_generation c)"

definition current_generations :: "compare_manager \<Rightarrow> string \<Rightarrow> string \<Rightarrow> nat \<times> nat \<times> nat" where
  "current_generations s a b =
     (fs_generation (cm_global s), compare_generation s a, compare_generation s b)"

definition find_job :: "string \<Rightarrow> compare_manager \<Rightarrow> compare_entry option" where
  "find_job j s = find (\<lambda>e. ce_job e = j) (cm_jobs s)"

definition stop_entry :: "compare_error \<Rightarrow> compare_entry \<Rightarrow> compare_entry" where
  "stop_entry reason e =
     e\<lparr>ce_stop_reason := (case ce_stop_reason e of None \<Rightarrow> Some reason | Some r \<Rightarrow> Some r),
       ce_cancel := True,
       ce_status := (ce_status e)\<lparr>st_state := StateCancelling\<rparr>\<rparr>"

section \<open>Retention\<close>

definition kept_comparison :: "nat \<Rightarrow> compare_entry \<Rightarrow> bool" where
  "kept_comparison now e \<longleftrightarrow> ce_active e \<or>
     (\<not> ce_invalidated e \<and>
      (case ce_finished e of None \<Rightarrow> False | Some t \<Rightarrow> now - t < RESULT_TTL))"

definition inactive_count :: "compare_entry list \<Rightarrow> nat" where
  "inactive_count js = length (filter (\<lambda>e. \<not> ce_active e) js)"

text \<open>An \<open>Option<Instant>\<close> orders \<open>None\<close> first; \<open>min_by_key\<close> takes the first minimal entry.\<close>

definition finished_key :: "compare_entry \<Rightarrow> nat" where
  "finished_key e = (case ce_finished e of None \<Rightarrow> 0 | Some t \<Rightarrow> Suc t)"

definition evict_oldest :: "compare_entry list \<Rightarrow> compare_entry list" where
  "evict_oldest js =
     (let k = min_list (map finished_key (filter (\<lambda>e. \<not> ce_active e) js))
      in remove_first (\<lambda>e. \<not> ce_active e \<and> finished_key e = k) js)"

lemma evict_oldest_finds:
  assumes "filter (\<lambda>e. \<not> ce_active e) js \<noteq> []"
  shows "\<exists>e\<in>set js. \<not> ce_active e
     \<and> finished_key e = min_list (map finished_key (filter (\<lambda>e. \<not> ce_active e) js))"
proof -
  have "min_list (map finished_key (filter (\<lambda>e. \<not> ce_active e) js))
        \<in> set (map finished_key (filter (\<lambda>e. \<not> ce_active e) js))"
    using assms by (simp add: min_list_Min del: set_map)
  then show ?thesis by auto
qed

lemma evict_oldest_shorter:
  "0 < inactive_count js \<Longrightarrow> length (evict_oldest js) < length js"
  using length_remove_first [OF evict_oldest_finds [of js]]
  by (simp add: evict_oldest_def inactive_count_def Let_def)

function evict_terminal :: "compare_entry list \<Rightarrow> compare_entry list" where
  "evict_terminal js =
     (if MAX_TERMINAL_COMPARISONS < inactive_count js then evict_terminal (evict_oldest js) else js)"
  by pat_completeness auto
termination
  by (relation "measure length") (auto intro: evict_oldest_shorter)

declare evict_terminal.simps [simp del]

definition prune_comparisons :: "nat \<Rightarrow> compare_manager \<Rightarrow> compare_manager" where
  "prune_comparisons now s =
     s\<lparr>cm_jobs := evict_terminal (filter (kept_comparison now) (cm_jobs s)),
       cm_requests := filter (\<lambda>r. now - rr_created r < RESULT_TTL) (cm_requests s)\<rparr>"

section \<open>Starting a comparison\<close>

record compare_context =
  cc_identity :: result_identity
  cc_request :: start_request
  cc_deadline :: nat
  cc_scratch :: reservation

definition request_ids :: "start_request \<Rightarrow> string list" where
  "request_ids r = [ep_connection_id (sq_source r), ep_connection_id (sq_target r)]"

definition scope_is_closing :: "compare_manager \<Rightarrow> string \<Rightarrow> bool" where
  "scope_is_closing s i =
     (case connection_scope s i of None \<Rightarrow> False | Some c \<Rightarrow> 0 < fs_closing c)"

definition admission_blocked :: "compare_manager \<Rightarrow> string list \<Rightarrow> bool" where
  "admission_blocked s ids \<longleftrightarrow>
     0 < fs_closing (cm_global s) \<or> list_ex (scope_is_closing s) ids"

definition active_comparisons :: "compare_manager \<Rightarrow> nat" where
  "active_comparisons s = length (filter ce_active (cm_jobs s))"

definition capacity_taken :: "compare_manager \<Rightarrow> string list \<Rightarrow> bool" where
  "capacity_taken s ids \<longleftrightarrow>
     MAX_REQUESTS \<le> length (cm_requests s) \<or> MAX_ACTIVE_COMPARISONS \<le> active_comparisons s
     \<or> list_ex (\<lambda>e. ce_active e \<and> list_ex (involves e) ids) (cm_jobs s)"

definition new_status :: "string \<Rightarrow> start_request \<Rightarrow> compare_status" where
  "new_status j r =
     \<lparr>st_job_id = j, st_request_id = sq_request_id r, st_source = sq_source r,
      st_target = sq_target r, st_source_objects = 0, st_target_objects = 0,
      st_state = StateResolving\<rparr>"

definition new_entry :: "compare_manager \<Rightarrow> string \<Rightarrow> start_request \<Rightarrow> compare_entry" where
  "new_entry s j r =
     \<lparr>ce_status = new_status j r,
      ce_generations = current_generations s (ep_connection_id (sq_source r))
                         (ep_connection_id (sq_target r)),
      ce_cancel = False, ce_active = True, ce_invalidated = False, ce_stop_reason = None,
      ce_finished = None, ce_result = None\<rparr>"

text \<open>
  \<open>start_with_timing\<close>: the result for the caller, the context of the worker when a job is
  created, and the state.  \<open>compact_request\<close> reallocates the strings and keeps their contents.
\<close>

definition start_comparison ::
  "nat \<Rightarrow> int \<Rightarrow> string \<Rightarrow> string \<Rightarrow> nat \<Rightarrow> start_request \<Rightarrow> compare_manager \<Rightarrow>
   compare_status compare_result \<times> compare_context option \<times> compare_manager" where
  "start_comparison now wall job result timeout r s0 =
     (case validate_request r of Inl e \<Rightarrow> (Inl e, None, s0)
      | Inr _ \<Rightarrow>
        let s = prune_comparisons now s0; ids = request_ids r in
        case find (\<lambda>x. sq_request_id (rr_request x) = sq_request_id r) (cm_requests s) of
          Some rec \<Rightarrow>
            if rr_request rec \<noteq> r then (Inl CompareInvalidRequest, None, s)
            else (case find (\<lambda>e. ce_job e = rr_job_id rec \<and> \<not> ce_invalidated e) (cm_jobs s) of
                    None \<Rightarrow> (Inl CompareUnavailable, None, s)
                  | Some e \<Rightarrow> (Inr (ce_status e), None, s))
        | None \<Rightarrow>
            if \<not> fresh_request wall r then (Inl CompareUnavailable, None, s)
            else if admission_blocked s ids then (Inl CompareUnavailable, None, s)
            else if capacity_taken s ids then (Inl CompareBusy, None, s)
            else (case scratch WORKER_SCRATCH (cm_budget s) of
                    (Inl e, b) \<Rightarrow> (Inl e, None, s\<lparr>cm_budget := b\<rparr>)
                  | (Inr lease, b) \<Rightarrow>
                      (Inr (new_status job r),
                       Some \<lparr>cc_identity = \<lparr>ri_job_id = job, ri_result_id = result\<rparr>,
                             cc_request = r, cc_deadline = now + timeout, cc_scratch = lease\<rparr>,
                       s\<lparr>cm_budget := b,
                         cm_requests := cm_requests s @ [\<lparr>rr_request = r, rr_job_id = job, rr_created = now\<rparr>],
                         cm_jobs := cm_jobs s @ [new_entry s job r],
                         cm_dones := (cm_dones s)(job := False)\<rparr>)))"

section \<open>What a worker and its supervisor do\<close>

definition comparison_progress ::
  "string \<Rightarrow> status_state \<Rightarrow> nat \<Rightarrow> nat \<Rightarrow> compare_manager \<Rightarrow> compare_manager" where
  "comparison_progress j phase source target s =
     s\<lparr>cm_jobs := update_first (\<lambda>e. ce_job e = j)
         (\<lambda>e. if ce_active e \<and> \<not> ce_cancel e \<and> \<not> ce_invalidated e
              then e\<lparr>ce_status := (ce_status e)\<lparr>st_state := phase, st_source_objects := source,
                       st_target_objects := target\<rparr>\<rparr>
              else e) (cm_jobs s)\<rparr>"

definition control_check :: "nat \<Rightarrow> bool \<Rightarrow> nat \<Rightarrow> unit compare_result" where
  "control_check now cancelled deadline =
     (if cancelled then Inl CompareCancelled
      else if deadline \<le> now then Inl CompareDeadlineExceeded else Inr ())"

definition stale_entry :: "compare_manager \<Rightarrow> compare_entry \<Rightarrow> bool" where
  "stale_entry s e \<longleftrightarrow> ce_invalidated e
     \<or> ce_generations e \<noteq> current_generations s (ce_source e) (ce_target e)"

definition check_current :: "nat \<Rightarrow> bool \<Rightarrow> compare_context \<Rightarrow> compare_manager \<Rightarrow> unit compare_result" where
  "check_current now cancelled ctx s =
     (case control_check now cancelled (cc_deadline ctx) of Inl e \<Rightarrow> Inl e
      | Inr _ \<Rightarrow>
        (case find_job (ri_job_id (cc_identity ctx)) s of None \<Rightarrow> Inl CompareUnavailable
         | Some e \<Rightarrow>
             if ce_invalidated e
                \<or> ce_generations e \<noteq> current_generations s
                     (ep_connection_id (sq_source (cc_request ctx)))
                     (ep_connection_id (sq_target (cc_request ctx)))
             then Inl CompareCancelled else Inr ()))"

definition final_result :: "compare_manager \<Rightarrow> compare_entry \<Rightarrow> comparison compare_result \<Rightarrow>
   comparison compare_result" where
  "final_result s e result =
     (if stale_entry s e then Inl CompareCancelled
      else case ce_stop_reason e of Some reason \<Rightarrow> Inl reason | None \<Rightarrow> result)"

definition finish_entry :: "nat \<Rightarrow> comparison compare_result \<Rightarrow> compare_entry \<Rightarrow> compare_entry" where
  "finish_entry now result e =
     (let e1 = (case result of
            Inr c \<Rightarrow> e\<lparr>ce_result := Some c,
                       ce_status := (ce_status e)\<lparr>st_state := StateCompleted (ri_result_id (cp_identity c))\<rparr>\<rparr>
          | Inl CompareCancelled \<Rightarrow> e\<lparr>ce_status := (ce_status e)\<lparr>st_state := StateCancelled\<rparr>\<rparr>
          | Inl failure \<Rightarrow> e\<lparr>ce_status := (ce_status e)\<lparr>st_state := StateFailed failure\<rparr>\<rparr>)
      in e1\<lparr>ce_active := False, ce_finished := Some now\<rparr>)"

definition finish_comparison ::
  "nat \<Rightarrow> string \<Rightarrow> comparison compare_result \<Rightarrow> compare_manager \<Rightarrow> compare_manager" where
  "finish_comparison now j result s =
     (case find_job j s of None \<Rightarrow> s
      | Some e \<Rightarrow>
          prune_comparisons now
            (s\<lparr>cm_jobs := update_first (\<lambda>e. ce_job e = j)
                 (\<lambda>e. finish_entry now (final_result s e result) e) (cm_jobs s)\<rparr>))"

definition stop_comparison :: "string \<Rightarrow> compare_error \<Rightarrow> compare_manager \<Rightarrow> compare_manager" where
  "stop_comparison j reason s =
     s\<lparr>cm_jobs := update_first (\<lambda>e. ce_job e = j \<and> ce_active e) (stop_entry reason) (cm_jobs s)\<rparr>"

definition signal_done :: "string \<Rightarrow> compare_manager \<Rightarrow> compare_manager" where
  "signal_done j s = s\<lparr>cm_dones := (cm_dones s)(j := True)\<rparr>"

section \<open>What a caller does\<close>

definition get_comparison :: "nat \<Rightarrow> string \<Rightarrow> compare_manager \<Rightarrow>
   compare_status compare_result \<times> compare_manager" where
  "get_comparison now j s0 =
     (let s = prune_comparisons now s0 in
      (case find (\<lambda>e. ce_job e = j \<and> \<not> ce_invalidated e) (cm_jobs s) of
         None \<Rightarrow> Inl CompareUnavailable | Some e \<Rightarrow> Inr (ce_status e), s))"

definition list_comparisons :: "nat \<Rightarrow> compare_manager \<Rightarrow> compare_status list \<times> compare_manager" where
  "list_comparisons now s0 =
     (let s = prune_comparisons now s0 in
      (map ce_status (filter (\<lambda>e. \<not> ce_invalidated e) (cm_jobs s)), s))"

definition cancel_comparison :: "nat \<Rightarrow> string \<Rightarrow> compare_manager \<Rightarrow>
   compare_status compare_result \<times> compare_manager" where
  "cancel_comparison now j s = get_comparison now j (stop_comparison j CompareCancelled s)"

definition release_comparison :: "string \<Rightarrow> compare_manager \<Rightarrow>
   unit compare_result \<times> compare_manager" where
  "release_comparison j s =
     (if list_ex (\<lambda>e. ce_job e = j \<and> ce_active e) (cm_jobs s) then (Inl CompareBusy, s)
      else (Inr (), s\<lparr>cm_jobs := filter (\<lambda>e. ce_job e \<noteq> j) (cm_jobs s)\<rparr>))"

text \<open>\<open>validate_result\<close>, which is also how every read finds the result it encodes.\<close>

definition validate_read :: "nat \<Rightarrow> result_identity \<Rightarrow> comparison \<Rightarrow> unit compare_result" where
  "validate_read now i c =
     (if i \<noteq> cp_identity c \<or> RESULT_TTL \<le> now - cp_created c then Inl CompareUnavailable else Inr ())"

definition result_for :: "nat \<Rightarrow> result_request \<Rightarrow> compare_manager \<Rightarrow> comparison compare_result" where
  "result_for now r s =
     (case find (\<lambda>e. ce_job e = ri_job_id (rq_identity r) \<and> \<not> ce_invalidated e) (cm_jobs s) of
        None \<Rightarrow> Inl CompareUnavailable
      | Some e \<Rightarrow>
        (case ce_result e of None \<Rightarrow> Inl CompareUnavailable
         | Some c \<Rightarrow>
           (case validate_read now (rq_identity r) c of Inl x \<Rightarrow> Inl x
            | Inr _ \<Rightarrow>
              if cp_identity c \<noteq> rq_identity r \<or> cp_source c \<noteq> rq_source r \<or> cp_target c \<noteq> rq_target r
              then Inl CompareUnavailable else Inr c)))"

definition validate_result :: "nat \<Rightarrow> result_request \<Rightarrow> compare_manager \<Rightarrow>
   unit compare_result \<times> compare_manager" where
  "validate_result now r s0 =
     (let s = prune_comparisons now s0 in
      (case result_for now r s of Inl e \<Rightarrow> Inl e | Inr _ \<Rightarrow> Inr (), s))"

section \<open>Teardown\<close>

text \<open>
  A teardown of a connection is charged to the connection's scope, or to the global scope when
  there is no room for another scope.  \<open>teardown_is_global\<close> is the choice.  The teardown
  returns the jobs it waits for.
\<close>

definition teardown_is_global :: "string option \<Rightarrow> compare_manager \<Rightarrow> bool" where
  "teardown_is_global i s =
     (case i of None \<Rightarrow> True
      | Some c \<Rightarrow> c = [] \<or> MAX_CONNECTION_ID_BYTES < length c
          \<or> (connection_scope s c = None
             \<and> (0 < fs_closing (cm_global s) \<or> MAX_FENCE_SCOPES \<le> length (cm_connections s))))"

definition raise_fence :: "fence_scope \<Rightarrow> fence_scope" where
  "raise_fence sc = sc\<lparr>fs_closing := fs_closing sc + 1, fs_generation := fs_generation sc + 1\<rparr>"

definition charge_fence :: "string option \<Rightarrow> compare_manager \<Rightarrow> compare_manager" where
  "charge_fence i s =
     (if teardown_is_global i s then s\<lparr>cm_global := raise_fence (cm_global s)\<rparr>
      else case i of None \<Rightarrow> s
        | Some c \<Rightarrow>
            if connection_scope s c \<noteq> None
            then s\<lparr>cm_connections :=
                     update_first (\<lambda>(k, _). k = c) (apsnd raise_fence) (cm_connections s)\<rparr>
            else s\<lparr>cm_connections := cm_connections s @ [(c, raise_fence fence_scope_default)]\<rparr>)"

definition torn_down :: "string option \<Rightarrow> bool \<Rightarrow> compare_entry \<Rightarrow> bool" where
  "torn_down i use_global e \<longleftrightarrow>
     use_global \<or> (case i of None \<Rightarrow> False | Some c \<Rightarrow> involves e c)"

definition invalidate_entry :: "compare_entry \<Rightarrow> compare_entry" where
  "invalidate_entry e =
     (let e1 = e\<lparr>ce_invalidated := True, ce_result := None\<rparr>
      in if ce_active e1 then stop_entry CompareCancelled e1 else e1)"

definition teardown_begin :: "nat \<Rightarrow> string option \<Rightarrow> compare_manager \<Rightarrow>
   string list \<times> compare_manager" where
  "teardown_begin now i s =
     (let g = teardown_is_global i s; s1 = charge_fence i s in
      (map ce_job (filter (\<lambda>e. torn_down i g e \<and> ce_active e) (cm_jobs s1)),
       prune_comparisons now
         (s1\<lparr>cm_jobs := map (\<lambda>e. if torn_down i g e then invalidate_entry e else e) (cm_jobs s1)\<rparr>)))"

definition fence_waits :: "string list \<Rightarrow> compare_manager \<Rightarrow> bool" where
  "fence_waits pending s \<longleftrightarrow> \<not> list_all (cm_dones s) pending"

definition lower_fence :: "fence_scope \<Rightarrow> fence_scope" where
  "lower_fence sc = sc\<lparr>fs_closing := fs_closing sc - 1\<rparr>"

definition end_connection_fence :: "string \<Rightarrow> compare_manager \<Rightarrow> compare_manager" where
  "end_connection_fence c s =
     (case connection_scope s c of
        None \<Rightarrow> s\<lparr>cm_global := lower_fence (cm_global s)\<rparr>
      | Some sc \<Rightarrow>
          if fs_closing (lower_fence sc) = 0
          then s\<lparr>cm_connections := remove_first (\<lambda>(k, _). k = c) (cm_connections s)\<rparr>
          else s\<lparr>cm_connections :=
                   update_first (\<lambda>(k, _). k = c) (apsnd lower_fence) (cm_connections s)\<rparr>)"

definition end_global_fence :: "compare_manager \<Rightarrow> compare_manager" where
  "end_global_fence s = s\<lparr>cm_global := lower_fence (cm_global s)\<rparr>"

definition end_fence :: "string option \<Rightarrow> compare_manager \<Rightarrow> compare_manager" where
  "end_fence i s = (case i of None \<Rightarrow> end_global_fence s | Some c \<Rightarrow> end_connection_fence c s)"

section \<open>Responses and their transports\<close>

text \<open>
  \<open>ResponseOwnership\<close>: two slots, each with the lease of the page it carries.  A page the
  manager does not hand off drops its lease.
\<close>

record encoded_page =
  pg_json :: string
  pg_lease :: reservation
  pg_response_id :: string

definition free_slot :: "in_flight option \<Rightarrow> bool" where
  "free_slot sl = (sl = None)"

definition slot_is :: "(in_flight \<Rightarrow> bool) \<Rightarrow> in_flight option \<Rightarrow> bool" where
  "slot_is P sl = (case sl of None \<Rightarrow> False | Some x \<Rightarrow> P x)"

definition handoff :: "string \<Rightarrow> encoded_page \<Rightarrow> in_flight option list \<Rightarrow>
   string compare_result \<times> in_flight option list" where
  "handoff session page slots =
     (case validate_id session of Inl e \<Rightarrow> (Inl e, slots)
      | Inr _ \<Rightarrow>
        if list_ex (slot_is (\<lambda>x. if_response_id x = pg_response_id page)) slots
        then (Inl CompareInvalidRequest, slots)
        else if \<not> list_ex free_slot slots then (Inl CompareBusy, slots)
        else (Inr (pg_json page),
              update_first free_slot
                (\<lambda>_. Some \<lparr>if_session = session, if_response_id = pg_response_id page,
                           if_lease = pg_lease page\<rparr>) slots))"

definition acknowledge_slot :: "string \<Rightarrow> string \<Rightarrow> in_flight option list \<Rightarrow>
   unit compare_result \<times> in_flight option list" where
  "acknowledge_slot session i slots =
     (let P = slot_is (\<lambda>x. if_session x = session \<and> if_response_id x = i) in
      if list_ex P slots then (Inr (), update_first P (\<lambda>_. None) slots)
      else (Inl CompareUnavailable, slots))"

definition destroy_slots :: "string \<Rightarrow> in_flight option list \<Rightarrow> in_flight option list" where
  "destroy_slots session slots =
     map (\<lambda>sl. if slot_is (\<lambda>x. if_session x = session) sl then None else sl) slots"

text \<open>The leases that leave the slots give their bytes back.\<close>

definition set_responses :: "in_flight option list \<Rightarrow> compare_manager \<Rightarrow> compare_manager" where
  "set_responses slots s =
     (let gone = List.map_filter (\<lambda>(old, new). if new = None then map_option if_lease old else None)
                   (zip (cm_responses s) slots)
      in s\<lparr>cm_responses := slots, cm_budget := fold drop_lease gone (cm_budget s)\<rparr>)"

definition validate_transport :: "compare_manager \<Rightarrow> string \<Rightarrow> string \<Rightarrow> unit compare_result" where
  "validate_transport s window token =
     (if list_ex (\<lambda>t. dt_window t = window \<and> dt_token t = token) (cm_transports s)
      then Inr () else Inl CompareUnavailable)"

text \<open>
  \<open>encode_read\<close>: the page of the result, encoded under a serializer lease.  The argument
  \<open>page_text\<close> is the content of the page asked for, or the error of its offset or object; the
  writer is capped at a page.  A value chunk looks at the response identifier before it takes
  the lease, which only changes which of two errors is reported.
\<close>

definition PAGE_BYTES :: nat where "PAGE_BYTES = 1024 * 1024"

definition encode_page :: "string \<Rightarrow> string \<Rightarrow> reservation \<Rightarrow> encoded_page compare_result" where
  "encode_page text response lease =
     (case validate_id response of Inl e \<Rightarrow> Inl e
      | Inr _ \<Rightarrow>
        if PAGE_BYTES < length text then Inl (CompareLimitExceeded LimitPageBytes)
        else Inr \<lparr>pg_json = text, pg_lease = lease, pg_response_id = response\<rparr>)"

definition encode_read ::
  "(comparison \<Rightarrow> string compare_result) \<Rightarrow> nat \<Rightarrow> string \<Rightarrow> result_request \<Rightarrow> compare_manager \<Rightarrow>
   encoded_page compare_result \<times> compare_manager" where
  "encode_read page_text now response r s =
     (case result_for now r s of Inl e \<Rightarrow> (Inl e, s)
      | Inr c \<Rightarrow>
        (case page_text c of Inl e \<Rightarrow> (Inl e, s)
         | Inr text \<Rightarrow>
           (case serializer (cm_budget s) of
              (Inl e, b) \<Rightarrow> (Inl e, s\<lparr>cm_budget := b\<rparr>)
            | (Inr lease, b) \<Rightarrow>
               (case encode_page text response lease of
                  Inl e \<Rightarrow> (Inl e, s\<lparr>cm_budget := drop_lease lease b\<rparr>)
                | Inr page \<Rightarrow> (Inr page, s\<lparr>cm_budget := b\<rparr>)))))"

definition read_result ::
  "(comparison \<Rightarrow> string compare_result) \<Rightarrow> nat \<Rightarrow> string \<Rightarrow> string \<Rightarrow> string \<Rightarrow> result_request \<Rightarrow>
   compare_manager \<Rightarrow> string compare_result \<times> compare_manager" where
  "read_result page_text now session transport response r s0 =
     (case validate_transport s0 session transport of Inl e \<Rightarrow> (Inl e, s0)
      | Inr _ \<Rightarrow>
        (case encode_read page_text now response r (prune_comparisons now s0) of
           (Inl e, s) \<Rightarrow> (Inl e, s)
         | (Inr page, s) \<Rightarrow>
            (case handoff session page (cm_responses s) of
               (Inl e, _) \<Rightarrow> (Inl e, s\<lparr>cm_budget := drop_lease (pg_lease page) (cm_budget s)\<rparr>)
             | (Inr json, slots) \<Rightarrow> (Inr json, s\<lparr>cm_responses := slots\<rparr>))))"

definition acknowledge :: "string \<Rightarrow> string \<Rightarrow> string \<Rightarrow> compare_manager \<Rightarrow>
   unit compare_result \<times> compare_manager" where
  "acknowledge session transport response s =
     (case validate_transport s session transport of Inl e \<Rightarrow> (Inl e, s)
      | Inr _ \<Rightarrow>
        (case acknowledge_slot session response (cm_responses s) of
           (r, slots) \<Rightarrow> (r, set_responses slots s)))"

definition find_transport :: "string \<Rightarrow> compare_manager \<Rightarrow> string compare_result" where
  "find_transport window s =
     (case find (\<lambda>t. dt_window t = window) (cm_transports s) of
        None \<Rightarrow> Inl CompareUnavailable | Some t \<Rightarrow> Inr (dt_token t))"

datatype document_load = LoadStarted | LoadFinished

definition transport_document_load :: "string \<Rightarrow> string \<Rightarrow> document_load \<Rightarrow> compare_manager \<Rightarrow>
   compare_manager" where
  "transport_document_load token window event s0 =
     (if event \<noteq> LoadStarted then s0
      else let s = set_responses (destroy_slots window (cm_responses s0)) s0 in
        if list_ex (\<lambda>t. dt_window t = window) (cm_transports s)
        then s\<lparr>cm_transports := update_first (\<lambda>t. dt_window t = window)
                 (\<lambda>t. t\<lparr>dt_token := token\<rparr>) (cm_transports s)\<rparr>
        else if window \<noteq> [] \<and> length window \<le> 128 \<and> length (cm_transports s) < MAX_TRANSPORTS
        then s\<lparr>cm_transports := cm_transports s @ [\<lparr>dt_window = window, dt_token = token\<rparr>]\<rparr>
        else s)"

definition transport_destroyed :: "string \<Rightarrow> compare_manager \<Rightarrow> compare_manager" where
  "transport_destroyed session s0 =
     (let s = set_responses (destroy_slots session (cm_responses s0)) s0
      in s\<lparr>cm_transports := filter (\<lambda>t. dt_window t \<noteq> session) (cm_transports s)\<rparr>)"

end
