(* ===== verification/FenceGate.thy ===== *)
theory FenceGate imports Prelude "HOL-Library.Multiset" begin

text \<open>
  The contract of the fence of \<open>backend/src/socket_lifecycle.rs\<close> with the managers it closes.
  A fence closes one connection or all of them; fences of different callers overlap, so what is
  outstanding is a multiset.  A \<open>fence_gate\<close> keeps every connection blocked that an outstanding
  fence covers; a \<open>reopening_gate\<close> also admits again when none is left.  The providers are the
  managers, each in the theory of its operations.
\<close>

section \<open>Fences and their histories\<close>

text \<open>\<open>None\<close> is the fence over all connections.\<close>

type_synonym fence = "string option"

definition covers :: "fence \<Rightarrow> string \<Rightarrow> bool" where
  "covers f c = (case f of None \<Rightarrow> True | Some d \<Rightarrow> d = c)"

lemma covers_simps [simp]: "covers None c" "covers (Some d) c \<longleftrightarrow> d = c"
  by (simp_all add: covers_def)

datatype fence_event = Begin fence | End fence

fun gate_run :: "(fence \<Rightarrow> 's \<Rightarrow> 's) \<Rightarrow> (fence \<Rightarrow> 's \<Rightarrow> 's) \<Rightarrow> fence_event list \<Rightarrow> 's \<Rightarrow> 's" where
  "gate_run b e [] s = s"
| "gate_run b e (Begin f # evs) s = gate_run b e evs (b f s)"
| "gate_run b e (End f # evs) s = gate_run b e evs (e f s)"

text \<open>
  The fences outstanding after a history, when each end has a begin before it and every
  intermediate multiset is \<open>legal\<close>.
\<close>

fun outstanding :: "(fence multiset \<Rightarrow> bool) \<Rightarrow> fence_event list \<Rightarrow> fence multiset \<Rightarrow>
  fence multiset option" where
  "outstanding legal [] F = Some F"
| "outstanding legal (Begin f # evs) F =
     (if legal (add_mset f F) then outstanding legal evs (add_mset f F) else None)"
| "outstanding legal (End f # evs) F =
     (if f \<in># F then outstanding legal evs (F - {#f#}) else None)"

text \<open>
  The same with changes of the state in between that are the provider's own: a close that ends
  late, a job that starts or finishes.
\<close>

inductive gate_path ::
  "(fence \<Rightarrow> 's \<Rightarrow> 's) \<Rightarrow> (fence \<Rightarrow> 's \<Rightarrow> 's) \<Rightarrow> (fence multiset \<Rightarrow> bool) \<Rightarrow> ('s \<Rightarrow> 's \<Rightarrow> bool) \<Rightarrow>
   fence multiset \<Rightarrow> 's \<Rightarrow> fence multiset \<Rightarrow> 's \<Rightarrow> bool"
  for b e legal internal F s where
  path_empty: "gate_path b e legal internal F s F s"
| path_begin: "gate_path b e legal internal F s (add_mset f G) (b f t)"
    if "gate_path b e legal internal F s G t" "legal (add_mset f G)"
| path_end: "gate_path b e legal internal F s G (e f t)"
    if "gate_path b e legal internal F s (add_mset f G) t"
| path_internal: "gate_path b e legal internal F s G u"
    if "gate_path b e legal internal F s G t" "internal t u"

definition any_fences :: "fence multiset \<Rightarrow> bool" where
  "any_fences F = True"

definition single_fences :: "fence multiset \<Rightarrow> bool" where
  "single_fences F \<longleftrightarrow> (\<forall>f\<in>#F. count F f = 1)"

lemma any_fences_holds [simp]: "any_fences F"
  by (simp add: any_fences_def)

lemma single_fences_count: "single_fences F \<longleftrightarrow> (\<forall>f. count F f \<le> 1)"
  unfolding single_fences_def by (metis count_eq_zero_iff count_greater_eq_one_iff order_antisym zero_le order_refl)

lemma single_fences_add [simp]: "single_fences (add_mset f F) \<longleftrightarrow> f \<notin># F \<and> single_fences F"
proof -
  have "(\<forall>g. count (add_mset f F) g \<le> 1) \<longleftrightarrow> count F f = 0 \<and> (\<forall>g. count F g \<le> 1)" (is "?l = ?r")
  proof
    assume *: ?l
    have "count F g \<le> 1" for g
      using spec [OF *, of g] by (cases "g = f") simp_all
    with spec [OF *, of f] show ?r by simp
  next
    assume *: ?r
    have "count (add_mset f F) g \<le> 1" for g
      using * by (cases "g = f") simp_all
    then show ?l by blast
  qed
  then show ?thesis by (simp add: single_fences_count count_eq_zero_iff)
qed

section \<open>The contract\<close>

locale fence_gate =
  fixes begin_fence :: "fence \<Rightarrow> 's \<Rightarrow> 's"
    and end_fence :: "fence \<Rightarrow> 's \<Rightarrow> 's"
    and blocked :: "'s \<Rightarrow> string \<Rightarrow> bool"
    and legal :: "fence multiset \<Rightarrow> bool"
    and held :: "fence multiset \<Rightarrow> 's \<Rightarrow> bool"
  assumes begin_held: "held F s \<Longrightarrow> legal (add_mset f F) \<Longrightarrow> held (add_mset f F) (begin_fence f s)"
    and end_held: "held (add_mset f F) s \<Longrightarrow> held F (end_fence f s)"
    and held_blocked: "held F s \<Longrightarrow> f \<in># F \<Longrightarrow> covers f c \<Longrightarrow> blocked s c"
begin

lemma run_held:
  "held F s \<Longrightarrow> outstanding legal evs F = Some F' \<Longrightarrow> held F' (gate_run begin_fence end_fence evs s)"
proof (induction evs arbitrary: F s)
  case (Cons ev evs)
  show ?case
  proof (cases ev)
    case (Begin f)
    with Cons show ?thesis by (auto intro: begin_held split: if_splits)
  next
    case (End f)
    with Cons have "f \<in># F" "outstanding legal evs (F - {#f#}) = Some F'"
      by (auto split: if_splits)
    with Cons End end_held [of f "F - {#f#}" s] show ?thesis by simp
  qed
qed simp

lemma run_blocked:
  "held F s \<Longrightarrow> outstanding legal evs F = Some F' \<Longrightarrow> f \<in># F' \<Longrightarrow> covers f c \<Longrightarrow>
   blocked (gate_run begin_fence end_fence evs s) c"
  by (blast intro: held_blocked run_held)

end

locale reopening_gate = fence_gate +
  assumes held_open: "held {#} s \<Longrightarrow> \<not> blocked s c"
begin

lemma run_open:
  "held F s \<Longrightarrow> outstanding legal evs F = Some {#} \<Longrightarrow>
   \<not> blocked (gate_run begin_fence end_fence evs s) c"
  by (rule held_open, rule run_held)

end

text \<open>A gate whose own changes keep it closed.\<close>

locale live_gate = fence_gate +
  fixes internal :: "'s \<Rightarrow> 's \<Rightarrow> bool"
  assumes internal_held: "held F s \<Longrightarrow> internal s t \<Longrightarrow> held F t"
begin

lemma path_held:
  "gate_path begin_fence end_fence legal internal F s G t \<Longrightarrow> held F s \<Longrightarrow> held G t"
  by (induction rule: gate_path.induct) (auto intro: begin_held end_held internal_held)

lemma path_blocked:
  "gate_path begin_fence end_fence legal internal F s G t \<Longrightarrow> held F s \<Longrightarrow> f \<in># G \<Longrightarrow> covers f c \<Longrightarrow>
   blocked t c"
  by (blast intro: held_blocked path_held)

end

end
