(* ===== verification/CompareFacts.thy ===== *)
theory CompareFacts imports CompareManager FenceGate begin

text \<open>
  Facts about one operation of the comparison manager: the fence accounting as a gate, the
  invariant of the manager and its preservation, and the accounting of the budget.
\<close>

section \<open>Fence accounting\<close>

text \<open>
  \<open>L\<close> are the outstanding fences charged to a connection's scope, \<open>G\<close> those charged to the global
  scope: fences over all connections and those that found no room.
\<close>

definition scope_counts :: "fence multiset \<Rightarrow> string \<Rightarrow> fence_scope option \<Rightarrow> bool" where
  "scope_counts L c sc =
     (case sc of None \<Rightarrow> count L (Some c) = 0
      | Some x \<Rightarrow> 0 < fs_closing x \<and> fs_closing x = count L (Some c))"

lemma scope_counts_simps [simp]:
  "scope_counts L c None \<longleftrightarrow> Some c \<notin># L"
  "scope_counts L c (Some x) \<longleftrightarrow> 0 < fs_closing x \<and> fs_closing x = count L (Some c)"
  by (simp_all add: scope_counts_def not_in_iff)

lemma scope_counts_other: "d \<noteq> c \<Longrightarrow> scope_counts (add_mset (Some c) L) d sc = scope_counts L d sc"
  by (cases sc) simp_all

definition scopes_ok :: "(string \<times> fence_scope) list \<Rightarrow> bool" where
  "scopes_ok xs \<longleftrightarrow> distinct (map fst xs) \<and> length xs \<le> MAX_FENCE_SCOPES \<and> list_all valid_id (map fst xs)"

definition charged :: "fence multiset \<Rightarrow> fence multiset \<Rightarrow> compare_manager \<Rightarrow> bool" where
  "charged L G s \<longleftrightarrow> count L None = 0 \<and> scopes_ok (cm_connections s)
     \<and> (\<forall>c. scope_counts L c (connection_scope s c))
     \<and> fs_closing (cm_global s) = size G
     \<and> (\<forall>c. Some c \<in># G \<longrightarrow> connection_scope s c = None)"

definition compare_held :: "fence multiset \<Rightarrow> compare_manager \<Rightarrow> bool" where
  "compare_held F s \<longleftrightarrow> (\<exists>L G. F = L + G \<and> charged L G s)"

abbreviation compare_blocked :: "compare_manager \<Rightarrow> string \<Rightarrow> bool" where
  "compare_blocked s c \<equiv> admission_blocked s [c]"

lemma chargedI [intro?]:
  "count L None = 0 \<Longrightarrow> scopes_ok (cm_connections s) \<Longrightarrow> (\<And>c. scope_counts L c (connection_scope s c)) \<Longrightarrow>
   fs_closing (cm_global s) = size G \<Longrightarrow> (\<And>c. Some c \<in># G \<Longrightarrow> connection_scope s c = None) \<Longrightarrow>
   charged L G s"
  by (simp add: charged_def)

lemma chargedD:
  assumes "charged L G s"
  shows "count L None = 0" "scopes_ok (cm_connections s)" "scope_counts L c (connection_scope s c)"
    "fs_closing (cm_global s) = size G" "Some c \<in># G \<Longrightarrow> connection_scope s c = None"
  using assms by (simp_all add: charged_def)

lemma map_of_update_first:
  "map_of (update_first (\<lambda>(k, _). k = c) (apsnd f) xs) d
   = (if d = c then map_option f (map_of xs d) else map_of xs d)"
  by (induction xs) auto

lemma keys_update_first [simp]: "map fst (update_first P (apsnd f) xs) = map fst xs"
  by (induction xs) auto

lemma map_of_remove_first:
  assumes "distinct (map fst xs)"
  shows "map_of (remove_first (\<lambda>(k, _). k = c) xs) d = (if d = c then None else map_of xs d)"
  using assms
proof (induction xs)
  case (Cons x xs)
  then have "map_of xs (fst x) = None" by (simp add: map_of_eq_None_iff)
  with Cons show ?case by (cases x) (auto split: if_splits)
qed simp

lemma keys_remove_first: "map fst (remove_first (P \<circ> fst) xs) = remove_first P (map fst xs)"
  by (induction xs) auto

lemma distinct_remove_first: "distinct xs \<Longrightarrow> distinct (remove_first P xs)"
  by (induction xs) (use set_remove_first in fastforce)+

lemma length_remove_first_le: "length (remove_first P xs) \<le> length xs"
  by (induction xs) auto

lemma scopes_ok_update: "scopes_ok xs \<Longrightarrow> scopes_ok (update_first P (apsnd f) xs)"
proof -
  assume *: "scopes_ok xs"
  have "length (update_first P (apsnd f) xs) = length xs"
    using keys_update_first [of P f xs] by (metis length_map)
  with * show ?thesis by (simp add: scopes_ok_def)
qed

lemma scopes_ok_remove:
  assumes "scopes_ok xs"
  shows "scopes_ok (remove_first (\<lambda>(k, _). k = c) xs)"
proof -
  have eq: "(\<lambda>(k, _). k = c) = (\<lambda>k. k = c) \<circ> fst" by auto
  have "list_all valid_id (remove_first P (map fst xs))" for P
    using assms set_remove_first [of P "map fst xs"] by (auto simp: scopes_ok_def list_all_iff)
  with assms show ?thesis
    unfolding eq scopes_ok_def keys_remove_first
    by (auto intro: distinct_remove_first order_trans [OF length_remove_first_le])
qed

lemma raise_fence_closing [simp]: "fs_closing (raise_fence sc) = fs_closing sc + 1"
  by (simp add: raise_fence_def)

lemma lower_fence_closing [simp]: "fs_closing (lower_fence sc) = fs_closing sc - 1"
  by (simp add: lower_fence_def)

lemma fence_default_closing [simp]: "fs_closing fence_scope_default = 0"
  by (simp add: fence_scope_default_def)

lemma connection_scope_global [simp]: "connection_scope (s\<lparr>cm_global := g\<rparr>) c = connection_scope s c"
  by (simp add: connection_scope_def)

lemma scope_key_valid: "scopes_ok (cm_connections s) \<Longrightarrow> connection_scope s c = Some sc \<Longrightarrow> valid_id c"
  by (auto simp: scopes_ok_def connection_scope_def list_all_iff dest!: map_of_SomeD)

lemma charge_global_ok:
  assumes "charged L G s" "\<And>c. f = Some c \<Longrightarrow> connection_scope s c = None"
  shows "charged L (add_mset f G) (s\<lparr>cm_global := raise_fence (cm_global s)\<rparr>)"
  using assms by (auto simp: charged_def)

lemma charge_known_ok:
  assumes "charged L G s" "connection_scope s c = Some sc"
  shows "charged (add_mset (Some c) L) G
     (s\<lparr>cm_connections := update_first (\<lambda>(k, _). k = c) (apsnd raise_fence) (cm_connections s)\<rparr>)"
    (is "charged _ _ ?s")
proof
  have scope: "connection_scope ?s d = (if d = c then map_option raise_fence (connection_scope s d)
      else connection_scope s d)" for d
    by (simp add: connection_scope_def map_of_update_first)
  show "scope_counts (add_mset (Some c) L) d (connection_scope ?s d)" for d
    using chargedD(3) [OF assms(1), of d] assms(2)
    by (cases "d = c") (simp_all add: scope scope_counts_other not_in_iff)
  show "connection_scope ?s d = None" if "Some d \<in># G" for d
    using chargedD(5) [OF assms(1) that] assms(2) by (auto simp: scope)
qed (use chargedD [OF assms(1)] in \<open>simp_all add: scopes_ok_update\<close>)

lemma charge_new_ok:
  assumes "charged L G s" "connection_scope s c = None" "fs_closing (cm_global s) = 0"
    "length (cm_connections s) < MAX_FENCE_SCOPES" "valid_id c"
  shows "charged (add_mset (Some c) L) G
     (s\<lparr>cm_connections := cm_connections s @ [(c, raise_fence fence_scope_default)]\<rparr>)"
    (is "charged _ _ ?s")
proof
  have scope: "connection_scope ?s d = (if d = c then Some (raise_fence fence_scope_default)
      else connection_scope s d)" for d
    using assms(2) by (simp add: connection_scope_def map_add_def split: option.splits)
  show "scope_counts (add_mset (Some c) L) d (connection_scope ?s d)" for d
    using chargedD(3) [OF assms(1), of d] assms(2)
    by (cases "d = c") (simp_all add: scope scope_counts_other not_in_iff)
  have "c \<notin> fst ` set (cm_connections s)"
    using assms(2) by (simp add: connection_scope_def map_of_eq_None_iff)
  then show "scopes_ok (cm_connections ?s)"
    using chargedD(2) [OF assms(1)] assms(4,5) by (simp add: scopes_ok_def)
  show "connection_scope ?s d = None" if "Some d \<in># G" for d
    using chargedD(4) [OF assms(1)] assms(3) that by simp
qed (use chargedD [OF assms(1)] in simp_all)

lemma charge_fence_cases:
  assumes "charged L G s"
  obtains (global) "teardown_is_global f s" "charged L (add_mset f G) (charge_fence f s)"
    | (local) c where "f = Some c" "\<not> teardown_is_global f s"
        "charged (add_mset f L) G (charge_fence f s)"
proof (cases "teardown_is_global f s")
  case True
  have "connection_scope s c = None" if "f = Some c" for c
    using True that scope_key_valid [OF chargedD(2) [OF assms], of c]
    by (cases "connection_scope s c")
      (auto simp: teardown_is_global_def valid_id_def MAX_ID_BYTES_def MAX_CONNECTION_ID_BYTES_def)
  with True assms show ?thesis by (intro global) (simp_all add: charge_fence_def charge_global_ok)
next
  case False
  then obtain c where c: "f = Some c" "valid_id c"
    by (cases f) (auto simp: teardown_is_global_def valid_id_def MAX_ID_BYTES_def MAX_CONNECTION_ID_BYTES_def)
  have "charged (add_mset f L) G (charge_fence f s)"
  proof (cases "connection_scope s c")
    case None
    with False c have "fs_closing (cm_global s) = 0" "length (cm_connections s) < MAX_FENCE_SCOPES"
      by (auto simp: teardown_is_global_def)
    with None c False charge_new_ok [OF assms None] show ?thesis by (simp add: charge_fence_def)
  next
    case (Some sc)
    with c False charge_known_ok [OF assms Some] show ?thesis by (simp add: charge_fence_def)
  qed
  with False c show ?thesis by (intro local)
qed

lemma end_local_ok:
  assumes "charged (add_mset (Some c) L) G s"
  shows "charged L G (end_connection_fence c s)"
proof -
  let ?L = "add_mset (Some c) L"
  obtain sc where sc: "connection_scope s c = Some sc" "fs_closing sc = Suc (count L (Some c))"
    using chargedD(3) [OF assms, of c] by (auto simp: scope_counts_def split: option.splits)
  have dist: "distinct (map fst (cm_connections s))"
    using chargedD(2) [OF assms] by (simp add: scopes_ok_def)
  show ?thesis
  proof (cases "count L (Some c) = 0")
    case True
    let ?s = "s\<lparr>cm_connections := remove_first (\<lambda>(k, _). k = c) (cm_connections s)\<rparr>"
    have scope: "connection_scope ?s d = (if d = c then None else connection_scope s d)" for d
      by (simp add: connection_scope_def map_of_remove_first [OF dist])
    have "charged L G ?s"
    proof
      show "scope_counts L d (connection_scope ?s d)" for d
        using chargedD(3) [OF assms, of d] True
        by (cases "d = c") (simp_all add: scope scope_counts_other not_in_iff)
    qed (use chargedD [OF assms] in \<open>simp_all add: scope scopes_ok_remove\<close>)
    with True sc show ?thesis by (simp add: end_connection_fence_def)
  next
    case False
    let ?s = "s\<lparr>cm_connections := update_first (\<lambda>(k, _). k = c) (apsnd lower_fence) (cm_connections s)\<rparr>"
    have scope: "connection_scope ?s d = (if d = c then map_option lower_fence (connection_scope s d)
        else connection_scope s d)" for d
      by (simp add: connection_scope_def map_of_update_first)
    have "charged L G ?s"
    proof
      show "scope_counts L d (connection_scope ?s d)" for d
        using chargedD(3) [OF assms, of d] False sc
        by (cases "d = c") (simp_all add: scope scope_counts_other)
    qed (use chargedD [OF assms] sc in \<open>auto simp: scope scopes_ok_update\<close>)
    moreover have "fs_closing (lower_fence sc) \<noteq> 0" using False sc by simp
    ultimately show ?thesis using sc(1) by (simp add: end_connection_fence_def)
  qed
qed

lemma end_global_ok:
  assumes "charged L (add_mset f G) s"
  shows "charged L G (end_fence f s)"
proof -
  have "charged L G (s\<lparr>cm_global := lower_fence (cm_global s)\<rparr>)"
    using assms by (auto simp: charged_def)
  moreover have "connection_scope s c = None" if "f = Some c" for c
    using chargedD(5) [OF assms] that by simp
  ultimately show ?thesis
    by (cases f) (simp_all add: end_fence_def end_global_fence_def end_connection_fence_def)
qed

lemma compare_begin_held: "compare_held F s \<Longrightarrow> compare_held (add_mset f F) (charge_fence f s)"
  unfolding compare_held_def
  by (metis charge_fence_cases union_mset_add_mset_left union_mset_add_mset_right)

lemma compare_end_held:
  assumes "compare_held (add_mset f F) s"
  shows "compare_held F (end_fence f s)"
proof -
  obtain L G where *: "add_mset f F = L + G" "charged L G s"
    using assms by (auto simp: compare_held_def)
  consider L' where "L = add_mset f L'" | G' where "G = add_mset f G'"
    using *(1) by (metis mset_add union_iff union_single_eq_member)
  then show ?thesis
  proof cases
    case 1
    then obtain c where "f = Some c"
      using chargedD(1) [OF *(2)] by (cases f) auto
    with 1 * show ?thesis
      using end_local_ok [of c L' G s] by (auto simp: compare_held_def end_fence_def)
  next
    case 2
    with * end_global_ok [of L f G' s] show ?thesis by (auto simp: compare_held_def)
  qed
qed

lemma compare_held_blocked:
  assumes "compare_held F s" "f \<in># F" "covers f c"
  shows "compare_blocked s c"
proof -
  obtain L G where *: "F = L + G" "charged L G s"
    using assms(1) by (auto simp: compare_held_def)
  show ?thesis
  proof (cases "G = {#}")
    case True
    with * assms(2) have "0 < count L f" by simp
    with chargedD(1) [OF *(2)] assms(3) have "Some c \<in># L"
      by (cases f) auto
    then show ?thesis
      using chargedD(3) [OF *(2), of c]
      by (cases "connection_scope s c") (simp_all add: admission_blocked_def scope_is_closing_def)
  next
    case False
    then have "0 < size G" by (simp add: nonempty_has_size)
    then show ?thesis
      using chargedD(4) [OF *(2)] unfolding admission_blocked_def by metis
  qed
qed

lemma compare_held_open: "compare_held {#} s \<Longrightarrow> \<not> compare_blocked s c"
  by (auto simp: compare_held_def charged_def admission_blocked_def scope_is_closing_def
      scope_counts_def split: option.splits dest!: spec [of _ c])

interpretation compare_gate: reopening_gate charge_fence end_fence compare_blocked any_fences compare_held
  by unfold_locales
    (auto intro: compare_begin_held compare_end_held compare_held_blocked dest: compare_held_open)

lemma compare_new_held: "compare_held {#} compare_new"
  by (auto simp: compare_held_def charged_def compare_new_def scopes_ok_def connection_scope_def
      scope_counts_def)

section \<open>The invariant of the manager\<close>

abbreviation completed :: "compare_entry \<Rightarrow> string \<Rightarrow> bool" where
  "completed e rid \<equiv> st_state (ce_status e) = StateCompleted rid"

definition comparison_entry_ok :: "compare_entry \<Rightarrow> bool" where
  "comparison_entry_ok e \<longleftrightarrow> (ce_active e \<longleftrightarrow> ce_finished e = None)
     \<and> (ce_active e \<or> ce_invalidated e \<longrightarrow> ce_result e = None)
     \<and> (ce_active e \<and> ce_invalidated e \<longrightarrow> ce_cancel e \<and> ce_stop_reason e \<noteq> None)
     \<and> (ce_active e \<longrightarrow> (\<forall>rid. \<not> completed e rid))
     \<and> (\<forall>rid. completed e rid \<and> \<not> ce_invalidated e \<longrightarrow>
          (\<exists>c. ce_result e = Some c \<and> ri_result_id (cp_identity c) = rid))"

definition apart :: "compare_entry list \<Rightarrow> bool" where
  "apart js \<longleftrightarrow> (\<forall>e\<in>set js. \<forall>e'\<in>set js. \<forall>c. ce_active e \<longrightarrow> ce_active e' \<longrightarrow>
     involves e c \<longrightarrow> involves e' c \<longrightarrow> e = e')"

definition compare_base :: "compare_manager \<Rightarrow> bool" where
  "compare_base s \<longleftrightarrow> distinct (map ce_job (cm_jobs s)) \<and> list_all comparison_entry_ok (cm_jobs s)
     \<and> active_comparisons s \<le> MAX_ACTIVE_COMPARISONS
     \<and> apart (cm_jobs s)
     \<and> length (cm_requests s) \<le> MAX_REQUESTS"

definition tidy :: "compare_manager \<Rightarrow> bool" where
  "tidy s \<longleftrightarrow> inactive_count (cm_jobs s) \<le> MAX_TERMINAL_COMPARISONS
     \<and> (\<forall>e\<in>set (cm_jobs s). ce_invalidated e \<longrightarrow> ce_active e)"

definition compare_ok :: "compare_manager \<Rightarrow> bool" where
  "compare_ok s \<longleftrightarrow> compare_base s \<and> tidy s"

lemma compare_baseD:
  assumes "compare_base s"
  shows "distinct (map ce_job (cm_jobs s))" "e \<in> set (cm_jobs s) \<Longrightarrow> comparison_entry_ok e"
    "active_comparisons s \<le> MAX_ACTIVE_COMPARISONS" "apart (cm_jobs s)"
    "length (cm_requests s) \<le> MAX_REQUESTS"
  using assms by (auto simp: compare_base_def list_all_iff)

lemma compare_okD:
  assumes "compare_ok s"
  shows "compare_base s" "tidy s"
  using assms by (auto simp: compare_ok_def)

lemma compare_new_ok: "compare_ok compare_new"
  by (simp add: compare_ok_def compare_base_def tidy_def compare_new_def active_comparisons_def
      inactive_count_def apart_def)

lemma unique_job: "distinct (map ce_job js) \<Longrightarrow> e \<in> set js \<Longrightarrow> e' \<in> set js \<Longrightarrow> ce_job e = ce_job e' \<Longrightarrow> e = e'"
  by (auto simp: distinct_map dest: inj_onD)

section \<open>Pruning is a filter that keeps the active entries\<close>

lemma remove_first_filter:
  assumes "distinct xs"
  shows "\<exists>Q. remove_first p xs = filter Q xs \<and> (\<forall>x. \<not> p x \<longrightarrow> Q x)"
proof (cases "\<exists>x\<in>set xs. p x")
  case True
  have "\<exists>x. p x \<and> remove_first p xs = filter (\<lambda>y. y \<noteq> x) xs"
    using assms True
  proof (induction xs)
    case (Cons a xs)
    show ?case
    proof (cases "p a")
      case True
      have "filter (\<lambda>y. y \<noteq> a) xs = xs"
        using Cons.prems(1) by (auto intro: filter_True)
      with True show ?thesis by (intro exI [of _ a]) simp
    next
      case False
      with Cons obtain x where "p x" "remove_first p xs = filter (\<lambda>y. y \<noteq> x) xs" by auto
      with False show ?thesis by (intro exI [of _ x]) auto
    qed
  qed simp
  then obtain x where "p x" "remove_first p xs = filter (\<lambda>y. y \<noteq> x) xs" by blast
  then show ?thesis by (intro exI [of _ "\<lambda>y. y \<noteq> x"]) auto
next
  case False
  then have "remove_first p xs = xs" by (induction xs) auto
  then show ?thesis by (intro exI [of _ "\<lambda>_. True"]) simp
qed

lemma evict_terminal_filter:
  "distinct js \<Longrightarrow> \<exists>Q. evict_terminal js = filter Q js \<and> (\<forall>e. ce_active e \<longrightarrow> Q e)"
proof (induction js rule: evict_terminal.induct)
  case (1 js)
  show ?case
  proof (cases "MAX_TERMINAL_COMPARISONS < inactive_count js")
    case True
    obtain Q where Q: "evict_oldest js = filter Q js" "\<And>e. ce_active e \<Longrightarrow> Q e"
    proof -
      let ?p = "\<lambda>e. \<not> ce_active e \<and> finished_key e
        = min_list (map finished_key (filter (\<lambda>e. \<not> ce_active e) js))"
      obtain Q where "remove_first ?p js = filter Q js" "\<forall>x. \<not> ?p x \<longrightarrow> Q x"
        using remove_first_filter [OF 1(2), of ?p] by blast
      then show ?thesis by (intro that [of Q]) (simp_all add: evict_oldest_def Let_def)
    qed
    with 1(1) [OF True] 1(2) obtain R where R: "evict_terminal (evict_oldest js) = filter R (evict_oldest js)"
      "\<And>e. ce_active e \<Longrightarrow> R e" by (metis distinct_filter)
    with Q True have "evict_terminal js = filter (\<lambda>e. Q e \<and> R e) js"
      by (simp add: evict_terminal.simps [of js])
    with Q(2) R(2) show ?thesis by blast
  next
    case False
    then show ?thesis by (intro exI [of _ "\<lambda>_. True"]) (simp add: evict_terminal.simps [of js])
  qed
qed

lemma evict_terminal_count: "inactive_count (evict_terminal js) \<le> MAX_TERMINAL_COMPARISONS"
  by (induction js rule: evict_terminal.induct) (subst evict_terminal.simps, simp add: not_less)

section \<open>Calm changes\<close>

text \<open>
  Most operations neither start nor end a job: they drop inactive entries and old requests, or
  change the progress of an entry.
\<close>

definition entry_calm :: "compare_entry \<Rightarrow> compare_entry \<Rightarrow> bool" where
  "entry_calm e e' \<longleftrightarrow> (ce_job e' = ce_job e \<and> st_source (ce_status e') = st_source (ce_status e)
       \<and> st_target (ce_status e') = st_target (ce_status e) \<and> ce_active e' = ce_active e
       \<and> ce_invalidated e' = ce_invalidated e \<and> ce_result e' = ce_result e
       \<and> ce_finished e' = ce_finished e)
     \<and> (ce_cancel e \<longrightarrow> ce_cancel e') \<and> (ce_stop_reason e \<noteq> None \<longrightarrow> ce_stop_reason e' \<noteq> None)
     \<and> (\<forall>rid. completed e' rid \<longrightarrow> completed e rid)"

definition calm :: "nat \<Rightarrow> compare_manager \<Rightarrow> compare_manager \<Rightarrow> bool" where
  "calm now s s' \<longleftrightarrow>
     (\<exists>Q g. cm_jobs s' = map g (filter Q (cm_jobs s)) \<and> (\<forall>e. ce_active e \<longrightarrow> Q e)
        \<and> (\<forall>e\<in>set (cm_jobs s). entry_calm e (g e)))
     \<and> (\<exists>P. cm_requests s' = filter P (cm_requests s) \<and> (\<forall>r. \<not> P r \<longrightarrow> RESULT_TTL \<le> now - rr_created r))
     \<and> cm_connections s' = cm_connections s \<and> cm_global s' = cm_global s \<and> cm_dones s' = cm_dones s"

lemma entry_calm_refl [simp]: "entry_calm e e"
  by (simp add: entry_calm_def)

lemma entry_calm_trans: "entry_calm a b \<Longrightarrow> entry_calm b c \<Longrightarrow> entry_calm a c"
  by (simp add: entry_calm_def)

lemma calmI:
  assumes "cm_jobs s' = map g (filter Q (cm_jobs s))" "\<And>e. ce_active e \<Longrightarrow> Q e"
    "\<And>e. e \<in> set (cm_jobs s) \<Longrightarrow> entry_calm e (g e)"
    "cm_requests s' = filter P (cm_requests s)" "\<And>r. \<not> P r \<Longrightarrow> RESULT_TTL \<le> now - rr_created r"
    "cm_connections s' = cm_connections s" "cm_global s' = cm_global s" "cm_dones s' = cm_dones s"
  shows "calm now s s'"
  using assms unfolding calm_def by blast

lemma calm_same:
  assumes "cm_jobs s' = cm_jobs s" "cm_requests s' = cm_requests s"
    "cm_connections s' = cm_connections s" "cm_global s' = cm_global s" "cm_dones s' = cm_dones s"
  shows "calm now s s'"
  by (rule calmI [where g = id and Q = "\<lambda>_. True" and P = "\<lambda>_. True"])
    (simp_all add: assms)

lemma calm_refl [simp]: "calm now s s"
  by (rule calm_same) simp_all

lemma calm_entries:
  assumes "cm_jobs s' = map g (cm_jobs s)" "\<And>e. e \<in> set (cm_jobs s) \<Longrightarrow> entry_calm e (g e)"
    "cm_requests s' = cm_requests s" "cm_connections s' = cm_connections s"
    "cm_global s' = cm_global s" "cm_dones s' = cm_dones s"
  shows "calm now s s'"
  by (rule calmI [where g = g and Q = "\<lambda>_. True" and P = "\<lambda>_. True"]) (simp_all add: assms)

lemma calm_trans:
  assumes "calm now s s'" "calm now s' s''"
  shows "calm now s s''"
proof -
  obtain Q g P where 1: "cm_jobs s' = map g (filter Q (cm_jobs s))" "\<And>e. ce_active e \<Longrightarrow> Q e"
      "\<And>e. e \<in> set (cm_jobs s) \<Longrightarrow> entry_calm e (g e)"
      "cm_requests s' = filter P (cm_requests s)" "\<And>r. \<not> P r \<Longrightarrow> RESULT_TTL \<le> now - rr_created r"
    using assms(1) unfolding calm_def by blast
  obtain Q' g' P' where 2: "cm_jobs s'' = map g' (filter Q' (cm_jobs s'))" "\<And>e. ce_active e \<Longrightarrow> Q' e"
      "\<And>e. e \<in> set (cm_jobs s') \<Longrightarrow> entry_calm e (g' e)"
      "cm_requests s'' = filter P' (cm_requests s')" "\<And>r. \<not> P' r \<Longrightarrow> RESULT_TTL \<le> now - rr_created r"
    using assms(2) unfolding calm_def by blast
  let ?Q = "\<lambda>e. Q e \<and> (e \<in> set (cm_jobs s) \<longrightarrow> Q' (g e))"
  let ?g = "\<lambda>e. if Q e then g' (g e) else e"
  show ?thesis
  proof (rule calmI [where g = ?g and Q = ?Q and P = "\<lambda>r. P r \<and> P' r"])
    show "cm_jobs s'' = map ?g (filter ?Q (cm_jobs s))"
      unfolding 2(1) 1(1)
      by (simp add: filter_map o_def cong: filter_cong)
    show "?Q e" if "ce_active e" for e
      using that 1(2,3) 2(2) by (auto simp: entry_calm_def)
    show "entry_calm e (?g e)" if "e \<in> set (cm_jobs s)" for e
      using that 1 2(3) [of "g e"] by (auto intro: entry_calm_trans)
    show "cm_requests s'' = filter (\<lambda>r. P r \<and> P' r) (cm_requests s)"
      by (simp add: 1 2 conj_commute)
  qed (use assms 1(5) 2(5) in \<open>auto simp: calm_def\<close>)
qed

lemma calm_find:
  assumes "calm now s s'" "e' \<in> set (cm_jobs s')"
  obtains e where "e \<in> set (cm_jobs s)" "entry_calm e e'"
  using assms unfolding calm_def by fastforce

lemma calm_keeps_active:
  assumes "calm now s s'" "e \<in> set (cm_jobs s)" "ce_active e"
  obtains e' where "e' \<in> set (cm_jobs s')" "entry_calm e e'"
  using assms unfolding calm_def by fastforce

lemma entry_calm_ok:
  assumes "entry_calm e e'" "comparison_entry_ok e"
  shows "comparison_entry_ok e'"
  using assms unfolding entry_calm_def comparison_entry_ok_def by metis

lemma entry_calm_involves: "entry_calm e e' \<Longrightarrow> involves e' c = involves e c"
  by (simp add: entry_calm_def involves_def)

lemma length_filter_mono:
  "(\<And>x. x \<in> set xs \<Longrightarrow> P x \<Longrightarrow> R x) \<Longrightarrow> length (filter P xs) \<le> length (filter R xs)"
  by (induction xs) (auto simp: le_SucI)

lemma base_map:
  assumes base: "compare_base s" and jobs: "cm_jobs s' = map g (filter Q (cm_jobs s))"
    and requests: "length (cm_requests s') \<le> length (cm_requests s)"
    and entry: "\<And>e. e \<in> set (cm_jobs s) \<Longrightarrow>
      ce_job (g e) = ce_job e \<and> (ce_active (g e) \<longrightarrow> ce_active e) \<and> involves (g e) = involves e
      \<and> comparison_entry_ok (g e)"
  shows "compare_base s'"
proof -
  have "map ce_job (cm_jobs s') = map ce_job (filter Q (cm_jobs s))"
    using entry by (auto simp: jobs)
  then have "distinct (map ce_job (cm_jobs s'))"
    using compare_baseD(1) [OF base] by (simp add: distinct_map_filter)
  moreover have "list_all comparison_entry_ok (cm_jobs s')"
    using entry by (auto simp: jobs list_all_iff)
  moreover have "apart (cm_jobs s')"
    unfolding apart_def
  proof (intro ballI allI impI)
    fix a b c
    assume ab: "a \<in> set (cm_jobs s')" "b \<in> set (cm_jobs s')" "ce_active a" "ce_active b"
      "involves a c" "involves b c"
    then obtain e f where "e \<in> set (cm_jobs s)" "a = g e" "f \<in> set (cm_jobs s)" "b = g f"
      by (auto simp: jobs)
    then have "e = f"
      using ab entry [of e] entry [of f] compare_baseD(4) [OF base] unfolding apart_def by metis
    with \<open>a = g e\<close> \<open>b = g f\<close> show "a = b" by simp
  qed
  moreover have "active_comparisons s' = length (filter (\<lambda>e. Q e \<and> ce_active (g e)) (cm_jobs s))"
    by (simp add: active_comparisons_def jobs filter_map o_def conj_commute)
  moreover have "\<dots> \<le> active_comparisons s"
    unfolding active_comparisons_def using entry by (intro length_filter_mono) blast
  ultimately show ?thesis
    using compare_baseD(3,5) [OF base] requests by (simp add: compare_base_def)
qed

lemma calm_base:
  assumes "calm now s s'" "compare_base s"
  shows "compare_base s'"
proof -
  obtain Q g P where *: "cm_jobs s' = map g (filter Q (cm_jobs s))"
      "\<And>e. e \<in> set (cm_jobs s) \<Longrightarrow> entry_calm e (g e)" "cm_requests s' = filter P (cm_requests s)"
    using assms(1) unfolding calm_def by blast
  show ?thesis
  proof (rule base_map [OF assms(2) *(1)])
    fix e
    assume "e \<in> set (cm_jobs s)"
    from *(2) [OF this] compare_baseD(2) [OF assms(2) this]
    show "ce_job (g e) = ce_job e \<and> (ce_active (g e) \<longrightarrow> ce_active e) \<and> involves (g e) = involves e
      \<and> comparison_entry_ok (g e)"
      by (simp add: entry_calm_ok) (simp add: entry_calm_def involves_def fun_eq_iff)
  qed (simp add: *(3) length_filter_le)
qed

lemma calm_tidy:
  assumes "calm now s s'" "tidy s"
  shows "tidy s'"
proof -
  obtain Q g where *: "cm_jobs s' = map g (filter Q (cm_jobs s))"
      "\<And>e. e \<in> set (cm_jobs s) \<Longrightarrow> entry_calm e (g e)"
    using assms(1) unfolding calm_def by blast
  have "inactive_count (cm_jobs s') = length (filter (\<lambda>e. Q e \<and> \<not> ce_active e) (cm_jobs s))"
    unfolding *(1) inactive_count_def using *(2)
    by (auto simp: filter_map o_def entry_calm_def conj_commute intro!: arg_cong [where f = length] filter_cong)
  moreover have "length (filter (\<lambda>e. Q e \<and> \<not> ce_active e) (cm_jobs s)) \<le> inactive_count (cm_jobs s)"
    using length_filter_le [of Q "filter (\<lambda>e. \<not> ce_active e) (cm_jobs s)"]
    by (simp add: inactive_count_def conj_commute)
  moreover have "\<forall>e\<in>set (cm_jobs s'). ce_invalidated e \<longrightarrow> ce_active e"
    using assms(2) *(2) by (auto simp: *(1) tidy_def entry_calm_def)
  ultimately show ?thesis
    using assms(2) by (simp add: tidy_def)
qed

lemma calm_ok: "calm now s s' \<Longrightarrow> compare_ok s \<Longrightarrow> compare_ok s'"
  by (auto simp: compare_ok_def intro: calm_base calm_tidy)

lemma prune_calm:
  assumes "distinct (map ce_job (cm_jobs s))"
  shows "calm now s (prune_comparisons now s)"
proof -
  have "distinct (filter (kept_comparison now) (cm_jobs s))"
    using assms by (simp add: distinct_map)
  then obtain Q where Q: "evict_terminal (filter (kept_comparison now) (cm_jobs s))
      = filter Q (filter (kept_comparison now) (cm_jobs s))" "\<And>e. ce_active e \<Longrightarrow> Q e"
    using evict_terminal_filter by metis
  show ?thesis
    by (rule calmI [where g = id and Q = "\<lambda>e. Q e \<and> kept_comparison now e"
          and P = "\<lambda>r. now - rr_created r < RESULT_TTL"])
      (simp_all add: prune_comparisons_def Q conj_commute kept_comparison_def)
qed

lemma prune_drops_invalidated:
  assumes "distinct (map ce_job (cm_jobs s))" "e \<in> set (cm_jobs (prune_comparisons now s))"
  shows "e \<in> set (cm_jobs s)" "ce_active e \<or> \<not> ce_invalidated e"
proof -
  obtain Q where "evict_terminal (filter (kept_comparison now) (cm_jobs s))
      = filter Q (filter (kept_comparison now) (cm_jobs s))"
    using evict_terminal_filter [of "filter (kept_comparison now) (cm_jobs s)"] assms(1)
    by (auto simp: distinct_map)
  with assms(2) show "e \<in> set (cm_jobs s)" "ce_active e \<or> \<not> ce_invalidated e"
    by (auto simp: prune_comparisons_def kept_comparison_def)
qed

lemma prune_tidy: "distinct (map ce_job (cm_jobs s)) \<Longrightarrow> tidy (prune_comparisons now s)"
  using prune_drops_invalidated(2)
  by (auto simp: tidy_def prune_comparisons_def evict_terminal_count)

lemma pruned_ok: "compare_base s \<Longrightarrow> compare_ok (prune_comparisons now s)"
  by (simp add: compare_ok_def calm_base [OF prune_calm] prune_tidy compare_baseD(1))

lemma ok_distinct: "compare_ok s \<Longrightarrow> distinct (map ce_job (cm_jobs s))"
  by (rule compare_baseD(1) [OF compare_okD(1)])

lemma calm_update_job:
  assumes "distinct (map ce_job (cm_jobs s))" "\<And>e. P e \<Longrightarrow> ce_job e = j"
    "\<And>e. e \<in> set (cm_jobs s) \<Longrightarrow> P e \<Longrightarrow> entry_calm e (f e)"
  shows "calm now s (s\<lparr>cm_jobs := update_first P f (cm_jobs s)\<rparr>)"
  using assms by (intro calm_entries [where g = "\<lambda>e. if P e then f e else e"])
    (simp_all add: update_first_map [OF assms(1), of P j])

lemma stop_calm:
  assumes "compare_ok s"
  shows "calm now s (stop_comparison j reason s)"
  unfolding stop_comparison_def
  by (rule calm_update_job [OF ok_distinct [OF assms], where j = j])
    (simp_all add: stop_entry_def entry_calm_def split: option.splits)

definition working_phase :: "status_state \<Rightarrow> bool" where
  "working_phase p \<longleftrightarrow> p \<in> {StateResolving, StateReadingSource, StateReadingTarget, StateReadingBoth, StateComparing}"

lemma progress_calm:
  assumes "compare_ok s" "working_phase p"
  shows "calm now s (comparison_progress j p m n s)"
  unfolding comparison_progress_def
  by (rule calm_update_job [OF ok_distinct [OF assms(1)], where j = j])
    (use assms(2) in \<open>auto simp: entry_calm_def working_phase_def\<close>)

lemma get_calm: "compare_ok s \<Longrightarrow> get_comparison now j s = (r, s') \<Longrightarrow> calm now s s'"
  by (auto simp: get_comparison_def Let_def intro: prune_calm ok_distinct)

lemma list_calm: "compare_ok s \<Longrightarrow> list_comparisons now s = (r, s') \<Longrightarrow> calm now s s'"
  by (auto simp: list_comparisons_def Let_def intro: prune_calm ok_distinct)

lemma cancel_calm: "compare_ok s \<Longrightarrow> cancel_comparison now j s = (r, s') \<Longrightarrow> calm now s s'"
  unfolding cancel_comparison_def
  by (metis calm_ok calm_trans get_calm stop_calm)

lemma release_calm: "release_comparison j s = (r, s') \<Longrightarrow> calm now s s'"
proof -
  assume *: "release_comparison j s = (r, s')"
  show ?thesis
  proof (cases "list_ex (\<lambda>e. ce_job e = j \<and> ce_active e) (cm_jobs s)")
    case False
    then have "filter (\<lambda>e. ce_job e \<noteq> j) (cm_jobs s)
        = filter (\<lambda>e. ce_active e \<or> ce_job e \<noteq> j) (cm_jobs s)"
      by (intro filter_cong) (auto simp: list_ex_iff)
    with False have "s' = s\<lparr>cm_jobs := map id (filter (\<lambda>e. ce_active e \<or> ce_job e \<noteq> j) (cm_jobs s))\<rparr>"
      using * by (simp add: release_comparison_def)
    then show ?thesis
      by (intro calmI [where g = id and Q = "\<lambda>e. ce_active e \<or> ce_job e \<noteq> j" and P = "\<lambda>_. True"]) simp_all
  qed (use * in \<open>simp add: release_comparison_def\<close>)
qed

lemma validate_result_calm: "compare_ok s \<Longrightarrow> validate_result now r s = (x, s') \<Longrightarrow> calm now s s'"
  by (auto simp: validate_result_def Let_def intro: prune_calm ok_distinct)

lemma set_responses_calm [simp]: "calm now s (set_responses slots s)"
  by (rule calm_same) (simp_all add: set_responses_def Let_def)

lemma encode_read_calm: "encode_read page_text now i r s = (x, s') \<Longrightarrow> calm now s s'"
  by (rule calm_same) (auto simp: encode_read_def split: sum.splits prod.splits)

lemma read_calm:
  assumes "compare_ok s" "read_result page_text now session transport i r s = (x, s')"
  shows "calm now s s'"
proof -
  obtain y s1 where s1: "encode_read page_text now i r (prune_comparisons now s) = (y, s1)"
    by force
  have "calm now (prune_comparisons now s) s1" by (rule encode_read_calm [OF s1])
  then have "calm now s s1"
    using prune_calm [OF ok_distinct [OF assms(1)]] by (rule calm_trans [rotated])
  moreover have "calm now s1 s' \<or> s' = s"
    using assms(2) s1
    by (auto simp: read_result_def intro!: calm_same split: sum.splits prod.splits)
  ultimately show ?thesis using calm_trans by auto
qed

lemma acknowledge_calm: "acknowledge session transport i s = (r, s') \<Longrightarrow> calm now s s'"
  by (auto simp: acknowledge_def split: sum.splits prod.splits)

lemma document_load_calm: "calm now s (transport_document_load t w e s)"
proof -
  have "calm now s (s1\<lparr>cm_transports := x\<rparr>)" if "s1 = set_responses slots s" for s1 slots x
    unfolding that by (rule calm_same) (simp_all add: set_responses_def Let_def)
  then show ?thesis by (auto simp: transport_document_load_def Let_def)
qed

lemma destroyed_calm: "calm now s (transport_destroyed w s)"
  by (rule calm_same) (simp_all add: transport_destroyed_def set_responses_def Let_def)

section \<open>Starting\<close>

lemma start_none_calm:
  assumes "compare_ok s0" "start_comparison now wall job result timeout r s0 = (x, None, s')"
  shows "calm now s0 s'"
proof -
  let ?s = "prune_comparisons now s0"
  have pruned: "calm now s0 ?s" using assms(1) by (intro prune_calm ok_distinct)
  have "s' = s0 \<or> calm now ?s s'"
    using assms(2)
    by (auto simp: start_comparison_def Let_def intro: calm_same split: sum.splits option.splits if_splits prod.splits)
  with pruned show ?thesis by (auto intro: calm_trans)
qed

definition admitted :: "nat \<Rightarrow> string \<Rightarrow> start_request \<Rightarrow> budget \<Rightarrow> compare_manager \<Rightarrow> compare_manager" where
  "admitted now job r b s =
     s\<lparr>cm_budget := b,
       cm_requests := cm_requests s @ [\<lparr>rr_request = r, rr_job_id = job, rr_created = now\<rparr>],
       cm_jobs := cm_jobs s @ [new_entry s job r],
       cm_dones := (cm_dones s)(job := False)\<rparr>"

lemma start_some:
  assumes "start_comparison now wall job result timeout r s0 = (x, Some ctx, s')"
  defines "s \<equiv> prune_comparisons now s0"
  shows "\<exists>b. s' = admitted now job r b s"
    "cc_request ctx = r" "cc_identity ctx = \<lparr>ri_job_id = job, ri_result_id = result\<rparr>"
    "cc_deadline ctx = now + timeout" "fresh_request wall r"
    "\<forall>q\<in>set (cm_requests s). sq_request_id (rr_request q) \<noteq> sq_request_id r"
    "\<not> admission_blocked s (request_ids r)" "\<not> capacity_taken s (request_ids r)"
    "x = Inr (new_status job r)"
proof -
  have valid: "validate_request r = Inr ()"
    using assms(1) by (cases "validate_request r") (simp_all add: start_comparison_def)
  have unknown: "find (\<lambda>x. sq_request_id (rr_request x) = sq_request_id r) (cm_requests s) = None"
    using assms(1) valid
    by (auto simp: start_comparison_def Let_def s_def split: option.splits if_splits)
  then show "\<forall>q\<in>set (cm_requests s). sq_request_id (rr_request q) \<noteq> sq_request_id r"
    by (simp add: find_None_iff)
  from assms(1) valid unknown
  show guards: "fresh_request wall r" "\<not> admission_blocked s (request_ids r)"
    "\<not> capacity_taken s (request_ids r)"
    by (simp_all add: start_comparison_def Let_def s_def split: if_splits)
  obtain l b where lb: "scratch WORKER_SCRATCH (cm_budget s) = (l, b)" by force
  then obtain lease where "l = Inr lease"
    using assms(1) valid unknown guards by (cases l) (simp_all add: start_comparison_def Let_def s_def)
  with assms(1) valid unknown guards lb
  have "x = Inr (new_status job r)" "s' = admitted now job r b s"
    "ctx = \<lparr>cc_identity = \<lparr>ri_job_id = job, ri_result_id = result\<rparr>, cc_request = r,
            cc_deadline = now + timeout, cc_scratch = lease\<rparr>"
    by (simp_all add: start_comparison_def Let_def s_def admitted_def)
  then show "\<exists>b. s' = admitted now job r b s"
    "cc_request ctx = r" "cc_identity ctx = \<lparr>ri_job_id = job, ri_result_id = result\<rparr>"
    "cc_deadline ctx = now + timeout" "x = Inr (new_status job r)"
    by auto
qed

lemma new_entry_fields [simp]:
  "ce_job (new_entry s job r) = job" "ce_active (new_entry s job r)"
  "\<not> ce_invalidated (new_entry s job r)" "\<not> ce_cancel (new_entry s job r)"
  "ce_result (new_entry s job r) = None" "ce_stop_reason (new_entry s job r) = None"
  "st_source (ce_status (new_entry s job r)) = sq_source r"
  "st_target (ce_status (new_entry s job r)) = sq_target r"
  "ce_finished (new_entry s job r) = None" "\<not> completed (new_entry s job r) rid"
  by (simp_all add: new_entry_def new_status_def)

lemma new_entry_involves: "involves (new_entry s job r) c \<longleftrightarrow> c \<in> set (request_ids r)"
  by (auto simp: involves_def request_ids_def)

lemma admitted_ok:
  assumes "compare_ok s" "job \<notin> set (map ce_job (cm_jobs s))" "\<not> capacity_taken s (request_ids r)"
  shows "compare_ok (admitted now job r b s)"
proof -
  note base = compare_okD(1) [OF assms(1)]
  have free: "\<not> (ce_active e \<and> involves e c \<and> c \<in> set (request_ids r))" if "e \<in> set (cm_jobs s)" for e c
    using assms(3) that by (auto simp: capacity_taken_def list_ex_iff)
  have "apart (cm_jobs s @ [new_entry s job r])"
    unfolding apart_def
  proof (intro ballI allI impI)
    fix e e' c
    assume "e \<in> set (cm_jobs s @ [new_entry s job r])" "e' \<in> set (cm_jobs s @ [new_entry s job r])"
      "ce_active e" "ce_active e'" "involves e c" "involves e' c"
    moreover have "x \<in> set (cm_jobs s) \<or> c \<in> set (request_ids r) \<and> x = new_entry s job r"
      if "x \<in> set (cm_jobs s @ [new_entry s job r])" "involves x c" for x
      using that new_entry_involves by (metis in_set_conv_decomp Un_iff set_append set_ConsD empty_iff list.set(1))
    ultimately show "e = e'"
      using free compare_baseD(4) [OF base] unfolding apart_def by blast
  qed
  moreover have "comparison_entry_ok (new_entry s job r)"
    by (simp add: comparison_entry_ok_def)
  ultimately have "compare_base (admitted now job r b s)"
    using compare_baseD [OF base] assms(2,3)
    by (simp add: compare_base_def admitted_def active_comparisons_def capacity_taken_def list_all_iff)
  moreover have "tidy (admitted now job r b s)"
    using compare_okD(2) [OF assms(1)] by (simp add: tidy_def admitted_def inactive_count_def)
  ultimately show ?thesis by (simp add: compare_ok_def)
qed

section \<open>Finishing\<close>

definition settled_job :: "nat \<Rightarrow> string \<Rightarrow> comparison compare_result \<Rightarrow> compare_manager \<Rightarrow> compare_manager" where
  "settled_job now j result s =
     s\<lparr>cm_jobs := map (\<lambda>e. if ce_job e = j then finish_entry now (final_result s e result) e else e) (cm_jobs s)\<rparr>"

lemma finish_entry_fields [simp]:
  "ce_job (finish_entry now r e) = ce_job e" "\<not> ce_active (finish_entry now r e)"
  "ce_invalidated (finish_entry now r e) = ce_invalidated e"
  "st_source (ce_status (finish_entry now r e)) = st_source (ce_status e)"
  "st_target (ce_status (finish_entry now r e)) = st_target (ce_status e)"
  "ce_finished (finish_entry now r e) = Some now"
  by (simp_all add: finish_entry_def Let_def split: sum.splits compare_error.splits)

lemma finish_entry_result:
  "ce_result (finish_entry now r e) = (case r of Inr c \<Rightarrow> Some c | Inl _ \<Rightarrow> ce_result e)"
  "completed (finish_entry now r e) rid \<longleftrightarrow> (\<exists>c. r = Inr c \<and> ri_result_id (cp_identity c) = rid)"
  by (auto simp: finish_entry_def Let_def split: sum.splits compare_error.splits)

lemma final_result_Inr:
  "final_result s e r = Inr c \<longleftrightarrow> r = Inr c \<and> \<not> stale_entry s e \<and> ce_stop_reason e = None"
  by (auto simp: final_result_def split: option.splits)

lemma comparison_entry_ok_finish:
  assumes "comparison_entry_ok e" "ce_active e"
  shows "comparison_entry_ok (finish_entry now (final_result s e r) e)"
proof (cases "final_result s e r")
  case (Inl x)
  with assms show ?thesis by (simp add: comparison_entry_ok_def finish_entry_result)
next
  case (Inr c)
  then have "\<not> ce_invalidated e" by (simp add: final_result_Inr stale_entry_def)
  with Inr assms show ?thesis by (simp add: comparison_entry_ok_def finish_entry_result)
qed

lemma find_job_Some: "find_job j s = Some e \<Longrightarrow> e \<in> set (cm_jobs s) \<and> ce_job e = j"
  by (auto simp: find_job_def find_Some_iff)

lemma finish_comparison_settled:
  assumes "distinct (map ce_job (cm_jobs s))" "find_job j s \<noteq> None"
  shows "finish_comparison now j r s = prune_comparisons now (settled_job now j r s)"
proof -
  have "update_first (\<lambda>e. ce_job e = j) (\<lambda>e. finish_entry now (final_result s e r) e) (cm_jobs s)
      = map (\<lambda>e. if ce_job e = j then finish_entry now (final_result s e r) e else e) (cm_jobs s)"
    by (rule update_first_map [OF assms(1)]) simp
  with assms(2) show ?thesis
    by (auto simp: finish_comparison_def settled_job_def)
qed

lemma settled_base:
  assumes "compare_base s" "\<And>e. e \<in> set (cm_jobs s) \<Longrightarrow> ce_job e = j \<Longrightarrow> ce_active e"
  shows "compare_base (settled_job now j r s)"
  by (rule base_map [OF assms(1), where Q = "\<lambda>_. True"
        and g = "\<lambda>e. if ce_job e = j then finish_entry now (final_result s e r) e else e"])
    (use assms(2) compare_baseD(2) [OF assms(1)] in
      \<open>simp_all add: settled_job_def involves_def fun_eq_iff comparison_entry_ok_finish\<close>)

section \<open>Tearing down\<close>

definition invalidated :: "string option \<Rightarrow> bool \<Rightarrow> compare_manager \<Rightarrow> compare_manager" where
  "invalidated f g s = s\<lparr>cm_jobs := map (\<lambda>e. if torn_down f g e then invalidate_entry e else e) (cm_jobs s)\<rparr>"

lemma invalidate_entry_fields [simp]:
  "ce_job (invalidate_entry e) = ce_job e" "ce_active (invalidate_entry e) = ce_active e"
  "ce_invalidated (invalidate_entry e)" "ce_result (invalidate_entry e) = None"
  "st_source (ce_status (invalidate_entry e)) = st_source (ce_status e)"
  "st_target (ce_status (invalidate_entry e)) = st_target (ce_status e)"
  "ce_finished (invalidate_entry e) = ce_finished e"
  "ce_active e \<Longrightarrow> ce_cancel (invalidate_entry e)"
  "ce_active e \<Longrightarrow> ce_stop_reason (invalidate_entry e) \<noteq> None"
  "ce_active e \<Longrightarrow> \<not> completed (invalidate_entry e) rid"
  by (auto simp: invalidate_entry_def stop_entry_def Let_def split: option.splits)

lemma comparison_entry_ok_invalidate: "comparison_entry_ok e \<Longrightarrow> comparison_entry_ok (invalidate_entry e)"
  by (auto simp: comparison_entry_ok_def invalidate_entry_def stop_entry_def Let_def split: option.splits)

lemma charge_fence_rest [simp]:
  "cm_jobs (charge_fence f s) = cm_jobs s" "cm_requests (charge_fence f s) = cm_requests s"
  "cm_dones (charge_fence f s) = cm_dones s"
  by (auto simp: charge_fence_def split: option.splits)

lemma teardown_begin_alt:
  "teardown_begin now f s =
     (map ce_job (filter (\<lambda>e. torn_down f (teardown_is_global f s) e \<and> ce_active e) (cm_jobs s)),
      prune_comparisons now (invalidated f (teardown_is_global f s) (charge_fence f s)))"
  by (simp add: teardown_begin_def invalidated_def Let_def)

lemma invalidated_base: "compare_base s \<Longrightarrow> compare_base (invalidated f g s)"
  by (rule base_map [where s = s and Q = "\<lambda>_. True"
        and g = "\<lambda>e. if torn_down f g e then invalidate_entry e else e"])
    (simp_all add: invalidated_def involves_def fun_eq_iff comparison_entry_ok_invalidate compare_baseD(2))

lemma charge_fence_base: "compare_base s \<Longrightarrow> compare_base (charge_fence f s)"
  by (simp add: compare_base_def active_comparisons_def)

lemma compare_held_cong:
  assumes "cm_connections s' = cm_connections s" "cm_global s' = cm_global s"
  shows "compare_held F s' = compare_held F s"
  using assms by (simp add: compare_held_def charged_def connection_scope_def)

lemma calm_held: "calm now s s' \<Longrightarrow> compare_held F s' = compare_held F s"
  by (rule compare_held_cong) (auto simp: calm_def)

end
