(* ===== verification/CompareSystem.thy ===== *)
theory CompareSystem imports CompareFacts begin

text \<open>
  The comparison manager with its workers, supervisors and fences as one system.  A supervisor
  runs beside the worker of its job: it ends with the worker's result, or stops the job when it
  is cancelled or its deadline passes and then waits for the worker.  The steps interleave
  freely; a worker may end at any time and with any result.  The wall clock advances with the
  monotonic clock, from \<open>epoch\<close>.  The budget is left to any other user of it.
\<close>

section \<open>The system\<close>

datatype supervisor_phase =
    Watching
  | Interrupted compare_error
  | Stopping compare_error
  | Signalling
  | Ended

datatype worker_state = Working | Returned "comparison compare_result"

record supervision =
  su_phase :: supervisor_phase
  su_worker :: worker_state
  su_context :: compare_context
  su_started :: nat

record compare_system =
  cs_mgr :: compare_manager
  cs_now :: nat
  cs_sups :: "string \<Rightarrow> supervision option"
  cs_fences :: "(fence \<times> string list) list"

definition compare_system_new :: compare_system where
  "compare_system_new = \<lparr>cs_mgr = compare_new, cs_now = 0, cs_sups = (\<lambda>_. None), cs_fences = []\<rparr>"

definition with_supervision ::
  "string \<Rightarrow> nat \<Rightarrow> compare_context option \<Rightarrow> (string \<Rightarrow> supervision option) \<Rightarrow>
   string \<Rightarrow> supervision option" where
  "with_supervision job now ctx sups =
     (case ctx of None \<Rightarrow> sups
      | Some c \<Rightarrow> sups(job \<mapsto> \<lparr>su_phase = Watching, su_worker = Working, su_context = c, su_started = now\<rparr>))"

definition live :: "supervisor_phase \<Rightarrow> bool" where
  "live p \<longleftrightarrow> (case p of Signalling \<Rightarrow> False | Ended \<Rightarrow> False | _ \<Rightarrow> True)"

definition is_cancelled_job :: "string \<Rightarrow> compare_manager \<Rightarrow> bool" where
  "is_cancelled_job j s = (case find_job j s of None \<Rightarrow> False | Some e \<Rightarrow> ce_cancel e)"

definition set_phase :: "string \<Rightarrow> supervision \<Rightarrow> supervisor_phase \<Rightarrow> compare_system \<Rightarrow> compare_system" where
  "set_phase j su p y = y\<lparr>cs_sups := (cs_sups y)(j \<mapsto> su\<lparr>su_phase := p\<rparr>)\<rparr>"

text \<open>The steps of a job's worker and supervisor.\<close>

inductive job_step :: "string \<Rightarrow> compare_system \<Rightarrow> compare_system \<Rightarrow> bool" where
  worker_progress: "job_step j y (y\<lparr>cs_mgr := comparison_progress j p m n (cs_mgr y)\<rparr>)"
    if "cs_sups y j = Some su" "su_worker su = Working" "working_phase p"
| worker_returns: "job_step j y (y\<lparr>cs_sups := (cs_sups y)(j \<mapsto> su\<lparr>su_worker := Returned r\<rparr>)\<rparr>)"
    if "cs_sups y j = Some su" "su_worker su = Working"
| sees_cancel: "job_step j y (set_phase j su (Interrupted CompareCancelled) y)"
    if "cs_sups y j = Some su" "su_phase su = Watching" "is_cancelled_job j (cs_mgr y)"
| sees_deadline: "job_step j y (set_phase j su (Interrupted CompareDeadlineExceeded) y)"
    if "cs_sups y j = Some su" "su_phase su = Watching" "cc_deadline (su_context su) \<le> cs_now y"
| collects: "job_step j y
      (set_phase j su Signalling (y\<lparr>cs_mgr := finish_comparison (cs_now y) j r (cs_mgr y)\<rparr>))"
    if "cs_sups y j = Some su" "su_phase su = Watching" "su_worker su = Returned r"
| stops: "job_step j y (set_phase j su (Stopping e) (y\<lparr>cs_mgr := stop_comparison j e (cs_mgr y)\<rparr>))"
    if "cs_sups y j = Some su" "su_phase su = Interrupted e"
| joins: "job_step j y
      (set_phase j su Signalling (y\<lparr>cs_mgr := finish_comparison (cs_now y) j (Inl e) (cs_mgr y)\<rparr>))"
    if "cs_sups y j = Some su" "su_phase su = Stopping e" "su_worker su = Returned r"
| signals: "job_step j y (set_phase j su Ended (y\<lparr>cs_mgr := signal_done j (cs_mgr y)\<rparr>))"
    if "cs_sups y j = Some su" "su_phase su = Signalling"

text \<open>
  The steps of callers and of fences.  A fence ends after the teardown that began it has waited
  for its jobs.
\<close>

inductive compare_step :: "int \<Rightarrow> compare_system \<Rightarrow> compare_system \<Rightarrow> bool" for epoch where
  time_passes: "compare_step epoch y (y\<lparr>cs_now := t\<rparr>)"
    if "cs_now y \<le> t"
| budget_changes: "compare_step epoch y (y\<lparr>cs_mgr := (cs_mgr y)\<lparr>cm_budget := b\<rparr>\<rparr>)"
| caller_starts: "compare_step epoch y
      (y\<lparr>cs_mgr := s, cs_sups := with_supervision job (cs_now y) ctx (cs_sups y)\<rparr>)"
    if "cs_sups y job = None"
      "start_comparison (cs_now y) (epoch + int (cs_now y)) job result JOB_DEADLINE r (cs_mgr y) = (x, ctx, s)"
| caller_gets: "compare_step epoch y (y\<lparr>cs_mgr := s\<rparr>)"
    if "get_comparison (cs_now y) j (cs_mgr y) = (x, s)"
| caller_lists: "compare_step epoch y (y\<lparr>cs_mgr := s\<rparr>)"
    if "list_comparisons (cs_now y) (cs_mgr y) = (xs, s)"
| caller_cancels: "compare_step epoch y (y\<lparr>cs_mgr := s\<rparr>)"
    if "cancel_comparison (cs_now y) j (cs_mgr y) = (x, s)"
| caller_releases: "compare_step epoch y (y\<lparr>cs_mgr := s\<rparr>)"
    if "release_comparison j (cs_mgr y) = (x, s)"
| caller_validates: "compare_step epoch y (y\<lparr>cs_mgr := s\<rparr>)"
    if "validate_result (cs_now y) q (cs_mgr y) = (x, s)"
| caller_reads: "compare_step epoch y (y\<lparr>cs_mgr := s\<rparr>)"
    if "read_result page_text (cs_now y) session transport i q (cs_mgr y) = (x, s)"
| caller_acknowledges: "compare_step epoch y (y\<lparr>cs_mgr := s\<rparr>)"
    if "acknowledge session transport i (cs_mgr y) = (x, s)"
| document_loads: "compare_step epoch y (y\<lparr>cs_mgr := transport_document_load t w e (cs_mgr y)\<rparr>)"
| window_closes: "compare_step epoch y (y\<lparr>cs_mgr := transport_destroyed w (cs_mgr y)\<rparr>)"
| job_moves: "compare_step epoch y y'"
    if "job_step j y y'"
| fence_begins: "compare_step epoch y (y\<lparr>cs_mgr := s, cs_fences := (f, ws) # cs_fences y\<rparr>)"
    if "teardown_begin (cs_now y) f (cs_mgr y) = (ws, s)"
| fence_ends: "compare_step epoch y
      (y\<lparr>cs_mgr := end_fence f (cs_mgr y), cs_fences := remove1 (f, ws) (cs_fences y)\<rparr>)"
    if "(f, ws) \<in> set (cs_fences y)" "\<not> fence_waits ws (cs_mgr y)"

inductive compare_reachable :: "int \<Rightarrow> compare_system \<Rightarrow> bool" for epoch where
  starts_empty: "compare_reachable epoch compare_system_new"
| moves_on: "compare_reachable epoch y'" if "compare_reachable epoch y" "compare_step epoch y y'"

inductive_cases job_stepE: "job_step j y y'"
inductive_cases compare_stepE: "compare_step epoch y y'"

section \<open>The invariant of the system\<close>

abbreviation su_request :: "supervision \<Rightarrow> start_request" where
  "su_request su \<equiv> cc_request (su_context su)"

definition torn :: "fence \<Rightarrow> compare_entry \<Rightarrow> bool" where
  "torn f e \<longleftrightarrow> (case f of None \<Rightarrow> True | Some c \<Rightarrow> involves e c)"

definition entries_follow :: "compare_system \<Rightarrow> bool" where
  "entries_follow y \<longleftrightarrow>
     (\<forall>e\<in>set (cm_jobs (cs_mgr y)). \<exists>su. cs_sups y (ce_job e) = Some su
        \<and> st_source (ce_status e) = sq_source (su_request su)
        \<and> st_target (ce_status e) = sq_target (su_request su)
        \<and> ce_active e = live (su_phase su)
        \<and> (\<forall>c. ce_result e = Some c \<longrightarrow> su_worker su = Returned (Inr c)))"

definition sups_follow :: "compare_system \<Rightarrow> bool" where
  "sups_follow y \<longleftrightarrow>
     (\<forall>j su. cs_sups y j = Some su \<longrightarrow>
        (live (su_phase su) \<longrightarrow> (\<exists>e\<in>set (cm_jobs (cs_mgr y)). ce_job e = j))
        \<and> (\<not> live (su_phase su) \<longrightarrow> su_worker su \<noteq> Working)
        \<and> (cm_dones (cs_mgr y) j \<longrightarrow> su_phase su = Ended))"

definition fences_follow :: "compare_system \<Rightarrow> bool" where
  "fences_follow y \<longleftrightarrow> compare_held (mset (map fst (cs_fences y))) (cs_mgr y)
     \<and> (\<forall>(f, ws)\<in>set (cs_fences y). \<forall>e\<in>set (cm_jobs (cs_mgr y)).
          torn f e \<longrightarrow> ce_invalidated e \<and> (ce_active e \<longrightarrow> ce_job e \<in> set ws))"

definition requests_follow :: "int \<Rightarrow> compare_system \<Rightarrow> bool" where
  "requests_follow epoch y \<longleftrightarrow>
     (\<forall>j su. cs_sups y j = Some su \<longrightarrow> su_started su \<le> cs_now y
        \<and> fresh_request (epoch + int (su_started su)) (su_request su)
        \<and> (cs_now y - su_started su < RESULT_TTL \<longrightarrow>
             (\<exists>r\<in>set (cm_requests (cs_mgr y)). rr_request r = su_request su)))
     \<and> (\<forall>r\<in>set (cm_requests (cs_mgr y)). rr_created r \<le> cs_now y \<and>
          (\<exists>su. cs_sups y (rr_job_id r) = Some su \<and> su_request su = rr_request r \<and> su_started su = rr_created r))
     \<and> (\<forall>j k a b. cs_sups y j = Some a \<longrightarrow> cs_sups y k = Some b \<longrightarrow>
          sq_request_id (su_request a) = sq_request_id (su_request b) \<longrightarrow> j = k)"

definition core_ok :: "int \<Rightarrow> compare_system \<Rightarrow> bool" where
  "core_ok epoch y \<longleftrightarrow> compare_base (cs_mgr y) \<and> entries_follow y \<and> sups_follow y
     \<and> fences_follow y \<and> requests_follow epoch y"

definition compare_system_ok :: "int \<Rightarrow> compare_system \<Rightarrow> bool" where
  "compare_system_ok epoch y \<longleftrightarrow> core_ok epoch y \<and> tidy (cs_mgr y)"

lemma core_okD:
  assumes "core_ok epoch y"
  shows "compare_base (cs_mgr y)" "entries_follow y" "sups_follow y" "fences_follow y"
    "requests_follow epoch y"
  using assms by (simp_all add: core_ok_def)

lemma compare_system_okD:
  assumes "compare_system_ok epoch y"
  shows "core_ok epoch y" "tidy (cs_mgr y)" "compare_ok (cs_mgr y)"
  using assms by (simp_all add: compare_system_ok_def core_ok_def compare_ok_def)

lemma entries_followE:
  assumes "entries_follow y" "e \<in> set (cm_jobs (cs_mgr y))"
  obtains su where "cs_sups y (ce_job e) = Some su" "st_source (ce_status e) = sq_source (su_request su)"
    "st_target (ce_status e) = sq_target (su_request su)" "ce_active e = live (su_phase su)"
    "\<forall>c. ce_result e = Some c \<longrightarrow> su_worker su = Returned (Inr c)"
  using assms unfolding entries_follow_def by blast

lemma torn_calm: "entry_calm e e' \<Longrightarrow> torn f e' = torn f e"
  by (cases f) (simp_all add: torn_def entry_calm_involves)

section \<open>Calm changes keep the invariant\<close>

lemma calm_entries_follow:
  assumes "calm now (cs_mgr y) s" "entries_follow y"
  shows "entries_follow (y\<lparr>cs_mgr := s\<rparr>)"
  unfolding entries_follow_def
proof
  fix e'
  assume "e' \<in> set (cm_jobs (cs_mgr (y\<lparr>cs_mgr := s\<rparr>)))"
  then obtain e where e: "e \<in> set (cm_jobs (cs_mgr y))" "entry_calm e e'"
    using calm_find [OF assms(1)] by auto
  obtain su where "cs_sups y (ce_job e) = Some su" "st_source (ce_status e) = sq_source (su_request su)"
    "st_target (ce_status e) = sq_target (su_request su)" "ce_active e = live (su_phase su)"
    "\<forall>c. ce_result e = Some c \<longrightarrow> su_worker su = Returned (Inr c)"
    using entries_followE [OF assms(2) e(1)] .
  with e(2) show "\<exists>su. cs_sups (y\<lparr>cs_mgr := s\<rparr>) (ce_job e') = Some su
      \<and> st_source (ce_status e') = sq_source (su_request su)
      \<and> st_target (ce_status e') = sq_target (su_request su)
      \<and> ce_active e' = live (su_phase su)
      \<and> (\<forall>c. ce_result e' = Some c \<longrightarrow> su_worker su = Returned (Inr c))"
    by (simp add: entry_calm_def)
qed

lemma live_entry:
  assumes "core_ok epoch y" "cs_sups y j = Some su" "live (su_phase su)"
  obtains e where "e \<in> set (cm_jobs (cs_mgr y))" "ce_job e = j" "ce_active e"
proof -
  obtain e where e: "e \<in> set (cm_jobs (cs_mgr y))" "ce_job e = j"
    using core_okD(3) [OF assms(1)] assms(2,3) unfolding sups_follow_def by blast
  moreover have "ce_active e"
    using entries_followE [OF core_okD(2) [OF assms(1)] e(1)] e(2) assms(2,3) by fastforce
  ultimately show ?thesis by (rule that)
qed

lemma calm_sups_follow:
  assumes "calm now (cs_mgr y) s" "core_ok epoch y"
  shows "sups_follow (y\<lparr>cs_mgr := s\<rparr>)"
  unfolding sups_follow_def
proof (intro allI impI)
  fix j su
  assume su: "cs_sups (y\<lparr>cs_mgr := s\<rparr>) j = Some su"
  have "\<exists>e\<in>set (cm_jobs s). ce_job e = j" if "live (su_phase su)"
  proof -
    from su have "cs_sups y j = Some su" by simp
    from live_entry [OF assms(2) this that] obtain e where
      e: "e \<in> set (cm_jobs (cs_mgr y))" "ce_job e = j" "ce_active e" .
    from calm_keeps_active [OF assms(1) e(1,3)] e(2) show ?thesis
      by (metis entry_calm_def)
  qed
  moreover have "cm_dones s = cm_dones (cs_mgr y)"
    using assms(1) by (simp add: calm_def)
  ultimately show "(live (su_phase su) \<longrightarrow> (\<exists>e\<in>set (cm_jobs (cs_mgr (y\<lparr>cs_mgr := s\<rparr>))). ce_job e = j))
        \<and> (\<not> live (su_phase su) \<longrightarrow> su_worker su \<noteq> Working)
        \<and> (cm_dones (cs_mgr (y\<lparr>cs_mgr := s\<rparr>)) j \<longrightarrow> su_phase su = Ended)"
    using core_okD(3) [OF assms(2)] su by (simp add: sups_follow_def)
qed

lemma calm_fences_follow:
  assumes "calm now (cs_mgr y) s" "fences_follow y"
  shows "fences_follow (y\<lparr>cs_mgr := s\<rparr>)"
proof -
  have "ce_invalidated e' \<and> (ce_active e' \<longrightarrow> ce_job e' \<in> set ws)"
    if "(f, ws) \<in> set (cs_fences y)" "e' \<in> set (cm_jobs s)" "torn f e'" for f ws e'
  proof -
    from calm_find [OF assms(1) that(2)]
    obtain e where e: "e \<in> set (cm_jobs (cs_mgr y))" "entry_calm e e'" .
    with assms(2) that torn_calm [OF e(2)] have "ce_invalidated e \<and> (ce_active e \<longrightarrow> ce_job e \<in> set ws)"
      unfolding fences_follow_def by blast
    with e(2) show ?thesis by (simp add: entry_calm_def)
  qed
  then show ?thesis
    using assms by (auto simp: fences_follow_def calm_held)
qed

lemma calm_requests_follow:
  assumes "calm (cs_now y) (cs_mgr y) s" "requests_follow epoch y"
  shows "requests_follow epoch (y\<lparr>cs_mgr := s\<rparr>)"
proof -
  obtain P where P: "cm_requests s = filter P (cm_requests (cs_mgr y))"
      "\<And>r. \<not> P r \<Longrightarrow> RESULT_TTL \<le> cs_now y - rr_created r"
    using assms(1) unfolding calm_def by blast
  have "\<exists>r\<in>set (cm_requests s). rr_request r = su_request su"
    if "cs_sups y j = Some su" "cs_now y - su_started su < RESULT_TTL" for j su
  proof -
    from assms(2) that obtain r where r: "r \<in> set (cm_requests (cs_mgr y))" "rr_request r = su_request su"
      unfolding requests_follow_def by blast
    with assms(2) obtain k where k: "cs_sups y (rr_job_id r) = Some k" "su_request k = rr_request r"
        "su_started k = rr_created r"
      unfolding requests_follow_def by blast
    with r assms(2) that(1) have "rr_job_id r = j"
      unfolding requests_follow_def by metis
    with k that have "rr_created r = su_started su" by simp
    with that(2) P(2) [of r] have "P r" by (metis not_less)
    with r P(1) show ?thesis by auto
  qed
  with assms(2) P(1) show ?thesis
    unfolding requests_follow_def by auto
qed

lemma calm_core:
  assumes "core_ok epoch y" "calm (cs_now y) (cs_mgr y) s"
  shows "core_ok epoch (y\<lparr>cs_mgr := s\<rparr>)"
proof -
  have "compare_base s" by (rule calm_base [OF assms(2) core_okD(1) [OF assms(1)]])
  then show ?thesis
    unfolding core_ok_def
    using calm_entries_follow [OF assms(2) core_okD(2) [OF assms(1)]] calm_sups_follow [OF assms(2,1)]
      calm_fences_follow [OF assms(2) core_okD(4) [OF assms(1)]]
      calm_requests_follow [OF assms(2) core_okD(5) [OF assms(1)]] by simp
qed

lemma calm_system:
  assumes "compare_system_ok epoch y" "calm (cs_now y) (cs_mgr y) s"
  shows "compare_system_ok epoch (y\<lparr>cs_mgr := s\<rparr>)"
  using calm_core [OF compare_system_okD(1) [OF assms(1)] assms(2)]
    calm_tidy [OF assms(2) compare_system_okD(2) [OF assms(1)]]
  by (simp add: compare_system_ok_def)

lemma prune_system:
  assumes "core_ok epoch y"
  shows "compare_system_ok epoch (y\<lparr>cs_mgr := prune_comparisons (cs_now y) (cs_mgr y)\<rparr>)"
  using calm_core [OF assms prune_calm] prune_tidy compare_baseD(1) [OF core_okD(1) [OF assms]]
  by (simp add: compare_system_ok_def)

section \<open>Starting a job\<close>

lemma fresh_window:
  assumes "fresh_request w a" "fresh_request w' b" "sq_request_id a = sq_request_id b"
  shows "w' - w < 65000"
proof -
  obtain ms nonce v where *: "split_once (CHR '':'') (sq_request_id a) = Some (ms, nonce)" "parse_i64 ms = Some v"
    "-5000 \<le> saturating_sub_i64 w v" "saturating_sub_i64 w' v < 60000"
    using assms by (auto simp: fresh_request_def Let_def split: option.splits)
  from *(3) have "-5000 \<le> w - v" by (auto simp: saturating_sub_i64_def i64_max_def i64_min_def)
  moreover from *(4) have "w' - v < 60000" by (auto simp: saturating_sub_i64_def i64_max_def i64_min_def)
  ultimately show ?thesis by linarith
qed

lemma fresh_job:
  assumes "entries_follow y" "cs_sups y job = None"
  shows "job \<notin> set (map ce_job (cm_jobs (cs_mgr y)))"
proof
  assume "job \<in> set (map ce_job (cm_jobs (cs_mgr y)))"
  then obtain e where "e \<in> set (cm_jobs (cs_mgr y))" "ce_job e = job" by auto
  with entries_followE [OF assms(1)] obtain su where "cs_sups y job = Some su" by metis
  with assms(2) show False by simp
qed

lemma blocked_mono: "admission_blocked s [c] \<Longrightarrow> c \<in> set ids \<Longrightarrow> admission_blocked s ids"
  by (auto simp: admission_blocked_def list_ex_iff)

lemma unblocked_covers:
  assumes "fences_follow y" "\<not> admission_blocked (cs_mgr y) ids" "(f, ws) \<in> set (cs_fences y)" "c \<in> set ids"
  shows "\<not> covers f c"
proof
  assume "covers f c"
  moreover have "f \<in># mset (map fst (cs_fences y))"
    using assms(3) by force
  ultimately have "compare_blocked (cs_mgr y) c"
    using assms(1) compare_held_blocked unfolding fences_follow_def by blast
  with blocked_mono assms(2,4) show False by blast
qed

abbreviation newly_started :: "string \<Rightarrow> start_request \<Rightarrow> budget \<Rightarrow> supervision \<Rightarrow> compare_system \<Rightarrow> compare_system" where
  "newly_started job r b su y \<equiv>
     y\<lparr>cs_mgr := admitted (cs_now y) job r b (cs_mgr y), cs_sups := (cs_sups y)(job \<mapsto> su)\<rparr>"

lemma admitted_fields [simp]:
  "cm_jobs (admitted now job r b s) = cm_jobs s @ [new_entry s job r]"
  "cm_requests (admitted now job r b s) = cm_requests s @ [\<lparr>rr_request = r, rr_job_id = job, rr_created = now\<rparr>]"
  "cm_connections (admitted now job r b s) = cm_connections s"
  "cm_global (admitted now job r b s) = cm_global s"
  "cm_dones (admitted now job r b s) = (cm_dones s)(job := False)"
  by (simp_all add: admitted_def)

lemma started_entries:
  assumes "entries_follow y" "cs_sups y job = None" "su_request su = r" "live (su_phase su)"
  shows "entries_follow (newly_started job r b su y)"
proof -
  have "ce_job e \<noteq> job" if "e \<in> set (cm_jobs (cs_mgr y))" for e
    using fresh_job [OF assms(1,2)] that by auto
  with assms show ?thesis
    unfolding entries_follow_def by auto
qed

lemma started_sups:
  assumes "sups_follow y" "live (su_phase su)"
  shows "sups_follow (newly_started job r b su y)"
  using assms unfolding sups_follow_def by auto

lemma started_fences:
  assumes "fences_follow y" "\<not> admission_blocked (cs_mgr y) (request_ids r)"
  shows "fences_follow (newly_started job r b su y)"
proof -
  have "\<not> torn f (new_entry (cs_mgr y) job r)" if "(f, ws) \<in> set (cs_fences y)" for f ws
    using unblocked_covers [OF assms that]
    by (cases f) (auto simp: torn_def new_entry_involves request_ids_def covers_def)
  moreover have "compare_held F (admitted now job r b s) = compare_held F s" for F now s
    by (rule compare_held_cong) simp_all
  ultimately show ?thesis
    using assms(1) unfolding fences_follow_def by auto
qed

lemma started_requests:
  assumes "requests_follow epoch y" "cs_sups y job = None" "su_request su = r" "su_started su = cs_now y"
    "fresh_request (epoch + int (cs_now y)) r"
    "\<forall>q\<in>set (cm_requests (cs_mgr y)). sq_request_id (rr_request q) \<noteq> sq_request_id r"
  shows "requests_follow epoch (newly_started job r b su y)"
proof -
  have new: "sq_request_id (su_request a) \<noteq> sq_request_id r" if "cs_sups y j = Some a" for j a
  proof
    assume same: "sq_request_id (su_request a) = sq_request_id r"
    from assms(1) that have a: "su_started a \<le> cs_now y" "fresh_request (epoch + int (su_started a)) (su_request a)"
      "cs_now y - su_started a < RESULT_TTL \<longrightarrow>
         (\<exists>q\<in>set (cm_requests (cs_mgr y)). rr_request q = su_request a)"
      unfolding requests_follow_def by blast+
    from fresh_window [OF a(2) assms(5) same] a(1)
    have "cs_now y - su_started a < RESULT_TTL" by (simp add: RESULT_TTL_def)
    with a(3) same assms(6) show False by auto
  qed
  show ?thesis
    unfolding requests_follow_def
  proof (intro conjI)
    show "\<forall>j su'. cs_sups (newly_started job r b su y) j = Some su' \<longrightarrow> su_started su' \<le> cs_now (newly_started job r b su y)
        \<and> fresh_request (epoch + int (su_started su')) (su_request su')
        \<and> (cs_now (newly_started job r b su y) - su_started su' < RESULT_TTL \<longrightarrow>
             (\<exists>q\<in>set (cm_requests (cs_mgr (newly_started job r b su y))). rr_request q = su_request su'))"
      using assms unfolding requests_follow_def by auto
    show "\<forall>q\<in>set (cm_requests (cs_mgr (newly_started job r b su y))). rr_created q \<le> cs_now (newly_started job r b su y) \<and>
          (\<exists>su'. cs_sups (newly_started job r b su y) (rr_job_id q) = Some su' \<and> su_request su' = rr_request q
             \<and> su_started su' = rr_created q)"
    proof
      fix q
      assume "q \<in> set (cm_requests (cs_mgr (newly_started job r b su y)))"
      then consider "q \<in> set (cm_requests (cs_mgr y))" | "q = \<lparr>rr_request = r, rr_job_id = job, rr_created = cs_now y\<rparr>"
        by auto
      then show "rr_created q \<le> cs_now (newly_started job r b su y) \<and>
          (\<exists>su'. cs_sups (newly_started job r b su y) (rr_job_id q) = Some su' \<and> su_request su' = rr_request q
             \<and> su_started su' = rr_created q)"
      proof cases
        case 1
        with assms(1) obtain su' where "cs_sups y (rr_job_id q) = Some su'" "su_request su' = rr_request q"
            "su_started su' = rr_created q" "rr_created q \<le> cs_now y"
          unfolding requests_follow_def by blast
        with assms(2) show ?thesis by auto
      qed (use assms in simp)
    qed
    show "\<forall>j k a b'. cs_sups (newly_started job r b su y) j = Some a \<longrightarrow> cs_sups (newly_started job r b su y) k = Some b' \<longrightarrow>
          sq_request_id (su_request a) = sq_request_id (su_request b') \<longrightarrow> j = k"
    proof (intro allI impI)
      fix j k a b'
      assume *: "cs_sups (newly_started job r b su y) j = Some a" "cs_sups (newly_started job r b su y) k = Some b'"
        "sq_request_id (su_request a) = sq_request_id (su_request b')"
      show "j = k"
        using * new [of j a] new [of k b'] assms(1,3)
        by (cases "j = job"; cases "k = job") (auto simp: requests_follow_def)
    qed
  qed
qed

lemma started_system:
  assumes "compare_system_ok epoch y" "cs_sups y job = None"
    "start_comparison (cs_now y) (epoch + int (cs_now y)) job result timeout r (cs_mgr y) = (x, ctx, s')"
  shows "compare_system_ok epoch (y\<lparr>cs_mgr := s', cs_sups := with_supervision job (cs_now y) ctx (cs_sups y)\<rparr>)"
proof (cases ctx)
  case None
  with assms calm_system [OF assms(1) start_none_calm [OF compare_system_okD(3) [OF assms(1)]]]
  show ?thesis by (simp add: with_supervision_def)
next
  case (Some c)
  let ?s = "prune_comparisons (cs_now y) (cs_mgr y)"
  let ?y = "y\<lparr>cs_mgr := ?s\<rparr>"
  let ?su = "\<lparr>su_phase = Watching, su_worker = Working, su_context = c, su_started = cs_now y\<rparr>"
  note start = start_some [OF assms(3) [unfolded Some]]
  from start(1) obtain b where s': "s' = admitted (cs_now y) job r b ?s" by blast
  have y: "compare_system_ok epoch ?y"
    by (rule prune_system [OF compare_system_okD(1) [OF assms(1)]])
  note core = core_okD [OF compare_system_okD(1) [OF y]]
  have job: "cs_sups ?y job = None" using assms(2) by simp
  have "compare_ok (admitted (cs_now y) job r b ?s)"
    using admitted_ok [of ?s job r] compare_system_okD(3) [OF y] fresh_job [OF core(2) job] start(8) by simp
  moreover have "entries_follow (newly_started job r b ?su ?y)"
    by (rule started_entries [OF core(2) job]) (simp_all add: start(2) live_def)
  moreover have "sups_follow (newly_started job r b ?su ?y)"
    by (rule started_sups [OF core(3)]) (simp_all add: live_def)
  moreover have "fences_follow (newly_started job r b ?su ?y)"
    by (rule started_fences [OF core(4)]) (use start(7) in simp)
  moreover have "requests_follow epoch (newly_started job r b ?su ?y)"
    by (rule started_requests [OF core(5) job]) (use start in simp_all)
  ultimately show ?thesis
    by (simp add: compare_system_ok_def core_ok_def compare_ok_def Some with_supervision_def s')
qed

section \<open>Steps of a job\<close>

lemma result_worker:
  assumes "core_ok epoch y" "e \<in> set (cm_jobs (cs_mgr y))" "cs_sups y (ce_job e) = Some su"
    "ce_result e = Some c"
  shows "su_worker su = Returned (Inr c)"
  using entries_followE [OF core_okD(2) [OF assms(1)] assms(2)] assms(3,4) by (metis option.inject)

lemma requests_follow_cong:
  assumes r: "requests_follow epoch y" and now: "cs_now y' = cs_now y"
    and requests: "cm_requests (cs_mgr y') = cm_requests (cs_mgr y)"
    and past: "\<And>i a. cs_sups y' i = Some a \<Longrightarrow>
      \<exists>k. cs_sups y i = Some k \<and> su_context k = su_context a \<and> su_started k = su_started a"
    and future: "\<And>i k. cs_sups y i = Some k \<Longrightarrow>
      \<exists>a. cs_sups y' i = Some a \<and> su_context a = su_context k \<and> su_started a = su_started k"
  shows "requests_follow epoch y'"
  unfolding requests_follow_def now requests
proof (intro conjI allI impI ballI)
  note r = r [unfolded requests_follow_def]
  fix i a
  assume "cs_sups y' i = Some a"
  from past [OF this] r show "su_started a \<le> cs_now y" "fresh_request (epoch + int (su_started a)) (su_request a)"
    "cs_now y - su_started a < RESULT_TTL \<Longrightarrow> \<exists>q\<in>set (cm_requests (cs_mgr y)). rr_request q = su_request a"
    by fastforce+
next
  note r = r [unfolded requests_follow_def]
  fix q
  assume q: "q \<in> set (cm_requests (cs_mgr y))"
  with r show "rr_created q \<le> cs_now y" by simp
  from q r future show "\<exists>su. cs_sups y' (rr_job_id q) = Some su \<and> su_request su = rr_request q
      \<and> su_started su = rr_created q" by fastforce
next
  note r = r [unfolded requests_follow_def]
  fix i k a b
  assume "cs_sups y' i = Some a" "cs_sups y' k = Some b"
    "sq_request_id (su_request a) = sq_request_id (su_request b)"
  with past [of i a] past [of k b] r show "i = k" by metis
qed

lemma supervision_changes:
  assumes core: "core_ok epoch y" and su: "cs_sups y j = Some su"
    and same: "su_context su' = su_context su" "su_started su' = su_started su"
      "live (su_phase su') = live (su_phase su)"
    and worker: "su_worker su' = su_worker su \<or> su_worker su = Working"
      "\<not> live (su_phase su') \<Longrightarrow> su_worker su' \<noteq> Working"
    and ended: "cm_dones (cs_mgr y) j \<Longrightarrow> su_phase su' = Ended"
  shows "core_ok epoch (y\<lparr>cs_sups := (cs_sups y)(j \<mapsto> su')\<rparr>)" (is "core_ok _ ?y")
proof -
  have "entries_follow ?y"
    unfolding entries_follow_def
  proof
    fix e
    assume "e \<in> set (cm_jobs (cs_mgr ?y))"
    then have e: "e \<in> set (cm_jobs (cs_mgr y))" by simp
    from entries_followE [OF core_okD(2) [OF core] e] obtain k where
      k: "cs_sups y (ce_job e) = Some k" "st_source (ce_status e) = sq_source (su_request k)"
        "st_target (ce_status e) = sq_target (su_request k)" "ce_active e = live (su_phase k)"
        "\<forall>c. ce_result e = Some c \<longrightarrow> su_worker k = Returned (Inr c)" .
    show "\<exists>su. cs_sups ?y (ce_job e) = Some su \<and> st_source (ce_status e) = sq_source (su_request su)
        \<and> st_target (ce_status e) = sq_target (su_request su) \<and> ce_active e = live (su_phase su)
        \<and> (\<forall>c. ce_result e = Some c \<longrightarrow> su_worker su = Returned (Inr c))"
    proof (cases "ce_job e = j")
      case True
      with k su have [simp]: "k = su" by simp
      from k(5) worker(1) have "\<forall>c. ce_result e = Some c \<longrightarrow> su_worker su' = Returned (Inr c)" by auto
      with True k same show ?thesis by simp
    qed (use k in simp)
  qed
  moreover have "sups_follow ?y"
    using core_okD(3) [OF core] same worker ended su unfolding sups_follow_def by auto
  moreover have "requests_follow epoch ?y"
    by (rule requests_follow_cong [OF core_okD(5) [OF core]]) (use su same in \<open>auto split: if_splits\<close>)
  moreover have "fences_follow ?y"
    using core_okD(4) [OF core] by (simp add: fences_follow_def)
  ultimately show ?thesis
    using core_okD(1) [OF core] by (simp add: core_ok_def)
qed

lemma settled_fields [simp]:
  "cm_requests (settled_job now j r s) = cm_requests s" "cm_connections (settled_job now j r s) = cm_connections s"
  "cm_global (settled_job now j r s) = cm_global s" "cm_dones (settled_job now j r s) = cm_dones s"
  by (simp_all add: settled_job_def)

lemma settled_jobs: "map ce_job (cm_jobs (settled_job now j r s)) = map ce_job (cm_jobs s)"
  by (simp add: settled_job_def)

lemma job_known: "(\<exists>e\<in>set xs. ce_job e = i) \<longleftrightarrow> i \<in> set (map ce_job xs)"
  by auto

lemma settled_entry:
  assumes "e' \<in> set (cm_jobs (settled_job now j r s))"
  obtains e where "e \<in> set (cm_jobs s)" "ce_job e' = ce_job e"
    "st_source (ce_status e') = st_source (ce_status e)" "st_target (ce_status e') = st_target (ce_status e)"
    "ce_invalidated e' = ce_invalidated e" "ce_active e' \<longleftrightarrow> ce_active e \<and> ce_job e \<noteq> j"
    "ce_result e' = (if ce_job e = j then ce_result (finish_entry now (final_result s e r) e) else ce_result e)"
proof -
  from assms obtain e where "e \<in> set (cm_jobs s)"
      "e' = (if ce_job e = j then finish_entry now (final_result s e r) e else e)"
    by (auto simp: settled_job_def)
  then show ?thesis by (intro that [of e]) auto
qed

lemma settled_core:
  assumes core: "core_ok epoch y" and su: "cs_sups y j = Some su" "live (su_phase su)"
    and worker: "su_worker su = Returned r'" "\<And>c. r = Inr c \<Longrightarrow> r' = Inr c"
  shows "core_ok epoch (set_phase j su Signalling (y\<lparr>cs_mgr := settled_job now j r (cs_mgr y)\<rparr>))"
    (is "core_ok _ ?y")
proof -
  let ?s = "cs_mgr y"
  have active: "ce_active e" if "e \<in> set (cm_jobs ?s)" "ce_job e = j" for e
    using entries_followE [OF core_okD(2) [OF core] that(1)] that(2) su by (metis option.inject)
  have sups: "cs_sups ?y = (cs_sups y)(j \<mapsto> su\<lparr>su_phase := Signalling\<rparr>)" and jobs: "cs_mgr ?y = settled_job now j r ?s"
    and rest: "cs_now ?y = cs_now y" "cs_fences ?y = cs_fences y"
    by (simp_all add: set_phase_def)
  have "compare_base (cs_mgr ?y)"
    unfolding jobs by (rule settled_base [OF core_okD(1) [OF core] active])
  moreover have "entries_follow ?y"
    unfolding entries_follow_def jobs
  proof
    fix e'
    assume "e' \<in> set (cm_jobs (settled_job now j r ?s))"
    then obtain e where e: "e \<in> set (cm_jobs ?s)" "ce_job e' = ce_job e"
      "st_source (ce_status e') = st_source (ce_status e)" "st_target (ce_status e') = st_target (ce_status e)"
      "ce_active e' \<longleftrightarrow> ce_active e \<and> ce_job e \<noteq> j"
      "ce_result e' = (if ce_job e = j then ce_result (finish_entry now (final_result ?s e r) e) else ce_result e)"
      by (rule settled_entry)
    from entries_followE [OF core_okD(2) [OF core] e(1)] obtain k where
      k: "cs_sups y (ce_job e) = Some k" "st_source (ce_status e) = sq_source (su_request k)"
        "st_target (ce_status e) = sq_target (su_request k)" "ce_active e = live (su_phase k)"
        "\<forall>c. ce_result e = Some c \<longrightarrow> su_worker k = Returned (Inr c)" .
    show "\<exists>su. cs_sups ?y (ce_job e') = Some su \<and> st_source (ce_status e') = sq_source (su_request su)
        \<and> st_target (ce_status e') = sq_target (su_request su) \<and> ce_active e' = live (su_phase su)
        \<and> (\<forall>c. ce_result e' = Some c \<longrightarrow> su_worker su = Returned (Inr c))"
    proof (cases "ce_job e = j")
      case True
      have "ce_result e = None"
        using compare_baseD(2) [OF core_okD(1) [OF core] e(1)] active [OF e(1) True] by (simp add: comparison_entry_ok_def)
      then have "su_worker su = Returned (Inr c)" if "ce_result e' = Some c" for c
        using that e(6) True worker by (auto simp: finish_entry_result final_result_Inr split: sum.splits)
      moreover have "k = su" using k(1) True su(1) by simp
      moreover have "\<not> live Signalling" by (simp add: live_def)
      ultimately show ?thesis using True e k by (simp add: set_phase_def)
    qed (use e k in \<open>simp add: sups\<close>)
  qed
  moreover have "sups_follow ?y"
  proof -
    have "\<exists>e'\<in>set (cm_jobs (settled_job now j r ?s)). ce_job e' = i" if "\<exists>e\<in>set (cm_jobs ?s). ce_job e = i" for i
      using that unfolding job_known settled_jobs .
    moreover have "\<not> cm_dones ?s j"
      using core_okD(3) [OF core] su by (auto simp: sups_follow_def live_def)
    ultimately show ?thesis
      using core_okD(3) [OF core] worker unfolding sups_follow_def sups jobs by (auto simp: live_def)
  qed
  moreover have "fences_follow ?y"
  proof -
    have "compare_held F (settled_job now j r s) = compare_held F s" for F s
      by (rule compare_held_cong) simp_all
    moreover have "ce_invalidated e' \<and> (ce_active e' \<longrightarrow> ce_job e' \<in> set ws)"
      if "(f, ws) \<in> set (cs_fences y)" "e' \<in> set (cm_jobs (settled_job now j r ?s))" "torn f e'" for f ws e'
    proof -
      from settled_entry [OF that(2)] obtain e where e: "e \<in> set (cm_jobs ?s)" "ce_job e' = ce_job e"
        "st_source (ce_status e') = st_source (ce_status e)" "st_target (ce_status e') = st_target (ce_status e)"
        "ce_invalidated e' = ce_invalidated e" "ce_active e' \<longleftrightarrow> ce_active e \<and> ce_job e \<noteq> j" by metis
      then have "torn f e" using that(3) by (cases f) (auto simp: torn_def involves_def)
      with core_okD(4) [OF core] e(1) that(1) have "ce_invalidated e \<and> (ce_active e \<longrightarrow> ce_job e \<in> set ws)"
        unfolding fences_follow_def by blast
      with e show ?thesis by simp
    qed
    ultimately show ?thesis
      using core_okD(4) [OF core] unfolding fences_follow_def jobs rest by auto
  qed
  moreover have "requests_follow epoch ?y"
    by (rule requests_follow_cong [OF core_okD(5) [OF core]])
      (use su in \<open>auto simp: set_phase_def split: if_splits\<close>)
  ultimately show ?thesis by (simp add: core_ok_def)
qed

lemma finish_system:
  assumes "compare_system_ok epoch y" "cs_sups y j = Some su" "live (su_phase su)"
    "su_worker su = Returned r'" "\<And>c. r = Inr c \<Longrightarrow> r' = Inr c"
  shows "compare_system_ok epoch
     (set_phase j su Signalling (y\<lparr>cs_mgr := finish_comparison (cs_now y) j r (cs_mgr y)\<rparr>))"
proof -
  let ?y = "set_phase j su Signalling (y\<lparr>cs_mgr := settled_job (cs_now y) j r (cs_mgr y)\<rparr>)"
  note core = compare_system_okD(1) [OF assms(1)]
  from live_entry [OF core assms(2,3)] have "find_job j (cs_mgr y) \<noteq> None"
    by (auto simp: find_job_def find_None_iff)
  then have "finish_comparison (cs_now y) j r (cs_mgr y)
      = prune_comparisons (cs_now y) (settled_job (cs_now y) j r (cs_mgr y))"
    by (rule finish_comparison_settled [OF compare_baseD(1) [OF core_okD(1) [OF core]]])
  then have "set_phase j su Signalling (y\<lparr>cs_mgr := finish_comparison (cs_now y) j r (cs_mgr y)\<rparr>)
      = ?y\<lparr>cs_mgr := prune_comparisons (cs_now ?y) (cs_mgr ?y)\<rparr>"
    by (simp add: set_phase_def)
  then show ?thesis
    using prune_system [OF settled_core [OF core assms(2-4)]] assms(5) by simp
qed

lemma supervision_system:
  assumes "compare_system_ok epoch y" "cs_sups y j = Some su"
    "su_context su' = su_context su" "su_started su' = su_started su"
    "live (su_phase su') = live (su_phase su)"
    "su_worker su' = su_worker su \<or> su_worker su = Working" "live (su_phase su)"
  shows "compare_system_ok epoch (y\<lparr>cs_sups := (cs_sups y)(j \<mapsto> su')\<rparr>)"
proof -
  note core = compare_system_okD(1) [OF assms(1)]
  have "\<not> cm_dones (cs_mgr y) j"
    using core_okD(3) [OF core] assms(2,7) by (auto simp: sups_follow_def live_def)
  then show ?thesis
    using supervision_changes [OF core assms(2-6)] assms(5,7) compare_system_okD(2) [OF assms(1)]
    by (simp add: compare_system_ok_def)
qed

lemma signal_system:
  assumes "compare_system_ok epoch y" "cs_sups y j = Some su" "su_phase su = Signalling"
  shows "compare_system_ok epoch (set_phase j su Ended (y\<lparr>cs_mgr := signal_done j (cs_mgr y)\<rparr>))"
    (is "compare_system_ok _ ?y")
proof -
  note core = core_okD [OF compare_system_okD(1) [OF assms(1)]]
  have [simp]: "compare_base (signal_done j s) = compare_base s" "tidy (signal_done j s) = tidy s"
    "compare_held F (signal_done j s) = compare_held F s" for s F
    by (simp_all add: signal_done_def compare_base_def active_comparisons_def tidy_def
        compare_held_def charged_def connection_scope_def)
  have [simp]: "cm_jobs (signal_done j s) = cm_jobs s" "cm_requests (signal_done j s) = cm_requests s" for s
    by (simp_all add: signal_done_def)
  have "entries_follow ?y"
    unfolding entries_follow_def
  proof
    fix e
    assume "e \<in> set (cm_jobs (cs_mgr ?y))"
    then have "e \<in> set (cm_jobs (cs_mgr y))" by (simp add: set_phase_def)
    from entries_followE [OF core(2) this] obtain k where
      k: "cs_sups y (ce_job e) = Some k" "st_source (ce_status e) = sq_source (su_request k)"
        "st_target (ce_status e) = sq_target (su_request k)" "ce_active e = live (su_phase k)"
        "\<forall>c. ce_result e = Some c \<longrightarrow> su_worker k = Returned (Inr c)" .
    show "\<exists>su. cs_sups ?y (ce_job e) = Some su \<and> st_source (ce_status e) = sq_source (su_request su)
        \<and> st_target (ce_status e) = sq_target (su_request su) \<and> ce_active e = live (su_phase su)
        \<and> (\<forall>c. ce_result e = Some c \<longrightarrow> su_worker su = Returned (Inr c))"
    proof (cases "ce_job e = j")
      case True
      with k(1) assms(2) have "k = su" by simp
      with True k assms(3) show ?thesis by (simp add: set_phase_def live_def)
    qed (use k in \<open>simp add: set_phase_def\<close>)
  qed
  moreover have "sups_follow ?y"
    using core(3) assms(2,3) by (auto simp: sups_follow_def set_phase_def live_def signal_done_def)
  moreover have "fences_follow ?y"
    using core(4) by (simp add: fences_follow_def set_phase_def)
  moreover have "requests_follow epoch ?y"
    by (rule requests_follow_cong [OF core(5)])
      (use assms(2) in \<open>auto simp: set_phase_def split: if_splits\<close>)
  ultimately show ?thesis
    using core(1) compare_system_okD(2) [OF assms(1)]
    by (simp add: compare_system_ok_def core_ok_def set_phase_def)
qed

lemma job_step_ok:
  assumes "job_step j y y'" "compare_system_ok epoch y"
  shows "compare_system_ok epoch y'"
  using assms(1)
proof cases
  case (worker_progress su p m n)
  then show ?thesis
    using calm_system [OF assms(2) progress_calm [OF compare_system_okD(3) [OF assms(2)]]] by simp
next
  case (worker_returns su r)
  then have "live (su_phase su)"
    using core_okD(3) [OF compare_system_okD(1) [OF assms(2)]] unfolding sups_follow_def by blast
  with worker_returns show ?thesis
    using supervision_system [OF assms(2), of j su "su\<lparr>su_worker := Returned r\<rparr>"] by simp
next
  case (sees_cancel su)
  then show ?thesis
    using supervision_system [OF assms(2), of j su "su\<lparr>su_phase := Interrupted CompareCancelled\<rparr>"]
    by (simp add: live_def set_phase_def)
next
  case (sees_deadline su)
  then show ?thesis
    using supervision_system [OF assms(2), of j su "su\<lparr>su_phase := Interrupted CompareDeadlineExceeded\<rparr>"]
    by (simp add: live_def set_phase_def)
next
  case (collects su r)
  then show ?thesis using finish_system [OF assms(2), of j su r r] by (simp add: live_def)
next
  case (stops su e)
  have "compare_system_ok epoch (y\<lparr>cs_mgr := stop_comparison j e (cs_mgr y)\<rparr>)"
    by (rule calm_system [OF assms(2) stop_calm [OF compare_system_okD(3) [OF assms(2)]]])
  from supervision_system [OF this, of j su "su\<lparr>su_phase := Stopping e\<rparr>"] stops show ?thesis
    by (simp add: live_def set_phase_def)
next
  case (joins su e r)
  then show ?thesis using finish_system [OF assms(2), of j su r "Inl e"] by (simp add: live_def)
next
  case (signals su)
  then show ?thesis using signal_system [OF assms(2)] by simp
qed

section \<open>Steps of fences\<close>

lemma torn_torn_down: "torn f e \<Longrightarrow> torn_down f (teardown_is_global f s) e"
  by (cases f) (simp_all add: torn_def torn_down_def teardown_is_global_def)

lemma invalidated_fields [simp]:
  "cm_requests (invalidated f g s) = cm_requests s" "cm_dones (invalidated f g s) = cm_dones s"
  "cm_connections (invalidated f g s) = cm_connections s" "cm_global (invalidated f g s) = cm_global s"
  by (simp_all add: invalidated_def)

lemma invalidated_entry:
  assumes "e' \<in> set (cm_jobs (invalidated f g s))"
  obtains e where "e \<in> set (cm_jobs s)" "ce_job e' = ce_job e" "ce_active e' = ce_active e"
    "st_source (ce_status e') = st_source (ce_status e)" "st_target (ce_status e') = st_target (ce_status e)"
    "ce_invalidated e' \<longleftrightarrow> ce_invalidated e \<or> torn_down f g e"
    "\<forall>c. ce_result e' = Some c \<longrightarrow> ce_result e = Some c"
proof -
  from assms obtain e where "e \<in> set (cm_jobs s)" "e' = (if torn_down f g e then invalidate_entry e else e)"
    by (auto simp: invalidated_def)
  then show ?thesis by (intro that [of e]) auto
qed

lemma torn_same: "st_source (ce_status e') = st_source (ce_status e) \<Longrightarrow>
  st_target (ce_status e') = st_target (ce_status e) \<Longrightarrow> torn f e' = torn f e"
  by (cases f) (simp_all add: torn_def involves_def)

lemma fence_begin_system:
  assumes ok: "compare_system_ok epoch y" and begin_: "teardown_begin (cs_now y) f (cs_mgr y) = (ws, s')"
  shows "compare_system_ok epoch (y\<lparr>cs_mgr := s', cs_fences := (f, ws) # cs_fences y\<rparr>)"
proof -
  let ?g = "teardown_is_global f (cs_mgr y)"
  let ?s = "invalidated f ?g (charge_fence f (cs_mgr y))"
  let ?y = "y\<lparr>cs_mgr := ?s, cs_fences := (f, ws) # cs_fences y\<rparr>"
  note core = core_okD [OF compare_system_okD(1) [OF ok]]
  have ws: "ws = map ce_job (filter (\<lambda>e. torn_down f ?g e \<and> ce_active e) (cm_jobs (cs_mgr y)))"
    and s': "s' = prune_comparisons (cs_now y) ?s"
    using begin_ by (simp_all add: teardown_begin_alt)
  have jobs: "cm_jobs (charge_fence f (cs_mgr y)) = cm_jobs (cs_mgr y)" by simp
  have "compare_base ?s"
    by (intro invalidated_base charge_fence_base core(1))
  moreover have "entries_follow ?y"
    unfolding entries_follow_def
  proof
    fix e'
    assume "e' \<in> set (cm_jobs (cs_mgr ?y))"
    then have "e' \<in> set (cm_jobs ?s)" by simp
    then obtain e where e: "e \<in> set (cm_jobs (cs_mgr y))" "ce_job e' = ce_job e" "ce_active e' = ce_active e"
      "st_source (ce_status e') = st_source (ce_status e)" "st_target (ce_status e') = st_target (ce_status e)"
      "\<forall>c. ce_result e' = Some c \<longrightarrow> ce_result e = Some c"
      using invalidated_entry [of e'] jobs by metis
    from entries_followE [OF core(2) e(1)] e
    show "\<exists>su. cs_sups ?y (ce_job e') = Some su \<and> st_source (ce_status e') = sq_source (su_request su)
        \<and> st_target (ce_status e') = sq_target (su_request su) \<and> ce_active e' = live (su_phase su)
        \<and> (\<forall>c. ce_result e' = Some c \<longrightarrow> su_worker su = Returned (Inr c))"
      by simp metis
  qed
  moreover have "sups_follow ?y"
  proof -
    have "map ce_job (cm_jobs ?s) = map ce_job (cm_jobs (cs_mgr y))" by (simp add: invalidated_def)
    then have "\<exists>e'\<in>set (cm_jobs ?s). ce_job e' = i" if "\<exists>e\<in>set (cm_jobs (cs_mgr y)). ce_job e = i" for i
      using that unfolding job_known by simp
    then show ?thesis using core(3) unfolding sups_follow_def by simp
  qed
  moreover have "fences_follow ?y"
  proof -
    have "compare_held (add_mset f (mset (map fst (cs_fences y)))) (charge_fence f (cs_mgr y))"
      using core(4) by (intro compare_begin_held) (simp add: fences_follow_def)
    then have "compare_held (mset (map fst (cs_fences ?y))) ?s"
      using compare_held_cong [of ?s "charge_fence f (cs_mgr y)"] by simp
    moreover have "ce_invalidated e' \<and> (ce_active e' \<longrightarrow> ce_job e' \<in> set ws')"
      if fence: "(f', ws') \<in> set (cs_fences ?y)" and e': "e' \<in> set (cm_jobs ?s)" "torn f' e'" for f' ws' e'
    proof -
      from invalidated_entry [OF e'(1)] obtain e where e: "e \<in> set (cm_jobs (cs_mgr y))" "ce_job e' = ce_job e"
        "ce_active e' = ce_active e" "st_source (ce_status e') = st_source (ce_status e)"
        "st_target (ce_status e') = st_target (ce_status e)"
        "ce_invalidated e' \<longleftrightarrow> ce_invalidated e \<or> torn_down f ?g e" unfolding jobs by metis
      have torn: "torn f' e" using e'(2) torn_same [OF e(4,5)] by simp
      from fence consider "f' = f" "ws' = ws" | "(f', ws') \<in> set (cs_fences y)" by auto
      then show ?thesis
      proof cases
        case 1
        with torn torn_torn_down have "torn_down f ?g e" by blast
        with e 1 show ?thesis by (auto simp: ws)
      next
        case 2
        with core(4) e(1) torn have "ce_invalidated e \<and> (ce_active e \<longrightarrow> ce_job e \<in> set ws')"
          unfolding fences_follow_def by blast
        with e show ?thesis by simp
      qed
    qed
    ultimately show ?thesis unfolding fences_follow_def by auto
  qed
  moreover have "requests_follow epoch ?y"
    by (rule requests_follow_cong [OF core(5)]) auto
  ultimately have "core_ok epoch ?y" by (simp add: core_ok_def)
  from prune_system [OF this] show ?thesis by (cases y) (simp add: s')
qed

lemma end_fence_rest [simp]:
  "cm_jobs (end_fence f s) = cm_jobs s" "cm_requests (end_fence f s) = cm_requests s"
  "cm_dones (end_fence f s) = cm_dones s"
  by (auto simp: end_fence_def end_global_fence_def end_connection_fence_def split: option.splits)

lemma mset_map_remove1: "x \<in> set xs \<Longrightarrow> mset (map f xs) = add_mset (f x) (mset (map f (remove1 x xs)))"
  by (induction xs) auto

lemma fence_end_system:
  assumes ok: "compare_system_ok epoch y" and fence: "(f, ws) \<in> set (cs_fences y)"
  shows "compare_system_ok epoch
     (y\<lparr>cs_mgr := end_fence f (cs_mgr y), cs_fences := remove1 (f, ws) (cs_fences y)\<rparr>)"
    (is "compare_system_ok _ ?y")
proof -
  note core = core_okD [OF compare_system_okD(1) [OF ok]]
  have "mset (map fst (cs_fences y)) = add_mset f (mset (map fst (remove1 (f, ws) (cs_fences y))))"
    using mset_map_remove1 [OF fence, of fst] by simp
  then have "compare_held (mset (map fst (cs_fences ?y))) (cs_mgr ?y)"
    using core(4) compare_end_held by (simp add: fences_follow_def)
  then have "fences_follow ?y"
    using core(4) set_remove1_subset [of "(f, ws)" "cs_fences y"]
    unfolding fences_follow_def by (simp del: mset_map) blast
  moreover have "requests_follow epoch ?y"
    by (rule requests_follow_cong [OF core(5)]) auto
  moreover have "compare_base (end_fence f (cs_mgr y))" "tidy (end_fence f (cs_mgr y))"
    using core(1) compare_system_okD(2) [OF ok]
    by (simp_all add: compare_base_def active_comparisons_def tidy_def)
  ultimately show ?thesis
    using core(2,3) by (simp add: compare_system_ok_def core_ok_def entries_follow_def sups_follow_def)
qed

section \<open>Every reachable state satisfies the invariant\<close>

lemma later_requests:
  assumes r: "requests_follow epoch y" and t: "cs_now y \<le> t"
  shows "requests_follow epoch (y\<lparr>cs_now := t\<rparr>)"
proof -
  have "su_started su \<le> t \<and> (t - su_started su < RESULT_TTL \<longrightarrow> cs_now y - su_started su < RESULT_TTL)"
    if "cs_sups y j = Some su" for j su
    using r t that unfolding requests_follow_def by (meson diff_le_mono le_less_trans order_trans)
  moreover have "rr_created q \<le> t" if "q \<in> set (cm_requests (cs_mgr y))" for q
    using r t that unfolding requests_follow_def by (meson order_trans)
  ultimately show ?thesis
    using r unfolding requests_follow_def by simp
qed

lemma compare_step_ok:
  assumes "compare_step epoch y y'" "compare_system_ok epoch y"
  shows "compare_system_ok epoch y'"
proof -
  note ok = compare_system_okD(3) [OF assms(2)] and calm = calm_system [OF assms(2)]
  from assms(1) show ?thesis
  proof cases
    case (time_passes t)
    then show ?thesis
      using assms(2) later_requests
      by (simp add: compare_system_ok_def core_ok_def entries_follow_def sups_follow_def fences_follow_def)
  next
    case (budget_changes b)
    then show ?thesis using calm [OF calm_same] by simp
  next
    case (caller_starts job result r x ctx s)
    then show ?thesis using started_system [OF assms(2)] by simp
  next
    case (caller_gets j x s)
    then show ?thesis using calm [OF get_calm [OF ok]] by simp
  next
    case (caller_lists xs s)
    then show ?thesis using calm [OF list_calm [OF ok]] by simp
  next
    case (caller_cancels j x s)
    then show ?thesis using calm [OF cancel_calm [OF ok]] by simp
  next
    case (caller_releases j x s)
    then show ?thesis using calm [OF release_calm] by simp
  next
    case (caller_validates q x s)
    then show ?thesis using calm [OF validate_result_calm [OF ok]] by simp
  next
    case (caller_reads page_text session transport i q x s)
    then show ?thesis using calm [OF read_calm [OF ok]] by simp
  next
    case (caller_acknowledges session transport i x s)
    then show ?thesis using calm [OF acknowledge_calm] by simp
  next
    case (document_loads t w e)
    then show ?thesis using calm [OF document_load_calm] by simp
  next
    case (window_closes w)
    then show ?thesis using calm [OF destroyed_calm] by simp
  next
    case (job_moves j)
    then show ?thesis using job_step_ok [OF _ assms(2)] by simp
  next
    case (fence_begins f ws s)
    then show ?thesis using fence_begin_system [OF assms(2)] by simp
  next
    case (fence_ends f ws)
    then show ?thesis using fence_end_system [OF assms(2)] by simp
  qed
qed

lemma compare_system_new_ok: "compare_system_ok epoch compare_system_new"
proof -
  have "cm_jobs compare_new = []" "cm_requests compare_new = []"
    by (simp_all add: compare_new_def)
  then show ?thesis
    using compare_new_ok compare_new_held
    by (simp add: compare_system_ok_def core_ok_def compare_ok_def compare_system_new_def
        entries_follow_def sups_follow_def fences_follow_def requests_follow_def)
qed

lemma compare_reachable_ok: "compare_reachable epoch y \<Longrightarrow> compare_system_ok epoch y"
  by (induction rule: compare_reachable.induct) (auto intro: compare_system_new_ok compare_step_ok)

end
