(* ===== verification/CompareProps.thy ===== *)
theory CompareProps imports CompareSystem begin

text \<open>
  What the comparison manager promises: its bounds, one job per request, fences that leave
  nothing running, and results that come from a finished worker.  A short run serves the
  witnesses.
\<close>

section \<open>A sample run\<close>

text \<open>One comparison of two connections is started, fenced, stopped and joined.\<close>

definition compared_request :: start_request where
  "compared_request =
     \<lparr>sq_request_id = ''0:n'', sq_source = \<lparr>ep_connection_id = ''a'', ep_schema = ''s''\<rparr>,
      sq_target = \<lparr>ep_connection_id = ''b'', ep_schema = ''s''\<rparr>\<rparr>"

definition compared_started :: compare_system where
  "compared_started =
     (let r = start_comparison 0 0 ''j'' ''r'' JOB_DEADLINE compared_request compare_new
      in compare_system_new\<lparr>cs_mgr := snd (snd r),
           cs_sups := with_supervision ''j'' 0 (fst (snd r)) (cs_sups compare_system_new)\<rparr>)"

definition compared_su :: "compare_system \<Rightarrow> supervision" where
  "compared_su y = the (cs_sups y ''j'')"

definition compared_fenced :: compare_system where
  "compared_fenced =
     (let r = teardown_begin 0 (Some ''a'') (cs_mgr compared_started)
      in compared_started\<lparr>cs_mgr := snd r, cs_fences := [(Some ''a'', fst r)]\<rparr>)"

definition compared_returned :: "comparison compare_result \<Rightarrow> compare_system \<Rightarrow> compare_system" where
  "compared_returned r y = y\<lparr>cs_sups := (cs_sups y)(''j'' \<mapsto> (compared_su y)\<lparr>su_worker := Returned r\<rparr>)\<rparr>"

definition compared_collected :: "comparison compare_result \<Rightarrow> compare_system \<Rightarrow> compare_system" where
  "compared_collected r y =
     set_phase ''j'' (compared_su y) Signalling (y\<lparr>cs_mgr := finish_comparison (cs_now y) ''j'' r (cs_mgr y)\<rparr>)"

definition compared_signalled :: "compare_system \<Rightarrow> compare_system" where
  "compared_signalled y = set_phase ''j'' (compared_su y) Ended (y\<lparr>cs_mgr := signal_done ''j'' (cs_mgr y)\<rparr>)"

definition compared_result :: comparison where
  "compared_result =
     \<lparr>cp_identity = \<lparr>ri_job_id = ''j'', ri_result_id = ''r''\<rparr>, cp_source = sq_source compared_request,
      cp_target = sq_target compared_request, cp_created = 0\<rparr>"

definition compared_finished :: compare_system where
  "compared_finished = compared_collected (Inr compared_result) (compared_returned (Inr compared_result) compared_started)"

definition compared_joined :: compare_system where
  "compared_joined =
     compared_signalled (compared_collected (Inr compared_result) (compared_returned (Inr compared_result) compared_fenced))"

lemma compared_started_reachable: "compare_reachable 0 compared_started"
proof -
  let ?r = "start_comparison 0 0 ''j'' ''r'' JOB_DEADLINE compared_request compare_new"
  have "compare_step 0 compare_system_new compared_started"
    unfolding compared_started_def Let_def
    using compare_step.caller_starts [of compare_system_new "''j''" 0 "''r''" compared_request "fst ?r" "fst (snd ?r)" "snd (snd ?r)"]
    by (simp add: compare_system_new_def)
  with starts_empty show ?thesis by (rule moves_on)
qed

lemma compared_su_watching:
  "cs_sups compared_started ''j'' = Some (compared_su compared_started)"
  "su_phase (compared_su compared_started) = Watching" "su_worker (compared_su compared_started) = Working"
proof -
  have "fst (snd (start_comparison 0 0 ''j'' ''r'' JOB_DEADLINE compared_request compare_new)) \<noteq> None"
    by code_simp
  then show "cs_sups compared_started ''j'' = Some (compared_su compared_started)"
    "su_phase (compared_su compared_started) = Watching" "su_worker (compared_su compared_started) = Working"
    by (auto simp: compared_started_def compared_su_def with_supervision_def Let_def compare_system_new_def)
qed

lemma compared_returns:
  fixes r :: "comparison compare_result"
  assumes "compare_reachable 0 y" "cs_sups y ''j'' = Some (compared_su y)" "su_phase (compared_su y) = Watching"
    "su_worker (compared_su y) = Working"
  defines "y' \<equiv> compared_collected r (compared_returned r y)"
  shows "compare_reachable 0 y'" "cs_sups y' ''j'' = Some (compared_su y')" "su_phase (compared_su y') = Signalling"
    "su_worker (compared_su y') = Returned r"
proof -
  have 1: "compare_reachable 0 (compared_returned r y)"
    using moves_on [OF assms(1) job_moves [OF worker_returns [OF assms(2,4)]]] by (simp add: compared_returned_def)
  have 2: "cs_sups (compared_returned r y) ''j'' = Some (compared_su (compared_returned r y))"
    "su_phase (compared_su (compared_returned r y)) = Watching" "su_worker (compared_su (compared_returned r y)) = Returned r"
    using assms(3) by (simp_all add: compared_returned_def compared_su_def)
  show "compare_reachable 0 y'"
    using moves_on [OF 1 job_moves [OF collects [OF 2]]] by (simp add: y'_def compared_collected_def)
  show "cs_sups y' ''j'' = Some (compared_su y')" "su_phase (compared_su y') = Signalling" "su_worker (compared_su y') = Returned r"
    using 2 by (simp_all add: y'_def compared_collected_def compared_su_def set_phase_def)
qed

lemma compared_finished_reachable: "compare_reachable 0 compared_finished"
  unfolding compared_finished_def by (rule compared_returns(1) [OF compared_started_reachable compared_su_watching])

lemma compared_fenced_reachable: "compare_reachable 0 compared_fenced"
proof -
  let ?r = "teardown_begin 0 (Some ''a'') (cs_mgr compared_started)"
  have "cs_fences compared_started = []" "cs_now compared_started = 0"
    by (simp_all add: compared_started_def compare_system_new_def Let_def)
  then have "compare_step 0 compared_started compared_fenced"
    using compare_step.fence_begins [of compared_started "Some ''a''" "fst ?r" "snd ?r" 0]
    by (simp add: compared_fenced_def Let_def)
  with compared_started_reachable show ?thesis by (rule moves_on)
qed

lemma compared_joined_reachable: "compare_reachable 0 compared_joined"
proof -
  have "cs_sups compared_fenced = cs_sups compared_started"
    by (simp add: compared_fenced_def Let_def)
  then have "cs_sups compared_fenced ''j'' = Some (compared_su compared_fenced)"
    "su_phase (compared_su compared_fenced) = Watching" "su_worker (compared_su compared_fenced) = Working"
    using compared_su_watching by (simp_all add: compared_su_def)
  note joined = compared_returns [OF compared_fenced_reachable this, of "Inr compared_result"]
  from moves_on [OF joined(1) job_moves [OF signals [OF joined(2,3)]]]
  show ?thesis by (simp add: compared_joined_def compared_signalled_def)
qed

lemma compared_joined_fence:
  "cs_fences compared_joined = [(Some ''a'', [''j''])]" "\<not> fence_waits [''j''] (cs_mgr compared_joined)"
proof -
  have "fst (teardown_begin 0 (Some ''a'') (cs_mgr compared_started)) = [''j'']" by code_simp
  then show "cs_fences compared_joined = [(Some ''a'', [''j''])]"
    by (simp add: compared_joined_def compared_signalled_def compared_collected_def compared_returned_def set_phase_def
        compared_fenced_def Let_def)
  show "\<not> fence_waits [''j''] (cs_mgr compared_joined)"
    by (simp add: compared_joined_def compared_signalled_def set_phase_def fence_waits_def signal_done_def)
qed

section \<open>Bounds\<close>

lemma comparison_bounds:
  assumes "compare_reachable epoch y"
  defines "s \<equiv> cs_mgr y"
  shows "active_comparisons s \<le> MAX_ACTIVE_COMPARISONS"
    and "length (cm_jobs s) \<le> MAX_ACTIVE_COMPARISONS + MAX_TERMINAL_COMPARISONS"
    and "length (cm_requests s) \<le> MAX_REQUESTS"
    and "length (cm_connections s) \<le> MAX_FENCE_SCOPES"
    and "\<forall>e\<in>set (cm_jobs s). \<forall>e'\<in>set (cm_jobs s). ce_active e \<and> ce_active e' \<and> involves e c \<and> involves e' c
           \<longrightarrow> e = e'"
proof -
  note ok = compare_reachable_ok [OF assms(1)]
  note core = core_okD [OF compare_system_okD(1) [OF ok]]
  show "active_comparisons s \<le> MAX_ACTIVE_COMPARISONS"
    unfolding s_def by (rule compare_baseD(3) [OF core(1)])
  moreover have "inactive_count (cm_jobs s) \<le> MAX_TERMINAL_COMPARISONS"
    using compare_system_okD(2) [OF ok] by (simp add: tidy_def s_def)
  ultimately show "length (cm_jobs s) \<le> MAX_ACTIVE_COMPARISONS + MAX_TERMINAL_COMPARISONS"
    using sum_length_filter_compl [of ce_active "cm_jobs s"]
    by (simp add: active_comparisons_def inactive_count_def)
  show "length (cm_requests s) \<le> MAX_REQUESTS"
    unfolding s_def by (rule compare_baseD(5) [OF core(1)])
  obtain L G where "charged L G s"
    using core(4) by (auto simp: fences_follow_def compare_held_def s_def)
  from chargedD(2) [OF this] show "length (cm_connections s) \<le> MAX_FENCE_SCOPES"
    by (simp add: scopes_ok_def)
  show "\<forall>e\<in>set (cm_jobs s). \<forall>e'\<in>set (cm_jobs s). ce_active e \<and> ce_active e' \<and> involves e c \<and> involves e' c
           \<longrightarrow> e = e'"
    using compare_baseD(4) [OF core(1)] unfolding apart_def s_def by blast
qed



section \<open>One job per request\<close>



section \<open>Fences\<close>

lemma fence_leaves_nothing:
  assumes ok: "compare_system_ok epoch y" and fence: "(f, ws) \<in> set (cs_fences y)" "\<not> fence_waits ws (cs_mgr y)"
    and covers: "covers f c"
  shows "e \<in> set (cm_jobs (cs_mgr y)) \<Longrightarrow> \<not> involves e c"
proof
  assume e: "e \<in> set (cm_jobs (cs_mgr y))" "involves e c"
  note core = core_okD [OF compare_system_okD(1) [OF ok]]
  have "torn f e"
    using e(2) covers by (cases f) (auto simp: torn_def)
  then have inv: "ce_invalidated e" and waited: "ce_active e \<longrightarrow> ce_job e \<in> set ws"
    using core(4) fence(1) e(1) unfolding fences_follow_def by blast+
  have active: "ce_active e"
    using compare_system_okD(2) [OF ok] e(1) inv unfolding tidy_def by blast
  with waited fence(2) have "cm_dones (cs_mgr y) (ce_job e)"
    by (simp add: fence_waits_def list_all_iff)
  moreover obtain su where "cs_sups y (ce_job e) = Some su" "ce_active e = live (su_phase su)"
    using entries_followE [OF core(2) e(1)] .
  ultimately show False
    using core(3) active by (auto simp: sups_follow_def live_def)
qed

lemma fenced_connection:
  assumes "compare_reachable epoch y" "(f, ws) \<in> set (cs_fences y)" "\<not> fence_waits ws (cs_mgr y)"
    "covers f c"
  shows "cs_sups y j = Some su \<Longrightarrow> c \<in> set (request_ids (cc_request (su_context su))) \<Longrightarrow>
      su_worker su \<noteq> Working"
    and "e \<in> set (cm_jobs (cs_mgr y)) \<Longrightarrow> \<not> involves e c"
    and "start_comparison (cs_now y) wall job result timeout r (cs_mgr y) = (x, ctx, s) \<Longrightarrow>
      c \<in> set (request_ids r) \<Longrightarrow> ctx = None"
proof -
  note ok = compare_reachable_ok [OF assms(1)]
  note core = core_okD [OF compare_system_okD(1) [OF ok]]
  show idle: "\<not> involves e c" if "e \<in> set (cm_jobs (cs_mgr y))" for e
    using fence_leaves_nothing [OF ok assms(2-4) that] .
  show "su_worker su \<noteq> Working" if su: "cs_sups y j = Some su" "c \<in> set (request_ids (cc_request (su_context su)))"
  proof (cases "live (su_phase su)")
    case True
    from live_entry [OF compare_system_okD(1) [OF ok] su(1) True]
    obtain e where e: "e \<in> set (cm_jobs (cs_mgr y))" "ce_job e = j" by blast
    from entries_followE [OF core(2) e(1)] obtain k where "cs_sups y (ce_job e) = Some k"
      "st_source (ce_status e) = sq_source (su_request k)" "st_target (ce_status e) = sq_target (su_request k)" .
    with e(2) su have "involves e c"
      by (auto simp: involves_def request_ids_def)
    with idle [OF e(1)] show ?thesis by simp
  qed (use core(3) su(1) in \<open>auto simp: sups_follow_def\<close>)
  show "ctx = None"
    if "start_comparison (cs_now y) wall job result timeout r (cs_mgr y) = (x, ctx, s)" "c \<in> set (request_ids r)"
  proof (rule ccontr)
    assume "ctx \<noteq> None"
    then obtain d where "ctx = Some d" by blast
    from start_some(7) [OF that(1) [unfolded this]]
    have "\<not> admission_blocked (prune_comparisons (cs_now y) (cs_mgr y)) (request_ids r)" .
    moreover have "admission_blocked (prune_comparisons n t) ids = admission_blocked t ids" for n t ids
      by (simp add: prune_comparisons_def admission_blocked_def scope_is_closing_def connection_scope_def
          list_ex_iff)
    ultimately show False
      using unblocked_covers [OF core(4) _ assms(2) that(2)] assms(4) by blast
  qed
qed

text \<open>
  C9: Once a fence has waited for the jobs its teardown returned, and until it ends, no worker
  runs on a connection it covers, the manager holds no comparison of it, and no request on it
  starts one, whatever other fences begin and end meanwhile and whether or not the fence found a
  scope of its own.
\<close>

theorem fenced_connection_is_idle:
  assumes "compare_reachable epoch y" "(f, ws) \<in> set (cs_fences y)" "\<not> fence_waits ws (cs_mgr y)"
    "covers f c"
  shows "(\<forall>j su. cs_sups y j = Some su \<and> c \<in> set (request_ids (cc_request (su_context su))) \<longrightarrow>
            su_worker su \<noteq> Working)
    \<and> (\<forall>e\<in>set (cm_jobs (cs_mgr y)). \<not> involves e c)
    \<and> (\<forall>wall job result timeout r. c \<in> set (request_ids r) \<longrightarrow>
          fst (snd (start_comparison (cs_now y) wall job result timeout r (cs_mgr y))) = None)"
proof (intro conjI allI ballI impI)
  show "su_worker su \<noteq> Working"
    if "cs_sups y j = Some su \<and> c \<in> set (request_ids (cc_request (su_context su)))" for j su
    using fenced_connection(1) [OF assms] that by blast
  show "\<not> involves e c" if "e \<in> set (cm_jobs (cs_mgr y))" for e
    by (rule fenced_connection(2) [OF assms that])
  show "fst (snd (start_comparison (cs_now y) wall job result timeout r (cs_mgr y))) = None"
    if "c \<in> set (request_ids r)" for wall job result timeout r
    by (rule fenced_connection(3) [OF assms _ that]) (simp add: prod_eq_iff)
qed

lemma fenced_connection_is_idle_witness:
  "fst (snd (start_comparison (cs_now compared_joined) 0 ''k'' ''t'' JOB_DEADLINE
     (compared_request\<lparr>sq_request_id := ''1:n''\<rparr>) (cs_mgr compared_joined))) = None"
proof -
  have "''a'' \<in> set (request_ids (compared_request\<lparr>sq_request_id := ''1:n''\<rparr>))"
    by (simp add: compared_request_def request_ids_def)
  moreover have "(Some ''a'', [''j'']) \<in> set (cs_fences compared_joined)" "covers (Some ''a'') ''a''"
    by (simp_all add: compared_joined_fence(1))
  ultimately show ?thesis
    using fenced_connection_is_idle [OF compared_joined_reachable _ compared_joined_fence(2)] by blast
qed

text \<open>
  C27: The manager counts overlapping fences: after any history of begins and ends in which no fence
  ends that has not begun, a connection some outstanding fence covers is closed to new
  comparisons, and when none is outstanding every connection is open, even though only four
  connections have a counter of their own.
\<close>

theorem overlapping_fences_are_counted:
  assumes "outstanding any_fences evs {#} = Some F"
  shows "(\<forall>f c. f \<in># F \<and> covers f c \<longrightarrow>
            admission_blocked (gate_run charge_fence end_fence evs compare_new) [c])
    \<and> (F = {#} \<longrightarrow> (\<forall>c. \<not> admission_blocked (gate_run charge_fence end_fence evs compare_new) [c]))"
  using compare_gate.run_blocked [OF compare_new_held assms] compare_gate.run_open [OF compare_new_held]
    assms by blast

lemma overlapping_fences_are_counted_witness:
  "admission_blocked (gate_run charge_fence end_fence [Begin (Some ''a''), Begin (Some ''a''), End (Some ''a'')] compare_new) [''a'']"
proof -
  let ?evs = "[Begin (Some ''a''), Begin (Some ''a''), End (Some ''a'')]"
  have "outstanding any_fences ?evs {#} = Some {#Some ''a''#}" by simp
  from overlapping_fences_are_counted [OF this] show ?thesis
    by (metis covers_simps(2) union_single_eq_member)
qed

section \<open>Results\<close>

lemma completed_comparison:
  assumes "compare_reachable epoch y"
    "get_comparison (cs_now y) j (cs_mgr y) = (Inr st, s)" "st_state st = StateCompleted rid"
  shows "\<exists>su c. cs_sups y j = Some su \<and> su_worker su = Returned (Inr c)
           \<and> ri_result_id (cp_identity c) = rid \<and> su_phase su \<in> {Signalling, Ended}"
    and "(f, ws) \<in> set (cs_fences y) \<Longrightarrow>
           \<not> covers f (ep_connection_id (st_source st)) \<and> \<not> covers f (ep_connection_id (st_target st))"
proof -
  note ok = compare_reachable_ok [OF assms(1)]
  note core = core_okD [OF compare_system_okD(1) [OF ok]]
  let ?s = "prune_comparisons (cs_now y) (cs_mgr y)"
  from assms(2) obtain e' where e': "find (\<lambda>e. ce_job e = j \<and> \<not> ce_invalidated e) (cm_jobs ?s) = Some e'"
    "st = ce_status e'"
    by (auto simp: get_comparison_def Let_def split: option.splits)
  then have in_s: "e' \<in> set (cm_jobs ?s)" "ce_job e' = j" "\<not> ce_invalidated e'"
    by (auto simp: find_Some_iff)
  have e: "e' \<in> set (cm_jobs (cs_mgr y))"
    by (rule prune_drops_invalidated(1) [OF compare_baseD(1) [OF core(1)] in_s(1)])
  have "comparison_entry_ok e'" by (rule compare_baseD(2) [OF core(1) e])
  with assms(3) e'(2) in_s(3) obtain c where c: "ce_result e' = Some c" "ri_result_id (cp_identity c) = rid"
    "\<not> ce_active e'" unfolding comparison_entry_ok_def by blast
  obtain su where su: "cs_sups y (ce_job e') = Some su" "ce_active e' = live (su_phase su)"
    "\<forall>c. ce_result e' = Some c \<longrightarrow> su_worker su = Returned (Inr c)"
    using entries_followE [OF core(2) e] .
  then have "su_phase su \<in> {Signalling, Ended}"
    using c(3) by (cases "su_phase su") (simp_all add: live_def)
  with su in_s(2) c show "\<exists>su c. cs_sups y j = Some su \<and> su_worker su = Returned (Inr c)
      \<and> ri_result_id (cp_identity c) = rid \<and> su_phase su \<in> {Signalling, Ended}"
    by auto
  show "\<not> covers f (ep_connection_id (st_source st)) \<and> \<not> covers f (ep_connection_id (st_target st))"
    if "(f, ws) \<in> set (cs_fences y)"
  proof -
    have "\<not> torn f e'"
      using core(4) that e in_s(3) unfolding fences_follow_def by blast
    with e'(2) show ?thesis
      by (cases f) (auto simp: torn_def involves_def)
  qed
qed

text \<open>
  C18: A comparison that is reported completed has a worker that returned the result of that
  identifier, its supervisor has joined the worker, and no fence that is outstanding covers one
  of its endpoints.
\<close>

theorem completed_comparison_is_current:
  assumes "compare_reachable epoch y"
    "get_comparison (cs_now y) j (cs_mgr y) = (Inr st, s)" "st_state st = StateCompleted rid"
  shows "(\<exists>su c. cs_sups y j = Some su \<and> su_worker su = Returned (Inr c)
           \<and> ri_result_id (cp_identity c) = rid \<and> su_phase su \<in> {Signalling, Ended})
    \<and> (\<forall>(f, ws)\<in>set (cs_fences y).
           \<not> covers f (ep_connection_id (st_source st)) \<and> \<not> covers f (ep_connection_id (st_target st)))"
  using completed_comparison [OF assms] by blast

lemma completed_comparison_is_current_witness:
  "\<exists>su c. cs_sups compared_finished ''j'' = Some su \<and> su_worker su = Returned (Inr c)
     \<and> ri_result_id (cp_identity c) = ''r'' \<and> su_phase su \<in> {Signalling, Ended}"
proof -
  let ?g = "get_comparison (cs_now compared_finished) ''j'' (cs_mgr compared_finished)"
  have "(case fst ?g of Inl _ \<Rightarrow> False | Inr st \<Rightarrow> st_state st = StateCompleted ''r'')"
    by code_simp
  then obtain st where "?g = (Inr st, snd ?g)" "st_state st = StateCompleted ''r''"
    by (cases "fst ?g") (auto simp: prod_eq_iff)
  from completed_comparison_is_current [OF compared_finished_reachable this] show ?thesis by (rule conjunct1)
qed

end
