(* ===== verification/SocketLifecycle.thy ===== *)
theory SocketLifecycle imports CompareFacts TransferFacts begin

text \<open>
  The fence over the six managers that own sockets, \<open>backend/src/socket_lifecycle.rs\<close>, with the
  part of each manager that closes and reopens admission: the query sessions
  (\<open>query_session/mod.rs\<close>), the table browser (\<open>table_browse/manager.rs\<close>), the result mutations
  (\<open>result_mutation/mod.rs\<close>, \<open>native.rs\<close>), the backup tools (\<open>postgres/backup/manager.rs\<close>), and the
  transfer and comparison managers, which have theories of their own.  Three of them keep a flag
  per connection, three a counter.  A set of connections is a HOL set, a map with defaults a
  total function.
\<close>

section \<open>Query sessions\<close>

record query_gate =
  qg_closing :: "string set"
  qg_generations :: "string \<Rightarrow> nat"
  qg_global :: bool

definition query_gate_new :: query_gate where
  "query_gate_new = \<lparr>qg_closing = {}, qg_generations = (\<lambda>_. 0), qg_global = False\<rparr>"

definition query_begin :: "fence \<Rightarrow> query_gate \<Rightarrow> query_gate" where
  "query_begin f g =
     (case f of None \<Rightarrow> g\<lparr>qg_global := True\<rparr>
      | Some c \<Rightarrow> g\<lparr>qg_closing := insert c (qg_closing g)\<rparr>)"

definition query_end :: "fence \<Rightarrow> query_gate \<Rightarrow> query_gate" where
  "query_end f g =
     (case f of None \<Rightarrow> g\<lparr>qg_global := False\<rparr>
      | Some c \<Rightarrow> g\<lparr>qg_closing := qg_closing g - {c},
                     qg_generations := (qg_generations g)(c := qg_generations g c + 1)\<rparr>)"

definition query_blocked :: "query_gate \<Rightarrow> string \<Rightarrow> bool" where
  "query_blocked g c \<longleftrightarrow> qg_global g \<or> c \<in> qg_closing g"

section \<open>Table browsing\<close>

text \<open>
  One executor, and so one socket, per connection.  \<open>native_idle_closing\<close> stays empty outside the
  native profile, \<open>opening\<close> inside it, where an executor is made without waiting.
\<close>

datatype gate_error = GateClosing | GateTimeout string

record browse_gate =
  bg_executors :: "string set"
  bg_opening :: "string set"
  bg_closing :: "string set"
  bg_idle :: "string set"
  bg_global :: bool

definition MAX_EXECUTORS :: nat where
  "MAX_EXECUTORS = 8"

definition browse_gate_new :: browse_gate where
  "browse_gate_new =
     \<lparr>bg_executors = {}, bg_opening = {}, bg_closing = {}, bg_idle = {}, bg_global = False\<rparr>"

definition browse_close_all :: "browse_gate \<Rightarrow> browse_gate" where
  "browse_close_all g = g\<lparr>bg_executors := {}\<rparr>"

definition browse_begin :: "bool \<Rightarrow> fence \<Rightarrow> browse_gate \<Rightarrow> browse_gate" where
  "browse_begin native f g =
     (case f of None \<Rightarrow> browse_close_all (g\<lparr>bg_global := True\<rparr>)
      | Some c \<Rightarrow> g\<lparr>bg_closing := insert c (bg_closing g),
                     bg_idle := (if native then bg_idle g - {c} else bg_idle g),
                     bg_executors := bg_executors g - {c}\<rparr>)"

definition browse_end :: "fence \<Rightarrow> browse_gate \<Rightarrow> browse_gate" where
  "browse_end f g =
     (case f of None \<Rightarrow> g\<lparr>bg_global := False\<rparr>
      | Some c \<Rightarrow> g\<lparr>bg_closing := bg_closing g - {c}\<rparr>)"

definition browse_blocked :: "browse_gate \<Rightarrow> string \<Rightarrow> bool" where
  "browse_blocked g c \<longleftrightarrow> bg_global g \<or> c \<in> bg_closing g"

definition browse_admission :: "browse_gate \<Rightarrow> gate_error option" where
  "browse_admission g =
     (if bg_global g then Some GateClosing
      else if MAX_EXECUTORS \<le> card (bg_executors g) + card (bg_opening g)
      then Some (GateTimeout ''admission'') else None)"

text \<open>
  \<open>native_executor_for\<close>, with the number of executors whose tasks still run, and the two locked
  parts of the other \<open>executor_for\<close>: its answer says whether an executor exists, whether another
  caller is opening one (the caller asks again), or whether this caller shall open it.
\<close>

definition browse_native_executor :: "nat \<Rightarrow> string \<Rightarrow> browse_gate \<Rightarrow> (gate_error + unit) \<times> browse_gate" where
  "browse_native_executor running c g =
     (if browse_blocked g c then (Inl GateClosing, g)
      else if c \<in> bg_executors g then (Inr (), g)
      else case browse_admission g of
        Some e \<Rightarrow> (Inl e, g)
      | None \<Rightarrow>
          if MAX_EXECUTORS \<le> running then (Inl (GateTimeout ''admission''), g)
          else (Inr (), g\<lparr>bg_executors := insert c (bg_executors g)\<rparr>))"

datatype executor_turn = TurnExisting | TurnWaiting | TurnOpening

definition browse_executor_start :: "string \<Rightarrow> browse_gate \<Rightarrow> (gate_error + executor_turn) \<times> browse_gate" where
  "browse_executor_start c g =
     (if browse_blocked g c then (Inl GateClosing, g)
      else if c \<in> bg_executors g then (Inr TurnExisting, g)
      else if c \<in> bg_opening g then (Inr TurnWaiting, g)
      else case browse_admission g of
        Some e \<Rightarrow> (Inl e, g)
      | None \<Rightarrow> (Inr TurnOpening, g\<lparr>bg_opening := insert c (bg_opening g)\<rparr>))"

definition browse_executor_done :: "(gate_error + unit) \<Rightarrow> string \<Rightarrow> browse_gate \<Rightarrow> (gate_error + unit) \<times> browse_gate" where
  "browse_executor_done spawned c g0 =
     (let g = g0\<lparr>bg_opening := bg_opening g0 - {c}\<rparr> in
      case spawned of
        Inl e \<Rightarrow> (Inl e, g)
      | Inr _ \<Rightarrow>
          if browse_blocked g c then (Inl GateClosing, g)
          else (Inr (), g\<lparr>bg_executors := insert c (bg_executors g)\<rparr>))"

text \<open>
  An executor found idle: \<open>close_idle\<close> removes it, \<open>close_native_idle\<close> also closes admission until
  the close is over.
\<close>

definition browse_idle_begin :: "bool \<Rightarrow> string \<Rightarrow> browse_gate \<Rightarrow> browse_gate" where
  "browse_idle_begin native c g =
     (if c \<notin> bg_executors g then g
      else if native
      then g\<lparr>bg_idle := insert c (bg_idle g), bg_closing := insert c (bg_closing g),
             bg_executors := bg_executors g - {c}\<rparr>
      else g\<lparr>bg_executors := bg_executors g - {c}\<rparr>)"

definition browse_idle_end :: "bool \<Rightarrow> string \<Rightarrow> browse_gate \<Rightarrow> browse_gate" where
  "browse_idle_end native c g =
     (if native \<and> c \<in> bg_idle g
      then g\<lparr>bg_idle := bg_idle g - {c}, bg_closing := bg_closing g - {c}\<rparr> else g)"

section \<open>Result mutations\<close>

text \<open>
  A teardown whose close does not end in time leaves the connection closed until it does, even
  when the fence has ended: \<open>mu_lingering\<close>, \<open>mu_end_requested\<close> and, for the global fence, the
  number of executors still closing.
\<close>

record mutation_gate =
  mu_executors :: "string set"
  mu_closing :: "string set"
  mu_idle :: "string set"
  mu_lingering :: "string set"
  mu_end_requested :: "string set"
  mu_global :: bool
  mu_pending :: nat
  mu_global_end :: bool

definition mutation_gate_new :: mutation_gate where
  "mutation_gate_new =
     \<lparr>mu_executors = {}, mu_closing = {}, mu_idle = {}, mu_lingering = {}, mu_end_requested = {},
      mu_global = False, mu_pending = 0, mu_global_end = False\<rparr>"

definition mutation_close_all :: "bool \<Rightarrow> mutation_gate \<Rightarrow> mutation_gate" where
  "mutation_close_all native g =
     g\<lparr>mu_executors := {},
       mu_pending := (if \<not> native \<and> mu_global g then mu_pending g + card (mu_executors g) else mu_pending g)\<rparr>"

definition mutation_begin :: "bool \<Rightarrow> fence \<Rightarrow> mutation_gate \<Rightarrow> mutation_gate" where
  "mutation_begin native f g =
     (case f of
        None \<Rightarrow> mutation_close_all native (g\<lparr>mu_global := True, mu_global_end := False\<rparr>)
      | Some c \<Rightarrow>
          (if native then g\<lparr>mu_idle := mu_idle g - {c}\<rparr>
           else g\<lparr>mu_end_requested := mu_end_requested g - {c}\<rparr>)
             \<lparr>mu_closing := insert c (mu_closing g), mu_executors := mu_executors g - {c}\<rparr>)"

definition mutation_end :: "fence \<Rightarrow> mutation_gate \<Rightarrow> mutation_gate" where
  "mutation_end f g =
     (case f of
        None \<Rightarrow> if mu_pending g = 0 then g\<lparr>mu_global := False\<rparr> else g\<lparr>mu_global_end := True\<rparr>
      | Some c \<Rightarrow>
          if c \<in> mu_lingering g then g\<lparr>mu_end_requested := insert c (mu_end_requested g)\<rparr>
          else g\<lparr>mu_closing := mu_closing g - {c}, mu_end_requested := mu_end_requested g - {c}\<rparr>)"

definition complete_global_close :: "mutation_gate \<Rightarrow> mutation_gate" where
  "complete_global_close g0 =
     (let g = g0\<lparr>mu_pending := mu_pending g0 - 1\<rparr> in
      if mu_pending g = 0 \<and> mu_global_end g then g\<lparr>mu_global := False, mu_global_end := False\<rparr> else g)"

text \<open>The close of a teardown exceeds its time, and ends later.\<close>

definition mutation_lingers :: "string \<Rightarrow> mutation_gate \<Rightarrow> mutation_gate" where
  "mutation_lingers c g = g\<lparr>mu_lingering := insert c (mu_lingering g)\<rparr>"

definition mutation_lingered :: "string \<Rightarrow> mutation_gate \<Rightarrow> mutation_gate" where
  "mutation_lingered c g0 =
     (let g = g0\<lparr>mu_lingering := mu_lingering g0 - {c}\<rparr> in
      if c \<in> mu_end_requested g
      then g\<lparr>mu_end_requested := mu_end_requested g - {c}, mu_closing := mu_closing g - {c}\<rparr> else g)"

definition mutation_blocked :: "mutation_gate \<Rightarrow> string \<Rightarrow> bool" where
  "mutation_blocked g c \<longleftrightarrow> mu_global g \<or> c \<in> mu_closing g"

definition mutation_admission :: "mutation_gate \<Rightarrow> gate_error option" where
  "mutation_admission g =
     (if mu_global g then Some GateClosing
      else if MAX_EXECUTORS \<le> card (mu_executors g) + card (mu_closing g)
      then Some (GateTimeout ''admission'') else None)"

definition mutation_executor :: "string \<Rightarrow> mutation_gate \<Rightarrow> (gate_error + unit) \<times> mutation_gate" where
  "mutation_executor c g =
     (if mutation_blocked g c then (Inl GateClosing, g)
      else if c \<in> mu_executors g then (Inr (), g)
      else case mutation_admission g of
        Some e \<Rightarrow> (Inl e, g)
      | None \<Rightarrow> (Inr (), g\<lparr>mu_executors := insert c (mu_executors g)\<rparr>))"

text \<open>
  \<open>close_idle\<close> and \<open>close_native_idle\<close>: the part before the close of the idle executor is awaited
  and the part after it.
\<close>

definition mutation_idle_begin :: "bool \<Rightarrow> string \<Rightarrow> mutation_gate \<Rightarrow> mutation_gate" where
  "mutation_idle_begin native c g =
     (if c \<notin> mu_executors g then g
      else g\<lparr>mu_idle := (if native then insert c (mu_idle g) else mu_idle g),
             mu_closing := insert c (mu_closing g), mu_executors := mu_executors g - {c}\<rparr>)"

definition mutation_idle_end :: "bool \<Rightarrow> string \<Rightarrow> mutation_gate \<Rightarrow> mutation_gate" where
  "mutation_idle_end native c g =
     (if native
      then if c \<in> mu_idle g
           then g\<lparr>mu_idle := mu_idle g - {c}, mu_closing := mu_closing g - {c}\<rparr> else g
      else g\<lparr>mu_closing := mu_closing g - {c}\<rparr>)"

section \<open>Backup tools\<close>

record tool_scope =
  ts_closing :: nat
  ts_generation :: nat

record tool_gate =
  tg_connections :: "string \<Rightarrow> tool_scope option"
  tg_global :: tool_scope

definition tool_scope_default :: tool_scope where
  "tool_scope_default = \<lparr>ts_closing = 0, ts_generation = 0\<rparr>"

definition tool_gate_new :: tool_gate where
  "tool_gate_new = \<lparr>tg_connections = (\<lambda>_. None), tg_global = tool_scope_default\<rparr>"

definition tool_scope_of :: "tool_gate \<Rightarrow> string \<Rightarrow> tool_scope" where
  "tool_scope_of g c = (case tg_connections g c of None \<Rightarrow> tool_scope_default | Some sc \<Rightarrow> sc)"

definition tool_begin :: "fence \<Rightarrow> tool_gate \<Rightarrow> tool_gate" where
  "tool_begin f g =
     (let close = (\<lambda>sc. sc\<lparr>ts_closing := ts_closing sc + 1, ts_generation := ts_generation sc + 1\<rparr>)
      in case f of None \<Rightarrow> g\<lparr>tg_global := close (tg_global g)\<rparr>
         | Some c \<Rightarrow> g\<lparr>tg_connections := (tg_connections g)(c \<mapsto> close (tool_scope_of g c))\<rparr>)"

definition tool_end :: "fence \<Rightarrow> tool_gate \<Rightarrow> tool_gate" where
  "tool_end f g =
     (let reopen = (\<lambda>sc. sc\<lparr>ts_closing := ts_closing sc - 1\<rparr>)
      in case f of None \<Rightarrow> g\<lparr>tg_global := reopen (tg_global g)\<rparr>
         | Some c \<Rightarrow> g\<lparr>tg_connections := (tg_connections g)(c \<mapsto> reopen (tool_scope_of g c))\<rparr>)"

definition tool_blocked :: "tool_gate \<Rightarrow> string \<Rightarrow> bool" where
  "tool_blocked g c \<longleftrightarrow> 0 < ts_closing (tg_global g)
     \<or> (case tg_connections g c of None \<Rightarrow> False | Some sc \<Rightarrow> 0 < ts_closing sc)"

section \<open>The fence over all of them\<close>

record sockets =
  so_native :: bool
  so_query :: query_gate
  so_browse :: browse_gate
  so_mutation :: mutation_gate
  so_tools :: tool_gate
  so_transfers :: manager
  so_compare :: compare_manager

definition sockets_new :: "bool \<Rightarrow> sockets" where
  "sockets_new native =
     \<lparr>so_native = native, so_query = query_gate_new, so_browse = browse_gate_new,
      so_mutation = mutation_gate_new, so_tools = tool_gate_new,
      so_transfers = manager_new native, so_compare = compare_new\<rparr>"

text \<open>
  One scope of a fence: the locked parts of the six begins, which commute because each changes
  its own manager.  The comparison manager counts the fence in its scopes before it invalidates
  its jobs (\<open>charge_fence\<close>); the jobs are the business of its own theory.
\<close>

definition sockets_begin :: "fence \<Rightarrow> sockets \<Rightarrow> sockets" where
  "sockets_begin f y =
     y\<lparr>so_query := query_begin f (so_query y),
       so_browse := browse_begin (so_native y) f (so_browse y),
       so_mutation := mutation_begin (so_native y) f (so_mutation y),
       so_tools := tool_begin f (so_tools y),
       so_transfers := snd (begin_teardown f (so_transfers y)),
       so_compare := charge_fence f (so_compare y)\<rparr>"

definition sockets_end :: "fence \<Rightarrow> sockets \<Rightarrow> sockets" where
  "sockets_end f y =
     y\<lparr>so_query := query_end f (so_query y),
       so_browse := browse_end f (so_browse y),
       so_mutation := mutation_end f (so_mutation y),
       so_tools := tool_end f (so_tools y),
       so_transfers := end_teardown f (so_transfers y),
       so_compare := end_fence f (so_compare y)\<rparr>"

datatype fence_kind = FenceConnections "string list" | FenceGlobal

definition fence_scopes :: "fence_kind \<Rightarrow> fence list" where
  "fence_scopes k = (case k of FenceConnections ids \<Rightarrow> map Some ids | FenceGlobal \<Rightarrow> [None])"

definition acquire_fence :: "fence_kind \<Rightarrow> sockets \<Rightarrow> sockets" where
  "acquire_fence k y = fold sockets_begin (fence_scopes k) y"

definition release_fence :: "fence_kind \<Rightarrow> sockets \<Rightarrow> sockets" where
  "release_fence k y = fold sockets_end (fence_scopes k) y"

text \<open>\<open>FenceGuard\<close>: releases once, by \<open>release\<close> or else by \<open>drop\<close>.\<close>

definition guard_release :: "fence_kind option \<times> sockets \<Rightarrow> fence_kind option \<times> sockets" where
  "guard_release g =
     (case g of (None, y) \<Rightarrow> (None, y) | (Some k, y) \<Rightarrow> (None, release_fence k y))"

definition with_fence :: "fence_kind \<Rightarrow> (sockets \<Rightarrow> 'a option \<times> sockets) \<Rightarrow> sockets \<Rightarrow> 'a option \<times> sockets" where
  "with_fence k work y =
     (case work (acquire_fence k y) of
        (Some r, y1) \<Rightarrow> (Some r, snd (guard_release (guard_release (Some k, y1))))
      | (None, y1) \<Rightarrow> (None, snd (guard_release (Some k, y1))))"

definition transfer_blocked :: "manager \<Rightarrow> string \<Rightarrow> bool" where
  "transfer_blocked s c \<longleftrightarrow> 0 < sc_closing (m_global s) \<or> connection_closing c s"

text \<open>A connection on which no manager starts work, and on which neither executor is left.\<close>

definition sockets_refuse :: "sockets \<Rightarrow> string \<Rightarrow> bool" where
  "sockets_refuse y c \<longleftrightarrow> query_blocked (so_query y) c \<and> browse_blocked (so_browse y) c
     \<and> mutation_blocked (so_mutation y) c \<and> tool_blocked (so_tools y) c
     \<and> transfer_blocked (so_transfers y) c \<and> admission_blocked (so_compare y) [c]"

definition executors_gone :: "sockets \<Rightarrow> string \<Rightarrow> bool" where
  "executors_gone y c \<longleftrightarrow> c \<notin> bg_executors (so_browse y) \<and> c \<notin> mu_executors (so_mutation y)"

end
