(* ===== verification/SocketFacts.thy ===== *)
theory SocketFacts imports SocketLifecycle begin

text \<open>
  The fence of \<open>SocketLifecycle\<close>: each manager's gate against the contract of \<open>FenceGate\<close>, the six
  together, and two histories in which a manager admits a connection that is still fenced.
\<close>

section \<open>Flags\<close>

definition flags_match :: "fence multiset \<Rightarrow> string set \<Rightarrow> bool \<Rightarrow> bool" where
  "flags_match F closing all \<longleftrightarrow> single_fences F \<and> (\<forall>c. c \<in> closing \<longleftrightarrow> Some c \<in># F) \<and> (all \<longleftrightarrow> None \<in># F)"

definition query_held :: "fence multiset \<Rightarrow> query_gate \<Rightarrow> bool" where
  "query_held F g \<longleftrightarrow> flags_match F (qg_closing g) (qg_global g)"

lemma flags_begin:
  assumes "flags_match F closing all" "single_fences (add_mset f F)"
  shows "flags_match (add_mset f F) (case f of None \<Rightarrow> closing | Some c \<Rightarrow> insert c closing) (f = None \<or> all)"
  using assms by (cases f) (auto simp: flags_match_def)

lemma flags_end:
  assumes "flags_match (add_mset f F) closing all"
  shows "flags_match F (case f of None \<Rightarrow> closing | Some c \<Rightarrow> closing - {c}) (f \<noteq> None \<and> all)"
  using assms by (cases f) (auto simp: flags_match_def)

lemma flags_blocked: "flags_match F closing all \<Longrightarrow> f \<in># F \<Longrightarrow> covers f c \<Longrightarrow> all \<or> c \<in> closing"
  by (cases f) (auto simp: flags_match_def)

interpretation query: reopening_gate query_begin query_end query_blocked single_fences query_held
proof
  fix F f g c
  show "query_held F g \<Longrightarrow> single_fences (add_mset f F) \<Longrightarrow> query_held (add_mset f F) (query_begin f g)"
    using flags_begin [of F "qg_closing g" "qg_global g" f]
    by (cases f) (simp_all add: query_held_def query_begin_def)
  show "query_held (add_mset f F) g \<Longrightarrow> query_held F (query_end f g)"
    using flags_end [of f F "qg_closing g" "qg_global g"]
    by (cases f) (simp_all add: query_held_def query_end_def)
  show "query_held F g \<Longrightarrow> f \<in># F \<Longrightarrow> covers f c \<Longrightarrow> query_blocked g c"
    by (simp add: query_held_def query_blocked_def flags_blocked)
  show "query_held {#} g \<Longrightarrow> \<not> query_blocked g c"
    by (simp add: query_held_def query_blocked_def flags_match_def)
qed

section \<open>Executors\<close>

text \<open>
  What the table browser does between fences.  An executor that is opened while a fence closes
  the connection is dropped when the opening ends; the opening was reserved before.
\<close>

inductive browse_internal :: "bool \<Rightarrow> browse_gate \<Rightarrow> browse_gate \<Rightarrow> bool" where
  browse_opens: "browse_internal True g (snd (browse_native_executor n c g))"
| browse_opening: "browse_internal False g (snd (browse_executor_start c g))"
| browse_opened: "browse_internal False g (snd (browse_executor_done r c g))" if "c \<in> bg_opening g"
| browse_closes: "browse_internal native g (browse_idle_begin native c g)"
| browse_closed: "browse_internal native g (browse_idle_end native c g)"

definition browse_held :: "fence multiset \<Rightarrow> browse_gate \<Rightarrow> bool" where
  "browse_held F g \<longleftrightarrow> single_fences F
     \<and> (\<forall>c. Some c \<in># F \<longrightarrow> c \<in> bg_closing g \<and> c \<notin> bg_idle g \<and> c \<notin> bg_executors g)
     \<and> (None \<in># F \<longrightarrow> bg_global g \<and> bg_executors g = {})"

abbreviation browse_fenced :: "browse_gate \<Rightarrow> string \<Rightarrow> bool" where
  "browse_fenced g c \<equiv> browse_blocked g c \<and> c \<notin> bg_executors g"

lemma browse_heldD:
  assumes "browse_held F g" shows "Some c \<in># F \<Longrightarrow> c \<in> bg_closing g \<and> c \<notin> bg_idle g \<and> c \<notin> bg_executors g"
    and "None \<in># F \<Longrightarrow> bg_global g \<and> bg_executors g = {}" and "single_fences F"
  using assms by (simp_all add: browse_held_def)

text \<open>
  A change keeps the fence when it never reopens a closed connection unless an idle close had
  closed it, and puts an executor only on an open one.
\<close>

definition browse_keeps :: "browse_gate \<Rightarrow> browse_gate \<Rightarrow> bool" where
  "browse_keeps g h \<longleftrightarrow> (bg_global g \<longrightarrow> bg_global h) \<and> bg_closing g - bg_idle g \<subseteq> bg_closing h
     \<and> bg_idle h \<subseteq> bg_idle g \<union> bg_executors g
     \<and> (\<forall>c. c \<in> bg_executors h \<longrightarrow> c \<in> bg_executors g \<or> \<not> browse_blocked g c)"

lemma browse_keepsD:
  assumes "browse_keeps g h" "browse_held F g"
  shows "browse_held F h"
proof -
  note k = assms(1) [unfolded browse_keeps_def browse_blocked_def]
  have "c \<in> bg_closing h \<and> c \<notin> bg_idle h \<and> c \<notin> bg_executors h" if "Some c \<in># F" for c
    using k browse_heldD(1) [OF assms(2) that] by blast
  moreover have "bg_global h \<and> bg_executors h = {}" if "None \<in># F"
    using k browse_heldD(2) [OF assms(2) that] by blast
  ultimately show ?thesis
    using browse_heldD(3) [OF assms(2)] unfolding browse_held_def by blast
qed

lemma browse_keeps_refl [simp]: "browse_keeps g g"
  by (simp add: browse_keeps_def)

lemma browse_keeps_simps [simp]:
  "browse_keeps g (snd (browse_native_executor n c g))"
  "browse_keeps g (snd (browse_executor_start c g))"
  "browse_keeps g (snd (browse_executor_done r c g))"
  "browse_keeps g (browse_idle_begin native c g)"
  "browse_keeps g (browse_idle_end native c g)"
  by (simp_all add: browse_native_executor_def browse_executor_start_def browse_executor_done_def Let_def
      browse_idle_begin_def browse_idle_end_def split: option.split sum.split)
    (auto simp: browse_keeps_def browse_blocked_def)

lemma browse_internal_keeps: "browse_internal native g h \<Longrightarrow> browse_keeps g h"
  by (erule browse_internal.cases) simp_all

lemma browse_idle_simps [simp]:
  "bg_idle (snd (browse_native_executor n c g)) = bg_idle g"
  "bg_idle (snd (browse_executor_start c g)) = bg_idle g"
  "bg_idle (snd (browse_executor_done r c g)) = bg_idle g"
  "bg_idle (browse_idle_begin False c g) = bg_idle g"
  "browse_idle_end False c g = g"
  by (simp_all add: browse_native_executor_def browse_executor_start_def browse_executor_done_def Let_def
      browse_idle_begin_def browse_idle_end_def split: option.split sum.split)

lemma browse_internal_idle: "browse_internal False g h \<Longrightarrow> bg_idle h = bg_idle g"
  by (erule browse_internal.cases) simp_all

text \<open>Outside the native profile no idle close is under way.\<close>

definition browse_held_in :: "bool \<Rightarrow> fence multiset \<Rightarrow> browse_gate \<Rightarrow> bool" where
  "browse_held_in native F g \<longleftrightarrow> browse_held F g \<and> (\<not> native \<longrightarrow> bg_idle g = {})"

interpretation browse: live_gate "browse_begin native" browse_end browse_fenced single_fences
  "browse_held_in native" "browse_internal native" for native
proof
  fix F f g c
  show "browse_held_in native F g \<Longrightarrow> single_fences (add_mset f F) \<Longrightarrow>
      browse_held_in native (add_mset f F) (browse_begin native f g)"
    by (cases f) (auto simp: browse_held_in_def browse_held_def browse_begin_def browse_close_all_def)
  show "browse_held_in native (add_mset f F) g \<Longrightarrow> browse_held_in native F (browse_end f g)"
    by (cases f) (auto simp: browse_held_in_def browse_held_def browse_end_def)
  show "browse_held_in native F g \<Longrightarrow> f \<in># F \<Longrightarrow> covers f c \<Longrightarrow> browse_fenced g c"
    by (cases f) (auto simp: browse_held_in_def browse_held_def browse_blocked_def)
next
  fix F g h
  assume *: "browse_held_in native F g" "browse_internal native g h"
  from browse_keepsD [OF browse_internal_keeps [OF *(2)], of F] * browse_internal_idle [of g h]
  show "browse_held_in native F h"
    by (cases native) (simp_all add: browse_held_in_def)
qed

text \<open>
  The mutation manager likewise, except that its idle close outside the native profile is left
  out: it does not keep a fence (\<open>idle_close_reopens_a_fence\<close>).
\<close>

inductive mutation_internal :: "bool \<Rightarrow> mutation_gate \<Rightarrow> mutation_gate \<Rightarrow> bool" where
  mutation_opens: "mutation_internal native g (snd (mutation_executor c g))"
| mutation_completes: "mutation_internal False g (complete_global_close g)"
| mutation_close_lingers: "mutation_internal False g (mutation_lingers c g)"
| mutation_close_ends: "mutation_internal False g (mutation_lingered c g)"
| mutation_closes: "mutation_internal True g (mutation_idle_begin True c g)"
| mutation_closed: "mutation_internal True g (mutation_idle_end True c g)"

definition mutation_held :: "bool \<Rightarrow> fence multiset \<Rightarrow> mutation_gate \<Rightarrow> bool" where
  "mutation_held native F g \<longleftrightarrow> single_fences F
     \<and> (\<forall>c. Some c \<in># F \<longrightarrow> c \<in> mu_closing g \<and> c \<notin> mu_executors g
           \<and> c \<notin> (if native then mu_idle g else mu_end_requested g))
     \<and> (None \<in># F \<longrightarrow> mu_global g \<and> \<not> mu_global_end g \<and> mu_executors g = {})"

abbreviation mutation_fenced :: "mutation_gate \<Rightarrow> string \<Rightarrow> bool" where
  "mutation_fenced g c \<equiv> mutation_blocked g c \<and> c \<notin> mu_executors g"

definition mutation_keeps :: "bool \<Rightarrow> mutation_gate \<Rightarrow> mutation_gate \<Rightarrow> bool" where
  "mutation_keeps native g h \<longleftrightarrow> (mu_global g \<and> \<not> mu_global_end g \<longrightarrow> mu_global h) \<and> (mu_global_end h \<longrightarrow> mu_global_end g)
     \<and> mu_closing g - (if native then mu_idle g else mu_end_requested g) \<subseteq> mu_closing h
     \<and> (if native then mu_idle h \<subseteq> mu_idle g \<union> mu_executors g else mu_end_requested h \<subseteq> mu_end_requested g)
     \<and> (\<forall>c. c \<in> mu_executors h \<longrightarrow> c \<in> mu_executors g \<or> \<not> mutation_blocked g c)"

lemma mutation_heldD:
  assumes "mutation_held native F g"
  shows "Some c \<in># F \<Longrightarrow> c \<in> mu_closing g \<and> c \<notin> mu_executors g
      \<and> c \<notin> (if native then mu_idle g else mu_end_requested g)"
    and "None \<in># F \<Longrightarrow> mu_global g \<and> \<not> mu_global_end g \<and> mu_executors g = {}" and "single_fences F"
  using assms by (simp_all add: mutation_held_def)

lemma mutation_keepsD:
  assumes "mutation_keeps native g h" "mutation_held native F g"
  shows "mutation_held native F h"
proof -
  note k = assms(1) [unfolded mutation_keeps_def mutation_blocked_def]
  have "c \<in> mu_closing h \<and> c \<notin> mu_executors h \<and> c \<notin> (if native then mu_idle h else mu_end_requested h)"
    if "Some c \<in># F" for c
    using k mutation_heldD(1) [OF assms(2) that] by (cases native) (simp_all, blast+)
  moreover have "mu_global h \<and> \<not> mu_global_end h \<and> mu_executors h = {}" if "None \<in># F"
    using k mutation_heldD(2) [OF assms(2) that] by blast
  ultimately show ?thesis
    using mutation_heldD(3) [OF assms(2)] unfolding mutation_held_def by blast
qed

lemma mutation_keeps_refl [simp]: "mutation_keeps native g g"
  by (simp add: mutation_keeps_def)

lemma mutation_executor_keeps [simp]: "mutation_keeps native g (snd (mutation_executor c g))"
  by (simp add: mutation_executor_def split: option.split) (auto simp: mutation_keeps_def)

lemma mutation_close_keeps [simp]:
  "mutation_keeps False g (complete_global_close g)"
  "mutation_keeps False g (mutation_lingers c g)"
  "mutation_keeps False g (mutation_lingered c g)"
  by (auto simp: mutation_keeps_def complete_global_close_def mutation_lingers_def mutation_lingered_def Let_def)

lemma mutation_idle_keeps [simp]:
  "mutation_keeps True g (mutation_idle_begin True c g)"
  "mutation_keeps True g (mutation_idle_end True c g)"
  by (auto simp: mutation_keeps_def mutation_idle_begin_def mutation_idle_end_def)

lemma mutation_internal_keeps: "mutation_internal native g h \<Longrightarrow> mutation_keeps native g h"
  by (erule mutation_internal.cases) simp_all

interpretation mutation: live_gate "mutation_begin native" mutation_end mutation_fenced single_fences
  "mutation_held native" "mutation_internal native" for native
proof
  fix F f g c
  show "mutation_held native F g \<Longrightarrow> single_fences (add_mset f F) \<Longrightarrow>
      mutation_held native (add_mset f F) (mutation_begin native f g)"
    by (cases f) (auto simp: mutation_held_def mutation_begin_def mutation_close_all_def)
  show "mutation_held native (add_mset f F) g \<Longrightarrow> mutation_held native F (mutation_end f g)"
    by (cases f) (auto simp: mutation_held_def mutation_end_def)
  show "mutation_held native F g \<Longrightarrow> f \<in># F \<Longrightarrow> covers f c \<Longrightarrow> mutation_fenced g c"
    by (cases f) (auto simp: mutation_held_def mutation_blocked_def)
next
  fix F g h
  assume "mutation_held native F g" "mutation_internal native g h"
  then show "mutation_held native F h"
    by (blast intro: mutation_keepsD mutation_internal_keeps)
qed

section \<open>Counters\<close>

definition tool_held :: "fence multiset \<Rightarrow> tool_gate \<Rightarrow> bool" where
  "tool_held F g \<longleftrightarrow> (\<forall>c. ts_closing (tool_scope_of g c) = count F (Some c))
     \<and> ts_closing (tg_global g) = count F None"

lemma tool_blocked_alt:
  "tool_blocked g c \<longleftrightarrow> 0 < ts_closing (tg_global g) \<or> 0 < ts_closing (tool_scope_of g c)"
  by (simp add: tool_blocked_def tool_scope_of_def tool_scope_default_def split: option.splits)

lemma covers_count: "f \<in># F \<Longrightarrow> covers f c \<Longrightarrow> 0 < count F None \<or> 0 < count F (Some c)"
  by (cases f) auto

lemma tool_scope_of_upd [simp]:
  "tool_scope_of (g\<lparr>tg_connections := (tg_connections g)(c \<mapsto> sc)\<rparr>) d = (if d = c then sc else tool_scope_of g d)"
  "tool_scope_of (g\<lparr>tg_global := x\<rparr>) d = tool_scope_of g d"
  by (simp_all add: tool_scope_of_def)

interpretation tools: reopening_gate tool_begin tool_end tool_blocked any_fences tool_held
proof
  fix F f g c
  show "tool_held F g \<Longrightarrow> tool_held (add_mset f F) (tool_begin f g)"
    by (cases f) (simp_all add: tool_held_def tool_begin_def)
  show "tool_held (add_mset f F) g \<Longrightarrow> tool_held F (tool_end f g)"
    by (cases f) (simp_all add: tool_held_def tool_end_def)
  show "tool_held F g \<Longrightarrow> f \<in># F \<Longrightarrow> covers f c \<Longrightarrow> tool_blocked g c"
    using covers_count [of f F c] by (simp add: tool_held_def tool_blocked_alt)
  show "tool_held {#} g \<Longrightarrow> \<not> tool_blocked g c"
    by (simp add: tool_held_def tool_blocked_alt)
qed

definition transfer_held :: "fence multiset \<Rightarrow> manager \<Rightarrow> bool" where
  "transfer_held F s \<longleftrightarrow> (\<forall>c. sc_closing (scope_of c s) = count F (Some c))
     \<and> sc_closing (m_global s) = count F None"

lemma transfer_blocked_alt:
  "transfer_blocked s c \<longleftrightarrow> 0 < sc_closing (m_global s) \<or> 0 < sc_closing (scope_of c s)"
  by (simp add: transfer_blocked_def connection_closing_def scope_of_def scope_default_def split: option.splits)

lemma begin_teardown_scopes:
  "m_connections (snd (begin_teardown f s)) = m_connections (update_scope close_scope f s)"
  "m_global (snd (begin_teardown f s)) = m_global (update_scope close_scope f s)"
  by (simp_all add: begin_teardown_def cancel_jobs_def Let_def)

lemma transfer_held_cong:
  "m_connections s = m_connections t \<Longrightarrow> m_global s = m_global t \<Longrightarrow> transfer_held F s = transfer_held F t"
  by (simp add: transfer_held_def scope_of_def)

lemma scope_of_update_scope:
  "scope_of d (update_scope h f s) = (if f = Some d then h (scope_of d s) else scope_of d s)"
  by (cases f) (auto simp: update_scope_def scope_of_def update_conv)

interpretation transfers: reopening_gate "\<lambda>f s. snd (begin_teardown f s)" end_teardown transfer_blocked
  any_fences transfer_held
proof
  fix F f s c
  have closing: "sc_closing (m_global (update_scope h f s)) = (if f = None then sc_closing (h (m_global s)) else sc_closing (m_global s))" for h
    by (cases f) (simp_all add: update_scope_def)
  show "transfer_held F s \<Longrightarrow> transfer_held (add_mset f F) (snd (begin_teardown f s))"
    unfolding transfer_held_cong [OF begin_teardown_scopes]
    by (simp add: transfer_held_def scope_of_update_scope closing close_scope_def)
  show "transfer_held (add_mset f F) s \<Longrightarrow> transfer_held F (end_teardown f s)"
    by (auto simp: transfer_held_def end_teardown_def scope_of_update_scope closing reopen_scope_def)
  show "transfer_held F s \<Longrightarrow> f \<in># F \<Longrightarrow> covers f c \<Longrightarrow> transfer_blocked s c"
    using covers_count [of f F c] by (simp add: transfer_held_def transfer_blocked_alt)
  show "transfer_held {#} s \<Longrightarrow> \<not> transfer_blocked s c"
    by (simp add: transfer_held_def transfer_blocked_alt)
qed

end
