(* ===== verification/SocketProps.thy ===== *)
theory SocketProps imports SocketFacts begin

text \<open>
  The six managers behind one fence: what a fence holds while it is outstanding, and the two ways
  in which a connection is admitted although one is.
\<close>

section \<open>All managers\<close>

inductive sockets_internal :: "sockets \<Rightarrow> sockets \<Rightarrow> bool" where
  browse_moves: "sockets_internal y (y\<lparr>so_browse := g\<rparr>)"
    if "browse_internal (so_native y) (so_browse y) g"
| mutation_moves: "sockets_internal y (y\<lparr>so_mutation := g\<rparr>)"
    if "mutation_internal (so_native y) (so_mutation y) g"
| transfers_move: "sockets_internal y (y\<lparr>so_transfers := s\<rparr>)"
    if "m_connections s = m_connections (so_transfers y)" "m_global s = m_global (so_transfers y)"
| compare_moves: "sockets_internal y (y\<lparr>so_compare := s\<rparr>)"
    if "cm_connections s = cm_connections (so_compare y)" "cm_global s = cm_global (so_compare y)"

definition sockets_held :: "fence multiset \<Rightarrow> sockets \<Rightarrow> bool" where
  "sockets_held F y \<longleftrightarrow> query_held F (so_query y) \<and> browse_held_in (so_native y) F (so_browse y)
     \<and> mutation_held (so_native y) F (so_mutation y) \<and> tool_held F (so_tools y)
     \<and> transfer_held F (so_transfers y) \<and> compare_held F (so_compare y)"

lemma sockets_heldD:
  assumes "sockets_held F y"
  shows "query_held F (so_query y)" "browse_held_in (so_native y) F (so_browse y)"
    "mutation_held (so_native y) F (so_mutation y)" "tool_held F (so_tools y)"
    "transfer_held F (so_transfers y)" "compare_held F (so_compare y)"
  using assms by (simp_all add: sockets_held_def)

lemma sockets_new_held: "sockets_held {#} (sockets_new native)"
  by (simp add: sockets_held_def sockets_new_def query_held_def query_gate_new_def flags_match_def
      single_fences_def browse_held_in_def browse_held_def browse_gate_new_def mutation_held_def mutation_gate_new_def
      tool_held_def tool_gate_new_def tool_scope_of_def tool_scope_default_def transfer_held_def scope_of_def
      manager_new_def scope_default_def compare_new_held)

abbreviation sockets_fenced :: "sockets \<Rightarrow> string \<Rightarrow> bool" where
  "sockets_fenced y c \<equiv> sockets_refuse y c \<and> executors_gone y c"

interpretation sockets: live_gate sockets_begin sockets_end sockets_fenced single_fences sockets_held
  sockets_internal
proof
  fix F f y c
  show "sockets_held F y \<Longrightarrow> single_fences (add_mset f F) \<Longrightarrow> sockets_held (add_mset f F) (sockets_begin f y)"
    unfolding sockets_held_def sockets_begin_def
    by (simp add: query.begin_held browse.begin_held mutation.begin_held tools.begin_held
        transfers.begin_held compare_gate.begin_held del: single_fences_add)
  show "sockets_held (add_mset f F) y \<Longrightarrow> sockets_held F (sockets_end f y)"
    unfolding sockets_held_def sockets_end_def
    by (simp add: query.end_held browse.end_held mutation.end_held tools.end_held
        transfers.end_held compare_gate.end_held)
  show "sockets_held F y \<Longrightarrow> f \<in># F \<Longrightarrow> covers f c \<Longrightarrow> sockets_fenced y c"
    using query.held_blocked [of F "so_query y" f c] browse.held_blocked [of "so_native y" F "so_browse y" f c]
      mutation.held_blocked [of "so_native y" F "so_mutation y" f c] tools.held_blocked [of F "so_tools y" f c]
      transfers.held_blocked [of F "so_transfers y" f c] compare_gate.held_blocked [of F "so_compare y" f c]
    by (simp add: sockets_held_def sockets_refuse_def executors_gone_def)
next
  fix F y z
  assume "sockets_held F y" "sockets_internal y z"
  from this(2,1) show "sockets_held F z"
  proof cases
    case (browse_moves g)
    with browse.internal_held [of "so_native y" F "so_browse y" g] \<open>sockets_held F y\<close> show ?thesis
      by (simp add: sockets_held_def)
  next
    case (mutation_moves g)
    with mutation.internal_held [of "so_native y" F "so_mutation y" g] \<open>sockets_held F y\<close> show ?thesis
      by (simp add: sockets_held_def)
  next
    case (transfers_move s)
    with transfer_held_cong [of s "so_transfers y" F] \<open>sockets_held F y\<close> show ?thesis
      by (simp add: sockets_held_def)
  next
    case (compare_moves s)
    with compare_held_cong [of s "so_compare y" F] \<open>sockets_held F y\<close> show ?thesis
      by (simp add: sockets_held_def)
  qed
qed

text \<open>A state of a run in which the fences \<open>F\<close> are outstanding, no two of them for the same scope.\<close>

definition sockets_reachable :: "bool \<Rightarrow> fence multiset \<Rightarrow> sockets \<Rightarrow> bool" where
  "sockets_reachable native F y \<longleftrightarrow>
     gate_path sockets_begin sockets_end single_fences sockets_internal {#} (sockets_new native) F y"

lemma sockets_reachable_held: "sockets_reachable native F y \<Longrightarrow> sockets_held F y"
  unfolding sockets_reachable_def by (rule sockets.path_held [OF _ sockets_new_held])

section \<open>The fence\<close>



lemma single_fences_part: "single_fences (F + G) \<Longrightarrow> single_fences F"
  unfolding single_fences_count count_union by (meson add_leD1)

lemma single_fences_distinct: "distinct fs \<Longrightarrow> single_fences (mset fs)"
  by (induction fs) (simp add: single_fences_def, simp)

lemma begins_held:
  "sockets_held F u \<Longrightarrow> single_fences (F + mset fs) \<Longrightarrow> sockets_held (F + mset fs) (fold sockets_begin fs u)"
proof (induction fs arbitrary: F u)
  case (Cons f fs)
  have same: "F + mset (f # fs) = add_mset f F + mset fs" by simp
  from Cons.prems(2) have single: "single_fences (add_mset f F + mset fs)"
    unfolding same .
  from Cons.IH [OF sockets.begin_held [OF Cons.prems(1) single_fences_part [OF single]] single]
  show ?case unfolding same by simp
qed simp

lemma acquire_held:
  assumes "sockets_held {#} y" "distinct (fence_scopes k)"
  shows "sockets_held (mset (fence_scopes k)) (acquire_fence k y)"
  using begins_held [OF assms(1), of "fence_scopes k"] single_fences_distinct [OF assms(2)]
  by (simp add: acquire_fence_def)

lemma release_held:
  assumes "sockets_held (mset (fence_scopes k)) y"
  shows "sockets_held {#} (release_fence k y)"
proof -
  have "sockets_held {#} (fold sockets_end fs u)" if "sockets_held (mset fs) u" for fs u
    using that
  proof (induction fs arbitrary: u)
    case (Cons f fs)
    then show ?case by (simp add: sockets.end_held)
  qed simp
  with assms show ?thesis by (simp add: release_fence_def)
qed

lemma internal_path_held: "sockets_internal\<^sup>*\<^sup>* y z \<Longrightarrow> sockets_held F y \<Longrightarrow> sockets_held F z"
  by (induction rule: rtranclp_induct) (auto intro: sockets.internal_held)

lemma guard_release_once: "guard_release (guard_release g) = guard_release g"
  by (auto simp: guard_release_def split: prod.split option.split)

lemma with_fence_releases: "snd (with_fence k work y) = release_fence k (snd (work (acquire_fence k y)))"
  by (simp add: with_fence_def guard_release_once) (simp add: guard_release_def split: prod.split option.split)



section \<open>Bounds\<close>

definition browse_bounded :: "browse_gate \<Rightarrow> bool" where
  "browse_bounded g \<longleftrightarrow> finite (bg_executors g) \<and> finite (bg_opening g)
     \<and> card (bg_executors g) + card (bg_opening g) \<le> MAX_EXECUTORS"

definition mutation_bounded :: "mutation_gate \<Rightarrow> bool" where
  "mutation_bounded g \<longleftrightarrow> finite (mu_executors g) \<and> card (mu_executors g) \<le> MAX_EXECUTORS"

lemma browse_bounded_mono:
  assumes "browse_bounded g" "bg_executors h \<subseteq> bg_executors g" "bg_opening h \<subseteq> bg_opening g"
  shows "browse_bounded h"
  using assms card_mono [OF _ assms(2)] card_mono [OF _ assms(3)]
  by (auto simp: browse_bounded_def dest: finite_subset)

lemma mutation_bounded_mono:
  assumes "mutation_bounded g" "mu_executors h \<subseteq> mu_executors g"
  shows "mutation_bounded h"
  using assms card_mono [OF _ assms(2)] by (auto simp: mutation_bounded_def dest: finite_subset)

lemma browse_admits: "browse_admission g = None \<Longrightarrow> card (bg_executors g) + card (bg_opening g) < MAX_EXECUTORS"
  by (simp add: browse_admission_def split: if_splits)

lemma browse_opened_bounded:
  assumes "browse_bounded g" "c \<in> bg_opening g"
  shows "browse_bounded (snd (browse_executor_done r c g))"
proof -
  let ?g = "g\<lparr>bg_opening := bg_opening g - {c}\<rparr>"
  have fewer: "browse_bounded ?g" by (rule browse_bounded_mono [OF assms(1)]) auto
  have "browse_bounded (?g\<lparr>bg_executors := insert c (bg_executors g)\<rparr>)"
    using assms card_Diff1_less [of "bg_opening g" c] by (auto simp: browse_bounded_def card_insert_if)
  with fewer show ?thesis
    by (simp add: browse_executor_done_def Let_def split: sum.split)
qed

lemma browse_internal_bounded: "browse_internal native g h \<Longrightarrow> browse_bounded g \<Longrightarrow> browse_bounded h"
proof (erule browse_internal.cases, goal_cases)
  case 1
  then show ?case
    using browse_admits [of g] by (auto simp: browse_native_executor_def browse_bounded_def card_insert_if split: option.splits)
next
  case 2
  then show ?case
    using browse_admits [of g] by (auto simp: browse_executor_start_def browse_bounded_def card_insert_if split: option.splits)
next
  case 3
  then show ?case by (simp add: browse_opened_bounded)
next
  case 4
  show ?case
    using 4 by (auto intro!: browse_bounded_mono [of g] simp: browse_idle_begin_def)
next
  case 5
  show ?case
    using 5 by (auto intro!: browse_bounded_mono [of g] simp: browse_idle_end_def)
qed

lemma mutation_internal_bounded: "mutation_internal native g h \<Longrightarrow> mutation_bounded g \<Longrightarrow> mutation_bounded h"
proof (erule mutation_internal.cases, goal_cases)
  case 1
  then show ?case
    by (auto simp: mutation_executor_def mutation_admission_def mutation_bounded_def card_insert_if split: option.splits if_splits)
next
  case 2
  then show ?case by (auto intro!: mutation_bounded_mono [of g] simp: complete_global_close_def Let_def)
next
  case 3
  then show ?case by (auto intro!: mutation_bounded_mono [of g] simp: mutation_lingers_def)
next
  case 4
  then show ?case by (auto intro!: mutation_bounded_mono [of g] simp: mutation_lingered_def Let_def)
next
  case 5
  then show ?case by (auto intro!: mutation_bounded_mono [of g] simp: mutation_idle_begin_def)
next
  case 6
  then show ?case by (auto intro!: mutation_bounded_mono [of g] simp: mutation_idle_end_def)
qed

lemma fences_bounded:
  "browse_bounded g \<Longrightarrow> browse_bounded (browse_begin native f g)"
  "browse_bounded g \<Longrightarrow> browse_bounded (browse_end f g)"
  "mutation_bounded m \<Longrightarrow> mutation_bounded (mutation_begin native f m)"
  "mutation_bounded m \<Longrightarrow> mutation_bounded (mutation_end f m)"
proof -
  show "browse_bounded g \<Longrightarrow> browse_bounded (browse_begin native f g)"
    by (rule browse_bounded_mono [of g]) (auto simp: browse_begin_def browse_close_all_def split: option.splits)
  show "browse_bounded g \<Longrightarrow> browse_bounded (browse_end f g)"
    by (rule browse_bounded_mono [of g]) (auto simp: browse_end_def split: option.splits)
  show "mutation_bounded m \<Longrightarrow> mutation_bounded (mutation_begin native f m)"
    by (rule mutation_bounded_mono [of m]) (auto simp: mutation_begin_def mutation_close_all_def split: option.splits)
  show "mutation_bounded m \<Longrightarrow> mutation_bounded (mutation_end f m)"
    by (rule mutation_bounded_mono [of m]) (auto simp: mutation_end_def split: option.splits if_splits)
qed

text \<open>
  Whatever fences overlap, the table browser never holds more than eight executors, those it
  is opening included, and the mutation manager never more than eight.
\<close>

lemma executors_are_bounded:
  assumes "gate_path sockets_begin sockets_end any_fences sockets_internal {#} (sockets_new native) F y"
  shows "card (bg_executors (so_browse y)) + card (bg_opening (so_browse y)) \<le> 8
    \<and> card (mu_executors (so_mutation y)) \<le> 8"
proof -
  have "browse_bounded (so_browse y) \<and> mutation_bounded (so_mutation y)"
    using assms
  proof (induction rule: gate_path.induct)
    case path_empty
    show ?case
      by (simp add: sockets_new_def browse_gate_new_def mutation_gate_new_def browse_bounded_def mutation_bounded_def)
  next
    case (path_begin G t f)
    then show ?case by (simp add: sockets_begin_def fences_bounded)
  next
    case (path_end f G t)
    then show ?case by (simp add: sockets_end_def fences_bounded)
  next
    case (path_internal G t u)
    from path_internal(2,3) show ?case
      by (auto elim!: sockets_internal.cases intro: browse_internal_bounded mutation_internal_bounded)
  qed
  then show ?thesis
    by (simp add: browse_bounded_def mutation_bounded_def MAX_EXECUTORS_def)
qed

section \<open>Two fences on one connection\<close>

text \<open>
  The query sessions, the table browser and the mutations keep a flag where the other
  managers count: when two fences on one connection overlap, the end of the first reopens them
  while the transfers, the comparisons and the backup tools still refuse the connection.
\<close>

lemma two_fences_reopen:
  "let y = gate_run sockets_begin sockets_end [Begin (Some c), Begin (Some c), End (Some c)] (sockets_new native)
   in \<not> query_blocked (so_query y) c \<and> \<not> browse_blocked (so_browse y) c \<and> \<not> mutation_blocked (so_mutation y) c
      \<and> tool_blocked (so_tools y) c \<and> transfer_blocked (so_transfers y) c \<and> admission_blocked (so_compare y) [c]"
proof -
  define y where "y = gate_run sockets_begin sockets_end [Begin (Some c), Begin (Some c), End (Some c)] (sockets_new native)"
  have "outstanding any_fences [Begin (Some c), Begin (Some c), End (Some c)] {#} = Some {#Some c#}" by simp
  note still = this
  have "transfer_held {#} (manager_new native)" "tool_held {#} tool_gate_new"
    using sockets_new_held [of native] by (simp_all add: sockets_held_def sockets_new_def)
  then have "tool_blocked (so_tools y) c" "transfer_blocked (so_transfers y) c" "admission_blocked (so_compare y) [c]"
    using tools.run_blocked [OF _ still, of tool_gate_new "Some c" c]
      transfers.run_blocked [OF _ still, of "manager_new native" "Some c" c]
      compare_gate.run_blocked [OF compare_new_held still, of "Some c" c]
    by (simp_all add: y_def sockets_begin_def sockets_end_def sockets_new_def)
  moreover have "\<not> query_blocked (so_query y) c" "\<not> browse_blocked (so_browse y) c" "\<not> mutation_blocked (so_mutation y) c"
    by (simp_all add: y_def sockets_begin_def sockets_end_def sockets_new_def query_blocked_def query_begin_def
        query_end_def query_gate_new_def browse_blocked_def browse_begin_def browse_end_def browse_gate_new_def
        mutation_blocked_def mutation_begin_def mutation_end_def mutation_gate_new_def)
  ultimately show ?thesis by (simp add: y_def Let_def)
qed

text \<open>
  Outside the native profile the close of an idle mutation executor ends by reopening its
  connection even if a fence has begun on the connection meanwhile; the native idle close leaves
  it closed.
\<close>

lemma idle_close_reopens_a_fence:
  assumes "c \<in> mu_executors g" "\<not> mu_global g"
  shows "\<not> mutation_blocked (mutation_idle_end False c (mutation_begin False (Some c) (mutation_idle_begin False c g))) c
    \<and> mutation_blocked (mutation_idle_end True c (mutation_begin True (Some c) (mutation_idle_begin True c g))) c"
  using assms by (simp add: mutation_blocked_def mutation_idle_end_def mutation_begin_def mutation_idle_begin_def)

end
