(* ===== verification/MutationBuilder.thy ===== *)
theory MutationBuilder imports SafetyPolicy begin

text \<open>
  The SQL of an edited result set, \<open>backend/src/result_mutation/builder.rs\<close>: validation of a plan
  against the analysed tables, and the statements that preview and apply share.  The order of the checks is the
  code's, because the first failing one is the error the user sees.
\<close>

section \<open>Data\<close>

datatype column_writability = Writable | Generated | IdentityAlways | SystemColumn

datatype mutation_identity_kind =
  KindPrimaryKey | KindUniqueIndex | KindVirtualKey | KindCtidFallback | KindNone

fun is_keyed :: "mutation_identity_kind \<Rightarrow> bool" where
  "is_keyed k \<longleftrightarrow> k = KindPrimaryKey \<or> k = KindUniqueIndex"

fun requires_full_row_guards :: "mutation_identity_kind \<Rightarrow> bool" where
  "requires_full_row_guards k \<longleftrightarrow> k = KindVirtualKey \<or> k = KindCtidFallback"

record mutation_identity =
  mi_kind :: mutation_identity_kind
  mi_columns :: "string list"

record mutation_column =
  mc_name :: string
  mc_cast_type :: string
  mc_nullable :: bool
  mc_writability :: column_writability
  mc_has_default :: bool
  mc_has_identity :: bool
  mc_projected :: bool

record mutation_descriptor =
  md_schema :: string
  md_table :: string
  md_columns :: "mutation_column list"
  md_identity :: mutation_identity

record mutation_table =
  mt_schema :: string
  mt_table :: string

record mutation_value =
  mv_column :: string
  mv_value :: "string option"

datatype mutation_op =
  OpUpdate mutation_table "mutation_value list" "mutation_value list" "mutation_value list"
| OpDelete mutation_table "mutation_value list" "mutation_value list"
| OpInsert mutation_table "mutation_value list"

datatype invalid_plan_reason =
  EmptySet | EmptyIdentity | NullKeyedIdentity | MissingGuard | IdentityMismatch | TableMismatch
| DuplicateColumn | GeneratedColumn | IdentityAlwaysColumn | SystemColumnWrite | NoIdentity
| MultipleOriginTables

text \<open>
  The errors of the builder and of the transaction.  \<open>MutationDatabase\<close> is the server's: code,
  message, severity, position and the operation; \<open>MutationStopped\<close> stands for the variants
  without data that a checkpoint returns.
\<close>

datatype stop_reason = Superseded | CancelledByUser | ClosingConnection | LostConnection

datatype mutation_error =
  UnknownColumn string
| InvalidPlan invalid_plan_reason
| AnalysisExpired
| MutationConflict nat
| IdentityNotUnique nat
| MutationLockTimeout nat
| MutationStopped stop_reason
| MutationDatabase "string option" string "string option" "nat option" "nat option"

type_synonym dml_param = "string option"

record preview_statement =
  ps_op_index :: nat
  ps_sql :: string
  ps_params :: "dml_param list"

section \<open>Columns\<close>

definition mutation_column_of :: "mutation_descriptor \<Rightarrow> string \<Rightarrow> mutation_column option" where
  "mutation_column_of d name = find (\<lambda>c. mc_name c = name) (md_columns d)"

definition projected_columns :: "mutation_descriptor \<Rightarrow> string list" where
  "projected_columns d =
     map mc_name (filter (\<lambda>c. mc_projected c
         \<and> \<not> (mc_writability c = SystemColumn \<and> mc_name c \<in> set (mi_columns (md_identity d))))
       (md_columns d))"

definition require_mutation_column :: "mutation_descriptor \<Rightarrow> string \<Rightarrow> mutation_error + mutation_column" where
  "require_mutation_column d name =
     (case mutation_column_of d name of None \<Rightarrow> Inl (UnknownColumn name) | Some c \<Rightarrow> Inr c)"

definition require_projected_column :: "mutation_descriptor \<Rightarrow> string \<Rightarrow> mutation_error + mutation_column" where
  "require_projected_column d name =
     (case require_mutation_column d name of
        Inl e \<Rightarrow> Inl e
      | Inr c \<Rightarrow> if \<not> mc_projected c then Inl (UnknownColumn name) else Inr c)"

text \<open>A set of the columns seen so far, as the code's \<open>HashSet::insert\<close> keeps it.\<close>

fun repeats_column :: "string set \<Rightarrow> mutation_value list \<Rightarrow> bool" where
  "repeats_column seen [] = False"
| "repeats_column seen (v # vs) =
     (mv_column v \<in> seen \<or> repeats_column (insert (mv_column v) seen) vs)"

definition validate_unique_columns :: "mutation_value list \<Rightarrow> mutation_error + unit" where
  "validate_unique_columns vs =
     (if repeats_column {} vs then Inl (InvalidPlan DuplicateColumn) else Inr ())"

section \<open>Validation\<close>

fun validate_writes :: "mutation_descriptor \<Rightarrow> mutation_value list \<Rightarrow> mutation_error + unit" where
  "validate_writes d [] = Inr ()"
| "validate_writes d (v # vs) =
     (case require_mutation_column d (mv_column v) of
        Inl e \<Rightarrow> Inl e
      | Inr c \<Rightarrow>
          (case mc_writability c of
             Writable \<Rightarrow> validate_writes d vs
           | Generated \<Rightarrow> Inl (InvalidPlan GeneratedColumn)
           | IdentityAlways \<Rightarrow> Inl (InvalidPlan IdentityAlwaysColumn)
           | SystemColumn \<Rightarrow> Inl (InvalidPlan SystemColumnWrite)))"

fun require_all_projected :: "mutation_descriptor \<Rightarrow> mutation_value list \<Rightarrow> mutation_error + unit" where
  "require_all_projected d [] = Inr ()"
| "require_all_projected d (v # vs) =
     (case require_projected_column d (mv_column v) of
        Inl e \<Rightarrow> Inl e
      | Inr _ \<Rightarrow> require_all_projected d vs)"

definition validate_identity :: "mutation_descriptor \<Rightarrow> mutation_value list \<Rightarrow> mutation_error + unit" where
  "validate_identity d identity =
     (if identity = [] then Inl (InvalidPlan EmptyIdentity)
      else if mi_kind (md_identity d) = KindNone \<or> mi_columns (md_identity d) = []
      then Inl (InvalidPlan NoIdentity)
      else case validate_unique_columns identity of
        Inl e \<Rightarrow> Inl e
      | Inr _ \<Rightarrow>
          (case require_all_projected d identity of
             Inl e \<Rightarrow> Inl e
           | Inr _ \<Rightarrow>
               if map mv_column identity \<noteq> mi_columns (md_identity d)
               then Inl (InvalidPlan IdentityMismatch)
               else if is_keyed (mi_kind (md_identity d)) \<and> list_ex (\<lambda>v. mv_value v = None) identity
               then Inl (InvalidPlan NullKeyedIdentity)
               else Inr ()))"

datatype guard_policy = GuardUpdate "mutation_value list" | FullRow

definition required_guards :: "mutation_descriptor \<Rightarrow> guard_policy \<Rightarrow> string list" where
  "required_guards d policy =
     (if requires_full_row_guards (mi_kind (md_identity d)) then projected_columns d
      else case policy of FullRow \<Rightarrow> projected_columns d | GuardUpdate assigned \<Rightarrow> map mv_column assigned)"

definition validate_guards ::
  "mutation_descriptor \<Rightarrow> mutation_value list \<Rightarrow> guard_policy \<Rightarrow> mutation_error + unit" where
  "validate_guards d guards policy =
     (case validate_unique_columns guards of
        Inl e \<Rightarrow> Inl e
      | Inr _ \<Rightarrow>
          (case require_all_projected d guards of
             Inl e \<Rightarrow> Inl e
           | Inr _ \<Rightarrow>
               if list_ex (\<lambda>column. column \<notin> mv_column ` set guards) (required_guards d policy)
               then Inl (InvalidPlan MissingGuard) else Inr ()))"

section \<open>Text\<close>

text \<open>\<open>params\<close> is the vector the code pushes to: a placeholder is its length after the push.\<close>

definition bind_value :: "mutation_value \<Rightarrow> string \<Rightarrow> dml_param list \<Rightarrow> string \<times> dml_param list" where
  "bind_value v cast_type params =
     (let params = params @ [mv_value v]
      in (''($'' @ decimal (length params) @ ''::text)::'' @ cast_type, params))"

definition qualified_descriptor :: "mutation_descriptor \<Rightarrow> string" where
  "qualified_descriptor d = quote_double (md_schema d) @ ''.'' @ quote_double (md_table d)"

definition render_set ::
  "mutation_descriptor \<Rightarrow> mutation_value \<Rightarrow> dml_param list \<Rightarrow> mutation_error + (string \<times> dml_param list)" where
  "render_set d v params =
     (case require_mutation_column d (mv_column v) of
        Inl e \<Rightarrow> Inl e
      | Inr c \<Rightarrow>
          (case bind_value v (mc_cast_type c) params of
             (bound, params) \<Rightarrow> Inr (quote_double (mv_column v) @ '' = '' @ bound, params)))"

definition render_placeholder ::
  "mutation_descriptor \<Rightarrow> mutation_value \<Rightarrow> dml_param list \<Rightarrow> mutation_error + (string \<times> dml_param list)" where
  "render_placeholder d v params =
     (case require_mutation_column d (mv_column v) of
        Inl e \<Rightarrow> Inl e
      | Inr c \<Rightarrow> Inr (bind_value v (mc_cast_type c) params))"

definition render_predicate ::
  "mutation_descriptor \<Rightarrow> mutation_value \<Rightarrow> dml_param list \<Rightarrow> mutation_error + (string \<times> dml_param list)" where
  "render_predicate d v params =
     (case require_projected_column d (mv_column v) of
        Inl e \<Rightarrow> Inl e
      | Inr c \<Rightarrow>
          (case mv_value v of
             Some _ \<Rightarrow>
               (case bind_value v (mc_cast_type c) params of
                  (bound, params) \<Rightarrow> Inr (quote_double (mv_column v) @ '' = '' @ bound, params))
           | None \<Rightarrow> Inr (quote_double (mv_column v) @ '' IS NULL'', params)))"

text \<open>\<open>map(..).collect::<Result<Vec<_>, _>>()\<close> over a closure that pushes to \<open>params\<close>.\<close>

fun render_each ::
  "(mutation_value \<Rightarrow> dml_param list \<Rightarrow> mutation_error + (string \<times> dml_param list)) \<Rightarrow>
   mutation_value list \<Rightarrow> dml_param list \<Rightarrow> mutation_error + (string list \<times> dml_param list)" where
  "render_each f [] params = Inr ([], params)"
| "render_each f (v # vs) params =
     (case f v params of
        Inl e \<Rightarrow> Inl e
      | Inr (text, params) \<Rightarrow>
          (case render_each f vs params of
             Inl e \<Rightarrow> Inl e
           | Inr (texts, params) \<Rightarrow> Inr (text # texts, params)))"

definition render_predicates ::
  "mutation_descriptor \<Rightarrow> mutation_value list \<Rightarrow> mutation_value list \<Rightarrow> dml_param list \<Rightarrow>
   mutation_error + (string list \<times> dml_param list)" where
  "render_predicates d identity guards params = render_each (render_predicate d) (identity @ guards) params"

section \<open>Statements\<close>

definition require_single_origin_table :: "mutation_descriptor list \<Rightarrow> mutation_error + unit" where
  "require_single_origin_table ds =
     (if length ds \<noteq> 1 then Inl (InvalidPlan MultipleOriginTables) else Inr ())"

definition require_mutation_table ::
  "mutation_descriptor list \<Rightarrow> mutation_table \<Rightarrow> mutation_error + mutation_descriptor" where
  "require_mutation_table ds t =
     (case find (\<lambda>d. md_schema d = mt_schema t \<and> md_table d = mt_table t) ds of
        None \<Rightarrow> Inl (InvalidPlan TableMismatch)
      | Some d \<Rightarrow> Inr d)"

definition build_update ::
  "mutation_descriptor \<Rightarrow> mutation_value list \<Rightarrow> mutation_value list \<Rightarrow> mutation_value list \<Rightarrow>
   mutation_error + (string \<times> dml_param list)" where
  "build_update d identity guards assigned =
     (if assigned = [] then Inl (InvalidPlan EmptySet)
      else case validate_unique_columns assigned of Inl e \<Rightarrow> Inl e
      | Inr _ \<Rightarrow>
     (case validate_writes d assigned of Inl e \<Rightarrow> Inl e
      | Inr _ \<Rightarrow>
     (case validate_identity d identity of Inl e \<Rightarrow> Inl e
      | Inr _ \<Rightarrow>
     (case validate_guards d guards (GuardUpdate assigned) of Inl e \<Rightarrow> Inl e
      | Inr _ \<Rightarrow>
     (case render_each (render_set d) assigned [] of Inl e \<Rightarrow> Inl e
      | Inr (set_sql, params) \<Rightarrow>
     (case render_predicates d identity guards params of Inl e \<Rightarrow> Inl e
      | Inr (predicates, params) \<Rightarrow>
          Inr (''UPDATE '' @ qualified_descriptor d @ '' SET '' @ join '', '' set_sql @ '' WHERE ''
                 @ join '' AND '' predicates, params)))))))"

definition build_delete ::
  "mutation_descriptor \<Rightarrow> mutation_value list \<Rightarrow> mutation_value list \<Rightarrow>
   mutation_error + (string \<times> dml_param list)" where
  "build_delete d identity guards =
     (case validate_identity d identity of Inl e \<Rightarrow> Inl e
      | Inr _ \<Rightarrow>
     (case validate_guards d guards FullRow of Inl e \<Rightarrow> Inl e
      | Inr _ \<Rightarrow>
     (case render_predicates d identity guards [] of Inl e \<Rightarrow> Inl e
      | Inr (predicates, params) \<Rightarrow>
          Inr (''DELETE FROM '' @ qualified_descriptor d @ '' WHERE '' @ join '' AND '' predicates, params))))"

definition build_insert ::
  "mutation_descriptor \<Rightarrow> mutation_value list \<Rightarrow> mutation_error + (string \<times> dml_param list)" where
  "build_insert d vs =
     (case validate_unique_columns vs of Inl e \<Rightarrow> Inl e
      | Inr _ \<Rightarrow>
     (case validate_writes d vs of Inl e \<Rightarrow> Inl e
      | Inr _ \<Rightarrow>
      if vs = [] then Inr (''INSERT INTO '' @ qualified_descriptor d @ '' DEFAULT VALUES'', [])
      else case render_each (render_placeholder d) vs [] of Inl e \<Rightarrow> Inl e
      | Inr (placeholders, params) \<Rightarrow>
          Inr (''INSERT INTO '' @ qualified_descriptor d @ '' ('' @ join '', '' (map (quote_double \<circ> mv_column) vs)
                 @ '') VALUES ('' @ join '', '' placeholders @ '')'', params)))"

definition build_operation ::
  "mutation_descriptor list \<Rightarrow> mutation_op \<Rightarrow> mutation_error + (string \<times> dml_param list)" where
  "build_operation ds operation =
     (case operation of
        OpUpdate table identity guards assigned \<Rightarrow>
          (case require_mutation_table ds table of Inl e \<Rightarrow> Inl e
           | Inr d \<Rightarrow> build_update d identity guards assigned)
      | OpDelete table identity guards \<Rightarrow>
          (case require_single_origin_table ds of Inl e \<Rightarrow> Inl e
           | Inr _ \<Rightarrow>
          (case require_mutation_table ds table of Inl e \<Rightarrow> Inl e
           | Inr d \<Rightarrow> build_delete d identity guards))
      | OpInsert table vs \<Rightarrow>
          (case require_single_origin_table ds of Inl e \<Rightarrow> Inl e
           | Inr _ \<Rightarrow>
          (case require_mutation_table ds table of Inl e \<Rightarrow> Inl e
           | Inr d \<Rightarrow> build_insert d vs)))"

fun build_operations ::
  "mutation_descriptor list \<Rightarrow> nat \<Rightarrow> mutation_op list \<Rightarrow> mutation_error + preview_statement list" where
  "build_operations ds i [] = Inr []"
| "build_operations ds i (operation # operations) =
     (case build_operation ds operation of Inl e \<Rightarrow> Inl e
      | Inr (sql, params) \<Rightarrow>
     (case build_operations ds (i + 1) operations of Inl e \<Rightarrow> Inl e
      | Inr sts \<Rightarrow> Inr (\<lparr>ps_op_index = i, ps_sql = sql, ps_params = params\<rparr> # sts)))"

definition build_mutation_plan ::
  "mutation_descriptor list \<Rightarrow> mutation_op list \<Rightarrow> mutation_error + preview_statement list" where
  "build_mutation_plan ds operations = build_operations ds 0 operations"

text \<open>\<open>apply_write_intent\<close> of \<open>mod.rs\<close>: what the safety policy is asked about.\<close>

definition apply_write_intent :: "mutation_op list \<Rightarrow> write_intent" where
  "apply_write_intent operations = ApplyMutations (map (\<lambda>_. Dml False False) operations)"

end
