(* ===== verification/MutationApply.thy ===== *)
theory MutationApply imports MutationBuilder begin

text \<open>
  The transaction that applies an edited result set, \<open>execute_apply\<close> of
  \<open>backend/src/result_mutation/postgres.rs\<close>: it builds the statements from the analysis snapshot,
  locks the target tables, reads their catalog entries again, builds the statements once more,
  and commits only if each of them changed exactly one row.

  The server and the executor that can interrupt the apply are a record of functions from the
  history of what was sent; every function of the record is arbitrary.
\<close>

section \<open>Data\<close>

record mutation_catalog_column =
  cc_attnum :: int
  cc_name :: string
  cc_type_oid :: nat
  cc_type_modifier :: int
  cc_generated :: string
  cc_identity :: string
  cc_has_default :: bool
  cc_default_expression :: "string option"

record catalog_descriptor =
  cd_oid :: nat
  cd_identity_object_oid :: "nat option"
  cd_columns :: "mutation_catalog_column list"
  cd_mutation :: mutation_descriptor

datatype apply_checkpoint = BeforeTransaction | BeforeOperation | AdmitCommit

datatype apply_event =
  Checked apply_checkpoint
| Ran string
| Executed string "dml_param list"
| ReadCatalog

record apply_world =
  w_check :: "apply_event list \<Rightarrow> apply_checkpoint \<Rightarrow> mutation_error option"
  w_run :: "apply_event list \<Rightarrow> string \<Rightarrow> mutation_error option"
  w_execute :: "apply_event list \<Rightarrow> string \<Rightarrow> dml_param list \<Rightarrow> mutation_error + nat"
  w_relation :: "apply_event list \<Rightarrow> nat \<Rightarrow> mutation_error + (string \<times> string) option"
  w_children :: "apply_event list \<Rightarrow> nat list \<Rightarrow> mutation_error + bool"
  w_load :: "apply_event list \<Rightarrow> string \<Rightarrow> string \<Rightarrow> mutation_error + catalog_descriptor"
  w_closed :: "apply_event list \<Rightarrow> bool"

section \<open>Errors\<close>

definition map_apply_error :: "mutation_error \<Rightarrow> nat \<Rightarrow> mutation_error" where
  "map_apply_error mapped op_index =
     (case mapped of
        MutationDatabase code message severity at_position _ \<Rightarrow>
          if code = Some ''55P03'' then MutationLockTimeout op_index
          else MutationDatabase code message severity at_position (Some op_index)
      | other \<Rightarrow> other)"

definition error_code :: "mutation_error \<Rightarrow> string option" where
  "error_code e = (case e of MutationDatabase code _ _ _ _ \<Rightarrow> code | _ \<Rightarrow> None)"

definition is_undefined_object :: "mutation_error \<Rightarrow> bool" where
  "is_undefined_object e \<longleftrightarrow> error_code e = Some ''42703'' \<or> error_code e = Some ''42P01''"

section \<open>Locking and reading the catalog again\<close>

definition op_target :: "mutation_op \<Rightarrow> mutation_table" where
  "op_target operation = (case operation of OpUpdate t _ _ _ \<Rightarrow> t | OpDelete t _ _ \<Rightarrow> t | OpInsert t _ \<Rightarrow> t)"

fun operation_targets_from ::
  "(string \<times> string) set \<Rightarrow> nat \<Rightarrow> mutation_op list \<Rightarrow> (mutation_table \<times> nat) list" where
  "operation_targets_from seen i [] = []"
| "operation_targets_from seen i (operation # operations) =
     (let t = op_target operation; key = (mt_schema t, mt_table t)
      in if key \<in> seen then operation_targets_from seen (i + 1) operations
         else (t, i) # operation_targets_from (insert key seen) (i + 1) operations)"

definition operation_targets :: "mutation_op list \<Rightarrow> (mutation_table \<times> nat) list" where
  "operation_targets operations = operation_targets_from {} 0 operations"

definition is_target :: "mutation_table \<Rightarrow> catalog_descriptor \<Rightarrow> bool" where
  "is_target t cd \<longleftrightarrow> md_schema (cd_mutation cd) = mt_schema t \<and> md_table (cd_mutation cd) = mt_table t"

definition lock_table_text :: "string \<Rightarrow> string \<Rightarrow> string" where
  "lock_table_text schema table =
     ''LOCK TABLE '' @ quote_double schema @ ''.'' @ quote_double table @ '' IN ROW EXCLUSIVE MODE''"

fun lock_targets ::
  "apply_world \<Rightarrow> catalog_descriptor list \<Rightarrow> (mutation_table \<times> nat) list \<Rightarrow> apply_event list \<Rightarrow>
   apply_event list \<times> (mutation_error + catalog_descriptor list)" where
  "lock_targets w snapshot [] log = (log, Inr [])"
| "lock_targets w snapshot ((target, i) # targets) log =
     (case find (is_target target) snapshot of
        None \<Rightarrow> (log, Inl (InvalidPlan TableMismatch))
      | Some previous \<Rightarrow>
          (case w_relation w log (cd_oid previous) of
             Inl e \<Rightarrow> (log @ [ReadCatalog], Inl e)
           | Inr None \<Rightarrow> (log @ [ReadCatalog], Inl AnalysisExpired)
           | Inr (Some (schema, table)) \<Rightarrow>
               let log = log @ [ReadCatalog]; lock = lock_table_text schema table in
               if schema \<noteq> md_schema (cd_mutation previous) \<or> table \<noteq> md_table (cd_mutation previous)
               then (log, Inl AnalysisExpired)
               else case w_run w log lock of
                 Some e \<Rightarrow> (log @ [Ran lock], Inl (map_apply_error e i))
               | None \<Rightarrow>
                   (case lock_targets w snapshot targets (log @ [Ran lock]) of
                      (log, Inl e) \<Rightarrow> (log, Inl e)
                    | (log, Inr cds) \<Rightarrow> (log, Inr (previous # cds)))))"

definition has_unsafe_inheritance_children ::
  "apply_world \<Rightarrow> nat list \<Rightarrow> apply_event list \<Rightarrow> apply_event list \<times> (mutation_error + bool)" where
  "has_unsafe_inheritance_children w oids log =
     (if oids = [] then (log, Inr False) else (log @ [ReadCatalog], w_children w log oids))"

type_synonym descriptor_cache = "string \<times> string \<Rightarrow> catalog_descriptor option"

definition descriptor_by_name ::
  "apply_world \<Rightarrow> string \<Rightarrow> string \<Rightarrow> descriptor_cache \<Rightarrow> apply_event list \<Rightarrow>
   descriptor_cache \<times> apply_event list \<times> (mutation_error + catalog_descriptor)" where
  "descriptor_by_name w schema table cache log =
     (case cache (schema, table) of
        Some cd \<Rightarrow> (cache, log, Inr cd)
      | None \<Rightarrow>
          (case w_load w log schema table of
             Inl e \<Rightarrow> (cache, log @ [ReadCatalog], Inl e)
           | Inr cd \<Rightarrow> (cache((schema, table) \<mapsto> cd), log @ [ReadCatalog], Inr cd)))"

text \<open>The projection and the virtual key of the analysis, carried over to the new entry.\<close>

definition carry_over :: "catalog_descriptor \<Rightarrow> catalog_descriptor \<Rightarrow> catalog_descriptor" where
  "carry_over previous current =
     (let was = cd_mutation previous;
          projected = mc_name ` set (filter mc_projected (md_columns was));
          columns = map (\<lambda>c. c\<lparr>mc_projected := mc_name c \<in> projected\<rparr>) (md_columns (cd_mutation current))
            @ filter (\<lambda>c. mc_writability c = SystemColumn \<and> mc_projected c) (md_columns was);
          now = (cd_mutation current)\<lparr>md_columns := columns\<rparr>;
          valid = list_all (\<lambda>name. mutation_column_of now name \<noteq> None \<and> name \<in> projected)
            (mi_columns (md_identity was))
      in current\<lparr>cd_mutation :=
           (if mi_kind (md_identity was) = KindVirtualKey \<and> valid
            then now\<lparr>md_identity := md_identity was\<rparr> else now)\<rparr>)"

definition ensure_descriptor_unchanged ::
  "catalog_descriptor \<Rightarrow> catalog_descriptor \<Rightarrow> mutation_error + unit" where
  "ensure_descriptor_unchanged previous current =
     (if current = previous then Inr () else Inl AnalysisExpired)"

fun refresh_each ::
  "apply_world \<Rightarrow> catalog_descriptor list \<Rightarrow> descriptor_cache \<Rightarrow> apply_event list \<Rightarrow>
   apply_event list \<times> (mutation_error + mutation_descriptor list)" where
  "refresh_each w [] cache log = (log, Inr [])"
| "refresh_each w (previous # rest) cache log =
     (case descriptor_by_name w (md_schema (cd_mutation previous)) (md_table (cd_mutation previous)) cache log of
        (_, log, Inl e) \<Rightarrow> (log, Inl e)
      | (cache, log, Inr loaded) \<Rightarrow>
          let current = carry_over previous loaded in
          (case ensure_descriptor_unchanged previous current of
             Inl e \<Rightarrow> (log, Inl e)
           | Inr _ \<Rightarrow>
               (case refresh_each w rest cache log of
                  (log, Inl e) \<Rightarrow> (log, Inl e)
                | (log, Inr ds) \<Rightarrow> (log, Inr (cd_mutation current # ds)))))"

definition refresh_for_apply ::
  "apply_world \<Rightarrow> catalog_descriptor list \<Rightarrow> apply_event list \<Rightarrow>
   apply_event list \<times> (mutation_error + mutation_descriptor list)" where
  "refresh_for_apply w snapshot log = refresh_each w snapshot (\<lambda>_. None) log"

text \<open>A descriptor of the snapshot is replaced by the refreshed one of its table, once.\<close>

fun replace_refreshed ::
  "(string \<times> string \<Rightarrow> mutation_descriptor option) \<Rightarrow> mutation_descriptor list \<Rightarrow> mutation_descriptor list" where
  "replace_refreshed m [] = []"
| "replace_refreshed m (d # ds) =
     (let key = (md_schema d, md_table d)
      in (case m key of Some r \<Rightarrow> r | None \<Rightarrow> d) # replace_refreshed (m(key := None)) ds)"

definition lock_and_refresh_for_apply ::
  "apply_world \<Rightarrow> catalog_descriptor list \<Rightarrow> mutation_op list \<Rightarrow> apply_event list \<Rightarrow>
   apply_event list \<times> (mutation_error + mutation_descriptor list)" where
  "lock_and_refresh_for_apply w snapshot operations log =
     (let targets = operation_targets operations in
      case lock_targets w snapshot targets log of
        (log, Inl e) \<Rightarrow> (log, Inl e)
      | (log, Inr targeted) \<Rightarrow>
          (case has_unsafe_inheritance_children w (map cd_oid targeted) log of
             (log, Inl e) \<Rightarrow> (log, Inl e)
           | (log, Inr True) \<Rightarrow> (log, Inl AnalysisExpired)
           | (log, Inr False) \<Rightarrow>
               (case refresh_for_apply w targeted log of
                  (log, Inl e) \<Rightarrow> (log, Inl (if is_undefined_object e then AnalysisExpired else e))
                | (log, Inr refreshed) \<Rightarrow>
                    (log, Inr (replace_refreshed
                       (map_of (rev (zip (map (\<lambda>(t, _). (mt_schema t, mt_table t)) targets) refreshed)))
                       (map cd_mutation snapshot))))))"

section \<open>The transaction\<close>

record applied_operation =
  ao_op_index :: nat
  ao_rows_affected :: nat

definition LOCK_TIMEOUT_SQL :: string where
  "LOCK_TIMEOUT_SQL = ''SET LOCAL lock_timeout = '' @ [SQUOTE] @ ''10s'' @ [SQUOTE]"

type_synonym apply_outcome = "apply_event list \<times> (mutation_error + applied_operation list) \<times> bool"

definition rollback_and_verify :: "apply_world \<Rightarrow> apply_event list \<Rightarrow> apply_event list \<times> bool" where
  "rollback_and_verify w log =
     (case w_run w log ''ROLLBACK'' of
        Some _ \<Rightarrow> (log @ [Ran ''ROLLBACK''], False)
      | None \<Rightarrow>
          let log = log @ [Ran ''ROLLBACK''] in (log @ [Ran ''SELECT 1''], w_run w log ''SELECT 1'' = None))"

definition failed_apply :: "apply_world \<Rightarrow> apply_event list \<Rightarrow> mutation_error \<Rightarrow> apply_outcome" where
  "failed_apply w log e = (case rollback_and_verify w log of (log, healthy) \<Rightarrow> (log, Inl e, healthy))"

fun execute_statements ::
  "apply_world \<Rightarrow> preview_statement list \<Rightarrow> apply_event list \<Rightarrow>
   apply_event list \<times> (mutation_error + applied_operation list)" where
  "execute_statements w [] log = (log, Inr [])"
| "execute_statements w (st # sts) log =
     (case w_check w log BeforeOperation of
        Some e \<Rightarrow> (log @ [Checked BeforeOperation], Inl e)
      | None \<Rightarrow>
          let log = log @ [Checked BeforeOperation] in
          (case w_execute w log (ps_sql st) (ps_params st) of
             Inl e \<Rightarrow> (log @ [Executed (ps_sql st) (ps_params st)], Inl (map_apply_error e (ps_op_index st)))
           | Inr affected \<Rightarrow>
               let log = log @ [Executed (ps_sql st) (ps_params st)] in
               if affected = 0 then (log, Inl (MutationConflict (ps_op_index st)))
               else if 1 < affected then (log, Inl (IdentityNotUnique (ps_op_index st)))
               else case execute_statements w sts log of
                 (log, Inl e) \<Rightarrow> (log, Inl e)
               | (log, Inr ops) \<Rightarrow>
                   (log, Inr (\<lparr>ao_op_index = ps_op_index st, ao_rows_affected = affected\<rparr> # ops))))"

definition commit_apply :: "apply_world \<Rightarrow> applied_operation list \<Rightarrow> apply_event list \<Rightarrow> apply_outcome" where
  "commit_apply w ops log =
     (case w_check w log AdmitCommit of
        Some e \<Rightarrow> failed_apply w (log @ [Checked AdmitCommit]) e
      | None \<Rightarrow>
          let log = log @ [Checked AdmitCommit] in
          (case w_run w log ''COMMIT'' of
             Some e \<Rightarrow> (log @ [Ran ''COMMIT''], Inl e, False)
           | None \<Rightarrow> (log @ [Ran ''COMMIT''], Inr ops, True)))"

text \<open>From the statement after \<open>BEGIN\<close> on.\<close>

definition apply_in_transaction ::
  "apply_world \<Rightarrow> catalog_descriptor list \<Rightarrow> mutation_op list \<Rightarrow> apply_event list \<Rightarrow> apply_outcome" where
  "apply_in_transaction w snapshot operations log =
     (case w_check w log BeforeOperation of
        Some e \<Rightarrow> failed_apply w (log @ [Checked BeforeOperation]) e
      | None \<Rightarrow>
     (let log = log @ [Checked BeforeOperation] in
      case w_run w log LOCK_TIMEOUT_SQL of
        Some e \<Rightarrow> failed_apply w (log @ [Ran LOCK_TIMEOUT_SQL]) e
      | None \<Rightarrow>
     (case lock_and_refresh_for_apply w snapshot operations (log @ [Ran LOCK_TIMEOUT_SQL]) of
        (log, Inl e) \<Rightarrow> failed_apply w log e
      | (log, Inr ds) \<Rightarrow>
     (case build_mutation_plan ds operations of
        Inl e \<Rightarrow> failed_apply w log e
      | Inr statements \<Rightarrow>
     (case execute_statements w statements log of
        (log, Inl e) \<Rightarrow> failed_apply w log e
      | (log, Inr ops) \<Rightarrow> commit_apply w ops log)))))"

definition execute_apply :: "apply_world \<Rightarrow> catalog_descriptor list \<Rightarrow> mutation_op list \<Rightarrow> apply_outcome" where
  "execute_apply w snapshot operations =
     (case build_mutation_plan (map cd_mutation snapshot) operations of
        Inl e \<Rightarrow> ([], Inl e, True)
      | Inr _ \<Rightarrow>
     (case w_check w [] BeforeTransaction of
        Some e \<Rightarrow> ([Checked BeforeTransaction], Inl e, True)
      | None \<Rightarrow>
     (let log = [Checked BeforeTransaction] in
      case w_run w log ''BEGIN'' of
        Some e \<Rightarrow> (log @ [Ran ''BEGIN''], Inl e, \<not> w_closed w (log @ [Ran ''BEGIN'']))
      | None \<Rightarrow> apply_in_transaction w snapshot operations (log @ [Ran ''BEGIN'']))))"

end
