(* ===== verification/MutationApplyFacts.thy ===== *)
theory MutationApplyFacts imports MutationApply begin

text \<open>
  What \<open>execute_apply\<close> sends and when it commits: on success exactly the statements of the preview,
  each with one row changed, between one \<open>BEGIN\<close> and one \<open>COMMIT\<close>; on failure nothing stays.
\<close>

section \<open>What was sent\<close>

fun executed :: "apply_event list \<Rightarrow> (string \<times> dml_param list) list" where
  "executed [] = []"
| "executed (Executed sql ps # log) = (sql, ps) # executed log"
| "executed (Ran t # log) = executed log"
| "executed (Checked c # log) = executed log"
| "executed (ReadCatalog # log) = executed log"

fun texts_run :: "apply_event list \<Rightarrow> string list" where
  "texts_run [] = []"
| "texts_run (Ran t # log) = t # texts_run log"
| "texts_run (Executed sql ps # log) = texts_run log"
| "texts_run (Checked c # log) = texts_run log"
| "texts_run (ReadCatalog # log) = texts_run log"

lemma executed_append [simp]: "executed (a @ b) = executed a @ executed b"
  by (induction a rule: executed.induct) simp_all

lemma texts_run_append [simp]: "texts_run (a @ b) = texts_run a @ texts_run b"
  by (induction a rule: texts_run.induct) simp_all

definition is_lock :: "string \<Rightarrow> bool" where
  "is_lock t \<longleftrightarrow> (\<exists>schema table. t = lock_table_text schema table)"

lemma lock_differs:
  "is_lock t \<Longrightarrow> t \<noteq> ''BEGIN''" "is_lock t \<Longrightarrow> t \<noteq> ''COMMIT''" "is_lock t \<Longrightarrow> t \<noteq> ''ROLLBACK''"
  by (auto simp: is_lock_def lock_table_text_def)

lemma lock_timeout_differs:
  "LOCK_TIMEOUT_SQL \<noteq> ''BEGIN''" "LOCK_TIMEOUT_SQL \<noteq> ''COMMIT''" "LOCK_TIMEOUT_SQL \<noteq> ''ROLLBACK''"
  by (simp_all add: LOCK_TIMEOUT_SQL_def)

text \<open>A part of the transaction that sends no statement and nothing but locks.\<close>

definition only_locks :: "apply_event list \<Rightarrow> apply_event list \<Rightarrow> bool" where
  "only_locks log log' \<longleftrightarrow> (\<exists>ext. log' = log @ ext \<and> executed ext = [] \<and> list_all is_lock (texts_run ext))"

lemma only_locks_refl [simp]: "only_locks log log"
  by (simp add: only_locks_def)

lemma only_locks_trans: "only_locks a b \<Longrightarrow> only_locks b c \<Longrightarrow> only_locks a c"
  by (auto simp: only_locks_def)

lemma only_locks_steps [simp]:
  "only_locks log (log @ [ReadCatalog])"
  "only_locks log (log @ [ReadCatalog, Ran (lock_table_text s t)])"
  "only_locks log (log @ [Ran (lock_table_text s t)])"
  by (auto simp: only_locks_def is_lock_def)

section \<open>Locking and refreshing\<close>

lemma lock_targets_locks: "lock_targets w snapshot targets log = (log', r) \<Longrightarrow> only_locks log log'"
proof (induction targets arbitrary: log log' r)
  case (Cons ti targets)
  obtain t i where ti: "ti = (t, i)" by (cases ti)
  show ?case
  proof (cases "find (is_target t) snapshot")
    case (Some previous)
    show ?thesis
    proof (cases "w_relation w log (cd_oid previous)")
      case (Inr found)
      show ?thesis
      proof (cases found)
        case (Some st)
        obtain s n where st: "st = (s, n)" by (cases st)
        let ?log = "log @ [ReadCatalog, Ran (lock_table_text s n)]"
        note IH = Cons.IH [of ?log]
        obtain log2 r2 where rest: "lock_targets w snapshot targets ?log = (log2, r2)"
          by (cases "lock_targets w snapshot targets ?log")
        have "only_locks log log2"
          by (rule only_locks_trans [OF _ IH [OF rest]]) simp
        with Cons.prems \<open>find (is_target t) snapshot = Some previous\<close> Inr Some st ti rest show ?thesis
          by (auto simp: Let_def split: if_splits option.splits sum.splits)
      qed (use Cons.prems \<open>find (is_target t) snapshot = Some previous\<close> Inr ti in auto)
    qed (use Cons.prems \<open>find (is_target t) snapshot = Some previous\<close> ti in auto)
  qed (use Cons.prems ti in auto)
qed auto

lemma lock_targets_found:
  "lock_targets w snapshot targets log = (log', Inr cds) \<Longrightarrow>
   list_all2 (\<lambda>(t, i) cd. find (is_target t) snapshot = Some cd) targets cds"
  by (induction targets arbitrary: log log' cds)
    (auto simp: Let_def split: option.splits sum.splits if_splits prod.splits)

lemma descriptor_by_name_locks:
  "descriptor_by_name w s t cache log = (cache', log', r) \<Longrightarrow> only_locks log log'"
  by (auto simp: descriptor_by_name_def split: option.splits sum.splits)

lemma refresh_each_locks: "refresh_each w cds cache log = (log', r) \<Longrightarrow> only_locks log log'"
proof (induction cds arbitrary: cache log log' r)
  case (Cons cd cds)
  obtain cache2 log2 r2 where load: "descriptor_by_name w (md_schema (cd_mutation cd)) (md_table (cd_mutation cd)) cache log
      = (cache2, log2, r2)" by (metis prod_cases3)
  have first: "only_locks log log2" by (rule descriptor_by_name_locks [OF load])
  obtain log3 r3 where rest: "refresh_each w cds cache2 log2 = (log3, r3)"
    by (cases "refresh_each w cds cache2 log2")
  from only_locks_trans [OF first Cons.IH [OF rest]] first Cons.prems load rest show ?case
    by (auto simp: Let_def split: sum.splits)
qed simp

lemma refresh_each_unchanged:
  "refresh_each w cds cache log = (log', Inr ds) \<Longrightarrow> ds = map cd_mutation cds"
  by (induction cds arbitrary: cache log log' ds)
    (auto simp: Let_def ensure_descriptor_unchanged_def split: sum.splits prod.splits if_splits)

lemma replace_refreshed_same:
  assumes "\<forall>key r. m key = Some r \<longrightarrow> find (\<lambda>d. (md_schema d, md_table d) = key) ds = Some r"
  shows "replace_refreshed m ds = ds"
  using assms
proof (induction ds arbitrary: m)
  case (Cons d ds)
  let ?key = "(md_schema d, md_table d)"
  have head: "m ?key = Some r \<Longrightarrow> r = d" for r
    using Cons.prems by fastforce
  have IH: "replace_refreshed (m(?key := None)) ds = ds"
    by (rule Cons.IH) (use Cons.prems in \<open>auto split: if_splits\<close>)
  show ?case
  proof (cases "m ?key")
    case None
    then show ?thesis unfolding replace_refreshed.simps Let_def IH by simp
  next
    case (Some r)
    from head [OF Some] Some show ?thesis unfolding replace_refreshed.simps Let_def IH by simp
  qed
qed simp

lemma find_target_descriptor:
  "find (is_target t) snapshot = Some cd \<Longrightarrow>
   find (\<lambda>d. (md_schema d, md_table d) = (mt_schema t, mt_table t)) (map cd_mutation snapshot) = Some (cd_mutation cd)"
  by (induction snapshot) (auto simp: is_target_def split: if_splits)

lemma lock_and_refresh_same:
  assumes "lock_and_refresh_for_apply w snapshot operations log = (log', Inr ds)"
  shows "ds = map cd_mutation snapshot"
proof -
  let ?targets = "operation_targets operations"
  let ?keys = "map (\<lambda>(t, _). (mt_schema t, mt_table t)) ?targets"
  obtain log1 targeted log2 refreshed where
    lock: "lock_targets w snapshot ?targets log = (log1, Inr targeted)"
    and refresh: "refresh_for_apply w targeted log2 = (log', Inr refreshed)"
    and ds: "ds = replace_refreshed (map_of (rev (zip ?keys refreshed))) (map cd_mutation snapshot)"
    using assms
    by (auto simp: lock_and_refresh_for_apply_def Let_def split: prod.splits sum.splits bool.splits)
  have refreshed: "refreshed = map cd_mutation targeted"
    using refresh by (auto simp: refresh_for_apply_def dest: refresh_each_unchanged)
  note found = lock_targets_found [OF lock]
  have "find (\<lambda>d. (md_schema d, md_table d) = key) (map cd_mutation snapshot) = Some r"
    if "map_of (rev (zip ?keys refreshed)) key = Some r" for key r
  proof -
    have "(key, r) \<in> set (zip ?keys refreshed)"
      using map_of_SomeD [OF that] by simp
    then obtain i where i: "i < length ?targets" "i < length targeted" "key = ?keys ! i" "r = cd_mutation (targeted ! i)"
      unfolding refreshed by (auto simp: in_set_zip)
    obtain t k where tk: "?targets ! i = (t, k)" by (cases "?targets ! i")
    have "find (is_target t) snapshot = Some (targeted ! i)"
      using list_all2_nthD [OF found i(1)] tk by simp
    from find_target_descriptor [OF this] i tk show ?thesis by simp
  qed
  then show ?thesis unfolding ds by (intro replace_refreshed_same) blast
qed

lemma lock_and_refresh_locks:
  assumes "lock_and_refresh_for_apply w snapshot operations log = (log', r)"
  shows "only_locks log log'"
proof -
  obtain log1 r1 where lock: "lock_targets w snapshot (operation_targets operations) log = (log1, r1)"
    by (cases "lock_targets w snapshot (operation_targets operations) log")
  have first: "only_locks log log1" by (rule lock_targets_locks [OF lock])
  show ?thesis
  proof (cases r1)
    case (Inl e)
    with assms lock first show ?thesis by (simp add: lock_and_refresh_for_apply_def)
  next
    case (Inr targeted)
    obtain log2 r2 where children: "has_unsafe_inheritance_children w (map cd_oid targeted) log1 = (log2, r2)"
      by (cases "has_unsafe_inheritance_children w (map cd_oid targeted) log1")
    have second: "only_locks log log2"
      using children by (intro only_locks_trans [OF first]) (auto simp: has_unsafe_inheritance_children_def split: if_splits)
    obtain log3 r3 where refresh: "refresh_for_apply w targeted log2 = (log3, r3)"
      by (cases "refresh_for_apply w targeted log2")
    have "only_locks log log3"
      by (rule only_locks_trans [OF second refresh_each_locks [OF refresh [unfolded refresh_for_apply_def]]])
    with assms lock Inr children refresh second show ?thesis
      by (auto simp: lock_and_refresh_for_apply_def split: sum.splits bool.splits)
  qed
qed

section \<open>Executing and committing\<close>

lemma execute_statements_sends:
  "execute_statements w sts log = (log', r) \<Longrightarrow> \<exists>ext. log' = log @ ext \<and> texts_run ext = []
     \<and> (\<forall>ops. r = Inr ops \<longrightarrow> executed ext = map (\<lambda>st. (ps_sql st, ps_params st)) sts
          \<and> ops = map (\<lambda>st. \<lparr>ao_op_index = ps_op_index st, ao_rows_affected = 1\<rparr>) sts)"
proof (induction sts arbitrary: log log' r)
  case (Cons st sts)
  let ?log = "log @ [Checked BeforeOperation, Executed (ps_sql st) (ps_params st)]"
  obtain log2 r2 where rest: "execute_statements w sts ?log = (log2, r2)"
    by (cases "execute_statements w sts ?log")
  from Cons.IH [OF this] obtain ext where ext: "log2 = ?log @ ext" "texts_run ext = []"
    "\<forall>ops. r2 = Inr ops \<longrightarrow> executed ext = map (\<lambda>st. (ps_sql st, ps_params st)) sts
       \<and> ops = map (\<lambda>st. \<lparr>ao_op_index = ps_op_index st, ao_rows_affected = 1\<rparr>) sts" by blast
  consider (stop) e where "log' = log @ [Checked BeforeOperation]" "r = Inl e"
    | (failed) e where "log' = ?log" "r = Inl e"
    | (more) "w_execute w (log @ [Checked BeforeOperation]) (ps_sql st) (ps_params st) = Inr 1"
      "log' = log2" "r = (case r2 of Inl e \<Rightarrow> Inl e
          | Inr ops \<Rightarrow> Inr (\<lparr>ao_op_index = ps_op_index st, ao_rows_affected = 1\<rparr> # ops))"
    using Cons.prems rest
    by (auto simp: Let_def split: option.splits sum.splits if_splits prod.splits)
  then show ?case
  proof cases
    case more
    with ext show ?thesis
      by (intro exI [of _ "[Checked BeforeOperation, Executed (ps_sql st) (ps_params st)] @ ext"])
        (auto split: sum.splits)
  qed auto
qed simp

lemma build_operations_indices:
  "build_operations ds i operations = Inr sts \<Longrightarrow> map ps_op_index sts = [i..<i + length operations]"
  by (induction operations arbitrary: i sts)
    (auto simp: upt_conv_Cons simp del: upt_Suc split: sum.splits)

lemma failed_apply_rolls_back:
  "failed_apply w log e = (log', r, healthy) \<Longrightarrow> r = Inl e \<and> (\<exists>ping. log' = log @ Ran ''ROLLBACK'' # ping
     \<and> (ping = [] \<and> \<not> healthy \<or> ping = [Ran ''SELECT 1'']))"
  by (auto simp: failed_apply_def rollback_and_verify_def Let_def split: option.splits)

text \<open>How an apply that got past \<open>BEGIN\<close> can end.\<close>

definition committed :: "apply_event list \<Rightarrow> preview_statement list \<Rightarrow> bool" where
  "committed log sts \<longleftrightarrow> (\<exists>locks. log = Checked BeforeTransaction # Ran ''BEGIN'' # locks @ [Checked AdmitCommit, Ran ''COMMIT'']
     \<and> executed locks = map (\<lambda>st. (ps_sql st, ps_params st)) sts
     \<and> list_all (\<lambda>t. t = LOCK_TIMEOUT_SQL \<or> is_lock t) (texts_run locks))"

definition rolled_back :: "apply_event list \<Rightarrow> bool" where
  "rolled_back log \<longleftrightarrow> (\<exists>work ping. log = Checked BeforeTransaction # Ran ''BEGIN'' # work @ Ran ''ROLLBACK'' # ping
     \<and> executed ping = [] \<and> set (texts_run ping) \<subseteq> {''SELECT 1''} \<and> ''COMMIT'' \<notin> set (texts_run work))"

lemma only_locks_ran: "only_locks log log' \<Longrightarrow> \<exists>ext. log' = log @ ext \<and> executed ext = [] \<and> list_all is_lock (texts_run ext)"
  by (simp add: only_locks_def)

lemma list_all_mono: "list_all P xs \<Longrightarrow> (\<And>x. P x \<Longrightarrow> Q x) \<Longrightarrow> list_all Q xs"
  by (auto simp: list_all_iff)

lemma locks_no_commit: "list_all is_lock (texts_run ext) \<Longrightarrow> ''COMMIT'' \<notin> set (texts_run ext)"
  by (auto simp: list_all_iff dest: lock_differs)

lemma failed_apply_rolled_back:
  assumes "failed_apply w (Checked BeforeTransaction # Ran ''BEGIN'' # work) e = (log', r, healthy)"
    "''COMMIT'' \<notin> set (texts_run work)"
  shows "r = Inl e \<and> rolled_back log'"
  using failed_apply_rolls_back [OF assms(1)] assms(2) unfolding rolled_back_def by fastforce

definition applied_to :: "preview_statement list \<Rightarrow> applied_operation list" where
  "applied_to sts = map (\<lambda>st. \<lparr>ao_op_index = ps_op_index st, ao_rows_affected = 1\<rparr>) sts"

lemma execute_and_commit_ends:
  assumes work: "executed work = []" "list_all (\<lambda>t. t = LOCK_TIMEOUT_SQL \<or> is_lock t) (texts_run work)"
    "''COMMIT'' \<notin> set (texts_run work)"
    and ends: "(case execute_statements w sts (Checked BeforeTransaction # Ran ''BEGIN'' # work) of
        (log, Inl e) \<Rightarrow> failed_apply w log e | (log, Inr ops) \<Rightarrow> commit_apply w ops log) = (log', r, healthy)"
  shows "case r of Inr applied \<Rightarrow> healthy \<and> committed log' sts \<and> applied = applied_to sts
    | Inl e \<Rightarrow> rolled_back log' \<or> (last log' = Ran ''COMMIT'' \<and> \<not> healthy)"
proof -
  obtain log4 r4 where executes:
    "execute_statements w sts (Checked BeforeTransaction # Ran ''BEGIN'' # work) = (log4, r4)"
    by (cases "execute_statements w sts (Checked BeforeTransaction # Ran ''BEGIN'' # work)")
  from execute_statements_sends [OF this] obtain ext where
    ext: "log4 = Checked BeforeTransaction # Ran ''BEGIN'' # (work @ ext)" "texts_run ext = []"
    "\<forall>ops. r4 = Inr ops \<longrightarrow> executed ext = map (\<lambda>st. (ps_sql st, ps_params st)) sts \<and> ops = applied_to sts"
    unfolding applied_to_def by auto
  show ?thesis
  proof (cases r4)
    case (Inl e)
    with ends executes ext(1) have "failed_apply w (Checked BeforeTransaction # Ran ''BEGIN'' # (work @ ext)) e = (log', r, healthy)"
      by simp
    from failed_apply_rolled_back [OF this] work(3) ext(2) show ?thesis by simp
  next
    case (Inr ops)
    with ends executes have commit: "commit_apply w ops log4 = (log', r, healthy)" by simp
    show ?thesis
    proof (cases "w_check w log4 AdmitCommit")
      case (Some e)
      with commit ext(1) have "failed_apply w (Checked BeforeTransaction # Ran ''BEGIN'' # (work @ ext @ [Checked AdmitCommit])) e
          = (log', r, healthy)" by (simp add: commit_apply_def)
      from failed_apply_rolled_back [OF this] work(3) ext(2) show ?thesis by simp
    next
      case None
      have "committed (log4 @ [Checked AdmitCommit, Ran ''COMMIT'']) sts"
        unfolding committed_def by (rule exI [of _ "work @ ext"]) (use ext Inr work in auto)
      with commit None ext(3) Inr show ?thesis
        by (auto simp: commit_apply_def Let_def split: option.splits)
    qed
  qed
qed

lemma apply_in_transaction_ends:
  assumes "apply_in_transaction w snapshot operations [Checked BeforeTransaction, Ran ''BEGIN''] = (log', r, healthy)"
    and built: "build_mutation_plan (map cd_mutation snapshot) operations = Inr sts"
  shows "case r of Inr applied \<Rightarrow> healthy \<and> committed log' sts \<and> applied = applied_to sts
    | Inl e \<Rightarrow> rolled_back log' \<or> (last log' = Ran ''COMMIT'' \<and> \<not> healthy)"
proof -
  let ?log = "[Checked BeforeTransaction, Ran ''BEGIN'']"
  let ?log1 = "?log @ [Checked BeforeOperation]"
  let ?begun = "\<lambda>work. Checked BeforeTransaction # Ran ''BEGIN'' # work"
  obtain log3 r3 where refresh: "lock_and_refresh_for_apply w snapshot operations (?log1 @ [Ran LOCK_TIMEOUT_SQL]) = (log3, r3)"
    by (cases "lock_and_refresh_for_apply w snapshot operations (?log1 @ [Ran LOCK_TIMEOUT_SQL])")
  from only_locks_ran [OF lock_and_refresh_locks [OF refresh]] obtain locks where
    locks: "log3 = ?begun ([Checked BeforeOperation, Ran LOCK_TIMEOUT_SQL] @ locks)" "executed locks = []" "list_all is_lock (texts_run locks)"
    by auto
  let ?work = "[Checked BeforeOperation, Ran LOCK_TIMEOUT_SQL] @ locks"
  have quiet: "''COMMIT'' \<notin> set (texts_run ?work)" "executed ?work = []" "list_all (\<lambda>t. t = LOCK_TIMEOUT_SQL \<or> is_lock t) (texts_run ?work)"
    using locks_no_commit [OF locks(3)] locks by (auto simp: lock_timeout_differs [symmetric] intro: list_all_mono)
  consider (checked) e where "w_check w ?log BeforeOperation = Some e"
    | (timeout) e where "w_check w ?log BeforeOperation = None" "w_run w ?log1 LOCK_TIMEOUT_SQL = Some e"
    | (refresh) e where "w_check w ?log BeforeOperation = None" "w_run w ?log1 LOCK_TIMEOUT_SQL = None" "r3 = Inl e"
    | (executes) ds where "w_check w ?log BeforeOperation = None" "w_run w ?log1 LOCK_TIMEOUT_SQL = None" "r3 = Inr ds"
    by (metis not_Some_eq sum.exhaust)
  then show ?thesis
  proof cases
    case checked
    with assms have "failed_apply w (?begun [Checked BeforeOperation]) e = (log', r, healthy)"
      by (simp add: apply_in_transaction_def)
    from failed_apply_rolled_back [OF this] show ?thesis by simp
  next
    case timeout
    with assms have "failed_apply w (?begun [Checked BeforeOperation, Ran LOCK_TIMEOUT_SQL]) e = (log', r, healthy)"
      by (simp add: apply_in_transaction_def)
    from failed_apply_rolled_back [OF this] show ?thesis by (simp add: lock_timeout_differs [symmetric])
  next
    case refresh
    with assms locks(1) \<open>lock_and_refresh_for_apply w snapshot operations _ = _\<close>
    have "failed_apply w (?begun ?work) e = (log', r, healthy)"
      by (simp add: apply_in_transaction_def)
    from failed_apply_rolled_back [OF this quiet(1)] show ?thesis by simp
  next
    case executes
    have "ds = map cd_mutation snapshot"
      using lock_and_refresh_same \<open>lock_and_refresh_for_apply w snapshot operations _ = _\<close> executes(3) by blast
    with assms executes locks(1) \<open>lock_and_refresh_for_apply w snapshot operations _ = _\<close>
    show ?thesis
      by (intro execute_and_commit_ends [OF quiet(2,3,1), of w sts]) (simp add: apply_in_transaction_def)
  qed
qed

end
