(* ===== verification/SqlFragments.thy ===== *)
theory SqlFragments imports SqlReads begin

text \<open>
  Lexing generated SQL.  A statement a builder writes is a sequence of pieces, each with the tokens
  it lexes to wherever it stands; \<open>lexes\<close> says so for one piece and composes.  Then what the
  classifier makes of the whole.
\<close>

section \<open>Runs of the lexer\<close>

inductive lex_run :: "string \<Rightarrow> nat \<Rightarrow> sql_token list \<Rightarrow> nat \<Rightarrow> bool" for bytes where
  lex_run_stop: "lex_run bytes i [] i"
| lex_run_skip: "lex_run bytes i ts k"
    if "get bytes i = Some b" "lex_step Postgres bytes False i b = Inr (None, j, False)" "lex_run bytes j ts k"
| lex_run_token: "lex_run bytes i (t # ts) k"
    if "get bytes i = Some b" "lex_step Postgres bytes False i b = Inr (Some t, j, False)" "lex_run bytes j ts k"

lemma lex_run_trans: "lex_run bytes i ts j \<Longrightarrow> lex_run bytes j us k \<Longrightarrow> lex_run bytes i (ts @ us) k"
  by (induction rule: lex_run.induct) (auto intro: lex_run.intros)

lemma lex_run_length: "lex_run bytes i ts j \<Longrightarrow> i + length ts \<le> j"
proof (induction rule: lex_run.induct)
  case (lex_run_skip i b j ts k)
  from lex_step_bounds [OF lex_run_skip(2,1)] lex_run_skip(4) show ?case by simp
next
  case (lex_run_token i b t j ts k)
  from lex_step_bounds [OF lex_run_token(2,1)] lex_run_token(4) show ?case by simp
qed simp

lemma lex_run_loop:
  "lex_run bytes i ts k \<Longrightarrow> k = length bytes \<Longrightarrow> length acc + length ts \<le> m \<Longrightarrow>
   \<exists>sps. lex_loop Postgres m bytes False i acc = Inr (acc @ sps) \<and> map sp_token sps = ts"
proof (induction arbitrary: acc rule: lex_run.induct)
  case (lex_run_stop i)
  then show ?case by (simp add: lex_loop_stop)
next
  case (lex_run_skip i b j ts k)
  then show ?case by (simp add: lex_loop_skip [OF lex_run_skip(1,2)])
next
  case (lex_run_token i b t j ts k)
  let ?sp = "\<lparr>sp_token = t, sp_start = i, sp_end = j\<rparr>"
  from lex_run_token.IH [of "acc @ [?sp]"] lex_run_token.prems obtain sps where
    "lex_loop Postgres m bytes False j (acc @ [?sp]) = Inr (acc @ ?sp # sps)" "map sp_token sps = ts" by auto
  with lex_loop_token [OF lex_run_token(1,2)] lex_run_token.prems show ?case
    by (intro exI [of _ "?sp # sps"]) simp
qed

section \<open>Pieces\<close>

text \<open>What may follow a piece: nothing that would continue its last token.\<close>

definition breaks :: "string \<Rightarrow> bool" where
  "breaks rest \<longleftrightarrow> (\<forall>c. get rest 0 = Some c \<longrightarrow> \<not> is_identifier_continue c \<and> c \<noteq> SQUOTE \<and> c \<noteq> DQUOTE)"

lemma breaks_simps [simp]: "breaks []" "breaks (c # s) \<longleftrightarrow> \<not> is_identifier_continue c \<and> c \<noteq> SQUOTE \<and> c \<noteq> DQUOTE"
  by (auto simp: breaks_def)

definition lexes :: "string \<Rightarrow> sql_token list \<Rightarrow> bool" where
  "lexes s ts \<longleftrightarrow> (\<forall>pre rest. breaks rest \<longrightarrow> lex_run (pre @ s @ rest) (length pre) ts (length pre + length s))"

lemma lexes_Nil: "lexes [] []"
  by (simp add: lexes_def lex_run_stop)

lemma lexes_append:
  assumes "lexes s ts" "lexes s' ts'" "s' \<noteq> [] \<Longrightarrow> breaks s'"
  shows "lexes (s @ s') (ts @ ts')"
  unfolding lexes_def
proof (intro allI impI)
  fix pre rest :: string
  assume rest: "breaks rest"
  have "breaks (s' @ rest)"
    using assms(3) rest by (cases s') auto
  then have "lex_run (pre @ s @ s' @ rest) (length pre) ts (length pre + length s)"
    using assms(1) by (simp add: lexes_def)
  moreover have "lex_run ((pre @ s) @ s' @ rest) (length (pre @ s)) ts' (length (pre @ s) + length s')"
    using assms(2) rest unfolding lexes_def by blast
  ultimately show "lex_run (pre @ (s @ s') @ rest) (length pre) (ts @ ts') (length pre + length (s @ s'))"
    using lex_run_trans [of "pre @ s @ s' @ rest"] by (simp add: add.assoc)
qed

text \<open>A piece whose first character no token before it can take in.\<close>

lemma lexes_step:
  assumes "\<And>pre rest. breaks rest \<Longrightarrow> lex_step Postgres (pre @ s @ rest) False (length pre) (hd s)
      = Inr (t, length pre + length s, False)" "s \<noteq> []"
  shows "lexes s (case t of None \<Rightarrow> [] | Some t \<Rightarrow> [t])"
  unfolding lexes_def
proof (intro allI impI)
  fix pre rest :: string
  assume rest: "breaks rest"
  have get: "get (pre @ s @ rest) (length pre) = Some (hd s)"
    using assms(2) by (cases s) (simp_all add: get_conv_nth nth_append)
  show "lex_run (pre @ s @ rest) (length pre) (case t of None \<Rightarrow> [] | Some t \<Rightarrow> [t]) (length pre + length s)"
    using lex_run_skip [OF get _ lex_run_stop] lex_run_token [OF get _ lex_run_stop] assms(1) [OF rest]
    by (cases t) auto
qed

lemma lexes_space: "lexes '' '' []"
  using lexes_step [of "'' ''" None] by (simp add: lex_step_def byte_defs byte_def)

lemma lexes_symbol: "c \<in> set ''()[],.;'' \<Longrightarrow> lexes [c] [Symbol c]"
  using lexes_step [of "[c]" "Some (Symbol c)"]
  by (auto simp: lex_step_def Let_def byte_defs byte_def is_symbol_def)

lemma lexes_operator: "c \<in> set '':=<>'' \<Longrightarrow> lexes [c] [Opaque]"
  using lexes_step [of "[c]" "Some Opaque"]
  by (auto simp: lex_step_def Let_def byte_defs byte_def is_symbol_def)

lemma lexes_quote_double: "lexes (quote_double s) [quoted_name s]"
proof -
  have "hd (quote_double s) = DQUOTE" "quote_double s \<noteq> []" by (simp_all add: quote_double_def)
  moreover have "breaks rest \<Longrightarrow> get rest 0 \<noteq> Some DQUOTE" for rest by (auto simp: breaks_def)
  ultimately show ?thesis
    using lexes_step [of "quote_double s" "Some (quoted_name s)"] lex_step_quote_double [where dialect = Postgres] by simp
qed

abbreviation word :: "string \<Rightarrow> sql_token" where
  "word w \<equiv> Identifier \<lparr>ident_value = w, ident_quoted = False\<rparr>"

lemma skip_while_piece:
  assumes "list_all p s" "\<And>c. get rest 0 = Some c \<Longrightarrow> \<not> p c"
  shows "skip_while p (pre @ s @ rest) (length pre) = length pre + length s"
proof -
  have "takeWhile p rest = []"
    using assms(2) by (cases rest) auto
  then have "takeWhile p (s @ rest) = s"
    using assms(1) by (simp add: takeWhile_append2 list_all_iff)
  then show ?thesis by (simp add: skip_while_append)
qed

lemma identifier_start_cases:
  assumes "is_identifier_start c"
  shows "\<not> is_ascii_whitespace c" "c \<notin> set [CHR ''-'', CHR ''#'', CHR ''*'', CHR ''/'', SQUOTE, DQUOTE, BACKTICK, CHR ''['', CHR ''$'']"
  using assms by (auto simp: byte_defs byte_def is_identifier_start_def)

lemma lexes_word:
  assumes "w \<noteq> []" "is_identifier_start (hd w)" "list_all is_identifier_continue w"
  shows "lexes w [word w]"
proof -
  have step: "lex_step Postgres (pre @ w @ rest) False (length pre) (hd w) = Inr (Some (word w), length pre + length w, False)"
    if "breaks rest" for pre rest
  proof -
    obtain c v where w: "w = c # v" using assms(1) by (cases w) auto
    have "skip_while is_identifier_continue ((pre @ [c]) @ v @ rest) (length (pre @ [c])) = length (pre @ [c]) + length v"
      using assms(3) that by (intro skip_while_piece) (auto simp: w breaks_def)
    moreover have "get (pre @ w @ rest) (length pre + length w) = get rest 0"
      by (simp add: get_conv_nth nth_append)
    then have "get (pre @ w @ rest) (length pre + length w) \<noteq> Some SQUOTE"
      using that by (auto simp: breaks_def)
    moreover have "slice (pre @ w @ rest) (length pre) (length pre + length w) = w"
      by (simp add: slice_def)
    ultimately have "lex_word Postgres (pre @ w @ rest) False (length pre) = Inr (Some (word w), length pre + length w, False)"
      by (simp add: lex_word_def Let_def w)
    with identifier_start_cases [OF assms(2)] assms(2) show ?thesis
      by (simp add: lex_step_def Let_def)
  qed
  from lexes_step [OF step assms(1)] show ?thesis by simp
qed

lemma digit_char: "(m :: nat) < 10 \<Longrightarrow> is_ascii_digit (char_of (48 + m))"
  by (simp add: is_ascii_digit_def byte_def)

lemma decimal_digits: "list_all is_ascii_digit (decimal n)"
  by (induction n rule: decimal.induct) (subst decimal.simps, simp add: digit_char)

lemma digit_continues: "is_ascii_digit c \<Longrightarrow> is_identifier_continue c"
  by (simp add: is_identifier_continue_def byte_defs)

lemma lexes_placeholder: "lexes (CHR ''$'' # decimal n) [Opaque]"
proof -
  obtain d v where v: "decimal n = d # v" using decimal_not_Nil [of n] by (cases "decimal n") auto
  have step: "lex_step Postgres (pre @ (CHR ''$'' # decimal n) @ rest) False (length pre) (CHR ''$'')
      = Inr (Some Opaque, length pre + length (CHR ''$'' # decimal n), False)" if "breaks rest" for pre rest
  proof -
    have digits: "is_ascii_digit d" "list_all is_ascii_digit v" using decimal_digits [of n] v by simp_all
    have "skip_while is_ascii_digit ((pre @ [CHR ''$'', d]) @ v @ rest) (length (pre @ [CHR ''$'', d])) = length (pre @ [CHR ''$'', d]) + length v"
      using that digits(2) digit_continues by (intro skip_while_piece) (auto simp: breaks_def)
    moreover have "get (pre @ (CHR ''$'' # decimal n) @ rest) (length pre + 1) = Some d"
      by (simp add: v get_append_Suc)
    ultimately have "lex_dollar (pre @ (CHR ''$'' # decimal n) @ rest) (length pre) = Some (length pre + length (CHR ''$'' # decimal n))"
      using digits(1) by (simp add: lex_dollar_def v)
    then show ?thesis by (simp add: lex_step_def Let_def byte_defs byte_def opaque_to_def)
  qed
  from lexes_step [of "CHR ''$'' # decimal n" "Some Opaque"] step show ?thesis by simp
qed

section \<open>Composition, from the right\<close>

lemma lexes_before:
  assumes "\<And>pre rest. lex_step Postgres (pre @ c # rest) False (length pre) c = Inr (t, length pre + 1, False)"
    "lexes s ts"
  shows "lexes (c # s) (case t of None \<Rightarrow> ts | Some t \<Rightarrow> t # ts)"
  unfolding lexes_def
proof (intro allI impI)
  fix pre rest :: string
  assume rest: "breaks rest"
  have "lex_run ((pre @ [c]) @ s @ rest) (length (pre @ [c])) ts (length (pre @ [c]) + length s)"
    using assms(2) rest unfolding lexes_def by blast
  then have tail: "lex_run (pre @ c # s @ rest) (length pre + 1) ts (length pre + length (c # s))" by simp
  have get: "get (pre @ c # s @ rest) (length pre) = Some c"
    by (simp add: get_conv_nth nth_append)
  show "lex_run (pre @ (c # s) @ rest) (length pre) (case t of None \<Rightarrow> ts | Some t \<Rightarrow> t # ts) (length pre + length (c # s))"
    using lex_run_skip [OF get _ tail] lex_run_token [OF get _ tail] assms(1) [of pre "s @ rest"]
    by (cases t) auto
qed

lemma lexes_space_before: "lexes s ts \<Longrightarrow> lexes (CHR '' '' # s) ts"
  using lexes_before [of "CHR '' ''" None] by (simp add: lex_step_def byte_defs byte_def)

lemma lexes_symbol_before: "c \<in> set ''()[],.;'' \<Longrightarrow> lexes s ts \<Longrightarrow> lexes (c # s) (Symbol c # ts)"
  using lexes_before [of c "Some (Symbol c)" s ts]
  by (auto simp: lex_step_def Let_def byte_defs byte_def is_symbol_def)

lemma lexes_operator_before: "c \<in> set '':=<>'' \<Longrightarrow> lexes s ts \<Longrightarrow> lexes (c # s) (Opaque # ts)"
  using lexes_before [of c "Some Opaque" s ts]
  by (auto simp: lex_step_def Let_def byte_defs byte_def is_symbol_def)

lemma lexes_quote_before: "lexes s ts \<Longrightarrow> breaks s \<Longrightarrow> lexes (quote_double n @ s) (quoted_name n # ts)"
  using lexes_append [OF lexes_quote_double, of s ts n] by simp

lemma lexes_placeholder_before:
  "lexes s ts \<Longrightarrow> breaks s \<Longrightarrow> lexes (CHR ''$'' # decimal n @ s) (Opaque # ts)"
  using lexes_append [OF lexes_placeholder, of s ts n] by simp

definition word_text :: "string \<Rightarrow> bool" where
  "word_text w \<longleftrightarrow> w \<noteq> [] \<and> is_identifier_start (hd w) \<and> list_all is_identifier_continue w"

lemma lexes_word_before: "word_text w \<Longrightarrow> lexes s ts \<Longrightarrow> breaks s \<Longrightarrow> lexes (w @ s) (word w # ts)"
  using lexes_append [OF lexes_word, of w s ts] by (simp add: word_text_def)

lemmas lexes_intros = lexes_Nil lexes_space_before lexes_symbol_before lexes_operator_before
  lexes_quote_before lexes_placeholder_before lexes_word_before

lemma breaks_quote_double [simp]: "\<not> breaks (quote_double n @ s)"
  by (simp add: quote_double_def breaks_def)

lemma punctuation_breaks [simp]:
  "\<not> is_identifier_continue (CHR '' '')" "\<not> is_identifier_continue (CHR '')'')" "\<not> is_identifier_continue (CHR ''('')"
  "\<not> is_identifier_continue (CHR '','')" "\<not> is_identifier_continue (CHR ''.'')" "\<not> is_identifier_continue (CHR '':'')"
  "\<not> is_identifier_continue (CHR ''='')" "\<not> is_identifier_continue (CHR ''['')"  "\<not> is_identifier_continue (CHR '']'')"
  by (simp_all add: byte_defs byte_def)

section \<open>A whole statement\<close>

theorem lexes_statement:
  assumes "lexes sql ts" "length sql \<le> usize_max"
  shows "\<exists>sps. lex_sql_spanned sql = Some sps \<and> map sp_token sps = ts"
proof -
  have run: "lex_run sql 0 ts (length sql)"
    using assms(1) [unfolded lexes_def, rule_format, of "[]" "[]"] by simp
  from lex_run_loop [OF run refl, of "[]" usize_max] lex_run_length [OF run] assms(2)
  show ?thesis
    by (auto simp: lex_sql_spanned_Postgres lex_sql_spanned_dialect_def lex_dialect_bounded_def)
qed

lemma split_one_statement:
  "paren_run d (map sp_token ts) = Some 0 \<Longrightarrow> SEMICOLON \<notin> set (map sp_token ts) \<Longrightarrow> st @ ts \<noteq> [] \<Longrightarrow>
   split_statements_loop ts [] st d = Some [st @ ts]"
  by (induction ts arbitrary: st d) (auto split: if_splits)

lemma starts_with_two: "starts_with_at bytes i [a, b] \<Longrightarrow> get bytes i = Some a \<and> get bytes (i + 1) = Some b"
proof -
  assume "starts_with_at bytes i [a, b]"
  then have "take 2 (drop i bytes) = [a, b]"
    by (simp add: starts_with_at_def slice_def)
  then have "drop i bytes = a # b # drop (i + 2) bytes"
    by (metis append_Cons append_Nil append_take_drop_id drop_drop add.commute)
  then show ?thesis
    by (metis Cons_nth_drop_Suc Suc_eq_plus1 drop_eq_Nil get_Some_iff get_conv_nth leI list.inject list.simps(3))
qed

lemma postgres_step_no_comment:
  assumes "get bytes i = Some b" "lex_step Postgres bytes exec i b = Inr (Some t, j, x)"
  shows "\<not> starts_with_at bytes i ''/*''"
proof
  assume "starts_with_at bytes i ''/*''"
  from starts_with_two [OF this] assms show False
    by (auto simp: lex_step_def Let_def lex_comment_open_def skip_to_def byte_defs byte_def split: option.splits)
qed

lemma postgres_tokens_no_comment:
  "\<forall>sp\<in>set acc. \<not> is_executable_comment bytes sp \<Longrightarrow> lex_loop Postgres m bytes exec i acc = Inr out \<Longrightarrow>
   \<forall>sp\<in>set out. \<not> is_executable_comment bytes sp"
proof (induction exec i acc rule: lex_loop_cases_induct [of bytes _ Postgres])
  case (token exec index tokens b t j x)
  with postgres_step_no_comment [OF token(1,2)] show ?case
    by (auto simp: lex_loop_token [OF token(1,2)] is_executable_comment_def split: if_splits)
qed (auto simp: lex_loop_eqs split: if_splits)

lemma classify_one_statement:
  assumes "lexes sql ts" "length sql \<le> usize_max"
    and "paren_run 0 ts = Some 0" "SEMICOLON \<notin> set ts" "ts \<noteq> []"
  shows "classify_script sql = [classify_statement ts Postgres]"
proof -
  obtain sps where sps: "lex_sql_spanned_dialect sql Postgres = Some sps" "map sp_token sps = ts"
    using lexes_statement [OF assms(1,2)] by (auto simp: lex_sql_spanned_Postgres)
  have "lex_loop Postgres usize_max sql False 0 [] = Inr sps"
    using sps(1) by (simp add: lex_sql_spanned_dialect_def lex_dialect_bounded_def)
  from postgres_tokens_no_comment [OF _ this] have "\<not> list_ex (is_executable_comment sql) sps"
    by (simp add: list_ex_iff)
  moreover have "split_statements sps = Some [sps]"
    using split_one_statement [of 0 sps "[]"] assms(3-5) sps(2) by (auto simp: split_statements_def)
  ultimately show ?thesis
    using sps by (simp add: classify_script_def classify_script_dialect_def describe_script_dialect_def describe_statement_def Let_def)
qed

end
