(* ===== verification/MutationProps.thy ===== *)
theory MutationProps imports MutationApplyFacts SqlFragments begin

text \<open>
  What is promised of an edited result set: which plans are accepted, where the values go, how the
  built text is classified, and what the transaction leaves behind.
\<close>

section \<open>Values\<close>

definition map_values :: "(string \<Rightarrow> string) \<Rightarrow> mutation_value list \<Rightarrow> mutation_value list" where
  "map_values g vs = map (\<lambda>v. v\<lparr>mv_value := map_option g (mv_value v)\<rparr>) vs"

definition map_op_values :: "(string \<Rightarrow> string) \<Rightarrow> mutation_op \<Rightarrow> mutation_op" where
  "map_op_values g operation =
     (case operation of
        OpUpdate t identity guards assigned \<Rightarrow>
          OpUpdate t (map_values g identity) (map_values g guards) (map_values g assigned)
      | OpDelete t identity guards \<Rightarrow> OpDelete t (map_values g identity) (map_values g guards)
      | OpInsert t vs \<Rightarrow> OpInsert t (map_values g vs))"

abbreviation map_params :: "(string \<Rightarrow> string) \<Rightarrow> dml_param list \<Rightarrow> dml_param list" where
  "map_params g \<equiv> map (map_option g)"

lemma map_values_simps [simp]:
  "map_values g [] = []" "map_values g vs = [] \<longleftrightarrow> vs = []"
  "map_values g (v # vs) = v\<lparr>mv_value := map_option g (mv_value v)\<rparr> # map_values g vs"
  "map_values g (vs @ us) = map_values g vs @ map_values g us"
  "map mv_column (map_values g vs) = map mv_column vs"
  "mv_column ` set (map_values g vs) = mv_column ` set vs"
  by (simp_all add: map_values_def image_image)

lemma repeats_map_values [simp]: "repeats_column seen (map_values g vs) = repeats_column seen vs"
  by (induction vs arbitrary: seen) simp_all

lemma validates_map_values [simp]:
  "validate_unique_columns (map_values g vs) = validate_unique_columns vs"
  "validate_writes d (map_values g vs) = validate_writes d vs"
  "require_all_projected d (map_values g vs) = require_all_projected d vs"
proof -
  show "validate_unique_columns (map_values g vs) = validate_unique_columns vs"
    by (simp add: validate_unique_columns_def)
  show "validate_writes d (map_values g vs) = validate_writes d vs"
    by (induction vs) (auto split: sum.splits column_writability.splits)
  show "require_all_projected d (map_values g vs) = require_all_projected d vs"
    by (induction vs) (auto split: sum.splits)
qed

lemma nulls_map_values [simp]: "list_ex (\<lambda>v. mv_value v = None) (map_values g vs) = list_ex (\<lambda>v. mv_value v = None) vs"
  by (induction vs) simp_all

lemma identity_map_values [simp]: "validate_identity d (map_values g vs) = validate_identity d vs"
  by (auto simp: validate_identity_def split: sum.split)

lemma guards_map_values [simp]:
  "validate_guards d (map_values g vs) (GuardUpdate (map_values g us)) = validate_guards d vs (GuardUpdate us)"
  "validate_guards d (map_values g vs) FullRow = validate_guards d vs FullRow"
  by (simp_all add: validate_guards_def required_guards_def split: sum.split)

definition renders_values :: "(mutation_value \<Rightarrow> dml_param list \<Rightarrow> mutation_error + (string \<times> dml_param list)) \<Rightarrow> bool" where
  "renders_values f \<longleftrightarrow> (\<forall>g v params. f (v\<lparr>mv_value := map_option g (mv_value v)\<rparr>) (map_params g params)
     = map_sum id (apsnd (map_params g)) (f v params))"

lemma renders_values_simps [simp]:
  "renders_values (render_set d)" "renders_values (render_placeholder d)" "renders_values (render_predicate d)"
  by (auto simp: renders_values_def render_set_def render_placeholder_def render_predicate_def
      bind_value_def Let_def split: sum.splits option.splits)

lemma render_each_map:
  "renders_values f \<Longrightarrow> render_each f (map_values g vs) (map_params g params)
     = map_sum id (apsnd (map_params g)) (render_each f vs params)"
proof (induction vs arbitrary: params)
  case (Cons v vs)
  show ?case
  proof (cases "f v params")
    case (Inr r)
    obtain t ps where r: "r = (t, ps)" by (cases r)
    from Cons.prems Inr r have "f (v\<lparr>mv_value := map_option g (mv_value v)\<rparr>) (map_params g params) = Inr (t, map_params g ps)"
      by (simp add: renders_values_def)
    with Cons.IH [OF Cons.prems, of ps] Inr r show ?thesis
      by (cases "render_each f vs ps") (auto split: prod.splits)
  qed (use Cons.prems in \<open>simp add: renders_values_def\<close>)
qed simp

lemma render_predicates_map:
  "render_predicates d (map_values g identity) (map_values g guards) (map_params g params)
     = map_sum id (apsnd (map_params g)) (render_predicates d identity guards params)"
  using render_each_map [of "render_predicate d" g "identity @ guards" params] by (simp add: render_predicates_def)

lemma build_update_map:
  "build_update d (map_values g identity) (map_values g guards) (map_values g assigned)
     = map_sum id (apsnd (map_params g)) (build_update d identity guards assigned)"
proof -
  have "render_each (render_set d) (map_values g assigned) [] = map_sum id (apsnd (map_params g)) (render_each (render_set d) assigned [])"
    using render_each_map [of "render_set d" g assigned "[]"] by simp
  then show ?thesis
    by (auto simp: build_update_def render_predicates_map split: sum.splits prod.splits)
qed

lemma build_delete_map:
  "build_delete d (map_values g identity) (map_values g guards)
     = map_sum id (apsnd (map_params g)) (build_delete d identity guards)"
  using render_predicates_map [of d g identity guards "[]"]
  by (auto simp: build_delete_def split: sum.splits prod.splits)

lemma build_insert_map:
  "build_insert d (map_values g vs) = map_sum id (apsnd (map_params g)) (build_insert d vs)"
proof -
  have "map (quote_double \<circ> mv_column) (map_values g vs) = map (quote_double \<circ> mv_column) vs"
    by (simp add: map_values_def)
  moreover have "render_each (render_placeholder d) (map_values g vs) []
      = map_sum id (apsnd (map_params g)) (render_each (render_placeholder d) vs [])"
    using render_each_map [of "render_placeholder d" g vs "[]"] by simp
  ultimately show ?thesis
    by (auto simp: build_insert_def split: sum.splits prod.splits)
qed

section \<open>Text\<close>

text \<open>
  Tokens that neither separate statements nor unbalance parentheses nor stop the search for
  \<open>WHERE\<close>.
\<close>

definition inert :: "sql_token list \<Rightarrow> bool" where
  "inert ts \<longleftrightarrow> paren_run 0 ts = Some 0 \<and> SEMICOLON \<notin> set ts
     \<and> \<not> list_ex (is_keyword_in (''where'' # write_keywords)) ts"

definition inert_text :: "string \<Rightarrow> bool" where
  "inert_text s \<longleftrightarrow> (\<exists>ts. lexes s ts \<and> inert ts)"

lemma paren_run_closed: "paren_run 0 xs = Some 0 \<Longrightarrow> paren_run 0 (xs @ ys) = paren_run 0 ys"
  by (simp add: paren_run_append)

lemma inert_append [simp]: "inert xs \<Longrightarrow> inert ys \<Longrightarrow> inert (xs @ ys)"
  by (auto simp: inert_def paren_run_closed)

lemma inert_textI: "lexes s ts \<Longrightarrow> inert ts \<Longrightarrow> inert_text s"
  by (auto simp: inert_text_def)

lemma inert_comma: "inert_text a \<Longrightarrow> inert_text b \<Longrightarrow> inert_text (a @ '', '' @ b)"
proof -
  assume "inert_text a" "inert_text b"
  then obtain xs ys where *: "lexes a xs" "inert xs" "lexes b ys" "inert ys" by (auto simp: inert_text_def)
  from *(3) have "lexes ('', '' @ b) (COMMA # ys)"
    using lexes_symbol_before [OF _ lexes_space_before, of "CHR '',''"] by simp
  from lexes_append [OF *(1) this] have "lexes (a @ '', '' @ b) (xs @ [COMMA] @ ys)" by simp
  then show ?thesis
    by (rule inert_textI) (intro inert_append * ; code_simp)
qed

lemma inert_and: "inert_text a \<Longrightarrow> inert_text b \<Longrightarrow> inert_text (a @ '' AND '' @ b)"
proof -
  assume "inert_text a" "inert_text b"
  then obtain xs ys where *: "lexes a xs" "inert xs" "lexes b ys" "inert ys" by (auto simp: inert_text_def)
  have "word_text ''AND''" by code_simp
  from lexes_space_before [OF lexes_word_before [OF this lexes_space_before [OF *(3)]]]
  have "lexes ('' AND '' @ b) (word ''AND'' # ys)" by simp
  from lexes_append [OF *(1) this] have "lexes (a @ '' AND '' @ b) (xs @ [word ''AND''] @ ys)" by simp
  then show ?thesis
    by (rule inert_textI) (intro inert_append * ; code_simp)
qed

lemma inert_join:
  "(\<And>a b. inert_text a \<Longrightarrow> inert_text b \<Longrightarrow> inert_text (a @ sep @ b)) \<Longrightarrow> xs \<noteq> [] \<Longrightarrow>
   list_all inert_text xs \<Longrightarrow> inert_text (join sep xs)"
  by (induction sep xs rule: join.induct) auto

text \<open>The name of a type, as the catalog prints it, is a piece of its own.\<close>

definition casts_ok :: "mutation_descriptor \<Rightarrow> bool" where
  "casts_ok d \<longleftrightarrow> (\<forall>c\<in>set (md_columns d). inert_text (mc_cast_type c))"

lemma bind_inert:
  assumes "inert_text ty"
  shows "inert_text (quote_double n @ '' = '' @ fst (bind_value v ty params))"
    and "inert_text (fst (bind_value v ty params))"
proof -
  obtain ts where ts: "lexes ty ts" "inert ts" using assms by (auto simp: inert_text_def)
  let ?k = "decimal (length params + 1)"
  have w: "word_text ''text''" by code_simp
  have "lexes (''text'' @ CHR '')'' # CHR '':'' # CHR '':'' # ty) (word ''text'' # CLOSE # Opaque # Opaque # ts)"
    using ts(1) by (intro lexes_intros w) (simp_all add: byte_defs byte_def)
  then have "lexes (CHR ''('' # CHR ''$'' # ?k @ CHR '':'' # CHR '':'' # ''text'' @ CHR '')'' # CHR '':'' # CHR '':'' # ty)
      (OPEN # Opaque # Opaque # Opaque # word ''text'' # CLOSE # Opaque # Opaque # ts)"
    by (intro lexes_symbol_before lexes_placeholder_before lexes_operator_before) simp_all
  then have bound: "lexes (fst (bind_value v ty params)) ([OPEN, Opaque, Opaque, Opaque, word ''text'', CLOSE, Opaque, Opaque] @ ts)"
    by (simp add: bind_value_def)
  then show "inert_text (fst (bind_value v ty params))"
    by (rule inert_textI) (intro inert_append ts; code_simp)
  have "lexes (quote_double n @ CHR '' '' # CHR ''='' # CHR '' '' # fst (bind_value v ty params))
      (quoted_name n # Opaque # [OPEN, Opaque, Opaque, Opaque, word ''text'', CLOSE, Opaque, Opaque] @ ts)"
    by (intro lexes_quote_before lexes_space_before lexes_operator_before bound) simp_all
  then have "lexes (quote_double n @ '' = '' @ fst (bind_value v ty params))
      ([quoted_name n] @ [Opaque, OPEN, Opaque, Opaque, Opaque, word ''text'', CLOSE, Opaque, Opaque] @ ts)" by simp
  then show "inert_text (quote_double n @ '' = '' @ fst (bind_value v ty params))"
    by (rule inert_textI)
      (intro inert_append ts; simp add: inert_def is_keyword_in_def write_keywords_def; code_simp)
qed

section \<open>Classification\<close>

lemma depth_at: "paren_run d xs = Some e \<Longrightarrow> t \<noteq> CLOSE \<Longrightarrow> token_depths_from d (xs @ t # ys) ! length xs = e"
  by (induction d xs rule: paren_run.induct) (auto simp: Let_def split: if_splits)

lemma bounded_class:
  assumes w: "w = ''UPDATE'' \<or> w = ''DELETE''" and mid: "inert mid"
  shows "classify_statement (word w # mid @ word ''WHERE'' # post) Postgres = Dml False False"
proof -
  let ?ts = "word w # mid @ word ''WHERE'' # post" and ?j = "length (word w # mid)"
  have head: "head_word ?ts = Some w"
    using w by (elim disjE; simp add: head_word_def; code_simp)
  obtain unbounded where cls: "classify_statement ?ts Postgres = Dml unbounded False"
    "unbounded \<longleftrightarrow> \<not> (\<exists>j>0. top_level ?ts j ''where''
       \<and> (\<forall>i. 0 < i \<and> i < j \<longrightarrow> \<not> (\<exists>k\<in>set write_keywords. top_level ?ts i k)))"
    using update_delete_bounded_iff [OF head] w by blast
  have "paren_run 0 (word w # mid) = Some 0" using mid by (simp add: inert_def)
  from depth_at [OF this, of "word ''WHERE''" post] have "token_depths ?ts ! ?j = 0"
    by (simp add: token_depths_def)
  moreover have "?ts ! ?j = word ''WHERE''" by (simp add: nth_append)
  moreover have "is_keyword (word ''WHERE'') ''where''" by code_simp
  ultimately have "top_level ?ts ?j ''where''"
    unfolding top_level_def by simp
  moreover have "\<not> (\<exists>k\<in>set write_keywords. top_level ?ts i k)" if "0 < i \<and> i < ?j" for i
  proof -
    have "?ts ! i \<in> set mid" using that by (cases i) (auto simp: nth_append)
    with mid show ?thesis
      by (auto simp: inert_def list_ex_iff is_keyword_in_def top_level_def)
  qed
  ultimately have "\<not> unbounded" using cls(2) by (auto intro!: exI [of _ ?j])
  with cls(1) show ?thesis by simp
qed

lemma insert_class: "classify_statement (word ''INSERT'' # rest) Postgres = Dml False False"
proof -
  have "map to_ascii_uppercase ''INSERT'' = ''INSERT''" by code_simp
  then show ?thesis by (subst classify_statement.simps) (simp add: Let_def)
qed

lemma bounded_statement:
  assumes w: "w = ''UPDATE'' \<or> w = ''DELETE''" and "lexes mid mts" "inert mts" "breaks mid" "inert_text post"
    and "sql = w @ mid @ '' WHERE '' @ post" "length sql \<le> usize_max"
  shows "classify_script sql = [Dml False False]"
proof -
  obtain pts where pts: "lexes post pts" "inert pts" using assms(5) by (auto simp: inert_text_def)
  have "word_text ''WHERE''" "word_text ''UPDATE''" "word_text ''DELETE''" by code_simp+
  then have "word_text ''WHERE''" "word_text w" using w by blast+
  from lexes_space_before [OF lexes_word_before [OF this(1) lexes_space_before [OF pts(1)]]]
  have "lexes ('' WHERE '' @ post) (word ''WHERE'' # pts)" by simp
  from lexes_append [OF assms(2) this] have "lexes (mid @ '' WHERE '' @ post) (mts @ word ''WHERE'' # pts)" by simp
  moreover have "breaks (mid @ '' WHERE '' @ post)" using assms(4) by (cases mid) auto
  ultimately have "lexes sql (word w # mts @ word ''WHERE'' # pts)"
    unfolding assms(6) by (rule lexes_word_before [OF \<open>word_text w\<close>])
  from classify_one_statement [OF this assms(7)] bounded_class [OF w assms(3)]
  show ?thesis
    using assms(3) pts(2) by (simp add: inert_def paren_run_append)
qed

lemma mutation_column_member: "mutation_column_of d n = Some c \<Longrightarrow> c \<in> set (md_columns d)"
  by (auto simp: mutation_column_of_def find_Some_iff)

lemma require_column_member:
  "require_mutation_column d n = Inr c \<Longrightarrow> c \<in> set (md_columns d)"
  "require_projected_column d n = Inr c \<Longrightarrow> c \<in> set (md_columns d)"
  by (auto simp: require_mutation_column_def require_projected_column_def
      split: option.splits sum.splits if_splits dest: mutation_column_member)

lemma render_each_inert:
  assumes "\<And>v ps t ps'. f v ps = Inr (t, ps') \<Longrightarrow> inert_text t"
  shows "render_each f vs params = Inr (ts, ps) \<Longrightarrow> list_all inert_text ts \<and> length ts = length vs"
proof (induction vs arbitrary: params ts ps)
  case (Cons v vs)
  then obtain t ps1 us where *: "f v params = Inr (t, ps1)" "render_each f vs ps1 = Inr (us, ps)" "ts = t # us"
    by (auto split: sum.splits prod.splits)
  from assms [OF *(1)] Cons.IH [OF *(2)] *(3) show ?case by simp
qed simp

lemma inert_null: "inert_text (quote_double n @ '' IS NULL'')"
proof -
  have "word_text ''IS''" "word_text ''NULL''" by code_simp+
  from lexes_quote_before [OF lexes_space_before [OF lexes_word_before [OF this(1)
    lexes_space_before [OF lexes_word_before [OF this(2) lexes_Nil]]]], of n]
  have "lexes (quote_double n @ '' IS NULL'') ([quoted_name n] @ [word ''IS'', word ''NULL''])" by simp
  then show ?thesis
    by (rule inert_textI) (intro inert_append; simp add: inert_def is_keyword_in_def write_keywords_def; code_simp)
qed

lemma renders_inert:
  assumes "casts_ok d"
  shows "render_set d v ps = Inr (t, ps') \<Longrightarrow> inert_text t"
    and "render_predicate d v ps = Inr (t, ps') \<Longrightarrow> inert_text t"
    and "render_placeholder d v ps = Inr (t, ps') \<Longrightarrow> inert_text t"
proof -
  have ty: "inert_text (mc_cast_type c)" if "c \<in> set (md_columns d)" for c
    using assms that by (simp add: casts_ok_def)
  show "render_set d v ps = Inr (t, ps') \<Longrightarrow> inert_text t"
    using bind_inert(1) [OF ty [OF require_column_member(1)], of "mv_column v" _ "mv_column v" v ps]
    by (auto simp: render_set_def split: sum.splits prod.splits)
  show "render_predicate d v ps = Inr (t, ps') \<Longrightarrow> inert_text t"
    using bind_inert(1) [OF ty [OF require_column_member(2)], of "mv_column v" _ "mv_column v" v ps] inert_null
    by (auto simp: render_predicate_def split: sum.splits prod.splits option.splits)
  show "render_placeholder d v ps = Inr (t, ps') \<Longrightarrow> inert_text t"
    using bind_inert(2) [OF ty [OF require_column_member(1)], of "mv_column v" _ v ps]
    by (auto simp: render_placeholder_def split: sum.splits)
qed

lemma qualified_update:
  assumes "inert_text assigned"
  shows "\<exists>ts. lexes ('' '' @ qualified_descriptor d @ '' SET '' @ assigned) ts \<and> inert ts"
proof -
  obtain ats where ats: "lexes assigned ats" "inert ats" using assms by (auto simp: inert_text_def)
  have "word_text ''SET''" by code_simp
  from lexes_space_before [OF lexes_quote_before [OF lexes_symbol_before [OF _ lexes_quote_before
      [OF lexes_space_before [OF lexes_word_before [OF this lexes_space_before [OF ats(1)]]]]]]]
  have "lexes ('' '' @ qualified_descriptor d @ '' SET '' @ assigned)
      ([quoted_name (md_schema d), Symbol (CHR ''.''), quoted_name (md_table d), word ''SET''] @ ats)"
    by (simp add: qualified_descriptor_def)
  moreover have "inert ([quoted_name (md_schema d), Symbol (CHR ''.''), quoted_name (md_table d), word ''SET''] @ ats)"
    by (intro inert_append ats) (simp add: inert_def is_keyword_in_def write_keywords_def, code_simp)
  ultimately show ?thesis by blast
qed

lemma qualified_delete:
  "\<exists>ts. lexes ('' FROM '' @ qualified_descriptor d) ts \<and> inert ts"
proof -
  have "word_text ''FROM''" by code_simp
  from lexes_space_before [OF lexes_word_before [OF this lexes_space_before [OF lexes_quote_before
      [OF lexes_symbol_before [OF _ lexes_quote_double]]]]]
  have "lexes ('' FROM '' @ qualified_descriptor d)
      [word ''FROM'', quoted_name (md_schema d), Symbol (CHR ''.''), quoted_name (md_table d)]"
    by (simp add: qualified_descriptor_def)
  moreover have "inert [word ''FROM'', quoted_name (md_schema d), Symbol (CHR ''.''), quoted_name (md_table d)]"
    by (simp add: inert_def is_keyword_in_def write_keywords_def; code_simp)
  ultimately show ?thesis by blast
qed

lemma validate_identity_nonempty: "validate_identity d identity = Inr u \<Longrightarrow> identity \<noteq> []"
  by (auto simp: validate_identity_def)

lemma predicates_inert:
  assumes "casts_ok d" "render_predicates d identity guards params = Inr (ts, ps)" "identity \<noteq> []"
  shows "inert_text (join '' AND '' ts)"
proof -
  have "list_all inert_text ts" "length ts = length (identity @ guards)"
    using render_each_inert [of "render_predicate d", OF renders_inert(2) [OF assms(1)] assms(2) [unfolded render_predicates_def]]
    by auto
  with assms(3) show ?thesis by (intro inert_join inert_and) auto
qed

lemma build_update_class:
  assumes "casts_ok d" "build_update d identity guards assigned = Inr (sql, ps)" "length sql \<le> usize_max"
  shows "classify_script sql = [Dml False False]"
proof -
  obtain set_sql ps1 predicates where
    parts: "assigned \<noteq> []" "validate_identity d identity = Inr ()"
      "render_each (render_set d) assigned [] = Inr (set_sql, ps1)"
      "render_predicates d identity guards ps1 = Inr (predicates, ps)"
      "sql = ''UPDATE '' @ qualified_descriptor d @ '' SET '' @ join '', '' set_sql @ '' WHERE '' @ join '' AND '' predicates"
    using assms(2) by (auto simp: build_update_def split: if_splits sum.splits prod.splits)
  have "list_all inert_text set_sql" "length set_sql = length assigned"
    using render_each_inert [of "render_set d", OF renders_inert(1) [OF assms(1)] parts(3)] by auto
  with parts(1) have "inert_text (join '', '' set_sql)" by (intro inert_join inert_comma) auto
  from qualified_update [OF this] obtain ts where
    ts: "lexes ('' '' @ qualified_descriptor d @ '' SET '' @ join '', '' set_sql) ts" "inert ts" by blast
  show ?thesis
    by (rule bounded_statement [OF _ ts _ predicates_inert [OF assms(1) parts(4) validate_identity_nonempty [OF parts(2)]] _ assms(3),
          of "''UPDATE''"])
      (simp_all add: parts(5))
qed

lemma build_delete_class:
  assumes "casts_ok d" "build_delete d identity guards = Inr (sql, ps)" "length sql \<le> usize_max"
  shows "classify_script sql = [Dml False False]"
proof -
  obtain predicates where
    parts: "validate_identity d identity = Inr ()" "render_predicates d identity guards [] = Inr (predicates, ps)"
      "sql = ''DELETE FROM '' @ qualified_descriptor d @ '' WHERE '' @ join '' AND '' predicates"
    using assms(2) by (auto simp: build_delete_def split: sum.splits prod.splits)
  obtain ts where ts: "lexes ('' FROM '' @ qualified_descriptor d) ts" "inert ts"
    using qualified_delete by blast
  show ?thesis
    by (rule bounded_statement [OF _ ts _ predicates_inert [OF assms(1) parts(2) validate_identity_nonempty [OF parts(1)]] _ assms(3),
          of "''DELETE''"])
      (simp_all add: parts(3))
qed

lemma paren_run_shift: "paren_run d ts = Some e \<Longrightarrow> paren_run (d + k) ts = Some (e + k)"
  by (induction d ts rule: paren_run.induct) (auto split: if_splits)

lemma inert_in_parens: "inert ts \<Longrightarrow> inert (OPEN # ts @ [CLOSE])"
  using paren_run_shift [of 0 ts 0 1]
  by (auto simp: inert_def paren_run_append is_keyword_in_def)

lemma inert_parens: "inert_text a \<Longrightarrow> inert_text (''('' @ a @ '')'')"
proof -
  assume "inert_text a"
  then obtain ts where ts: "lexes a ts" "inert ts" by (auto simp: inert_text_def)
  from lexes_append [OF ts(1) lexes_symbol_before [OF _ lexes_Nil, of "CHR '')''"]]
  have "lexes (a @ '')'') (ts @ [CLOSE])" by simp
  from lexes_symbol_before [OF _ this, of "CHR ''(''"] have "lexes (''('' @ a @ '')'') (OPEN # ts @ [CLOSE])" by simp
  with inert_in_parens [OF ts(2)] show ?thesis by (rule inert_textI [rotated])
qed

lemma inert_word_before: "word_text w \<Longrightarrow> inert [word w] \<Longrightarrow> inert_text a \<Longrightarrow> inert_text (w @ '' '' @ a)"
proof -
  assume *: "word_text w" "inert [word w]" "inert_text a"
  then obtain ts where ts: "lexes a ts" "inert ts" by (auto simp: inert_text_def)
  from lexes_word_before [OF *(1) lexes_space_before [OF ts(1)]] have "lexes (w @ '' '' @ a) ([word w] @ ts)" by simp
  with inert_append [OF *(2) ts(2)] show ?thesis by (rule inert_textI [rotated])
qed

lemma inert_spaced: "inert_text a \<Longrightarrow> inert_text b \<Longrightarrow> inert_text (a @ '' '' @ b)"
proof -
  assume "inert_text a" "inert_text b"
  then obtain xs ys where *: "lexes a xs" "inert xs" "lexes b ys" "inert ys" by (auto simp: inert_text_def)
  from lexes_append [OF *(1) lexes_space_before [OF *(3)]] have "lexes (a @ '' '' @ b) (xs @ ys)" by simp
  then show ?thesis by (rule inert_textI) (simp add: *)
qed

lemma inert_quoted: "inert_text (quote_double n)"
  by (rule inert_textI [OF lexes_quote_double])
    (simp add: inert_def is_keyword_in_def write_keywords_def)

lemma inert_qualified: "inert_text (qualified_descriptor d)"
proof -
  from lexes_quote_before [OF lexes_symbol_before [OF _ lexes_quote_double, of "CHR ''.''"]]
  have "lexes (qualified_descriptor d) ([quoted_name (md_schema d)] @ [Symbol (CHR ''.'')] @ [quoted_name (md_table d)])"
    by (simp add: qualified_descriptor_def)
  then show ?thesis
    by (rule inert_textI) (simp add: inert_def is_keyword_in_def write_keywords_def)
qed

lemma insert_words:
  "word_text ''INTO''" "word_text ''VALUES''" "word_text ''DEFAULT''" "word_text ''INSERT''"
  "inert [word ''INTO'']" "inert [word ''VALUES'']" "inert [word ''DEFAULT'']"
  by code_simp+

lemma insert_statement:
  assumes "inert_text rest" "sql = ''INSERT '' @ rest" "length sql \<le> usize_max"
  shows "classify_script sql = [Dml False False]"
proof -
  obtain ts where ts: "lexes rest ts" "inert ts" using assms(1) by (auto simp: inert_text_def)
  from lexes_word_before [OF insert_words(4) lexes_space_before [OF ts(1)]]
  have "lexes sql (word ''INSERT'' # ts)" by (simp add: assms(2))
  from classify_one_statement [OF this assms(3)] ts(2) insert_class show ?thesis by (simp add: inert_def)
qed

lemma build_insert_class:
  assumes "casts_ok d" "build_insert d vs = Inr (sql, ps)" "length sql \<le> usize_max"
  shows "classify_script sql = [Dml False False]"
proof (cases "vs = []")
  case True
  with assms(2) have sql: "sql = ''INSERT INTO '' @ qualified_descriptor d @ '' DEFAULT VALUES''"
    by (auto simp: build_insert_def split: sum.splits)
  have "inert_text (''VALUES'')"
    by (rule inert_textI [OF lexes_word]) (use insert_words in \<open>simp_all add: word_text_def\<close>)
  from inert_word_before [OF insert_words(1,5) inert_spaced [OF inert_qualified inert_word_before [OF insert_words(3,7) this]]]
  show ?thesis by (rule insert_statement) (use assms(3) in \<open>simp_all add: sql\<close>)
next
  case False
  with assms(2) obtain placeholders where
    parts: "render_each (render_placeholder d) vs [] = Inr (placeholders, ps)"
      "sql = ''INSERT INTO '' @ qualified_descriptor d @ '' ('' @ join '', '' (map (quote_double \<circ> mv_column) vs)
         @ '') VALUES ('' @ join '', '' placeholders @ '')''"
    by (auto simp: build_insert_def split: sum.splits prod.splits)
  have "list_all inert_text placeholders" "length placeholders = length vs"
    using render_each_inert [of "render_placeholder d", OF renders_inert(3) [OF assms(1)] parts(1)] by auto
  with False have bound: "inert_text (''('' @ join '', '' placeholders @ '')'')"
    by (intro inert_parens inert_join inert_comma) auto
  have names: "inert_text (''('' @ join '', '' (map (quote_double \<circ> mv_column) vs) @ '')'')"
    using False by (intro inert_parens inert_join inert_comma) (auto simp: list_all_iff inert_quoted)
  from inert_word_before [OF insert_words(1,5) inert_spaced [OF inert_qualified
    inert_spaced [OF names inert_word_before [OF insert_words(2,6) bound]]]]
  show ?thesis by (rule insert_statement) (use assms(3) in \<open>simp_all add: parts(2)\<close>)
qed

lemma require_table_member: "require_mutation_table ds t = Inr d \<Longrightarrow> d \<in> set ds"
  by (auto simp: require_mutation_table_def find_Some_iff split: option.splits)

lemma build_operation_class:
  assumes "\<forall>d\<in>set ds. casts_ok d" "build_operation ds operation = Inr (sql, ps)" "length sql \<le> usize_max"
  shows "classify_script sql = [Dml False False]"
proof -
  have ok: "require_mutation_table ds t = Inr d \<Longrightarrow> casts_ok d" for t d
    using assms(1) require_table_member by blast
  show ?thesis
    using assms(2,3) ok
    by (cases operation) (auto simp: build_operation_def split: sum.splits
        intro: build_update_class build_delete_class build_insert_class)
qed

section \<open>Acceptance\<close>

text \<open>What the code accepts, without the order in which it looks.\<close>

definition columns_of :: "mutation_value list \<Rightarrow> string list" where
  "columns_of vs = map mv_column vs"

definition writable :: "mutation_descriptor \<Rightarrow> string \<Rightarrow> bool" where
  "writable d n \<longleftrightarrow> (\<exists>c. mutation_column_of d n = Some c \<and> mc_writability c = Writable)"

definition shown :: "mutation_descriptor \<Rightarrow> string \<Rightarrow> bool" where
  "shown d n \<longleftrightarrow> (\<exists>c. mutation_column_of d n = Some c \<and> mc_projected c)"

definition identifies :: "mutation_descriptor \<Rightarrow> mutation_value list \<Rightarrow> bool" where
  "identifies d identity \<longleftrightarrow> mi_kind (md_identity d) \<noteq> KindNone \<and> identity \<noteq> []
     \<and> columns_of identity = mi_columns (md_identity d) \<and> distinct (columns_of identity)
     \<and> (\<forall>n\<in>set (columns_of identity). shown d n)
     \<and> (is_keyed (mi_kind (md_identity d)) \<longrightarrow> (\<forall>v\<in>set identity. mv_value v \<noteq> None))"

definition guarded :: "mutation_descriptor \<Rightarrow> mutation_value list \<Rightarrow> guard_policy \<Rightarrow> bool" where
  "guarded d guards policy \<longleftrightarrow> distinct (columns_of guards) \<and> (\<forall>n\<in>set (columns_of guards). shown d n)
     \<and> set (required_guards d policy) \<subseteq> set (columns_of guards)"

definition assignable :: "mutation_descriptor \<Rightarrow> mutation_value list \<Rightarrow> bool" where
  "assignable d vs \<longleftrightarrow> distinct (columns_of vs) \<and> (\<forall>n\<in>set (columns_of vs). writable d n)"

definition op_accepted :: "mutation_descriptor list \<Rightarrow> mutation_op \<Rightarrow> bool" where
  "op_accepted ds operation =
     (case require_mutation_table ds (op_target operation) of Inl _ \<Rightarrow> False
      | Inr d \<Rightarrow>
          (case operation of
             OpUpdate _ identity guards assigned \<Rightarrow> assigned \<noteq> [] \<and> assignable d assigned
               \<and> identifies d identity \<and> guarded d guards (GuardUpdate assigned)
           | OpDelete _ identity guards \<Rightarrow> length ds = 1 \<and> identifies d identity \<and> guarded d guards FullRow
           | OpInsert _ vs \<Rightarrow> length ds = 1 \<and> assignable d vs))"

lemma repeats_column_iff: "repeats_column seen vs \<longleftrightarrow> \<not> distinct (columns_of vs) \<or> seen \<inter> set (columns_of vs) \<noteq> {}"
  by (induction vs arbitrary: seen) (auto simp: columns_of_def)

lemma unique_columns_iff: "validate_unique_columns vs = Inr () \<longleftrightarrow> distinct (columns_of vs)"
  by (simp add: validate_unique_columns_def repeats_column_iff)

lemma require_projected_iff: "(\<exists>c. require_projected_column d n = Inr c) \<longleftrightarrow> shown d n"
  by (auto simp: require_projected_column_def require_mutation_column_def shown_def split: option.splits)

lemma require_all_projected_iff: "require_all_projected d vs = Inr () \<longleftrightarrow> (\<forall>n\<in>set (columns_of vs). shown d n)"
  by (induction vs)
    (auto simp: columns_of_def require_projected_iff [symmetric] split: sum.splits)

lemma validate_writes_iff: "validate_writes d vs = Inr () \<longleftrightarrow> (\<forall>n\<in>set (columns_of vs). writable d n)"
  by (induction vs)
    (auto simp: columns_of_def writable_def require_mutation_column_def split: sum.splits option.splits column_writability.splits)

lemma unit_sum_cases: "(r :: 'e + unit) = Inr () \<or> (\<exists>e. r = Inl e)"
  by (cases r) auto

lemma validate_identity_iff: "validate_identity d identity = Inr () \<longleftrightarrow> identifies d identity"
  using unit_sum_cases [of "validate_unique_columns identity"] unit_sum_cases [of "require_all_projected d identity"]
    unique_columns_iff [of identity] require_all_projected_iff [of d identity]
  by (auto simp: validate_identity_def identifies_def columns_of_def list_ex_iff)

lemma validate_guards_iff: "validate_guards d guards policy = Inr () \<longleftrightarrow> guarded d guards policy"
  using unit_sum_cases [of "validate_unique_columns guards"] unit_sum_cases [of "require_all_projected d guards"]
    unique_columns_iff [of guards] require_all_projected_iff [of d guards]
  by (auto simp: validate_guards_def guarded_def columns_of_def list_ex_iff)

text \<open>Rendering never fails on what validation accepted.\<close>

lemma render_each_succeeds:
  "(\<And>v ps. v \<in> set vs \<Longrightarrow> \<exists>r. f v ps = Inr r) \<Longrightarrow> \<exists>r. render_each f vs params = Inr r"
proof (induction vs arbitrary: params)
  case (Cons v vs)
  obtain t ps where "f v params = Inr (t, ps)" using Cons.prems [of v params] by auto
  with Cons.IH [of ps] Cons.prems show ?case by (auto split: prod.splits)
qed simp

lemma renders_succeed:
  "mutation_column_of d (mv_column v) \<noteq> None \<Longrightarrow> \<exists>r. render_set d v ps = Inr r"
  "mutation_column_of d (mv_column v) \<noteq> None \<Longrightarrow> \<exists>r. render_placeholder d v ps = Inr r"
  "shown d (mv_column v) \<Longrightarrow> \<exists>r. render_predicate d v ps = Inr r"
  by (auto simp: render_set_def render_placeholder_def render_predicate_def require_mutation_column_def
      require_projected_column_def shown_def split: option.splits prod.splits)

lemma render_predicates_succeeds:
  "identifies d identity \<Longrightarrow> guarded d guards policy \<Longrightarrow> \<exists>r. render_predicates d identity guards ps = Inr r"
  unfolding render_predicates_def
  by (rule render_each_succeeds, rule renders_succeed(3)) (auto simp: identifies_def guarded_def columns_of_def)

lemma assignable_renders:
  assumes "assignable d vs"
  shows "\<exists>r. render_each (render_set d) vs ps = Inr r" "\<exists>r. render_each (render_placeholder d) vs ps = Inr r"
proof -
  have "mutation_column_of d (mv_column v) \<noteq> None" if "v \<in> set vs" for v
    using assms that by (auto simp: assignable_def columns_of_def writable_def)
  note found = this
  show "\<exists>r. render_each (render_set d) vs ps = Inr r"
    by (rule render_each_succeeds, rule renders_succeed(1)) (rule found)
  show "\<exists>r. render_each (render_placeholder d) vs ps = Inr r"
    by (rule render_each_succeeds, rule renders_succeed(2)) (rule found)
qed

lemma build_update_accepts:
  "(\<exists>r. build_update d identity guards assigned = Inr r) \<longleftrightarrow> assigned \<noteq> [] \<and> assignable d assigned
     \<and> identifies d identity \<and> guarded d guards (GuardUpdate assigned)" (is "?l \<longleftrightarrow> ?r")
proof
  assume ?l
  then show ?r
    by (auto simp: build_update_def assignable_def validate_identity_iff [symmetric] validate_guards_iff [symmetric]
        unique_columns_iff [symmetric] validate_writes_iff [symmetric] split: if_splits sum.splits)
next
  assume ?r
  moreover obtain t ps where "render_each (render_set d) assigned [] = Inr (t, ps)"
    using assignable_renders(1) [of d assigned "[]"] \<open>?r\<close> by auto
  moreover obtain u qs where "render_predicates d identity guards ps = Inr (u, qs)"
    using render_predicates_succeeds [of d identity guards] \<open>?r\<close> by (metis surj_pair)
  ultimately show ?l
    by (simp add: build_update_def assignable_def validate_identity_iff [THEN iffD2] validate_guards_iff [THEN iffD2]
        unique_columns_iff [THEN iffD2] validate_writes_iff [THEN iffD2])
qed

lemma build_delete_accepts:
  "(\<exists>r. build_delete d identity guards = Inr r) \<longleftrightarrow> identifies d identity \<and> guarded d guards FullRow" (is "?l \<longleftrightarrow> ?r")
proof
  assume ?l
  then show ?r
    by (auto simp: build_delete_def validate_identity_iff [symmetric] validate_guards_iff [symmetric] split: sum.splits)
next
  assume ?r
  moreover obtain u qs where "render_predicates d identity guards [] = Inr (u, qs)"
    using render_predicates_succeeds [of d identity guards] \<open>?r\<close> by (metis surj_pair)
  ultimately show ?l
    by (simp add: build_delete_def validate_identity_iff [THEN iffD2] validate_guards_iff [THEN iffD2])
qed

lemma build_insert_accepts: "(\<exists>r. build_insert d vs = Inr r) \<longleftrightarrow> assignable d vs" (is "?l \<longleftrightarrow> ?r")
proof
  assume ?l
  then show ?r
    by (auto simp: build_insert_def assignable_def unique_columns_iff [symmetric] validate_writes_iff [symmetric] split: sum.splits)
next
  assume ?r
  moreover obtain t ps where "render_each (render_placeholder d) vs [] = Inr (t, ps)"
    using assignable_renders(2) [of d vs "[]"] \<open>?r\<close> by auto
  ultimately show ?l
    by (simp add: build_insert_def assignable_def unique_columns_iff [THEN iffD2] validate_writes_iff [THEN iffD2])
qed

lemma single_origin_iff: "require_single_origin_table ds = Inr () \<longleftrightarrow> length ds = 1"
  by (simp add: require_single_origin_table_def)

section \<open>Properties\<close>


text \<open>
  The values of an edit reach the server as parameters only.  Replacing every value by another
  leaves the text of the statement and the decision to build it unchanged, and replaces the
  parameters in the same way.
\<close>

lemma values_are_parameters:
  "build_operation ds (map_op_values g operation) = map_sum id (apsnd (map_params g)) (build_operation ds operation)"
  by (cases operation)
    (auto simp: build_operation_def map_op_values_def build_update_map build_delete_map build_insert_map split: sum.splits)


text \<open>A table, an edit of it, and a server that does what it is told.\<close>

definition edited_column :: "string \<Rightarrow> string \<Rightarrow> mutation_column" where
  "edited_column name ty = \<lparr>mc_name = name, mc_cast_type = ty, mc_nullable = True, mc_writability = Writable,
     mc_has_default = False, mc_has_identity = False, mc_projected = True\<rparr>"

definition edited_table :: mutation_descriptor where
  "edited_table = \<lparr>md_schema = ''public'', md_table = ''users'',
     md_columns = [edited_column ''id'' ''integer'', edited_column ''name'' ''text''],
     md_identity = \<lparr>mi_kind = KindPrimaryKey, mi_columns = [''id'']\<rparr>\<rparr>"

definition edit :: mutation_op where
  "edit = OpUpdate \<lparr>mt_schema = ''public'', mt_table = ''users''\<rparr> [\<lparr>mv_column = ''id'', mv_value = Some ''1''\<rparr>]
     [\<lparr>mv_column = ''name'', mv_value = None\<rparr>] [\<lparr>mv_column = ''name'', mv_value = Some ''x'' \<rparr>]"

definition edit_statements :: "preview_statement list" where
  "edit_statements = (case build_mutation_plan [edited_table] [edit] of Inl _ \<Rightarrow> [] | Inr sts \<Rightarrow> sts)"

lemma edit_built: "build_mutation_plan [edited_table] [edit] = Inr edit_statements"
proof -
  have "(case build_mutation_plan [edited_table] [edit] of Inl _ \<Rightarrow> False | Inr _ \<Rightarrow> True)" by code_simp
  then show ?thesis by (auto simp: edit_statements_def split: sum.splits)
qed

lemma edited_table_casts: "casts_ok edited_table"
proof -
  have "word_text ''integer'' \<and> inert [word ''integer'']" "word_text ''text'' \<and> inert [word ''text'']" by code_simp+
  then have "inert_text ''integer''" "inert_text ''text''"
    by (auto simp: word_text_def intro!: inert_textI [OF lexes_word])
  then show ?thesis by (simp add: casts_ok_def edited_table_def edited_column_def)
qed


definition edited_entry :: catalog_descriptor where
  "edited_entry = \<lparr>cd_oid = 7, cd_identity_object_oid = None, cd_columns = [], cd_mutation = edited_table\<rparr>"

definition willing_server :: "nat \<Rightarrow> apply_world" where
  "willing_server affected = \<lparr>w_check = (\<lambda>_ _. None), w_run = (\<lambda>_ _. None), w_execute = (\<lambda>_ _ _. Inr affected),
     w_relation = (\<lambda>_ _. Inr (Some (''public'', ''users''))), w_children = (\<lambda>_ _. Inr False),
     w_load = (\<lambda>_ _ _. Inr edited_entry), w_closed = (\<lambda>_. False)\<rparr>"

text \<open>
  C3: An apply that reports success has sent the statements of the preview, exactly those and in
  their order, between one \<open>BEGIN\<close> and one \<open>COMMIT\<close>, with nothing else but the lock timeout and the
  table locks, and the server reported one changed row for each.
\<close>

theorem apply_commits_the_preview:
  assumes "execute_apply w snapshot operations = (log, Inr applied, healthy)"
  shows "\<exists>sts. build_mutation_plan (map cd_mutation snapshot) operations = Inr sts \<and> committed log sts
    \<and> map ao_op_index applied = [0..<length operations] \<and> list_all (\<lambda>a. ao_rows_affected a = 1) applied"
proof -
  obtain sts where built: "build_mutation_plan (map cd_mutation snapshot) operations = Inr sts"
    and ends: "apply_in_transaction w snapshot operations [Checked BeforeTransaction, Ran ''BEGIN''] = (log, Inr applied, healthy)"
    using assms by (auto simp: execute_apply_def Let_def split: sum.splits option.splits)
  from apply_in_transaction_ends [OF ends built] have "committed log sts" "applied = applied_to sts" by simp_all
  moreover have "map ps_op_index sts = [0..<length operations]"
    using build_operations_indices [of _ 0] built by (simp add: build_mutation_plan_def)
  ultimately show ?thesis
    using built by (auto simp: applied_to_def list_all_iff comp_def)
qed

lemma apply_commits_the_preview_witness:
  "\<exists>sts. build_mutation_plan [edited_table] [edit] = Inr sts
     \<and> committed (fst (execute_apply (willing_server 1) [edited_entry] [edit])) sts"
proof -
  let ?r = "execute_apply (willing_server 1) [edited_entry] [edit]"
  have "(case fst (snd ?r) of Inl _ \<Rightarrow> False | Inr _ \<Rightarrow> True)" by code_simp
  then obtain applied where "?r = (fst ?r, Inr applied, snd (snd ?r))"
    by (cases "fst (snd ?r)") (auto simp: prod_eq_iff)
  from apply_commits_the_preview [OF this] show ?thesis by (auto simp: edited_entry_def)
qed



end
