(* ===== verification/BrowseBuilder.thy ===== *)
theory BrowseBuilder imports SqlLex SchemaText "HOL-Library.List_Lexorder" "HOL-Library.Char_ord" "HOL-Library.Product_Lexorder" begin

text \<open>
  The SQL of the table browser, \<open>backend/src/table_browse/builder.rs\<close>, with the row identity it
  pages by, \<open>backend/src/postgres/identity.rs\<close>: filters, sort terms, offset and keyset pages, and the
  count and estimate queries that reuse the filter.
\<close>

section \<open>Identity of a row\<close>

definition CTID_COLUMN :: string where "CTID_COLUMN = ''ctid''"
definition TABLEOID_COLUMN :: string where "TABLEOID_COLUMN = ''tableoid''"

record unique_index_candidate =
  ui_name :: string
  ui_columns :: "string list"

datatype relation_identity_kind = RelPrimaryKey | RelUniqueIndex | RelCtidFallback | RelNone

record resolved_identity =
  ri_kind :: relation_identity_kind
  ri_columns :: "string list"

definition resolve_identity ::
  "char \<Rightarrow> string list \<Rightarrow> unique_index_candidate list \<Rightarrow> resolved_identity" where
  "resolve_identity relkind primary_key unique_indexes =
     (if primary_key \<noteq> [] then \<lparr>ri_kind = RelPrimaryKey, ri_columns = primary_key\<rparr>
      else case sort_key (\<lambda>i. (length (ui_columns i), ui_name i)) unique_indexes of
        index # _ \<Rightarrow> \<lparr>ri_kind = RelUniqueIndex, ri_columns = ui_columns index\<rparr>
      | [] \<Rightarrow>
          if relkind = CHR ''p'' then \<lparr>ri_kind = RelCtidFallback, ri_columns = [TABLEOID_COLUMN, CTID_COLUMN]\<rparr>
          else if relkind = CHR ''r'' then \<lparr>ri_kind = RelCtidFallback, ri_columns = [CTID_COLUMN]\<rparr>
          else \<lparr>ri_kind = RelNone, ri_columns = []\<rparr>)"

datatype browse_identity_kind = BrowsePrimaryKey | BrowseUniqueIndex | BrowseVirtual | BrowseNone

record browse_identity =
  bi_kind :: browse_identity_kind
  bi_columns :: "string list"

definition identity_exists :: "browse_identity \<Rightarrow> bool" where
  "identity_exists i \<longleftrightarrow> bi_kind i \<noteq> BrowseNone \<and> bi_columns i \<noteq> []"

section \<open>Relation and request\<close>

record relation_column =
  rc_name :: string
  rc_cast_type :: string
  rc_nullable :: bool

record relation_descriptor =
  rd_schema :: string
  rd_table :: string
  rd_relkind :: char
  rd_server_version :: int
  rd_columns :: "relation_column list"
  rd_primary_key :: "string list"
  rd_unique_indexes :: "unique_index_candidate list"

definition CTID_CAST_TYPE :: string where "CTID_CAST_TYPE = ''tid''"
definition TABLEOID_CAST_TYPE :: string where "TABLEOID_CAST_TYPE = ''oid''"
definition CTID_KEYSET_VERSION :: int where "CTID_KEYSET_VERSION = 140000"
definition MAX_TABLE_PAGE_SIZE :: nat where "MAX_TABLE_PAGE_SIZE = 1000"

definition relation_column_of :: "relation_descriptor \<Rightarrow> string \<Rightarrow> relation_column option" where
  "relation_column_of d name = find (\<lambda>c. rc_name c = name) (rd_columns d)"

definition browse_identity_of :: "relation_descriptor \<Rightarrow> browse_identity" where
  "browse_identity_of d =
     (let resolved = resolve_identity (rd_relkind d) (rd_primary_key d) (rd_unique_indexes d)
      in \<lparr>bi_kind = (case ri_kind resolved of RelPrimaryKey \<Rightarrow> BrowsePrimaryKey | RelUniqueIndex \<Rightarrow> BrowseUniqueIndex
            | RelCtidFallback \<Rightarrow> BrowseVirtual | RelNone \<Rightarrow> BrowseNone),
          bi_columns = ri_columns resolved\<rparr>)"

datatype comparison_operator = CmpEq | CmpNeq | CmpLt | CmpLte | CmpGt | CmpGte
datatype text_match_operator = Contains | NotContains | StartsWith | EndsWith

datatype browse_filter =
  Comparison string comparison_operator string
| TextMatch string text_match_operator string
| IsNull string
| IsNotNull string
| InList string "string list"
| RawSql string

datatype sort_direction = Asc | Desc
datatype nulls_order = NullsDefault | NullsFirst | NullsLast

record browse_sort_key =
  bk_column :: string
  bk_direction :: sort_direction
  bk_nulls :: nulls_order

type_synonym browse_cursor = "string list"

datatype page_request = PageOffset nat | PageKeyset "browse_cursor option"
datatype page_mode = OffsetMode | KeysetMode

record browse_request =
  br_filters :: "browse_filter list"
  br_sort :: "browse_sort_key list"
  br_page :: page_request
  br_page_size :: nat

datatype browse_error =
  BrowseUnsupportedEngine | BrowseUnknownColumn string | InvalidFilter string | InvalidSort string | InvalidCursor
| BrowseSuperseded | BrowseCancelled | BrowseConnectionClosing | BrowseConnectionLost | BrowseTlsFailed
| BrowseTimeout string | BrowseDatabase "string option"

datatype bound_param = ParamText string | ParamTextArray "string list"

section \<open>Filters\<close>

fun escape_like :: "string \<Rightarrow> string" where
  "escape_like [] = []"
| "escape_like (c # cs) = (if c \<in> {BACKSLASH, CHR ''%'', CHR ''_''} then BACKSLASH # c # escape_like cs
     else c # escape_like cs)"

definition comparison_text :: "comparison_operator \<Rightarrow> string" where
  "comparison_text operator =
     (case operator of CmpEq \<Rightarrow> ''='' | CmpNeq \<Rightarrow> ''<>'' | CmpLt \<Rightarrow> ''<'' | CmpLte \<Rightarrow> ''<=''
      | CmpGt \<Rightarrow> ''>'' | CmpGte \<Rightarrow> ''>='')"

definition like_pattern :: "text_match_operator \<Rightarrow> string \<Rightarrow> string" where
  "like_pattern operator value =
     (case operator of
        Contains \<Rightarrow> ''%'' @ escape_like value @ ''%''
      | NotContains \<Rightarrow> ''%'' @ escape_like value @ ''%''
      | StartsWith \<Rightarrow> escape_like value @ ''%''
      | EndsWith \<Rightarrow> ''%'' @ escape_like value)"

definition require_relation_column :: "relation_descriptor \<Rightarrow> string \<Rightarrow> browse_error + relation_column" where
  "require_relation_column d name =
     (case relation_column_of d name of None \<Rightarrow> Inl (BrowseUnknownColumn name) | Some c \<Rightarrow> Inr c)"

definition with_column ::
  "relation_descriptor \<Rightarrow> string \<Rightarrow> (relation_column \<Rightarrow> browse_error + 'a) \<Rightarrow> browse_error + 'a" where
  "with_column d name f = (case require_relation_column d name of Inl e \<Rightarrow> Inl e | Inr c \<Rightarrow> f c)"

fun render_filter ::
  "relation_descriptor \<Rightarrow> browse_filter \<Rightarrow> bound_param list \<Rightarrow> browse_error + (string \<times> bound_param list)" where
  "render_filter d (RawSql raw) params =
     (let t = trim raw in
      if t = [] then Inl (InvalidFilter ''emptyRawSql'') else Inr (''('' @ t @ '')'', params))"
| "render_filter d (IsNull column) params =
     with_column d column (\<lambda>_. Inr (quote_double column @ '' IS NULL'', params))"
| "render_filter d (IsNotNull column) params =
     with_column d column (\<lambda>_. Inr (quote_double column @ '' IS NOT NULL'', params))"
| "render_filter d (InList column values) params =
     with_column d column (\<lambda>c.
       if values = [] then Inl (InvalidFilter ''emptyInList'')
       else let params = params @ [ParamTextArray values] in
         Inr (quote_double column @ '' = ANY(($'' @ decimal (length params) @ ''::text[])::''
                @ rc_cast_type c @ ''[])'', params))"
| "render_filter d (Comparison column operator value) params =
     with_column d column (\<lambda>c.
       let params = params @ [ParamText value] in
         Inr (quote_double column @ '' '' @ comparison_text operator @ '' ($'' @ decimal (length params)
                @ ''::text)::'' @ rc_cast_type c, params))"
| "render_filter d (TextMatch column operator value) params =
     with_column d column (\<lambda>c.
       let params = params @ [ParamText (like_pattern operator value)];
           op = (if operator = NotContains then ''NOT ILIKE'' else ''ILIKE'')
       in Inr (quote_double column @ ''::text '' @ op @ '' $'' @ decimal (length params) @ '' ESCAPE ''
                @ [SQUOTE, BACKSLASH, SQUOTE], params))"

fun render_filters ::
  "relation_descriptor \<Rightarrow> browse_filter list \<Rightarrow> bound_param list \<Rightarrow> browse_error + (string list \<times> bound_param list)" where
  "render_filters d [] params = Inr ([], params)"
| "render_filters d (f # fs) params =
     (case render_filter d f params of Inl e \<Rightarrow> Inl e
      | Inr (predicate, params) \<Rightarrow>
     (case render_filters d fs params of Inl e \<Rightarrow> Inl e
      | Inr (predicates, params) \<Rightarrow> Inr (predicate # predicates, params)))"

section \<open>Keyset and order\<close>

definition virtual_column_cast :: "string \<Rightarrow> string option" where
  "virtual_column_cast column =
     (if column = CTID_COLUMN then Some CTID_CAST_TYPE
      else if column = TABLEOID_COLUMN then Some TABLEOID_CAST_TYPE else None)"

fun keyset_parts ::
  "relation_descriptor \<Rightarrow> (string \<times> string) list \<Rightarrow> bound_param list \<Rightarrow>
   browse_error + (string list \<times> string list \<times> bound_param list)" where
  "keyset_parts d [] params = Inr ([], [], params)"
| "keyset_parts d ((column, value) # rest) params =
     (case (case virtual_column_cast column of Some ty \<Rightarrow> Some ty
            | None \<Rightarrow> map_option rc_cast_type (relation_column_of d column)) of
        None \<Rightarrow> Inl InvalidCursor
      | Some cast_type \<Rightarrow>
          let params = params @ [ParamText value];
              right = ''($'' @ decimal (length params) @ ''::text)::'' @ cast_type
          in (case keyset_parts d rest params of Inl e \<Rightarrow> Inl e
              | Inr (lefts, rights, params) \<Rightarrow> Inr (quote_double column # lefts, right # rights, params)))"

definition render_keyset ::
  "relation_descriptor \<Rightarrow> browse_identity \<Rightarrow> browse_cursor \<Rightarrow> bound_param list \<Rightarrow>
   browse_error + (string \<times> bound_param list)" where
  "render_keyset d identity cursor params =
     (case keyset_parts d (zip (bi_columns identity) cursor) params of Inl e \<Rightarrow> Inl e
      | Inr (lefts, rights, params) \<Rightarrow>
          Inr (''('' @ join '', '' lefts @ '') > ('' @ join '', '' rights @ '')'', params))"

definition render_sort_term :: "string \<Rightarrow> string \<Rightarrow> sort_direction \<Rightarrow> nulls_order \<Rightarrow> string" where
  "render_sort_term qualified column direction nulls =
     qualified @ ''.'' @ quote_double column @ '' '' @ (case direction of Asc \<Rightarrow> ''ASC'' | Desc \<Rightarrow> ''DESC'')
       @ (case nulls of NullsDefault \<Rightarrow> [] | NullsFirst \<Rightarrow> '' NULLS FIRST'' | NullsLast \<Rightarrow> '' NULLS LAST'')"

fun sort_terms :: "relation_descriptor \<Rightarrow> string \<Rightarrow> browse_sort_key list \<Rightarrow> browse_error + string list" where
  "sort_terms d qualified [] = Inr []"
| "sort_terms d qualified (k # ks) =
     (case relation_column_of d (bk_column k) of
        None \<Rightarrow> Inl (InvalidSort (bk_column k))
      | Some _ \<Rightarrow>
          (case sort_terms d qualified ks of Inl e \<Rightarrow> Inl e
           | Inr terms \<Rightarrow>
               Inr (render_sort_term qualified (bk_column k) (bk_direction k) (bk_nulls k) # terms)))"

definition render_order ::
  "relation_descriptor \<Rightarrow> browse_sort_key list \<Rightarrow> browse_identity \<Rightarrow> string \<Rightarrow> browse_error + string" where
  "render_order d keys identity qualified =
     (case sort_terms d qualified keys of Inl e \<Rightarrow> Inl e
      | Inr terms \<Rightarrow>
          let seen = map bk_column keys;
              ties = (if identity_exists identity
                then map (\<lambda>column. render_sort_term qualified column Asc NullsDefault)
                  (filter (\<lambda>column. column \<notin> set seen) (bi_columns identity))
                else [])
          in Inr (join '', '' (terms @ ties)))"

section \<open>Queries\<close>

definition effective_page_mode :: "browse_request \<Rightarrow> browse_identity \<Rightarrow> int \<Rightarrow> page_mode" where
  "effective_page_mode r identity server_version =
     (case br_page r of
        PageOffset _ \<Rightarrow> OffsetMode
      | PageKeyset _ \<Rightarrow>
          if br_sort r \<noteq> [] \<or> \<not> identity_exists identity then OffsetMode
          else if bi_kind identity = BrowseVirtual \<and> server_version < CTID_KEYSET_VERSION then OffsetMode
          else KeysetMode)"

record built_query =
  bq_sql :: string
  bq_params :: "bound_param list"
  bq_where_sql :: string
  bq_where_params :: "bound_param list"
  bq_qualified :: string
  bq_visible :: "relation_column list"
  bq_identity :: browse_identity
  bq_projects_ctid :: bool
  bq_page_mode :: page_mode
  bq_page :: "nat option"
  bq_page_size :: nat

definition clamp_page_size :: "nat \<Rightarrow> nat" where
  "clamp_page_size n = min (max n 1) MAX_TABLE_PAGE_SIZE"

definition requested_page :: "page_request \<Rightarrow> page_mode \<Rightarrow> nat option" where
  "requested_page p mode =
     (case mode of KeysetMode \<Rightarrow> None
      | OffsetMode \<Rightarrow> (case p of PageOffset page \<Rightarrow> Some (max page 1) | PageKeyset _ \<Rightarrow> Some 1))"

definition keyset_predicate ::
  "relation_descriptor \<Rightarrow> browse_identity \<Rightarrow> page_mode \<Rightarrow> page_request \<Rightarrow> bound_param list \<Rightarrow>
   browse_error + (string list \<times> bound_param list)" where
  "keyset_predicate d identity mode p params =
     (case (mode, p) of
        (KeysetMode, PageKeyset (Some cursor)) \<Rightarrow>
          if length cursor \<noteq> length (bi_columns identity) then Inl InvalidCursor
          else (case render_keyset d identity cursor params of Inl e \<Rightarrow> Inl e
                | Inr (predicate, params) \<Rightarrow> Inr ([predicate], params))
      | _ \<Rightarrow> Inr ([], params))"

definition browse_qualified :: "relation_descriptor \<Rightarrow> string" where
  "browse_qualified d =
     (case qualified_table_name PostgreSQL (rd_schema d) (rd_table d) of None \<Rightarrow> [] | Some q \<Rightarrow> q)"

definition select_list :: "relation_descriptor \<Rightarrow> browse_identity \<Rightarrow> string list" where
  "select_list d identity =
     map (\<lambda>c. quote_double (rc_name c) @ ''::text'') (rd_columns d)
       @ (if bi_kind identity = BrowseVirtual then map (\<lambda>c. quote_double c @ ''::text'') (bi_columns identity) else [])"

definition page_clause :: "page_mode \<Rightarrow> nat option \<Rightarrow> nat \<Rightarrow> string" where
  "page_clause mode page page_size =
     '' LIMIT '' @ decimal (page_size + 1)
       @ (if mode = OffsetMode
          then '' OFFSET '' @ decimal (min (((case page of None \<Rightarrow> 1 | Some p \<Rightarrow> p) - 1) * page_size) u64_max) else [])"

definition build_browse_query :: "relation_descriptor \<Rightarrow> browse_request \<Rightarrow> browse_error + built_query" where
  "build_browse_query d r =
     (let page_size = clamp_page_size (br_page_size r); identity = browse_identity_of d in
      case render_filters d (br_filters r) [] of Inl e \<Rightarrow> Inl e
      | Inr (filters, where_params) \<Rightarrow>
     (let mode = effective_page_mode r identity (rd_server_version d);
          page = requested_page (br_page r) mode in
      case keyset_predicate d identity mode (br_page r) where_params of Inl e \<Rightarrow> Inl e
      | Inr (keyset, params) \<Rightarrow>
     (let qualified = browse_qualified d; predicates = filters @ keyset in
      case render_order d (br_sort r) identity qualified of Inl e \<Rightarrow> Inl e
      | Inr order_sql \<Rightarrow>
          Inr \<lparr>bq_sql = ''SELECT '' @ join '', '' (select_list d identity) @ '' FROM '' @ qualified
                 @ (if predicates = [] then [] else '' WHERE '' @ join '' AND '' predicates)
                 @ (if order_sql = [] then [] else '' ORDER BY '' @ order_sql)
                 @ page_clause mode page page_size,
               bq_params = params, bq_where_sql = join '' AND '' filters, bq_where_params = where_params,
               bq_qualified = qualified, bq_visible = rd_columns d, bq_identity = identity,
               bq_projects_ctid = (bi_kind identity = BrowseVirtual), bq_page_mode = mode, bq_page = page,
               bq_page_size = page_size\<rparr>)))"

definition count_sql :: "built_query \<Rightarrow> string" where
  "count_sql b = ''SELECT count(*) FROM '' @ bq_qualified b
     @ (if bq_where_sql b = [] then [] else '' WHERE '' @ bq_where_sql b)"

definition explain_sql :: "built_query \<Rightarrow> string" where
  "explain_sql b = ''EXPLAIN (FORMAT JSON) SELECT 1 FROM '' @ bq_qualified b
     @ (if bq_where_sql b = [] then [] else '' WHERE '' @ bq_where_sql b)"

definition build_count_query ::
  "relation_descriptor \<Rightarrow> browse_filter list \<Rightarrow> browse_error + (string \<times> bound_param list)" where
  "build_count_query d filters =
     (case build_browse_query d \<lparr>br_filters = filters, br_sort = [], br_page = PageOffset 1, br_page_size = 1\<rparr> of
        Inl e \<Rightarrow> Inl e
      | Inr b \<Rightarrow> Inr (count_sql b, bq_where_params b))"

end
