(* ===== verification/BrowseProps.thy ===== *)
theory BrowseProps imports BrowseBuilder "HOL-Library.Sublist" begin

text \<open>
  What the queries of the table browser do with the values they are given: text filters match
  literally, and no value gets into the text of a query.
\<close>

section \<open>Text filters\<close>

text \<open>
  The documented matching rules of \<open>ILIKE .. ESCAPE '\'\<close>, over characters compared up to
  \<open>lower\<close>: a percent sign stands for any run, the escape makes the next character literal.
\<close>

definition documented_like :: "(char \<Rightarrow> char) \<Rightarrow> (string \<Rightarrow> string \<Rightarrow> bool) \<Rightarrow> bool" where
  "documented_like lower like \<longleftrightarrow>
     (\<forall>s. like [] s \<longleftrightarrow> s = []) \<and>
     (\<forall>p s. like (CHR ''%'' # p) s \<longleftrightarrow> (\<exists>k\<le>length s. like p (drop k s))) \<and>
     (\<forall>c p s. like (BACKSLASH # c # p) s \<longleftrightarrow> (\<exists>x u. s = x # u \<and> lower x = lower c \<and> like p u)) \<and>
     (\<forall>c p s. c \<notin> {BACKSLASH, CHR ''%'', CHR ''_''} \<longrightarrow>
        (like (c # p) s \<longleftrightarrow> (\<exists>x u. s = x # u \<and> lower x = lower c \<and> like p u)))"

text \<open>What the operator of a text filter says of a cell.\<close>

definition text_match_holds :: "(char \<Rightarrow> char) \<Rightarrow> text_match_operator \<Rightarrow> string \<Rightarrow> string \<Rightarrow> bool" where
  "text_match_holds lower operator value cell =
     (case operator of
        Contains \<Rightarrow> sublist (map lower value) (map lower cell)
      | NotContains \<Rightarrow> \<not> sublist (map lower value) (map lower cell)
      | StartsWith \<Rightarrow> prefix (map lower value) (map lower cell)
      | EndsWith \<Rightarrow> suffix (map lower value) (map lower cell))"

lemma documented_like_rules:
  assumes "documented_like lower like"
  shows "like [] s \<longleftrightarrow> s = []" "like (CHR ''%'' # p) s \<longleftrightarrow> (\<exists>k\<le>length s. like p (drop k s))"
    "like (BACKSLASH # c # p) s \<longleftrightarrow> (\<exists>x u. s = x # u \<and> lower x = lower c \<and> like p u)"
    "c \<notin> {BACKSLASH, CHR ''%'', CHR ''_''} \<Longrightarrow>
       like (c # p) s \<longleftrightarrow> (\<exists>x u. s = x # u \<and> lower x = lower c \<and> like p u)"
proof -
  note rules = assms [unfolded documented_like_def]
  show "like [] s \<longleftrightarrow> s = []" using rules [THEN conjunct1] by (rule spec)
  show "like (CHR ''%'' # p) s \<longleftrightarrow> (\<exists>k\<le>length s. like p (drop k s))"
    using rules [THEN conjunct2, THEN conjunct1] by (elim allE)
  show "like (BACKSLASH # c # p) s \<longleftrightarrow> (\<exists>x u. s = x # u \<and> lower x = lower c \<and> like p u)"
    using rules [THEN conjunct2, THEN conjunct2, THEN conjunct1] by (elim allE)
  show "c \<notin> {BACKSLASH, CHR ''%'', CHR ''_''} \<Longrightarrow>
       like (c # p) s \<longleftrightarrow> (\<exists>x u. s = x # u \<and> lower x = lower c \<and> like p u)"
    using rules [THEN conjunct2, THEN conjunct2, THEN conjunct2] by (elim allE impE)
qed

lemma like_escaped:
  assumes "documented_like lower like"
  shows "like (escape_like v @ p) s \<longleftrightarrow> (\<exists>u w. s = u @ w \<and> map lower u = map lower v \<and> like p w)"
proof (induction v arbitrary: s)
  case (Cons c v)
  have "like (escape_like (c # v) @ p) s \<longleftrightarrow> (\<exists>x u. s = x # u \<and> lower x = lower c \<and> like (escape_like v @ p) u)"
    using documented_like_rules(3,4) [OF assms] by simp
  also have "\<dots> \<longleftrightarrow> (\<exists>u w. s = u @ w \<and> map lower u = map lower (c # v) \<and> like p w)"
    unfolding Cons.IH by (auto simp: map_eq_Cons_conv) (metis append_Cons)+
  finally show ?case .
qed simp

lemma like_any_run:
  assumes "documented_like lower like"
  shows "like (CHR ''%'' # p) s \<longleftrightarrow> (\<exists>u w. s = u @ w \<and> like p w)"
  unfolding documented_like_rules(2) [OF assms]
  by (metis append_eq_conv_conj append_take_drop_id length_append le_add1)

lemma like_rest_free:
  assumes "documented_like lower like"
  shows "like [CHR ''%''] s"
  unfolding like_any_run [OF assms] documented_like_rules(1) [OF assms] by simp

lemma like_pattern_literal:
  assumes "documented_like lower like"
  shows "(if operator = NotContains then \<not> like (like_pattern operator v) s else like (like_pattern operator v) s)
     = text_match_holds lower operator v s"
proof -
  have prefixes: "like (escape_like v @ [CHR ''%'']) t \<longleftrightarrow> prefix (map lower v) (map lower t)" for t
    unfolding like_escaped [OF assms] prefix_def
    by (auto simp: like_rest_free [OF assms] map_eq_append_conv)
  have suffixes: "like (CHR ''%'' # escape_like v) t \<longleftrightarrow> suffix (map lower v) (map lower t)" for t
    using like_escaped [OF assms, of v "[]"] documented_like_rules(1) [OF assms]
    unfolding like_any_run [OF assms] suffix_def by (auto simp: map_eq_append_conv) metis+
  have sublists: "like (CHR ''%'' # escape_like v @ [CHR ''%'']) t \<longleftrightarrow> sublist (map lower v) (map lower t)" for t
    unfolding like_any_run [OF assms] prefixes sublist_altdef' suffix_def
    by (metis map_append map_eq_append_conv)
  show ?thesis
    by (cases operator) (simp_all add: like_pattern_def text_match_holds_def prefixes suffixes sublists)
qed


fun sample_like :: "(char \<Rightarrow> char) \<Rightarrow> string \<Rightarrow> string \<Rightarrow> bool" where
  "sample_like lower [] s \<longleftrightarrow> s = []"
| "sample_like lower (c # p) s \<longleftrightarrow>
     (if c = CHR ''%'' then list_ex (\<lambda>k. sample_like lower p (drop k s)) [0..<Suc (length s)]
      else if c = BACKSLASH then
        (case p of [] \<Rightarrow> False | e # q \<Rightarrow> (case s of [] \<Rightarrow> False | x # u \<Rightarrow> lower x = lower e \<and> sample_like lower q u))
      else (case s of [] \<Rightarrow> False | x # u \<Rightarrow> (c = CHR ''_'' \<or> lower x = lower c) \<and> sample_like lower p u))"

lemma sample_like_documented: "documented_like lower (sample_like lower)"
proof -
  have "sample_like lower (CHR ''%'' # p) s \<longleftrightarrow> (\<exists>k\<le>length s. sample_like lower p (drop k s))" for p s
    by (simp only: sample_like.simps if_True list_ex_iff set_upt refl) (auto simp: less_Suc_eq_le)
  then show ?thesis by (auto simp: documented_like_def simp del: upt_Suc split: list.splits)
qed

definition sample_relation :: relation_descriptor where
  "sample_relation = \<lparr>rd_schema = ''public'', rd_table = ''users'', rd_relkind = CHR ''r'', rd_server_version = 160000,
     rd_columns = [\<lparr>rc_name = ''id'', rc_cast_type = ''integer'', rc_nullable = False\<rparr>,
       \<lparr>rc_name = ''name'', rc_cast_type = ''text'', rc_nullable = True\<rparr>],
     rd_primary_key = [''id''], rd_unique_indexes = []\<rparr>"


section \<open>Values\<close>

text \<open>A request without its values: how many there are is kept, what they are is not.\<close>

definition erase_filter :: "browse_filter \<Rightarrow> browse_filter" where
  "erase_filter f = (case f of
      Comparison column operator value \<Rightarrow> Comparison column operator []
    | TextMatch column operator value \<Rightarrow> TextMatch column operator []
    | InList column vs \<Rightarrow> InList column (if vs = [] then [] else [[]])
    | IsNull column \<Rightarrow> IsNull column | IsNotNull column \<Rightarrow> IsNotNull column | RawSql raw \<Rightarrow> RawSql raw)"

definition erase_page :: "page_request \<Rightarrow> page_request" where
  "erase_page p = (case p of PageOffset page \<Rightarrow> PageOffset page
     | PageKeyset cursor \<Rightarrow> PageKeyset (map_option (map (\<lambda>_. [])) cursor))"

definition erase_request :: "browse_request \<Rightarrow> browse_request" where
  "erase_request r = r\<lparr>br_filters := map erase_filter (br_filters r), br_page := erase_page (br_page r)\<rparr>"

abbreviation params_counted :: "browse_error + ('a \<times> bound_param list) \<Rightarrow> browse_error + ('a \<times> nat)" where
  "params_counted \<equiv> map_sum id (apsnd length)"

lemma params_counted_simps:
  "params_counted r = Inl e \<longleftrightarrow> r = Inl e"
  "params_counted r = Inr (t, n) \<longleftrightarrow> (\<exists>ps. r = Inr (t, ps) \<and> length ps = n)"
  by (cases r; auto)+

lemma params_countedE:
  assumes "params_counted r = params_counted r'"
  obtains e where "r = Inl e" "r' = Inl e" | t ps ps' where "r = Inr (t, ps)" "r' = Inr (t, ps')" "length ps = length ps'"
  using assms by (cases r; cases r') auto

lemma render_filter_erased:
  "length ps = length qs \<Longrightarrow> params_counted (render_filter d (erase_filter f) ps) = params_counted (render_filter d f qs)"
  by (cases f) (auto simp: erase_filter_def with_column_def Let_def split: sum.splits)

lemma render_filters_erased:
  "length ps = length qs \<Longrightarrow>
     params_counted (render_filters d (map erase_filter fs) ps) = params_counted (render_filters d fs qs)"
proof (induction fs arbitrary: ps qs)
  case (Cons f fs)
  from params_countedE [OF render_filter_erased [OF Cons.prems, of d f]] show ?case
  proof cases
    case (2 t rs ss)
    from params_countedE [OF Cons.IH [OF 2(3)]] show ?thesis by cases (auto simp: 2)
  qed simp
qed simp

lemma keyset_parts_erased:
  "length ps = length qs \<Longrightarrow>
     map_sum id (apsnd (apsnd length)) (keyset_parts d (zip columns (map (\<lambda>_. []) cursor)) ps)
     = map_sum id (apsnd (apsnd length)) (keyset_parts d (zip columns cursor) qs)"
proof (induction columns arbitrary: cursor ps qs)
  case (Cons c columns)
  show ?case
  proof (cases cursor)
    case (Cons v rest)
    have *: "map_sum id (apsnd (apsnd length)) (keyset_parts d (zip columns (map (\<lambda>_. []) rest)) (ps @ [ParamText []]))
       = map_sum id (apsnd (apsnd length)) (keyset_parts d (zip columns rest) (qs @ [ParamText v]))"
      by (rule Cons.IH) (simp add: Cons.prems)
    show ?thesis using * Cons.prems
      by (cases "keyset_parts d (zip columns (map (\<lambda>_. []) rest)) (ps @ [ParamText []])";
          cases "keyset_parts d (zip columns rest) (qs @ [ParamText v])")
        (auto simp: Cons Let_def split: option.splits)
  qed (simp add: Cons.prems)
qed simp

lemma render_keyset_erased:
  "length ps = length qs \<Longrightarrow>
     params_counted (render_keyset d i (map (\<lambda>_. []) cursor) ps) = params_counted (render_keyset d i cursor qs)"
  using keyset_parts_erased [of ps qs d "bi_columns i" cursor]
  by (cases "keyset_parts d (zip (bi_columns i) (map (\<lambda>_. []) cursor)) ps"; cases "keyset_parts d (zip (bi_columns i) cursor) qs")
    (auto simp: render_keyset_def)

lemma keyset_predicate_erased:
  "length ps = length qs \<Longrightarrow>
     params_counted (keyset_predicate d i mode (erase_page p) ps) = params_counted (keyset_predicate d i mode p qs)"
proof (cases "mode = KeysetMode \<and> (\<exists>cursor. p = PageKeyset (Some cursor))")
  case True
  then obtain cursor where p: "mode = KeysetMode" "p = PageKeyset (Some cursor)" by blast
  assume "length ps = length qs"
  from params_countedE [OF render_keyset_erased [OF this, of d i cursor]] show ?thesis
    by cases (simp_all add: p keyset_predicate_def erase_page_def)
next
  case False
  assume "length ps = length qs"
  with False show ?thesis
    by (auto simp: keyset_predicate_def erase_page_def split: page_request.splits page_mode.splits option.splits)
qed

lemma erase_request_simps [simp]:
  "br_filters (erase_request r) = map erase_filter (br_filters r)" "br_sort (erase_request r) = br_sort r"
  "br_page (erase_request r) = erase_page (br_page r)" "br_page_size (erase_request r) = br_page_size r"
  "effective_page_mode (erase_request r) i v = effective_page_mode r i v"
  "requested_page (erase_page p) mode = requested_page p mode"
  by (auto simp: erase_request_def effective_page_mode_def erase_page_def requested_page_def
      split: page_request.splits page_mode.splits)

text \<open>
  C22: Values stay out of the text: the query built for a request, or the error, is the one built
  when every compared value, list element and cursor value is replaced by the empty text.  Only what
  the user wrote as raw SQL reaches the text of a query.
\<close>

theorem browse_text_ignores_values:
  "map_sum id bq_sql (build_browse_query d (erase_request r)) = map_sum id bq_sql (build_browse_query d r)"
proof -
  from params_countedE [OF render_filters_erased [of "[]" "[]" d "br_filters r"]] show ?thesis
  proof (cases; simp)
    fix e assume "render_filters d (map erase_filter (br_filters r)) [] = Inl e" "render_filters d (br_filters r) [] = Inl e"
    then show ?thesis by (simp add: build_browse_query_def Let_def)
  next
    fix fs ps qs
    assume filters: "render_filters d (map erase_filter (br_filters r)) [] = Inr (fs, ps)"
      "render_filters d (br_filters r) [] = Inr (fs, qs)" "length ps = length qs"
    let ?i = "browse_identity_of d"
    let ?m = "effective_page_mode r ?i (rd_server_version d)"
    from params_countedE [OF keyset_predicate_erased [OF filters(3), of d ?i ?m "br_page r"]] filters(1,2)
    show ?thesis
      by cases (simp_all add: build_browse_query_def Let_def split: sum.split)
  qed
qed

end
