(* ===== verification/BrowseRows.thy ===== *)
theory BrowseRows imports BrowseBuilder begin

text \<open>
  The rows of a browse page: the retention caps of \<open>backend/src/postgres/row_budget.rs\<close>, the decoding
  of the row stream of \<open>table_browse/postgres.rs\<close> and the page it becomes in \<open>table_browse/runner.rs\<close>.
  A row is the text of its projected cells.  \<open>json_bytes\<close>, the size of a row as \<open>serde_json\<close>
  writes it, is an argument.
\<close>

type_synonym browse_cell = "string option"
type_synonym json_size = "browse_cell list \<Rightarrow> nat"

section \<open>Retention caps\<close>

definition MAX_CELL_BYTES :: nat where "MAX_CELL_BYTES = 1024 * 1024"
definition MAX_ROW_BYTES :: nat where "MAX_ROW_BYTES = 2 * 1024 * 1024"
definition MAX_RESPONSE_BYTES :: nat where "MAX_RESPONSE_BYTES = 32 * 1024 * 1024"

definition retained_row_bytes :: "json_size \<Rightarrow> browse_cell list \<Rightarrow> string list option \<Rightarrow> nat" where
  "retained_row_bytes json_bytes cells identity =
     min (json_bytes cells + (case identity of None \<Rightarrow> 0 | Some vs \<Rightarrow> json_bytes (map Some vs))) usize_max"

text \<open>\<open>str::is_char_boundary\<close>, and the loop that steps back to one.\<close>

definition is_char_boundary :: "string \<Rightarrow> nat \<Rightarrow> bool" where
  "is_char_boundary s i \<longleftrightarrow> i = 0 \<or> i = length s \<or> (case get s i of None \<Rightarrow> False | Some b \<Rightarrow> \<not> (0x80 \<le> byte b \<and> byte b < 0xC0))"

fun floor_boundary :: "string \<Rightarrow> nat \<Rightarrow> nat" where
  "floor_boundary s 0 = 0"
| "floor_boundary s (Suc end) = (if is_char_boundary s (Suc end) then Suc end else floor_boundary s end)"

definition truncate_utf8 :: "string \<Rightarrow> nat \<Rightarrow> string" where
  "truncate_utf8 s limit = (if length s \<le> limit then s else take (floor_boundary s limit) s)"

definition bound_text :: "string \<Rightarrow> nat \<Rightarrow> string \<times> nat" where
  "bound_text s truncated_cells =
     (let truncated = truncate_utf8 s MAX_CELL_BYTES
      in (truncated, if length truncated \<noteq> length s then truncated_cells + 1 else truncated_cells))"

lemma floor_boundary_le: "floor_boundary s n \<le> n"
  by (induction n) auto

text \<open>The last cell that is not null, and the row with that cell replaced.\<close>

fun last_text :: "browse_cell list \<Rightarrow> (browse_cell list \<times> string \<times> browse_cell list) option" where
  "last_text [] = None"
| "last_text (c # cs) =
     (case last_text cs of Some (before, s, after) \<Rightarrow> Some (c # before, s, after)
      | None \<Rightarrow> (case c of None \<Rightarrow> None | Some s \<Rightarrow> Some ([], s, cs)))"

lemma last_text_split: "last_text cs = Some (before, s, after) \<Longrightarrow> cs = before @ Some s # after"
  by (induction cs arbitrary: before) (auto split: option.splits)

abbreviation cells_size :: "browse_cell list \<Rightarrow> nat" where
  "cells_size cs \<equiv> sum_list (map (\<lambda>c. case c of None \<Rightarrow> 0 | Some s \<Rightarrow> length s) cs)"

lemma half_boundary_less: "s \<noteq> [] \<Longrightarrow> length (take (floor_boundary s (length s div 2)) s) < length s"
  using floor_boundary_le [of s "length s div 2"] by (cases s) auto

function shrink_row :: "json_size \<Rightarrow> browse_cell list \<Rightarrow> bool \<Rightarrow> browse_cell list \<times> bool" where
  "shrink_row json_bytes cells shrunk =
     (if json_bytes cells \<le> MAX_ROW_BYTES then (cells, shrunk)
      else case last_text cells of None \<Rightarrow> (cells, shrunk)
        | Some (before, s, after) \<Rightarrow>
            if s = [] then (cells, shrunk)
            else shrink_row json_bytes (before @ Some (take (floor_boundary s (length s div 2)) s) # after) True)"
  by pat_completeness auto
termination
  by (relation "measure (\<lambda>(_, cells, _). cells_size cells)")
    (auto dest!: last_text_split simp: half_boundary_less simp del: length_take)

declare shrink_row.simps [simp del]

section \<open>Decoding\<close>

definition browse_cell_text :: "browse_cell list \<Rightarrow> nat \<Rightarrow> browse_cell" where
  "browse_cell_text row i = (case get row i of None \<Rightarrow> None | Some c \<Rightarrow> c)"

fun bound_cells :: "browse_cell list \<Rightarrow> nat \<Rightarrow> browse_cell list \<times> nat" where
  "bound_cells [] n = ([], n)"
| "bound_cells (None # cs) n = (let (cs, n) = bound_cells cs n in (None # cs, n))"
| "bound_cells (Some s # cs) n =
     (let (s, n) = bound_text s n; (cs, n) = bound_cells cs n in (Some s # cs, n))"

fun bound_identity :: "string list \<Rightarrow> nat \<Rightarrow> string list \<times> nat" where
  "bound_identity [] n = ([], n)"
| "bound_identity (s # ss) n = (let (s, n) = bound_text s n; (ss, n) = bound_identity ss n in (s # ss, n))"

definition or_empty :: "browse_cell \<Rightarrow> string" where
  "or_empty c = (case c of None \<Rightarrow> [] | Some s \<Rightarrow> s)"

fun column_index :: "('a \<Rightarrow> bool) \<Rightarrow> 'a list \<Rightarrow> nat option" where
  "column_index p [] = None"
| "column_index p (x # xs) = (if p x then Some 0 else map_option Suc (column_index p xs))"

definition identity_cells :: "built_query \<Rightarrow> browse_cell list \<Rightarrow> string list" where
  "identity_cells b cells =
     map (\<lambda>name. case column_index (\<lambda>c. rc_name c = name) (bq_visible b) of None \<Rightarrow> []
       | Some i \<Rightarrow> or_empty (browse_cell_text cells i)) (bi_columns (bq_identity b))"

definition extra_cells :: "built_query \<Rightarrow> browse_cell list \<Rightarrow> string list" where
  "extra_cells b row =
     map (\<lambda>offset. or_empty (browse_cell_text row (length (bq_visible b) + offset))) [0..<length (bi_columns (bq_identity b))]"

definition decode_row ::
  "json_size \<Rightarrow> built_query \<Rightarrow> browse_cell list \<Rightarrow> nat \<Rightarrow> browse_cell list \<times> string list option \<times> nat" where
  "decode_row json_bytes b row n =
     (let (cells, n) = bound_cells (map (browse_cell_text row) [0..<length (bq_visible b)]) n;
          (extra, n) = (if bq_projects_ctid b then apfst Some (bound_identity (extra_cells b row) n) else (None, n));
          (cells, shrunk) = shrink_row json_bytes cells False;
          n = (if shrunk then n + 1 else n);
          identity = (case extra of Some vs \<Rightarrow> Some vs
            | None \<Rightarrow> if identity_exists (bq_identity b) then Some (identity_cells b cells) else None)
      in (cells, identity, n))"

record executed_browse =
  eb_rows :: "browse_cell list list"
  eb_identity :: "string list list option"
  eb_has_more :: bool
  eb_omitted :: nat
  eb_truncated :: nat

record browse_decoder =
  de_rows :: "browse_cell list list"
  de_identities :: "string list list"
  de_retained :: nat
  de_truncated :: nat

definition decode_done :: "built_query \<Rightarrow> browse_decoder \<Rightarrow> nat \<Rightarrow> bool \<Rightarrow> nat \<Rightarrow> executed_browse" where
  "decode_done b s truncated has_more omitted =
     \<lparr>eb_rows = de_rows s,
      eb_identity = (if identity_exists (bq_identity b) then Some (de_identities s) else None),
      eb_has_more = has_more, eb_omitted = omitted, eb_truncated = truncated\<rparr>"

fun decode_loop ::
  "json_size \<Rightarrow> built_query \<Rightarrow> (browse_error + browse_cell list) list \<Rightarrow> browse_decoder \<Rightarrow> browse_error + executed_browse" where
  "decode_loop json_bytes b [] s = Inr (decode_done b s (de_truncated s) False 0)"
| "decode_loop json_bytes b (Inl e # stream) s = Inl e"
| "decode_loop json_bytes b (Inr row # stream) s =
     (if bq_page_size b \<le> length (de_rows s) then Inr (decode_done b s (de_truncated s) True 0)
      else let (cells, identity, truncated) = decode_row json_bytes b row (de_truncated s);
               bytes = retained_row_bytes json_bytes cells identity
           in if MAX_RESPONSE_BYTES < min (de_retained s + bytes) usize_max
              then Inr (decode_done b s truncated True 1)
              else decode_loop json_bytes b stream
                \<lparr>de_rows = de_rows s @ [cells],
                 de_identities = de_identities s @ (case identity of None \<Rightarrow> [] | Some vs \<Rightarrow> [vs]),
                 de_retained = de_retained s + bytes, de_truncated = truncated\<rparr>)"

definition decode_browse_stream ::
  "json_size \<Rightarrow> built_query \<Rightarrow> (browse_error + browse_cell list) list \<Rightarrow> browse_error + executed_browse" where
  "decode_browse_stream json_bytes b stream =
     decode_loop json_bytes b stream \<lparr>de_rows = [], de_identities = [], de_retained = 0, de_truncated = 0\<rparr>"

section \<open>A page\<close>

definition next_cursor :: "built_query \<Rightarrow> string list list option \<Rightarrow> bool \<Rightarrow> browse_cursor option" where
  "next_cursor b row_identity has_more =
     (if bq_page_mode b \<noteq> KeysetMode \<or> \<not> has_more then None
      else case row_identity of None \<Rightarrow> None | Some [] \<Rightarrow> None | Some rows \<Rightarrow> Some (last rows))"

definition browse_undefined_object :: "browse_error \<Rightarrow> bool" where
  "browse_undefined_object e \<longleftrightarrow> e \<in> {BrowseDatabase (Some ''42703''), BrowseDatabase (Some ''42P01'')}"

record browse_page =
  bp_rows :: "browse_cell list list"
  bp_identity :: "string list list option"
  bp_has_more :: bool
  bp_next :: "browse_cursor option"
  bp_omitted :: nat
  bp_truncated :: nat

definition browse_page_of :: "built_query \<Rightarrow> executed_browse \<Rightarrow> browse_page" where
  "browse_page_of b x = \<lparr>bp_rows = eb_rows x, bp_identity = eb_identity x, bp_has_more = eb_has_more x,
     bp_next = next_cursor b (eb_identity x) (eb_has_more x), bp_omitted = eb_omitted x, bp_truncated = eb_truncated x\<rparr>"

end
