(* ===== verification/BrowsePaging.thy ===== *)
theory BrowsePaging imports BrowseRows begin

text \<open>
  Paging by key.  A reader asks for the first page and goes on with the cursor of each page; the
  server is a function that answers the built query with rows in the order of their identity.
\<close>

section \<open>Rows within the caps\<close>

definition small_texts :: "browse_cell list \<Rightarrow> bool" where
  "small_texts cells \<longleftrightarrow> (\<forall>s. Some s \<in> set cells \<longrightarrow> length s \<le> MAX_CELL_BYTES)"

definition visible_cells :: "built_query \<Rightarrow> browse_cell list \<Rightarrow> browse_cell list" where
  "visible_cells b row = map (browse_cell_text row) [0..<length (bq_visible b)]"

definition row_key :: "built_query \<Rightarrow> browse_cell list \<Rightarrow> string list" where
  "row_key b row = (if bq_projects_ctid b then extra_cells b row else identity_cells b (visible_cells b row))"

text \<open>A row no cap applies to.\<close>

definition plain_row :: "json_size \<Rightarrow> built_query \<Rightarrow> browse_cell list \<Rightarrow> bool" where
  "plain_row json_bytes b row \<longleftrightarrow> small_texts row \<and> json_bytes (visible_cells b row) \<le> MAX_ROW_BYTES
     \<and> json_bytes (visible_cells b row) + json_bytes (map Some (row_key b row)) \<le> MAX_RESPONSE_BYTES"

lemma bound_text_small [simp]: "length s \<le> MAX_CELL_BYTES \<Longrightarrow> bound_text s n = (s, n)"
  by (simp add: bound_text_def truncate_utf8_def)

lemma bound_cells_small: "small_texts cs \<Longrightarrow> bound_cells cs n = (cs, n)"
proof (induction cs)
  case (Cons c cs)
  then show ?case by (cases c) (auto simp: small_texts_def)
qed simp

lemma bound_identity_small: "\<forall>s\<in>set ss. length s \<le> MAX_CELL_BYTES \<Longrightarrow> bound_identity ss n = (ss, n)"
  by (induction ss) auto

lemma shrink_row_small [simp]: "json_bytes cells \<le> MAX_ROW_BYTES \<Longrightarrow> shrink_row json_bytes cells k = (cells, k)"
  by (simp add: shrink_row.simps)

lemma small_cell_text: "small_texts row \<Longrightarrow> browse_cell_text row i = Some s \<Longrightarrow> length s \<le> MAX_CELL_BYTES"
  by (auto simp: small_texts_def browse_cell_text_def get_conv_nth split: if_splits) (metis nth_mem)

lemma small_visible: "small_texts row \<Longrightarrow> small_texts (visible_cells b row)"
  unfolding visible_cells_def by (subst small_texts_def) (auto intro: small_cell_text [OF _ sym])

lemma small_extra: "small_texts row \<Longrightarrow> \<forall>s\<in>set (extra_cells b row). length s \<le> MAX_CELL_BYTES"
  by (auto simp: extra_cells_def or_empty_def dest: small_cell_text split: option.splits)

lemma decode_row_plain:
  assumes "plain_row json_bytes b row" "identity_exists (bq_identity b)"
  shows "decode_row json_bytes b row n = (visible_cells b row, Some (row_key b row), n)"
proof -
  from assms have "small_texts row" "json_bytes (visible_cells b row) \<le> MAX_ROW_BYTES"
    by (simp_all add: plain_row_def)
  with assms(2) show ?thesis
    by (simp add: decode_row_def row_key_def flip: visible_cells_def)
      (simp add: bound_cells_small small_visible bound_identity_small small_extra Let_def)
qed

section \<open>Decoding a page of plain rows\<close>

text \<open>The decoder keeps a first part of the rows, all of them or, when there is more, at least one.\<close>

lemma decode_loop_plain:
  assumes "identity_exists (bq_identity b)" "\<forall>row\<in>set rows. plain_row json_bytes b row"
  shows "\<exists>k\<le>length rows. \<exists>x. decode_loop json_bytes b (map Inr rows) s = Inr x
     \<and> eb_rows x = de_rows s @ map (visible_cells b) (take k rows)
     \<and> eb_identity x = Some (de_identities s @ map (row_key b) (take k rows))
     \<and> (eb_has_more x \<longleftrightarrow> k < length rows)
     \<and> k + length (de_rows s) \<le> max (bq_page_size b) (length (de_rows s))
     \<and> (k = 0 \<longrightarrow> rows = [] \<or> bq_page_size b \<le> length (de_rows s) \<or> 0 < de_retained s)"
  using assms(2)
proof (induction rows arbitrary: s)
  case Nil
  then show ?case by (simp add: decode_done_def assms(1))
next
  case (Cons row rows)
  let ?b = "retained_row_bytes json_bytes (visible_cells b row) (Some (row_key b row))"
  have decoded: "decode_row json_bytes b row (de_truncated s) = (visible_cells b row, Some (row_key b row), de_truncated s)"
    using Cons.prems assms(1) by (simp add: decode_row_plain)
  have fits: "?b \<le> MAX_RESPONSE_BYTES"
    using Cons.prems by (simp add: plain_row_def retained_row_bytes_def min_le_iff_disj)
  show ?case
  proof (cases "bq_page_size b \<le> length (de_rows s) \<or> MAX_RESPONSE_BYTES < min (de_retained s + ?b) usize_max")
    case True
    then have "bq_page_size b \<le> length (de_rows s) \<or> 0 < de_retained s"
      using fits by auto
    with True show ?thesis
      by (intro exI [of _ 0]) (auto simp: decoded decode_done_def assms(1))
  next
    case False
    let ?s = "\<lparr>de_rows = de_rows s @ [visible_cells b row], de_identities = de_identities s @ [row_key b row],
      de_retained = de_retained s + ?b, de_truncated = de_truncated s\<rparr>"
    have step: "decode_loop json_bytes b (Inr row # map Inr rows) s = decode_loop json_bytes b (map Inr rows) ?s"
      using False by (auto simp: decoded Let_def)
    from Cons.IH [of ?s] Cons.prems obtain k x where
      k: "k \<le> length rows" "decode_loop json_bytes b (map Inr rows) ?s = Inr x"
        "eb_rows x = de_rows ?s @ map (visible_cells b) (take k rows)"
        "eb_identity x = Some (de_identities ?s @ map (row_key b) (take k rows))" "eb_has_more x \<longleftrightarrow> k < length rows"
        "k + length (de_rows ?s) \<le> max (bq_page_size b) (length (de_rows ?s))"
      by auto
    with False show ?thesis
      by (intro exI [of _ "Suc k"] conjI exI [of _ x]) (simp_all add: step del: decode_loop.simps)
  qed
qed

lemma decode_browse_stream_plain:
  assumes "identity_exists (bq_identity b)" "\<forall>row\<in>set rows. plain_row json_bytes b row" "0 < bq_page_size b"
  obtains k x where "k \<le> length rows" "decode_browse_stream json_bytes b (map Inr rows) = Inr x"
    "eb_rows x = map (visible_cells b) (take k rows)" "eb_identity x = Some (map (row_key b) (take k rows))"
    "eb_has_more x \<longleftrightarrow> k < length rows" "k = 0 \<Longrightarrow> rows = []" "k \<le> bq_page_size b"
  using decode_loop_plain [OF assms(1,2), of "\<lparr>de_rows = [], de_identities = [], de_retained = 0, de_truncated = 0\<rparr>"] assms(3)
  unfolding decode_browse_stream_def by auto

section \<open>Reading a table page by page\<close>

definition keyset_request :: "browse_request \<Rightarrow> browse_cursor option \<Rightarrow> browse_request" where
  "keyset_request r cursor = r\<lparr>br_page := PageKeyset cursor\<rparr>"

text \<open>
  The reader: a page, then the page after its cursor, until a page has none.  The first argument
  bounds the number of pages.
\<close>

fun browse_through ::
  "nat \<Rightarrow> json_size \<Rightarrow> (built_query \<Rightarrow> (browse_error + browse_cell list) list) \<Rightarrow> relation_descriptor \<Rightarrow>
   browse_request \<Rightarrow> browse_cursor option \<Rightarrow> browse_cell list list option" where
  "browse_through 0 json_bytes serve d r cursor = None"
| "browse_through (Suc n) json_bytes serve d r cursor =
     (case build_browse_query d (keyset_request r cursor) of Inl e \<Rightarrow> None
      | Inr b \<Rightarrow>
     (case decode_browse_stream json_bytes b (serve b) of Inl e \<Rightarrow> None
      | Inr x \<Rightarrow>
     (case bp_next (browse_page_of b x) of
        None \<Rightarrow> Some (eb_rows x)
      | Some c \<Rightarrow> map_option (\<lambda>rest. eb_rows x @ rest) (browse_through n json_bytes serve d r (Some c)))))"

text \<open>
  What the server does with the queries of one reading: it keeps the rows whose key is past the
  cursor, in the order of the keys, up to the limit.
\<close>

definition serves_in_key_order ::
  "relation_descriptor \<Rightarrow> browse_request \<Rightarrow> (built_query \<Rightarrow> (browse_error + browse_cell list) list) \<Rightarrow>
   (string list \<Rightarrow> string list \<Rightarrow> bool) \<Rightarrow> browse_cell list list \<Rightarrow> bool" where
  "serves_in_key_order d r serve earlier rows \<longleftrightarrow>
     (\<forall>cursor b. build_browse_query d (keyset_request r cursor) = Inr b \<longrightarrow>
        sorted_wrt (\<lambda>x y. earlier (row_key b x) (row_key b y)) rows \<and>
        serve b = map Inr (take (bq_page_size b + 1)
          (filter (\<lambda>row. case cursor of None \<Rightarrow> True | Some c \<Rightarrow> earlier c (row_key b row)) rows)))"

definition key_columns_known :: "relation_descriptor \<Rightarrow> bool" where
  "key_columns_known d \<longleftrightarrow>
     (\<forall>c\<in>set (rd_primary_key d) \<union> (\<Union>i\<in>set (rd_unique_indexes d). set (ui_columns i)). relation_column_of d c \<noteq> None)"

lemma identity_columns_cast:
  assumes "key_columns_known d" "c \<in> set (bi_columns (browse_identity_of d))"
  shows "virtual_column_cast c \<noteq> None \<or> relation_column_of d c \<noteq> None"
proof -
  let ?indexes = "sort_key (\<lambda>i. (length (ui_columns i), ui_name i)) (rd_unique_indexes d)"
  have "set ?indexes = set (rd_unique_indexes d)" by simp
  then have "i # is = ?indexes \<Longrightarrow> i \<in> set (rd_unique_indexes d)" for i "is"
    by (metis list.set_intros(1))
  with assms show ?thesis
    by (auto simp: browse_identity_of_def resolve_identity_def Let_def key_columns_known_def virtual_column_cast_def
        split: if_splits list.splits)
qed

lemma keyset_parts_total:
  "\<forall>c\<in>set columns. virtual_column_cast c \<noteq> None \<or> relation_column_of d c \<noteq> None \<Longrightarrow>
     \<exists>parts. keyset_parts d (zip columns vs) params = Inr parts"
proof (induction columns arbitrary: vs params)
  case (Cons c columns)
  show ?case
  proof (cases vs)
    case (Cons v rest)
    from Cons.prems obtain ty where ty: "(case virtual_column_cast c of Some ty \<Rightarrow> Some ty
        | None \<Rightarrow> map_option rc_cast_type (relation_column_of d c)) = Some ty"
      by (cases "virtual_column_cast c") auto
    from Cons.IH [of rest "params @ [ParamText v]"] Cons.prems obtain ls rs ps where
      "keyset_parts d (zip columns rest) (params @ [ParamText v]) = Inr (ls, rs, ps)" by auto
    then show ?thesis by (simp add: Cons ty Let_def)
  qed simp
qed simp

lemma built_query_fields:
  assumes "build_browse_query d r = Inr b"
  shows "bq_visible b = rd_columns d" "bq_identity b = browse_identity_of d"
    "bq_projects_ctid b \<longleftrightarrow> bi_kind (browse_identity_of d) = BrowseVirtual"
    "bq_page_mode b = effective_page_mode r (browse_identity_of d) (rd_server_version d)"
    "bq_page_size b = clamp_page_size (br_page_size r)"
  using assms by (auto simp: build_browse_query_def Let_def split: sum.splits)

lemma row_key_fields:
  "bq_visible b = bq_visible b' \<Longrightarrow> bq_identity b = bq_identity b' \<Longrightarrow> bq_projects_ctid b = bq_projects_ctid b' \<Longrightarrow>
     row_key b row = row_key b' row \<and> visible_cells b row = visible_cells b' row"
  by (simp add: row_key_def extra_cells_def identity_cells_def visible_cells_def)

lemma length_row_key [simp]: "length (row_key b row) = length (bi_columns (bq_identity b))"
  by (simp add: row_key_def extra_cells_def identity_cells_def)

lemma effective_page_mode_cursor:
  "effective_page_mode (keyset_request r cursor) i v = effective_page_mode (keyset_request r None) i v"
  by (simp add: effective_page_mode_def keyset_request_def)

lemma clamp_page_size_pos [simp]: "0 < clamp_page_size n"
  by (simp add: clamp_page_size_def MAX_TABLE_PAGE_SIZE_def)

lemma keyset_mode_exists: "effective_page_mode r i v = KeysetMode \<Longrightarrow> identity_exists i"
  by (auto simp: effective_page_mode_def split: page_request.splits if_splits)

text \<open>With a first page, every cursor of the right length has its page.\<close>

lemma build_next_page:
  assumes "key_columns_known d" "build_browse_query d (keyset_request r None) = Inr b"
    "length c = length (bi_columns (bq_identity b))"
  shows "\<exists>b'. build_browse_query d (keyset_request r (Some c)) = Inr b'"
proof -
  have len: "length c = length (bi_columns (browse_identity_of d))"
    using assms(3) built_query_fields(2) [OF assms(2)] by simp
  have "\<exists>parts. keyset_parts d (zip (bi_columns (browse_identity_of d)) c) params = Inr parts" for params
    by (rule keyset_parts_total) (use identity_columns_cast [OF assms(1)] in blast)
  note parts = this
  have key: "\<exists>k ps. keyset_predicate d (browse_identity_of d) mode (PageKeyset (Some c)) params = Inr (k, ps)" for mode params
    using parts [of params] len by (auto simp: keyset_predicate_def render_keyset_def split: page_mode.split)
  from assms(2) obtain fs wps where filters: "render_filters d (br_filters r) [] = Inr (fs, wps)"
    by (auto simp: build_browse_query_def keyset_request_def Let_def split: sum.splits)
  from assms(2) obtain terms where terms: "render_order d (br_sort r) (browse_identity_of d) (browse_qualified d) = Inr terms"
    by (auto simp: build_browse_query_def keyset_request_def Let_def split: sum.splits)
  let ?r = "keyset_request r (Some c)"
  from key [of "effective_page_mode ?r (browse_identity_of d) (rd_server_version d)" wps] obtain k ps where
    "keyset_predicate d (browse_identity_of d) (effective_page_mode ?r (browse_identity_of d) (rd_server_version d)) (br_page ?r) wps = Inr (k, ps)"
    by (auto simp: keyset_request_def)
  moreover have "br_filters ?r = br_filters r" "br_sort ?r = br_sort r" by (simp_all add: keyset_request_def)
  ultimately show ?thesis by (simp add: build_browse_query_def Let_def filters terms)
qed

lemma later_rows:
  assumes "sorted_wrt (\<lambda>x y. earlier (key x) (key y)) (pre @ x # suf)" "transp earlier" "irreflp earlier"
  shows "filter (\<lambda>row. earlier (key x) (key row)) (pre @ x # suf) = suf"
proof -
  have "\<not> earlier (key x) (key y)" if "y \<in> set pre" for y
    using that assms by (auto simp: sorted_wrt_append dest: transpD irreflpD)
  moreover have "\<not> earlier (key x) (key x)" using assms(3) by (rule irreflpD)
  moreover have "earlier (key x) (key y)" if "y \<in> set suf" for y
    using that assms(1) by (simp add: sorted_wrt_append)
  ultimately show ?thesis by (simp cong: filter_cong)
qed

text \<open>What is left when a page ends after the rows \<open>pre\<close>.\<close>

definition cursor_after :: "built_query \<Rightarrow> browse_cell list list \<Rightarrow> browse_cursor option" where
  "cursor_after b pre = (if pre = [] then None else Some (row_key b (last pre)))"

lemma rows_past_cursor:
  assumes "sorted_wrt (\<lambda>x y. earlier (row_key b x) (row_key b y)) (pre @ suf)" "transp earlier" "irreflp earlier"
  shows "filter (\<lambda>row. case cursor_after b pre of None \<Rightarrow> True | Some c \<Rightarrow> earlier c (row_key b row)) (pre @ suf) = suf"
proof (cases pre rule: rev_cases)
  case (snoc xs x)
  with later_rows [of earlier "row_key b" xs x suf] assms show ?thesis by (simp add: cursor_after_def)
qed (simp add: cursor_after_def)

lemma browse_through_rest:
  assumes "transp earlier" "irreflp earlier" "key_columns_known d"
    "serves_in_key_order d r serve earlier rows" "build_browse_query d (keyset_request r None) = Inr b"
    "bq_page_mode b = KeysetMode" "\<forall>row\<in>set rows. plain_row json_bytes b row"
  shows "rows = pre @ suf \<Longrightarrow> length suf < n \<Longrightarrow>
    browse_through n json_bytes serve d r (cursor_after b pre) = Some (map (visible_cells b) suf)"
proof (induction n arbitrary: pre suf)
  case (Suc n)
  let ?cursor = "cursor_after b pre"
  note fields = built_query_fields [OF assms(5)]
  have "\<exists>b'. build_browse_query d (keyset_request r ?cursor) = Inr b'"
    using build_next_page [OF assms(3,5)] assms(5) by (simp add: cursor_after_def)
  then obtain b' where b': "build_browse_query d (keyset_request r ?cursor) = Inr b'" ..
  note fields' = built_query_fields [OF b']
  have same: "row_key b' = row_key b" "visible_cells b' = visible_cells b"
    using row_key_fields [of b' b] fields fields' by (auto intro!: ext)
  have mode: "bq_page_mode b' = KeysetMode" "identity_exists (bq_identity b')"
    using assms(6) fields(4) fields'(2,4) effective_page_mode_cursor [of r ?cursor] keyset_mode_exists by metis+
  have pos: "0 < bq_page_size b'" using fields'(5) by simp
  from assms(4) b' have law: "sorted_wrt (\<lambda>x y. earlier (row_key b' x) (row_key b' y)) rows \<and>
      serve b' = map Inr (take (bq_page_size b' + 1)
        (filter (\<lambda>row. case ?cursor of None \<Rightarrow> True | Some c \<Rightarrow> earlier c (row_key b' row)) rows))"
    unfolding serves_in_key_order_def by blast
  have served: "serve b' = map Inr (take (bq_page_size b' + 1) suf)"
    using law [unfolded same Suc.prems(1)] rows_past_cursor [of earlier b pre suf] assms(1,2)
    by (simp del: filter_append)
  have plain: "\<forall>row\<in>set (take (bq_page_size b' + 1) suf). plain_row json_bytes b' row"
    using assms(7) Suc.prems(1) by (auto simp: plain_row_def same dest: in_set_takeD)
  obtain k x where
    k: "k \<le> length (take (bq_page_size b' + 1) suf)" "k \<le> bq_page_size b'"
      "k = 0 \<Longrightarrow> take (bq_page_size b' + 1) suf = []" and
    raw: "decode_browse_stream json_bytes b' (map Inr (take (bq_page_size b' + 1) suf)) = Inr x"
      "eb_rows x = map (visible_cells b') (take k (take (bq_page_size b' + 1) suf))"
      "eb_identity x = Some (map (row_key b') (take k (take (bq_page_size b' + 1) suf)))"
      "eb_has_more x \<longleftrightarrow> k < length (take (bq_page_size b' + 1) suf)"
    by (rule decode_browse_stream_plain [OF mode(2) plain pos]) blast
  have "take k (take (bq_page_size b' + 1) suf) = take k suf" using k(2) by simp
  with raw have x: "decode_browse_stream json_bytes b' (serve b') = Inr x"
      "eb_rows x = map (visible_cells b) (take k suf)" "eb_identity x = Some (map (row_key b) (take k suf))"
      "eb_has_more x \<longleftrightarrow> k < length (take (bq_page_size b' + 1) suf)"
    by (simp_all only: served same)
  show ?case
  proof (cases "eb_has_more x")
    case True
    with x(4) k(3) have nonempty: "take k suf \<noteq> []" by (cases "k = 0") auto
    then have cursor: "bp_next (browse_page_of b' x) = cursor_after b (pre @ take k suf)"
      using True mode(1) x(3) by (cases "take k suf") (auto simp: browse_page_of_def next_cursor_def cursor_after_def last_map)
    have some: "cursor_after b (pre @ take k suf) = Some (row_key b (last (take k suf)))"
      using nonempty by (simp add: cursor_after_def)
    have "length (drop k suf) < n" using Suc.prems(2) nonempty by (cases k; cases suf) auto
    from Suc.IH [of "pre @ take k suf" "drop k suf", OF _ this] Suc.prems(1) have
      rest: "browse_through n json_bytes serve d r (cursor_after b (pre @ take k suf)) = Some (map (visible_cells b) (drop k suf))"
      by simp
    show ?thesis
      using rest by (simp add: b' x cursor some flip: map_append)
  next
    case False
    with x(4) k(1,2) have "take k suf = suf" by auto
    with False show ?thesis by (simp add: b' x browse_page_of_def next_cursor_def)
  qed
qed simp


definition sample_browse_table :: relation_descriptor where
  "sample_browse_table = \<lparr>rd_schema = ''public'', rd_table = ''t'', rd_relkind = CHR ''r'', rd_server_version = 160000,
     rd_columns = [\<lparr>rc_name = ''id'', rc_cast_type = ''text'', rc_nullable = False\<rparr>],
     rd_primary_key = [''id''], rd_unique_indexes = []\<rparr>"

definition sample_browse :: browse_request where
  "sample_browse = \<lparr>br_filters = [], br_sort = [], br_page = PageKeyset None, br_page_size = 2\<rparr>"

definition sample_stored :: "browse_cell list list" where
  "sample_stored = [[Some ''a''], [Some ''b''], [Some ''c'']]"

definition sample_serve :: "built_query \<Rightarrow> (browse_error + browse_cell list) list" where
  "sample_serve b = map Inr (take (bq_page_size b + 1) (filter (\<lambda>row. case bq_params b of
       ParamText v # _ \<Rightarrow> [v] < row_key b row | _ \<Rightarrow> True) sample_stored))"

definition sample_browse_query :: "browse_cursor option \<Rightarrow> browse_error + built_query" where
  "sample_browse_query cursor = build_browse_query sample_browse_table (keyset_request sample_browse cursor)"

lemma sample_identity: "browse_identity_of sample_browse_table = \<lparr>bi_kind = BrowsePrimaryKey, bi_columns = [''id'']\<rparr>"
  by code_simp

lemma sample_browse_query_fields:
  assumes "sample_browse_query cursor = Inr b"
  shows "row_key b [c] = [or_empty c] \<and> bq_page_size b = 2
    \<and> bq_params b = (case cursor of None \<Rightarrow> [] | Some c \<Rightarrow> map ParamText c) \<and> (cursor \<noteq> None \<longrightarrow> length (the cursor) = 1)"
proof -
  note fields = built_query_fields [OF assms [unfolded sample_browse_query_def]]
  have "row_key b [c] = [or_empty c]"
    by (simp add: row_key_def identity_cells_def visible_cells_def fields sample_identity)
      (simp add: sample_browse_table_def browse_cell_text_def)
  moreover have "bq_page_size b = 2"
    by (simp add: fields) (simp add: keyset_request_def sample_browse_def clamp_page_size_def MAX_TABLE_PAGE_SIZE_def)
  moreover have "bq_params b = (case cursor of None \<Rightarrow> [] | Some c \<Rightarrow> map ParamText c)
      \<and> (cursor \<noteq> None \<longrightarrow> length (the cursor) = 1)"
    using assms
    by (cases cursor; cases "the cursor")
      (auto simp: sample_browse_query_def build_browse_query_def sample_identity keyset_request_def sample_browse_def
        keyset_predicate_def effective_page_mode_def identity_exists_def render_keyset_def Let_def
        split: sum.splits option.splits if_splits)
  ultimately show ?thesis by blast
qed

lemma sample_serves: "serves_in_key_order sample_browse_table sample_browse sample_serve (<) sample_stored"
  unfolding serves_in_key_order_def sample_browse_query_def [symmetric]
proof (intro allI impI)
  fix cursor b assume built: "sample_browse_query cursor = Inr b"
  note q = sample_browse_query_fields [OF built]
  have sorted: "sorted_wrt (\<lambda>x y. row_key b x < row_key b y) sample_stored"
    using q by (simp add: sample_stored_def or_empty_def less_char_def)
  have "(case bq_params b of ParamText v # _ \<Rightarrow> [v] < row_key b row | _ \<Rightarrow> True)
      = (case cursor of None \<Rightarrow> True | Some c \<Rightarrow> c < row_key b row)" for row
    using q [of None]
  proof (cases cursor)
    case (Some c)
    with q [of None] obtain v where "c = [v]" "bq_params b = [ParamText v]" by (auto simp: length_Suc_conv)
    with Some show ?thesis by simp
  qed simp
  with sorted show "sorted_wrt (\<lambda>x y. row_key b x < row_key b y) sample_stored \<and>
      sample_serve b = map Inr (take (bq_page_size b + 1)
        (filter (\<lambda>row. case cursor of None \<Rightarrow> True | Some c \<Rightarrow> c < row_key b row) sample_stored))"
    by (simp add: sample_serve_def)
qed


section \<open>Rows over the caps\<close>

lemma last_text_snoc [simp]: "last_text (cs @ [Some s]) = Some (cs, s, [])"
  by (induction cs) auto

lemma shrink_row_empties_last:
  "\<forall>u. MAX_ROW_BYTES < json_bytes (cells @ [Some u]) \<Longrightarrow>
     fst (shrink_row json_bytes (cells @ [Some s]) k) = cells @ [Some []]"
proof (induction "length s" arbitrary: s k rule: less_induct)
  case less
  show ?case
  proof (cases "s = []")
    case True
    with less.prems show ?thesis by (subst shrink_row.simps) (simp add: not_le)
  next
    case False
    let ?t = "take (floor_boundary s (length s div 2)) s"
    have shorter: "length ?t < length s" using half_boundary_less [OF False] .
    have "\<not> json_bytes (cells @ [Some s]) \<le> MAX_ROW_BYTES"
      using less.prems by (simp add: not_le)
    then have "shrink_row json_bytes (cells @ [Some s]) k = shrink_row json_bytes (cells @ [Some ?t]) True"
      using False by (subst shrink_row.simps) simp
    with less.hyps [OF shorter less.prems] show ?thesis by (simp only:)
  qed
qed


lemma row_cap_cells: "MAX_ROW_BYTES = 2 * MAX_CELL_BYTES" "2 \<le> MAX_CELL_BYTES"
  by (simp_all add: MAX_ROW_BYTES_def MAX_CELL_BYTES_def)

definition sample_wide :: built_query where
  "sample_wide = \<lparr>bq_sql = [], bq_params = [], bq_where_sql = [], bq_where_params = [], bq_qualified = [],
     bq_visible = [\<lparr>rc_name = ''body'', rc_cast_type = ''text'', rc_nullable = True\<rparr>,
       \<lparr>rc_name = ''note'', rc_cast_type = ''text'', rc_nullable = True\<rparr>,
       \<lparr>rc_name = ''id'', rc_cast_type = ''text'', rc_nullable = False\<rparr>],
     bq_identity = \<lparr>bi_kind = BrowsePrimaryKey, bi_columns = [''id'']\<rparr>, bq_projects_ctid = False,
     bq_page_mode = KeysetMode, bq_page = None, bq_page_size = 100\<rparr>"


end
