(* ===== verification/BrowseExecutor.thy ===== *)
theory BrowseExecutor imports BrowseRows begin

text \<open>
  The executor of the table browser, \<open>backend/src/table_browse/executor.rs\<close> and \<open>interrupt.rs\<close>: one
  connection, one request at a time, and at most one waiting request per tab.  Each function takes
  the state under the executor's lock and returns it with the replies it sends; a reply channel is a
  number.  Times are milliseconds.
\<close>

datatype interrupt = NoInterrupt | Supersede | CancelRequested | Closing

definition finalize_interrupt :: "interrupt \<Rightarrow> browse_error + 'r \<Rightarrow> browse_error + 'r" where
  "finalize_interrupt i result =
     (case i of NoInterrupt \<Rightarrow> result | Supersede \<Rightarrow> Inl BrowseSuperseded | CancelRequested \<Rightarrow> Inl BrowseCancelled
      | Closing \<Rightarrow> Inl BrowseConnectionClosing)"

datatype browse_work = BrowseWork browse_request | CountWork "browse_filter list"

record browse_job =
  bj_tab :: string
  bj_request :: nat
  bj_enqueued_at :: nat
  bj_kind :: browse_work
  bj_reply :: nat

record tab_slot =
  ts_latest :: nat
  ts_queued :: "browse_job option"
  ts_in_flight :: "nat option"
  ts_interrupt :: interrupt

definition empty_slot :: tab_slot where
  "empty_slot = \<lparr>ts_latest = 0, ts_queued = None, ts_in_flight = None, ts_interrupt = NoInterrupt\<rparr>"

record executor_inner =
  xi_closing_tabs :: "string set"
  xi_connected :: bool
  xi_tabs :: "string \<rightharpoonup> tab_slot"
  xi_last_used :: nat
  xi_closed :: bool
  xi_busy :: bool
  xi_pending_cancel :: bool

definition new_executor :: "nat \<Rightarrow> executor_inner" where
  "new_executor now = \<lparr>xi_closing_tabs = {}, xi_connected = False, xi_tabs = Map.empty, xi_last_used = now,
     xi_closed = False, xi_busy = False, xi_pending_cancel = False\<rparr>"

type_synonym 'r replies = "(nat \<times> (browse_error + 'r)) list"

definition refuse :: "browse_error \<Rightarrow> browse_job option \<Rightarrow> 'r replies" where
  "refuse e job = (case job of None \<Rightarrow> [] | Some j \<Rightarrow> [(bj_reply j, Inl e)])"

definition queue_protocol_cancel :: "executor_inner \<Rightarrow> executor_inner" where
  "queue_protocol_cancel x =
     (if xi_pending_cancel x then x else if xi_connected x then x\<lparr>xi_pending_cancel := True\<rparr> else x)"

definition enqueue_job :: "browse_job \<Rightarrow> executor_inner \<Rightarrow> executor_inner \<times> 'r replies" where
  "enqueue_job job x =
     (let tab = (case xi_tabs x (bj_tab job) of None \<Rightarrow> empty_slot | Some tab \<Rightarrow> tab) in
      if bj_request job < ts_latest tab
      then (x\<lparr>xi_tabs := (xi_tabs x)(bj_tab job \<mapsto> tab)\<rparr>, [(bj_reply job, Inl BrowseSuperseded)])
      else
        let replies = refuse BrowseSuperseded (ts_queued tab);
            in_flight = (ts_in_flight tab \<noteq> None);
            tab = tab\<lparr>ts_latest := bj_request job,
              ts_interrupt := (if in_flight then Supersede else ts_interrupt tab), ts_queued := Some job\<rparr>;
            x = x\<lparr>xi_tabs := (xi_tabs x)(bj_tab job \<mapsto> tab)\<rparr>
        in (if in_flight then queue_protocol_cancel x else x, replies))"

definition apply_tab_cancel :: "string \<Rightarrow> executor_inner \<Rightarrow> executor_inner \<times> bool \<times> 'r replies" where
  "apply_tab_cancel tab_id x =
     (case xi_tabs x tab_id of None \<Rightarrow> (x, False, [])
      | Some tab \<Rightarrow>
          let in_flight = (ts_in_flight tab \<noteq> None);
              cancelled = tab\<lparr>ts_queued := None, ts_interrupt := (if in_flight then CancelRequested else ts_interrupt tab)\<rparr>;
              x = x\<lparr>xi_tabs := (xi_tabs x)(tab_id \<mapsto> cancelled)\<rparr>
          in (if in_flight then queue_protocol_cancel x else x, ts_queued tab \<noteq> None \<or> in_flight,
              refuse BrowseCancelled (ts_queued tab)))"

definition take_queued :: "string \<Rightarrow> nat \<Rightarrow> executor_inner \<Rightarrow> executor_inner \<times> browse_job option" where
  "take_queued tab_id request_id x =
     (case xi_tabs x tab_id of None \<Rightarrow> (x, None)
      | Some tab \<Rightarrow>
          (case ts_queued tab of None \<Rightarrow> (x, None)
           | Some job \<Rightarrow>
               if bj_request job = request_id
               then (x\<lparr>xi_tabs := (xi_tabs x)(tab_id \<mapsto> tab\<lparr>ts_queued := None\<rparr>)\<rparr>, Some job)
               else (x, None)))"

text \<open>The deadline of \<open>submit\<close>'s wait: the request that still waits is taken and answered.\<close>

definition queue_wait_over :: "string \<Rightarrow> nat \<Rightarrow> executor_inner \<Rightarrow> executor_inner \<times> 'r replies" where
  "queue_wait_over tab_id request_id x =
     (let (x, job) = take_queued tab_id request_id x in (x, refuse (BrowseTimeout ''queueWait'') job))"

definition QUEUE_WAIT :: nat where "QUEUE_WAIT = 10000"

definition queued_job :: "executor_inner \<Rightarrow> string \<Rightarrow> browse_job option" where
  "queued_job x tab_id = (case xi_tabs x tab_id of None \<Rightarrow> None | Some tab \<Rightarrow> ts_queued tab)"

text \<open>The scan of \<open>next_job\<close> over the tabs, in the order the map yields them.\<close>

fun scan_tabs ::
  "nat \<Rightarrow> executor_inner \<Rightarrow> string list \<Rightarrow> string list \<times> (nat \<times> string) option \<Rightarrow>
   string list \<times> (nat \<times> string) option" where
  "scan_tabs now x [] found = found"
| "scan_tabs now x (tab_id # order) (expired, ready) =
     (case queued_job x tab_id of None \<Rightarrow> scan_tabs now x order (expired, ready)
      | Some job \<Rightarrow>
          if QUEUE_WAIT \<le> now - bj_enqueued_at job then scan_tabs now x order (expired @ [tab_id], ready)
          else scan_tabs now x order (expired,
            case ready of None \<Rightarrow> Some (bj_enqueued_at job, tab_id)
            | Some (ready_at, ready_id) \<Rightarrow> if bj_enqueued_at job < ready_at then Some (bj_enqueued_at job, tab_id) else ready))"

definition clear_queued :: "string \<Rightarrow> executor_inner \<Rightarrow> executor_inner" where
  "clear_queued tab_id x = (case xi_tabs x tab_id of None \<Rightarrow> x
     | Some tab \<Rightarrow> x\<lparr>xi_tabs := (xi_tabs x)(tab_id \<mapsto> tab\<lparr>ts_queued := None\<rparr>)\<rparr>)"

fun take_expired :: "string list \<Rightarrow> executor_inner \<Rightarrow> executor_inner \<times> 'r replies" where
  "take_expired [] x = (x, [])"
| "take_expired (tab_id # ids) x =
     (let replies = refuse (BrowseTimeout ''queueWait'') (queued_job x tab_id);
          (x, more) = take_expired ids (clear_queued tab_id x)
      in (x, replies @ more))"

definition start_queued :: "string \<Rightarrow> nat \<Rightarrow> executor_inner \<Rightarrow> executor_inner \<times> browse_job option" where
  "start_queued tab_id now x =
     (case xi_tabs x tab_id of None \<Rightarrow> (x, None)
      | Some tab \<Rightarrow>
          (case ts_queued tab of None \<Rightarrow> (x, None)
           | Some job \<Rightarrow>
               (x\<lparr>xi_tabs := (xi_tabs x)(tab_id \<mapsto> tab\<lparr>ts_queued := None, ts_in_flight := Some (bj_request job),
                    ts_interrupt := NoInterrupt\<rparr>), xi_busy := True, xi_last_used := now\<rparr>, Some job)))"

definition next_job ::
  "nat \<Rightarrow> string list \<Rightarrow> executor_inner \<Rightarrow> executor_inner \<times> 'r replies \<times> browse_job option" where
  "next_job now order x =
     (if xi_closed x then (x, [], None)
      else
        let (expired, ready) = scan_tabs now x order ([], None);
            (x, replies) = take_expired expired x
        in case ready of None \<Rightarrow> (x, replies, None)
           | Some (ready_at, ready_id) \<Rightarrow> let (x, job) = start_queued ready_id now x in (x, replies, job))"

definition complete_job ::
  "string \<Rightarrow> nat \<Rightarrow> nat \<Rightarrow> browse_error + 'r \<Rightarrow> executor_inner \<Rightarrow> executor_inner \<times> (browse_error + 'r)" where
  "complete_job tab_id request_id now result x =
     (let i = (case xi_tabs x tab_id of None \<Rightarrow> CancelRequested | Some tab \<Rightarrow> ts_interrupt tab);
          terminal = finalize_interrupt i result;
          lost = (case terminal of Inl e \<Rightarrow> e = BrowseConnectionLost | Inr _ \<Rightarrow> False);
          tabs = (case xi_tabs x tab_id of None \<Rightarrow> xi_tabs x
            | Some tab \<Rightarrow>
                if ts_in_flight tab = Some request_id
                then (xi_tabs x)(tab_id \<mapsto> tab\<lparr>ts_in_flight := None, ts_interrupt := NoInterrupt\<rparr>)
                else xi_tabs x)
      in (x\<lparr>xi_connected := xi_connected x \<and> \<not> lost, xi_tabs := tabs, xi_busy := False, xi_last_used := now\<rparr>, terminal))"

definition close_tab_slot :: "bool \<Rightarrow> tab_slot \<Rightarrow> tab_slot" where
  "close_tab_slot fence tab =
     tab\<lparr>ts_interrupt := (if fence then Closing else ts_interrupt tab), ts_queued := None\<rparr>"

text \<open>\<open>order\<close> is the order the map yields its slots; the replies follow it.\<close>

definition close_executor :: "bool \<Rightarrow> string list \<Rightarrow> executor_inner \<Rightarrow> executor_inner \<times> 'r replies" where
  "close_executor fence order x =
     (x\<lparr>xi_closed := True, xi_busy := False, xi_tabs := map_option (close_tab_slot fence) \<circ> xi_tabs x,
        xi_pending_cancel := False, xi_connected := False\<rparr>,
      concat (map (\<lambda>tab_id. refuse (if fence then BrowseConnectionClosing else BrowseConnectionLost) (queued_job x tab_id)) order))"

section \<open>The calls of the manager\<close>

text \<open>
  \<open>submit\<close> up to the wait, \<open>close_tab\<close>'s second half (a request still waiting loses its channel,
  which its caller reads as a lost connection), and the two halves of \<open>close_native_tab\<close>.
\<close>

definition submit_job :: "browse_job \<Rightarrow> executor_inner \<Rightarrow> browse_error + (executor_inner \<times> 'r replies)" where
  "submit_job job x =
     (if xi_closed x \<or> bj_tab job \<in> xi_closing_tabs x then Inl BrowseConnectionClosing else Inr (enqueue_job job x))"

definition forget_tab :: "string \<Rightarrow> executor_inner \<Rightarrow> executor_inner \<times> 'r replies" where
  "forget_tab tab_id x =
     (x\<lparr>xi_tabs := (xi_tabs x)(tab_id := None)\<rparr>, refuse BrowseConnectionLost (queued_job x tab_id))"

definition native_close_begin :: "string \<Rightarrow> executor_inner \<Rightarrow> executor_inner \<times> 'r replies" where
  "native_close_begin tab_id x =
     (let (x, _, replies) = apply_tab_cancel tab_id (x\<lparr>xi_closing_tabs := insert tab_id (xi_closing_tabs x)\<rparr>) in (x, replies))"

definition native_close_end :: "string \<Rightarrow> executor_inner \<Rightarrow> executor_inner \<times> 'r replies" where
  "native_close_end tab_id x =
     (let (x, replies) = forget_tab tab_id x in (x\<lparr>xi_closing_tabs := xi_closing_tabs x - {tab_id}\<rparr>, replies))"

end
