(* ===== verification/BrowseJobs.thy ===== *)
theory BrowseJobs imports BrowseExecutor begin

text \<open>
  The executor at work: its calls interleave with its worker in any order.  Every request that was
  taken in is answered once, and a result that came too late is not delivered.
\<close>

section \<open>Runs\<close>

record 'r browse_system =
  bs_inner :: executor_inner
  bs_running :: "browse_job option"
  bs_replied :: "'r replies"
  bs_issued :: "nat list"

definition replied :: "executor_inner \<Rightarrow> 'r replies \<Rightarrow> 'r browse_system \<Rightarrow> 'r browse_system" where
  "replied x replies s = s\<lparr>bs_inner := x, bs_replied := bs_replied s @ replies\<rparr>"

inductive browse_step :: "'r browse_system \<Rightarrow> 'r browse_system \<Rightarrow> bool" where
  step_submit: "submit_job job (bs_inner s) = Inr (x, replies) \<Longrightarrow> bj_reply job \<notin> set (bs_issued s) \<Longrightarrow>
    browse_step s (replied x replies (s\<lparr>bs_issued := bs_issued s @ [bj_reply job]\<rparr>))"
| step_cancel: "apply_tab_cancel tab_id (bs_inner s) = (x, requested, replies) \<Longrightarrow> browse_step s (replied x replies s)"
| step_wait_over: "queue_wait_over tab_id request_id (bs_inner s) = (x, replies) \<Longrightarrow> browse_step s (replied x replies s)"
| step_drain: "browse_step s (s\<lparr>bs_inner := (bs_inner s)\<lparr>xi_pending_cancel := False\<rparr>\<rparr>)"
| step_connect: "bs_running s = Some job \<Longrightarrow> \<not> xi_closed (bs_inner s) \<Longrightarrow>
    browse_step s (s\<lparr>bs_inner := (bs_inner s)\<lparr>xi_connected := True\<rparr>\<rparr>)"
| step_start: "bs_running s = None \<Longrightarrow> distinct order \<Longrightarrow> set order = dom (xi_tabs (bs_inner s)) \<Longrightarrow>
    next_job now order (bs_inner s) = (x, replies, job) \<Longrightarrow> browse_step s (replied x replies (s\<lparr>bs_running := job\<rparr>))"
| step_finish: "bs_running s = Some job \<Longrightarrow>
    complete_job (bj_tab job) (bj_request job) now result (bs_inner s) = (x, terminal) \<Longrightarrow>
    browse_step s (replied x [(bj_reply job, terminal)] (s\<lparr>bs_running := None\<rparr>))"
| step_close: "distinct order \<Longrightarrow> set order = dom (xi_tabs (bs_inner s)) \<Longrightarrow>
    close_executor fence order (bs_inner s) = (x, replies) \<Longrightarrow> browse_step s (replied x replies s)"
| step_forget: "forget_tab tab_id (bs_inner s) = (x, replies) \<Longrightarrow> browse_step s (replied x replies s)"
| step_native_begin: "native_close_begin tab_id (bs_inner s) = (x, replies) \<Longrightarrow> browse_step s (replied x replies s)"
| step_native_end: "native_close_end tab_id (bs_inner s) = (x, replies) \<Longrightarrow>
    \<forall>job. bs_running s = Some job \<longrightarrow> bj_tab job \<noteq> tab_id \<Longrightarrow> browse_step s (replied x replies s)"

definition browse_start :: "nat \<Rightarrow> 'r browse_system" where
  "browse_start now = \<lparr>bs_inner = new_executor now, bs_running = None, bs_replied = [], bs_issued = []\<rparr>"

inductive browse_run :: "'r browse_system \<Rightarrow> bool" where
  run_start: "browse_run (browse_start now)"
| run_step: "browse_run s \<Longrightarrow> browse_step s s' \<Longrightarrow> browse_run s'"

section \<open>The waiting requests\<close>

text \<open>Waiting requests leave their tabs with an answer each.\<close>

inductive released :: "(string \<rightharpoonup> browse_job) \<Rightarrow> 'r replies \<Rightarrow> (string \<rightharpoonup> browse_job) \<Rightarrow> bool" where
  released_none: "released q [] q"
| released_tab: "released (q(t := None)) replies q' \<Longrightarrow> released q (refuse e (q t) @ replies) q'"

lemma released_one: "released q (refuse e (q t)) (q(t := None))"
  using released_tab [where q = q and t = t and e = e, OF released_none] by simp

lemma queued_job_alt: "queued_job x = (\<lambda>t. Option.bind (xi_tabs x t) ts_queued)"
  by (auto simp: queued_job_def fun_eq_iff split: option.splits)

lemma queued_protocol_cancel [simp]: "queued_job (queue_protocol_cancel x) = queued_job x"
  by (simp add: queued_job_alt queue_protocol_cancel_def)

lemma tabs_protocol_cancel [simp]: "xi_tabs (queue_protocol_cancel x) = xi_tabs x"
  by (simp add: queue_protocol_cancel_def)

lemma fun_upd_same: "f t = v \<Longrightarrow> f(t := v) = f"
  by auto

lemma enqueue_released:
  assumes "enqueue_job job x = (x', replies :: 'r replies)"
  obtains "replies = [(bj_reply job, Inl BrowseSuperseded)]" "queued_job x' = queued_job x"
  | "replies = refuse BrowseSuperseded (queued_job x (bj_tab job))" "queued_job x' = (queued_job x)(bj_tab job \<mapsto> job)"
proof -
  let ?tab = "case xi_tabs x (bj_tab job) of None \<Rightarrow> empty_slot | Some tab \<Rightarrow> tab"
  have queued: "ts_queued ?tab = queued_job x (bj_tab job)"
    by (simp add: queued_job_def empty_slot_def split: option.split)
  show thesis
  proof (cases "bj_request job < ts_latest ?tab")
    case True
    with assms queued have "replies = [(bj_reply job, Inl BrowseSuperseded)]" "queued_job x' = queued_job x"
      by (auto simp: enqueue_job_def Let_def queued_job_alt fun_eq_iff)
    then show thesis by (rule that(1))
  next
    case False
    with assms queued have "replies = refuse BrowseSuperseded (queued_job x (bj_tab job))"
        "queued_job x' = (queued_job x)(bj_tab job \<mapsto> job)"
      by (auto simp: enqueue_job_def Let_def) (auto simp: queued_job_alt fun_eq_iff)
    then show thesis by (rule that(2))
  qed
qed

lemma cancel_released:
  "apply_tab_cancel t x = (x', requested, replies) \<Longrightarrow>
     replies = refuse BrowseCancelled (queued_job x t) \<and> queued_job x' = (queued_job x)(t := None)"
  by (cases "xi_tabs x t")
    (auto simp: apply_tab_cancel_def Let_def queued_job_alt refuse_def fun_eq_iff)

lemma take_queued_released:
  "take_queued t i x = (x', job) \<Longrightarrow>
     (job = None \<and> queued_job x' = queued_job x) \<or> (job = queued_job x t \<and> queued_job x' = (queued_job x)(t := None))"
  by (auto simp: take_queued_def queued_job_alt fun_eq_iff split: option.splits if_splits)

lemma clear_queued_released [simp]: "queued_job (clear_queued t x) = (queued_job x)(t := None)"
  by (auto simp: clear_queued_def queued_job_alt fun_eq_iff split: option.splits)

lemma expired_released: "take_expired ids x = (x', replies) \<Longrightarrow> released (queued_job x) replies (queued_job x')"
proof (induction ids arbitrary: x replies)
  case Nil
  then show ?case by (auto intro: released_none)
next
  case (Cons t ids)
  from Cons.prems obtain more where more: "take_expired ids (clear_queued t x) = (x', more)"
      "replies = refuse (BrowseTimeout ''queueWait'') (queued_job x t) @ more"
    by (auto simp: Let_def split: prod.splits)
  from Cons.IH [OF more(1)] show ?case unfolding more(2) clear_queued_released by (rule released_tab)
qed

lemma start_queued_taken:
  "start_queued t now x = (x', job) \<Longrightarrow> job = queued_job x t \<and> queued_job x' = (queued_job x)(t := None)"
  by (auto simp: start_queued_def queued_job_alt fun_eq_iff split: option.splits)

lemma released_all:
  "distinct ts \<Longrightarrow> released q (concat (map (\<lambda>t. refuse e (q t)) ts)) (\<lambda>t. if t \<in> set ts then None else q t)"
proof (induction ts arbitrary: q)
  case (Cons t ts)
  have replies: "map (\<lambda>u. refuse e ((q(t := None)) u)) ts = map (\<lambda>u. refuse e (q u)) ts"
    and rest: "(\<lambda>u. if u \<in> set ts then None else (q(t := None)) u) = (\<lambda>u. if u \<in> set (t # ts) then None else q u)"
    using Cons.prems by auto
  have "distinct ts" using Cons.prems by simp
  note ih = Cons.IH [OF this, of "q(t := None)", unfolded replies rest]
  show ?case unfolding list.map concat.simps by (rule released_tab) (rule ih)
qed (simp add: released_none)

lemma close_released:
  assumes "close_executor fence order x = (x', replies)" "distinct order" "set order = dom (xi_tabs x)"
  shows "released (queued_job x) replies (queued_job x') \<and> queued_job x' = Map.empty"
proof -
  have none: "queued_job x' = Map.empty"
    using assms(1) by (auto simp: close_executor_def queued_job_def close_tab_slot_def fun_eq_iff split: option.splits)
  moreover have "(\<lambda>t. if t \<in> set order then None else queued_job x t) = Map.empty"
    using assms(3) by (auto simp: queued_job_def fun_eq_iff split: option.splits)
  ultimately show ?thesis using released_all [OF assms(2), of "queued_job x"] assms(1) by (auto simp: close_executor_def)
qed

lemma forget_released:
  "forget_tab t x = (x', replies) \<Longrightarrow>
     replies = refuse BrowseConnectionLost (queued_job x t) \<and> queued_job x' = (queued_job x)(t := None)"
  by (auto simp: forget_tab_def queued_job_alt fun_eq_iff)

section \<open>Every request is answered once\<close>

text \<open>A channel given out waits in one tab, runs, or has its one answer.\<close>

definition accounted :: "nat list \<Rightarrow> (string \<rightharpoonup> browse_job) \<Rightarrow> browse_job option \<Rightarrow> 'r replies \<Rightarrow> bool" where
  "accounted issued q running replies \<longleftrightarrow>
     distinct (map fst replies) \<and>
     set issued = bj_reply ` ran q \<union> bj_reply ` set_option running \<union> fst ` set replies \<and>
     bj_reply ` ran q \<inter> fst ` set replies = {} \<and> bj_reply ` set_option running \<inter> fst ` set replies = {} \<and>
     bj_reply ` ran q \<inter> bj_reply ` set_option running = {} \<and>
     (\<forall>t u j k. q t = Some j \<longrightarrow> q u = Some k \<longrightarrow> bj_reply j = bj_reply k \<longrightarrow> t = u)"

lemma ran_release: "q t = Some j \<Longrightarrow> ran q = insert j (ran (q(t := None)))"
  by (auto simp: ran_def) (metis option.inject)

lemma accounted_drop:
  assumes "accounted issued q running replies" "q t = Some j"
  shows "bj_reply j \<notin> bj_reply ` ran (q(t := None))" "bj_reply j \<notin> fst ` set replies"
    "bj_reply j \<notin> bj_reply ` set_option running"
proof -
  from assms(1) have one: "\<forall>t u j k. q t = Some j \<longrightarrow> q u = Some k \<longrightarrow> bj_reply j = bj_reply k \<longrightarrow> t = u"
    unfolding accounted_def by (elim conjE)
  from assms(1) have apart: "bj_reply ` ran q \<inter> fst ` set replies = {}" "bj_reply ` ran q \<inter> bj_reply ` set_option running = {}"
    unfolding accounted_def by simp_all
  show "bj_reply j \<notin> bj_reply ` ran (q(t := None))"
  proof
    assume "bj_reply j \<in> bj_reply ` ran (q(t := None))"
    then obtain k u where "q u = Some k" "u \<noteq> t" "bj_reply j = bj_reply k" by (auto simp: ran_def split: if_splits)
    with assms(2) one show False by metis
  qed
  from assms(2) have "j \<in> ran q" by (rule ranI)
  with apart show "bj_reply j \<notin> fst ` set replies" "bj_reply j \<notin> bj_reply ` set_option running"
    by blast+
qed

lemma accounted_less: "(\<forall>t u j k. q t = Some j \<longrightarrow> q u = Some k \<longrightarrow> bj_reply j = bj_reply k \<longrightarrow> t = u) \<Longrightarrow>
  (\<forall>t u j k. (q(v := None)) t = Some j \<longrightarrow> (q(v := None)) u = Some k \<longrightarrow> bj_reply j = bj_reply k \<longrightarrow> t = u)"
  by auto

lemma accounted_release:
  assumes "accounted issued q running replies"
  shows "accounted issued (q(t := None)) running (replies @ refuse e (q t))"
proof (cases "q t")
  case None
  then have "q(t := None) = q" by (rule fun_upd_same)
  then show ?thesis using assms None by (simp add: refuse_def)
next
  case (Some j)
  note drop = accounted_drop [OF assms Some]
  have "bj_reply ` ran q = insert (bj_reply j) (bj_reply ` ran (q(t := None)))"
    by (simp add: ran_release [where q = q and t = t, OF Some])
  with assms drop accounted_less show ?thesis
    unfolding accounted_def by (simp add: Some refuse_def)
qed

lemma accounted_released:
  "released q replies q' \<Longrightarrow> accounted issued q running before \<Longrightarrow> accounted issued q' running (before @ replies)"
proof (induction arbitrary: before rule: released.induct)
  case (released_tab q t replies q' e)
  from released_tab.IH [OF accounted_release [OF released_tab.prems]] show ?case by simp
qed simp

lemma accounted_taken:
  assumes "accounted issued q None replies" "q t = Some j"
  shows "accounted issued (q(t := None)) (Some j) replies"
proof -
  note drop = accounted_drop [OF assms]
  have "bj_reply ` ran q = insert (bj_reply j) (bj_reply ` ran (q(t := None)))"
    by (simp add: ran_release [where q = q and t = t, OF assms(2)])
  with assms(1) drop accounted_less show ?thesis unfolding accounted_def by simp
qed

lemma accounted_finished:
  "accounted issued q (Some j) replies \<Longrightarrow> accounted issued q None (replies @ [(bj_reply j, r)])"
  unfolding accounted_def by (auto simp: image_iff)

lemma accounted_refused:
  "accounted issued q running replies \<Longrightarrow> c \<notin> set issued \<Longrightarrow> accounted (issued @ [c]) q running (replies @ [(c, r)])"
  unfolding accounted_def by (auto simp: image_iff)

lemma accounted_queued:
  assumes "accounted issued q running replies" "bj_reply j \<notin> set issued" "q t = None"
  shows "accounted (issued @ [bj_reply j]) (q(t \<mapsto> j)) running replies"
proof -
  have "bj_reply ` ran (q(t \<mapsto> j)) = insert (bj_reply j) (bj_reply ` ran q)" using assms(3) by simp
  moreover have "\<forall>u k. q u = Some k \<longrightarrow> bj_reply k \<noteq> bj_reply j"
    using assms(1,2) unfolding accounted_def by (metis UnCI image_eqI ranI)
  ultimately show ?thesis using assms unfolding accounted_def by simp (elim conjE; force)
qed

lemma accounted_enqueue:
  assumes "enqueue_job job x = (x', replies)" "accounted issued (queued_job x) running before" "bj_reply job \<notin> set issued"
  shows "accounted (issued @ [bj_reply job]) (queued_job x') running (before @ replies)"
  using assms(1)
proof (cases rule: enqueue_released)
  case 1
  with assms(2,3) show ?thesis by (simp add: accounted_refused)
next
  case 2
  have "accounted issued ((queued_job x)(bj_tab job := None)) running (before @ replies)"
    unfolding 2 by (rule accounted_release) (rule assms(2))
  from accounted_queued [OF this assms(3), of "bj_tab job"] show ?thesis by (simp add: 2)
qed

lemma next_job_released:
  assumes "next_job now order x = (x', replies, job)"
  shows "(\<exists>q t. released (queued_job x) replies q \<and> job = q t \<and> queued_job x' = q(t := None))
     \<or> released (queued_job x) replies (queued_job x') \<and> job = None"
proof (cases "xi_closed x")
  case True
  with assms show ?thesis by (auto simp: next_job_def released_none)
next
  case False
  obtain expired ready where scan: "scan_tabs now x order ([], None) = (expired, ready)"
    by (cases "scan_tabs now x order ([], None)")
  obtain x1 r1 where expire: "take_expired expired x = (x1, r1 :: 'a replies)" by (cases "take_expired expired x :: _ \<times> 'a replies")
  note released = expired_released [OF expire]
  show ?thesis
  proof (cases ready)
    case None
    with assms False scan expire released show ?thesis by (auto simp: next_job_def)
  next
    case (Some r)
    then obtain at t where ready: "ready = Some (at, t)" by (cases r) auto
    obtain x2 j where start: "start_queued t now x1 = (x2, j)" by (cases "start_queued t now x1")
    with assms False scan expire ready have "x' = x2" "replies = r1" "job = j"
      by (auto simp: next_job_def)
    with start_queued_taken [OF start] released show ?thesis by blast
  qed
qed

lemma complete_queued:
  "complete_job tab i now result x = (x', terminal) \<Longrightarrow> queued_job x' = queued_job x \<and> xi_closed x' = xi_closed x"
  by (auto simp: complete_job_def Let_def queued_job_alt fun_eq_iff split: option.splits)

lemma wait_over_released:
  "queue_wait_over t i x = (x', replies) \<Longrightarrow> released (queued_job x) replies (queued_job x') \<and> xi_closed x' = xi_closed x"
proof -
  assume step: "queue_wait_over t i x = (x', replies)"
  obtain x1 job where take: "take_queued t i x = (x1, job)" by (cases "take_queued t i x")
  have closed: "xi_closed x1 = xi_closed x"
    using take by (auto simp: take_queued_def split: option.splits if_splits)
  from take_queued_released [OF take] step closed released_one [of "queued_job x" "BrowseTimeout ''queueWait''" t] show ?thesis
    by (auto simp: queue_wait_over_def take refuse_def released_none)
qed

lemma closed_protocol_cancel [simp]: "xi_closed (queue_protocol_cancel x) = xi_closed x"
  by (simp add: queue_protocol_cancel_def)

lemma cancel_closed: "apply_tab_cancel t x = (x', requested, replies) \<Longrightarrow> xi_closed x' = xi_closed x"
  by (auto simp: apply_tab_cancel_def Let_def split: option.splits if_splits)

lemma enqueue_closed: "enqueue_job job x = (x', replies) \<Longrightarrow> xi_closed x' = xi_closed x"
  by (auto simp: enqueue_job_def Let_def split: if_splits)

lemma take_expired_closed: "take_expired ids x = (x', replies) \<Longrightarrow> xi_closed x' = xi_closed x"
proof (induction ids arbitrary: x replies)
  case (Cons t ids)
  from Cons.prems obtain more where more: "take_expired ids (clear_queued t x) = (x', more)"
      "replies = refuse (BrowseTimeout ''queueWait'') (queued_job x t) @ more"
    by (auto simp: Let_def split: prod.splits)
  from Cons.IH [OF more(1)] show ?case by (simp add: clear_queued_def split: option.splits)
qed simp

lemma next_job_closed: "next_job now order x = (x', replies, job) \<Longrightarrow> xi_closed x' = xi_closed x"
  by (auto simp: next_job_def start_queued_def Let_def dest!: take_expired_closed
      split: if_splits prod.splits option.splits)

lemma native_begin_released:
  "native_close_begin t x = (x', replies) \<Longrightarrow>
     released (queued_job x) replies (queued_job x') \<and> xi_closed x' = xi_closed x"
proof -
  assume step: "native_close_begin t x = (x', replies)"
  let ?x = "x\<lparr>xi_closing_tabs := insert t (xi_closing_tabs x)\<rparr>"
  obtain requested where cancel: "apply_tab_cancel t ?x = (x', requested, replies)"
    using step by (auto simp: native_close_begin_def split: prod.splits)
  have "queued_job ?x = queued_job x" by (simp add: queued_job_alt)
  with cancel_released [OF cancel] cancel_closed [OF cancel] released_one [of "queued_job x" BrowseCancelled t]
  show ?thesis by simp
qed

lemma native_end_released:
  "native_close_end t x = (x', replies) \<Longrightarrow>
     released (queued_job x) replies (queued_job x') \<and> xi_closed x' = xi_closed x"
proof -
  assume step: "native_close_end t x = (x', replies)"
  obtain x1 where forget: "forget_tab t x = (x1, replies)" "x' = x1\<lparr>xi_closing_tabs := xi_closing_tabs x1 - {t}\<rparr>"
    using step by (auto simp: native_close_end_def split: prod.splits)
  have "queued_job x' = queued_job x1" by (simp add: forget(2) queued_job_alt)
  moreover have "xi_closed x' = xi_closed x" using forget by (auto simp: forget_tab_def)
  ultimately show ?thesis
    using forget_released [OF forget(1)] released_one [of "queued_job x" BrowseConnectionLost t] by simp
qed

definition browse_jobs_ok :: "'r browse_system \<Rightarrow> bool" where
  "browse_jobs_ok s \<longleftrightarrow> accounted (bs_issued s) (queued_job (bs_inner s)) (bs_running s) (bs_replied s)
     \<and> (xi_closed (bs_inner s) \<longrightarrow> queued_job (bs_inner s) = Map.empty)"

lemma released_from_empty: "released q replies q' \<Longrightarrow> q = Map.empty \<Longrightarrow> q' = Map.empty"
  by (induction rule: released.induct) auto

lemma browse_jobs_ok_replied:
  assumes "browse_jobs_ok s" "released (queued_job (bs_inner s)) replies (queued_job x)" "xi_closed x = xi_closed (bs_inner s)"
  shows "browse_jobs_ok (replied x replies s)"
  using assms accounted_released [OF assms(2)] released_from_empty [OF assms(2)]
  by (auto simp: browse_jobs_ok_def replied_def)

lemma browse_jobs_ok_step: "browse_step s s' \<Longrightarrow> browse_jobs_ok s \<Longrightarrow> browse_jobs_ok s'"
proof (induction rule: browse_step.induct)
  case (step_submit job s x replies)
  then have job: "enqueue_job job (bs_inner s) = (x, replies)" "\<not> xi_closed (bs_inner s)"
    by (auto simp: submit_job_def split: if_splits)
  with accounted_enqueue [OF job(1)] step_submit enqueue_closed [OF job(1)] show ?case
    by (simp add: browse_jobs_ok_def replied_def)
next
  case (step_cancel tab_id s x requested replies)
  with cancel_released [OF step_cancel(1)] cancel_closed [OF step_cancel(1)] show ?case
    by (intro browse_jobs_ok_replied) (auto intro: released_one)
next
  case (step_wait_over tab_id request_id s x replies)
  with wait_over_released [OF step_wait_over(1)] show ?case by (intro browse_jobs_ok_replied) auto
next
  case (step_start s order now x replies job)
  note closed = next_job_closed [OF step_start(4)]
  from step_start(5) have before: "accounted (bs_issued s) (queued_job (bs_inner s)) None (bs_replied s)"
    by (simp add: browse_jobs_ok_def step_start(1))
  from next_job_released [OF step_start(4)] show ?case
  proof (elim disjE exE conjE)
    fix q t assume q: "released (queued_job (bs_inner s)) replies q" "job = q t" "queued_job x = q(t := None)"
    note after = accounted_released [OF q(1) before]
    have "accounted (bs_issued s) (q(t := None)) (q t) (bs_replied s @ replies)"
    proof (cases "q t")
      case None
      with after fun_upd_same [of q t None] show ?thesis by simp
    qed (simp add: accounted_taken [OF after])
    with q closed step_start(5) released_from_empty [OF q(1)] show ?thesis
      by (auto simp: browse_jobs_ok_def replied_def)
  next
    assume q: "released (queued_job (bs_inner s)) replies (queued_job x)" "job = None"
    with accounted_released [OF q(1) before] closed step_start(5) released_from_empty [OF q(1)] show ?thesis
      by (auto simp: browse_jobs_ok_def replied_def)
  qed
next
  case (step_finish s job now result x terminal)
  from step_finish(3) have "accounted (bs_issued s) (queued_job (bs_inner s)) (Some job) (bs_replied s)"
    by (simp add: browse_jobs_ok_def step_finish(1))
  from accounted_finished [OF this] step_finish(3) complete_queued [OF step_finish(2)] show ?case
    by (simp add: browse_jobs_ok_def replied_def)
next
  case (step_close order s fence x replies)
  with accounted_released [OF close_released [OF step_close(3,1,2), THEN conjunct1]] close_released [OF step_close(3,1,2)]
  show ?case by (simp add: browse_jobs_ok_def replied_def)
next
  case (step_forget tab_id s x replies)
  have "xi_closed x = xi_closed (bs_inner s)" using step_forget(1) by (auto simp: forget_tab_def)
  with step_forget forget_released [OF step_forget(1)] show ?case
    by (intro browse_jobs_ok_replied) (auto intro: released_one)
next
  case (step_native_begin tab_id s x replies)
  with native_begin_released [OF step_native_begin(1)] show ?case by (intro browse_jobs_ok_replied) auto
next
  case (step_native_end tab_id s x replies)
  with native_end_released [OF step_native_end(1)] show ?case by (intro browse_jobs_ok_replied) auto
qed (auto simp: browse_jobs_ok_def queued_job_alt)

lemma browse_jobs_ok_run: "browse_run s \<Longrightarrow> browse_jobs_ok s"
proof (induction rule: browse_run.induct)
  case (run_start now)
  then show ?case
    by (auto simp: browse_jobs_ok_def browse_start_def new_executor_def accounted_def queued_job_def ran_def)
qed (rule browse_jobs_ok_step)

text \<open>
  C12: Every browse request is answered once: under any interleaving of submissions, cancellations,
  queue timeouts, tab and connection closes with the worker, no reply channel gets two answers, and
  once the executor is closed and its worker is done every request it had taken in has its answer.
\<close>

theorem every_request_is_answered_once:
  assumes "browse_run s" "xi_closed (bs_inner s)" "bs_running s = None"
  shows "distinct (map fst (bs_replied s)) \<and> set (map fst (bs_replied s)) = set (bs_issued s)"
  using browse_jobs_ok_run [OF assms(1)] assms(2,3) by (simp add: browse_jobs_ok_def accounted_def)

section \<open>Late results\<close>

text \<open>One slot against the worker; every call changes the slots one by one.\<close>

definition tab_slot_agrees :: "browse_job option \<Rightarrow> string \<Rightarrow> tab_slot \<Rightarrow> bool" where
  "tab_slot_agrees running t slot \<longleftrightarrow>
     (\<forall>j. ts_queued slot = Some j \<longrightarrow> bj_tab j = t \<and> bj_request j = ts_latest slot) \<and>
     (\<forall>i. ts_in_flight slot = Some i \<longrightarrow>
        (\<exists>j. running = Some j \<and> bj_tab j = t \<and> bj_request j = i) \<and> i \<le> ts_latest slot \<and>
        (i < ts_latest slot \<longrightarrow> ts_interrupt slot \<noteq> NoInterrupt))"

definition tabs_agree :: "browse_job option \<Rightarrow> (string \<rightharpoonup> tab_slot) \<Rightarrow> bool" where
  "tabs_agree running tabs \<longleftrightarrow> (\<forall>t slot. tabs t = Some slot \<longrightarrow> tab_slot_agrees running t slot)"

lemma tabs_agree_update: "tabs_agree running tabs \<Longrightarrow> tab_slot_agrees running t slot \<Longrightarrow> tabs_agree running (tabs(t \<mapsto> slot))"
  by (simp add: tabs_agree_def)

lemma tabs_agree_remove: "tabs_agree running tabs \<Longrightarrow> tabs_agree running (tabs(t := None))"
  by (simp add: tabs_agree_def)

lemma tab_slot_agrees_clear: "tab_slot_agrees running t slot \<Longrightarrow> tab_slot_agrees running t (slot\<lparr>ts_queued := None\<rparr>)"
  by (simp add: tab_slot_agrees_def)

lemma tabs_agree_enqueue:
  assumes "enqueue_job job x = (x', replies)" "tabs_agree running (xi_tabs x)"
  shows "tabs_agree running (xi_tabs x')"
proof -
  let ?tab = "case xi_tabs x (bj_tab job) of None \<Rightarrow> empty_slot | Some tab \<Rightarrow> tab"
  have tab: "tab_slot_agrees running (bj_tab job) ?tab"
  proof (cases "xi_tabs x (bj_tab job)")
    case (Some tab)
    with assms(2) show ?thesis by (simp add: tabs_agree_def)
  qed (simp add: tab_slot_agrees_def empty_slot_def)
  show ?thesis
  proof (cases "bj_request job < ts_latest ?tab")
    case True
    with assms tab show ?thesis by (auto simp: enqueue_job_def Let_def intro: tabs_agree_update)
  next
    case False
    let ?new = "?tab\<lparr>ts_latest := bj_request job,
      ts_interrupt := (if ts_in_flight ?tab \<noteq> None then Supersede else ts_interrupt ?tab), ts_queued := Some job\<rparr>"
    have "tab_slot_agrees running (bj_tab job) ?new" using tab False by (auto simp: tab_slot_agrees_def)
    moreover have "xi_tabs x' = (xi_tabs x)(bj_tab job \<mapsto> ?new)"
      using assms(1) False by (auto simp: enqueue_job_def Let_def split: if_splits)
    ultimately show ?thesis using assms(2) by (simp add: tabs_agree_update)
  qed
qed

lemma tabs_agree_cancel:
  assumes "apply_tab_cancel t x = (x', requested, replies)" "tabs_agree running (xi_tabs x)"
  shows "tabs_agree running (xi_tabs x')"
proof (cases "xi_tabs x t")
  case None
  with assms show ?thesis by (simp add: apply_tab_cancel_def)
next
  case (Some slot)
  let ?new = "slot\<lparr>ts_queued := None, ts_interrupt := (if ts_in_flight slot \<noteq> None then CancelRequested else ts_interrupt slot)\<rparr>"
  have "tab_slot_agrees running t ?new" using assms(2) Some by (auto simp: tabs_agree_def tab_slot_agrees_def)
  moreover have "xi_tabs x' = (xi_tabs x)(t \<mapsto> ?new)"
    using assms(1) Some by (auto simp: apply_tab_cancel_def Let_def split: if_splits)
  ultimately show ?thesis using assms(2) by (simp add: tabs_agree_update)
qed

lemma tabs_agree_clear: "tabs_agree running (xi_tabs x) \<Longrightarrow> tabs_agree running (xi_tabs (clear_queued t x))"
  by (auto simp: clear_queued_def tabs_agree_def tab_slot_agrees_clear split: option.split)

lemma tabs_agree_expired:
  "take_expired ids x = (x', replies) \<Longrightarrow> tabs_agree running (xi_tabs x) \<Longrightarrow> tabs_agree running (xi_tabs x')"
proof (induction ids arbitrary: x replies)
  case (Cons t ids)
  from Cons.prems obtain more where more: "take_expired ids (clear_queued t x) = (x', more)"
      "replies = refuse (BrowseTimeout ''queueWait'') (queued_job x t) @ more"
    by (auto simp: Let_def split: prod.splits)
  from Cons.IH [OF more(1) tabs_agree_clear [OF Cons.prems(2)]] show ?case .
qed simp

lemma tabs_agree_wait_over:
  "queue_wait_over t i x = (x', replies) \<Longrightarrow> tabs_agree running (xi_tabs x) \<Longrightarrow> tabs_agree running (xi_tabs x')"
  by (auto simp: queue_wait_over_def take_queued_def tabs_agree_def tab_slot_agrees_clear split: option.splits if_splits)

lemma tabs_agree_start:
  assumes "start_queued t now x = (x', job)" "tabs_agree None (xi_tabs x)"
  shows "tabs_agree job (xi_tabs x')"
proof (cases "queued_job x t")
  case None
  with assms show ?thesis by (auto simp: start_queued_def queued_job_def split: option.splits)
next
  case (Some j)
  then obtain slot where slot: "xi_tabs x t = Some slot" "ts_queued slot = Some j"
    by (auto simp: queued_job_def split: option.splits)
  with assms have x': "job = Some j" "xi_tabs x' = (xi_tabs x)(t \<mapsto> slot\<lparr>ts_queued := None,
      ts_in_flight := Some (bj_request j), ts_interrupt := NoInterrupt\<rparr>)"
    by (auto simp: start_queued_def)
  have "tab_slot_agrees None u s \<Longrightarrow> tab_slot_agrees (Some j) u s" for u s by (simp add: tab_slot_agrees_def)
  with assms(2) slot show ?thesis by (auto simp: x' tabs_agree_def tab_slot_agrees_def)
qed

lemma tabs_agree_next:
  assumes "next_job now order x = (x', replies, job)" "tabs_agree None (xi_tabs x)"
  shows "tabs_agree job (xi_tabs x')"
proof (cases "xi_closed x")
  case True
  with assms show ?thesis by (simp add: next_job_def)
next
  case False
  obtain expired ready where scan: "scan_tabs now x order ([], None) = (expired, ready)"
    by (cases "scan_tabs now x order ([], None)")
  obtain x1 r1 where expire: "take_expired expired x = (x1, r1 :: 'a replies)" by (cases "take_expired expired x :: _ \<times> 'a replies")
  note agree = tabs_agree_expired [OF expire assms(2)]
  show ?thesis
  proof (cases ready)
    case None
    with assms(1) False scan expire agree show ?thesis by (auto simp: next_job_def)
  next
    case (Some r)
    then obtain at t where ready: "ready = Some (at, t)" by (cases r) auto
    obtain x2 j where start: "start_queued t now x1 = (x2, j)" by (cases "start_queued t now x1")
    with assms(1) False scan expire ready have "x' = x2" "job = j" by (auto simp: next_job_def)
    with tabs_agree_start [OF start agree] show ?thesis by simp
  qed
qed

lemma tabs_agree_complete:
  assumes "complete_job (bj_tab j) (bj_request j) now result x = (x', terminal)" "tabs_agree (Some j) (xi_tabs x)"
  shows "tabs_agree None (xi_tabs x')"
  unfolding tabs_agree_def
proof (intro allI impI)
  fix t slot assume slot: "xi_tabs x' t = Some slot"
  show "tab_slot_agrees None t slot"
  proof (cases "t = bj_tab j")
    case True
    with assms(1) slot obtain old where old: "xi_tabs x t = Some old"
        "slot = (if ts_in_flight old = Some (bj_request j) then old\<lparr>ts_in_flight := None, ts_interrupt := NoInterrupt\<rparr> else old)"
      by (cases "xi_tabs x t") (auto simp: complete_job_def Let_def split: if_splits)
    with assms(2) have "tab_slot_agrees (Some j) t old" by (simp add: tabs_agree_def)
    then show ?thesis unfolding old(2) tab_slot_agrees_def by (cases "ts_in_flight old") auto
  next
    case False
    with assms(1) slot have "xi_tabs x t = Some slot"
      by (auto simp: complete_job_def Let_def split: option.splits if_splits)
    with assms(2) False show ?thesis by (cases "ts_in_flight slot") (auto simp: tabs_agree_def tab_slot_agrees_def)
  qed
qed

lemma tab_slot_agrees_closed: "tab_slot_agrees running t slot \<Longrightarrow> tab_slot_agrees running t (close_tab_slot fence slot)"
  by (cases fence) (simp_all add: tab_slot_agrees_def close_tab_slot_def)

lemma tabs_agree_close:
  "close_executor fence order x = (x', replies) \<Longrightarrow> tabs_agree running (xi_tabs x) \<Longrightarrow> tabs_agree running (xi_tabs x')"
  using tab_slot_agrees_closed by (auto simp: close_executor_def tabs_agree_def)

lemma tabs_agree_native_begin:
  assumes "native_close_begin t x = (x', replies)" "tabs_agree running (xi_tabs x)"
  shows "tabs_agree running (xi_tabs x')"
proof -
  let ?x = "x\<lparr>xi_closing_tabs := insert t (xi_closing_tabs x)\<rparr>"
  obtain requested where cancel: "apply_tab_cancel t ?x = (x', requested, replies)"
    using assms(1) by (auto simp: native_close_begin_def split: prod.splits)
  show ?thesis by (rule tabs_agree_cancel [OF cancel]) (simp add: assms(2))
qed

definition worker_agrees :: "'r browse_system \<Rightarrow> bool" where
  "worker_agrees s \<longleftrightarrow> tabs_agree (bs_running s) (xi_tabs (bs_inner s))"

lemma worker_agrees_step: "browse_step s s' \<Longrightarrow> worker_agrees s \<Longrightarrow> worker_agrees s'"
proof (induction rule: browse_step.induct)
  case (step_submit job s x replies)
  then have "enqueue_job job (bs_inner s) = (x, replies)" by (auto simp: submit_job_def split: if_splits)
  from tabs_agree_enqueue [OF this] step_submit(3) show ?case by (simp add: worker_agrees_def replied_def)
next
  case (step_finish s job now result x terminal)
  with tabs_agree_complete [OF step_finish(2)] show ?case by (simp add: worker_agrees_def replied_def)
next
  case (step_start s order now x replies job)
  with tabs_agree_next [OF step_start(4)] show ?case by (simp add: worker_agrees_def replied_def)
next
  case (step_native_end tab_id s x replies)
  then show ?case
    by (auto simp: worker_agrees_def replied_def native_close_end_def forget_tab_def intro: tabs_agree_remove)
next
  case (step_forget tab_id s x replies)
  then show ?case by (auto simp: worker_agrees_def replied_def forget_tab_def intro: tabs_agree_remove)
qed (auto simp: worker_agrees_def replied_def dest: tabs_agree_cancel tabs_agree_wait_over tabs_agree_close tabs_agree_native_begin)

lemma worker_agrees_run: "browse_run s \<Longrightarrow> worker_agrees s"
proof (induction rule: browse_run.induct)
  case (run_start now)
  then show ?case by (simp add: worker_agrees_def browse_start_def new_executor_def tabs_agree_def)
qed (rule worker_agrees_step)


section \<open>A sample run\<close>

definition sample_early :: browse_job where
  "sample_early = \<lparr>bj_tab = ''t'', bj_request = 1, bj_enqueued_at = 0, bj_kind = CountWork [], bj_reply = 0\<rparr>"

definition sample_later :: browse_job where
  "sample_later = \<lparr>bj_tab = ''t'', bj_request = 2, bj_enqueued_at = 5, bj_kind = CountWork [], bj_reply = 1\<rparr>"

abbreviation sample_slot :: "browse_job option \<Rightarrow> nat \<Rightarrow> nat option \<Rightarrow> interrupt \<Rightarrow> string \<rightharpoonup> tab_slot" where
  "sample_slot queued latest in_flight i \<equiv>
     [''t'' \<mapsto> \<lparr>ts_latest = latest, ts_queued = queued, ts_in_flight = in_flight, ts_interrupt = i\<rparr>]"

abbreviation sample_executor :: "(string \<rightharpoonup> tab_slot) \<Rightarrow> bool \<Rightarrow> bool \<Rightarrow> executor_inner" where
  "sample_executor tabs closed busy \<equiv> \<lparr>xi_closing_tabs = {}, xi_connected = False, xi_tabs = tabs, xi_last_used = 0,
     xi_closed = closed, xi_busy = busy, xi_pending_cancel = False\<rparr>"

abbreviation sample_state :: "executor_inner \<Rightarrow> browse_job option \<Rightarrow> unit replies \<Rightarrow> nat list \<Rightarrow> unit browse_system" where
  "sample_state x running replies issued \<equiv>
     \<lparr>bs_inner = x, bs_running = running, bs_replied = replies, bs_issued = issued\<rparr>"

lemma sample_running: "browse_run (sample_state (sample_executor (sample_slot None 1 (Some 1) NoInterrupt) False True) (Some sample_early) [] [0])"
proof -
  let ?s0 = "browse_start 0 :: unit browse_system"
  let ?s1 = "sample_state (sample_executor (sample_slot (Some sample_early) 1 None NoInterrupt) False False) None [] [0]"
  have "browse_step ?s0 (replied (bs_inner ?s1) [] (?s0\<lparr>bs_issued := bs_issued ?s0 @ [bj_reply sample_early]\<rparr>))"
    by (rule step_submit) (simp_all add: submit_job_def enqueue_job_def sample_early_def browse_start_def new_executor_def
      empty_slot_def refuse_def)
  then have "browse_run ?s1"
    using run_step [OF run_start [of 0]] by (simp add: replied_def browse_start_def sample_early_def)
  moreover have "browse_step ?s1 (replied (sample_executor (sample_slot None 1 (Some 1) NoInterrupt) False True) [] (?s1\<lparr>bs_running := Some sample_early\<rparr>))"
    by (rule step_start [where order = "[''t'']" and now = 0])
      (simp_all add: next_job_def queued_job_def QUEUE_WAIT_def start_queued_def sample_early_def)
  ultimately show ?thesis using run_step by (force simp: replied_def)
qed

lemma sample_superseded:
  "browse_run (sample_state (sample_executor (sample_slot (Some sample_later) 2 (Some 1) Supersede) False True) (Some sample_early) [] [0, 1])"
proof -
  let ?s = "sample_state (sample_executor (sample_slot None 1 (Some 1) NoInterrupt) False True) (Some sample_early) [] [0]"
  have "browse_step ?s (replied (sample_executor (sample_slot (Some sample_later) 2 (Some 1) Supersede) False True) []
      (?s\<lparr>bs_issued := bs_issued ?s @ [bj_reply sample_later]\<rparr>))"
    by (rule step_submit) (simp_all add: submit_job_def enqueue_job_def sample_later_def refuse_def queue_protocol_cancel_def)
  with run_step [OF sample_running] show ?thesis by (simp add: replied_def sample_later_def)
qed


lemma every_request_is_answered_once_witness:
  "\<exists>replies :: unit replies. distinct (map fst replies) \<and> set (map fst replies) = {0, 1}"
proof -
  let ?s = "sample_state (sample_executor (sample_slot (Some sample_later) 2 (Some 1) Supersede) False True) (Some sample_early) [] [0, 1]"
  let ?c = "sample_state (sample_executor (sample_slot None 2 (Some 1) Closing) True False) (Some sample_early)
      [(1, Inl BrowseConnectionClosing)] [0, 1]"
  have "browse_step ?s (replied (bs_inner ?c) [(1, Inl BrowseConnectionClosing)] ?s)"
    by (rule step_close [where order = "[''t'']" and fence = True])
      (auto simp: close_executor_def close_tab_slot_def queued_job_def refuse_def sample_later_def fun_eq_iff)
  then have closed: "browse_run ?c" using run_step [OF sample_superseded] by (simp add: replied_def)
  let ?f = "sample_state (sample_executor (sample_slot None 2 None NoInterrupt) True False) None
      [(1, Inl BrowseConnectionClosing), (0, Inl BrowseConnectionClosing)] [0, 1]"
  have "browse_step ?c (replied (bs_inner ?f) [(bj_reply sample_early, Inl BrowseConnectionClosing)] (?c\<lparr>bs_running := None\<rparr>))"
    by (rule step_finish [where now = 0 and result = "Inr ()"])
      (simp_all add: complete_job_def finalize_interrupt_def sample_early_def Let_def)
  then have "browse_run ?f" using run_step [OF closed] by (simp add: replied_def sample_early_def)
  from every_request_is_answered_once [OF this] show ?thesis by (intro exI [of _ "bs_replied ?f"]) simp
qed

text \<open>
  Outside the native profile \<open>close_tab\<close> forgets the slot of a tab that still runs: when the tab comes
  back before the request ends, the cancellation is lost with the slot and the result is delivered.
\<close>

lemma reopened_tab_revives_a_cancelled_request:
  "\<exists>s :: unit browse_system. browse_run s \<and> (0, Inr ()) \<in> set (bs_replied s)"
proof -
  let ?a = "sample_state (sample_executor (sample_slot None 1 (Some 1) NoInterrupt) False True) (Some sample_early) [] [0]"
  let ?b = "sample_state (sample_executor (sample_slot None 1 (Some 1) CancelRequested) False True) (Some sample_early) [] [0]"
  have "browse_step ?a (replied (bs_inner ?b) [] ?a)"
    by (rule step_cancel [where tab_id = "''t''" and requested = True])
      (simp add: apply_tab_cancel_def queue_protocol_cancel_def refuse_def)
  then have b: "browse_run ?b" using run_step [OF sample_running] by (simp add: replied_def)
  let ?c = "sample_state (sample_executor Map.empty False True) (Some sample_early) [] [0]"
  have "browse_step ?b (replied (bs_inner ?c) [] ?b)"
    by (rule step_forget [where tab_id = "''t''"]) (simp add: forget_tab_def queued_job_def refuse_def)
  then have c: "browse_run ?c" using run_step [OF b] by (simp add: replied_def)
  let ?d = "sample_state (sample_executor (sample_slot (Some sample_later) 2 None NoInterrupt) False True) (Some sample_early) [] [0, 1]"
  have "browse_step ?c (replied (bs_inner ?d) [] (?c\<lparr>bs_issued := bs_issued ?c @ [bj_reply sample_later]\<rparr>))"
    by (rule step_submit) (simp_all add: submit_job_def enqueue_job_def sample_later_def refuse_def empty_slot_def)
  then have d: "browse_run ?d" using run_step [OF c] by (simp add: replied_def sample_later_def)
  let ?e = "sample_state (sample_executor (sample_slot (Some sample_later) 2 None NoInterrupt) False False) None [(0, Inr ())] [0, 1]"
  have "browse_step ?d (replied (bs_inner ?e) [(bj_reply sample_early, Inr ())] (?d\<lparr>bs_running := None\<rparr>))"
    by (rule step_finish [where now = 0 and result = "Inr ()"])
      (simp_all add: complete_job_def finalize_interrupt_def sample_early_def Let_def)
  then have "browse_run ?e" using run_step [OF d] by (simp add: replied_def sample_early_def)
  then show ?thesis by (intro exI [of _ ?e]) simp
qed

end
