(* ===== verification/Spec2Isabelle.thy ===== *)
theory Spec2Isabelle imports SafetyPolicy SqlParamsFacts CsvRoundTrip SchemaReview SchemaRebaseFacts TransferLive CompareProps SocketProps MutationProps BrowseProps BrowsePaging BrowseJobs begin

text \<open>
  dbunk is a desktop database client: a Rust backend that runs SQL against servers, and a native user
  interface.  This library verifies the backend's logic that decides what reaches a server and what a
  file or a draft becomes.  Paths are below \<open>backend/src/\<close>.

  \<^bold>\<open>The parts.\<close>
  \<^item> SQL text (\<open>postgres/sql_lex.rs\<close>, \<open>sql_class.rs\<close>, \<open>sql_params.rs\<close>).  \<open>SqlLex\<close> is the lexer of the
    three dialects; \<open>SqlClass\<close> splits a script into statements and classes each one; \<open>SqlParams\<close> finds
    named parameters, rewrites them to \<open>$1, $2, ..\<close> and plans an execution.
  \<^item> Safety (\<open>safety/policy.rs\<close>, \<open>safety/gate.rs\<close>, \<open>types.rs\<close>).  \<open>SafetyPolicy\<close> resolves the policy of a
    connection and permits, confirms or refuses an intent, most often a script's classes.  The query
    session calls it on every script (\<open>assert_statement_policy\<close>).
  \<^item> CSV transfer (\<open>postgres/transfer/csv.rs\<close>, \<open>runner.rs\<close>).  \<open>CsvCodec\<close> is the byte-driven parser and
    the chunked encoder; \<open>send_record\<close> writes a parsed record to the server through the encoder.
  \<^item> Schema editing (\<open>schema_edit/\<close>).  \<open>SchemaModel\<close> is the captured table, the draft and every edit;
    \<open>SchemaChange\<close> the change list and the plan steps; \<open>SchemaText\<close> the checks on fragments and types;
    \<open>SchemaDiff\<close> the change list of a draft; \<open>SchemaPlan\<close> its steps; \<open>SchemaValidate\<close> its issues;
    \<open>SchemaRebase\<close> the merge onto a newer capture.
  \<^item> The transfer manager (\<open>postgres/transfer/manager.rs\<close>).  \<open>TransferManager\<close> has its state and
    operations, \<open>TransferSystem\<close> their interleavings.
  \<^item> Schema comparison (\<open>schema_compare/\<close>).  \<open>FenceGate\<close> counts the fences a manager is under, a locale
    the managers share; \<open>CompareManager\<close> is the manager, \<open>CompareSystem\<close> it with its supervisors and workers.
  \<^item> Sockets (\<open>socket_lifecycle.rs\<close>).  \<open>SocketLifecycle\<close> is the fence that closes all managers over a
    connection, and the admission state of each of them.
  \<^item> Table browsing (\<open>table_browse/\<close>, \<open>postgres/row_budget.rs\<close>).  \<open>BrowseBuilder\<close> writes the queries,
    \<open>BrowseRows\<close> decodes rows into a page, \<open>BrowseExecutor\<close> queues and interrupts requests.
  \<^item> Edits of a result set (\<open>result_mutation/\<close>).  \<open>MutationBuilder\<close> writes the statements,
    \<open>MutationApply\<close> is the transaction that runs them.

  \<^bold>\<open>How code becomes definitions.\<close>  A struct is a record, an enum a datatype, a function a \<open>definition\<close> or
  \<open>fun\<close> of the same name; a loop is a recursive function with its termination proof, or one step and a
  loop over it.  A Rust \<open>String\<close> or \<open>Vec<u8>\<close> is the list of its bytes.  A \<open>Result\<close> is a sum with the
  error on the left, an \<open>Option\<close> an option, \<open>&mut\<close> a returned state.  \<open>Vec::push\<close> on an out parameter is a
  returned list.  Byte offsets and counts are natural numbers, with the limits of the code written
  out; \<open>u32\<close> positions of the parameter planner keep their wrap-around.  \<open>next_id\<close> of a draft saturates at
  \<open>u64_max\<close>.  Code under a mutex is one step of the state it guards; concurrent tasks are an inductive
  step relation, and a reachable state is one some interleaving of the steps reaches.  Times are
  milliseconds; a clock or a random identifier is an argument of the step that reads it.  What a
  server or a worker answers is arbitrary, a function of the history or an argument.

  \<^bold>\<open>What the lemmas show.\<close>
  \<^item> \<open>SqlLexFacts\<close>: spans, the token cap, quoting helpers, and agreement with an independent model of the
    servers' scanners (\<open>server_step\<close>), for either setting of backslash escapes.
  \<^item> \<open>SqlClassFacts\<close>, \<open>SqlReads\<close>: splitting loses nothing; the class \<open>Read\<close> is characterised by \<open>harmless\<close>.
    This theory joins them with the policy: what a read-only session lets through.
  \<^item> \<open>SqlParamsFacts\<close>: occurrences, binding, error positions mapped back, the text that runs is the text
    that was classed.
  \<^item> \<open>CsvFacts\<close>, \<open>CsvRoundTrip\<close>: the parser's invariant and bounds; what is sent reads back.
  \<^item> \<open>SchemaFacts\<close>: drafts stay well-formed under edits, and validation accepts no others.
    \<open>SchemaMoves\<close>: the moved columns are the fewest.
  \<^item> \<open>SchemaApply\<close> gives the plan steps a meaning, an interpreter of steps on tables, with two locales
    for what the lists of a table share; \<open>SchemaSlots\<close>, \<open>SchemaColumns\<close>, \<open>SchemaStages\<close> follow a plan
    through its eight phases; \<open>SchemaRefine\<close> proves that the plan of a validated draft runs and
    reaches the draft.  \<open>SchemaReview\<close>: the review lists nothing exactly when nothing is run.
  \<^item> \<open>SchemaRebaseFacts\<close>: rebase keeps drafts well-formed, and is the identity when one side did not
    change.
  \<^item> \<open>TransferFacts\<close>, \<open>TransferOps\<close>, \<open>TransferProps\<close>, \<open>TransferLive\<close>: slots are bounded, a cancelled job never
    commits, a teardown fences its scope and ends, if whoever can finish a job finally does.
  \<^item> \<open>CompareFacts\<close>, \<open>CompareProps\<close>: one job per request, bounded jobs, no work behind a fence, and a
    completed comparison is a current one.
  \<^item> \<open>SocketFacts\<close>, \<open>SocketProps\<close>: every manager is closed while a fence is held, by interpreting one
    locale of fenced managers; and where overlapping fences reopen a manager.
  \<^item> \<open>BrowseProps\<close>: filters are literal and values stay out of the text.  \<open>BrowsePaging\<close>: pages by key
    show every row once; where the row cap loses a key.  \<open>BrowseJobs\<close>: one answer per request, no late
    result.
  \<^item> \<open>SqlFragments\<close> lexes generated text piece by piece; \<open>MutationApplyFacts\<close> follows the transaction;
    \<open>MutationProps\<close>: what is accepted, what class it has, and that a commit is the preview.

  \<^bold>\<open>Bounds and fuel.\<close>  All loops but one terminate by a measure.  \<open>mentions_loop\<close> does not return on an
  empty name, as in the source, and is a \<open>partial_function\<close>; \<open>validate\<close> is \<open>None\<close> there.  \<open>server_scan\<close> is
  a fuelled evaluator of the relation \<open>server_lexes\<close> and only used to evaluate samples.  \<open>browse_through\<close> bounds the number of pages it reads; one more than there are rows is enough.

  \<^bold>\<open>Assumed.\<close>  Unicode tables of the standard library (\<open>uc_lower\<close>, \<open>uc_alphanumeric\<close>, \<open>uc_lower_text\<close>,
  \<open>uc_debug\<close>) are a parameter; no property needs a law of them.  \<open>baseline_ok\<close> states what a capture
  delivers: ids tagged by kind, existing objects only, members that are columns of the table.  The
  servers' scanners are modelled from their documentation, as are \<open>ILIKE\<close> (\<open>documented_like\<close>) and the
  order in which a keyset query is answered (\<open>serves_in_key_order\<close>).  \<open>casts_ok\<close>: the type names the
  catalog gives lex on their own.  Row sizes (\<open>json_bytes\<close>) are an argument.

  \<^bold>\<open>Not modelled.\<close>  The query session engine, tunnels, storage, keychains and drivers are asynchronous
  I/O over third-party crates; of the query sessions and the backup tools only the gate a fence closes
  is modelled.  Of the managers, timeouts of their cleanup, the native settling of tasks and the text
  of progress messages are left out; a fence begins in all managers at once.  The analysis of a result
  set, the catalog queries and the counts of the table browser read the catalog and are not modelled.
  The engine planners under \<open>schema_edit/\<close> turn the modelled steps into statements.  The semantics of
  \<open>SchemaApply\<close> does not know that a foreign key depends on the key it references; the order of such
  drops is stated on its own (\<open>plans_drop_keys_first\<close>).  Serialisation and debug output are left out.
\<close>

section \<open>Properties across components\<close>

lemma read_class_statements:
  assumes "set (classify_script_dialect sql d) = {Read}"
  shows "\<exists>ts sts. lex_sql_spanned_dialect sql d = Some ts \<and> split_statements ts = Some sts \<and> sts \<noteq> []
    \<and> (\<forall>st\<in>set sts. harmless d (map sp_token st) \<and> \<not> list_ex (is_executable_comment sql) st)"
proof -
  obtain fs where fs: "describe_script_dialect sql d = Some fs" "sf_class ` set fs = {Read}"
    using assms by (cases "describe_script_dialect sql d") (auto simp: classify_script_dialect_def)
  obtain ts sts where ts: "lex_sql_spanned_dialect sql d = Some ts" "split_statements ts = Some sts"
    "fs = map (describe_statement sql d) sts"
    using describe_script_dialect_SomeD [OF fs(1)] by blast
  have "harmless d (map sp_token st) \<and> \<not> list_ex (is_executable_comment sql) st" if "st \<in> set sts" for st
  proof -
    have "sf_class (describe_statement sql d st) = Read" using fs(2) ts(3) that by auto
    then show ?thesis
      by (auto simp: describe_statement_def Let_def classify_Read_iff split: if_splits)
  qed
  moreover have "sts \<noteq> []" using fs(2) ts(3) by auto
  ultimately show ?thesis using ts by blast
qed



definition hidden_drop :: string where
  "hidden_drop = ''SELECT 1--'' @ [CR] @ '';DROP TABLE t''"


text \<open>A default whose comment a carriage return ends.\<close>

definition hidden_fragment :: string where
  "hidden_fragment = ''1--'' @ [CR] @ '';DROP TABLE t''"

text \<open>
  the fragment check has the same gap.  The text \<open>1--\<close>, a carriage return, \<open>;DROP TABLE t\<close> is an
  accepted default expression for PostgreSQL, where the comment hides the rest, but the server ends
  the comment at the carriage return and reads a statement terminator and a second statement.
\<close>

lemma fragments_can_hide_a_statement:
  "check_fragment hidden_fragment PgEngine = Inr ()
   \<and> (\<exists>ts. server_lexes escapes Postgres hidden_fragment False 0 ts
        \<and> Symbol (CHR '';'') \<in> set (map sp_token ts)
        \<and> Identifier \<lparr>ident_value = ''DROP'', ident_quoted = False\<rparr> \<in> set (map sp_token ts))"
proof
  show "check_fragment hidden_fragment PgEngine = Inr ()" by code_simp
  have "case server_scan 20 escapes Postgres hidden_fragment False 0 of None \<Rightarrow> False
    | Some ts \<Rightarrow> Symbol (CHR '';'') \<in> set (map sp_token ts)
        \<and> Identifier \<lparr>ident_value = ''DROP'', ident_quoted = False\<rparr> \<in> set (map sp_token ts)"
    by (cases escapes) code_simp+
  then show "\<exists>ts. server_lexes escapes Postgres hidden_fragment False 0 ts
        \<and> Symbol (CHR '';'') \<in> set (map sp_token ts)
        \<and> Identifier \<lparr>ident_value = ''DROP'', ident_quoted = False\<rparr> \<in> set (map sp_token ts)"
    by (auto split: option.splits dest: server_scan_lexes)
qed



end
